(* ===== verification/Rust_Prelude.thy ===== *)
theory Rust_Prelude
  imports Main "HOL-Library.Word" "HOL-Library.Monad_Syntax"
begin

text \<open>
  Shared vocabulary of the development: the machine integers of the Rust sources, the
  arithmetic of the Rust standard library on them, results, and the helper lemmas that the
  component theories use.

  \<^item> An unsigned integer \<open>uN\<close> is an \<open>N word\<close>. The operators \<open>+\<close>, \<open>-\<close> and \<open>*\<close> wrap, which is
    what the sources do in the release profile that runtimes and relays are built with (no
    \<open>Cargo.toml\<close> of the workspace sets \<open>overflow-checks\<close>).
  \<^item> \<open>Result<T, E>\<close> is \<open>'e + 't\<close> with \<open>Inl\<close> for \<open>Err\<close>, and \<open>Option<T>\<close> is \<open>'t option\<close>.
  \<^item> A function that can panic returns an \<open>option\<close> whose \<open>None\<close> is the panic.
  \<^item> A \<open>VecDeque\<close> or \<open>Vec\<close> is a list whose head is the front.
\<close>

named_theorems rust_arith "arithmetic of the Rust standard library, read through unat"

type_synonym u8 = "8 word"
type_synonym u32 = "32 word"
type_synonym u64 = "64 word"

section \<open>Saturating and checked arithmetic\<close>

definition saturating_add :: "'l::len word \<Rightarrow> 'l word \<Rightarrow> 'l word" where
  "saturating_add a b = (if unat a + unat b < 2 ^ LENGTH('l) then a + b else - 1)"

definition saturating_sub :: "'l::len word \<Rightarrow> 'l word \<Rightarrow> 'l word" where
  "saturating_sub a b = (if b \<le> a then a - b else 0)"

definition saturating_mul :: "'l::len word \<Rightarrow> 'l word \<Rightarrow> 'l word" where
  "saturating_mul a b = (if unat a * unat b < 2 ^ LENGTH('l) then a * b else - 1)"

definition checked_add :: "'l::len word \<Rightarrow> 'l word \<Rightarrow> 'l word option" where
  "checked_add a b = (if unat a + unat b < 2 ^ LENGTH('l) then Some (a + b) else None)"

definition checked_sub :: "'l::len word \<Rightarrow> 'l word \<Rightarrow> 'l word option" where
  "checked_sub a b = (if b \<le> a then Some (a - b) else None)"

definition checked_mul :: "'l::len word \<Rightarrow> 'l word \<Rightarrow> 'l word option" where
  "checked_mul a b = (if unat a * unat b < 2 ^ LENGTH('l) then Some (a * b) else None)"

definition checked_div :: "'l::len word \<Rightarrow> 'l word \<Rightarrow> 'l word option" where
  "checked_div a b = (if b = 0 then None else Some (a div b))"

text \<open>The operator \<open>%\<close> panics when the divisor is zero.\<close>

definition checked_rem :: "'l::len word \<Rightarrow> 'l word \<Rightarrow> 'l word option" where
  "checked_rem a b = (if b = 0 then None else Some (a mod b))"

text \<open>Saturating conversion between integer types (\<open>saturated_into\<close>, \<open>try_from(..).unwrap_or(MAX)\<close>).\<close>

definition saturating_of_nat :: "nat \<Rightarrow> 'l::len word" where
  "saturating_of_nat n = (if n < 2 ^ LENGTH('l) then of_nat n else - 1)"

lemma unat_max [simp]: "unat (- 1 :: 'l::len word) = 2 ^ LENGTH('l) - 1"
  by (simp add: unsigned_minus_1_eq_mask mask_eq_exp_minus_1)

lemma unat_add_lt: "unat (a :: 'l::len word) + unat b < 2 ^ LENGTH('l) \<Longrightarrow> unat (a + b) = unat a + unat b"
  by (rule unat_add_lem [THEN iffD1])

lemma unat_double: "2 * unat (a :: 'l::len word) < 2 ^ LENGTH('l) \<Longrightarrow> unat (2 * a) = 2 * unat a"
  using unat_add_lt [of a a] by (simp only: mult_2)

lemma unat_lt_64: "unat (a :: u64) < 2 ^ 64"
  using unsigned_less [of a, where ?'a = nat] by simp

lemma unat_of_nat_lt: "n < 2 ^ LENGTH('l) \<Longrightarrow> unat (of_nat n :: 'l::len word) = n"
  by (simp add: unat_of_nat)

lemma unat_sub_le: "b \<le> a \<Longrightarrow> unat (a - b) = unat a - unat (b :: 'l::len word)"
  by (rule unat_sub)

lemma unat_saturating_add [rust_arith]:
  "unat (saturating_add a b) = min (unat a + unat b) (2 ^ LENGTH('l) - 1)"
  for a b :: "'l::len word"
  by (auto simp: saturating_add_def unat_add_lt)

lemma unat_saturating_sub [rust_arith]: "unat (saturating_sub a b) = unat a - unat b"
  by (auto simp: saturating_sub_def unat_sub_le word_le_nat_alt)

lemma unat_saturating_mul [rust_arith]:
  "unat (saturating_mul a b) = min (unat a * unat b) (2 ^ LENGTH('l) - 1)"
  for a b :: "'l::len word"
  by (auto simp: saturating_mul_def unat_mult_lem [THEN iffD1])

lemma unat_saturating_of_nat [rust_arith]:
  "unat (saturating_of_nat n :: 'l::len word) = min n (2 ^ LENGTH('l) - 1)"
  by (auto simp: saturating_of_nat_def unat_of_nat)

lemma checked_add_Some [rust_arith]:
  "checked_add a b = Some c \<longleftrightarrow> unat c = unat a + unat b"
  for a b c :: "'l::len word"
proof
  assume "unat c = unat a + unat b"
  moreover have "unat c < 2 ^ LENGTH('l)" by simp
  ultimately show "checked_add a b = Some c"
    by (simp add: checked_add_def) (metis unat_add_lt word_unat_eq_iff)
qed (auto simp: checked_add_def unat_add_lt split: if_splits)

lemma checked_sub_Some [rust_arith]:
  "checked_sub a b = Some c \<longleftrightarrow> unat a = unat b + unat c"
  for a b c :: "'l::len word"
  by (auto simp: checked_sub_def word_le_nat_alt unat_sub_le word_unat_eq_iff split: if_splits)

lemma checked_sub_None [rust_arith]: "checked_sub a b = None \<longleftrightarrow> a < b"
  by (auto simp: checked_sub_def)

lemma saturating_sub_le [simp]: "saturating_sub a b \<le> a"
  by (simp add: word_le_nat_alt rust_arith)

lemma saturating_sub_0 [simp]: "saturating_sub a 0 = a"
  by (simp add: saturating_sub_def)

lemma unat_succ: "unat (a + 1) = Suc (unat a)" if "a < - 1" for a :: "'l::len word"
proof -
  from that have "unat a < 2 ^ LENGTH('l) - 1" by (simp add: word_less_nat_alt)
  then show ?thesis by (subst unat_add_lt) simp_all
qed

lemma unat_succ_lt: "a < b \<Longrightarrow> unat (a + 1) = Suc (unat a)" for a b :: "'l::len word"
  by (metis unat_succ order_less_le_trans word_order.extremum)

lemma unat_succ_nonzero: "a + 1 \<noteq> 0 \<Longrightarrow> unat (a + 1) = Suc (unat a)" for a :: "'l::len word"
  by (metis unat_succ word_order.not_eq_extremum add.left_inverse)

lemma unat_le_max: "unat a \<le> 2 ^ LENGTH('l) - Suc 0" for a :: "'l::len word"
  using word_order.extremum [of a] by (simp add: word_le_nat_alt)

lemma saturating_add_ge [simp]: "a \<le> saturating_add a b" "b \<le> saturating_add a b"
  for a b :: "'l::len word"
  by (simp_all add: word_le_nat_alt rust_arith unat_le_max)

lemma saturating_zero [simp]:
  "saturating_mul a 0 = 0" "saturating_mul 0 a = 0" "saturating_mul a 1 = a"
  "saturating_add a 0 = a" "saturating_add 0 a = a" for a :: "'l::len word"
  by (simp_all add: saturating_mul_def saturating_add_def)

lemma word_add_le_of_le_sub: "r \<le> a \<Longrightarrow> s \<le> a - r \<Longrightarrow> r + s \<le> a" for a r s :: "'l::len word"
proof -
  assume "r \<le> a" "s \<le> a - r"
  then have le: "unat r + unat s \<le> unat a" by (simp add: word_le_nat_alt unat_sub_le)
  then have "unat r + unat s < 2 ^ LENGTH('l)" by (rule le_less_trans) simp
  with le show ?thesis by (simp add: word_le_nat_alt unat_add_lt)
qed

text \<open>Comparisons with the successor of a word.\<close>

lemma word_le_succ_iff: "unat b = Suc (unat a) \<Longrightarrow> n \<le> b \<longleftrightarrow> n = b \<or> n \<le> a" for a b n :: "'l::len word"
  by (auto simp: word_le_nat_alt word_unat_eq_iff)

lemma word_less_succ_iff: "unat b = Suc (unat a) \<Longrightarrow> n < b \<longleftrightarrow> n \<le> a" for a b n :: "'l::len word"
  by (auto simp: word_le_nat_alt word_less_nat_alt)

lemma word_succ_le_iff: "unat b = Suc (unat a) \<Longrightarrow> b \<le> n \<longleftrightarrow> a < n" for a b n :: "'l::len word"
  by (auto simp: word_le_nat_alt word_less_nat_alt)

text \<open>Results.\<close>

lemma map_sum_eq_Inr_iff: "map_sum f g x = Inr y \<longleftrightarrow> (\<exists>z. x = Inr z \<and> y = g z)"
  by (cases x) auto

lemma map_sum_eq_Inl_iff: "map_sum f g x = Inl y \<longleftrightarrow> (\<exists>z. x = Inl z \<and> y = f z)"
  by (cases x) auto

end
