(* ===== verification/Frame_Weights.thy ===== *)
theory Frame_Weights
  imports Rust_Prelude
begin

text \<open>
  The two-dimensional \<open>Weight\<close> of FRAME and its \<open>RuntimeDbWeight\<close> belong to Substrate, not to this
  repository. The development takes them as parameters: \<open>weight_ops\<close> collects the operations the
  sources call, over an arbitrary type \<open>'w\<close>, and \<open>weight_laws\<close> states their documented behaviour,
  which is componentwise on \<open>ref_time\<close> and \<open>proof_size\<close>. Lemmas that depend on it name
  \<open>weight_laws\<close> as a hypothesis. \<open>pair_weight_ops\<close> is a concrete instance that satisfies the laws;
  the witnesses use it.
\<close>

record 'w weight_ops =
  w_from_parts :: "u64 \<Rightarrow> u64 \<Rightarrow> 'w"
  w_ref_time :: "'w \<Rightarrow> u64"
  w_proof_size :: "'w \<Rightarrow> u64"
  w_set_proof_size :: "'w \<Rightarrow> u64 \<Rightarrow> 'w"
  w_zero :: 'w
  w_MAX :: 'w
  w_add :: "'w \<Rightarrow> 'w \<Rightarrow> 'w"
  w_sub :: "'w \<Rightarrow> 'w \<Rightarrow> 'w"
  w_div :: "'w \<Rightarrow> u64 \<Rightarrow> 'w"
  w_mul :: "'w \<Rightarrow> u64 \<Rightarrow> 'w"
  w_min :: "'w \<Rightarrow> 'w \<Rightarrow> 'w"
  w_saturating_add :: "'w \<Rightarrow> 'w \<Rightarrow> 'w"
  w_saturating_sub :: "'w \<Rightarrow> 'w \<Rightarrow> 'w"
  w_saturating_mul :: "'w \<Rightarrow> u64 \<Rightarrow> 'w"
  w_checked_add :: "'w \<Rightarrow> 'w \<Rightarrow> 'w option"
  w_any_gt :: "'w \<Rightarrow> 'w \<Rightarrow> bool"
  w_all_gte :: "'w \<Rightarrow> 'w \<Rightarrow> bool"
  w_all_lte :: "'w \<Rightarrow> 'w \<Rightarrow> bool"
  w_is_zero :: "'w \<Rightarrow> bool"

definition weight_parts :: "'w weight_ops \<Rightarrow> 'w \<Rightarrow> nat \<times> nat" where
  "weight_parts W a = (unat (w_ref_time W a), unat (w_proof_size W a))"

definition weight_le :: "'w weight_ops \<Rightarrow> 'w \<Rightarrow> 'w \<Rightarrow> bool" where
  "weight_le W a b \<longleftrightarrow> w_ref_time W a \<le> w_ref_time W b \<and> w_proof_size W a \<le> w_proof_size W b"

text \<open>The documented behaviour of the operations, one conjunct per operation.\<close>

definition weight_laws :: "'w weight_ops \<Rightarrow> bool" where
  "weight_laws W \<longleftrightarrow>
     (\<forall>a. w_from_parts W (w_ref_time W a) (w_proof_size W a) = a) \<and>
     (\<forall>r p. w_ref_time W (w_from_parts W r p) = r) \<and>
     (\<forall>r p. w_proof_size W (w_from_parts W r p) = p) \<and>
     (\<forall>a p. w_set_proof_size W a p = w_from_parts W (w_ref_time W a) p) \<and>
     w_zero W = w_from_parts W 0 0 \<and>
     w_MAX W = w_from_parts W (- 1) (- 1) \<and>
     (\<forall>a b. w_add W a b = w_from_parts W (w_ref_time W a + w_ref_time W b)
                                          (w_proof_size W a + w_proof_size W b)) \<and>
     (\<forall>a b. w_sub W a b = w_from_parts W (w_ref_time W a - w_ref_time W b)
                                          (w_proof_size W a - w_proof_size W b)) \<and>
     (\<forall>a n. n \<noteq> 0 \<longrightarrow> w_div W a n = w_from_parts W (w_ref_time W a div n) (w_proof_size W a div n)) \<and>
     (\<forall>a n. w_mul W a n = w_from_parts W (w_ref_time W a * n) (w_proof_size W a * n)) \<and>
     (\<forall>a b. w_min W a b = w_from_parts W (min (w_ref_time W a) (w_ref_time W b))
                                          (min (w_proof_size W a) (w_proof_size W b))) \<and>
     (\<forall>a b. w_saturating_add W a b =
        w_from_parts W (saturating_add (w_ref_time W a) (w_ref_time W b))
                       (saturating_add (w_proof_size W a) (w_proof_size W b))) \<and>
     (\<forall>a b. w_saturating_sub W a b =
        w_from_parts W (saturating_sub (w_ref_time W a) (w_ref_time W b))
                       (saturating_sub (w_proof_size W a) (w_proof_size W b))) \<and>
     (\<forall>a n. w_saturating_mul W a n =
        w_from_parts W (saturating_mul (w_ref_time W a) n) (saturating_mul (w_proof_size W a) n)) \<and>
     (\<forall>a b. w_checked_add W a b =
        (case (checked_add (w_ref_time W a) (w_ref_time W b),
               checked_add (w_proof_size W a) (w_proof_size W b)) of
           (Some r, Some p) \<Rightarrow> Some (w_from_parts W r p) | _ \<Rightarrow> None)) \<and>
     (\<forall>a b. w_any_gt W a b \<longleftrightarrow> w_ref_time W b < w_ref_time W a \<or> w_proof_size W b < w_proof_size W a) \<and>
     (\<forall>a b. w_all_gte W a b \<longleftrightarrow> w_ref_time W b \<le> w_ref_time W a \<and> w_proof_size W b \<le> w_proof_size W a) \<and>
     (\<forall>a b. w_all_lte W a b \<longleftrightarrow> w_ref_time W a \<le> w_ref_time W b \<and> w_proof_size W a \<le> w_proof_size W b) \<and>
     (\<forall>a. w_is_zero W a \<longleftrightarrow> w_ref_time W a = 0 \<and> w_proof_size W a = 0)"

definition pair_weight_ops :: "(u64 \<times> u64) weight_ops" where
  "pair_weight_ops = \<lparr>
     w_from_parts = Pair, w_ref_time = fst, w_proof_size = snd,
     w_set_proof_size = (\<lambda>a p. (fst a, p)),
     w_zero = (0, 0), w_MAX = (- 1, - 1),
     w_add = (\<lambda>a b. (fst a + fst b, snd a + snd b)),
     w_sub = (\<lambda>a b. (fst a - fst b, snd a - snd b)),
     w_div = (\<lambda>a n. (fst a div n, snd a div n)),
     w_mul = (\<lambda>a n. (fst a * n, snd a * n)),
     w_min = (\<lambda>a b. (min (fst a) (fst b), min (snd a) (snd b))),
     w_saturating_add = (\<lambda>a b. (saturating_add (fst a) (fst b), saturating_add (snd a) (snd b))),
     w_saturating_sub = (\<lambda>a b. (saturating_sub (fst a) (fst b), saturating_sub (snd a) (snd b))),
     w_saturating_mul = (\<lambda>a n. (saturating_mul (fst a) n, saturating_mul (snd a) n)),
     w_checked_add = (\<lambda>a b. case (checked_add (fst a) (fst b), checked_add (snd a) (snd b)) of
                               (Some r, Some p) \<Rightarrow> Some (r, p) | _ \<Rightarrow> None),
     w_any_gt = (\<lambda>a b. fst b < fst a \<or> snd b < snd a),
     w_all_gte = (\<lambda>a b. fst b \<le> fst a \<and> snd b \<le> snd a),
     w_all_lte = (\<lambda>a b. fst a \<le> fst b \<and> snd a \<le> snd b),
     w_is_zero = (\<lambda>a. fst a = 0 \<and> snd a = 0)\<rparr>"

lemma weight_laws_pair: "weight_laws pair_weight_ops"
  by (auto simp: weight_laws_def pair_weight_ops_def split: option.split)

text \<open>\<open>RuntimeDbWeight\<close>: the cost of database reads and writes.\<close>

record 'w db_weight =
  db_reads :: "u64 \<Rightarrow> 'w"
  db_writes :: "u64 \<Rightarrow> 'w"
  db_reads_writes :: "u64 \<Rightarrow> u64 \<Rightarrow> 'w"

section \<open>Consequences of the laws\<close>

named_theorems weight_simps "the componentwise reading of the weight operations"

lemma weight_from_parts [weight_simps]:
  assumes "weight_laws W"
  shows "w_ref_time W (w_from_parts W r p) = r" "w_proof_size W (w_from_parts W r p) = p"
  using assms by (simp_all add: weight_laws_def)

lemma weight_parts_from: "weight_laws W \<Longrightarrow> w_from_parts W (w_ref_time W a) (w_proof_size W a) = a"
  by (simp add: weight_laws_def)

lemma weight_eqI:
  "weight_laws W \<Longrightarrow> w_ref_time W a = w_ref_time W b \<Longrightarrow> w_proof_size W a = w_proof_size W b \<Longrightarrow> a = b"
  by (metis weight_parts_from)

lemma weight_op_parts [weight_simps]:
  assumes "weight_laws W"
  shows "w_set_proof_size W a p = w_from_parts W (w_ref_time W a) p"
    and "w_zero W = w_from_parts W 0 0"
    and "w_MAX W = w_from_parts W (- 1) (- 1)"
    and "w_add W a b = w_from_parts W (w_ref_time W a + w_ref_time W b) (w_proof_size W a + w_proof_size W b)"
    and "w_sub W a b = w_from_parts W (w_ref_time W a - w_ref_time W b) (w_proof_size W a - w_proof_size W b)"
    and "w_min W a b = w_from_parts W (min (w_ref_time W a) (w_ref_time W b)) (min (w_proof_size W a) (w_proof_size W b))"
    and "w_saturating_add W a b =
      w_from_parts W (saturating_add (w_ref_time W a) (w_ref_time W b)) (saturating_add (w_proof_size W a) (w_proof_size W b))"
    and "w_saturating_sub W a b =
      w_from_parts W (saturating_sub (w_ref_time W a) (w_ref_time W b)) (saturating_sub (w_proof_size W a) (w_proof_size W b))"
    and "w_saturating_mul W a n =
      w_from_parts W (saturating_mul (w_ref_time W a) n) (saturating_mul (w_proof_size W a) n)"
    and "w_mul W a n = w_from_parts W (w_ref_time W a * n) (w_proof_size W a * n)"
  using assms by (simp_all add: weight_laws_def)

lemma weight_rel_parts [weight_simps]:
  assumes "weight_laws W"
  shows "w_any_gt W a b \<longleftrightarrow> w_ref_time W b < w_ref_time W a \<or> w_proof_size W b < w_proof_size W a"
    and "w_all_gte W a b \<longleftrightarrow> w_ref_time W b \<le> w_ref_time W a \<and> w_proof_size W b \<le> w_proof_size W a"
    and "w_all_lte W a b \<longleftrightarrow> w_ref_time W a \<le> w_ref_time W b \<and> w_proof_size W a \<le> w_proof_size W b"
    and "w_is_zero W a \<longleftrightarrow> w_ref_time W a = 0 \<and> w_proof_size W a = 0"
  using assms by (simp_all add: weight_laws_def)

lemma weight_checked_add:
  assumes "weight_laws W" and "w_checked_add W a b = Some c"
  shows "unat (w_ref_time W c) = unat (w_ref_time W a) + unat (w_ref_time W b)"
    and "unat (w_proof_size W c) = unat (w_proof_size W a) + unat (w_proof_size W b)"
proof -
  from assms have "(case (checked_add (w_ref_time W a) (w_ref_time W b),
               checked_add (w_proof_size W a) (w_proof_size W b)) of
           (Some r, Some p) \<Rightarrow> Some (w_from_parts W r p) | _ \<Rightarrow> None) = Some c"
    by (simp add: weight_laws_def)
  then show "unat (w_ref_time W c) = unat (w_ref_time W a) + unat (w_ref_time W b)"
    and "unat (w_proof_size W c) = unat (w_proof_size W a) + unat (w_proof_size W b)"
    using assms(1) by (auto simp: rust_arith weight_simps split: option.splits)
qed

lemma weight_le_refl [simp]: "weight_le W a a"
  by (simp add: weight_le_def)

lemma weight_le_trans: "weight_le W a b \<Longrightarrow> weight_le W b c \<Longrightarrow> weight_le W a c"
  by (auto simp: weight_le_def)

lemma weight_le_saturating_sub: "weight_laws W \<Longrightarrow> weight_le W (w_saturating_sub W a b) a"
  by (simp add: weight_le_def weight_simps)

lemma weight_le_set_proof_size:
  "weight_laws W \<Longrightarrow> p \<le> w_proof_size W a \<Longrightarrow> weight_le W (w_set_proof_size W a p) a"
  by (simp add: weight_le_def weight_simps)

end
