(* ===== verification/Bridge_Runtime.thy ===== *)
theory Bridge_Runtime
  imports Frame_Weights
begin

text \<open>
  The primitives shared by the bridge pallets (\<open>primitives/runtime/src/lib.rs\<close>): header
  identifiers, operating modes, and the \<open>OwnedBridgeModule\<close> trait that gives every pallet an owner
  and an operating mode. The trait's storage items become an accessor record; the locale
  \<open>owned_bridge_module\<close> states what a pallet's storage has to satisfy and holds the lemmas that all
  pallets inherit by interpretation.
\<close>

section \<open>Header identifiers, sizes and eras\<close>

datatype ('hash, 'number) header_id = HeaderId (hid_number: 'number) (hid_hash: 'hash)

text \<open>\<open>PreComputedSize::size\<close>: a \<open>usize\<close> (a natural number here) clamped to \<open>u32\<close>.\<close>

definition pre_computed_size :: "nat \<Rightarrow> u32" where
  "pre_computed_size n = saturating_of_nat n"

text \<open>
  \<open>HeaderIdProvider\<close> for a header with the given number, hash and parent hash; the identifier of
  the parent does not exist for the genesis header.
\<close>

definition header_id_of :: "('h \<Rightarrow> 'l::len word) \<Rightarrow> ('h \<Rightarrow> 'hash) \<Rightarrow> 'h \<Rightarrow> ('hash, 'l word) header_id" where
  "header_id_of number hash h = HeaderId (number h) (hash h)"

definition header_parent_id ::
  "('h \<Rightarrow> 'l::len word) \<Rightarrow> ('h \<Rightarrow> 'hash) \<Rightarrow> 'h \<Rightarrow> ('hash, 'l word) header_id option" where
  "header_parent_id number parent_hash h =
     map_option (\<lambda>parent_number. HeaderId parent_number (parent_hash h)) (checked_sub (number h) 1)"

datatype ('number, 'hash) transaction_era =
    Immortal
  | Mortal "('hash, 'number) header_id" u32

definition transaction_era_new ::
  "('hash, 'number) header_id \<Rightarrow> u32 option \<Rightarrow> ('number, 'hash) transaction_era" where
  "transaction_era_new best_block_id mortality_period =
     (case mortality_period of None \<Rightarrow> Immortal | Some period \<Rightarrow> Mortal best_block_id period)"

fun era_mortality_period :: "('number, 'hash) transaction_era \<Rightarrow> u32 option" where
  "era_mortality_period Immortal = None"
| "era_mortality_period (Mortal _ period) = Some period"

fun era_signed_payload :: "('number, 'hash) transaction_era \<Rightarrow> 'hash \<Rightarrow> 'hash" where
  "era_signed_payload Immortal genesis_hash = genesis_hash"
| "era_signed_payload (Mortal header_id _) genesis_hash = hid_hash header_id"

definition min_components_checked_div :: "'w weight_ops \<Rightarrow> 'w \<Rightarrow> 'w \<Rightarrow> u64 option" where
  "min_components_checked_div W self other =
     (case checked_div (w_ref_time W self) (w_ref_time W other) of
        None \<Rightarrow> None
      | Some r \<Rightarrow>
          (case checked_div (w_proof_size W self) (w_proof_size W other) of
             None \<Rightarrow> None
           | Some p \<Rightarrow> Some (min r p)))"

section \<open>Operating modes and origins\<close>

datatype basic_operating_mode = Normal | Halted

definition basic_is_halted :: "basic_operating_mode \<Rightarrow> bool" where
  "basic_is_halted mode \<longleftrightarrow> mode = Halted"

datatype owned_bridge_module_error = OwnedHalted

text \<open>
  The origins and errors of a FRAME call. The runtime's own origin type \<open>'o\<close> is a parameter;
  \<open>origin_into\<close> is the conversion to \<open>RawOrigin\<close> (\<open>None\<close> when the origin is not a system origin)
  and \<open>ensure_signed\<close> the FRAME check of the same name.
\<close>

datatype 'acc raw_origin = Root | Signed 'acc | Unsigned

datatype 'e dispatch_error = BadOrigin | ModuleError 'e

record ('o, 'acc) origin_config =
  origin_into :: "'o \<Rightarrow> 'acc raw_origin option"
  ensure_signed :: "'o \<Rightarrow> 'acc option"

text \<open>The result of a FRAME call, and the verdict of the transaction pool on an outdated one.\<close>

datatype pays = PaysYes | PaysNo

record 'w post_dispatch_info =
  actual_weight :: "'w option"
  pays_fee :: pays

datatype invalid_transaction = Stale | InvalidCall

section \<open>The trait OwnedBridgeModule\<close>

record ('s, 'acc, 'm) owned_storage =
  om_owner :: "'s \<Rightarrow> 'acc option"
  om_put_owner :: "'acc option \<Rightarrow> 's \<Rightarrow> 's"
  om_mode :: "'s \<Rightarrow> 'm"
  om_put_mode :: "'m \<Rightarrow> 's \<Rightarrow> 's"
  om_mode_halted :: "'m \<Rightarrow> bool"

definition is_halted :: "('s, 'acc, 'm) owned_storage \<Rightarrow> 's \<Rightarrow> bool" where
  "is_halted M s = om_mode_halted M (om_mode M s)"

definition ensure_owner_or_root ::
  "('o, 'acc, 'z) origin_config_scheme \<Rightarrow> ('s, 'acc, 'm) owned_storage \<Rightarrow> 'o \<Rightarrow> 's \<Rightarrow> 'e dispatch_error + unit"
where
  "ensure_owner_or_root C M origin s =
     (case origin_into C origin of
        Some Root \<Rightarrow> Inr ()
      | Some (Signed signer) \<Rightarrow> if om_owner M s = Some signer then Inr () else Inl BadOrigin
      | _ \<Rightarrow> Inl BadOrigin)"

definition ensure_not_halted ::
  "('s, 'acc, 'm) owned_storage \<Rightarrow> 's \<Rightarrow> owned_bridge_module_error + unit" where
  "ensure_not_halted M s = (if is_halted M s then Inl OwnedHalted else Inr ())"

definition set_owner ::
  "('o, 'acc, 'z) origin_config_scheme \<Rightarrow> ('s, 'acc, 'm) owned_storage \<Rightarrow> 'o \<Rightarrow> 'acc option \<Rightarrow> 's \<Rightarrow>
     'e dispatch_error + 's" where
  "set_owner C M origin maybe_owner s =
     (case ensure_owner_or_root C M origin s of
        Inl e \<Rightarrow> Inl e
      | Inr _ \<Rightarrow>
          (case maybe_owner of
             Some owner \<Rightarrow> Inr (om_put_owner M (Some owner) s)
           | None \<Rightarrow> Inr (om_put_owner M None s)))"

definition set_operating_mode ::
  "('o, 'acc, 'z) origin_config_scheme \<Rightarrow> ('s, 'acc, 'm) owned_storage \<Rightarrow> 'o \<Rightarrow> 'm \<Rightarrow> 's \<Rightarrow>
     'e dispatch_error + 's" where
  "set_operating_mode C M origin mode s =
     (case ensure_owner_or_root C M origin s of
        Inl e \<Rightarrow> Inl e
      | Inr _ \<Rightarrow> Inr (om_put_mode M mode s))"

text \<open>Who may administrate the module: root, and the owner when there is one.\<close>

definition module_admin ::
  "('o, 'acc, 'z) origin_config_scheme \<Rightarrow> ('s, 'acc, 'm) owned_storage \<Rightarrow> 'o \<Rightarrow> 's \<Rightarrow> bool" where
  "module_admin C M origin s \<longleftrightarrow>
     origin_into C origin = Some Root \<or>
     (\<exists>signer. origin_into C origin = Some (Signed signer) \<and> om_owner M s = Some signer)"

lemma ensure_owner_or_root_iff:
  "ensure_owner_or_root C M origin s = (if module_admin C M origin s then Inr () else Inl BadOrigin)"
  by (auto simp: ensure_owner_or_root_def module_admin_def split: option.splits raw_origin.splits)

locale owned_bridge_module =
  fixes M :: "('s, 'acc, 'm) owned_storage"
  assumes owner_put_owner: "om_owner M (om_put_owner M x s) = x"
    and mode_put_owner: "om_mode M (om_put_owner M x s) = om_mode M s"
    and mode_put_mode: "om_mode M (om_put_mode M m s) = m"
    and owner_put_mode: "om_owner M (om_put_mode M m s) = om_owner M s"
begin

lemma set_owner_eq:
  "set_owner C M origin maybe_owner s =
     (if module_admin C M origin s then Inr (om_put_owner M maybe_owner s) else Inl BadOrigin)"
  by (auto simp: set_owner_def ensure_owner_or_root_iff split: option.split)

lemma set_operating_mode_eq:
  "set_operating_mode C M origin mode s =
     (if module_admin C M origin s then Inr (om_put_mode M mode s) else Inl BadOrigin)"
  by (simp add: set_operating_mode_def ensure_owner_or_root_iff)

lemma set_owner_admin:
  assumes "set_owner C M origin maybe_owner s = Inr s'"
  shows "module_admin C M origin s" and "om_owner M s' = maybe_owner" and "is_halted M s' = is_halted M s"
  using assms by (auto simp: set_owner_eq owner_put_owner mode_put_owner is_halted_def split: if_splits)

lemma set_operating_mode_admin:
  assumes "set_operating_mode C M origin mode s = Inr s'"
  shows "module_admin C M origin s" and "om_owner M s' = om_owner M s" and "om_mode M s' = mode"
  using assms by (auto simp: set_operating_mode_eq owner_put_mode mode_put_mode split: if_splits)

lemma halt_then_rejected:
  assumes "set_operating_mode C M origin mode s = Inr s'" and "om_mode_halted M mode"
  shows "ensure_not_halted M s' = Inl OwnedHalted"
  using set_operating_mode_admin(3)[OF assms(1)] assms(2)
  by (simp add: ensure_not_halted_def is_halted_def)

lemma resume_then_accepted:
  assumes "set_operating_mode C M origin mode s = Inr s'" and "\<not> om_mode_halted M mode"
  shows "ensure_not_halted M s' = Inr ()"
  using set_operating_mode_admin(3)[OF assms(1)] assms(2)
  by (simp add: ensure_not_halted_def is_halted_def)

lemma removed_owner_has_no_rights:
  assumes "set_owner C M origin None s = Inr s'" and "origin_into C origin' \<noteq> Some Root"
  shows "set_operating_mode C M origin' mode s' = Inl BadOrigin"
    and "set_owner C M origin' maybe_owner s' = Inl BadOrigin"
  using set_owner_admin(2)[OF assms(1)] assms(2)
  by (auto simp: set_operating_mode_eq set_owner_eq module_admin_def)

end

end
