(* ===== verification/Btree_Map.thy ===== *)
theory Btree_Map
  imports Rust_Prelude
begin

text \<open>
  The ordered map of the Rust standard library (\<open>BTreeMap\<close>) as the list of its entries in key
  order, which is the order its iterators visit. The sources use \<open>insert\<close>, \<open>get\<close>,
  \<open>entry(..).or_default()\<close>, \<open>split_off\<close> and iteration over it. The locale \<open>ordered_map\<close> is the
  contract that the clients rely on.
\<close>

type_synonym ('k, 'v) btree = "('k \<times> 'v) list"

definition btree_wf :: "('k::linorder, 'v) btree \<Rightarrow> bool" where
  "btree_wf m \<longleftrightarrow> sorted_wrt (<) (map fst m)"

definition btree_get :: "('k, 'v) btree \<Rightarrow> 'k \<Rightarrow> 'v option" where
  "btree_get m k = map_of m k"

fun btree_insert :: "'k::linorder \<Rightarrow> 'v \<Rightarrow> ('k, 'v) btree \<Rightarrow> ('k, 'v) btree" where
  "btree_insert k v [] = [(k, v)]"
| "btree_insert k v ((k', v') # m) =
     (if k < k' then (k, v) # (k', v') # m
      else if k = k' then (k, v) # m
      else (k', v') # btree_insert k v m)"

text \<open>\<open>*map.entry(k).or_default() = f(old)\<close>, with the default value \<open>d\<close>.\<close>

definition btree_entry_update ::
  "'k::linorder \<Rightarrow> 'v \<Rightarrow> ('v \<Rightarrow> 'v) \<Rightarrow> ('k, 'v) btree \<Rightarrow> ('k, 'v) btree" where
  "btree_entry_update k d f m =
     btree_insert k (f (case btree_get m k of None \<Rightarrow> d | Some v \<Rightarrow> v)) m"

text \<open>\<open>split_off(&k)\<close> returns the part of the map whose keys are not below \<open>k\<close>.\<close>

definition btree_split_off :: "'k::linorder \<Rightarrow> ('k, 'v) btree \<Rightarrow> ('k, 'v) btree" where
  "btree_split_off k m = filter (\<lambda>(k', v). k \<le> k') m"

lemma btree_get_insert [simp]:
  "btree_get (btree_insert k v m) = (btree_get m)(k \<mapsto> v)"
proof
  fix j
  show "btree_get (btree_insert k v m) j = ((btree_get m)(k \<mapsto> v)) j"
    by (induction k v m rule: btree_insert.induct) (auto simp: btree_get_def)
qed

lemma fst_set_btree_insert: "fst ` set (btree_insert k v m) = insert k (fst ` set m)"
  by (induction k v m rule: btree_insert.induct) auto

lemma btree_wf_Nil [simp]: "btree_wf []"
  by (simp add: btree_wf_def)

lemma btree_wf_Cons:
  "btree_wf ((k, v) # m) \<longleftrightarrow> (\<forall>k' \<in> fst ` set m. k < k') \<and> btree_wf m"
  by (auto simp: btree_wf_def)

lemma btree_wf_insert [simp]: "btree_wf m \<Longrightarrow> btree_wf (btree_insert k v m)"
proof (induction k v m rule: btree_insert.induct)
  case (2 k v k' v' m)
  then show ?case
    by (auto simp: btree_wf_Cons fst_set_btree_insert dest: order.strict_trans)
qed (simp add: btree_wf_Cons)

lemma btree_wf_entry_update [simp]: "btree_wf m \<Longrightarrow> btree_wf (btree_entry_update k d f m)"
  by (simp add: btree_entry_update_def)

lemma btree_wf_split_off [simp]: "btree_wf m \<Longrightarrow> btree_wf (btree_split_off k m)"
proof (induction m)
  case (Cons p m)
  then show ?case by (cases p) (auto simp: btree_split_off_def btree_wf_Cons)
qed (simp add: btree_split_off_def)

lemma btree_get_split_off:
  "btree_get (btree_split_off k m) j = (if k \<le> j then btree_get m j else None)"
  by (induction m) (auto simp: btree_split_off_def btree_get_def)

lemma btree_get_Some_in: "btree_get m k = Some v \<Longrightarrow> (k, v) \<in> set m"
  by (simp add: btree_get_def map_of_SomeD)

lemma btree_get_iff_in: "btree_wf m \<Longrightarrow> btree_get m k = Some v \<longleftrightarrow> (k, v) \<in> set m"
  unfolding btree_get_def btree_wf_def
  by (metis map_of_SomeD map_of_is_SomeI strict_sorted_iff)

text \<open>The total of a measure over the entries, and how an insertion changes it.\<close>

definition btree_total :: "('v \<Rightarrow> nat) \<Rightarrow> ('k, 'v) btree \<Rightarrow> nat" where
  "btree_total f m = (\<Sum>(k, v) \<leftarrow> m. f v)"

lemma btree_total_Nil [simp]: "btree_total f [] = 0"
  by (simp add: btree_total_def)

lemma btree_total_Cons [simp]: "btree_total f ((k, v) # m) = f v + btree_total f m"
  by (simp add: btree_total_def)

lemma btree_get_Cons [simp]:
  "btree_get ((k, v) # m) j = (if j = k then Some v else btree_get m j)"
  by (simp add: btree_get_def)

lemma btree_get_Nil [simp]: "btree_get [] j = None"
  by (simp add: btree_get_def)

lemma btree_get_below: "\<forall>k' \<in> fst ` set m. k < k' \<Longrightarrow> btree_get m k = None"
  for k :: "'k::linorder"
  by (induction m) (auto simp: btree_get_def)

lemma btree_total_insert:
  assumes "btree_wf m"
  shows "btree_total f (btree_insert k v m) + (case btree_get m k of None \<Rightarrow> 0 | Some old \<Rightarrow> f old)
       = btree_total f m + f v"
  using assms
proof (induction k v m rule: btree_insert.induct)
  case (2 k v k' v' m)
  consider "k < k'" | "k = k'" | "k' < k" by fastforce
  then show ?case
  proof cases
    case 1
    with 2 have "btree_get m k = None"
      by (intro btree_get_below) (auto simp: btree_wf_Cons)
    with 1 show ?thesis by auto
  next
    case 3
    with 2 show ?thesis by (auto simp: btree_wf_Cons)
  qed simp
qed simp

lemma btree_get_le_total: "btree_get m k = Some v \<Longrightarrow> f v \<le> btree_total f m"
  by (induction m) (auto simp: btree_get_def btree_total_def split: if_splits)

section \<open>The contract of an ordered map\<close>

locale ordered_map =
  fixes empty :: 'm
    and get :: "'m \<Rightarrow> 'k::linorder \<Rightarrow> 'v option"
    and insert :: "'k \<Rightarrow> 'v \<Rightarrow> 'm \<Rightarrow> 'm"
    and entries :: "'m \<Rightarrow> ('k \<times> 'v) list"
    and wf :: "'m \<Rightarrow> bool"
  assumes get_empty: "get empty k = None"
    and get_insert: "get (insert k v m) = (get m)(k \<mapsto> v)"
    and wf_empty: "wf empty"
    and wf_insert: "wf m \<Longrightarrow> wf (insert k v m)"
    and entries_sorted: "wf m \<Longrightarrow> sorted_wrt (<) (map fst (entries m))"
    and get_entries: "wf m \<Longrightarrow> get m k = Some v \<longleftrightarrow> (k, v) \<in> set (entries m)"
begin

lemma dom_get: "wf m \<Longrightarrow> dom (get m) = fst ` set (entries m)"
  by (force simp: dom_def get_entries)

lemma get_fold_insert:
  "get (fold (\<lambda>(k, v). insert k v) kvs m) = get m ++ map_of (rev kvs)"
proof (induction kvs arbitrary: m)
  case (Cons kv kvs)
  then show ?case by (cases kv) (simp add: get_insert map_add_def fun_eq_iff split: option.split)
qed simp

lemma wf_fold_insert: "wf m \<Longrightarrow> wf (fold (\<lambda>(k, v). insert k v) kvs m)"
  by (induction kvs arbitrary: m) (auto simp: wf_insert split: prod.split)

lemma distinct_entries: "wf m \<Longrightarrow> distinct (map fst (entries m))"
  using entries_sorted strict_sorted_iff by blast

end

interpretation btree: ordered_map "[]" btree_get btree_insert "\<lambda>m. m" btree_wf
  by unfold_locales (auto simp: btree_get_iff_in, simp add: btree_wf_def)

end
