(* ===== verification/Messages_Primitives.thy ===== *)
theory Messages_Primitives
  imports Bridge_Runtime Btree_Map
begin

text \<open>
  The data of the messages pallet (\<open>primitives/messages/src\<close>): lane identifiers, the inbound and
  outbound lane states, the ranges of delivered messages and the reward computation. The lemmas
  relate the ranges to the sets of nonces they stand for and show that a well-formed relayers
  queue is rewarded message by message.
\<close>

section \<open>Lane identifiers\<close>

datatype lane_id = LaneId u8 u8 u8 u8

instantiation lane_id :: linorder
begin

fun less_lane_id :: "lane_id \<Rightarrow> lane_id \<Rightarrow> bool" where
  "LaneId a b c d < LaneId a' b' c' d' \<longleftrightarrow>
     a < a' \<or> (a = a' \<and> (b < b' \<or> (b = b' \<and> (c < c' \<or> (c = c' \<and> d < d')))))"

definition less_eq_lane_id :: "lane_id \<Rightarrow> lane_id \<Rightarrow> bool" where
  "x \<le> y \<longleftrightarrow> x < y \<or> (x :: lane_id) = y"

instance
proof
  fix x y z :: lane_id
  show "x < y \<longleftrightarrow> x \<le> y \<and> \<not> y \<le> x"
    by (cases x; cases y) (auto simp: less_eq_lane_id_def)
  show "x \<le> x"
    by (simp add: less_eq_lane_id_def)
  show "x \<le> y \<Longrightarrow> y \<le> z \<Longrightarrow> x \<le> z"
    by (cases x; cases y; cases z) (auto simp: less_eq_lane_id_def)
  show "x \<le> y \<Longrightarrow> y \<le> x \<Longrightarrow> x = y"
    by (cases x; cases y) (auto simp: less_eq_lane_id_def)
  show "x \<le> y \<or> y \<le> x"
    by (cases x; cases y) (auto simp: less_eq_lane_id_def)
qed

end

section \<open>Messages and lanes\<close>

type_synonym message_nonce = u64
type_synonym message_payload = "u8 list"

record message_key =
  mk_lane_id :: lane_id
  mk_nonce :: message_nonce

record message =
  msg_key :: message_key
  msg_payload :: message_payload

datatype messages_operating_mode = Basic basic_operating_mode | RejectingOutboundMessages

fun messages_is_halted :: "messages_operating_mode \<Rightarrow> bool" where
  "messages_is_halted (Basic mode) = basic_is_halted mode"
| "messages_is_halted RejectingOutboundMessages = False"

record delivered_messages =
  dm_begin :: message_nonce
  dm_end :: message_nonce

record 'r unrewarded_relayer =
  ur_relayer :: 'r
  ur_messages :: delivered_messages

record 'r inbound_lane_data =
  relayers :: "'r unrewarded_relayer list"
  last_confirmed_nonce :: message_nonce

record outbound_lane_data =
  oldest_unpruned_nonce :: message_nonce
  latest_received_nonce :: message_nonce
  latest_generated_nonce :: message_nonce

record unrewarded_relayers_state =
  unrewarded_relayer_entries :: message_nonce
  messages_in_oldest_entry :: message_nonce
  total_messages_in_state :: message_nonce
  last_delivered_nonce_in_state :: message_nonce

record ('d, 'w) message_dispatch_result =
  unspent_weight :: 'w
  dispatch_level_result :: 'd

datatype ('d, 'w) receival_result =
    Dispatched "('d, 'w) message_dispatch_result"
  | InvalidNonce
  | TooManyUnrewardedRelayers
  | TooManyUnconfirmedMessages

record ('d, 'w) received_messages =
  rm_lane :: lane_id
  receive_results :: "(message_nonce \<times> ('d, 'w) receival_result) list"
  skipped_for_not_enough_weight :: "message_nonce list"

definition default_inbound_lane_data :: "'r inbound_lane_data" where
  "default_inbound_lane_data = \<lparr>relayers = [], last_confirmed_nonce = 0\<rparr>"

definition default_outbound_lane_data :: outbound_lane_data where
  "default_outbound_lane_data =
     \<lparr>oldest_unpruned_nonce = 1, latest_received_nonce = 0, latest_generated_nonce = 0\<rparr>"

definition received_messages_new ::
  "lane_id \<Rightarrow> (message_nonce \<times> ('d, 'w) receival_result) list \<Rightarrow> ('d, 'w) received_messages" where
  "received_messages_new lane results =
     \<lparr>rm_lane = lane, receive_results = results, skipped_for_not_enough_weight = []\<rparr>"

definition received_messages_push ::
  "('d, 'w) received_messages \<Rightarrow> message_nonce \<Rightarrow> ('d, 'w) receival_result \<Rightarrow> ('d, 'w) received_messages" where
  "received_messages_push r nonce result = r\<lparr>receive_results := receive_results r @ [(nonce, result)]\<rparr>"

definition push_skipped_for_not_enough_weight ::
  "('d, 'w) received_messages \<Rightarrow> message_nonce \<Rightarrow> ('d, 'w) received_messages" where
  "push_skipped_for_not_enough_weight r nonce =
     r\<lparr>skipped_for_not_enough_weight := skipped_for_not_enough_weight r @ [nonce]\<rparr>"

definition delivered_messages_new :: "message_nonce \<Rightarrow> delivered_messages" where
  "delivered_messages_new nonce = \<lparr>dm_begin = nonce, dm_end = nonce\<rparr>"

definition total_messages :: "delivered_messages \<Rightarrow> message_nonce" where
  "total_messages m = (if dm_begin m \<le> dm_end m then dm_end m - dm_begin m + 1 else 0)"

definition note_dispatched_message :: "delivered_messages \<Rightarrow> delivered_messages" where
  "note_dispatched_message m = m\<lparr>dm_end := dm_end m + 1\<rparr>"

definition contains_message :: "delivered_messages \<Rightarrow> message_nonce \<Rightarrow> bool" where
  "contains_message m nonce \<longleftrightarrow> dm_begin m \<le> nonce \<and> nonce \<le> dm_end m"

definition last_delivered_nonce :: "'r inbound_lane_data \<Rightarrow> message_nonce" where
  "last_delivered_nonce d =
     (case rev (relayers d) of
        entry # _ \<Rightarrow> dm_end (ur_messages entry)
      | [] \<Rightarrow> last_confirmed_nonce d)"

text \<open>
  Sizes are \<open>usize\<close> values; \<open>'l\<close> is the width of \<open>usize\<close> on the platform. The encoded lengths of a
  nonce and of a relayer identifier come from the codec and are parameters.
\<close>

definition encoded_size_hint :: "'l::len word \<Rightarrow> 'l word \<Rightarrow> 'l word \<Rightarrow> 'l word option" where
  "encoded_size_hint message_nonce_size relayer_id_encoded_size relayers_entries =
     do {
       relayers_entry_size \<leftarrow> checked_add relayer_id_encoded_size (2 * message_nonce_size);
       relayers_size \<leftarrow> checked_mul relayers_entries relayers_entry_size;
       checked_add relayers_size message_nonce_size
     }"

definition encoded_size_hint_u32 :: "'l::len word \<Rightarrow> 'l word \<Rightarrow> 'l word \<Rightarrow> u32" where
  "encoded_size_hint_u32 message_nonce_size relayer_id_encoded_size relayers_entries =
     (case encoded_size_hint message_nonce_size relayer_id_encoded_size relayers_entries of
        None \<Rightarrow> - 1
      | Some x \<Rightarrow> if unat x < 2 ^ 32 then ucast x else - 1)"

definition total_unrewarded_messages :: "'r unrewarded_relayer list \<Rightarrow> message_nonce option" where
  "total_unrewarded_messages rs =
     (case (rs, rev rs) of
        (front # _, back # _) \<Rightarrow>
          (case checked_sub (dm_end (ur_messages back)) (dm_begin (ur_messages front)) of
             Some difference \<Rightarrow> checked_add difference 1
           | None \<Rightarrow> Some 0)
      | _ \<Rightarrow> Some 0)"

text \<open>The loop of \<open>calc_relayers_rewards\<close> over the entries, for the inclusive range of confirmed nonces.\<close>

definition reward_entry ::
  "message_nonce \<Rightarrow> message_nonce \<Rightarrow> 'r::linorder unrewarded_relayer \<Rightarrow>
     ('r, message_nonce) btree \<Rightarrow> ('r, message_nonce) btree" where
  "reward_entry range_start range_end entry rewards =
     (let nonce_begin = max (dm_begin (ur_messages entry)) range_start;
          nonce_end = min (dm_end (ur_messages entry)) range_end
      in if nonce_begin \<le> nonce_end
         then btree_entry_update (ur_relayer entry) 0 (\<lambda>n. n + (nonce_end - nonce_begin + 1)) rewards
         else rewards)"

definition calc_relayers_rewards ::
  "'r::linorder unrewarded_relayer list \<Rightarrow> message_nonce \<times> message_nonce \<Rightarrow> ('r, message_nonce) btree" where
  "calc_relayers_rewards messages_relayers received_range =
     fold (reward_entry (fst received_range) (snd received_range)) messages_relayers []"

section \<open>The target chain side: dispatch messages and forbidden lanes\<close>

text \<open>
  \<open>'p\<close> is the result of decoding a payload, \<open>Result<DispatchPayload, CodecError>\<close>; the decoder is a
  parameter.
\<close>

record 'p dispatch_message_data =
  dmd_payload :: 'p

record 'p dispatch_message =
  dmsg_key :: message_key
  dmsg_data :: "'p dispatch_message_data"

record 'm proved_lane_messages =
  pm_lane_state :: "outbound_lane_data option"
  pm_messages :: "'m list"

type_synonym 'm proved_messages = "(lane_id, 'm proved_lane_messages) btree"

definition default_proved_lane_messages :: "'m proved_lane_messages" where
  "default_proved_lane_messages = \<lparr>pm_lane_state = None, pm_messages = []\<rparr>"

definition dispatch_message_data_from :: "(message_payload \<Rightarrow> 'p) \<Rightarrow> message_payload \<Rightarrow> 'p dispatch_message_data" where
  "dispatch_message_data_from decode payload = \<lparr>dmd_payload = decode payload\<rparr>"

definition dispatch_message_from :: "(message_payload \<Rightarrow> 'p) \<Rightarrow> message \<Rightarrow> 'p dispatch_message" where
  "dispatch_message_from decode m =
     \<lparr>dmsg_key = msg_key m, dmsg_data = dispatch_message_data_from decode (msg_payload m)\<rparr>"

datatype forbidden_error = ALL_INBOUND_MESSAGES_REJECTED | ALL_OUTBOUND_MESSAGES_REJECTED

definition forbid_verify_messages_proof :: "'proof \<Rightarrow> u32 \<Rightarrow> forbidden_error + message proved_messages" where
  "forbid_verify_messages_proof _ _ = Inl ALL_INBOUND_MESSAGES_REJECTED"

definition forbid_dispatch_weight :: "'w weight_ops \<Rightarrow> 'p dispatch_message \<Rightarrow> 'w \<times> 'p dispatch_message" where
  "forbid_dispatch_weight W m = (w_MAX W, m)"

definition forbid_dispatch ::
  "'w weight_ops \<Rightarrow> 'acc \<Rightarrow> 'p dispatch_message \<Rightarrow> (unit, 'w) message_dispatch_result" where
  "forbid_dispatch W _ _ = \<lparr>unspent_weight = w_zero W, dispatch_level_result = ()\<rparr>"

definition forbid_verify_message :: "'payload \<Rightarrow> forbidden_error + unit" where
  "forbid_verify_message _ = Inl ALL_OUTBOUND_MESSAGES_REJECTED"

definition forbid_verify_messages_delivery_proof ::
  "unit \<Rightarrow> forbidden_error + (lane_id \<times> 'r inbound_lane_data)" where
  "forbid_verify_messages_delivery_proof _ = Inl ALL_OUTBOUND_MESSAGES_REJECTED"

definition forbid_lane_verify_message ::
  "'o \<Rightarrow> lane_id \<Rightarrow> outbound_lane_data \<Rightarrow> 'payload \<Rightarrow> forbidden_error + unit" where
  "forbid_lane_verify_message _ _ _ _ = Inl ALL_OUTBOUND_MESSAGES_REJECTED"

record 'w send_message_artifacts =
  sma_nonce :: message_nonce
  sma_weight :: 'w

definition noop_send_message ::
  "'w weight_ops \<Rightarrow> 'o \<Rightarrow> lane_id \<Rightarrow> 'payload \<Rightarrow> forbidden_error + 'w send_message_artifacts" where
  "noop_send_message W _ _ _ = Inr \<lparr>sma_nonce = 0, sma_weight = w_zero W\<rparr>"

section \<open>Ranges as sets of nonces\<close>

definition nonces_of :: "delivered_messages \<Rightarrow> message_nonce set" where
  "nonces_of m = {dm_begin m..dm_end m}"

lemma contains_message_iff: "contains_message m n \<longleftrightarrow> n \<in> nonces_of m"
  by (simp add: contains_message_def nonces_of_def)

lemma word_interval_image: "unat ` {a..b} = {unat a..unat b}" for a b :: "'l::len word"
proof (intro set_eqI iffI)
  fix n
  assume n: "n \<in> {unat a..unat b}"
  then have "n < 2 ^ LENGTH('l)"
    using unsigned_less [of b] by (auto intro: le_less_trans)
  with n show "n \<in> unat ` {a..b}"
    by (intro image_eqI [of _ _ "of_nat n"]) (auto simp: unat_of_nat word_le_nat_alt)
qed (auto simp: word_le_nat_alt)

lemma finite_word_interval [simp]: "finite {a..b :: 'l::len word}"
  by (rule finite_subset [OF subset_UNIV]) simp

lemma card_word_interval: "card {a..b} = (if a \<le> b then unat b - unat a + 1 else 0)"
  for a b :: "'l::len word"
proof -
  have "card {a..b} = card (unat ` {a..b})"
    by (rule card_image [symmetric], rule inj_onI) (simp add: word_unat_eq_iff)
  also have "\<dots> = card {unat a..unat b}"
    by (simp only: word_interval_image)
  finally show ?thesis by (auto simp: word_le_nat_alt)
qed

lemma total_messages_card:
  assumes "card (nonces_of m) < 2 ^ 64"
  shows "unat (total_messages m) = card (nonces_of m)"
proof (cases "dm_begin m \<le> dm_end m")
  case True
  with assms have "unat (dm_end m) - unat (dm_begin m) + 1 < 2 ^ 64"
    by (simp add: nonces_of_def card_word_interval)
  with True show ?thesis
    by (simp add: total_messages_def nonces_of_def card_word_interval unat_sub_le unat_add_lt)
qed (simp add: total_messages_def nonces_of_def)

section \<open>Well-formed relayer queues\<close>

text \<open>
  Consecutive entries: every entry holds at least one message and starts right after the
  previous one. The first argument is the end of the previous entry, when there is one.
\<close>

fun consecutive :: "message_nonce option \<Rightarrow> 'r unrewarded_relayer list \<Rightarrow> bool" where
  "consecutive prev [] \<longleftrightarrow> True"
| "consecutive prev (e # es) \<longleftrightarrow>
     dm_begin (ur_messages e) \<le> dm_end (ur_messages e) \<and>
     (case prev of None \<Rightarrow> True | Some p \<Rightarrow> unat (dm_begin (ur_messages e)) = Suc (unat p)) \<and>
     consecutive (Some (dm_end (ur_messages e))) es"

abbreviation entry_begin :: "'r unrewarded_relayer \<Rightarrow> message_nonce" where
  "entry_begin e \<equiv> dm_begin (ur_messages e)"

abbreviation entry_end :: "'r unrewarded_relayer \<Rightarrow> message_nonce" where
  "entry_end e \<equiv> dm_end (ur_messages e)"

lemma consecutive_weaken: "consecutive (Some p) es \<Longrightarrow> consecutive None es"
  by (cases es) auto

lemma consecutive_append:
  "consecutive prev (xs @ ys) \<longleftrightarrow>
     consecutive prev xs \<and> consecutive (if xs = [] then prev else Some (entry_end (last xs))) ys"
  by (induction xs arbitrary: prev) auto

lemma consecutive_begin_le_last:
  "consecutive prev (e # es) \<Longrightarrow> entry_begin e \<le> entry_end (last (e # es))"
proof (induction es arbitrary: prev e)
  case (Cons f es)
  from Cons.prems have c: "consecutive (Some (entry_end e)) (f # es)" and *: "entry_begin e \<le> entry_end e"
    by auto
  from c have "entry_begin f \<le> entry_end (last (f # es))" by (rule Cons.IH)
  moreover from Cons.prems have "unat (entry_begin f) = Suc (unat (entry_end e))" by simp
  ultimately show ?case using * by (simp add: word_le_nat_alt)
qed simp

lemma consecutive_end_le_last:
  assumes "consecutive prev es" and "e \<in> set es"
  shows "entry_end e \<le> entry_end (last es)"
proof -
  from \<open>e \<in> set es\<close> obtain xs ys where es: "es = xs @ e # ys"
    by (meson split_list)
  with assms(1) have c: "consecutive (Some (entry_end e)) ys"
    by (auto simp: consecutive_append)
  show ?thesis
  proof (cases ys)
    case (Cons f zs)
    with c have "entry_begin f \<le> entry_end (last ys)"
      using consecutive_begin_le_last by blast
    moreover from c Cons have "unat (entry_begin f) = Suc (unat (entry_end e))" by simp
    ultimately show ?thesis using es Cons by (simp add: word_le_nat_alt)
  qed (simp add: es)
qed

lemma last_delivered_nonce_alt:
  "last_delivered_nonce d =
     (if relayers d = [] then last_confirmed_nonce d else entry_end (last (relayers d)))"
  by (cases "relayers d" rule: rev_cases) (simp_all add: last_delivered_nonce_def)

text \<open>All nonces of a queue, and that its entries are disjoint blocks of one interval.\<close>

definition queue_nonces :: "'r unrewarded_relayer list \<Rightarrow> message_nonce set" where
  "queue_nonces es = (\<Union>e \<in> set es. nonces_of (ur_messages e))"

lemma queue_nonces_consecutive:
  "consecutive prev (e # es) \<Longrightarrow> queue_nonces (e # es) = {entry_begin e..entry_end (last (e # es))}"
proof (induction es arbitrary: prev e)
  case (Cons f es)
  from Cons.prems have c: "consecutive (Some (entry_end e)) (f # es)" by simp
  then have "queue_nonces (f # es) = {entry_begin f..entry_end (last (f # es))}" by (rule Cons.IH)
  moreover have "queue_nonces (e # f # es) = {entry_begin e..entry_end e} \<union> queue_nonces (f # es)"
    by (auto simp: queue_nonces_def nonces_of_def)
  moreover have "entry_begin f \<le> entry_end (last (f # es))" using consecutive_begin_le_last [OF c] .
  ultimately show ?case
    using Cons.prems by (auto simp: word_le_nat_alt)
qed (simp add: queue_nonces_def nonces_of_def)

lemma consecutive_disjoint:
  assumes "consecutive prev (e # es)"
  shows "nonces_of (ur_messages e) \<inter> queue_nonces es = {}"
proof (cases es)
  case (Cons f fs)
  with assms have "consecutive (Some (entry_end e)) (f # fs)" by simp
  then have "queue_nonces es = {entry_begin f..entry_end (last es)}"
    and "unat (entry_begin f) = Suc (unat (entry_end e))"
    using queue_nonces_consecutive Cons by (blast, simp)
  moreover from this have "entry_end e < entry_begin f" by (simp add: word_less_nat_alt)
  ultimately show ?thesis by (fastforce simp: nonces_of_def)
qed (simp add: queue_nonces_def)

lemma total_unrewarded_messages_consecutive:
  assumes "consecutive None es"
  shows "total_unrewarded_messages es =
    (if card (queue_nonces es) < 2 ^ 64 then Some (of_nat (card (queue_nonces es))) else None)"
proof (cases es)
  case (Cons e fs)
  have r: "rev es = last es # rev (butlast es)"
    using Cons by (metis append_butlast_last_id list.distinct(1) rev_eq_Cons_iff rev_rev_ident)
  have le: "entry_begin e \<le> entry_end (last es)"
    using consecutive_begin_le_last assms Cons by blast
  have "queue_nonces es = {entry_begin e..entry_end (last es)}"
    using queue_nonces_consecutive assms Cons by blast
  then have card: "card (queue_nonces es) = unat (entry_end (last es) - entry_begin e) + 1"
    using le by (simp add: card_word_interval unat_sub_le)
  show ?thesis
    unfolding card using Cons r le
    by (simp add: total_unrewarded_messages_def checked_sub_def checked_add_def)
qed (simp add: total_unrewarded_messages_def queue_nonces_def)

section \<open>Rewards\<close>

text \<open>The messages of a received range that a relayer has delivered, according to a queue.\<close>

definition delivered_by :: "'r unrewarded_relayer list \<Rightarrow> message_nonce set \<Rightarrow> 'r \<Rightarrow> message_nonce set" where
  "delivered_by es R r = {n \<in> R. \<exists>e \<in> set es. ur_relayer e = r \<and> n \<in> nonces_of (ur_messages e)}"

definition reward_count :: "('r, message_nonce) btree \<Rightarrow> 'r \<Rightarrow> nat" where
  "reward_count m r = (case btree_get m r of None \<Rightarrow> 0 | Some v \<Rightarrow> unat v)"

lemma delivered_by_Nil [simp]: "delivered_by [] R r = {}"
  by (simp add: delivered_by_def)

lemma delivered_by_Cons:
  "delivered_by (e # es) R r =
     (if ur_relayer e = r then nonces_of (ur_messages e) \<inter> R else {}) \<union> delivered_by es R r"
  by (auto simp: delivered_by_def)

lemma delivered_by_subset: "delivered_by es R r \<subseteq> queue_nonces es"
  by (auto simp: delivered_by_def queue_nonces_def)

lemma finite_nonces [simp]: "finite (S :: message_nonce set)"
  by (rule finite_subset [OF subset_UNIV]) simp

lemma card_delivered_by_Cons:
  assumes "consecutive prev (e # es)"
  shows "card (delivered_by (e # es) R r) =
    (if ur_relayer e = r then card (nonces_of (ur_messages e) \<inter> R) else 0) + card (delivered_by es R r)"
  using consecutive_disjoint [OF assms] delivered_by_subset [of es R r]
  by (auto simp: delivered_by_Cons intro!: card_Un_disjoint)

lemma entry_overlap:
  "nonces_of (ur_messages e) \<inter> {a..b} = {max (entry_begin e) a..min (entry_end e) b}"
  by (auto simp: nonces_of_def)

lemma reward_entry_get:
  assumes "reward_count m (ur_relayer e) + card (nonces_of (ur_messages e) \<inter> {a..b}) < 2 ^ 64"
  shows "reward_count (reward_entry a b e m) r =
    reward_count m r + (if ur_relayer e = r then card (nonces_of (ur_messages e) \<inter> {a..b}) else 0)"
proof (cases "max (entry_begin e) a \<le> min (entry_end e) b")
  case True
  let ?n = "min (entry_end e) b - max (entry_begin e) a"
  have card: "card (nonces_of (ur_messages e) \<inter> {a..b}) = unat ?n + 1"
    using True unfolding entry_overlap by (simp only: card_word_interval unat_sub_le if_True)
  then have n: "unat (?n + 1) = unat ?n + 1"
    using assms by (simp add: unat_add_lt)
  show ?thesis
    using True assms unfolding card
    by (cases "btree_get m (ur_relayer e)")
      (auto simp: reward_entry_def Let_def btree_entry_update_def reward_count_def n unat_add_lt
         simp del: max.bounded_iff min.bounded_iff)
next
  case False
  then have "nonces_of (ur_messages e) \<inter> {a..b} = {}" by (simp add: entry_overlap)
  with False show ?thesis by (auto simp: reward_entry_def Let_def)
qed

lemma reward_entry_dom:
  "btree_get (reward_entry a b e m) r = None \<longleftrightarrow>
     btree_get m r = None \<and> \<not> (ur_relayer e = r \<and> nonces_of (ur_messages e) \<inter> {a..b} \<noteq> {})"
  by (auto simp: reward_entry_def Let_def btree_entry_update_def entry_overlap)

lemma fold_reward_entry:
  assumes "consecutive prev es"
    and "\<And>r. reward_count m r + card (delivered_by es {a..b} r) < 2 ^ 64"
  shows "reward_count (fold (reward_entry a b) es m) r = reward_count m r + card (delivered_by es {a..b} r)"
    and "btree_get (fold (reward_entry a b) es m) r = None \<longleftrightarrow>
      btree_get m r = None \<and> delivered_by es {a..b} r = {}"
  using assms
proof (induction es arbitrary: prev m)
  case (Cons e es)
  have *: "reward_count (fold (reward_entry a b) (e # es) m) r =
      reward_count m r + card (delivered_by (e # es) {a..b} r) \<and>
    (btree_get (fold (reward_entry a b) (e # es) m) r = None \<longleftrightarrow>
      btree_get m r = None \<and> delivered_by (e # es) {a..b} r = {})"
    if con: "consecutive prev (e # es)"
      and small: "\<And>r. reward_count m r + card (delivered_by (e # es) {a..b} r) < 2 ^ 64" for prev m
  proof -
    note card = card_delivered_by_Cons [OF con]
    have step: "reward_count (reward_entry a b e m) r' =
      reward_count m r' + (if ur_relayer e = r' then card (nonces_of (ur_messages e) \<inter> {a..b}) else 0)" for r'
      using small [of "ur_relayer e"] by (intro reward_entry_get) (simp add: card)
    have lt: "reward_count (reward_entry a b e m) r' + card (delivered_by es {a..b} r') < 2 ^ 64" for r'
      using small [of r'] by (simp add: step card)
    have c: "consecutive (Some (entry_end e)) es" using con by simp
    show ?thesis
    proof (intro conjI)
      show "reward_count (fold (reward_entry a b) (e # es) m) r =
          reward_count m r + card (delivered_by (e # es) {a..b} r)"
        using Cons.IH(1) [OF c lt] by (simp add: step card)
      show "(btree_get (fold (reward_entry a b) (e # es) m) r = None) =
          (btree_get m r = None \<and> delivered_by (e # es) {a..b} r = {})"
        using Cons.IH(2) [OF c lt] by (auto simp: reward_entry_dom delivered_by_Cons)
    qed
  qed
  { case 1 then show ?case using * by blast }
  { case 2 then show ?case using * by blast }
qed simp_all

lemma card_range_lt: "(a, b) \<noteq> (0, - 1) \<Longrightarrow> card {a..b :: message_nonce} < 2 ^ 64"
proof -
  assume "(a, b) \<noteq> (0, - 1)"
  then have "unat a \<noteq> 0 \<or> unat b \<noteq> 2 ^ 64 - 1"
    using unat_max [where 'l = 64] by (auto simp: word_unat_eq_iff)
  then show ?thesis
    using unat_lt_64 [of b] by (auto simp: card_word_interval)
qed

lemma btree_wf_rewards: "btree_wf (calc_relayers_rewards es R)"
proof -
  have "btree_wf m \<Longrightarrow> btree_wf (fold (reward_entry a b) es m)" for a b m
    by (induction es arbitrary: m) (auto simp: reward_entry_def Let_def)
  then show ?thesis by (simp add: calc_relayers_rewards_def)
qed

lemma calc_relayers_rewards_get:
  assumes "consecutive None es" and "(a, b) \<noteq> (0, - 1)"
  shows "btree_get (calc_relayers_rewards es (a, b)) r =
    (if delivered_by es {a..b} r = {} then None else Some (of_nat (card (delivered_by es {a..b} r))))"
proof -
  have "card (delivered_by es {a..b} r') < 2 ^ 64" for r'
    using card_range_lt [OF assms(2)]
    by (rule le_less_trans [rotated]) (auto intro!: card_mono simp: delivered_by_def)
  then have lt: "reward_count [] r' + card (delivered_by es {a..b} r') < 2 ^ 64" for r'
    by (simp add: reward_count_def)
  note f = fold_reward_entry [OF assms(1) lt]
  show ?thesis
  proof (cases "btree_get (calc_relayers_rewards es (a, b)) r")
    case None
    then show ?thesis using f(2) [of r] by (simp add: calc_relayers_rewards_def)
  next
    case (Some v)
    then have "unat v = card (delivered_by es {a..b} r)" and "delivered_by es {a..b} r \<noteq> {}"
      using f [of r] by (auto simp: calc_relayers_rewards_def reward_count_def)
    moreover have "of_nat (unat v) = v" by simp
    ultimately show ?thesis using Some by simp
  qed
qed

end
