(* ===== verification/Inbound_Lane.thy ===== *)
theory Inbound_Lane
  imports Messages_Primitives
begin

text \<open>
  The inbound lane (\<open>modules/messages/src/inbound_lane.rs\<close>) and the runtime storage it works on
  (\<open>RuntimeInboundLaneStorage\<close> in \<open>modules/messages/src/lib.rs\<close>).

  The operations are written over a record of storage operations, as the code writes them over
  the trait \<open>InboundLaneStorage\<close>. The locale \<open>inbound_storage\<close> states what the lane relies on,
  and the runtime storage with its cache is its interpretation. The specification of a lane is a
  queue of relayers: the confirmed nonce and, for every later nonce, who delivered it. The lane
  refines that queue.
\<close>

section \<open>The storage interface and the operations\<close>

record ('s, 'r) inbound_lane_storage =
  ils_id :: "'s \<Rightarrow> lane_id"
  ils_max_unrewarded_relayer_entries :: "'s \<Rightarrow> message_nonce"
  ils_max_unconfirmed_messages :: "'s \<Rightarrow> message_nonce"
  ils_data :: "'s \<Rightarrow> 'r inbound_lane_data \<times> 's"
  ils_set_data :: "'r inbound_lane_data \<Rightarrow> 's \<Rightarrow> 's"

text \<open>The loop that removes the entries whose messages are all confirmed.\<close>

fun pop_confirmed :: "message_nonce \<Rightarrow> 'r unrewarded_relayer list \<Rightarrow> 'r unrewarded_relayer list" where
  "pop_confirmed new_confirmed_nonce [] = []"
| "pop_confirmed new_confirmed_nonce (e # es) =
     (if dm_end (ur_messages e) \<le> new_confirmed_nonce then pop_confirmed new_confirmed_nonce es else e # es)"

text \<open>The update of the entry that is confirmed in part.\<close>

fun trim_front :: "message_nonce \<Rightarrow> 'r unrewarded_relayer list \<Rightarrow> 'r unrewarded_relayer list" where
  "trim_front new_confirmed_nonce [] = []"
| "trim_front new_confirmed_nonce (e # es) =
     (if dm_begin (ur_messages e) < new_confirmed_nonce
      then e\<lparr>ur_messages := (ur_messages e)\<lparr>dm_begin := new_confirmed_nonce + 1\<rparr>\<rparr> # es
      else e # es)"

definition receive_state_update ::
  "('s, 'r) inbound_lane_storage \<Rightarrow> outbound_lane_data \<Rightarrow> 's \<Rightarrow> message_nonce option \<times> 's" where
  "receive_state_update S outbound_lane_data s =
     (let (data, s) = ils_data S s;
          last_delivered = last_delivered_nonce data
      in if latest_received_nonce outbound_lane_data > last_delivered then (None, s)
         else if latest_received_nonce outbound_lane_data \<le> last_confirmed_nonce data then (None, s)
         else
           let new_confirmed_nonce = latest_received_nonce outbound_lane_data;
               data = data\<lparr>last_confirmed_nonce := new_confirmed_nonce\<rparr>;
               data = data\<lparr>relayers := pop_confirmed new_confirmed_nonce (relayers data)\<rparr>;
               data = data\<lparr>relayers := trim_front new_confirmed_nonce (relayers data)\<rparr>
           in (Some (latest_received_nonce outbound_lane_data), ils_set_data S data s))"

text \<open>
  \<open>push_delivered\<close> is the update of the queue after a dispatch: the last entry grows when it
  belongs to the same relayer, otherwise a new entry is pushed.
\<close>

definition push_delivered ::
  "'r \<Rightarrow> message_nonce \<Rightarrow> 'r unrewarded_relayer list \<Rightarrow> 'r unrewarded_relayer list" where
  "push_delivered relayer nonce es =
     (case rev es of
        e # before \<Rightarrow>
          if ur_relayer e = relayer
          then rev before @ [e\<lparr>ur_messages := note_dispatched_message (ur_messages e)\<rparr>]
          else es @ [\<lparr>ur_relayer = relayer, ur_messages = delivered_messages_new nonce\<rparr>]
      | [] \<Rightarrow> [\<lparr>ur_relayer = relayer, ur_messages = delivered_messages_new nonce\<rparr>])"

definition receive_message ::
  "('s, 'r) inbound_lane_storage \<Rightarrow>
   ('acc \<Rightarrow> 'p dispatch_message \<Rightarrow> 'x \<Rightarrow> ('d, 'w) message_dispatch_result \<times> 'x) \<Rightarrow>
   'r \<Rightarrow> 'acc \<Rightarrow> message_nonce \<Rightarrow> 'p dispatch_message_data \<Rightarrow> 's \<Rightarrow> 'x \<Rightarrow>
   ('d, 'w) receival_result \<times> 's \<times> 'x" where
  "receive_message S dispatch relayer_at_bridged_chain relayer_at_this_chain nonce message_data s x =
     (let (data, s) = ils_data S s
      in if nonce \<noteq> last_delivered_nonce data + 1 then (InvalidNonce, s, x)
         else if ils_max_unrewarded_relayer_entries S s \<le> of_nat (length (relayers data))
         then (TooManyUnrewardedRelayers, s, x)
         else
           let unconfirmed_messages_count = saturating_sub nonce (last_confirmed_nonce data)
           in if ils_max_unconfirmed_messages S s < unconfirmed_messages_count
              then (TooManyUnconfirmedMessages, s, x)
              else
                let (dispatch_result, x) =
                      dispatch relayer_at_this_chain
                        \<lparr>dmsg_key = \<lparr>mk_lane_id = ils_id S s, mk_nonce = nonce\<rparr>, dmsg_data = message_data\<rparr> x;
                    data = data\<lparr>relayers := push_delivered relayer_at_bridged_chain nonce (relayers data)\<rparr>
                in (Dispatched dispatch_result, ils_set_data S data s, x))"

section \<open>The invariant of a lane\<close>

text \<open>
  The entries are consecutive, and the first one holds the first unconfirmed nonce. It may also
  hold the last confirmed nonce or older ones: \<open>receive_state_update\<close> does not trim an entry that
  starts at the confirmed nonce.
\<close>

definition inbound_wf :: "'r inbound_lane_data \<Rightarrow> bool" where
  "inbound_wf d \<longleftrightarrow>
     consecutive None (relayers d) \<and>
     (case relayers d of
        [] \<Rightarrow> True
      | e # _ \<Rightarrow> unat (entry_begin e) \<le> Suc (unat (last_confirmed_nonce d)) \<and>
                last_confirmed_nonce d < entry_end e)"

definition inbound_limits :: "message_nonce \<Rightarrow> message_nonce \<Rightarrow> 'r inbound_lane_data \<Rightarrow> bool" where
  "inbound_limits max_entries max_unconfirmed d \<longleftrightarrow>
     length (relayers d) \<le> unat max_entries \<and>
     unat (last_delivered_nonce d) - unat (last_confirmed_nonce d) \<le> unat max_unconfirmed"

definition inbound_ok :: "message_nonce \<Rightarrow> message_nonce \<Rightarrow> 'r inbound_lane_data \<Rightarrow> bool" where
  "inbound_ok max_entries max_unconfirmed d \<longleftrightarrow> inbound_wf d \<and> inbound_limits max_entries max_unconfirmed d"

section \<open>The specification of a lane: a queue of relayers\<close>

text \<open>
  \<open>LaneQueue c rs\<close>: nonces up to \<open>c\<close> are confirmed, nonce \<open>c + 1 + i\<close> has been delivered by
  \<open>rs ! i\<close>.
\<close>

datatype 'r lane_queue = LaneQueue (lq_confirmed: nat) (lq_delivered: "'r list")

fun lane_queue_deliver :: "'r \<Rightarrow> 'r lane_queue \<Rightarrow> 'r lane_queue" where
  "lane_queue_deliver r (LaneQueue c rs) = LaneQueue c (rs @ [r])"

fun lane_queue_confirm :: "nat \<Rightarrow> 'r lane_queue \<Rightarrow> 'r lane_queue" where
  "lane_queue_confirm n (LaneQueue c rs) =
     (if c < n \<and> n \<le> c + length rs then LaneQueue n (drop (n - c) rs) else LaneQueue c rs)"

text \<open>The abstraction of the queue of entries: every unconfirmed nonce of an entry, in order.\<close>

definition unconfirmed_in_entry :: "nat \<Rightarrow> 'r unrewarded_relayer \<Rightarrow> 'r list" where
  "unconfirmed_in_entry c e =
     replicate (unat (entry_end e) - max (unat (entry_begin e) - 1) c) (ur_relayer e)"

definition lane_abs :: "'r inbound_lane_data \<Rightarrow> 'r lane_queue" where
  "lane_abs d =
     LaneQueue (unat (last_confirmed_nonce d))
       (concat (map (unconfirmed_in_entry (unat (last_confirmed_nonce d))) (relayers d)))"

lemma length_unconfirmed_in_entry [simp]:
  "length (unconfirmed_in_entry c e) = unat (entry_end e) - max (unat (entry_begin e) - 1) c"
  by (simp add: unconfirmed_in_entry_def)

lemma inbound_wf_default [simp]: "inbound_wf default_inbound_lane_data"
  by (simp add: inbound_wf_def default_inbound_lane_data_def)

lemma inbound_ok_default: "inbound_ok m n default_inbound_lane_data"
  by (simp add: inbound_ok_def inbound_limits_def last_delivered_nonce_alt) (simp add: default_inbound_lane_data_def)

lemma inbound_wf_delivered: "inbound_wf d \<Longrightarrow> last_confirmed_nonce d \<le> last_delivered_nonce d"
proof (cases "relayers d")
  case (Cons e es)
  assume "inbound_wf d"
  with Cons have "last_confirmed_nonce d < entry_end e" "consecutive None (e # es)"
    by (auto simp: inbound_wf_def)
  moreover from this(2) have "entry_end e \<le> entry_end (last (e # es))"
    by (rule consecutive_end_le_last) simp
  ultimately show ?thesis using Cons by (simp add: last_delivered_nonce_alt del: last.simps)
qed (simp add: last_delivered_nonce_alt)

text \<open>In the tail of a queue whose entries start after \<open>c\<close>, nothing is confirmed.\<close>

lemma length_concat_unconfirmed:
  assumes "consecutive (Some p) es" and "c \<le> unat p"
  shows "length (concat (map (unconfirmed_in_entry c) es)) =
    (if es = [] then 0 else unat (entry_end (last es)) - unat p)"
  using assms
proof (induction es arbitrary: p)
  case (Cons e es)
  then have b: "unat (entry_begin e) = Suc (unat p)" and "entry_begin e \<le> entry_end e"
    and c: "consecutive (Some (entry_end e)) es"
    by auto
  then have le: "unat p < unat (entry_end e)" by (simp add: word_le_nat_alt)
  then have IH: "length (concat (map (unconfirmed_in_entry c) es)) =
    (if es = [] then 0 else unat (entry_end (last es)) - unat (entry_end e))"
    using Cons.IH [OF c] Cons.prems by simp
  have "es \<noteq> [] \<Longrightarrow> unat (entry_end e) \<le> unat (entry_end (last es))"
    using consecutive_end_le_last [OF Cons.prems(1), of e] by (simp add: word_le_nat_alt)
  with IH b le Cons.prems(2) show ?case
    by auto
qed simp

lemma lane_abs_length:
  assumes "inbound_wf d"
  shows "length (lq_delivered (lane_abs d)) = unat (last_delivered_nonce d) - unat (last_confirmed_nonce d)"
proof (cases "relayers d")
  case (Cons e es)
  let ?c = "unat (last_confirmed_nonce d)"
  from assms Cons have b: "unat (entry_begin e) \<le> Suc ?c" and le: "?c < unat (entry_end e)"
    and con: "consecutive (Some (entry_end e)) es" and con': "consecutive None (e # es)"
    by (auto simp: inbound_wf_def word_less_nat_alt)
  have "es \<noteq> [] \<Longrightarrow> unat (entry_end e) \<le> unat (entry_end (last es))"
    using consecutive_end_le_last [OF con', of e] by (simp add: word_le_nat_alt)
  then show ?thesis
    using length_concat_unconfirmed [OF con, of ?c] b le Cons
    by (auto simp: lane_abs_def last_delivered_nonce_alt)
qed (simp add: lane_abs_def last_delivered_nonce_alt)

section \<open>Confirmations\<close>

definition confirm_data :: "message_nonce \<Rightarrow> 'r inbound_lane_data \<Rightarrow> 'r inbound_lane_data" where
  "confirm_data n d =
     d\<lparr>last_confirmed_nonce := n, relayers := trim_front n (pop_confirmed n (relayers d))\<rparr>"

lemma unconfirmed_tail:
  assumes "consecutive (Some p) es" and "c \<le> unat p" and "c' \<le> unat p"
  shows "map (unconfirmed_in_entry c) es = map (unconfirmed_in_entry c') es"
  using assms
proof (induction es arbitrary: p)
  case (Cons e es)
  then have "unat (entry_begin e) = Suc (unat p)" "unat p \<le> unat (entry_end e)"
    "consecutive (Some (entry_end e)) es"
    by (auto simp: word_le_nat_alt)
  with Cons.IH [of "entry_end e"] Cons.prems show ?case
    by (simp add: unconfirmed_in_entry_def max_absorb1)
qed simp

definition front_ok :: "nat \<Rightarrow> 'r unrewarded_relayer list \<Rightarrow> bool" where
  "front_ok c es \<longleftrightarrow>
     (case es of [] \<Rightarrow> True
               | e # _ \<Rightarrow> unat (entry_begin e) \<le> Suc c \<and> c < unat (entry_end e))"

lemma inbound_wf_alt:
  "inbound_wf d \<longleftrightarrow> consecutive None (relayers d) \<and> front_ok (unat (last_confirmed_nonce d)) (relayers d)"
  by (simp add: inbound_wf_def front_ok_def word_less_nat_alt split: list.split)

lemma front_ok_tail:
  assumes "consecutive prev (e # es)"
  shows "consecutive None es" and "front_ok (unat (entry_end e)) es"
proof -
  from assms have c: "consecutive (Some (entry_end e)) es" by simp
  then show "consecutive None es" by (rule consecutive_weaken)
  from c show "front_ok (unat (entry_end e)) es"
    by (auto simp: front_ok_def word_le_nat_alt split: list.split)
qed

lemma trim_front_partial:
  assumes "consecutive None (e # es)" and "front_ok c (e # es)" and "c \<le> unat n" and "n < entry_end e"
  shows "consecutive None (trim_front n (e # es))"
    and "front_ok (unat n) (trim_front n (e # es))"
    and "concat (map (unconfirmed_in_entry (unat n)) (trim_front n (e # es))) =
      drop (unat n - c) (concat (map (unconfirmed_in_entry c) (e # es)))"
    and "entry_end (last (trim_front n (e # es))) = entry_end (last (e # es))"
proof -
  have n: "unat (n + 1) = Suc (unat n)" using assms(4) by (rule unat_succ_lt)
  have le: "unat n < unat (entry_end e)" using assms(4) by (simp add: word_less_nat_alt)
  have con: "consecutive (Some (entry_end e)) es" using assms(1) by simp
  have tail: "map (unconfirmed_in_entry (unat n)) es = map (unconfirmed_in_entry c) es"
    using le assms(3) by (intro unconfirmed_tail [OF con]) auto
  show "consecutive None (trim_front n (e # es))"
    using assms(1) le n by (simp add: word_le_nat_alt)
  show "front_ok (unat n) (trim_front n (e # es))"
    using assms(2,3) le n by (simp add: front_ok_def)
  show "entry_end (last (trim_front n (e # es))) = entry_end (last (e # es))"
    by simp
  have "unat (entry_begin e) - 1 \<le> c"
    using assms(2) by (auto simp: front_ok_def)
  moreover have "drop (unat n - c) (replicate (unat (entry_end e) - c) r @ xs) =
      replicate (unat (entry_end e) - unat n) r @ xs" for r :: 'a and xs
    using le assms(3) by (simp add: drop_append)
  ultimately show "concat (map (unconfirmed_in_entry (unat n)) (trim_front n (e # es))) =
      drop (unat n - c) (concat (map (unconfirmed_in_entry c) (e # es)))"
    using assms(3) by (simp add: tail n) (simp add: unconfirmed_in_entry_def n max_absorb2)
qed

lemma confirm_entries:
  assumes "consecutive None es" and "front_ok c es" and "c \<le> unat n"
    and "es = [] \<Longrightarrow> c = unat n" and "es \<noteq> [] \<Longrightarrow> n \<le> entry_end (last es)"
  shows "consecutive None (trim_front n (pop_confirmed n es)) \<and>
    front_ok (unat n) (trim_front n (pop_confirmed n es)) \<and>
    concat (map (unconfirmed_in_entry (unat n)) (trim_front n (pop_confirmed n es))) =
      drop (unat n - c) (concat (map (unconfirmed_in_entry c) es)) \<and>
    (if trim_front n (pop_confirmed n es) = [] then es = [] \<or> n = entry_end (last es)
     else es \<noteq> [] \<and> entry_end (last (trim_front n (pop_confirmed n es))) = entry_end (last es))"
  using assms
proof (induction es arbitrary: c)
  case Nil
  then show ?case by (simp add: front_ok_def)
next
  case (Cons e es)
  show ?case
  proof (cases "entry_end e \<le> n")
    case False
    then have lt: "n < entry_end e" by simp
    have "trim_front n (e # es) \<noteq> []" by simp
    then show ?thesis
      using False trim_front_partial [OF Cons.prems(1,2,3) lt] by (simp del: trim_front.simps last.simps)
  next
    case True
    have con: "consecutive (Some (entry_end e)) es" using Cons.prems(1) by simp
    have c: "c < unat (entry_end e)" "unat (entry_begin e) - 1 \<le> c"
      using Cons.prems(2) by (auto simp: front_ok_def)
    have end_le: "unat (entry_end e) \<le> unat n" using True by (simp add: word_le_nat_alt)
    have nil: "es = [] \<Longrightarrow> n = entry_end e" using Cons.prems(5) True by simp
    have IH: "consecutive None (trim_front n (pop_confirmed n es)) \<and>
      front_ok (unat n) (trim_front n (pop_confirmed n es)) \<and>
      concat (map (unconfirmed_in_entry (unat n)) (trim_front n (pop_confirmed n es))) =
        drop (unat n - unat (entry_end e)) (concat (map (unconfirmed_in_entry (unat (entry_end e))) es)) \<and>
      (if trim_front n (pop_confirmed n es) = [] then es = [] \<or> n = entry_end (last es)
       else es \<noteq> [] \<and> entry_end (last (trim_front n (pop_confirmed n es))) = entry_end (last es))"
      using end_le nil Cons.prems(5)
      by (intro Cons.IH front_ok_tail [OF Cons.prems(1)]) (simp_all split: if_splits)
    have tail: "map (unconfirmed_in_entry (unat (entry_end e))) es = map (unconfirmed_in_entry c) es"
      using c by (intro unconfirmed_tail [OF con]) auto
    have "drop (unat n - c) (unconfirmed_in_entry c e @ xs) = drop (unat n - unat (entry_end e)) xs" for xs
      using c end_le by (simp add: max_absorb2)
    then have "concat (map (unconfirmed_in_entry (unat n)) (trim_front n (pop_confirmed n es))) =
      drop (unat n - c) (concat (map (unconfirmed_in_entry c) (e # es)))"
      using IH by (simp add: tail)
    moreover have "trim_front n (pop_confirmed n es) = [] \<Longrightarrow> n = entry_end (last (e # es))"
      using IH nil by (cases "es = []") simp_all
    ultimately show ?thesis using IH True by (simp split: if_splits)
  qed
qed

lemma confirm_data_ok:
  assumes wf: "inbound_wf d" and n: "last_confirmed_nonce d < n" "n \<le> last_delivered_nonce d"
  shows "inbound_wf (confirm_data n d)"
    and "last_delivered_nonce (confirm_data n d) = last_delivered_nonce d"
    and "lane_abs (confirm_data n d) = lane_queue_confirm (unat n) (lane_abs d)"
    and "length (relayers (confirm_data n d)) \<le> length (relayers d)"
proof -
  let ?c = "unat (last_confirmed_nonce d)" and ?es = "relayers d"
  let ?es' = "trim_front n (pop_confirmed n ?es)"
  have nonempty: "?es \<noteq> []" using n by (auto simp: last_delivered_nonce_alt)
  have c: "?c < unat n" using n by (simp add: word_less_nat_alt)
  have *: "consecutive None ?es' \<and> front_ok (unat n) ?es' \<and>
    concat (map (unconfirmed_in_entry (unat n)) ?es') =
      drop (unat n - ?c) (concat (map (unconfirmed_in_entry ?c) ?es)) \<and>
    (if ?es' = [] then ?es = [] \<or> n = entry_end (last ?es)
     else ?es \<noteq> [] \<and> entry_end (last ?es') = entry_end (last ?es))"
    using wf n nonempty c
    by (intro confirm_entries) (auto simp: inbound_wf_alt last_delivered_nonce_alt)
  show "inbound_wf (confirm_data n d)"
    using * by (simp add: inbound_wf_alt confirm_data_def)
  show "last_delivered_nonce (confirm_data n d) = last_delivered_nonce d"
    using * nonempty by (auto simp: last_delivered_nonce_alt confirm_data_def split: if_splits)
  have "unat n \<le> ?c + length (concat (map (unconfirmed_in_entry ?c) ?es))"
    using lane_abs_length [OF wf] n by (simp add: lane_abs_def word_le_nat_alt)
  then show "lane_abs (confirm_data n d) = lane_queue_confirm (unat n) (lane_abs d)"
    using * c by (simp add: lane_abs_def confirm_data_def)
  have "length (pop_confirmed n xs) \<le> length xs" for xs :: "'a unrewarded_relayer list"
    by (induction xs) auto
  moreover have "length (trim_front n xs) = length xs" for xs :: "'a unrewarded_relayer list"
    by (cases xs) auto
  ultimately show "length (relayers (confirm_data n d)) \<le> length (relayers d)"
    by (simp add: confirm_data_def)
qed

section \<open>Deliveries\<close>

definition deliver_data :: "'r \<Rightarrow> message_nonce \<Rightarrow> 'r inbound_lane_data \<Rightarrow> 'r inbound_lane_data" where
  "deliver_data relayer nonce d = d\<lparr>relayers := push_delivered relayer nonce (relayers d)\<rparr>"

lemma push_delivered_snoc:
  "push_delivered r n (es @ [e]) =
     (if ur_relayer e = r then es @ [e\<lparr>ur_messages := note_dispatched_message (ur_messages e)\<rparr>]
      else es @ [e, \<lparr>ur_relayer = r, ur_messages = delivered_messages_new n\<rparr>])"
  by (simp add: push_delivered_def)

lemma push_delivered_Nil [simp]:
  "push_delivered r n [] = [\<lparr>ur_relayer = r, ur_messages = delivered_messages_new n\<rparr>]"
  by (simp add: push_delivered_def)

lemma length_push_delivered: "length (push_delivered r n es) \<le> Suc (length es)"
  by (cases es rule: rev_cases) (simp_all add: push_delivered_snoc)

lemma deliver_entries:
  assumes "consecutive None (es @ [e])" and "front_ok c (es @ [e])" and "entry_end e < - 1"
    and "n = entry_end e + 1"
  shows "consecutive None (push_delivered r n (es @ [e]))"
    and "front_ok c (push_delivered r n (es @ [e]))"
    and "concat (map (unconfirmed_in_entry c) (push_delivered r n (es @ [e]))) =
      concat (map (unconfirmed_in_entry c) (es @ [e])) @ [r]"
    and "entry_end (last (push_delivered r n (es @ [e]))) = n"
proof -
  have n: "unat (entry_end e + 1) = Suc (unat (entry_end e))"
    using assms(3) by (rule unat_succ)
  have be: "entry_begin e \<le> entry_end e"
    using assms(1) by (auto simp: consecutive_append)
  have c: "c < unat (entry_end e)"
  proof (cases es)
    case Nil
    then show ?thesis using assms(2) by (simp add: front_ok_def)
  next
    case (Cons f fs)
    then have "c < unat (entry_end f)" using assms(2) by (simp add: front_ok_def)
    moreover have "entry_end f \<le> entry_end (last (es @ [e]))"
      using Cons by (intro consecutive_end_le_last [OF assms(1)]) simp
    ultimately show ?thesis by (simp add: word_le_nat_alt)
  qed
  show "consecutive None (push_delivered r n (es @ [e]))"
    using assms(1,4) be n
    by (auto simp: push_delivered_snoc consecutive_append note_dispatched_message_def
        delivered_messages_new_def word_le_nat_alt split: option.splits)
  show "front_ok c (push_delivered r n (es @ [e]))"
    using assms(2) n unfolding push_delivered_snoc
    by (cases es) (auto simp: front_ok_def note_dispatched_message_def)
  show "entry_end (last (push_delivered r n (es @ [e]))) = n"
    using assms(4) by (simp add: push_delivered_snoc note_dispatched_message_def delivered_messages_new_def)
  have "Suc (unat (entry_end e)) - max (unat (entry_begin e) - 1) c =
      Suc (unat (entry_end e) - max (unat (entry_begin e) - 1) c)"
    using be c by (intro Suc_diff_le) (auto simp: word_le_nat_alt)
  then show "concat (map (unconfirmed_in_entry c) (push_delivered r n (es @ [e]))) =
      concat (map (unconfirmed_in_entry c) (es @ [e])) @ [r]"
    using assms(4) n c
    by (auto simp: push_delivered_snoc unconfirmed_in_entry_def note_dispatched_message_def
        delivered_messages_new_def replicate_append_same [symmetric] max_absorb1)
qed

lemma deliver_data_ok:
  assumes wf: "inbound_wf d" and n: "n = last_delivered_nonce d + 1" "n \<noteq> 0"
  shows "inbound_wf (deliver_data r n d)"
    and "last_delivered_nonce (deliver_data r n d) = n"
    and "last_confirmed_nonce (deliver_data r n d) = last_confirmed_nonce d"
    and "lane_abs (deliver_data r n d) = lane_queue_deliver r (lane_abs d)"
    and "unat n = Suc (unat (last_delivered_nonce d))"
proof -
  have lt: "last_delivered_nonce d < - 1"
    using n by (metis add.commute add_minus_cancel word_order.not_eq_extremum minus_add_cancel add.right_inverse)
  then show n': "unat n = Suc (unat (last_delivered_nonce d))"
    unfolding n(1) by (rule unat_succ)
  show "last_confirmed_nonce (deliver_data r n d) = last_confirmed_nonce d"
    by (simp add: deliver_data_def)
  have "inbound_wf (deliver_data r n d) \<and> last_delivered_nonce (deliver_data r n d) = n \<and>
    lane_abs (deliver_data r n d) = lane_queue_deliver r (lane_abs d)"
  proof (cases "relayers d" rule: rev_cases)
    case Nil
    then show ?thesis using n' n
      by (simp add: deliver_data_def inbound_wf_def lane_abs_def last_delivered_nonce_alt
          delivered_messages_new_def unconfirmed_in_entry_def word_less_nat_alt)
  next
    case (snoc es e)
    then have e: "last_delivered_nonce d = entry_end e" by (simp add: last_delivered_nonce_alt)
    from wf snoc have "consecutive None (es @ [e])" "front_ok (unat (last_confirmed_nonce d)) (es @ [e])"
      by (auto simp: inbound_wf_alt)
    note * = deliver_entries [OF this lt [unfolded e] n(1) [unfolded e]]
    have ne: "push_delivered r n (es @ [e]) \<noteq> []" by (simp add: push_delivered_snoc)
    show ?thesis using * ne snoc
      by (simp add: deliver_data_def inbound_wf_alt lane_abs_def last_delivered_nonce_alt)
  qed
  then show "inbound_wf (deliver_data r n d)" "last_delivered_nonce (deliver_data r n d) = n"
    "lane_abs (deliver_data r n d) = lane_queue_deliver r (lane_abs d)"
    by simp_all
qed

section \<open>The contract of the storage\<close>

definition same_inbound_config :: "('s, 'r) inbound_lane_storage \<Rightarrow> 's \<Rightarrow> 's \<Rightarrow> bool" where
  "same_inbound_config S s s' \<longleftrightarrow> ils_id S s' = ils_id S s \<and>
     ils_max_unrewarded_relayer_entries S s' = ils_max_unrewarded_relayer_entries S s \<and>
     ils_max_unconfirmed_messages S s' = ils_max_unconfirmed_messages S s"

text \<open>
  \<open>view\<close> is the lane state that the storage holds and \<open>inv\<close> the consistency of the storage itself
  (a cache agrees with what it caches). Reading may change the storage but not its view.
\<close>

locale inbound_storage =
  fixes S :: "('s, 'r) inbound_lane_storage"
    and view :: "'s \<Rightarrow> 'r inbound_lane_data"
    and inv :: "'s \<Rightarrow> bool"
  assumes data_view: "inv s \<Longrightarrow> fst (ils_data S s) = view s"
    and data_inv: "inv s \<Longrightarrow> inv (snd (ils_data S s))"
    and view_data: "inv s \<Longrightarrow> view (snd (ils_data S s)) = view s"
    and view_set_data: "inv s \<Longrightarrow> view (ils_set_data S d s) = d"
    and inv_set_data: "inv s \<Longrightarrow> inv (ils_set_data S d s)"
    and config_data: "ils_id S (snd (ils_data S s)) = ils_id S s"
      "ils_max_unrewarded_relayer_entries S (snd (ils_data S s)) = ils_max_unrewarded_relayer_entries S s"
      "ils_max_unconfirmed_messages S (snd (ils_data S s)) = ils_max_unconfirmed_messages S s"
    and config_set_data: "ils_id S (ils_set_data S d s) = ils_id S s"
      "ils_max_unrewarded_relayer_entries S (ils_set_data S d s) = ils_max_unrewarded_relayer_entries S s"
      "ils_max_unconfirmed_messages S (ils_set_data S d s) = ils_max_unconfirmed_messages S s"
begin

lemma data_eq: "inv s \<Longrightarrow> ils_data S s = (view s, snd (ils_data S s))"
  by (metis data_view prod.collapse)

lemma receive_state_update_view:
  assumes inv: "inv s" and r: "receive_state_update S out s = (res, s')"
  shows "inv s'" and "same_inbound_config S s s'"
    and "if last_confirmed_nonce (view s) < latest_received_nonce out \<and>
            latest_received_nonce out \<le> last_delivered_nonce (view s)
         then res = Some (latest_received_nonce out) \<and> view s' = confirm_data (latest_received_nonce out) (view s)
         else res = None \<and> view s' = view s"
proof -
  let ?s = "snd (ils_data S s)" and ?n = "latest_received_nonce out"
  have inv': "inv ?s" and v: "view ?s = view s"
    using inv by (simp_all add: data_inv view_data)
  have eq: "(res, s') =
    (if last_confirmed_nonce (view s) < ?n \<and> ?n \<le> last_delivered_nonce (view s)
     then (Some ?n, ils_set_data S (confirm_data ?n (view s)) ?s) else (None, ?s))"
    unfolding r [symmetric] receive_state_update_def
    by (subst data_eq [OF inv]) (auto simp: confirm_data_def Let_def)
  then show "inv s'" using inv' by (auto simp: inv_set_data split: if_splits)
  show "same_inbound_config S s s'"
    using eq by (auto simp: same_inbound_config_def config_data config_set_data split: if_splits)
  show "if last_confirmed_nonce (view s) < ?n \<and> ?n \<le> last_delivered_nonce (view s)
    then res = Some ?n \<and> view s' = confirm_data ?n (view s) else res = None \<and> view s' = view s"
    using eq inv' v by (auto simp: view_set_data)
qed

lemma receive_message_view:
  assumes inv: "inv s" and r: "receive_message S dispatch rb rt nonce md s x = (res, s', x')"
  shows "inv s'" and "same_inbound_config S s s'"
    and "if nonce \<noteq> last_delivered_nonce (view s) + 1
         then res = InvalidNonce \<and> view s' = view s \<and> x' = x
         else if ils_max_unrewarded_relayer_entries S s \<le> of_nat (length (relayers (view s)))
         then res = TooManyUnrewardedRelayers \<and> view s' = view s \<and> x' = x
         else if ils_max_unconfirmed_messages S s < saturating_sub nonce (last_confirmed_nonce (view s))
         then res = TooManyUnconfirmedMessages \<and> view s' = view s \<and> x' = x
         else \<exists>dr. dispatch rt \<lparr>dmsg_key = \<lparr>mk_lane_id = ils_id S s, mk_nonce = nonce\<rparr>, dmsg_data = md\<rparr> x = (dr, x') \<and>
                res = Dispatched dr \<and> view s' = deliver_data rb nonce (view s)"
proof -
  let ?s = "snd (ils_data S s)"
  have inv': "inv ?s" and v: "view ?s = view s"
    using inv by (simp_all add: data_inv view_data)
  obtain dr y where d: "dispatch rt \<lparr>dmsg_key = \<lparr>mk_lane_id = ils_id S s, mk_nonce = nonce\<rparr>, dmsg_data = md\<rparr> x = (dr, y)"
    by fastforce
  have eq: "(res, s', x') =
    (if nonce \<noteq> last_delivered_nonce (view s) + 1 then (InvalidNonce, ?s, x)
     else if ils_max_unrewarded_relayer_entries S s \<le> of_nat (length (relayers (view s)))
     then (TooManyUnrewardedRelayers, ?s, x)
     else if ils_max_unconfirmed_messages S s < saturating_sub nonce (last_confirmed_nonce (view s))
     then (TooManyUnconfirmedMessages, ?s, x)
     else (Dispatched dr, ils_set_data S (deliver_data rb nonce (view s)) ?s, y))"
    unfolding r [symmetric] receive_message_def
    using d by (subst data_eq [OF inv]) (auto simp: deliver_data_def Let_def config_data)
  then show "inv s'" using inv' by (auto simp: inv_set_data split: if_splits)
  show "same_inbound_config S s s'"
    using eq by (auto simp: same_inbound_config_def config_data config_set_data split: if_splits)
  show "if nonce \<noteq> last_delivered_nonce (view s) + 1
         then res = InvalidNonce \<and> view s' = view s \<and> x' = x
         else if ils_max_unrewarded_relayer_entries S s \<le> of_nat (length (relayers (view s)))
         then res = TooManyUnrewardedRelayers \<and> view s' = view s \<and> x' = x
         else if ils_max_unconfirmed_messages S s < saturating_sub nonce (last_confirmed_nonce (view s))
         then res = TooManyUnconfirmedMessages \<and> view s' = view s \<and> x' = x
         else \<exists>dr. dispatch rt \<lparr>dmsg_key = \<lparr>mk_lane_id = ils_id S s, mk_nonce = nonce\<rparr>, dmsg_data = md\<rparr> x = (dr, x') \<and>
                res = Dispatched dr \<and> view s' = deliver_data rb nonce (view s)"
    using eq inv' v d by (auto simp: view_set_data)
qed

text \<open>The lane implements the specification: confirmations and deliveries are those of the queue.\<close>

lemma receive_state_update_refines:
  assumes inv: "inv s" and wf: "inbound_wf (view s)" and r: "receive_state_update S out s = (res, s')"
  shows "lane_abs (view s') = lane_queue_confirm (unat (latest_received_nonce out)) (lane_abs (view s))"
    and "inbound_wf (view s')"
    and "last_delivered_nonce (view s') = last_delivered_nonce (view s)"
    and "length (relayers (view s')) \<le> length (relayers (view s))"
    and "last_confirmed_nonce (view s) \<le> last_confirmed_nonce (view s')"
proof -
  let ?n = "latest_received_nonce out"
  note * = receive_state_update_view(3) [OF inv r]
  have "lane_abs (view s') = lane_queue_confirm (unat ?n) (lane_abs (view s)) \<and> inbound_wf (view s') \<and>
    last_delivered_nonce (view s') = last_delivered_nonce (view s) \<and>
    length (relayers (view s')) \<le> length (relayers (view s)) \<and>
    last_confirmed_nonce (view s) \<le> last_confirmed_nonce (view s')"
  proof (cases "last_confirmed_nonce (view s) < ?n \<and> ?n \<le> last_delivered_nonce (view s)")
    case True
    then show ?thesis
      using * confirm_data_ok [OF wf, of ?n] by (auto simp: confirm_data_def)
  next
    case False
    have le: "unat (last_confirmed_nonce (view s)) \<le> unat (last_delivered_nonce (view s))"
      using inbound_wf_delivered [OF wf] by (simp add: word_le_nat_alt)
    obtain c rs where abs: "lane_abs (view s) = LaneQueue c rs" by (cases "lane_abs (view s)")
    then have "c = unat (last_confirmed_nonce (view s))"
      and "length rs = unat (last_delivered_nonce (view s)) - unat (last_confirmed_nonce (view s))"
      using lane_abs_length [OF wf] by (auto simp: lane_abs_def)
    with False le have "lane_queue_confirm (unat ?n) (lane_abs (view s)) = lane_abs (view s)"
      unfolding abs by (auto simp: word_less_nat_alt word_le_nat_alt)
    with False * wf show ?thesis by auto
  qed
  then show "lane_abs (view s') = lane_queue_confirm (unat ?n) (lane_abs (view s))"
    and "inbound_wf (view s')"
    and "last_delivered_nonce (view s') = last_delivered_nonce (view s)"
    and "length (relayers (view s')) \<le> length (relayers (view s))"
    and "last_confirmed_nonce (view s) \<le> last_confirmed_nonce (view s')"
    by simp_all
qed

lemma receive_state_update_ok:
  assumes "inv s" and "receive_state_update S out s = (res, s')"
    and "inbound_ok (ils_max_unrewarded_relayer_entries S s) (ils_max_unconfirmed_messages S s) (view s)"
  shows "inbound_ok (ils_max_unrewarded_relayer_entries S s) (ils_max_unconfirmed_messages S s) (view s')"
  using receive_state_update_refines [OF assms(1) _ assms(2)] assms(3)
  by (auto simp: inbound_ok_def inbound_limits_def word_le_nat_alt)

lemma receive_message_ok:
  assumes inv: "inv s" and r: "receive_message S dispatch rb rt nonce md s x = (res, s', x')"
    and "nonce \<noteq> 0"
    and ok: "inbound_ok (ils_max_unrewarded_relayer_entries S s) (ils_max_unconfirmed_messages S s) (view s)"
  shows "inbound_ok (ils_max_unrewarded_relayer_entries S s) (ils_max_unconfirmed_messages S s) (view s')"
proof (cases res)
  case (Dispatched dr)
  let ?e = "ils_max_unrewarded_relayer_entries S s" and ?u = "ils_max_unconfirmed_messages S s"
  let ?d = "view s"
  note * = receive_message_view(3) [OF inv r]
  from * Dispatched have n: "nonce = last_delivered_nonce ?d + 1"
    and e: "\<not> ?e \<le> of_nat (length (relayers ?d))"
    and u: "\<not> ?u < saturating_sub nonce (last_confirmed_nonce ?d)"
    and v: "view s' = deliver_data rb nonce ?d"
    by (auto split: if_splits)
  have wf: "inbound_wf ?d" using ok by (simp add: inbound_ok_def)
  note d = deliver_data_ok [OF wf n \<open>nonce \<noteq> 0\<close>]
  have "length (relayers ?d) \<le> unat ?e" using ok by (simp add: inbound_ok_def inbound_limits_def)
  then have "unat (of_nat (length (relayers ?d)) :: message_nonce) = length (relayers ?d)"
    using unat_lt_64 [of ?e] by (intro unat_of_nat_lt) simp
  with e have "Suc (length (relayers ?d)) \<le> unat ?e"
    by (simp add: word_le_nat_alt)
  then have "length (relayers (deliver_data rb nonce ?d)) \<le> unat ?e"
    using length_push_delivered [of rb nonce "relayers ?d"] by (simp add: deliver_data_def)
  moreover have "unat nonce - unat (last_confirmed_nonce ?d) \<le> unat ?u"
    using u by (simp add: word_less_nat_alt rust_arith)
  ultimately show ?thesis
    using d unfolding v by (simp add: inbound_ok_def inbound_limits_def)
next
qed (use receive_message_view(3) [OF inv r] ok in \<open>auto split: if_splits\<close>)

end

section \<open>The runtime storage of an inbound lane\<close>

text \<open>
  \<open>RuntimeInboundLaneStorage\<close>. The storage map \<open>InboundLanes\<close> of the pallet is part of the state;
  a missing key reads as the default value. The mutable borrow of the cache cannot fail: the
  operations never hold another borrow.
\<close>

record 'r runtime_inbound_lane_storage =
  ris_lane_id :: lane_id
  ris_cached_data :: "'r inbound_lane_data option"
  ris_max_unrewarded_relayer_entries :: message_nonce
  ris_max_unconfirmed_messages :: message_nonce
  ris_inbound_lanes :: "lane_id \<rightharpoonup> 'r inbound_lane_data"

definition inbound_lanes_get :: "(lane_id \<rightharpoonup> 'r inbound_lane_data) \<Rightarrow> lane_id \<Rightarrow> 'r inbound_lane_data" where
  "inbound_lanes_get m lane = (case m lane of None \<Rightarrow> default_inbound_lane_data | Some d \<Rightarrow> d)"

definition ris_data ::
  "'r runtime_inbound_lane_storage \<Rightarrow> 'r inbound_lane_data \<times> 'r runtime_inbound_lane_storage" where
  "ris_data s =
     (case ris_cached_data s of
        Some data \<Rightarrow> (data, s)
      | None \<Rightarrow>
          let data = inbound_lanes_get (ris_inbound_lanes s) (ris_lane_id s)
          in (data, s\<lparr>ris_cached_data := Some data\<rparr>))"

definition ris_set_data ::
  "'r inbound_lane_data \<Rightarrow> 'r runtime_inbound_lane_storage \<Rightarrow> 'r runtime_inbound_lane_storage" where
  "ris_set_data data s =
     s\<lparr>ris_cached_data := Some data, ris_inbound_lanes := (ris_inbound_lanes s)(ris_lane_id s \<mapsto> data)\<rparr>"

definition runtime_inbound_storage_ops :: "('r runtime_inbound_lane_storage, 'r) inbound_lane_storage" where
  "runtime_inbound_storage_ops = \<lparr>
     ils_id = ris_lane_id,
     ils_max_unrewarded_relayer_entries = ris_max_unrewarded_relayer_entries,
     ils_max_unconfirmed_messages = ris_max_unconfirmed_messages,
     ils_data = ris_data,
     ils_set_data = ris_set_data\<rparr>"

text \<open>The cache holds what the storage map holds.\<close>

definition ris_view :: "'r runtime_inbound_lane_storage \<Rightarrow> 'r inbound_lane_data" where
  "ris_view s = inbound_lanes_get (ris_inbound_lanes s) (ris_lane_id s)"

definition ris_coherent :: "'r runtime_inbound_lane_storage \<Rightarrow> bool" where
  "ris_coherent s \<longleftrightarrow> (case ris_cached_data s of None \<Rightarrow> True | Some d \<Rightarrow> d = ris_view s)"

interpretation runtime_inbound: inbound_storage runtime_inbound_storage_ops ris_view ris_coherent
  by unfold_locales
    (auto simp: runtime_inbound_storage_ops_def ris_data_def ris_set_data_def ris_view_def ris_coherent_def
       inbound_lanes_get_def Let_def split: option.splits)

text \<open>The operations touch no lane but their own.\<close>

lemma receive_state_update_other_lanes:
  assumes "receive_state_update runtime_inbound_storage_ops out s = (res, s')" and "lane \<noteq> ris_lane_id s"
  shows "ris_inbound_lanes s' lane = ris_inbound_lanes s lane"
  using assms
  by (auto simp: receive_state_update_def runtime_inbound_storage_ops_def ris_data_def ris_set_data_def Let_def
      split: option.splits if_splits prod.splits)

lemma receive_message_other_lanes:
  assumes "receive_message runtime_inbound_storage_ops dispatch rb rt nonce md s x = (res, s', x')"
    and "lane \<noteq> ris_lane_id s"
  shows "ris_inbound_lanes s' lane = ris_inbound_lanes s lane"
  using assms
  by (auto simp: receive_message_def runtime_inbound_storage_ops_def ris_data_def ris_set_data_def Let_def
      split: option.splits if_splits prod.splits)

lemma receive_message_keeps_id:
  assumes "receive_message runtime_inbound_storage_ops dispatch rb rt nonce md s x = (res, s', x')"
  shows "ris_lane_id s' = ris_lane_id s"
  using assms
  by (auto simp: receive_message_def runtime_inbound_storage_ops_def ris_data_def ris_set_data_def Let_def
      split: option.splits if_splits prod.splits)

end
