(* ===== verification/Outbound_Lane.thy ===== *)
theory Outbound_Lane
  imports Messages_Primitives
begin

text \<open>
  The outbound lane (\<open>modules/messages/src/outbound_lane.rs\<close>) and its runtime storage
  (\<open>RuntimeOutboundLaneStorage\<close> in \<open>modules/messages/src/lib.rs\<close>): sending, confirming and pruning
  messages. The locale \<open>outbound_storage\<close> is the contract between the lane and its storage; the
  lemmas show that a message stays in the storage until its delivery is confirmed and that pruning
  ends and stays within its weight.
\<close>

section \<open>The storage interface and the operations\<close>

record 's outbound_lane_storage =
  ols_id :: "'s \<Rightarrow> lane_id"
  ols_data :: "'s \<Rightarrow> outbound_lane_data"
  ols_set_data :: "outbound_lane_data \<Rightarrow> 's \<Rightarrow> 's"
  ols_save_message :: "message_nonce \<Rightarrow> message_payload \<Rightarrow> 's \<Rightarrow> 's option"
  ols_remove_message :: "message_nonce \<Rightarrow> 's \<Rightarrow> 's"

datatype receival_confirmation_result =
    ConfirmedMessages delivered_messages
  | NoNewConfirmations
  | FailedToConfirmFutureMessages
  | EmptyUnrewardedRelayerEntry
  | NonConsecutiveUnrewardedRelayerEntries
  | TryingToConfirmMoreMessagesThanExpected message_nonce

text \<open>\<open>OutboundLane::send_message\<close>; \<open>None\<close> is the panic of \<open>save_message\<close> on an oversized payload.\<close>

definition lane_send_message ::
  "'s outbound_lane_storage \<Rightarrow> message_payload \<Rightarrow> 's \<Rightarrow> (message_nonce \<times> 's) option" where
  "lane_send_message S message_payload s =
     (let data = ols_data S s;
          nonce = latest_generated_nonce data + 1;
          data = data\<lparr>latest_generated_nonce := nonce\<rparr>
      in do {
           s \<leftarrow> ols_save_message S nonce message_payload s;
           Some (nonce, ols_set_data S data s)
         })"

fun check_unrewarded_relayers ::
  "message_nonce \<Rightarrow> message_nonce option \<Rightarrow> 'r unrewarded_relayer list \<Rightarrow> receival_confirmation_result + unit"
where
  "check_unrewarded_relayers latest_received last_entry_end [] = Inr ()"
| "check_unrewarded_relayers latest_received last_entry_end (entry # entries) =
     (if dm_end (ur_messages entry) < dm_begin (ur_messages entry) then Inl EmptyUnrewardedRelayerEntry
      else if (case last_entry_end of
                 None \<Rightarrow> False
               | Some e \<Rightarrow> checked_add e 1 \<noteq> Some (dm_begin (ur_messages entry)))
      then Inl NonConsecutiveUnrewardedRelayerEntries
      else if latest_received < dm_end (ur_messages entry) then Inl FailedToConfirmFutureMessages
      else check_unrewarded_relayers latest_received (Some (dm_end (ur_messages entry))) entries)"

definition ensure_unrewarded_relayers_are_correct ::
  "message_nonce \<Rightarrow> 'r unrewarded_relayer list \<Rightarrow> receival_confirmation_result + unit" where
  "ensure_unrewarded_relayers_are_correct latest_received rs = check_unrewarded_relayers latest_received None rs"

definition confirm_delivery ::
  "'s outbound_lane_storage \<Rightarrow> message_nonce \<Rightarrow> message_nonce \<Rightarrow> 'r unrewarded_relayer list \<Rightarrow> 's \<Rightarrow>
     receival_confirmation_result \<times> 's" where
  "confirm_delivery S max_allowed_messages latest_delivered_nonce rs s =
     (let data = ols_data S s
      in if latest_delivered_nonce \<le> latest_received_nonce data then (NoNewConfirmations, s)
         else if latest_generated_nonce data < latest_delivered_nonce then (FailedToConfirmFutureMessages, s)
         else if max_allowed_messages < latest_delivered_nonce - latest_received_nonce data
         then (TryingToConfirmMoreMessagesThanExpected (latest_delivered_nonce - latest_received_nonce data), s)
         else
           case ensure_unrewarded_relayers_are_correct latest_delivered_nonce rs of
             Inl e \<Rightarrow> (e, s)
           | Inr _ \<Rightarrow>
               let prev_latest_received_nonce = latest_received_nonce data;
                   data = data\<lparr>latest_received_nonce := latest_delivered_nonce\<rparr>
               in (ConfirmedMessages
                     \<lparr>dm_begin = prev_latest_received_nonce + 1, dm_end = latest_delivered_nonce\<rparr>,
                   ols_set_data S data s))"

text \<open>The loop of \<open>prune_messages\<close>. It does not end when \<open>latest_received_nonce\<close> is the largest
  nonce and the weight of a write is zero, so it is a partial function.\<close>

partial_function (option) prune_loop ::
  "'w weight_ops \<Rightarrow> 's outbound_lane_storage \<Rightarrow> 'w \<Rightarrow> 'w \<Rightarrow> 'w \<Rightarrow> 'w \<Rightarrow> outbound_lane_data \<Rightarrow> 's \<Rightarrow>
     ('w \<times> outbound_lane_data \<times> 's) option" where
  "prune_loop W S write_weight two_writes_weight remaining_weight spent_weight data s =
     (if w_all_gte W remaining_weight two_writes_weight \<and>
         oldest_unpruned_nonce data \<le> latest_received_nonce data
      then prune_loop W S write_weight two_writes_weight
             (w_sub W remaining_weight write_weight)
             (w_add W spent_weight write_weight)
             (data\<lparr>oldest_unpruned_nonce := oldest_unpruned_nonce data + 1\<rparr>)
             (ols_remove_message S (oldest_unpruned_nonce data) s)
      else Some (spent_weight, data, s))"

definition prune_messages ::
  "'w weight_ops \<Rightarrow> 's outbound_lane_storage \<Rightarrow> 'w db_weight \<Rightarrow> 'w \<Rightarrow> 's \<Rightarrow> ('w \<times> 's) option" where
  "prune_messages W S db_weight remaining_weight s =
     (let write_weight = db_writes db_weight 1;
          two_writes_weight = w_add W write_weight write_weight
      in do {
           (spent_weight, data, s) \<leftarrow>
             prune_loop W S write_weight two_writes_weight remaining_weight (w_zero W) (ols_data S s) s;
           Some (if \<not> w_is_zero W spent_weight
                 then (w_add W spent_weight write_weight, ols_set_data S data s)
                 else (spent_weight, s))
         })"

section \<open>Unrewarded relayers\<close>

lemma checked_succ_eq: "checked_add e 1 = Some b \<longleftrightarrow> unat b = Suc (unat e)" for b e :: u64
  by (simp add: rust_arith)

lemma check_unrewarded_relayers_iff:
  "check_unrewarded_relayers n prev rs = Inr () \<longleftrightarrow>
     consecutive prev rs \<and> (\<forall>e \<in> set rs. entry_end e \<le> n)"
  by (induction n prev rs rule: check_unrewarded_relayers.induct)
    (auto simp: checked_succ_eq not_less split: option.splits)

lemma ensure_unrewarded_relayers_iff:
  "ensure_unrewarded_relayers_are_correct n rs = Inr () \<longleftrightarrow>
     consecutive None rs \<and> (\<forall>e \<in> set rs. entry_end e \<le> n)"
  by (simp add: ensure_unrewarded_relayers_are_correct_def check_unrewarded_relayers_iff)

lemma check_unrewarded_relayers_errors:
  "check_unrewarded_relayers n prev rs = Inl err \<Longrightarrow>
     err \<in> {EmptyUnrewardedRelayerEntry, NonConsecutiveUnrewardedRelayerEntries, FailedToConfirmFutureMessages}"
  by (induction n prev rs rule: check_unrewarded_relayers.induct) (auto split: if_splits option.splits)

section \<open>The invariant of an outbound lane\<close>

definition outbound_wf :: "outbound_lane_data \<Rightarrow> bool" where
  "outbound_wf d \<longleftrightarrow>
     unat (oldest_unpruned_nonce d) \<le> Suc (unat (latest_received_nonce d)) \<and>
     latest_received_nonce d \<le> latest_generated_nonce d"

text \<open>
  The stored messages: nothing outside \<open>oldest_unpruned_nonce..latest_generated_nonce\<close>, and every
  message whose delivery is not confirmed.
\<close>

definition outbound_store_ok :: "outbound_lane_data \<Rightarrow> (message_nonce \<rightharpoonup> 'p) \<Rightarrow> bool" where
  "outbound_store_ok d m \<longleftrightarrow>
     dom m \<subseteq> {oldest_unpruned_nonce d..latest_generated_nonce d} \<and>
     {latest_received_nonce d<..latest_generated_nonce d} \<subseteq> dom m"

lemma outbound_store_ok_iff:
  "outbound_store_ok d m \<longleftrightarrow>
     (\<forall>n p. m n = Some p \<longrightarrow> oldest_unpruned_nonce d \<le> n \<and> n \<le> latest_generated_nonce d) \<and>
     (\<forall>n. latest_received_nonce d < n \<and> n \<le> latest_generated_nonce d \<longrightarrow> m n \<noteq> None)"
  by (simp add: outbound_store_ok_def dom_def subset_iff greaterThanAtMost_iff)

lemma outbound_wf_default: "outbound_wf default_outbound_lane_data"
  by (simp add: outbound_wf_def default_outbound_lane_data_def)

lemma outbound_store_ok_default: "outbound_store_ok default_outbound_lane_data Map.empty"
  by (auto simp: outbound_store_ok_def default_outbound_lane_data_def)

lemma outbound_store_ok_send:
  assumes "outbound_store_ok d m" and "outbound_wf d" and n: "unat nonce = Suc (unat (latest_generated_nonce d))"
  shows "outbound_store_ok (d\<lparr>latest_generated_nonce := nonce\<rparr>) (m(nonce \<mapsto> p))"
proof -
  have le: "k \<le> nonce \<longleftrightarrow> k = nonce \<or> k \<le> latest_generated_nonce d" for k
    by (rule word_le_succ_iff [OF n])
  have "oldest_unpruned_nonce d \<le> nonce"
    using assms(2) n by (simp add: outbound_wf_def word_le_nat_alt)
  then have "insert nonce {oldest_unpruned_nonce d..latest_generated_nonce d} \<subseteq> {oldest_unpruned_nonce d..nonce}"
    by (auto simp: le)
  moreover have "{latest_received_nonce d<..nonce} \<subseteq> insert nonce {latest_received_nonce d<..latest_generated_nonce d}"
    by (auto simp: le)
  ultimately show ?thesis
    using assms(1) unfolding outbound_store_ok_def dom_fun_upd
    by (auto simp del: atLeastAtMost_iff atLeastatMost_subset_iff)
qed

lemma outbound_store_ok_confirm:
  assumes "outbound_store_ok d m" and "latest_received_nonce d \<le> n"
  shows "outbound_store_ok (d\<lparr>latest_received_nonce := n\<rparr>) m"
proof -
  have "{n<..latest_generated_nonce d} \<subseteq> {latest_received_nonce d<..latest_generated_nonce d}"
    using assms(2) by auto
  then show ?thesis
    using assms(1) by (simp add: outbound_store_ok_def) blast
qed

section \<open>The contract of the storage\<close>

locale outbound_storage =
  fixes S :: "'s outbound_lane_storage"
    and msgs :: "'s \<Rightarrow> message_nonce \<Rightarrow> message_payload option"
    and fits :: "'s \<Rightarrow> message_payload \<Rightarrow> bool"
  assumes data_set_data: "ols_data S (ols_set_data S d s) = d"
    and msgs_set_data: "msgs (ols_set_data S d s) = msgs s"
    and save_fits: "fits s p \<Longrightarrow> \<exists>s'. ols_save_message S n p s = Some s'"
    and save_too_large: "\<not> fits s p \<Longrightarrow> ols_save_message S n p s = None"
    and data_save: "ols_save_message S n p s = Some s' \<Longrightarrow> ols_data S s' = ols_data S s"
    and msgs_save: "ols_save_message S n p s = Some s' \<Longrightarrow> msgs s' = (msgs s)(n \<mapsto> p)"
    and data_remove: "ols_data S (ols_remove_message S n s) = ols_data S s"
    and msgs_remove: "msgs (ols_remove_message S n s) = (msgs s)(n := None)"
begin

lemma lane_send_message_total: "fits s p \<longleftrightarrow> (\<exists>r. lane_send_message S p s = Some r)"
  using save_fits save_too_large
  by (fastforce simp: lane_send_message_def Let_def bind_eq_Some_conv)

lemma lane_send_message_effect:
  assumes "lane_send_message S p s = Some (nonce, s')"
  shows "nonce = latest_generated_nonce (ols_data S s) + 1"
    and "ols_data S s' = (ols_data S s)\<lparr>latest_generated_nonce := nonce\<rparr>"
    and "msgs s' = (msgs s)(nonce \<mapsto> p)"
  using assms
  by (auto simp: lane_send_message_def Let_def bind_eq_Some_conv data_set_data msgs_set_data dest: msgs_save)

lemma lane_send_message_ok:
  assumes "lane_send_message S p s = Some (nonce, s')" and "nonce \<noteq> 0"
    and wf: "outbound_wf (ols_data S s)" and st: "outbound_store_ok (ols_data S s) (msgs s)"
  shows "outbound_wf (ols_data S s')" and "outbound_store_ok (ols_data S s') (msgs s')"
proof -
  note e = lane_send_message_effect [OF assms(1)]
  have n: "unat nonce = Suc (unat (latest_generated_nonce (ols_data S s)))"
    using e(1) \<open>nonce \<noteq> 0\<close> by (metis unat_succ_nonzero)
  show "outbound_wf (ols_data S s')"
    using wf n by (simp add: e outbound_wf_def word_le_nat_alt)
  show "outbound_store_ok (ols_data S s') (msgs s')"
    unfolding e(2,3) using st wf n by (rule outbound_store_ok_send)
qed

lemma confirm_delivery_cases:
  assumes "confirm_delivery S k n rs s = (res, s')"
  shows "if n \<le> latest_received_nonce (ols_data S s) then res = NoNewConfirmations \<and> s' = s
    else if latest_generated_nonce (ols_data S s) < n then res = FailedToConfirmFutureMessages \<and> s' = s
    else if k < n - latest_received_nonce (ols_data S s)
    then res = TryingToConfirmMoreMessagesThanExpected (n - latest_received_nonce (ols_data S s)) \<and> s' = s
    else if consecutive None rs \<and> (\<forall>e \<in> set rs. entry_end e \<le> n)
    then res = ConfirmedMessages \<lparr>dm_begin = latest_received_nonce (ols_data S s) + 1, dm_end = n\<rparr> \<and>
         ols_data S s' = (ols_data S s)\<lparr>latest_received_nonce := n\<rparr> \<and> msgs s' = msgs s
    else res \<in> {EmptyUnrewardedRelayerEntry, NonConsecutiveUnrewardedRelayerEntries, FailedToConfirmFutureMessages} \<and>
         s' = s"
proof -
  let ?d = "ols_data S s"
  consider "n \<le> latest_received_nonce ?d \<or> latest_generated_nonce ?d < n \<or> k < n - latest_received_nonce ?d"
    | err where "\<not> n \<le> latest_received_nonce ?d" "\<not> latest_generated_nonce ?d < n" "\<not> k < n - latest_received_nonce ?d"
        "ensure_unrewarded_relayers_are_correct n rs = Inl err"
    | "\<not> n \<le> latest_received_nonce ?d" "\<not> latest_generated_nonce ?d < n" "\<not> k < n - latest_received_nonce ?d"
        "ensure_unrewarded_relayers_are_correct n rs = Inr ()"
    by (cases "ensure_unrewarded_relayers_are_correct n rs") auto
  then show ?thesis
  proof cases
    case 1
    then show ?thesis using assms by (auto simp: confirm_delivery_def Let_def)
  next
    case 2
    then have "\<not> (consecutive None rs \<and> (\<forall>e \<in> set rs. entry_end e \<le> n))"
      using ensure_unrewarded_relayers_iff [of n rs] by auto
    moreover have "err \<in> {EmptyUnrewardedRelayerEntry, NonConsecutiveUnrewardedRelayerEntries,
        FailedToConfirmFutureMessages}"
      using 2(4) unfolding ensure_unrewarded_relayers_are_correct_def by (rule check_unrewarded_relayers_errors)
    ultimately show ?thesis
      using assms 2 by (simp only: confirm_delivery_def Let_def if_False sum.case prod.inject simp_thms)
  next
    case 3
    then have "consecutive None rs \<and> (\<forall>e \<in> set rs. entry_end e \<le> n)"
      using ensure_unrewarded_relayers_iff [of n rs] by simp
    with assms 3 show ?thesis
      by (auto simp: confirm_delivery_def Let_def data_set_data msgs_set_data)
  qed
qed

lemma confirm_delivery_ok:
  assumes "confirm_delivery S k n rs s = (res, s')"
    and "outbound_wf (ols_data S s)" and "outbound_store_ok (ols_data S s) (msgs s)"
  shows "outbound_wf (ols_data S s') \<and> outbound_store_ok (ols_data S s') (msgs s')"
proof (cases "ols_data S s' = ols_data S s \<and> msgs s' = msgs s")
  case False
  then have "ols_data S s' = (ols_data S s)\<lparr>latest_received_nonce := n\<rparr>" "msgs s' = msgs s"
    "latest_received_nonce (ols_data S s) \<le> n" "n \<le> latest_generated_nonce (ols_data S s)"
    using confirm_delivery_cases [OF assms(1)] by (auto split: if_splits)
  then show ?thesis
    using assms(2,3) outbound_store_ok_confirm by (auto simp: outbound_wf_def word_le_nat_alt)
qed (use assms in simp)

lemma confirm_delivery_confirmed:
  assumes "confirm_delivery S k n rs s = (ConfirmedMessages rng, s')"
  shows "nonces_of rng = {m. latest_received_nonce (ols_data S s) < m \<and> m \<le> latest_received_nonce (ols_data S s')}"
    and "latest_received_nonce (ols_data S s') = n" and "n \<le> latest_generated_nonce (ols_data S s)"
    and "card (nonces_of rng) \<le> unat k" and "nonces_of rng \<noteq> {}" and "consecutive None rs"
proof -
  let ?d = "ols_data S s"
  from confirm_delivery_cases [OF assms]
  have *: "latest_received_nonce ?d < n" "n \<le> latest_generated_nonce ?d" "n - latest_received_nonce ?d \<le> k"
    "rng = \<lparr>dm_begin = latest_received_nonce ?d + 1, dm_end = n\<rparr>"
    "ols_data S s' = ?d\<lparr>latest_received_nonce := n\<rparr>" "consecutive None rs"
    by (auto simp: not_le not_less split: if_splits)
  have succ: "unat (latest_received_nonce ?d + 1) = Suc (unat (latest_received_nonce ?d))"
    using *(1) by (rule unat_succ_lt)
  show "latest_received_nonce (ols_data S s') = n" "n \<le> latest_generated_nonce ?d" "consecutive None rs"
    using * by simp_all
  show eq: "nonces_of rng = {m. latest_received_nonce ?d < m \<and> m \<le> latest_received_nonce (ols_data S s')}"
    using * by (auto simp: nonces_of_def word_succ_le_iff [OF succ])
  then show "nonces_of rng \<noteq> {}" using * by auto
  have "card (nonces_of rng) = unat n - unat (latest_received_nonce ?d)"
    using * succ by (simp add: nonces_of_def card_word_interval word_le_nat_alt word_less_nat_alt)
  also have "\<dots> = unat (n - latest_received_nonce ?d)"
    using *(1) by (simp add: unat_sub_le)
  finally show "card (nonces_of rng) \<le> unat k"
    using *(3) by (simp add: word_le_nat_alt)
qed

text \<open>
  The pruning loop: it returns whenever the latest received nonce is not the largest one, and it
  has then removed exactly the messages from the old to the new \<open>oldest_unpruned_nonce\<close>.
\<close>

lemma prune_loop_effect:
  assumes "latest_received_nonce d < - 1"
  shows "\<exists>spent' o' s'. prune_loop W S ww tww rem spent d s = Some (spent', d\<lparr>oldest_unpruned_nonce := o'\<rparr>, s') \<and>
    ols_data S s' = ols_data S s \<and>
    msgs s' = (\<lambda>n. if oldest_unpruned_nonce d \<le> n \<and> n < o' then None else msgs s n) \<and>
    oldest_unpruned_nonce d \<le> o' \<and>
    (o' = oldest_unpruned_nonce d \<or> unat o' \<le> Suc (unat (latest_received_nonce d)))"
  using assms
proof (induction "Suc (unat (latest_received_nonce d)) - unat (oldest_unpruned_nonce d)"
    arbitrary: d s rem spent rule: less_induct)
  case less
  let ?o = "oldest_unpruned_nonce d"
  show ?case
  proof (cases "w_all_gte W rem tww \<and> ?o \<le> latest_received_nonce d")
    case False
    then have "prune_loop W S ww tww rem spent d s = Some (spent, d\<lparr>oldest_unpruned_nonce := ?o\<rparr>, s)"
      by (subst prune_loop.simps) auto
    then show ?thesis by (intro exI [of _ spent] exI [of _ ?o] exI [of _ s]) (auto simp: fun_eq_iff)
  next
    case True
    let ?d = "d\<lparr>oldest_unpruned_nonce := ?o + 1\<rparr>" and ?s = "ols_remove_message S ?o s"
    have "?o < - 1" using True less.prems by (blast intro: le_less_trans)
    then have o: "unat (?o + 1) = Suc (unat ?o)" by (rule unat_succ)
    have le: "unat ?o \<le> unat (latest_received_nonce d)"
      using True by (simp add: word_le_nat_alt)
    have "\<exists>spent' o' s'. prune_loop W S ww tww (w_sub W rem ww) (w_add W spent ww) ?d ?s =
        Some (spent', ?d\<lparr>oldest_unpruned_nonce := o'\<rparr>, s') \<and>
      ols_data S s' = ols_data S ?s \<and>
      msgs s' = (\<lambda>n. if oldest_unpruned_nonce ?d \<le> n \<and> n < o' then None else msgs ?s n) \<and>
      oldest_unpruned_nonce ?d \<le> o' \<and>
      (o' = oldest_unpruned_nonce ?d \<or> unat o' \<le> Suc (unat (latest_received_nonce ?d)))"
      using less.prems o le by (intro less.hyps) simp_all
    then obtain spent' o' s' where
        r: "prune_loop W S ww tww (w_sub W rem ww) (w_add W spent ww) ?d ?s =
          Some (spent', ?d\<lparr>oldest_unpruned_nonce := o'\<rparr>, s')"
      and d: "ols_data S s' = ols_data S ?s"
      and m: "msgs s' = (\<lambda>n. if oldest_unpruned_nonce ?d \<le> n \<and> n < o' then None else msgs ?s n)"
      and o': "oldest_unpruned_nonce ?d \<le> o'"
        "o' = oldest_unpruned_nonce ?d \<or> unat o' \<le> Suc (unat (latest_received_nonce ?d))"
      by (elim exE conjE)
    have "prune_loop W S ww tww rem spent d s = Some (spent', d\<lparr>oldest_unpruned_nonce := o'\<rparr>, s')"
      using True r by (subst prune_loop.simps) simp
    moreover have lt: "?o < o'" using o'(1) by (simp add: word_succ_le_iff [OF o])
    moreover have "msgs s' = (\<lambda>n. if ?o \<le> n \<and> n < o' then None else msgs s n)"
    proof
      fix n
      show "msgs s' n = (if ?o \<le> n \<and> n < o' then None else msgs s n)"
        using lt by (cases "n = ?o") (auto simp: m msgs_remove word_succ_le_iff [OF o])
    qed
    moreover have "ols_data S s' = ols_data S s" using d by (simp add: data_remove)
    moreover have "unat o' \<le> Suc (unat (latest_received_nonce d))" using o'(2) o le by auto
    ultimately show ?thesis
      by (intro exI [of _ spent'] exI [of _ o'] exI [of _ s']) simp
  qed
qed

lemma prune_messages_effect:
  assumes "latest_received_nonce (ols_data S s) < - 1"
  shows "\<exists>spent o' s'. prune_messages W S db rem s = Some (spent, s') \<and>
    (ols_data S s' = (ols_data S s)\<lparr>oldest_unpruned_nonce := o'\<rparr> \<or> ols_data S s' = ols_data S s) \<and>
    msgs s' = (\<lambda>n. if oldest_unpruned_nonce (ols_data S s) \<le> n \<and> n < o' then None else msgs s n) \<and>
    oldest_unpruned_nonce (ols_data S s) \<le> o' \<and>
    (o' = oldest_unpruned_nonce (ols_data S s) \<or> unat o' \<le> Suc (unat (latest_received_nonce (ols_data S s))))"
proof -
  let ?d = "ols_data S s" and ?ww = "db_writes db 1"
  obtain spent' o' s' where
      r: "prune_loop W S ?ww (w_add W ?ww ?ww) rem (w_zero W) ?d s = Some (spent', ?d\<lparr>oldest_unpruned_nonce := o'\<rparr>, s')"
    and *: "ols_data S s' = ols_data S s"
      "msgs s' = (\<lambda>n. if oldest_unpruned_nonce ?d \<le> n \<and> n < o' then None else msgs s n)"
      "oldest_unpruned_nonce ?d \<le> o'"
      "o' = oldest_unpruned_nonce ?d \<or> unat o' \<le> Suc (unat (latest_received_nonce ?d))"
    using prune_loop_effect [OF assms, where W = W and ww = ?ww and tww = "w_add W ?ww ?ww" and
        rem = rem and spent = "w_zero W" and s = s]
    by (elim exE conjE)
  show ?thesis
  proof (cases "w_is_zero W spent'")
    case True
    then have "prune_messages W S db rem s = Some (spent', s')"
      by (simp add: prune_messages_def r)
    with * show ?thesis by (intro exI [of _ o'] exI [of _ spent'] exI [of _ s']) simp
  next
    case False
    then have "prune_messages W S db rem s =
        Some (w_add W spent' ?ww, ols_set_data S (?d\<lparr>oldest_unpruned_nonce := o'\<rparr>) s')"
      by (simp add: prune_messages_def r)
    with * show ?thesis
      by (intro exI [of _ o'] exI [of _ "w_add W spent' ?ww"] exI [of _ "ols_set_data S (?d\<lparr>oldest_unpruned_nonce := o'\<rparr>) s'"])
        (simp add: data_set_data msgs_set_data)
  qed
qed

lemma prune_messages_ok:
  assumes "latest_received_nonce (ols_data S s) < - 1" and "prune_messages W S db rem s = Some (spent, s')"
    and wf: "outbound_wf (ols_data S s)" and st: "outbound_store_ok (ols_data S s) (msgs s)"
  shows "outbound_wf (ols_data S s')" and "outbound_store_ok (ols_data S s') (msgs s')"
    and "latest_received_nonce (ols_data S s') = latest_received_nonce (ols_data S s)"
    and "latest_generated_nonce (ols_data S s') = latest_generated_nonce (ols_data S s)"
    and "\<And>n. latest_received_nonce (ols_data S s) < n \<Longrightarrow> msgs s' n = msgs s n"
proof -
  let ?d = "ols_data S s"
  obtain o' where d: "ols_data S s' = ?d\<lparr>oldest_unpruned_nonce := o'\<rparr> \<or> ols_data S s' = ?d"
    and m: "msgs s' = (\<lambda>n. if oldest_unpruned_nonce ?d \<le> n \<and> n < o' then None else msgs s n)"
    and o': "oldest_unpruned_nonce ?d \<le> o'"
      "o' = oldest_unpruned_nonce ?d \<or> unat o' \<le> Suc (unat (latest_received_nonce ?d))"
    using prune_messages_effect [OF assms(1), of W db rem] assms(2) by auto
  have o'': "unat o' \<le> Suc (unat (latest_received_nonce ?d))"
    using o' wf by (auto simp: outbound_wf_def)
  show "latest_received_nonce (ols_data S s') = latest_received_nonce ?d"
    "latest_generated_nonce (ols_data S s') = latest_generated_nonce ?d"
    using d by auto
  show "outbound_wf (ols_data S s')" using d wf o'' by (auto simp: outbound_wf_def)
  show keep: "msgs s' n = msgs s n" if "latest_received_nonce ?d < n" for n
  proof -
    have "\<not> n < o'" using that o'' by (simp add: word_less_nat_alt)
    then show ?thesis by (simp add: m)
  qed
  have range: "o' \<le> n \<and> oldest_unpruned_nonce ?d \<le> n \<and> n \<le> latest_generated_nonce ?d"
    if "msgs s' n = Some p" for n p
  proof -
    from that have "msgs s n = Some p" and not: "\<not> (oldest_unpruned_nonce ?d \<le> n \<and> n < o')"
      by (simp_all add: m split: if_splits)
    then have "oldest_unpruned_nonce ?d \<le> n \<and> n \<le> latest_generated_nonce ?d"
      using st by (auto simp: outbound_store_ok_iff)
    then show ?thesis using not by simp
  qed
  have "msgs s' n \<noteq> None" if "latest_received_nonce ?d < n" "n \<le> latest_generated_nonce ?d" for n
    using st that keep [of n] by (simp add: outbound_store_ok_iff)
  then show "outbound_store_ok (ols_data S s') (msgs s')"
    using d range by (auto simp: outbound_store_ok_iff)
qed

end

section \<open>The weight of pruning\<close>

text \<open>Within the loop, the spent weight and the remaining weight add up to the initial weight.\<close>

lemma prune_loop_weight:
  assumes W: "weight_laws W"
    and two: "2 * unat (w_ref_time W ww) < 2 ^ 64" "2 * unat (w_proof_size W ww) < 2 ^ 64"
    and tww: "tww = w_add W ww ww"
    and max: "latest_received_nonce d < - 1"
    and sum: "unat (w_ref_time W spent) + unat (w_ref_time W rem) = r"
      "unat (w_proof_size W spent) + unat (w_proof_size W rem) = p"
      "r < 2 ^ 64" "p < 2 ^ 64"
    and res: "prune_loop W S ww tww rem spent d s = Some (spent', d', s')"
  shows "spent' = spent \<or>
    unat (w_ref_time W spent') + unat (w_ref_time W ww) \<le> r \<and>
    unat (w_proof_size W spent') + unat (w_proof_size W ww) \<le> p"
  using max sum(1,2) res
proof (induction "Suc (unat (latest_received_nonce d)) - unat (oldest_unpruned_nonce d)"
    arbitrary: d s rem spent rule: less_induct)
  case less
  let ?o = "oldest_unpruned_nonce d"
  let ?d = "d\<lparr>oldest_unpruned_nonce := ?o + 1\<rparr>" and ?s = "ols_remove_message S ?o s"
  let ?spent = "w_add W spent ww" and ?rem = "w_sub W rem ww"
  show ?case
  proof (cases "w_all_gte W rem tww \<and> ?o \<le> latest_received_nonce d")
    case False
    with less.prems show ?thesis by (subst (asm) prune_loop.simps) auto
  next
    case True
    have "?o < - 1" using True less.prems by (blast intro: le_less_trans)
    then have o: "unat (?o + 1) = Suc (unat ?o)" by (rule unat_succ)
    have le: "unat ?o \<le> unat (latest_received_nonce d)" using True by (simp add: word_le_nat_alt)
    have "w_ref_time W tww = 2 * w_ref_time W ww" "w_proof_size W tww = 2 * w_proof_size W ww"
      using W by (simp_all add: tww weight_simps)
    then have "unat (w_ref_time W tww) = 2 * unat (w_ref_time W ww)"
      "unat (w_proof_size W tww) = 2 * unat (w_proof_size W ww)"
      using two unat_double [of "w_ref_time W ww"] unat_double [of "w_proof_size W ww"] by auto
    moreover have "w_ref_time W tww \<le> w_ref_time W rem" "w_proof_size W tww \<le> w_proof_size W rem"
      using True W by (simp_all add: weight_rel_parts)
    ultimately have rem: "2 * unat (w_ref_time W ww) \<le> unat (w_ref_time W rem)"
      "2 * unat (w_proof_size W ww) \<le> unat (w_proof_size W rem)"
      by (simp_all add: word_le_nat_alt)
    have sub: "unat (w_ref_time W ?rem) = unat (w_ref_time W rem) - unat (w_ref_time W ww)"
      "unat (w_proof_size W ?rem) = unat (w_proof_size W rem) - unat (w_proof_size W ww)"
      using W rem by (simp_all add: weight_simps unat_sub_le word_le_nat_alt)
    have add: "unat (w_ref_time W ?spent) = unat (w_ref_time W spent) + unat (w_ref_time W ww)"
      "unat (w_proof_size W ?spent) = unat (w_proof_size W spent) + unat (w_proof_size W ww)"
      using W rem less.prems(2,3) sum(3,4) by (simp_all add: weight_simps unat_add_lt)
    have rec: "prune_loop W S ww tww ?rem ?spent ?d ?s = Some (spent', d', s')"
      using less.prems(4) True by (subst (asm) prune_loop.simps) simp
    have "spent' = ?spent \<or>
      unat (w_ref_time W spent') + unat (w_ref_time W ww) \<le> r \<and>
      unat (w_proof_size W spent') + unat (w_proof_size W ww) \<le> p"
      using less.prems(1-3) o le rem
      by (intro less.hyps [OF _ _ _ _ rec]) (simp_all add: sub add)
    then show ?thesis using less.prems(2,3) rem add by auto
  qed
qed

lemma prune_messages_weight:
  assumes W: "weight_laws W"
    and two: "2 * unat (w_ref_time W (db_writes db 1)) < 2 ^ 64" "2 * unat (w_proof_size W (db_writes db 1)) < 2 ^ 64"
    and max: "latest_received_nonce (ols_data S s) < - 1"
    and res: "prune_messages W S db rem s = Some (spent, s')"
  shows "weight_le W spent rem"
proof -
  let ?ww = "db_writes db 1"
  from res obtain spent' d' s'' where
      loop: "prune_loop W S ?ww (w_add W ?ww ?ww) rem (w_zero W) (ols_data S s) s = Some (spent', d', s'')"
    and eq: "(spent, s') = (if \<not> w_is_zero W spent' then (w_add W spent' ?ww, ols_set_data S d' s'') else (spent', s''))"
    unfolding prune_messages_def Let_def bind_eq_Some_conv by (auto simp: split_paired_all)
  from eq have sp: "spent = (if w_is_zero W spent' then spent' else w_add W spent' ?ww)"
    by (simp split: if_splits)
  have "spent' = w_zero W \<or>
    unat (w_ref_time W spent') + unat (w_ref_time W ?ww) \<le> unat (w_ref_time W rem) \<and>
    unat (w_proof_size W spent') + unat (w_proof_size W ?ww) \<le> unat (w_proof_size W rem)"
    using W unat_lt_64 by (intro prune_loop_weight [OF W two refl max _ _ _ _ loop]) (simp_all add: weight_simps)
  then show ?thesis
  proof
    assume "spent' = w_zero W"
    then show ?thesis using W sp by (simp add: weight_le_def weight_simps)
  next
    assume *: "unat (w_ref_time W spent') + unat (w_ref_time W ?ww) \<le> unat (w_ref_time W rem) \<and>
      unat (w_proof_size W spent') + unat (w_proof_size W ?ww) \<le> unat (w_proof_size W rem)"
    then have "unat (w_ref_time W (w_add W spent' ?ww)) \<le> unat (w_ref_time W rem) \<and>
      unat (w_proof_size W (w_add W spent' ?ww)) \<le> unat (w_proof_size W rem)"
      using W unat_lt_64 [of "w_ref_time W rem"] unat_lt_64 [of "w_proof_size W rem"]
      by (simp add: weight_simps unat_add_lt)
    with * show ?thesis using W sp by (auto simp: weight_le_def word_le_nat_alt)
  qed
qed

section \<open>The runtime storage of an outbound lane\<close>

text \<open>
  \<open>RuntimeOutboundLaneStorage\<close> over the storage maps \<open>OutboundLanes\<close> and \<open>OutboundMessages\<close>. The
  conversion of a payload to \<open>StoredMessagePayload\<close>, a bounded vector, fails when the payload is
  longer than \<open>MaximalOutboundPayloadSize\<close>; \<open>save_message\<close> then panics.
\<close>

record runtime_outbound_lane_storage =
  ros_lane_id :: lane_id
  ros_maximal_outbound_payload_size :: u32
  ros_outbound_lanes :: "lane_id \<rightharpoonup> outbound_lane_data"
  ros_outbound_messages :: "message_key \<rightharpoonup> message_payload"

definition outbound_lanes_get :: "(lane_id \<rightharpoonup> outbound_lane_data) \<Rightarrow> lane_id \<Rightarrow> outbound_lane_data" where
  "outbound_lanes_get m lane = (case m lane of None \<Rightarrow> default_outbound_lane_data | Some d \<Rightarrow> d)"

definition ros_data :: "runtime_outbound_lane_storage \<Rightarrow> outbound_lane_data" where
  "ros_data s = outbound_lanes_get (ros_outbound_lanes s) (ros_lane_id s)"

definition ros_set_data ::
  "outbound_lane_data \<Rightarrow> runtime_outbound_lane_storage \<Rightarrow> runtime_outbound_lane_storage" where
  "ros_set_data data s = s\<lparr>ros_outbound_lanes := (ros_outbound_lanes s)(ros_lane_id s \<mapsto> data)\<rparr>"

definition ros_message :: "runtime_outbound_lane_storage \<Rightarrow> message_nonce \<Rightarrow> message_payload option" where
  "ros_message s nonce = ros_outbound_messages s \<lparr>mk_lane_id = ros_lane_id s, mk_nonce = nonce\<rparr>"

definition stored_message_payload_try_from :: "u32 \<Rightarrow> message_payload \<Rightarrow> message_payload option" where
  "stored_message_payload_try_from bound payload = (if length payload \<le> unat bound then Some payload else None)"

definition ros_save_message ::
  "message_nonce \<Rightarrow> message_payload \<Rightarrow> runtime_outbound_lane_storage \<Rightarrow> runtime_outbound_lane_storage option" where
  "ros_save_message nonce message_payload s =
     do {
       stored \<leftarrow> stored_message_payload_try_from (ros_maximal_outbound_payload_size s) message_payload;
       Some (s\<lparr>ros_outbound_messages :=
                 (ros_outbound_messages s)(\<lparr>mk_lane_id = ros_lane_id s, mk_nonce = nonce\<rparr> \<mapsto> stored)\<rparr>)
     }"

definition ros_remove_message ::
  "message_nonce \<Rightarrow> runtime_outbound_lane_storage \<Rightarrow> runtime_outbound_lane_storage" where
  "ros_remove_message nonce s =
     s\<lparr>ros_outbound_messages :=
         (ros_outbound_messages s)(\<lparr>mk_lane_id = ros_lane_id s, mk_nonce = nonce\<rparr> := None)\<rparr>"

definition runtime_outbound_storage_ops :: "runtime_outbound_lane_storage outbound_lane_storage" where
  "runtime_outbound_storage_ops = \<lparr>
     ols_id = ros_lane_id, ols_data = ros_data, ols_set_data = ros_set_data,
     ols_save_message = ros_save_message, ols_remove_message = ros_remove_message\<rparr>"

definition ros_fits :: "runtime_outbound_lane_storage \<Rightarrow> message_payload \<Rightarrow> bool" where
  "ros_fits s p \<longleftrightarrow> length p \<le> unat (ros_maximal_outbound_payload_size s)"

interpretation runtime_outbound: outbound_storage runtime_outbound_storage_ops ros_message ros_fits
  by unfold_locales
    (auto simp: runtime_outbound_storage_ops_def ros_data_def ros_set_data_def ros_message_def ros_fits_def
       ros_save_message_def ros_remove_message_def outbound_lanes_get_def stored_message_payload_try_from_def
       bind_eq_Some_conv fun_eq_iff split: if_splits)

text \<open>The operations of a lane touch neither other lanes nor their messages.\<close>

definition ros_frame :: "runtime_outbound_lane_storage \<Rightarrow> runtime_outbound_lane_storage \<Rightarrow> bool" where
  "ros_frame s s' \<longleftrightarrow>
     ros_lane_id s' = ros_lane_id s \<and>
     (\<forall>lane. lane \<noteq> ros_lane_id s \<longrightarrow> ros_outbound_lanes s' lane = ros_outbound_lanes s lane) \<and>
     (\<forall>key. mk_lane_id key \<noteq> ros_lane_id s \<longrightarrow> ros_outbound_messages s' key = ros_outbound_messages s key)"

lemma ros_frame_refl [simp]: "ros_frame s s"
  by (simp add: ros_frame_def)

lemma ros_frame_trans: "ros_frame s s' \<Longrightarrow> ros_frame s' s'' \<Longrightarrow> ros_frame s s''"
  by (simp add: ros_frame_def)

lemma ros_frame_ops:
  "ros_frame s (ros_set_data d s)" "ros_frame s (ros_remove_message n s)"
  "ros_save_message n p s = Some s' \<Longrightarrow> ros_frame s s'"
  by (auto simp: ros_frame_def ros_set_data_def ros_remove_message_def ros_save_message_def bind_eq_Some_conv)

lemma lane_send_message_frame:
  "lane_send_message runtime_outbound_storage_ops p s = Some (n, s') \<Longrightarrow> ros_frame s s'"
  by (auto simp: lane_send_message_def runtime_outbound_storage_ops_def Let_def bind_eq_Some_conv
      intro: ros_frame_trans ros_frame_ops)

lemma confirm_delivery_frame:
  "confirm_delivery runtime_outbound_storage_ops k n rs s = (res, s') \<Longrightarrow> ros_frame s s'"
  by (auto simp: confirm_delivery_def runtime_outbound_storage_ops_def Let_def
      split: if_splits sum.splits intro: ros_frame_ops)

lemma prune_loop_frame:
  assumes "prune_loop W runtime_outbound_storage_ops ww tww rem spent d s = Some r"
  shows "ros_frame s (snd (snd r))"
proof -
  have "runtime_outbound_storage_ops = runtime_outbound_storage_ops \<longrightarrow> ros_frame s (snd (snd r))"
  proof (rule prune_loop.raw_induct [where
      P = "\<lambda>W S ww tww rem spent d s r. S = runtime_outbound_storage_ops \<longrightarrow> ros_frame s (snd (snd r))", OF _ assms])
    fix f and W :: "'a weight_ops" and S ww tww rem spent d s r
    assume IH: "\<And>W S ww tww rem spent d s y. f W S ww tww rem spent d s = Some y \<Longrightarrow>
        S = runtime_outbound_storage_ops \<longrightarrow> ros_frame s (snd (snd y))"
      and res: "(if w_all_gte W rem tww \<and> oldest_unpruned_nonce d \<le> latest_received_nonce d
        then f W S ww tww (w_sub W rem ww) (w_add W spent ww)
              (d\<lparr>oldest_unpruned_nonce := oldest_unpruned_nonce d + 1\<rparr>)
              (ols_remove_message S (oldest_unpruned_nonce d) s)
        else Some (spent, d, s)) = Some r"
    show "S = runtime_outbound_storage_ops \<longrightarrow> ros_frame s (snd (snd r))"
    proof
      assume S: "S = runtime_outbound_storage_ops"
      have rm: "ros_frame s (ols_remove_message S (oldest_unpruned_nonce d) s)"
        by (simp add: S runtime_outbound_storage_ops_def ros_frame_ops)
      show "ros_frame s (snd (snd r))"
      proof (cases "w_all_gte W rem tww \<and> oldest_unpruned_nonce d \<le> latest_received_nonce d")
        case True
        with res have "f W S ww tww (w_sub W rem ww) (w_add W spent ww)
              (d\<lparr>oldest_unpruned_nonce := oldest_unpruned_nonce d + 1\<rparr>)
              (ols_remove_message S (oldest_unpruned_nonce d) s) = Some r" by simp
        from IH [OF this] S rm show ?thesis by (blast intro: ros_frame_trans)
      next
        case False
        with res have "r = (spent, d, s)" by auto
        then show ?thesis by simp
      qed
    qed
  qed
  then show ?thesis by simp
qed

lemma prune_messages_frame:
  "prune_messages W runtime_outbound_storage_ops db rem s = Some (w, s') \<Longrightarrow> ros_frame s s'"
  by (auto simp: prune_messages_def Let_def bind_eq_Some_conv runtime_outbound_storage_ops_def
      split: if_splits dest!: prune_loop_frame [unfolded runtime_outbound_storage_ops_def]
      intro: ros_frame_trans ros_frame_ops)

end
