(* ===== verification/Messages_Weights.thy ===== *)
theory Messages_Weights
  imports Messages_Primitives
begin

text \<open>
  The weight formulas of the messages pallet (\<open>modules/messages/src/weights_ext.rs\<close>). The benchmark
  results (\<open>WeightInfo\<close>, generated code in \<open>weights.rs\<close>) are parameters; the derived formulas and the
  sanity checks of the configuration are definitions. The checks of the source are assertions on
  sample inputs; the lemmas show for which inputs they speak.
\<close>

record 'w messages_weight_info =
  receive_single_message_proof :: 'w
  receive_two_messages_proof :: 'w
  receive_single_message_proof_with_outbound_lane_state :: 'w
  receive_single_message_proof_1_kb :: 'w
  receive_single_message_proof_16_kb :: 'w
  receive_delivery_proof_for_single_message :: 'w
  receive_delivery_proof_for_two_messages_by_single_relayer :: 'w
  receive_delivery_proof_for_two_messages_by_two_relayers :: 'w
  expected_extra_storage_proof_size :: u32

definition EXPECTED_DEFAULT_MESSAGE_LENGTH :: u32 where
  "EXPECTED_DEFAULT_MESSAGE_LENGTH = 128"

definition SIGNED_EXTENSIONS_SIZE :: u32 where
  "SIGNED_EXTENSIONS_SIZE = 1024"

definition EXTRA_STORAGE_PROOF_SIZE :: u32 where
  "EXTRA_STORAGE_PROOF_SIZE = 1024"

definition receive_messages_proof_overhead :: "'w weight_ops \<Rightarrow> 'w messages_weight_info \<Rightarrow> 'w" where
  "receive_messages_proof_overhead W I =
     w_saturating_sub W (w_saturating_mul W (receive_single_message_proof I) 2) (receive_two_messages_proof I)"

definition receive_messages_proof_messages_overhead ::
  "'w weight_ops \<Rightarrow> 'w messages_weight_info \<Rightarrow> message_nonce \<Rightarrow> 'w" where
  "receive_messages_proof_messages_overhead W I messages =
     w_saturating_mul W
       (w_saturating_sub W (receive_two_messages_proof I) (receive_single_message_proof I)) messages"

definition receive_messages_proof_outbound_lane_state_overhead ::
  "'w weight_ops \<Rightarrow> 'w messages_weight_info \<Rightarrow> 'w" where
  "receive_messages_proof_outbound_lane_state_overhead W I =
     w_saturating_sub W (receive_single_message_proof_with_outbound_lane_state I) (receive_single_message_proof I)"

definition receive_messages_delivery_proof_overhead :: "'w weight_ops \<Rightarrow> 'w messages_weight_info \<Rightarrow> 'w" where
  "receive_messages_delivery_proof_overhead W I =
     w_saturating_sub W (w_saturating_mul W (receive_delivery_proof_for_single_message I) 2)
       (receive_delivery_proof_for_two_messages_by_single_relayer I)"

definition receive_messages_delivery_proof_messages_overhead ::
  "'w weight_ops \<Rightarrow> 'w messages_weight_info \<Rightarrow> message_nonce \<Rightarrow> 'w" where
  "receive_messages_delivery_proof_messages_overhead W I messages =
     w_saturating_mul W
       (w_saturating_sub W (receive_delivery_proof_for_two_messages_by_single_relayer I)
          (receive_delivery_proof_for_single_message I)) messages"

definition receive_messages_delivery_proof_relayers_overhead ::
  "'w weight_ops \<Rightarrow> 'w messages_weight_info \<Rightarrow> message_nonce \<Rightarrow> 'w" where
  "receive_messages_delivery_proof_relayers_overhead W I rs =
     w_saturating_mul W
       (w_saturating_sub W (receive_delivery_proof_for_two_messages_by_two_relayers I)
          (receive_delivery_proof_for_two_messages_by_single_relayer I)) rs"

definition storage_proof_size_overhead :: "'w weight_ops \<Rightarrow> 'w messages_weight_info \<Rightarrow> u32 \<Rightarrow> 'w" where
  "storage_proof_size_overhead W I proof_size =
     (let byte_weight =
            w_div W (w_sub W (receive_single_message_proof_16_kb I) (receive_single_message_proof_1_kb I)) (15 * 1024)
      in w_mul W byte_weight (ucast proof_size))"

definition receive_messages_proof_weight ::
  "'w weight_ops \<Rightarrow> 'w messages_weight_info \<Rightarrow> u32 \<Rightarrow> u32 \<Rightarrow> 'w \<Rightarrow> 'w" where
  "receive_messages_proof_weight W I proof_size messages_count dispatch_weight =
     (let transaction_overhead = receive_messages_proof_overhead W I;
          outbound_state_delivery_weight = receive_messages_proof_outbound_lane_state_overhead W I;
          messages_delivery_weight = receive_messages_proof_messages_overhead W I (ucast messages_count);
          messages_dispatch_weight = dispatch_weight;
          expected_proof_size =
            saturating_add (saturating_mul EXPECTED_DEFAULT_MESSAGE_LENGTH (saturating_sub messages_count 1))
              (expected_extra_storage_proof_size I);
          actual_proof_size = proof_size;
          proof_size_overhead =
            storage_proof_size_overhead W I (saturating_sub actual_proof_size expected_proof_size)
      in w_saturating_add W (w_saturating_add W (w_saturating_add W (w_saturating_add W
           transaction_overhead outbound_state_delivery_weight) messages_delivery_weight)
           messages_dispatch_weight) proof_size_overhead)"

definition receive_messages_delivery_proof_weight ::
  "'w weight_ops \<Rightarrow> 'w messages_weight_info \<Rightarrow> u32 \<Rightarrow> unrewarded_relayers_state \<Rightarrow> 'w" where
  "receive_messages_delivery_proof_weight W I proof_size relayers_state =
     (let transaction_overhead = receive_messages_delivery_proof_overhead W I;
          messages_overhead =
            receive_messages_delivery_proof_messages_overhead W I (total_messages_in_state relayers_state);
          relayers_overhead =
            receive_messages_delivery_proof_relayers_overhead W I (unrewarded_relayer_entries relayers_state);
          expected_proof_size = expected_extra_storage_proof_size I;
          actual_proof_size = proof_size;
          proof_size_overhead =
            storage_proof_size_overhead W I (saturating_sub actual_proof_size expected_proof_size)
      in w_saturating_add W (w_saturating_add W (w_saturating_add W
           transaction_overhead messages_overhead) relayers_overhead) proof_size_overhead)"

section \<open>The checks of a configuration\<close>

text \<open>The functions panic when an assertion fails; here they return whether all assertions hold.\<close>

definition ensure_weight_components_are_not_zero :: "'w weight_ops \<Rightarrow> 'w \<Rightarrow> bool" where
  "ensure_weight_components_are_not_zero W weight \<longleftrightarrow> w_ref_time W weight \<noteq> 0 \<and> w_proof_size W weight \<noteq> 0"

definition ensure_proof_size_is_the_same :: "'w weight_ops \<Rightarrow> 'w \<Rightarrow> 'w \<Rightarrow> bool" where
  "ensure_proof_size_is_the_same W weight1 weight2 \<longleftrightarrow> w_proof_size W weight1 = w_proof_size W weight2"

definition messages_proof_size_does_not_affect_proof_size :: "'w weight_ops \<Rightarrow> 'w messages_weight_info \<Rightarrow> bool" where
  "messages_proof_size_does_not_affect_proof_size W I \<longleftrightarrow>
     (let dispatch_weight = w_zero W;
          weight_8k = receive_messages_proof_weight W I (pre_computed_size (8 * 1024)) 1 dispatch_weight;
          weight_16k = receive_messages_proof_weight W I (pre_computed_size (16 * 1024)) 1 dispatch_weight
      in ensure_weight_components_are_not_zero W weight_8k \<and>
         ensure_weight_components_are_not_zero W weight_16k \<and>
         ensure_proof_size_is_the_same W weight_8k weight_16k)"

definition messages_count_does_not_affect_proof_size :: "'w weight_ops \<Rightarrow> 'w messages_weight_info \<Rightarrow> bool" where
  "messages_count_does_not_affect_proof_size W I \<longleftrightarrow>
     (let messages_proof_size = pre_computed_size (8 * 1024);
          dispatch_weight = w_zero W;
          weight_one = receive_messages_proof_weight W I messages_proof_size 1 dispatch_weight;
          weight_two = receive_messages_proof_weight W I messages_proof_size 2 dispatch_weight
      in ensure_weight_components_are_not_zero W weight_one \<and>
         ensure_weight_components_are_not_zero W weight_two \<and>
         ensure_proof_size_is_the_same W weight_one weight_two)"

definition messages_delivery_proof_size_does_not_affect_proof_size ::
  "'w weight_ops \<Rightarrow> 'w messages_weight_info \<Rightarrow> bool" where
  "messages_delivery_proof_size_does_not_affect_proof_size W I \<longleftrightarrow>
     (let relayers_state = \<lparr>unrewarded_relayer_entries = 1, messages_in_oldest_entry = 1,
                            total_messages_in_state = 1, last_delivered_nonce_in_state = 1\<rparr>;
          weight_8k = receive_messages_delivery_proof_weight W I (pre_computed_size (8 * 1024)) relayers_state;
          weight_16k = receive_messages_delivery_proof_weight W I (pre_computed_size (16 * 1024)) relayers_state
      in ensure_weight_components_are_not_zero W weight_8k \<and>
         ensure_weight_components_are_not_zero W weight_16k \<and>
         ensure_proof_size_is_the_same W weight_8k weight_16k)"

definition total_messages_in_delivery_proof_does_not_affect_proof_size ::
  "'w weight_ops \<Rightarrow> 'w messages_weight_info \<Rightarrow> bool" where
  "total_messages_in_delivery_proof_does_not_affect_proof_size W I \<longleftrightarrow>
     (let proof_size = pre_computed_size (8 * 1024);
          weight_1k = receive_messages_delivery_proof_weight W I proof_size
            \<lparr>unrewarded_relayer_entries = 1, messages_in_oldest_entry = 1,
             total_messages_in_state = 1024, last_delivered_nonce_in_state = 1\<rparr>;
          weight_2k = receive_messages_delivery_proof_weight W I proof_size
            \<lparr>unrewarded_relayer_entries = 1, messages_in_oldest_entry = 1,
             total_messages_in_state = 2048, last_delivered_nonce_in_state = 1\<rparr>
      in ensure_weight_components_are_not_zero W weight_1k \<and>
         ensure_weight_components_are_not_zero W weight_2k \<and>
         ensure_proof_size_is_the_same W weight_1k weight_2k)"

definition default_unrewarded_relayers_state :: unrewarded_relayers_state where
  "default_unrewarded_relayers_state =
     \<lparr>unrewarded_relayer_entries = 0, messages_in_oldest_entry = 0,
      total_messages_in_state = 0, last_delivered_nonce_in_state = 0\<rparr>"

definition ensure_weights_are_correct :: "'w weight_ops \<Rightarrow> 'w messages_weight_info \<Rightarrow> bool" where
  "ensure_weights_are_correct W I \<longleftrightarrow>
     w_ref_time W (receive_messages_proof_overhead W I) \<noteq> 0 \<and>
     w_proof_size W (receive_messages_proof_overhead W I) \<noteq> 0 \<and>
     w_proof_size W (receive_messages_proof_messages_overhead W I 1) = 0 \<and>
     w_proof_size W (receive_messages_proof_outbound_lane_state_overhead W I) = 0 \<and>
     w_ref_time W (storage_proof_size_overhead W I 1) \<noteq> 0 \<and>
     w_proof_size W (storage_proof_size_overhead W I 1) = 0 \<and>
     w_ref_time W (receive_messages_delivery_proof_overhead W I) \<noteq> 0 \<and>
     w_proof_size W (receive_messages_delivery_proof_overhead W I) \<noteq> 0 \<and>
     w_proof_size W (receive_messages_delivery_proof_messages_overhead W I 1) = 0 \<and>
     w_ref_time W (receive_messages_delivery_proof_relayers_overhead W I 1) \<noteq> 0 \<and>
     w_ref_time W (storage_proof_size_overhead W I 1) \<noteq> 0 \<and>
     w_proof_size W (storage_proof_size_overhead W I 1) = 0 \<and>
     (let weight = receive_messages_proof_weight W I (pre_computed_size 1) 10 (w_zero W)
      in w_ref_time W weight \<noteq> 0 \<and> w_proof_size W weight \<noteq> 0) \<and>
     messages_proof_size_does_not_affect_proof_size W I \<and>
     messages_count_does_not_affect_proof_size W I \<and>
     (let weight = receive_messages_delivery_proof_weight W I (pre_computed_size 1) default_unrewarded_relayers_state
      in w_ref_time W weight \<noteq> 0 \<and> w_proof_size W weight \<noteq> 0) \<and>
     messages_delivery_proof_size_does_not_affect_proof_size W I \<and>
     total_messages_in_delivery_proof_does_not_affect_proof_size W I"

definition ensure_able_to_receive_message ::
  "'w weight_ops \<Rightarrow> 'w messages_weight_info \<Rightarrow> u32 \<Rightarrow> 'w \<Rightarrow> u32 \<Rightarrow> 'w \<Rightarrow> bool" where
  "ensure_able_to_receive_message W I max_extrinsic_size max_extrinsic_weight
     max_incoming_message_proof_size max_incoming_message_dispatch_weight \<longleftrightarrow>
     (let max_delivery_transaction_size = saturating_add max_incoming_message_proof_size SIGNED_EXTENSIONS_SIZE
      in max_delivery_transaction_size \<le> max_extrinsic_size) \<and>
     (let max_delivery_transaction_dispatch_weight =
            receive_messages_proof_weight W I
              (pre_computed_size (unat (max_incoming_message_proof_size + expected_extra_storage_proof_size I)))
              1 max_incoming_message_dispatch_weight
      in w_all_lte W max_delivery_transaction_dispatch_weight max_extrinsic_weight)"

definition ensure_able_to_receive_confirmation ::
  "'w weight_ops \<Rightarrow> 'w messages_weight_info \<Rightarrow> u32 \<Rightarrow> 'w \<Rightarrow> u32 \<Rightarrow> message_nonce \<Rightarrow> message_nonce \<Rightarrow> bool" where
  "ensure_able_to_receive_confirmation W I max_extrinsic_size max_extrinsic_weight
     max_inbound_lane_data_proof_size_from_peer_chain max_unrewarded_relayer_entries_at_peer_inbound_lane
     max_unconfirmed_messages_at_inbound_lane \<longleftrightarrow>
     (let max_confirmation_transaction_size =
            saturating_add max_inbound_lane_data_proof_size_from_peer_chain SIGNED_EXTENSIONS_SIZE
      in max_confirmation_transaction_size \<le> max_extrinsic_size) \<and>
     (let max_confirmation_transaction_dispatch_weight =
            receive_messages_delivery_proof_weight W I
              (pre_computed_size (unat max_inbound_lane_data_proof_size_from_peer_chain))
              (default_unrewarded_relayers_state
                 \<lparr>unrewarded_relayer_entries := max_unrewarded_relayer_entries_at_peer_inbound_lane,
                  total_messages_in_state := max_unconfirmed_messages_at_inbound_lane\<rparr>)
      in w_all_lte W max_confirmation_transaction_dispatch_weight max_extrinsic_weight)"

section \<open>What the formulas guarantee\<close>

lemma weight_le_saturating_add:
  "weight_laws W \<Longrightarrow> weight_le W a (w_saturating_add W a b)"
  "weight_laws W \<Longrightarrow> weight_le W b (w_saturating_add W a b)"
  by (simp_all add: weight_le_def weight_simps)

text \<open>The declared weight of a delivery transaction covers the dispatch weight of its messages.\<close>

lemma dispatch_weight_covered:
  assumes "weight_laws W"
  shows "weight_le W dispatch_weight (receive_messages_proof_weight W I proof_size count dispatch_weight)"
  unfolding receive_messages_proof_weight_def Let_def
  by (meson assms weight_le_saturating_add weight_le_trans)

lemma weight_div_parts:
  assumes "weight_laws W" and "n \<noteq> 0"
  shows "w_div W a n = w_from_parts W (w_ref_time W a div n) (w_proof_size W a div n)"
  using assms by (simp add: weight_laws_def)

text \<open>
  The assertions on sample inputs are enough: with a configuration that passes
  \<open>ensure_weights_are_correct\<close>, the proof size of a delivery transaction depends neither on the
  number of messages nor on the size of the proof.
\<close>

lemma receive_messages_proof_weight_proof_size:
  assumes W: "weight_laws W" and ok: "ensure_weights_are_correct W I"
  shows "w_proof_size W (receive_messages_proof_weight W I proof_size count dispatch_weight) =
    saturating_add (w_proof_size W (receive_messages_proof_overhead W I)) (w_proof_size W dispatch_weight)"
proof -
  have m: "w_proof_size W (receive_messages_proof_messages_overhead W I n) = 0" for n
    using ok W by (simp add: ensure_weights_are_correct_def receive_messages_proof_messages_overhead_def weight_simps)
  have s: "w_proof_size W (storage_proof_size_overhead W I n) = 0" for n
    using ok W
    by (simp add: ensure_weights_are_correct_def storage_proof_size_overhead_def weight_simps weight_div_parts Let_def)
  have o: "w_proof_size W (receive_messages_proof_outbound_lane_state_overhead W I) = 0"
    using ok by (simp add: ensure_weights_are_correct_def)
  show ?thesis
    using W m s o unfolding receive_messages_proof_weight_def Let_def by (simp add: weight_simps)
qed

lemma receive_messages_delivery_proof_weight_proof_size:
  assumes W: "weight_laws W" and ok: "ensure_weights_are_correct W I"
  shows "w_proof_size W (receive_messages_delivery_proof_weight W I proof_size st) =
    saturating_add (w_proof_size W (receive_messages_delivery_proof_overhead W I))
      (w_proof_size W (receive_messages_delivery_proof_relayers_overhead W I (unrewarded_relayer_entries st)))"
proof -
  have m: "w_proof_size W (receive_messages_delivery_proof_messages_overhead W I n) = 0" for n
    using ok W
    by (simp add: ensure_weights_are_correct_def receive_messages_delivery_proof_messages_overhead_def weight_simps)
  have s: "w_proof_size W (storage_proof_size_overhead W I n) = 0" for n
    using ok W
    by (simp add: ensure_weights_are_correct_def storage_proof_size_overhead_def weight_simps weight_div_parts Let_def)
  show ?thesis
    using W m s unfolding receive_messages_delivery_proof_weight_def Let_def by (simp add: weight_simps)
qed

end
