(* ===== verification/Messages_Pallet.thy ===== *)
theory Messages_Pallet
  imports Inbound_Lane Outbound_Lane Messages_Weights
begin

text \<open>
  The messages pallet (\<open>modules/messages/src/lib.rs\<close>): its storage, its calls, the \<open>on_idle\<close> hook
  and \<open>send_message\<close>, built on the inbound and outbound lanes.

  The pallet's \<open>Config\<close> is a record: the constants of the runtime and the code that the runtime
  plugs in (proof verification, dispatch, payments, encoding). That code may read and change the
  rest of the chain state, which is the world \<open>'x\<close> that is passed through the calls; the storage of
  the pallet is not part of that world. A call that fails leaves no trace: FRAME rolls its changes
  back, so a call returns either an error or the new state.
\<close>

type_synonym usize = "32 word"

section \<open>Configuration, storage, events and errors\<close>

record ('o, 'acc, 'r, 'proof, 'dproof, 'op, 'p, 'd, 'w, 'x) messages_config =
  "('o, 'acc) origin_config" +
  mc_weight_ops :: "'w weight_ops"
  mc_db_weight :: "'w db_weight"
  mc_weight_info :: "'w messages_weight_info"
  mc_active_outbound_lanes :: "lane_id list"
  mc_max_unrewarded_relayer_entries_at_inbound_lane :: message_nonce
  mc_max_unconfirmed_messages_at_inbound_lane :: message_nonce
  mc_maximal_outbound_payload_size :: u32
  mc_nonce_max_encoded_len :: usize
  mc_relayer_max_encoded_len :: usize
  mc_messages_proof_size :: "'proof \<Rightarrow> u32"
  mc_encode_outbound_payload :: "'op \<Rightarrow> message_payload"
  mc_decode_inbound_payload :: "message_payload \<Rightarrow> 'p"
  mc_verify_message :: "'op \<Rightarrow> 'x \<Rightarrow> string + unit"
  mc_verify_messages_delivery_proof :: "'dproof \<Rightarrow> 'x \<Rightarrow> string + (lane_id \<times> 'acc inbound_lane_data)"
  mc_lane_verify_message :: "'o \<Rightarrow> lane_id \<Rightarrow> outbound_lane_data \<Rightarrow> 'op \<Rightarrow> 'x \<Rightarrow> string + unit"
  mc_verify_messages_proof :: "'proof \<Rightarrow> u32 \<Rightarrow> 'x \<Rightarrow> string + message proved_messages"
  mc_dispatch_weight :: "'p dispatch_message \<Rightarrow> 'w \<times> 'p dispatch_message"
  mc_dispatch :: "'acc \<Rightarrow> 'p dispatch_message \<Rightarrow> 'x \<Rightarrow> ('d, 'w) message_dispatch_result \<times> 'x"
  mc_pay_delivery_reward :: "'acc \<Rightarrow> message_nonce \<Rightarrow> message_nonce \<Rightarrow> 'w \<Rightarrow> 'x \<Rightarrow> 'x"
  mc_pay_confirmation_reward ::
    "lane_id \<Rightarrow> 'acc unrewarded_relayer list \<Rightarrow> 'acc \<Rightarrow> message_nonce \<times> message_nonce \<Rightarrow> 'x \<Rightarrow> 'x"

datatype ('d, 'w) messages_event =
    MessageAccepted lane_id message_nonce
  | MessagesReceived "('d, 'w) received_messages list"
  | MessagesDelivered lane_id delivered_messages

datatype messages_error =
    NotOperatingNormally
  | InactiveOutboundLane
  | MessageIsTooLarge
  | MessageRejectedByChainVerifier
  | MessageRejectedByLaneVerifier
  | FailedToWithdrawMessageFee
  | TooManyMessagesInTheProof
  | InvalidMessagesProof
  | InvalidMessagesDeliveryProof
  | InvalidUnrewardedRelayers
  | InvalidUnrewardedRelayersState
  | MessageIsAlreadyDelivered
  | MessageIsNotYetSent
  | TryingToConfirmMoreMessagesThanExpectedError
  | MessagesBridgeModule owned_bridge_module_error

record ('acc, 'r, 'd, 'w) messages_state =
  ms_owner :: "'acc option"
  ms_operating_mode :: messages_operating_mode
  ms_inbound_lanes :: "lane_id \<rightharpoonup> 'r inbound_lane_data"
  ms_outbound_lanes :: "lane_id \<rightharpoonup> outbound_lane_data"
  ms_outbound_messages :: "message_key \<rightharpoonup> message_payload"
  ms_events :: "('d, 'w) messages_event list"

definition messages_deposit_event ::
  "('d, 'w) messages_event \<Rightarrow> ('acc, 'r, 'd, 'w) messages_state \<Rightarrow> ('acc, 'r, 'd, 'w) messages_state" where
  "messages_deposit_event e ms = ms\<lparr>ms_events := ms_events ms @ [e]\<rparr>"

definition messages_genesis_build ::
  "messages_operating_mode \<Rightarrow> 'acc option \<Rightarrow> ('acc, 'r, 'd, 'w) messages_state \<Rightarrow> ('acc, 'r, 'd, 'w) messages_state" where
  "messages_genesis_build operating_mode owner ms =
     (let ms = ms\<lparr>ms_operating_mode := operating_mode\<rparr>
      in case owner of Some owner \<Rightarrow> ms\<lparr>ms_owner := Some owner\<rparr> | None \<Rightarrow> ms)"

definition empty_messages_state :: "('acc, 'r, 'd, 'w) messages_state" where
  "empty_messages_state = \<lparr>ms_owner = None, ms_operating_mode = Basic Normal, ms_inbound_lanes = Map.empty,
     ms_outbound_lanes = Map.empty, ms_outbound_messages = Map.empty, ms_events = []\<rparr>"

section \<open>Owner and operating mode\<close>

definition messages_owned :: "(('acc, 'r, 'd, 'w) messages_state, 'acc, messages_operating_mode) owned_storage" where
  "messages_owned = \<lparr>
     om_owner = ms_owner, om_put_owner = (\<lambda>x ms. ms\<lparr>ms_owner := x\<rparr>),
     om_mode = ms_operating_mode, om_put_mode = (\<lambda>m ms. ms\<lparr>ms_operating_mode := m\<rparr>),
     om_mode_halted = messages_is_halted\<rparr>"

lemma messages_owned_simps [simp]:
  "om_owner messages_owned = ms_owner" "om_put_owner messages_owned = (\<lambda>x ms. ms\<lparr>ms_owner := x\<rparr>)"
  "om_mode messages_owned = ms_operating_mode" "om_put_mode messages_owned = (\<lambda>m ms. ms\<lparr>ms_operating_mode := m\<rparr>)"
  "om_mode_halted messages_owned = messages_is_halted"
  by (simp_all add: messages_owned_def)

interpretation messages_module: owned_bridge_module messages_owned
  by unfold_locales simp_all

definition messages_set_owner ::
  "('o, 'acc, 'z) origin_config_scheme \<Rightarrow> 'o \<Rightarrow> 'acc option \<Rightarrow> ('acc, 'r, 'd, 'w) messages_state \<Rightarrow>
     messages_error dispatch_error + ('acc, 'r, 'd, 'w) messages_state" where
  "messages_set_owner C origin new_owner ms = set_owner C messages_owned origin new_owner ms"

definition messages_set_operating_mode ::
  "('o, 'acc, 'z) origin_config_scheme \<Rightarrow> 'o \<Rightarrow> messages_operating_mode \<Rightarrow> ('acc, 'r, 'd, 'w) messages_state \<Rightarrow>
     messages_error dispatch_error + ('acc, 'r, 'd, 'w) messages_state" where
  "messages_set_operating_mode C origin operating_mode ms =
     set_operating_mode C messages_owned origin operating_mode ms"

definition ensure_normal_operating_mode :: "('acc, 'r, 'd, 'w) messages_state \<Rightarrow> messages_error + unit" where
  "ensure_normal_operating_mode ms =
     (if ms_operating_mode ms = Basic Normal then Inr () else Inl NotOperatingNormally)"

section \<open>Lanes backed by the storage of the pallet\<close>

definition inbound_lane ::
  "('o, 'acc, 'r, 'proof, 'dproof, 'op, 'p, 'd, 'w, 'x) messages_config \<Rightarrow> lane_id \<Rightarrow>
     ('acc, 'r, 'd, 'w) messages_state \<Rightarrow> 'r runtime_inbound_lane_storage" where
  "inbound_lane C lane_id ms = \<lparr>
     ris_lane_id = lane_id,
     ris_cached_data = None,
     ris_max_unrewarded_relayer_entries = mc_max_unrewarded_relayer_entries_at_inbound_lane C,
     ris_max_unconfirmed_messages = mc_max_unconfirmed_messages_at_inbound_lane C,
     ris_inbound_lanes = ms_inbound_lanes ms\<rparr>"

definition store_inbound_lane ::
  "'r runtime_inbound_lane_storage \<Rightarrow> ('acc, 'r, 'd, 'w) messages_state \<Rightarrow> ('acc, 'r, 'd, 'w) messages_state" where
  "store_inbound_lane s ms = ms\<lparr>ms_inbound_lanes := ris_inbound_lanes s\<rparr>"

definition outbound_lane ::
  "('o, 'acc, 'r, 'proof, 'dproof, 'op, 'p, 'd, 'w, 'x) messages_config \<Rightarrow> lane_id \<Rightarrow>
     ('acc, 'r, 'd, 'w) messages_state \<Rightarrow> runtime_outbound_lane_storage" where
  "outbound_lane C lane_id ms = \<lparr>
     ros_lane_id = lane_id,
     ros_maximal_outbound_payload_size = mc_maximal_outbound_payload_size C,
     ros_outbound_lanes = ms_outbound_lanes ms,
     ros_outbound_messages = ms_outbound_messages ms\<rparr>"

definition store_outbound_lane ::
  "runtime_outbound_lane_storage \<Rightarrow> ('acc, 'r, 'd, 'w) messages_state \<Rightarrow> ('acc, 'r, 'd, 'w) messages_state" where
  "store_outbound_lane s ms =
     ms\<lparr>ms_outbound_lanes := ros_outbound_lanes s, ms_outbound_messages := ros_outbound_messages s\<rparr>"

text \<open>\<open>StoredInboundLaneData::max_encoded_len\<close>; \<open>as usize\<close> truncates the configured limit.\<close>

definition stored_inbound_lane_data_max_encoded_len ::
  "('o, 'acc, 'r, 'proof, 'dproof, 'op, 'p, 'd, 'w, 'x) messages_config \<Rightarrow> usize" where
  "stored_inbound_lane_data_max_encoded_len C =
     (case encoded_size_hint (mc_nonce_max_encoded_len C) (mc_relayer_max_encoded_len C)
             (ucast (mc_max_unrewarded_relayer_entries_at_inbound_lane C)) of
        None \<Rightarrow> - 1 | Some n \<Rightarrow> n)"

definition extra_proof_size_bytes ::
  "('o, 'acc, 'r, 'proof, 'dproof, 'op, 'p, 'd, 'w, 'x) messages_config \<Rightarrow>
     'r runtime_inbound_lane_storage \<Rightarrow> u64 \<times> 'r runtime_inbound_lane_storage" where
  "extra_proof_size_bytes C s =
     (let max_encoded_len = stored_inbound_lane_data_max_encoded_len C;
          (data, s) = ris_data s;
          relayers_count = of_nat (length (relayers data));
          actual_encoded_len =
            (case encoded_size_hint (mc_nonce_max_encoded_len C) (mc_relayer_max_encoded_len C) relayers_count of
               None \<Rightarrow> - 1 | Some n \<Rightarrow> n)
      in (ucast (saturating_sub max_encoded_len actual_encoded_len), s))"

section \<open>Sending a message\<close>

text \<open>The outer option is the panic of \<open>save_message\<close>.\<close>

definition send_message ::
  "('o, 'acc, 'r, 'proof, 'dproof, 'op, 'p, 'd, 'w, 'x) messages_config \<Rightarrow> 'o \<Rightarrow> lane_id \<Rightarrow> 'op \<Rightarrow> 'x \<Rightarrow>
     ('acc, 'r, 'd, 'w) messages_state \<Rightarrow>
     (messages_error + ('w send_message_artifacts \<times> ('acc, 'r, 'd, 'w) messages_state)) option" where
  "send_message C submitter lane_id payload x ms =
     (case ensure_normal_operating_mode ms of
        Inl e \<Rightarrow> Some (Inl e)
      | Inr _ \<Rightarrow>
     if lane_id \<notin> set (mc_active_outbound_lanes C) then Some (Inl InactiveOutboundLane)
     else case mc_verify_message C payload x of
        Inl _ \<Rightarrow> Some (Inl MessageRejectedByChainVerifier)
      | Inr _ \<Rightarrow>
     let lane = outbound_lane C lane_id ms in
     case mc_lane_verify_message C submitter lane_id (ros_data lane) payload x of
        Inl _ \<Rightarrow> Some (Inl MessageRejectedByLaneVerifier)
      | Inr _ \<Rightarrow>
     let encoded_payload = mc_encode_outbound_payload C payload in
     if \<not> length encoded_payload \<le> unat (mc_maximal_outbound_payload_size C) then Some (Inl MessageIsTooLarge)
     else do {
       (nonce, lane) \<leftarrow> lane_send_message runtime_outbound_storage_ops encoded_payload lane;
       let ms = messages_deposit_event (MessageAccepted lane_id nonce) (store_outbound_lane lane ms);
       Some (Inr (\<lparr>sma_nonce = nonce, sma_weight = db_reads_writes (mc_db_weight C) 2 2\<rparr>, ms))
     })"

section \<open>Receiving messages\<close>

definition verify_and_decode_messages_proof ::
  "('o, 'acc, 'r, 'proof, 'dproof, 'op, 'p, 'd, 'w, 'x) messages_config \<Rightarrow> 'proof \<Rightarrow> u32 \<Rightarrow> 'x \<Rightarrow>
     string + 'p dispatch_message proved_messages" where
  "verify_and_decode_messages_proof C proof messages_count x =
     (case mc_verify_messages_proof C proof messages_count x of
        Inl e \<Rightarrow> Inl e
      | Inr messages_by_lane \<Rightarrow>
          Inr (map (\<lambda>(lane, lane_data).
                 (lane, \<lparr>pm_lane_state = pm_lane_state lane_data,
                         pm_messages = map (dispatch_message_from (mc_decode_inbound_payload C)) (pm_messages lane_data)\<rparr>))
               messages_by_lane))"

text \<open>The local variables of \<open>receive_messages_proof\<close> that its loops change.\<close>

record ('r, 'd, 'w, 'x) receive_vars =
  rv_lane :: "'r runtime_inbound_lane_storage"
  rv_status :: "('d, 'w) received_messages"
  rv_stopped :: bool
  rv_total :: message_nonce
  rv_valid :: message_nonce
  rv_dispatch_weight_left :: 'w
  rv_actual_weight :: 'w
  rv_world :: 'x

text \<open>The body of the inner loop.\<close>

definition receive_one_message ::
  "('o, 'acc, 'r, 'proof, 'dproof, 'op, 'p, 'd, 'w, 'x) messages_config \<Rightarrow> 'r \<Rightarrow> 'acc \<Rightarrow>
     'p dispatch_message \<Rightarrow> ('r, 'd, 'w, 'x) receive_vars \<Rightarrow> ('r, 'd, 'w, 'x) receive_vars" where
  "receive_one_message C relayer_id_at_bridged_chain relayer_id_at_this_chain message v =
     (let W = mc_weight_ops C;
          v = v\<lparr>rv_total := rv_total v + 1\<rparr>
      in if rv_stopped v
         then v\<lparr>rv_status := push_skipped_for_not_enough_weight (rv_status v) (mk_nonce (dmsg_key message))\<rparr>
         else
           let (message_dispatch_weight, message) = mc_dispatch_weight C message
           in if w_any_gt W message_dispatch_weight (rv_dispatch_weight_left v)
              then v\<lparr>rv_status := push_skipped_for_not_enough_weight (rv_status v) (mk_nonce (dmsg_key message)),
                     rv_stopped := True\<rparr>
              else
                let (receival_result, lane, x) =
                      receive_message runtime_inbound_storage_ops (mc_dispatch C)
                        relayer_id_at_bridged_chain relayer_id_at_this_chain
                        (mk_nonce (dmsg_key message)) (dmsg_data message) (rv_lane v) (rv_world v);
                    (unspent_weight, valid_messages) =
                      (case receival_result of
                         Dispatched dispatch_result \<Rightarrow> (unspent_weight dispatch_result, rv_valid v + 1)
                       | InvalidNonce \<Rightarrow> (message_dispatch_weight, rv_valid v)
                       | TooManyUnrewardedRelayers \<Rightarrow> (message_dispatch_weight, rv_valid v)
                       | TooManyUnconfirmedMessages \<Rightarrow> (message_dispatch_weight, rv_valid v));
                    status = received_messages_push (rv_status v) (mk_nonce (dmsg_key message)) receival_result;
                    unspent_weight = w_min W unspent_weight message_dispatch_weight
                in v\<lparr>rv_lane := lane, rv_world := x, rv_valid := valid_messages, rv_status := status,
                     rv_dispatch_weight_left :=
                       w_sub W (rv_dispatch_weight_left v) (w_sub W message_dispatch_weight unspent_weight),
                     rv_actual_weight := w_saturating_sub W (rv_actual_weight v) unspent_weight\<rparr>)"

text \<open>The variables of the outer loop: what is carried from lane to lane.\<close>

record ('acc, 'r, 'd, 'w, 'x) receive_lanes_vars =
  rl_state :: "('acc, 'r, 'd, 'w) messages_state"
  rl_statuses :: "('d, 'w) received_messages list"
  rl_total :: message_nonce
  rl_valid :: message_nonce
  rl_dispatch_weight_left :: 'w
  rl_actual_weight :: 'w
  rl_world :: 'x

definition receive_lane_messages ::
  "('o, 'acc, 'r, 'proof, 'dproof, 'op, 'p, 'd, 'w, 'x) messages_config \<Rightarrow> 'r \<Rightarrow> 'acc \<Rightarrow>
     lane_id \<times> 'p dispatch_message proved_lane_messages \<Rightarrow>
     ('acc, 'r, 'd, 'w, 'x) receive_lanes_vars \<Rightarrow> ('acc, 'r, 'd, 'w, 'x) receive_lanes_vars" where
  "receive_lane_messages C relayer_id_at_bridged_chain relayer_id_at_this_chain lane_and_data l =
     (let (lane_id, lane_data) = lane_and_data;
          W = mc_weight_ops C;
          lane = inbound_lane C lane_id (rl_state l);
          (lane_extra_proof_size_bytes, lane) = extra_proof_size_bytes C lane;
          actual_weight = w_set_proof_size W (rl_actual_weight l)
            (saturating_sub (w_proof_size W (rl_actual_weight l)) lane_extra_proof_size_bytes);
          lane = (case pm_lane_state lane_data of
                    Some lane_state \<Rightarrow> snd (receive_state_update runtime_inbound_storage_ops lane_state lane)
                  | None \<Rightarrow> lane);
          v = fold (receive_one_message C relayer_id_at_bridged_chain relayer_id_at_this_chain) (pm_messages lane_data)
                \<lparr>rv_lane = lane, rv_status = received_messages_new lane_id [], rv_stopped = False,
                 rv_total = rl_total l, rv_valid = rl_valid l,
                 rv_dispatch_weight_left = rl_dispatch_weight_left l, rv_actual_weight = actual_weight,
                 rv_world = rl_world l\<rparr>
      in \<lparr>rl_state = store_inbound_lane (rv_lane v) (rl_state l),
          rl_statuses = rl_statuses l @ [rv_status v],
          rl_total = rv_total v, rl_valid = rv_valid v,
          rl_dispatch_weight_left = rv_dispatch_weight_left v, rl_actual_weight = rv_actual_weight v,
          rl_world = rv_world v\<rparr>)"

text \<open>The call returns its actual weight (\<open>PostDispatchInfo\<close> with \<open>Pays::Yes\<close>), the state and the world.\<close>

definition receive_messages_proof ::
  "('o, 'acc, 'r, 'proof, 'dproof, 'op, 'p, 'd, 'w, 'x) messages_config \<Rightarrow> 'o \<Rightarrow> 'r \<Rightarrow> 'proof \<Rightarrow> u32 \<Rightarrow> 'w \<Rightarrow>
     ('acc, 'r, 'd, 'w) messages_state \<Rightarrow> 'x \<Rightarrow>
     messages_error dispatch_error + ('w \<times> ('acc, 'r, 'd, 'w) messages_state \<times> 'x)" where
  "receive_messages_proof C origin relayer_id_at_bridged_chain proof messages_count dispatch_weight ms x =
     (case ensure_not_halted messages_owned ms of
        Inl e \<Rightarrow> Inl (ModuleError (MessagesBridgeModule e))
      | Inr _ \<Rightarrow>
     case ensure_signed C origin of
        None \<Rightarrow> Inl BadOrigin
      | Some relayer_id_at_this_chain \<Rightarrow>
     if \<not> ucast messages_count \<le> mc_max_unconfirmed_messages_at_inbound_lane C
     then Inl (ModuleError TooManyMessagesInTheProof)
     else
     let declared_weight =
           receive_messages_proof_weight (mc_weight_ops C) (mc_weight_info C)
             (mc_messages_proof_size C proof) messages_count dispatch_weight
     in case verify_and_decode_messages_proof C proof messages_count x of
        Inl _ \<Rightarrow> Inl (ModuleError InvalidMessagesProof)
      | Inr messages \<Rightarrow>
     let l = fold (receive_lane_messages C relayer_id_at_bridged_chain relayer_id_at_this_chain) messages
               \<lparr>rl_state = ms, rl_statuses = [], rl_total = 0, rl_valid = 0,
                rl_dispatch_weight_left = dispatch_weight, rl_actual_weight = declared_weight, rl_world = x\<rparr>;
         x = mc_pay_delivery_reward C relayer_id_at_this_chain (rl_total l) (rl_valid l) (rl_actual_weight l) (rl_world l);
         ms = messages_deposit_event (MessagesReceived (rl_statuses l)) (rl_state l)
     in Inr (rl_actual_weight l, ms, x))"

section \<open>Receiving delivery confirmations\<close>

definition receive_messages_delivery_proof ::
  "('o, 'acc, 'r, 'proof, 'dproof, 'op, 'p, 'd, 'w, 'x) messages_config \<Rightarrow> 'o \<Rightarrow> 'dproof \<Rightarrow>
     unrewarded_relayers_state \<Rightarrow> ('acc, 'r, 'd, 'w) messages_state \<Rightarrow> 'x \<Rightarrow>
     messages_error dispatch_error + (('acc, 'r, 'd, 'w) messages_state \<times> 'x)" where
  "receive_messages_delivery_proof C origin proof relayers_state ms x =
     (case ensure_not_halted messages_owned ms of
        Inl e \<Rightarrow> Inl (ModuleError (MessagesBridgeModule e))
      | Inr _ \<Rightarrow>
     case ensure_signed C origin of
        None \<Rightarrow> Inl BadOrigin
      | Some confirmation_relayer \<Rightarrow>
     case mc_verify_messages_delivery_proof C proof x of
        Inl _ \<Rightarrow> Inl (ModuleError InvalidMessagesDeliveryProof)
      | Inr (lane_id, lane_data) \<Rightarrow>
     if \<not> ((case total_unrewarded_messages (relayers lane_data) of None \<Rightarrow> - 1 | Some n \<Rightarrow> n) =
             total_messages_in_state relayers_state \<and>
           of_nat (length (relayers lane_data)) = unrewarded_relayer_entries relayers_state)
     then Inl (ModuleError InvalidUnrewardedRelayersState)
     else if \<not> last_delivered_nonce lane_data = last_delivered_nonce_in_state relayers_state
     then Inl (ModuleError InvalidUnrewardedRelayersState)
     else
     let lane = outbound_lane C lane_id ms;
         last_delivered = last_delivered_nonce lane_data;
         (result, lane) = confirm_delivery runtime_outbound_storage_ops
           (total_messages_in_state relayers_state) last_delivered (relayers lane_data) lane;
         ms = store_outbound_lane lane ms
     in case result of
          ConfirmedMessages confirmed_messages \<Rightarrow>
            let received_range = (dm_begin confirmed_messages, dm_end confirmed_messages);
                ms = messages_deposit_event (MessagesDelivered lane_id confirmed_messages) ms;
                x = mc_pay_confirmation_reward C lane_id (relayers lane_data) confirmation_relayer received_range x
            in Inr (ms, x)
        | NoNewConfirmations \<Rightarrow> Inr (ms, x)
        | TryingToConfirmMoreMessagesThanExpected _ \<Rightarrow>
            Inl (ModuleError TryingToConfirmMoreMessagesThanExpectedError)
        | _ \<Rightarrow> Inl (ModuleError InvalidUnrewardedRelayers))"

section \<open>The idle hook\<close>

text \<open>
  Block numbers are \<open>u32\<close>, as on all chains of the repository. \<open>None\<close> is a panic: the remainder by
  the number of active lanes when there is none, or a pruning loop that does not end.
\<close>

definition on_idle ::
  "('o, 'acc, 'r, 'proof, 'dproof, 'op, 'p, 'd, 'w, 'x) messages_config \<Rightarrow> u32 \<Rightarrow> 'w \<Rightarrow>
     ('acc, 'r, 'd, 'w) messages_state \<Rightarrow> ('w \<times> ('acc, 'r, 'd, 'w) messages_state) option" where
  "on_idle C block_number remaining_weight ms =
     (let W = mc_weight_ops C; db_weight = mc_db_weight C
      in if \<not> w_all_gte W remaining_weight (db_reads_writes db_weight 1 2) then Some (w_zero W, ms)
         else do {
           let active_lanes = mc_active_outbound_lanes C;
           active_lane_index \<leftarrow> checked_rem block_number (of_nat (length active_lanes));
           let active_lane = outbound_lane C (active_lanes ! unat active_lane_index) ms;
           let used_weight = db_reads db_weight 1;
           (pruned_weight, active_lane) \<leftarrow>
             prune_messages W runtime_outbound_storage_ops db_weight (w_sub W remaining_weight used_weight) active_lane;
           Some (w_add W used_weight pruned_weight, store_outbound_lane active_lane ms)
         })"

section \<open>Queries\<close>

definition outbound_message_data ::
  "('acc, 'r, 'd, 'w) messages_state \<Rightarrow> lane_id \<Rightarrow> message_nonce \<Rightarrow> message_payload option" where
  "outbound_message_data ms lane nonce = ms_outbound_messages ms \<lparr>mk_lane_id = lane, mk_nonce = nonce\<rparr>"

definition pallet_inbound_lane_data :: "('acc, 'r, 'd, 'w) messages_state \<Rightarrow> lane_id \<Rightarrow> 'r inbound_lane_data" where
  "pallet_inbound_lane_data ms lane = inbound_lanes_get (ms_inbound_lanes ms) lane"

definition pallet_outbound_lane_data :: "('acc, 'r, 'd, 'w) messages_state \<Rightarrow> lane_id \<Rightarrow> outbound_lane_data" where
  "pallet_outbound_lane_data ms lane = outbound_lanes_get (ms_outbound_lanes ms) lane"

definition inbound_message_data ::
  "('o, 'acc, 'r, 'proof, 'dproof, 'op, 'p, 'd, 'w, 'x) messages_config \<Rightarrow> lane_id \<Rightarrow> message_payload \<Rightarrow>
     message_nonce \<Rightarrow> 'w" where
  "inbound_message_data C lane payload nonce =
     fst (mc_dispatch_weight C
       \<lparr>dmsg_key = \<lparr>mk_lane_id = lane, mk_nonce = nonce\<rparr>,
        dmsg_data = dispatch_message_data_from (mc_decode_inbound_payload C) payload\<rparr>)"

end
