(* ===== verification/Messages_Delivery.thy ===== *)
theory Messages_Delivery
  imports Messages_Pallet
begin

text \<open>
  Correctness of the calls of the messages pallet: delivery in order and exactly once, limits of the
  inbound lanes, the weight accounting of \<open>receive_messages_proof\<close>, confirmations and sending.
\<close>

section \<open>One message of a delivery transaction\<close>

definition is_dispatched :: "('d, 'w) receival_result \<Rightarrow> bool" where
  "is_dispatched r = (case r of Dispatched _ \<Rightarrow> True | _ \<Rightarrow> False)"

definition dispatched_nonces :: "('d, 'w) received_messages \<Rightarrow> message_nonce list" where
  "dispatched_nonces st = map fst (filter (is_dispatched \<circ> snd) (receive_results st))"

text \<open>What the configuration promises: computing a dispatch weight does not change a message's key.\<close>

definition dispatch_weight_keeps_key ::
  "('o, 'acc, 'r, 'proof, 'dproof, 'op, 'p, 'd, 'w, 'x) messages_config \<Rightarrow> bool" where
  "dispatch_weight_keeps_key C \<longleftrightarrow> (\<forall>m. dmsg_key (snd (mc_dispatch_weight C m)) = dmsg_key m)"

lemma receive_one_message_cases:
  obtains
    (skipped) "rv_lane (receive_one_message C rb rt m v) = rv_lane v"
      "rv_world (receive_one_message C rb rt m v) = rv_world v"
      "rv_valid (receive_one_message C rb rt m v) = rv_valid v"
      "rv_dispatch_weight_left (receive_one_message C rb rt m v) = rv_dispatch_weight_left v"
      "rv_actual_weight (receive_one_message C rb rt m v) = rv_actual_weight v"
      "receive_results (rv_status (receive_one_message C rb rt m v)) = receive_results (rv_status v)"
  | (received) mdw m' res unspent where "\<not> rv_stopped v"
      "mc_dispatch_weight C m = (mdw, m')"
      "\<not> w_any_gt (mc_weight_ops C) mdw (rv_dispatch_weight_left v)"
      "receive_message runtime_inbound_storage_ops (mc_dispatch C) rb rt (mk_nonce (dmsg_key m')) (dmsg_data m')
         (rv_lane v) (rv_world v) =
         (res, rv_lane (receive_one_message C rb rt m v), rv_world (receive_one_message C rb rt m v))"
      "receive_results (rv_status (receive_one_message C rb rt m v)) =
         receive_results (rv_status v) @ [(mk_nonce (dmsg_key m'), res)]"
      "rv_valid (receive_one_message C rb rt m v) = rv_valid v + (if is_dispatched res then 1 else 0)"
      "rv_dispatch_weight_left (receive_one_message C rb rt m v) =
         w_sub (mc_weight_ops C) (rv_dispatch_weight_left v)
           (w_sub (mc_weight_ops C) mdw (w_min (mc_weight_ops C) unspent mdw))"
      "rv_actual_weight (receive_one_message C rb rt m v) =
         w_saturating_sub (mc_weight_ops C) (rv_actual_weight v) (w_min (mc_weight_ops C) unspent mdw)"
      "\<not> is_dispatched res \<Longrightarrow> unspent = mdw"
proof (cases "rv_stopped v \<or> w_any_gt (mc_weight_ops C) (fst (mc_dispatch_weight C m)) (rv_dispatch_weight_left v)")
  case True
  then have "rv_lane (receive_one_message C rb rt m v) = rv_lane v \<and>
      rv_world (receive_one_message C rb rt m v) = rv_world v \<and>
      rv_valid (receive_one_message C rb rt m v) = rv_valid v \<and>
      rv_dispatch_weight_left (receive_one_message C rb rt m v) = rv_dispatch_weight_left v \<and>
      rv_actual_weight (receive_one_message C rb rt m v) = rv_actual_weight v \<and>
      receive_results (rv_status (receive_one_message C rb rt m v)) = receive_results (rv_status v)"
    by (auto simp: receive_one_message_def Let_def push_skipped_for_not_enough_weight_def split: prod.split)
  then show thesis using skipped by blast
next
  case False
  obtain mdw m' where w: "mc_dispatch_weight C m = (mdw, m')" by fastforce
  obtain res lane x where r: "receive_message runtime_inbound_storage_ops (mc_dispatch C) rb rt
      (mk_nonce (dmsg_key m')) (dmsg_data m') (rv_lane v) (rv_world v) = (res, lane, x)"
    by (metis prod_cases3)
  define unspent where "unspent = (case res of Dispatched dr \<Rightarrow> unspent_weight dr | _ \<Rightarrow> mdw)"
  have v': "receive_one_message C rb rt m v =
    v\<lparr>rv_total := rv_total v + 1, rv_lane := lane, rv_world := x,
      rv_valid := rv_valid v + (if is_dispatched res then 1 else 0),
      rv_status := received_messages_push (rv_status v) (mk_nonce (dmsg_key m')) res,
      rv_dispatch_weight_left := w_sub (mc_weight_ops C) (rv_dispatch_weight_left v)
        (w_sub (mc_weight_ops C) mdw (w_min (mc_weight_ops C) unspent mdw)),
      rv_actual_weight := w_saturating_sub (mc_weight_ops C) (rv_actual_weight v) (w_min (mc_weight_ops C) unspent mdw)\<rparr>"
    using False w r
    by (cases res) (simp_all add: receive_one_message_def Let_def unspent_def is_dispatched_def)
  show thesis
    using False w r
    by (intro received [of mdw m' res unspent])
      (simp_all add: v' received_messages_push_def unspent_def is_dispatched_def split: receival_result.splits)
qed

lemma rv_total_receive_one: "rv_total (receive_one_message C rb rt m v) = rv_total v + 1"
  by (auto simp: receive_one_message_def Let_def split: prod.split receival_result.split)

lemma rm_lane_receive_one: "rm_lane (rv_status (receive_one_message C rb rt m v)) = rm_lane (rv_status v)"
  by (auto simp: receive_one_message_def Let_def push_skipped_for_not_enough_weight_def received_messages_push_def
      split: prod.split receival_result.split)

section \<open>The messages of a lane\<close>

text \<open>
  The invariant of the inner loop. The lane is well formed, its limits hold, and the dispatched
  nonces of the transaction are exactly those that follow the nonce \<open>d0\<close> that was last delivered
  before it, in order.
\<close>

definition lane_loop_inv ::
  "('o, 'acc, 'r, 'proof, 'dproof, 'op, 'p, 'd, 'w, 'x) messages_config \<Rightarrow> lane_id \<Rightarrow> nat \<Rightarrow>
     ('r, 'd, 'w, 'x) receive_vars \<Rightarrow> bool" where
  "lane_loop_inv C lane d0 v \<longleftrightarrow>
     ris_coherent (rv_lane v) \<and> ris_lane_id (rv_lane v) = lane \<and>
     ris_max_unrewarded_relayer_entries (rv_lane v) = mc_max_unrewarded_relayer_entries_at_inbound_lane C \<and>
     ris_max_unconfirmed_messages (rv_lane v) = mc_max_unconfirmed_messages_at_inbound_lane C \<and>
     inbound_ok (mc_max_unrewarded_relayer_entries_at_inbound_lane C) (mc_max_unconfirmed_messages_at_inbound_lane C)
       (ris_view (rv_lane v)) \<and>
     map unat (dispatched_nonces (rv_status v)) = [Suc d0..<Suc (unat (last_delivered_nonce (ris_view (rv_lane v))))] \<and>
     d0 \<le> unat (last_delivered_nonce (ris_view (rv_lane v)))"

lemma runtime_inbound_ops [simp]:
  "ils_id runtime_inbound_storage_ops = ris_lane_id"
  "ils_max_unrewarded_relayer_entries runtime_inbound_storage_ops = ris_max_unrewarded_relayer_entries"
  "ils_max_unconfirmed_messages runtime_inbound_storage_ops = ris_max_unconfirmed_messages"
  by (simp_all add: runtime_inbound_storage_ops_def)

lemma lane_loop_inv_step:
  assumes inv: "lane_loop_inv C lane d0 v" and key: "dispatch_weight_keeps_key C" and nz: "mk_nonce (dmsg_key m) \<noteq> 0"
  shows "lane_loop_inv C lane d0 (receive_one_message C rb rt m v)"
proof (cases rule: receive_one_message_cases [of C rb rt m v])
  case skipped
  then show ?thesis using inv by (simp add: lane_loop_inv_def dispatched_nonces_def)
next
  case (received mdw m' res unspent)
  let ?v = "receive_one_message C rb rt m v" and ?s = "rv_lane v"
  have co: "ris_coherent ?s"
    and cfg: "ris_max_unrewarded_relayer_entries ?s = mc_max_unrewarded_relayer_entries_at_inbound_lane C"
      "ris_max_unconfirmed_messages ?s = mc_max_unconfirmed_messages_at_inbound_lane C" "ris_lane_id ?s = lane"
    and ok: "inbound_ok (ris_max_unrewarded_relayer_entries ?s) (ris_max_unconfirmed_messages ?s) (ris_view ?s)"
    and nonces: "map unat (dispatched_nonces (rv_status v)) = [Suc d0..<Suc (unat (last_delivered_nonce (ris_view ?s)))]"
    and d0: "d0 \<le> unat (last_delivered_nonce (ris_view ?s))"
    using inv by (auto simp: lane_loop_inv_def)
  have "dmsg_key m' = dmsg_key m"
    using key received(2) by (metis dispatch_weight_keeps_key_def snd_conv)
  with nz have n: "mk_nonce (dmsg_key m') \<noteq> 0" by simp
  note view = runtime_inbound.receive_message_view [OF co received(4)]
  have ok': "inbound_ok (ris_max_unrewarded_relayer_entries ?s) (ris_max_unconfirmed_messages ?s) (ris_view (rv_lane ?v))"
    using runtime_inbound.receive_message_ok [OF co received(4) n] ok by simp
  have "map unat (dispatched_nonces (rv_status ?v)) = [Suc d0..<Suc (unat (last_delivered_nonce (ris_view (rv_lane ?v))))] \<and>
    d0 \<le> unat (last_delivered_nonce (ris_view (rv_lane ?v)))"
  proof (cases "is_dispatched res")
    case True
    then have nd: "mk_nonce (dmsg_key m') = last_delivered_nonce (ris_view ?s) + 1"
      and v': "ris_view (rv_lane ?v) = deliver_data rb (mk_nonce (dmsg_key m')) (ris_view ?s)"
      using view(3) by (auto simp: is_dispatched_def split: if_splits)
    have wf: "inbound_wf (ris_view ?s)" using ok by (simp add: inbound_ok_def)
    have "last_delivered_nonce (ris_view (rv_lane ?v)) = mk_nonce (dmsg_key m')"
      and "unat (mk_nonce (dmsg_key m')) = Suc (unat (last_delivered_nonce (ris_view ?s)))"
      using deliver_data_ok(2,5) [OF wf nd n] unfolding v' by simp_all
    then show ?thesis
      using nonces d0 True received(5) by (simp add: dispatched_nonces_def)
  next
    case False
    then have "ris_view (rv_lane ?v) = ris_view ?s"
      using view(3) by (auto simp: is_dispatched_def split: if_splits)
    then show ?thesis
      using nonces d0 False received(5) by (simp add: dispatched_nonces_def)
  qed
  then show ?thesis
    using view(1,2) cfg ok' by (simp add: lane_loop_inv_def same_inbound_config_def)
qed

lemma lane_loop_inv_fold:
  assumes "lane_loop_inv C lane d0 v" and "dispatch_weight_keeps_key C"
    and "\<And>m. m \<in> set ms \<Longrightarrow> mk_nonce (dmsg_key m) \<noteq> 0"
  shows "lane_loop_inv C lane d0 (fold (receive_one_message C rb rt) ms v)"
  using assms by (induction ms arbitrary: v) (auto intro: lane_loop_inv_step)

lemma receive_one_message_other_lanes:
  assumes "lane \<noteq> ris_lane_id (rv_lane v)"
  shows "ris_inbound_lanes (rv_lane (receive_one_message C rb rt m v)) lane = ris_inbound_lanes (rv_lane v) lane"
    and "ris_lane_id (rv_lane (receive_one_message C rb rt m v)) = ris_lane_id (rv_lane v)"
proof -
  have "ris_inbound_lanes (rv_lane (receive_one_message C rb rt m v)) lane = ris_inbound_lanes (rv_lane v) lane \<and>
    ris_lane_id (rv_lane (receive_one_message C rb rt m v)) = ris_lane_id (rv_lane v)"
  proof (cases rule: receive_one_message_cases [of C rb rt m v])
    case (received mdw m' res unspent)
    then show ?thesis
      using receive_message_other_lanes [OF received(4) assms] receive_message_keeps_id [OF received(4)] by simp
  qed simp
  then show "ris_inbound_lanes (rv_lane (receive_one_message C rb rt m v)) lane = ris_inbound_lanes (rv_lane v) lane"
    and "ris_lane_id (rv_lane (receive_one_message C rb rt m v)) = ris_lane_id (rv_lane v)"
    by simp_all
qed

lemma fold_receive_other_lanes:
  assumes "lane \<noteq> ris_lane_id (rv_lane v)"
  shows "ris_inbound_lanes (rv_lane (fold (receive_one_message C rb rt) ms v)) lane = ris_inbound_lanes (rv_lane v) lane"
  using assms by (induction ms arbitrary: v) (simp_all add: receive_one_message_other_lanes)

section \<open>Weights\<close>

lemma receive_one_message_weights:
  assumes W: "weight_laws (mc_weight_ops C)"
  shows "weight_le (mc_weight_ops C) (rv_dispatch_weight_left (receive_one_message C rb rt m v)) (rv_dispatch_weight_left v)"
    and "weight_le (mc_weight_ops C) (rv_actual_weight (receive_one_message C rb rt m v)) (rv_actual_weight v)"
proof -
  let ?W = "mc_weight_ops C"
  have sub: "b \<le> a \<Longrightarrow> a - (b - min u b) \<le> a" for a b u :: u64
  proof -
    assume "b \<le> a"
    then have "b - min u b \<le> a" by (metis min.cobounded2 order_trans word_sub_le)
    then show "a - (b - min u b) \<le> a" by (rule word_sub_le)
  qed
  have "weight_le ?W (rv_dispatch_weight_left (receive_one_message C rb rt m v)) (rv_dispatch_weight_left v) \<and>
    weight_le ?W (rv_actual_weight (receive_one_message C rb rt m v)) (rv_actual_weight v)"
  proof (cases rule: receive_one_message_cases [of C rb rt m v])
    case (received mdw m' res unspent)
    then show ?thesis
      using W by (auto simp: weight_le_def weight_simps not_less intro!: sub)
  qed simp
  then show "weight_le ?W (rv_dispatch_weight_left (receive_one_message C rb rt m v)) (rv_dispatch_weight_left v)"
    and "weight_le ?W (rv_actual_weight (receive_one_message C rb rt m v)) (rv_actual_weight v)"
    by simp_all
qed

lemma fold_receive_weights:
  assumes W: "weight_laws (mc_weight_ops C)"
  shows "weight_le (mc_weight_ops C) (rv_dispatch_weight_left (fold (receive_one_message C rb rt) ms v)) (rv_dispatch_weight_left v) \<and>
    weight_le (mc_weight_ops C) (rv_actual_weight (fold (receive_one_message C rb rt) ms v)) (rv_actual_weight v)"
  by (induction ms arbitrary: v) (auto intro: weight_le_trans receive_one_message_weights [OF W])

section \<open>One lane of a delivery transaction\<close>

definition inbound_lanes_ok ::
  "('o, 'acc, 'r, 'proof, 'dproof, 'op, 'p, 'd, 'w, 'x) messages_config \<Rightarrow> (lane_id \<rightharpoonup> 'r inbound_lane_data) \<Rightarrow> bool" where
  "inbound_lanes_ok C lanes \<longleftrightarrow>
     (\<forall>lane. inbound_ok (mc_max_unrewarded_relayer_entries_at_inbound_lane C)
               (mc_max_unconfirmed_messages_at_inbound_lane C) (inbound_lanes_get lanes lane))"

lemma inbound_lanes_ok_empty: "inbound_lanes_ok C Map.empty"
  by (simp add: inbound_lanes_ok_def inbound_lanes_get_def inbound_ok_default)

lemma snd_extra_proof_size_bytes: "snd (extra_proof_size_bytes C s) = snd (ris_data s)"
  by (simp add: extra_proof_size_bytes_def Let_def split: prod.split)

text \<open>The variables as the inner loop finds them: after reading the storage and the optional state update.\<close>

definition lane_start_vars ::
  "('o, 'acc, 'r, 'proof, 'dproof, 'op, 'p, 'd, 'w, 'x) messages_config \<Rightarrow> lane_id \<Rightarrow>
     outbound_lane_data option \<Rightarrow> ('acc, 'r, 'd, 'w, 'x) receive_lanes_vars \<Rightarrow> ('r, 'd, 'w, 'x) receive_vars" where
  "lane_start_vars C lane st l =
     (let W = mc_weight_ops C; (extra, s) = extra_proof_size_bytes C (inbound_lane C lane (rl_state l))
      in \<lparr>rv_lane = (case st of Some lane_state \<Rightarrow> snd (receive_state_update runtime_inbound_storage_ops lane_state s)
                             | None \<Rightarrow> s),
          rv_status = received_messages_new lane [], rv_stopped = False,
          rv_total = rl_total l, rv_valid = rl_valid l,
          rv_dispatch_weight_left = rl_dispatch_weight_left l,
          rv_actual_weight = w_set_proof_size W (rl_actual_weight l)
            (saturating_sub (w_proof_size W (rl_actual_weight l)) extra),
          rv_world = rl_world l\<rparr>)"

lemma receive_lane_messages_alt:
  "receive_lane_messages C rb rt (lane, ld) l =
     (let v = fold (receive_one_message C rb rt) (pm_messages ld) (lane_start_vars C lane (pm_lane_state ld) l)
      in \<lparr>rl_state = store_inbound_lane (rv_lane v) (rl_state l), rl_statuses = rl_statuses l @ [rv_status v],
          rl_total = rv_total v, rl_valid = rv_valid v, rl_dispatch_weight_left = rv_dispatch_weight_left v,
          rl_actual_weight = rv_actual_weight v, rl_world = rv_world v\<rparr>)"
  by (simp add: receive_lane_messages_def lane_start_vars_def Let_def split: prod.split)

lemma lane_start_vars_simps:
  "rv_status (lane_start_vars C lane st l) = received_messages_new lane []"
  "rv_total (lane_start_vars C lane st l) = rl_total l"
  "rv_valid (lane_start_vars C lane st l) = rl_valid l"
  "rv_dispatch_weight_left (lane_start_vars C lane st l) = rl_dispatch_weight_left l"
  "rv_lane (lane_start_vars C lane st l) =
     (let s = snd (ris_data (inbound_lane C lane (rl_state l)))
      in case st of Some lane_state \<Rightarrow> snd (receive_state_update runtime_inbound_storage_ops lane_state s) | None \<Rightarrow> s)"
  by (simp_all add: lane_start_vars_def Let_def split_beta snd_extra_proof_size_bytes)

lemma lane_start_vars_weight:
  "weight_laws (mc_weight_ops C) \<Longrightarrow>
     weight_le (mc_weight_ops C) (rv_actual_weight (lane_start_vars C lane st l)) (rl_actual_weight l)"
  by (simp add: lane_start_vars_def Let_def weight_le_set_proof_size split: prod.split)

lemma ris_data_inbound_lane:
  defines "s \<equiv> \<lambda>C lane ms. snd (ris_data (inbound_lane C lane ms))"
  shows "ris_coherent (s C lane ms)" "ris_view (s C lane ms) = inbound_lanes_get (ms_inbound_lanes ms) lane"
    "ris_lane_id (s C lane ms) = lane" "ris_inbound_lanes (s C lane ms) = ms_inbound_lanes ms"
    "ris_max_unrewarded_relayer_entries (s C lane ms) = mc_max_unrewarded_relayer_entries_at_inbound_lane C"
    "ris_max_unconfirmed_messages (s C lane ms) = mc_max_unconfirmed_messages_at_inbound_lane C"
  by (simp_all add: s_def inbound_lane_def ris_data_def ris_view_def ris_coherent_def Let_def)

lemma lane_loop_inv_start:
  assumes "inbound_lanes_ok C (ms_inbound_lanes (rl_state l))"
  shows "lane_loop_inv C lane (unat (last_delivered_nonce (pallet_inbound_lane_data (rl_state l) lane)))
    (lane_start_vars C lane st l)"
proof (cases st)
  case None
  then show ?thesis
    using assms
    by (simp add: lane_loop_inv_def lane_start_vars_simps ris_data_inbound_lane inbound_lanes_ok_def
        dispatched_nonces_def received_messages_new_def pallet_inbound_lane_data_def)
next
  case (Some out)
  let ?s = "snd (ris_data (inbound_lane C lane (rl_state l)))"
  obtain res s' where r: "receive_state_update runtime_inbound_storage_ops out ?s = (res, s')" by fastforce
  have co: "ris_coherent ?s" by (rule ris_data_inbound_lane)
  have ok: "inbound_ok (ris_max_unrewarded_relayer_entries ?s) (ris_max_unconfirmed_messages ?s) (ris_view ?s)"
    using assms by (simp add: ris_data_inbound_lane inbound_lanes_ok_def)
  then have "inbound_wf (ris_view ?s)" by (simp add: inbound_ok_def)
  note ref = runtime_inbound.receive_state_update_refines [OF co this r]
  note vw = runtime_inbound.receive_state_update_view [OF co r]
  have "inbound_ok (ris_max_unrewarded_relayer_entries ?s) (ris_max_unconfirmed_messages ?s) (ris_view s')"
    using runtime_inbound.receive_state_update_ok [OF co r] ok by simp
  then show ?thesis
    using Some r ref(3) vw(1,2)
    by (simp add: lane_loop_inv_def lane_start_vars_simps ris_data_inbound_lane same_inbound_config_def
        dispatched_nonces_def received_messages_new_def pallet_inbound_lane_data_def)
qed

lemma lane_start_other_lanes:
  assumes "lane' \<noteq> lane"
  shows "ris_inbound_lanes (rv_lane (lane_start_vars C lane st l)) lane' = ms_inbound_lanes (rl_state l) lane'"
proof (cases st)
  case (Some out)
  obtain res s' where r: "receive_state_update runtime_inbound_storage_ops out
      (snd (ris_data (inbound_lane C lane (rl_state l)))) = (res, s')" by fastforce
  then show ?thesis
    using Some receive_state_update_other_lanes [OF r, of lane'] assms
    by (simp add: lane_start_vars_simps ris_data_inbound_lane)
qed (simp add: lane_start_vars_simps ris_data_inbound_lane)

lemma fold_receive_rm_lane: "rm_lane (rv_status (fold (receive_one_message C rb rt) ms v)) = rm_lane (rv_status v)"
  by (induction ms arbitrary: v) (simp_all add: rm_lane_receive_one)

text \<open>What one lane of a transaction does to the state of the pallet.\<close>

lemma receive_lane_messages_effect:
  assumes ok: "inbound_lanes_ok C (ms_inbound_lanes (rl_state l))" and key: "dispatch_weight_keeps_key C"
    and nz: "\<And>m. m \<in> set (pm_messages ld) \<Longrightarrow> mk_nonce (dmsg_key m) \<noteq> 0"
  obtains st lanes where
    "rl_statuses (receive_lane_messages C rb rt (lane, ld) l) = rl_statuses l @ [st]" "rm_lane st = lane"
    "rl_state (receive_lane_messages C rb rt (lane, ld) l) = (rl_state l)\<lparr>ms_inbound_lanes := lanes\<rparr>"
    "inbound_lanes_ok C lanes" "\<And>lane'. lane' \<noteq> lane \<Longrightarrow> lanes lane' = ms_inbound_lanes (rl_state l) lane'"
    "map unat (dispatched_nonces st) =
       [Suc (unat (last_delivered_nonce (inbound_lanes_get (ms_inbound_lanes (rl_state l)) lane)))..<
        Suc (unat (last_delivered_nonce (inbound_lanes_get lanes lane)))]"
proof -
  define v where "v = fold (receive_one_message C rb rt) (pm_messages ld) (lane_start_vars C lane (pm_lane_state ld) l)"
  have inv: "lane_loop_inv C lane (unat (last_delivered_nonce (pallet_inbound_lane_data (rl_state l) lane))) v"
    unfolding v_def using lane_loop_inv_start [OF ok] key nz by (rule lane_loop_inv_fold)
  let ?lanes = "ris_inbound_lanes (rv_lane v)"
  have id: "ris_lane_id (rv_lane (lane_start_vars C lane (pm_lane_state ld) l)) = lane"
    using lane_loop_inv_start [OF ok, of lane "pm_lane_state ld"] by (simp add: lane_loop_inv_def)
  have other: "?lanes lane' = ms_inbound_lanes (rl_state l) lane'" if "lane' \<noteq> lane" for lane'
    unfolding v_def using that id by (simp add: fold_receive_other_lanes lane_start_other_lanes)
  have view: "inbound_lanes_get ?lanes lane = ris_view (rv_lane v)"
    using inv by (simp add: lane_loop_inv_def ris_view_def)
  have get: "inbound_lanes_get ?lanes lane' = inbound_lanes_get (ms_inbound_lanes (rl_state l)) lane'"
    if "lane' \<noteq> lane" for lane'
    using other [OF that] by (simp add: inbound_lanes_get_def)
  show thesis
  proof
    show "rl_statuses (receive_lane_messages C rb rt (lane, ld) l) = rl_statuses l @ [rv_status v]"
      "rl_state (receive_lane_messages C rb rt (lane, ld) l) = (rl_state l)\<lparr>ms_inbound_lanes := ?lanes\<rparr>"
      by (simp_all add: receive_lane_messages_alt Let_def v_def store_inbound_lane_def)
    show "rm_lane (rv_status v) = lane"
      by (simp add: v_def fold_receive_rm_lane lane_start_vars_simps received_messages_new_def)
    show "inbound_lanes_ok C ?lanes"
      unfolding inbound_lanes_ok_def
    proof
      fix lane'
      show "inbound_ok (mc_max_unrewarded_relayer_entries_at_inbound_lane C)
        (mc_max_unconfirmed_messages_at_inbound_lane C) (inbound_lanes_get ?lanes lane')"
        using inv view get ok by (cases "lane' = lane") (simp_all add: lane_loop_inv_def inbound_lanes_ok_def)
    qed
    show "map unat (dispatched_nonces (rv_status v)) =
      [Suc (unat (last_delivered_nonce (inbound_lanes_get (ms_inbound_lanes (rl_state l)) lane)))..<
       Suc (unat (last_delivered_nonce (inbound_lanes_get ?lanes lane)))]"
      using inv view by (simp add: lane_loop_inv_def pallet_inbound_lane_data_def)
  qed (use other in blast)
qed

section \<open>The whole delivery transaction\<close>

text \<open>
  \<open>lanes_progress ms0 l\<close> relates the state \<open>ms0\<close> before the call to the variables of the outer loop:
  only inbound lanes have changed, a lane without a status has not, and the dispatched nonces of a
  lane with a status are exactly those between its old and its new last delivered nonce, in order.
\<close>

definition lanes_progress ::
  "('o, 'acc, 'r, 'proof, 'dproof, 'op, 'p, 'd, 'w, 'x) messages_config \<Rightarrow> ('acc, 'r, 'd, 'w) messages_state \<Rightarrow>
     ('acc, 'r, 'd, 'w) messages_state \<Rightarrow> ('d, 'w) received_messages list \<Rightarrow> bool" where
  "lanes_progress C ms0 ms statuses \<longleftrightarrow>
     ms = ms0\<lparr>ms_inbound_lanes := ms_inbound_lanes ms\<rparr> \<and>
     inbound_lanes_ok C (ms_inbound_lanes ms) \<and>
     (\<forall>lane. lane \<notin> rm_lane ` set statuses \<longrightarrow> ms_inbound_lanes ms lane = ms_inbound_lanes ms0 lane) \<and>
     (\<forall>st \<in> set statuses.
        map unat (dispatched_nonces st) =
          [Suc (unat (last_delivered_nonce (pallet_inbound_lane_data ms0 (rm_lane st))))..<
           Suc (unat (last_delivered_nonce (pallet_inbound_lane_data ms (rm_lane st))))])"

lemma lanes_progress_step:
  assumes inv: "lanes_progress C ms0 (rl_state l) (rl_statuses l)" and key: "dispatch_weight_keeps_key C"
    and nz: "\<And>m. m \<in> set (pm_messages ld) \<Longrightarrow> mk_nonce (dmsg_key m) \<noteq> 0"
    and new: "lane \<notin> rm_lane ` set (rl_statuses l)"
  shows "lanes_progress C ms0 (rl_state (receive_lane_messages C rb rt (lane, ld) l))
      (rl_statuses (receive_lane_messages C rb rt (lane, ld) l)) \<and>
    rm_lane ` set (rl_statuses (receive_lane_messages C rb rt (lane, ld) l)) =
      insert lane (rm_lane ` set (rl_statuses l))"
proof -
  have ok: "inbound_lanes_ok C (ms_inbound_lanes (rl_state l))"
    using inv by (simp add: lanes_progress_def)
  obtain st lanes where
      s: "rl_statuses (receive_lane_messages C rb rt (lane, ld) l) = rl_statuses l @ [st]" "rm_lane st = lane"
        "rl_state (receive_lane_messages C rb rt (lane, ld) l) = (rl_state l)\<lparr>ms_inbound_lanes := lanes\<rparr>"
      and lok: "inbound_lanes_ok C lanes"
      and other: "\<And>lane'. lane' \<noteq> lane \<Longrightarrow> lanes lane' = ms_inbound_lanes (rl_state l) lane'"
      and nonces: "map unat (dispatched_nonces st) =
         [Suc (unat (last_delivered_nonce (inbound_lanes_get (ms_inbound_lanes (rl_state l)) lane)))..<
          Suc (unat (last_delivered_nonce (inbound_lanes_get lanes lane)))]"
    by (rule receive_lane_messages_effect [OF ok key nz, where lane = lane and rb = rb and rt = rt]; blast)
  have get: "inbound_lanes_get lanes lane' = inbound_lanes_get (ms_inbound_lanes (rl_state l)) lane'"
    if "lane' \<noteq> lane" for lane'
    using other [OF that] by (simp add: inbound_lanes_get_def)
  have same: "inbound_lanes_get (ms_inbound_lanes (rl_state l)) lane = inbound_lanes_get (ms_inbound_lanes ms0) lane"
    using inv new by (simp add: lanes_progress_def inbound_lanes_get_def)
  have nonces': "map unat (dispatched_nonces st') =
      [Suc (unat (last_delivered_nonce (inbound_lanes_get (ms_inbound_lanes ms0) (rm_lane st'))))..<
       Suc (unat (last_delivered_nonce (inbound_lanes_get lanes (rm_lane st'))))]"
    if "st' \<in> insert st (set (rl_statuses l))" for st'
  proof (cases "rm_lane st' = lane")
    case True
    with that new have "st' = st" by auto
    then show ?thesis using nonces s(2) same by simp
  next
    case False
    with that s(2) have "st' \<in> set (rl_statuses l)" by auto
    then show ?thesis using inv get [OF False] by (simp add: lanes_progress_def pallet_inbound_lane_data_def)
  qed
  obtain il where il: "rl_state l = ms0\<lparr>ms_inbound_lanes := il\<rparr>"
    using inv by (auto simp: lanes_progress_def)
  have "lanes_progress C ms0 ((rl_state l)\<lparr>ms_inbound_lanes := lanes\<rparr>) (rl_statuses l @ [st])"
    unfolding lanes_progress_def pallet_inbound_lane_data_def
  proof (intro conjI allI impI ballI)
    show "(rl_state l)\<lparr>ms_inbound_lanes := lanes\<rparr> =
        ms0\<lparr>ms_inbound_lanes := ms_inbound_lanes ((rl_state l)\<lparr>ms_inbound_lanes := lanes\<rparr>)\<rparr>"
      by (simp add: il)
  next
    fix lane'
    assume "lane' \<notin> rm_lane ` set (rl_statuses l @ [st])"
    then show "ms_inbound_lanes ((rl_state l)\<lparr>ms_inbound_lanes := lanes\<rparr>) lane' = ms_inbound_lanes ms0 lane'"
      using inv s(2) other [of lane'] by (auto simp: lanes_progress_def)
  qed (use lok nonces' in \<open>auto simp del: upt_Suc\<close>)
  then show ?thesis by (simp add: s)
qed

lemma lanes_progress_fold:
  assumes "lanes_progress C ms0 (rl_state l) (rl_statuses l)" and "dispatch_weight_keeps_key C"
    and "distinct (map fst lanes)" and "rm_lane ` set (rl_statuses l) \<inter> fst ` set lanes = {}"
    and "\<And>lane ld m. (lane, ld) \<in> set lanes \<Longrightarrow> m \<in> set (pm_messages ld) \<Longrightarrow> mk_nonce (dmsg_key m) \<noteq> 0"
  shows "lanes_progress C ms0 (rl_state (fold (receive_lane_messages C rb rt) lanes l))
    (rl_statuses (fold (receive_lane_messages C rb rt) lanes l))"
  using assms
proof (induction lanes arbitrary: l)
  case (Cons a lanes)
  obtain lane ld where a: "a = (lane, ld)" by fastforce
  let ?l = "receive_lane_messages C rb rt (lane, ld) l"
  have step: "lanes_progress C ms0 (rl_state ?l) (rl_statuses ?l) \<and>
    rm_lane ` set (rl_statuses ?l) = insert lane (rm_lane ` set (rl_statuses l))"
    using Cons.prems a by (intro lanes_progress_step) auto
  have "lanes_progress C ms0 (rl_state (fold (receive_lane_messages C rb rt) lanes ?l))
    (rl_statuses (fold (receive_lane_messages C rb rt) lanes ?l))"
    using step Cons.prems a by (intro Cons.IH) auto
  then show ?case by (simp add: a)
qed simp

lemma receive_lane_messages_weights:
  assumes W: "weight_laws (mc_weight_ops C)"
  shows "weight_le (mc_weight_ops C) (rl_dispatch_weight_left (receive_lane_messages C rb rt ld l)) (rl_dispatch_weight_left l) \<and>
    weight_le (mc_weight_ops C) (rl_actual_weight (receive_lane_messages C rb rt ld l)) (rl_actual_weight l)"
  using fold_receive_weights [OF W, of rb rt "pm_messages (snd ld)" "lane_start_vars C (fst ld) (pm_lane_state (snd ld)) l"]
    lane_start_vars_weight [OF W, of "fst ld" "pm_lane_state (snd ld)" l]
  by (cases ld) (auto simp: receive_lane_messages_alt Let_def lane_start_vars_simps intro: weight_le_trans)

lemma fold_receive_lane_weights:
  assumes W: "weight_laws (mc_weight_ops C)"
  shows "weight_le (mc_weight_ops C) (rl_dispatch_weight_left (fold (receive_lane_messages C rb rt) lanes l)) (rl_dispatch_weight_left l) \<and>
    weight_le (mc_weight_ops C) (rl_actual_weight (fold (receive_lane_messages C rb rt) lanes l)) (rl_actual_weight l)"
proof (induction lanes arbitrary: l)
  case (Cons a lanes)
  show ?case
    using Cons.IH [of "receive_lane_messages C rb rt a l"] receive_lane_messages_weights [OF W, of rb rt a l]
    by (auto intro: weight_le_trans)
qed simp

text \<open>The promise of the proof verifier: an ordered map of lanes, whose messages have no nonce zero.\<close>

definition proved_messages_valid :: "message proved_messages \<Rightarrow> bool" where
  "proved_messages_valid proved \<longleftrightarrow>
     btree_wf proved \<and> (\<forall>(lane, ld) \<in> set proved. \<forall>m \<in> set (pm_messages ld). mk_nonce (msg_key m) \<noteq> 0)"

lemma receive_messages_proof_Inr:
  assumes "receive_messages_proof C origin rb proof count dw ms x = Inr (w, ms', x')"
  obtains relayer messages l where
    "\<not> is_halted messages_owned ms" "ensure_signed C origin = Some relayer"
    "verify_and_decode_messages_proof C proof count x = Inr messages"
    "ucast count \<le> mc_max_unconfirmed_messages_at_inbound_lane C"
    "l = fold (receive_lane_messages C rb relayer) messages
       \<lparr>rl_state = ms, rl_statuses = [], rl_total = 0, rl_valid = 0, rl_dispatch_weight_left = dw,
        rl_actual_weight = receive_messages_proof_weight (mc_weight_ops C) (mc_weight_info C)
             (mc_messages_proof_size C proof) count dw, rl_world = x\<rparr>"
    "w = rl_actual_weight l" "ms' = messages_deposit_event (MessagesReceived (rl_statuses l)) (rl_state l)"
    "x' = mc_pay_delivery_reward C relayer (rl_total l) (rl_valid l) (rl_actual_weight l) (rl_world l)"
  using assms
  by (auto simp: receive_messages_proof_def ensure_not_halted_def Let_def split: sum.splits option.splits if_splits)

lemma verify_and_decode_Inr:
  assumes "verify_and_decode_messages_proof C proof count x = Inr messages"
  obtains proved where "mc_verify_messages_proof C proof count x = Inr proved"
    "map fst messages = map fst proved"
    "\<And>lane ld m. (lane, ld) \<in> set messages \<Longrightarrow> m \<in> set (pm_messages ld) \<Longrightarrow>
       \<exists>ld' m'. (lane, ld') \<in> set proved \<and> m' \<in> set (pm_messages ld') \<and> dmsg_key m = msg_key m'"
proof -
  from assms obtain proved where p: "mc_verify_messages_proof C proof count x = Inr proved"
    and m: "messages = map (\<lambda>(lane, lane_data). (lane, \<lparr>pm_lane_state = pm_lane_state lane_data,
       pm_messages = map (dispatch_message_from (mc_decode_inbound_payload C)) (pm_messages lane_data)\<rparr>)) proved"
    by (auto simp: verify_and_decode_messages_proof_def split: sum.splits)
  show thesis
  proof (rule that [OF p])
    show "map fst messages = map fst proved" by (auto simp: m)
    show "\<exists>ld' m'. (lane, ld') \<in> set proved \<and> m' \<in> set (pm_messages ld') \<and> dmsg_key d = msg_key m'"
      if "(lane, ld) \<in> set messages" "d \<in> set (pm_messages ld)" for lane ld d
      using that by (fastforce simp: m dispatch_message_from_def)
  qed
qed

lemma receive_messages_proof_progress:
  assumes call: "receive_messages_proof C origin rb proof count dw ms x = Inr (w, ms', x')"
    and ok: "inbound_lanes_ok C (ms_inbound_lanes ms)" and key: "dispatch_weight_keeps_key C"
    and valid: "\<And>proved. mc_verify_messages_proof C proof count x = Inr proved \<Longrightarrow> proved_messages_valid proved"
  obtains statuses where "ms_events ms' = ms_events ms @ [MessagesReceived statuses]"
    "lanes_progress C ms (ms'\<lparr>ms_events := ms_events ms\<rparr>) statuses"
proof -
  from call obtain relayer messages l where
      v: "verify_and_decode_messages_proof C proof count x = Inr messages"
    and l: "l = fold (receive_lane_messages C rb relayer) messages
       \<lparr>rl_state = ms, rl_statuses = [], rl_total = 0, rl_valid = 0, rl_dispatch_weight_left = dw,
        rl_actual_weight = receive_messages_proof_weight (mc_weight_ops C) (mc_weight_info C)
             (mc_messages_proof_size C proof) count dw, rl_world = x\<rparr>"
    and ms': "ms' = messages_deposit_event (MessagesReceived (rl_statuses l)) (rl_state l)"
    by (rule receive_messages_proof_Inr)
  obtain proved where p: "mc_verify_messages_proof C proof count x = Inr proved"
    and fst: "map fst messages = map fst proved"
    and msgs: "\<And>lane ld m. (lane, ld) \<in> set messages \<Longrightarrow> m \<in> set (pm_messages ld) \<Longrightarrow>
       \<exists>ld' m'. (lane, ld') \<in> set proved \<and> m' \<in> set (pm_messages ld') \<and> dmsg_key m = msg_key m'"
    using verify_and_decode_Inr [OF v] by blast
  have pv: "proved_messages_valid proved" using valid p by blast
  have "distinct (map fst messages)"
    using pv fst btree.distinct_entries [of proved] by (simp add: proved_messages_valid_def)
  moreover have "mk_nonce (dmsg_key m) \<noteq> 0" if "(lane, ld) \<in> set messages" "m \<in> set (pm_messages ld)" for lane ld m
    using msgs [OF that] pv by (fastforce simp: proved_messages_valid_def)
  ultimately have "lanes_progress C ms (rl_state l) (rl_statuses l)"
    unfolding l using ok key by (intro lanes_progress_fold) (auto simp: lanes_progress_def)
  moreover from this have ev: "ms_events (rl_state l) = ms_events ms"
    by (metis (no_types, lifting) lanes_progress_def messages_state.select_convs(6) messages_state.surjective
        messages_state.update_convs(3))
  moreover have "ms'\<lparr>ms_events := ms_events ms\<rparr> = rl_state l"
    using ev by (simp add: ms' messages_deposit_event_def)
  ultimately have "lanes_progress C ms (ms'\<lparr>ms_events := ms_events ms\<rparr>) (rl_statuses l)"
    by (simp only:)
  moreover have "ms_events ms' = ms_events ms @ [MessagesReceived (rl_statuses l)]"
    using ev by (simp add: ms' messages_deposit_event_def)
  ultimately show thesis using that by blast
qed

end
