(* ===== verification/Messages_Invariants.thy ===== *)
theory Messages_Invariants
  imports Messages_Delivery
begin

text \<open>
  The messages pallet as a state machine: the effect of sending, confirming and pruning on the
  pallet storage, the relation that collects all its calls, and the invariant of every reachable
  state. The properties of the pallet are stated at the end.
\<close>

section \<open>Outbound lanes of the pallet\<close>

definition outbound_lane_ok :: "('acc, 'r, 'd, 'w) messages_state \<Rightarrow> lane_id \<Rightarrow> bool" where
  "outbound_lane_ok ms lane \<longleftrightarrow>
     outbound_wf (pallet_outbound_lane_data ms lane) \<and>
     outbound_store_ok (pallet_outbound_lane_data ms lane) (outbound_message_data ms lane) \<and>
     latest_generated_nonce (pallet_outbound_lane_data ms lane) < - 1"

lemma outbound_lane_ros:
  "ros_data (outbound_lane C lane ms) = pallet_outbound_lane_data ms lane"
  "ros_message (outbound_lane C lane ms) = outbound_message_data ms lane"
  "ros_lane_id (outbound_lane C lane ms) = lane"
  "ols_data runtime_outbound_storage_ops = ros_data"
  by (simp_all add: outbound_lane_def ros_data_def ros_message_def pallet_outbound_lane_data_def outbound_message_data_def
      runtime_outbound_storage_ops_def fun_eq_iff)

lemma store_outbound_lane_self [simp]: "store_outbound_lane (outbound_lane C lane ms) ms = ms"
  by (simp add: store_outbound_lane_def outbound_lane_def)

lemma store_outbound_lane_data:
  assumes "ros_frame (outbound_lane C lane ms) s"
  shows "pallet_outbound_lane_data (store_outbound_lane s ms) lane' = (if lane' = lane then ros_data s else pallet_outbound_lane_data ms lane')"
    and "outbound_message_data (store_outbound_lane s ms) lane' = (if lane' = lane then ros_message s else outbound_message_data ms lane')"
  using assms
  by (auto simp: ros_frame_def store_outbound_lane_def pallet_outbound_lane_data_def outbound_message_data_def
      outbound_lanes_get_def ros_data_def ros_message_def outbound_lane_def fun_eq_iff)

lemma deposit_event_simps [simp]:
  "pallet_outbound_lane_data (messages_deposit_event e ms) = pallet_outbound_lane_data ms"
  "outbound_message_data (messages_deposit_event e ms) = outbound_message_data ms"
  "pallet_inbound_lane_data (messages_deposit_event e ms) = pallet_inbound_lane_data ms"
  "ms_inbound_lanes (messages_deposit_event e ms) = ms_inbound_lanes ms"
  "ms_owner (messages_deposit_event e ms) = ms_owner ms"
  "ms_operating_mode (messages_deposit_event e ms) = ms_operating_mode ms"
  by (simp_all add: messages_deposit_event_def pallet_outbound_lane_data_def outbound_message_data_def
      pallet_inbound_lane_data_def fun_eq_iff)

lemma store_outbound_lane_frame [simp]:
  "ms_inbound_lanes (store_outbound_lane s ms) = ms_inbound_lanes ms"
  "ms_owner (store_outbound_lane s ms) = ms_owner ms"
  "ms_operating_mode (store_outbound_lane s ms) = ms_operating_mode ms"
  "ms_events (store_outbound_lane s ms) = ms_events ms"
  by (simp_all add: store_outbound_lane_def)

section \<open>Sending\<close>

text \<open>The conditions under which \<open>send_message\<close> accepts a message, in the order of the checks.\<close>

definition send_rejection ::
  "('o, 'acc, 'r, 'proof, 'dproof, 'op, 'p, 'd, 'w, 'x) messages_config \<Rightarrow> 'o \<Rightarrow> lane_id \<Rightarrow> 'op \<Rightarrow> 'x \<Rightarrow>
     ('acc, 'r, 'd, 'w) messages_state \<Rightarrow> messages_error option" where
  "send_rejection C submitter lane payload x ms =
     (if ms_operating_mode ms \<noteq> Basic Normal then Some NotOperatingNormally
      else if lane \<notin> set (mc_active_outbound_lanes C) then Some InactiveOutboundLane
      else if isl (mc_verify_message C payload x) then Some MessageRejectedByChainVerifier
      else if isl (mc_lane_verify_message C submitter lane (pallet_outbound_lane_data ms lane) payload x)
      then Some MessageRejectedByLaneVerifier
      else if unat (mc_maximal_outbound_payload_size C) < length (mc_encode_outbound_payload C payload)
      then Some MessageIsTooLarge
      else None)"

lemma send_message_rejected:
  "send_rejection C submitter lane payload x ms = Some e \<Longrightarrow>
     send_message C submitter lane payload x ms = Some (Inl e)"
  by (auto simp: send_rejection_def send_message_def ensure_normal_operating_mode_def outbound_lane_ros Let_def
      split: if_splits sum.splits)

lemma send_message_accepted:
  assumes "send_rejection C submitter lane payload x ms = None"
  defines "nonce \<equiv> latest_generated_nonce (pallet_outbound_lane_data ms lane) + 1"
  obtains s where
    "lane_send_message runtime_outbound_storage_ops (mc_encode_outbound_payload C payload) (outbound_lane C lane ms) = Some (nonce, s)"
    "send_message C submitter lane payload x ms =
       Some (Inr (\<lparr>sma_nonce = nonce, sma_weight = db_reads_writes (mc_db_weight C) 2 2\<rparr>,
                  messages_deposit_event (MessageAccepted lane nonce) (store_outbound_lane s ms)))"
proof -
  let ?p = "mc_encode_outbound_payload C payload" and ?s = "outbound_lane C lane ms"
  have len: "length ?p \<le> unat (mc_maximal_outbound_payload_size C)"
    using assms(1) by (simp add: send_rejection_def split: if_splits)
  then have "ros_fits ?s ?p" by (simp add: ros_fits_def outbound_lane_def)
  then obtain n s where r: "lane_send_message runtime_outbound_storage_ops ?p ?s = Some (n, s)"
    using runtime_outbound.lane_send_message_total by (metis prod.collapse)
  have n: "n = nonce"
    using runtime_outbound.lane_send_message_effect(1) [OF r] by (simp add: nonce_def outbound_lane_ros)
  have "send_message C submitter lane payload x ms =
       Some (Inr (\<lparr>sma_nonce = nonce, sma_weight = db_reads_writes (mc_db_weight C) 2 2\<rparr>,
                  messages_deposit_event (MessageAccepted lane nonce) (store_outbound_lane s ms)))"
    using assms(1) r n len
    by (auto simp: send_rejection_def send_message_def ensure_normal_operating_mode_def outbound_lane_ros Let_def
        split: if_splits sum.splits)
  then show thesis using that r n by blast
qed

lemma send_message_effect:
  assumes "send_message C submitter lane payload x ms = Some (Inr (a, ms'))"
  shows "send_rejection C submitter lane payload x ms = None"
    and "sma_nonce a = latest_generated_nonce (pallet_outbound_lane_data ms lane) + 1"
    and "pallet_outbound_lane_data ms' = (pallet_outbound_lane_data ms)
      (lane := (pallet_outbound_lane_data ms lane)\<lparr>latest_generated_nonce := sma_nonce a\<rparr>)"
    and "outbound_message_data ms' = (outbound_message_data ms)
      (lane := (outbound_message_data ms lane)(sma_nonce a \<mapsto> mc_encode_outbound_payload C payload))"
    and "ms_inbound_lanes ms' = ms_inbound_lanes ms" "ms_owner ms' = ms_owner ms"
      "ms_operating_mode ms' = ms_operating_mode ms"
      "ms_events ms' = ms_events ms @ [MessageAccepted lane (sma_nonce a)]"
proof -
  show none: "send_rejection C submitter lane payload x ms = None"
    using assms send_message_rejected [of C submitter lane payload x ms] by fastforce
  obtain s where r: "lane_send_message runtime_outbound_storage_ops (mc_encode_outbound_payload C payload)
       (outbound_lane C lane ms) = Some (latest_generated_nonce (pallet_outbound_lane_data ms lane) + 1, s)"
    and m: "send_message C submitter lane payload x ms =
       Some (Inr (\<lparr>sma_nonce = latest_generated_nonce (pallet_outbound_lane_data ms lane) + 1,
                   sma_weight = db_reads_writes (mc_db_weight C) 2 2\<rparr>,
                  messages_deposit_event (MessageAccepted lane (latest_generated_nonce (pallet_outbound_lane_data ms lane) + 1))
                    (store_outbound_lane s ms)))"
    by (rule send_message_accepted [OF none])
  have a: "sma_nonce a = latest_generated_nonce (pallet_outbound_lane_data ms lane) + 1"
    and ms': "ms' = messages_deposit_event (MessageAccepted lane (sma_nonce a)) (store_outbound_lane s ms)"
    using m assms by auto
  then show "sma_nonce a = latest_generated_nonce (pallet_outbound_lane_data ms lane) + 1" by simp
  note e = runtime_outbound.lane_send_message_effect [OF r [folded a], unfolded outbound_lane_ros]
  note f = store_outbound_lane_data [OF lane_send_message_frame [OF r]]
  show "pallet_outbound_lane_data ms' = (pallet_outbound_lane_data ms)
      (lane := (pallet_outbound_lane_data ms lane)\<lparr>latest_generated_nonce := sma_nonce a\<rparr>)"
    by (simp add: ms' f(1) e fun_eq_iff)
  show "outbound_message_data ms' = (outbound_message_data ms)
      (lane := (outbound_message_data ms lane)(sma_nonce a \<mapsto> mc_encode_outbound_payload C payload))"
    by (rule ext) (simp add: ms' f(2) e)
  show "ms_inbound_lanes ms' = ms_inbound_lanes ms" "ms_owner ms' = ms_owner ms"
    "ms_operating_mode ms' = ms_operating_mode ms"
    "ms_events ms' = ms_events ms @ [MessageAccepted lane (sma_nonce a)]"
    by (simp_all add: ms') (simp add: messages_deposit_event_def)
qed

lemma send_message_outbound_ok:
  assumes "send_message C submitter lane payload x ms = Some (Inr (a, ms'))"
    and "sma_nonce a \<noteq> 0" and "sma_nonce a \<noteq> - 1" and ok: "\<And>lane. outbound_lane_ok ms lane"
  shows "outbound_lane_ok ms' lane'"
proof (cases "lane' = lane")
  case True
  note e = send_message_effect [OF assms(1)]
  have n: "unat (sma_nonce a) = Suc (unat (latest_generated_nonce (pallet_outbound_lane_data ms lane)))"
    using e(2) assms(2) by (metis unat_succ_nonzero)
  have "latest_received_nonce (pallet_outbound_lane_data ms lane) \<le> sma_nonce a"
    using ok [of lane] n by (simp add: outbound_lane_ok_def outbound_wf_def word_le_nat_alt)
  then show ?thesis
    using ok [of lane] n True assms(3)
    by (auto simp: outbound_lane_ok_def e(3,4) outbound_wf_def intro: outbound_store_ok_send word_order.not_eq_extremum [THEN iffD1])
next
  case False
  then show ?thesis
    using ok [of lane'] by (simp add: outbound_lane_ok_def send_message_effect(3,4) [OF assms(1)])
qed

section \<open>Delivery confirmations\<close>

text \<open>
  A successful confirmation either brings nothing new and changes nothing, or it confirms exactly
  the nonces after the old latest received nonce up to the delivered one: it records the new nonce,
  emits one event and asks once for the rewards of that range.
\<close>

lemma receive_messages_delivery_proof_effect:
  assumes "receive_messages_delivery_proof C origin proof st ms x = Inr (ms', x')"
  obtains lane ld relayer where
    "\<not> is_halted messages_owned ms" "ensure_signed C origin = Some relayer"
    "mc_verify_messages_delivery_proof C proof x = Inr (lane, ld)"
    "of_nat (length (relayers ld)) = unrewarded_relayer_entries st"
    "last_delivered_nonce ld = last_delivered_nonce_in_state st"
    "ms' = ms \<and> x' = x \<and> last_delivered_nonce ld \<le> latest_received_nonce (pallet_outbound_lane_data ms lane) \<or>
     latest_received_nonce (pallet_outbound_lane_data ms lane) < last_delivered_nonce ld \<and>
     last_delivered_nonce ld \<le> latest_generated_nonce (pallet_outbound_lane_data ms lane) \<and>
     unat (last_delivered_nonce ld) - unat (latest_received_nonce (pallet_outbound_lane_data ms lane)) \<le> unat (total_messages_in_state st) \<and>
     consecutive None (relayers ld) \<and>
     pallet_outbound_lane_data ms' = (pallet_outbound_lane_data ms)
       (lane := (pallet_outbound_lane_data ms lane)\<lparr>latest_received_nonce := last_delivered_nonce ld\<rparr>) \<and>
     outbound_message_data ms' = outbound_message_data ms \<and>
     ms_inbound_lanes ms' = ms_inbound_lanes ms \<and> ms_owner ms' = ms_owner ms \<and>
     ms_operating_mode ms' = ms_operating_mode ms \<and>
     ms_events ms' = ms_events ms @ [MessagesDelivered lane
       \<lparr>dm_begin = latest_received_nonce (pallet_outbound_lane_data ms lane) + 1, dm_end = last_delivered_nonce ld\<rparr>] \<and>
     x' = mc_pay_confirmation_reward C lane (relayers ld) relayer
       (latest_received_nonce (pallet_outbound_lane_data ms lane) + 1, last_delivered_nonce ld) x"
proof -
  from assms obtain relayer lane ld where
      pre: "\<not> is_halted messages_owned ms" "ensure_signed C origin = Some relayer"
        "mc_verify_messages_delivery_proof C proof x = Inr (lane, ld)"
        "of_nat (length (relayers ld)) = unrewarded_relayer_entries st"
        "last_delivered_nonce ld = last_delivered_nonce_in_state st"
    by (auto simp: receive_messages_delivery_proof_def ensure_not_halted_def split: sum.splits option.splits if_splits prod.splits)
  let ?d = "pallet_outbound_lane_data ms lane" and ?n = "last_delivered_nonce ld"
  obtain res s where c: "confirm_delivery runtime_outbound_storage_ops (total_messages_in_state st) ?n (relayers ld)
      (outbound_lane C lane ms) = (res, s)" by fastforce
  note cases = runtime_outbound.confirm_delivery_cases [OF c, unfolded outbound_lane_ros]
  note f = store_outbound_lane_data [OF confirm_delivery_frame [OF c]]
  have res: "res = NoNewConfirmations \<and> ms' = store_outbound_lane s ms \<and> x' = x \<or>
    (\<exists>cm. res = ConfirmedMessages cm \<and>
       ms' = messages_deposit_event (MessagesDelivered lane cm) (store_outbound_lane s ms) \<and>
       x' = mc_pay_confirmation_reward C lane (relayers ld) relayer (dm_begin cm, dm_end cm) x)"
    using assms pre c
    by (auto simp: receive_messages_delivery_proof_def ensure_not_halted_def Let_def
        split: if_splits receival_confirmation_result.splits)
  then show thesis
  proof (elim disjE exE conjE)
    assume "res = NoNewConfirmations" and e: "ms' = store_outbound_lane s ms" "x' = x"
    then have "s = outbound_lane C lane ms \<and> ?n \<le> latest_received_nonce ?d"
      using cases by (auto split: if_splits)
    then show thesis using that [OF pre] e by simp
  next
    fix cm
    assume r: "res = ConfirmedMessages cm"
      and ms': "ms' = messages_deposit_event (MessagesDelivered lane cm) (store_outbound_lane s ms)"
      and x': "x' = mc_pay_confirmation_reward C lane (relayers ld) relayer (dm_begin cm, dm_end cm) x"
    from r cases have *: "latest_received_nonce ?d < ?n" "?n \<le> latest_generated_nonce ?d"
      "?n - latest_received_nonce ?d \<le> total_messages_in_state st" "consecutive None (relayers ld)"
      "cm = \<lparr>dm_begin = latest_received_nonce ?d + 1, dm_end = ?n\<rparr>"
      "ros_data s = ?d\<lparr>latest_received_nonce := ?n\<rparr>" "ros_message s = outbound_message_data ms lane"
      by (auto simp: not_le not_less split: if_splits)
    have "unat (?n - latest_received_nonce ?d) = unat ?n - unat (latest_received_nonce ?d)"
      using *(1) by (intro unat_sub_le) simp
    then have **: "unat ?n - unat (latest_received_nonce ?d) \<le> unat (total_messages_in_state st)"
      using *(3) by (simp add: word_le_nat_alt)
    have "pallet_outbound_lane_data ms' = (pallet_outbound_lane_data ms)(lane := ?d\<lparr>latest_received_nonce := ?n\<rparr>)"
      by (rule ext) (simp add: ms' f *)
    moreover have "outbound_message_data ms' = outbound_message_data ms"
      by (rule ext) (simp add: ms' f *)
    moreover have "ms_events ms' = ms_events ms @ [MessagesDelivered lane cm]"
      by (simp add: ms' messages_deposit_event_def)
    ultimately show thesis using that [OF pre] * ** x' by (simp add: ms')
  qed
qed

lemma receive_messages_delivery_proof_outbound_ok:
  assumes call: "receive_messages_delivery_proof C origin proof st ms x = Inr (ms', x')"
    and ok: "\<And>lane. outbound_lane_ok ms lane"
  shows "outbound_lane_ok ms' lane' \<and> ms_inbound_lanes ms' = ms_inbound_lanes ms"
  using call
proof (cases rule: receive_messages_delivery_proof_effect)
  case (1 lane ld relayer)
  then show ?thesis
    using ok [of lane'] ok [of lane]
      outbound_store_ok_confirm [of "pallet_outbound_lane_data ms lane" "outbound_message_data ms lane" "last_delivered_nonce ld"]
    by (auto simp: outbound_lane_ok_def outbound_wf_def word_less_nat_alt word_le_nat_alt)
qed

section \<open>The idle hook\<close>

text \<open>The documented relation between the database weights: reads and writes are charged per operation.\<close>

definition db_weight_laws :: "'w weight_ops \<Rightarrow> 'w db_weight \<Rightarrow> bool" where
  "db_weight_laws W db \<longleftrightarrow>
     (\<forall>r w. db_reads_writes db r w = w_add W (db_reads db r) (db_writes db w)) \<and>
     db_writes db 2 = w_add W (db_writes db 1) (db_writes db 1) \<and>
     unat (w_ref_time W (db_reads db 1)) + 2 * unat (w_ref_time W (db_writes db 1)) < 2 ^ 64 \<and>
     unat (w_proof_size W (db_reads db 1)) + 2 * unat (w_proof_size W (db_writes db 1)) < 2 ^ 64"

lemma on_idle_cases:
  assumes "on_idle C block rem ms = Some (w, ms')"
  obtains "w = w_zero (mc_weight_ops C)" "ms' = ms"
  | lane s spent where "lane \<in> set (mc_active_outbound_lanes C)"
      "w_all_gte (mc_weight_ops C) rem (db_reads_writes (mc_db_weight C) 1 2)"
      "prune_messages (mc_weight_ops C) runtime_outbound_storage_ops (mc_db_weight C)
         (w_sub (mc_weight_ops C) rem (db_reads (mc_db_weight C) 1)) (outbound_lane C lane ms) = Some (spent, s)"
      "w = w_add (mc_weight_ops C) (db_reads (mc_db_weight C) 1) spent" "ms' = store_outbound_lane s ms"
proof (cases "w_all_gte (mc_weight_ops C) rem (db_reads_writes (mc_db_weight C) 1 2)")
  case False
  then show thesis using assms that(1) by (simp add: on_idle_def Let_def)
next
  case True
  let ?lanes = "mc_active_outbound_lanes C"
  from assms True obtain i spent s where i: "checked_rem block (of_nat (length ?lanes)) = Some i"
    and p: "prune_messages (mc_weight_ops C) runtime_outbound_storage_ops (mc_db_weight C)
         (w_sub (mc_weight_ops C) rem (db_reads (mc_db_weight C) 1)) (outbound_lane C (?lanes ! unat i) ms) = Some (spent, s)"
    and r: "w = w_add (mc_weight_ops C) (db_reads (mc_db_weight C) 1) spent" "ms' = store_outbound_lane s ms"
    by (auto simp: on_idle_def Let_def bind_eq_Some_conv)
  have "unat i < unat (of_nat (length ?lanes) :: u32)"
    using i by (auto simp: checked_rem_def unat_mod intro!: mod_less_divisor split: if_splits)
      (metis gr_zeroI unat_eq_zero)
  also have "\<dots> \<le> length ?lanes" by (simp add: unat_of_nat take_bit_nat_less_eq_self)
  finally have "?lanes ! unat i \<in> set ?lanes" by simp
  then show thesis using that(2) True p r by blast
qed

lemma on_idle_outbound_ok:
  assumes idle: "on_idle C block rem ms = Some (w, ms')" and ok: "\<And>lane. outbound_lane_ok ms lane"
  shows "outbound_lane_ok ms' lane' \<and> ms_inbound_lanes ms' = ms_inbound_lanes ms \<and>
    pallet_outbound_lane_data ms' lane' = (pallet_outbound_lane_data ms lane')
       \<lparr>oldest_unpruned_nonce := oldest_unpruned_nonce (pallet_outbound_lane_data ms' lane')\<rparr> \<and>
    (\<forall>n. latest_received_nonce (pallet_outbound_lane_data ms lane') < n \<longrightarrow>
      outbound_message_data ms' lane' n = outbound_message_data ms lane' n)"
  using idle
proof (cases rule: on_idle_cases)
  case 1
  then show ?thesis using ok by simp
next
  case (2 lane s spent)
  note p = 2(3) and ms' = 2(5)
  let ?d = "pallet_outbound_lane_data ms lane"
  note f = store_outbound_lane_data [OF prune_messages_frame [OF p]]
  have lt: "latest_received_nonce (ols_data runtime_outbound_storage_ops (outbound_lane C lane ms)) < - 1"
    using ok [of lane] by (auto simp: outbound_lane_ok_def outbound_wf_def outbound_lane_ros intro: le_less_trans)
  have wf: "outbound_wf ?d" and st: "outbound_store_ok ?d (outbound_message_data ms lane)"
    using ok [of lane] by (auto simp: outbound_lane_ok_def)
  note pm = runtime_outbound.prune_messages_ok [OF lt p, unfolded outbound_lane_ros, OF wf st]
  have "ros_data s = ?d\<lparr>oldest_unpruned_nonce := oldest_unpruned_nonce (ros_data s)\<rparr>"
    using pm(3,4) by simp
  then show ?thesis
    using pm ok [of lane'] by (auto simp: ms' f outbound_lane_ok_def)
qed

lemma on_idle_weight:
  assumes W: "weight_laws (mc_weight_ops C)" and db: "db_weight_laws (mc_weight_ops C) (mc_db_weight C)"
    and idle: "on_idle C block rem ms = Some (w, ms')" and ok: "\<And>lane. outbound_lane_ok ms lane"
  shows "weight_le (mc_weight_ops C) w rem"
  using idle
proof (elim on_idle_cases)
  assume "w = w_zero (mc_weight_ops C)"
  then show ?thesis using W by (simp add: weight_le_def weight_simps)
next
  fix lane s spent
  let ?W = "mc_weight_ops C" and ?r = "db_reads (mc_db_weight C) 1" and ?ww = "db_writes (mc_db_weight C) 1"
  assume gte: "w_all_gte ?W rem (db_reads_writes (mc_db_weight C) 1 2)"
    and p: "prune_messages ?W runtime_outbound_storage_ops (mc_db_weight C) (w_sub ?W rem ?r) (outbound_lane C lane ms) = Some (spent, s)"
    and w: "w = w_add ?W ?r spent"
  have lt: "latest_received_nonce (ols_data runtime_outbound_storage_ops (outbound_lane C lane ms)) < - 1"
    using ok [of lane] by (auto simp: outbound_lane_ok_def outbound_wf_def outbound_lane_ros intro: le_less_trans)
  have "weight_le ?W spent (w_sub ?W rem ?r)"
    using db by (intro prune_messages_weight [OF W _ _ lt p]) (auto simp: db_weight_laws_def)
  then have sp: "w_ref_time ?W spent \<le> w_ref_time ?W rem - w_ref_time ?W ?r"
    "w_proof_size ?W spent \<le> w_proof_size ?W rem - w_proof_size ?W ?r"
    using W by (simp_all add: weight_le_def weight_simps)
  have "unat (w_ref_time ?W ?r + 2 * w_ref_time ?W ?ww) = unat (w_ref_time ?W ?r) + 2 * unat (w_ref_time ?W ?ww)"
    "unat (w_proof_size ?W ?r + 2 * w_proof_size ?W ?ww) = unat (w_proof_size ?W ?r) + 2 * unat (w_proof_size ?W ?ww)"
    using db by (auto simp: db_weight_laws_def unat_double unat_add_lt)
  moreover have "w_ref_time ?W ?r + 2 * w_ref_time ?W ?ww \<le> w_ref_time ?W rem"
    "w_proof_size ?W ?r + 2 * w_proof_size ?W ?ww \<le> w_proof_size ?W rem"
    using gte db W by (simp_all add: db_weight_laws_def weight_simps)
  ultimately have r: "w_ref_time ?W ?r \<le> w_ref_time ?W rem" "w_proof_size ?W ?r \<le> w_proof_size ?W rem"
    by (simp_all add: word_le_nat_alt)
  show ?thesis
    using W word_add_le_of_le_sub [OF r(1) sp(1)] word_add_le_of_le_sub [OF r(2) sp(2)]
    by (simp add: w weight_le_def weight_simps)
qed

section \<open>The pallet as a state machine\<close>

text \<open>
  The steps are the calls and hooks of the pallet that succeed, and changes of the rest of the
  chain. A lane sends fewer than \<open>2 ^ 64 - 1\<close> messages: the step for sending is guarded by that.
\<close>

inductive messages_step ::
  "('o, 'acc, 'r, 'proof, 'dproof, 'op, 'p, 'd, 'w, 'x) messages_config \<Rightarrow>
     ('acc, 'r, 'd, 'w) messages_state \<times> 'x \<Rightarrow> ('acc, 'r, 'd, 'w) messages_state \<times> 'x \<Rightarrow> bool"
  for C where
  step_send: "send_message C origin lane payload x ms = Some (Inr (a, ms')) \<Longrightarrow> sma_nonce a \<noteq> 0 \<Longrightarrow>
     sma_nonce a \<noteq> - 1 \<Longrightarrow> messages_step C (ms, x) (ms', x)"
| step_receive: "receive_messages_proof C origin rb proof count dw ms x = Inr (w, ms', x') \<Longrightarrow>
     messages_step C (ms, x) (ms', x')"
| step_confirm: "receive_messages_delivery_proof C origin dproof st ms x = Inr (ms', x') \<Longrightarrow>
     messages_step C (ms, x) (ms', x')"
| step_idle: "on_idle C block rem ms = Some (w, ms') \<Longrightarrow> messages_step C (ms, x) (ms', x)"
| step_set_owner: "messages_set_owner C origin owner ms = Inr ms' \<Longrightarrow> messages_step C (ms, x) (ms', x)"
| step_set_mode: "messages_set_operating_mode C origin mode ms = Inr ms' \<Longrightarrow> messages_step C (ms, x) (ms', x)"
| step_world: "messages_step C (ms, x) (ms, x')"

definition messages_inv ::
  "('o, 'acc, 'r, 'proof, 'dproof, 'op, 'p, 'd, 'w, 'x) messages_config \<Rightarrow> ('acc, 'r, 'd, 'w) messages_state \<Rightarrow> bool" where
  "messages_inv C ms \<longleftrightarrow> inbound_lanes_ok C (ms_inbound_lanes ms) \<and> (\<forall>lane. outbound_lane_ok ms lane)"

definition config_valid ::
  "('o, 'acc, 'r, 'proof, 'dproof, 'op, 'p, 'd, 'w, 'x) messages_config \<Rightarrow> bool" where
  "config_valid C \<longleftrightarrow> dispatch_weight_keeps_key C \<and>
     (\<forall>proof count x proved. mc_verify_messages_proof C proof count x = Inr proved \<longrightarrow> proved_messages_valid proved)"

lemma messages_inv_empty: "messages_inv C empty_messages_state"
  by (auto simp: messages_inv_def inbound_lanes_ok_empty empty_messages_state_def outbound_lane_ok_def
      pallet_outbound_lane_data_def outbound_message_data_def outbound_lanes_get_def outbound_wf_default fun_eq_iff
      default_outbound_lane_data_def outbound_store_ok_iff outbound_wf_def word_less_nat_alt)

lemma messages_inv_send:
  assumes "send_message C origin lane payload x ms = Some (Inr (a, ms'))" and "sma_nonce a \<noteq> 0"
    and "sma_nonce a \<noteq> - 1" and "messages_inv C ms"
  shows "messages_inv C ms'"
  using assms(4) send_message_outbound_ok [OF assms(1-3)] send_message_effect(5) [OF assms(1)]
  by (simp add: messages_inv_def)

lemma messages_inv_receive:
  assumes call: "receive_messages_proof C origin rb proof count dw ms x = Inr (w, ms', x')"
    and "config_valid C" and inv: "messages_inv C ms"
  shows "messages_inv C ms'"
proof -
  have in_ok: "inbound_lanes_ok C (ms_inbound_lanes ms)" using inv by (simp add: messages_inv_def)
  have key: "dispatch_weight_keeps_key C"
    and valid: "\<And>proved. mc_verify_messages_proof C proof count x = Inr proved \<Longrightarrow> proved_messages_valid proved"
    using \<open>config_valid C\<close> by (auto simp: config_valid_def)
  obtain statuses where "lanes_progress C ms (ms'\<lparr>ms_events := ms_events ms\<rparr>) statuses"
    using receive_messages_proof_progress [OF call in_ok key valid] by blast
  then have eq: "ms'\<lparr>ms_events := ms_events ms\<rparr> = ms\<lparr>ms_inbound_lanes := ms_inbound_lanes ms'\<rparr>"
    and ok: "inbound_lanes_ok C (ms_inbound_lanes ms')"
    by (simp_all add: lanes_progress_def)
  have "ms_outbound_lanes ms' = ms_outbound_lanes ms" "ms_outbound_messages ms' = ms_outbound_messages ms"
    using arg_cong [OF eq, of ms_outbound_lanes] arg_cong [OF eq, of ms_outbound_messages] by simp_all
  then have "outbound_lane_ok ms' lane \<longleftrightarrow> outbound_lane_ok ms lane" for lane
    by (simp add: outbound_lane_ok_def pallet_outbound_lane_data_def outbound_message_data_def [abs_def])
  with ok inv show ?thesis by (simp add: messages_inv_def)
qed

lemma messages_inv_confirm:
  assumes "receive_messages_delivery_proof C origin proof st ms x = Inr (ms', x')" and "messages_inv C ms"
  shows "messages_inv C ms'"
  using assms(2) receive_messages_delivery_proof_outbound_ok [OF assms(1)] by (simp add: messages_inv_def)

lemma messages_inv_idle:
  assumes "on_idle C block rem ms = Some (w, ms')" and "messages_inv C ms"
  shows "messages_inv C ms'"
  using assms(2) on_idle_outbound_ok [OF assms(1)] by (simp add: messages_inv_def)

lemma messages_inv_admin:
  assumes "messages_inv C ms"
  shows "messages_set_owner C' origin owner ms = Inr ms' \<Longrightarrow> messages_inv C ms'"
    and "messages_set_operating_mode C' origin mode ms = Inr ms' \<Longrightarrow> messages_inv C ms'"
  using assms
  by (auto simp: messages_set_owner_def messages_module.set_owner_eq messages_set_operating_mode_def
      messages_module.set_operating_mode_eq messages_inv_def outbound_lane_ok_def
      pallet_outbound_lane_data_def outbound_message_data_def [abs_def] split: if_splits)

lemmas messages_inv_intros = messages_inv_send messages_inv_receive messages_inv_confirm messages_inv_idle messages_inv_admin

lemma messages_inv_step:
  assumes "messages_step C c c'" and "config_valid C" and "messages_inv C (fst c)"
  shows "messages_inv C (fst c')"
  using assms by (cases rule: messages_step.cases) (auto intro: messages_inv_intros)

lemma messages_inv_reachable:
  assumes "(messages_step C)\<^sup>*\<^sup>* c c'" and "config_valid C" and "messages_inv C (fst c)"
  shows "messages_inv C (fst c')"
  using assms by (induction rule: rtranclp_induct) (auto intro: messages_inv_step)

end
