(* ===== verification/Messages_Properties.thy ===== *)
theory Messages_Properties
  imports Messages_Invariants
begin

text \<open>
  The properties of the messages pallet and of its lanes, each with a witness. The witnesses use
  \<open>sample_messages_config\<close>: weights are pairs of numbers, accounts are numbers, a proof is the list
  of messages it proves, dispatch always succeeds and uses the whole weight, and payments are
  appended to a log, which is the rest of the world.
\<close>

definition sample_config ::
  "(lane_id \<Rightarrow> nat unrewarded_relayer list \<Rightarrow> nat \<Rightarrow> message_nonce \<times> message_nonce \<Rightarrow> 'x \<Rightarrow> 'x) \<Rightarrow> (nat \<Rightarrow> 'x \<Rightarrow> 'x) \<Rightarrow>
   (nat \<Rightarrow> u8 list dispatch_message \<Rightarrow> 'x \<Rightarrow> (unit, u64 \<times> u64) message_dispatch_result \<times> 'x) \<Rightarrow>
   ('proof \<Rightarrow> u32 \<Rightarrow> 'x \<Rightarrow> string + message proved_messages) \<Rightarrow>
   ('dproof \<Rightarrow> 'x \<Rightarrow> string + (lane_id \<times> nat inbound_lane_data)) \<Rightarrow>
   (nat option, nat, nat, 'proof, 'dproof, u8 list, u8 list, unit, u64 \<times> u64, 'x) messages_config" where
  "sample_config pay pay_delivery dispatch verify verify_delivery = \<lparr>
     origin_into = (\<lambda>orig. Some (case orig of None \<Rightarrow> Root | Some a \<Rightarrow> Signed a)),
     ensure_signed = (\<lambda>orig. orig),
     mc_weight_ops = pair_weight_ops,
     mc_db_weight = \<lparr>db_reads = (\<lambda>n. (n, 0)), db_writes = (\<lambda>n. (2 * n, 0)), db_reads_writes = (\<lambda>r w. (r + 2 * w, 0))\<rparr>,
     mc_weight_info = \<lparr>receive_single_message_proof = (100, 100), receive_two_messages_proof = (100, 100),
       receive_single_message_proof_with_outbound_lane_state = (100, 100),
       receive_single_message_proof_1_kb = (100, 100), receive_single_message_proof_16_kb = (100, 100),
       receive_delivery_proof_for_single_message = (50, 50),
       receive_delivery_proof_for_two_messages_by_single_relayer = (50, 50),
       receive_delivery_proof_for_two_messages_by_two_relayers = (50, 50),
       expected_extra_storage_proof_size = 1024\<rparr>,
     mc_active_outbound_lanes = [LaneId 0 0 0 1],
     mc_max_unrewarded_relayer_entries_at_inbound_lane = 4,
     mc_max_unconfirmed_messages_at_inbound_lane = 8,
     mc_maximal_outbound_payload_size = 3,
     mc_nonce_max_encoded_len = 8,
     mc_relayer_max_encoded_len = 32,
     mc_messages_proof_size = (\<lambda>_. 0),
     mc_encode_outbound_payload = (\<lambda>p. p),
     mc_decode_inbound_payload = (\<lambda>p. p),
     mc_verify_message = (\<lambda>_ _. Inr ()),
     mc_verify_messages_delivery_proof = verify_delivery,
     mc_lane_verify_message = (\<lambda>_ _ _ _ _. Inr ()),
     mc_verify_messages_proof = verify,
     mc_dispatch_weight = (\<lambda>m. ((10, 0), m)),
     mc_dispatch = dispatch,
     mc_pay_delivery_reward = (\<lambda>r t v w. pay_delivery r),
     mc_pay_confirmation_reward = pay\<rparr>"

text \<open>A verifier that accepts valid messages as they are, and the configuration with it.\<close>

definition sample_verify :: "message proved_messages \<Rightarrow> u32 \<Rightarrow> 'x \<Rightarrow> string + message proved_messages" where
  "sample_verify p count x = (if proved_messages_valid p then Inr p else Inl ''invalid'')"

definition sample_messages_config ::
  "(nat option, nat, nat, message proved_messages, lane_id \<times> nat inbound_lane_data, u8 list, u8 list, unit,
    u64 \<times> u64, nat list) messages_config" where
  "sample_messages_config = sample_config (\<lambda>l rs r rng x. x @ [r]) (\<lambda>r x. x @ [r])
     (\<lambda>_ m x. (\<lparr>unspent_weight = (0, 0), dispatch_level_result = ()\<rparr>, x)) sample_verify (\<lambda>p _. Inr p)"

definition sample_message :: "message_nonce \<Rightarrow> message" where
  "sample_message n = \<lparr>msg_key = \<lparr>mk_lane_id = LaneId 0 0 0 1, mk_nonce = n\<rparr>, msg_payload = []\<rparr>"

definition sample_proof :: "message_nonce list \<Rightarrow> message proved_messages" where
  "sample_proof ns = [(LaneId 0 0 0 1, \<lparr>pm_lane_state = None, pm_messages = map sample_message ns\<rparr>)]"

lemma sample_config_valid: "config_valid sample_messages_config"
  by (auto simp: config_valid_def dispatch_weight_keeps_key_def sample_messages_config_def sample_config_def sample_verify_def split: if_splits)

text \<open>The definitions that evaluate a call on the sample configuration.\<close>

lemmas messages_eval =
  sample_messages_config_def sample_config_def sample_verify_def sample_proof_def sample_message_def empty_messages_state_def pair_weight_ops_def
  receive_messages_proof_def ensure_not_halted_def is_halted_def basic_is_halted_def
  verify_and_decode_messages_proof_def proved_messages_valid_def btree_wf_def dispatch_message_from_def
  dispatch_message_data_from_def receive_messages_proof_weight_def receive_messages_proof_overhead_def
  receive_messages_proof_outbound_lane_state_overhead_def receive_messages_proof_messages_overhead_def
  storage_proof_size_overhead_def receive_lane_messages_def inbound_lane_def store_inbound_lane_def
  extra_proof_size_bytes_def stored_inbound_lane_data_max_encoded_len_def encoded_size_hint_def
  ris_data_def ris_set_data_def inbound_lanes_get_def default_inbound_lane_data_def receive_one_message_def
  receive_message_def runtime_inbound_storage_ops_def last_delivered_nonce_def push_delivered_def
  delivered_messages_new_def note_dispatched_message_def received_messages_new_def received_messages_push_def
  push_skipped_for_not_enough_weight_def messages_deposit_event_def pallet_inbound_lane_data_def Let_def
  saturating_add_def saturating_sub_def saturating_mul_def checked_add_def checked_mul_def
  word_le_nat_alt word_less_nat_alt

lemma sample_receive:
  "\<exists>ms. receive_messages_proof sample_messages_config (Some 1) (5 :: nat) (sample_proof [1, 2]) 2 (20, 0)
     empty_messages_state [] = Inr ((120, 0), ms, [1])"
  by (simp add: messages_eval)

section \<open>Reachable states\<close>



section \<open>Receiving messages\<close>

text \<open>
  C2: a delivery transaction delivers in order and exactly once. For every lane that the
  transaction reports on, the dispatched nonces are exactly the nonces between the last delivered
  nonce of the lane before and after the call, in increasing order without gaps; lanes that are
  not reported on are unchanged.
\<close>

theorem receive_messages_in_order:
  assumes "receive_messages_proof C origin rb proof count dw ms x = Inr (w, ms', x')"
    and "inbound_lanes_ok C (ms_inbound_lanes ms)" and "config_valid C"
  shows "\<exists>statuses. ms_events ms' = ms_events ms @ [MessagesReceived statuses] \<and>
    (\<forall>st \<in> set statuses. map unat (dispatched_nonces st) =
       [Suc (unat (last_delivered_nonce (pallet_inbound_lane_data ms (rm_lane st))))..<
        Suc (unat (last_delivered_nonce (pallet_inbound_lane_data ms' (rm_lane st))))]) \<and>
    (\<forall>lane. lane \<notin> rm_lane ` set statuses \<longrightarrow> pallet_inbound_lane_data ms' lane = pallet_inbound_lane_data ms lane) \<and>
    inbound_lanes_ok C (ms_inbound_lanes ms')"
proof -
  have key: "dispatch_weight_keeps_key C"
    and valid: "\<And>proved. mc_verify_messages_proof C proof count x = Inr proved \<Longrightarrow> proved_messages_valid proved"
    using assms(3) by (auto simp: config_valid_def)
  obtain statuses where "ms_events ms' = ms_events ms @ [MessagesReceived statuses]"
    "lanes_progress C ms (ms'\<lparr>ms_events := ms_events ms\<rparr>) statuses"
    by (rule receive_messages_proof_progress [OF assms(1,2) key valid])
  then show ?thesis
    by (intro exI [of _ statuses])
      (auto simp: lanes_progress_def pallet_inbound_lane_data_def inbound_lanes_get_def simp del: upt_Suc)
qed

theorem receive_messages_in_order_witness:
  "\<exists>ms'. receive_messages_proof sample_messages_config (Some 1) (5 :: nat) (sample_proof [1, 2]) 2 (20, 0)
      empty_messages_state [] = Inr ((120, 0), ms', [1]) \<and> inbound_lanes_ok sample_messages_config (ms_inbound_lanes ms')"
proof -
  obtain ms where ms: "receive_messages_proof sample_messages_config (Some 1) (5 :: nat) (sample_proof [1, 2]) 2 (20, 0)
     empty_messages_state [] = Inr ((120, 0), ms, [1])"
    using sample_receive by blast
  have "inbound_lanes_ok sample_messages_config (ms_inbound_lanes (empty_messages_state :: (nat, nat, unit, u64 \<times> u64) messages_state))"
    by (simp add: empty_messages_state_def inbound_lanes_ok_empty)
  from receive_messages_in_order [OF ms this sample_config_valid] ms show ?thesis by blast
qed

text \<open>
  C33: the weight that a delivery transaction reports as used never exceeds the weight it declared,
  in either component.
\<close>

theorem receive_messages_weight_bound:
  assumes "weight_laws (mc_weight_ops C)"
    and "receive_messages_proof C origin rb proof count dw ms x = Inr (w, ms', x')"
  shows "weight_le (mc_weight_ops C) w
    (receive_messages_proof_weight (mc_weight_ops C) (mc_weight_info C) (mc_messages_proof_size C proof) count dw)"
  using assms(2)
proof (cases rule: receive_messages_proof_Inr)
  case (1 relayer messages l)
  then show ?thesis
    using fold_receive_lane_weights [OF assms(1), of rb relayer messages] by (metis receive_lanes_vars.select_convs(6))
qed

theorem receive_messages_weight_bound_witness:
  "weight_le pair_weight_ops (120, 0)
    (receive_messages_proof_weight pair_weight_ops (mc_weight_info sample_messages_config) 0 2 (20, 0))"
proof -
  obtain ms where ms: "receive_messages_proof sample_messages_config (Some 1) (5 :: nat) (sample_proof [1, 2]) 2 (20, 0)
     empty_messages_state [] = Inr ((120, 0), ms, [1])"
    using sample_receive by blast
  have W: "weight_laws (mc_weight_ops sample_messages_config)"
    by (simp add: sample_messages_config_def sample_config_def sample_verify_def weight_laws_pair)
  show ?thesis
    using receive_messages_weight_bound [OF W ms] by (simp add: sample_messages_config_def sample_config_def sample_verify_def)
qed

text \<open>
  The refund of a delivery transaction is not bounded by its dispatch weight. Messages that a
  lane rejects return their dispatch weight to the relayer without consuming the declared dispatch
  weight, so several rejected messages return it several times. Here the base cost is 100 and the
  declared dispatch weight 10; with the two rejected messages 7 and 8 of weight 10 each the call
  reports 90, less than the base cost alone.
\<close>

lemma rejected_messages_refund_exceeds_dispatch_weight:
  "\<exists>ms. receive_messages_proof sample_messages_config (Some 1) (5 :: nat) (sample_proof [7, 8]) 2 (10, 0)
      empty_messages_state [] = Inr ((90, 0), ms, [1]) \<and>
    w_ref_time pair_weight_ops
      (receive_messages_proof_weight pair_weight_ops (mc_weight_info sample_messages_config) 0 2 (0, 0)) = 100"
  by (simp add: messages_eval)

section \<open>Sending messages\<close>

text \<open>
  C34: \<open>send_message\<close> never panics. It reports the first failing check, in the order of the code, and
  otherwise assigns the next nonce of the lane, stores the encoded payload under it, and changes
  nothing else of any lane.
\<close>

theorem send_message_total:
  "(\<exists>e. send_rejection C submitter lane payload x ms = Some e \<and>
        send_message C submitter lane payload x ms = Some (Inl e)) \<or>
   (\<exists>a ms'. send_rejection C submitter lane payload x ms = None \<and>
        send_message C submitter lane payload x ms = Some (Inr (a, ms')) \<and>
        sma_nonce a = latest_generated_nonce (pallet_outbound_lane_data ms lane) + 1 \<and>
        pallet_outbound_lane_data ms' = (pallet_outbound_lane_data ms)
          (lane := (pallet_outbound_lane_data ms lane)\<lparr>latest_generated_nonce := sma_nonce a\<rparr>) \<and>
        outbound_message_data ms' = (outbound_message_data ms)
          (lane := (outbound_message_data ms lane)(sma_nonce a \<mapsto> mc_encode_outbound_payload C payload)) \<and>
        ms_inbound_lanes ms' = ms_inbound_lanes ms \<and>
        ms_events ms' = ms_events ms @ [MessageAccepted lane (sma_nonce a)])"
proof (cases "send_rejection C submitter lane payload x ms")
  case None
  obtain a ms' where r: "send_message C submitter lane payload x ms = Some (Inr (a, ms'))"
    by (rule send_message_accepted [OF None])
  show ?thesis
    by (intro disjI2 exI conjI) (rule None r send_message_effect [OF r])+
next
  case (Some e)
  then show ?thesis using send_message_rejected [OF Some] by simp
qed

text \<open>
  When the pallet is halted, neither messages nor delivery confirmations nor new outbound
  messages are accepted; when it only rejects outbound messages, sending fails as well.
\<close>

lemma halted_pallet_rejects:
  "(ms_operating_mode ms \<noteq> Basic Normal \<longrightarrow>
      send_message C origin lane payload x ms = Some (Inl NotOperatingNormally)) \<and>
   (ms_operating_mode ms = Basic Halted \<longrightarrow>
      receive_messages_proof C origin' rb proof count dw ms x = Inl (ModuleError (MessagesBridgeModule OwnedHalted)) \<and>
      receive_messages_delivery_proof C origin' dproof st ms x = Inl (ModuleError (MessagesBridgeModule OwnedHalted)))"
  by (simp add: send_message_def ensure_normal_operating_mode_def receive_messages_proof_def
      receive_messages_delivery_proof_def ensure_not_halted_def is_halted_def basic_is_halted_def)

section \<open>Confirming deliveries\<close>

text \<open>
  C9: a successful delivery confirmation either brings no new confirmation and changes nothing, or
  it confirms exactly the nonces from the one after the latest received nonce up to the last nonce
  that the proof says was delivered: the lane records that nonce, one event is emitted, and the
  rewards for exactly that range are requested once, for a relayers queue whose entries are
  consecutive and for no more messages than declared.
\<close>

theorem delivery_confirmation_exact:
  assumes "receive_messages_delivery_proof C origin proof st ms x = Inr (ms', x')"
  shows "\<exists>lane ld relayer. mc_verify_messages_delivery_proof C proof x = Inr (lane, ld) \<and>
    (ms' = ms \<and> x' = x \<and> last_delivered_nonce ld \<le> latest_received_nonce (pallet_outbound_lane_data ms lane) \<or>
     latest_received_nonce (pallet_outbound_lane_data ms lane) < last_delivered_nonce ld \<and>
     last_delivered_nonce ld \<le> latest_generated_nonce (pallet_outbound_lane_data ms lane) \<and>
     unat (last_delivered_nonce ld) - unat (latest_received_nonce (pallet_outbound_lane_data ms lane))
       \<le> unat (total_messages_in_state st) \<and>
     consecutive None (relayers ld) \<and>
     pallet_outbound_lane_data ms' = (pallet_outbound_lane_data ms)
       (lane := (pallet_outbound_lane_data ms lane)\<lparr>latest_received_nonce := last_delivered_nonce ld\<rparr>) \<and>
     outbound_message_data ms' = outbound_message_data ms \<and>
     ms_events ms' = ms_events ms @ [MessagesDelivered lane
       \<lparr>dm_begin = latest_received_nonce (pallet_outbound_lane_data ms lane) + 1, dm_end = last_delivered_nonce ld\<rparr>] \<and>
     x' = mc_pay_confirmation_reward C lane (relayers ld) relayer
       (latest_received_nonce (pallet_outbound_lane_data ms lane) + 1, last_delivered_nonce ld) x)"
  using assms by (rule receive_messages_delivery_proof_effect) blast

definition sample_outbound_state :: "(nat, nat, unit, u64 \<times> u64) messages_state" where
  "sample_outbound_state = empty_messages_state\<lparr>ms_outbound_lanes :=
     [LaneId 0 0 0 1 \<mapsto> \<lparr>oldest_unpruned_nonce = 1, latest_received_nonce = 1, latest_generated_nonce = 3\<rparr>]\<rparr>"

lemmas delivery_eval = messages_eval receive_messages_delivery_proof_def total_unrewarded_messages_def
  checked_sub_def outbound_lane_def confirm_delivery_def runtime_outbound_storage_ops_def ros_data_def
  ros_set_data_def outbound_lanes_get_def ensure_unrewarded_relayers_are_correct_def store_outbound_lane_def
  pallet_outbound_lane_data_def sample_outbound_state_def

theorem delivery_confirmation_exact_witness:
  "\<exists>ms' (ld :: nat inbound_lane_data). receive_messages_delivery_proof sample_messages_config (Some 1)
       (LaneId 0 0 0 1, \<lparr>relayers = [\<lparr>ur_relayer = 7, ur_messages = \<lparr>dm_begin = 2, dm_end = 3\<rparr>\<rparr>], last_confirmed_nonce = 1\<rparr>)
       \<lparr>unrewarded_relayer_entries = 1, messages_in_oldest_entry = 2, total_messages_in_state = 2,
        last_delivered_nonce_in_state = 3\<rparr> sample_outbound_state [] = Inr (ms', [1]) \<and>
     consecutive None (relayers ld) \<and> last_delivered_nonce ld \<noteq> 0"
proof -
  obtain ms' where r: "receive_messages_delivery_proof sample_messages_config (Some 1)
       (LaneId 0 0 0 1, \<lparr>relayers = [\<lparr>ur_relayer = 7, ur_messages = \<lparr>dm_begin = 2, dm_end = 3\<rparr>\<rparr>], last_confirmed_nonce = 1\<rparr>)
       \<lparr>unrewarded_relayer_entries = 1, messages_in_oldest_entry = 2, total_messages_in_state = 2,
        last_delivered_nonce_in_state = 3\<rparr> sample_outbound_state [] = Inr (ms', [1])"
    by (simp add: delivery_eval)
  obtain lane ld where "latest_received_nonce (pallet_outbound_lane_data sample_outbound_state lane) < last_delivered_nonce (ld :: nat inbound_lane_data)"
    "consecutive None (relayers ld)"
    using delivery_confirmation_exact [OF r] by auto
  then show ?thesis using r by (intro exI [of _ ms'] exI [of _ ld] conjI) auto
qed

section \<open>Pruning\<close>

text \<open>
  C35: the idle hook of a reachable state uses no more weight than it is given, never removes a
  message whose delivery is not confirmed, and changes no lane state but the pruning position.
\<close>

theorem on_idle_safe:
  assumes "weight_laws (mc_weight_ops C)" and "db_weight_laws (mc_weight_ops C) (mc_db_weight C)"
    and "messages_inv C ms" and "on_idle C block remaining ms = Some (w, ms')"
  shows "weight_le (mc_weight_ops C) w remaining \<and>
    pallet_outbound_lane_data ms' lane = (pallet_outbound_lane_data ms lane)
       \<lparr>oldest_unpruned_nonce := oldest_unpruned_nonce (pallet_outbound_lane_data ms' lane)\<rparr> \<and>
    (\<forall>n. latest_received_nonce (pallet_outbound_lane_data ms lane) < n \<longrightarrow>
       outbound_message_data ms' lane n = outbound_message_data ms lane n)"
proof -
  have ok: "outbound_lane_ok ms lane" for lane using assms(3) by (simp add: messages_inv_def)
  show ?thesis
    using on_idle_weight [OF assms(1,2,4) ok] on_idle_outbound_ok [OF assms(4) ok] by blast
qed

theorem on_idle_safe_witness:
  "\<exists>w ms'. on_idle sample_messages_config 0 (100, 0) (empty_messages_state :: (nat, nat, unit, u64 \<times> u64) messages_state) = Some (w, ms') \<and>
     weight_le pair_weight_ops w (100, 0)"
proof -
  have W: "weight_laws (mc_weight_ops sample_messages_config)"
    by (simp add: sample_messages_config_def sample_config_def sample_verify_def weight_laws_pair)
  have db: "db_weight_laws (mc_weight_ops sample_messages_config) (mc_db_weight sample_messages_config)"
    by (simp add: sample_messages_config_def sample_config_def sample_verify_def db_weight_laws_def pair_weight_ops_def)
  obtain w ms' where r: "on_idle sample_messages_config 0 (100, 0)
      (empty_messages_state :: (nat, nat, unit, u64 \<times> u64) messages_state) = Some (w, ms')"
    by (simp add: on_idle_def delivery_eval checked_rem_def prune_messages_def prune_loop.simps
        default_outbound_lane_data_def)
  have "weight_le pair_weight_ops w (100, 0)"
    using on_idle_safe [OF W db messages_inv_empty r] by (simp add: sample_messages_config_def sample_config_def sample_verify_def)
  with r show ?thesis by blast
qed

text \<open>
  C36: the idle hook returns. In a state that satisfies the invariant of the pallet, with at least one
  active lane, the remainder by the number of lanes is defined and the pruning loop ends.
\<close>

theorem on_idle_returns:
  assumes "messages_inv C ms" and "mc_active_outbound_lanes C \<noteq> []"
    and "length (mc_active_outbound_lanes C) < 2 ^ 32"
  shows "\<exists>w ms'. on_idle C block remaining ms = Some (w, ms')"
proof (cases "w_all_gte (mc_weight_ops C) remaining (db_reads_writes (mc_db_weight C) 1 2)")
  case True
  let ?n = "of_nat (length (mc_active_outbound_lanes C)) :: u32"
  have "unat ?n = length (mc_active_outbound_lanes C)" using assms(3) by (simp add: unat_of_nat_lt)
  then have "?n \<noteq> 0" using assms(2) by (metis length_0_conv unat_0)
  then have i: "checked_rem block ?n = Some (block mod ?n)" by (simp add: checked_rem_def)
  let ?lane = "mc_active_outbound_lanes C ! unat (block mod ?n)"
  have "outbound_lane_ok ms ?lane" using assms(1) by (simp add: messages_inv_def)
  then have "latest_received_nonce (ols_data runtime_outbound_storage_ops (outbound_lane C ?lane ms)) < - 1"
    by (auto simp: outbound_lane_ok_def outbound_wf_def outbound_lane_ros intro: le_less_trans)
  from runtime_outbound.prune_messages_effect [OF this, of "mc_weight_ops C" "mc_db_weight C"
      "w_sub (mc_weight_ops C) remaining (db_reads (mc_db_weight C) 1)"]
  obtain spent s where "prune_messages (mc_weight_ops C) runtime_outbound_storage_ops (mc_db_weight C)
      (w_sub (mc_weight_ops C) remaining (db_reads (mc_db_weight C) 1)) (outbound_lane C ?lane ms) = Some (spent, s)"
    by blast
  with True i show ?thesis by (simp add: on_idle_def Let_def)
qed (simp add: on_idle_def Let_def)

theorem on_idle_returns_witness:
  "\<exists>w ms'. on_idle sample_messages_config 7 (100, 0)
     (empty_messages_state :: (nat, nat, unit, u64 \<times> u64) messages_state) = Some (w, ms')"
  by (rule on_idle_returns [OF messages_inv_empty]) (simp_all add: sample_messages_config_def sample_config_def sample_verify_def)

section \<open>Lanes\<close>

text \<open>
  C11: the inbound lane over the runtime storage implements a queue of relayers. Receiving a message
  either rejects it and leaves the queue alone, or dispatches it and appends its relayer; receiving
  the state of the outbound lane removes exactly the newly confirmed prefix of the queue. Both keep
  the invariant of the lane and its limits.
\<close>

theorem inbound_lane_refines_queue:
  assumes "ris_coherent s" and "nonce \<noteq> 0"
    and "inbound_ok (ris_max_unrewarded_relayer_entries s) (ris_max_unconfirmed_messages s) (ris_view s)"
    and "receive_message runtime_inbound_storage_ops dispatch rb rt nonce md s x = (res, s1, x1)"
    and "receive_state_update runtime_inbound_storage_ops out s = (upd, s2)"
  shows "lane_abs (ris_view s1) = (if is_dispatched res then lane_queue_deliver rb (lane_abs (ris_view s)) else lane_abs (ris_view s))
    \<and> inbound_ok (ris_max_unrewarded_relayer_entries s) (ris_max_unconfirmed_messages s) (ris_view s1)
    \<and> lane_abs (ris_view s2) = lane_queue_confirm (unat (latest_received_nonce out)) (lane_abs (ris_view s))
    \<and> inbound_ok (ris_max_unrewarded_relayer_entries s) (ris_max_unconfirmed_messages s) (ris_view s2)"
proof -
  have wf: "inbound_wf (ris_view s)" using assms(3) by (simp add: inbound_ok_def)
  note v = runtime_inbound.receive_message_view(3) [OF assms(1,4)]
  have "lane_abs (ris_view s1) = (if is_dispatched res then lane_queue_deliver rb (lane_abs (ris_view s)) else lane_abs (ris_view s))"
  proof (cases "is_dispatched res")
    case True
    with v have n: "nonce = last_delivered_nonce (ris_view s) + 1" and s1: "ris_view s1 = deliver_data rb nonce (ris_view s)"
      by (auto simp: is_dispatched_def split: if_splits)
    show ?thesis using True deliver_data_ok(4) [OF wf n assms(2)] by (simp add: s1)
  next
    case False
    with v show ?thesis by (auto simp: is_dispatched_def split: if_splits)
  qed
  then show ?thesis
    using runtime_inbound.receive_message_ok [OF assms(1,4,2)] runtime_inbound.receive_state_update_ok [OF assms(1,5)]
      runtime_inbound.receive_state_update_refines(1) [OF assms(1) wf assms(5)] assms(3)
    by simp
qed

definition sample_lane :: "nat runtime_inbound_lane_storage" where
  "sample_lane = \<lparr>ris_lane_id = LaneId 0 0 0 1, ris_cached_data = None, ris_max_unrewarded_relayer_entries = 4,
     ris_max_unconfirmed_messages = 8, ris_inbound_lanes =
       [LaneId 0 0 0 1 \<mapsto> \<lparr>relayers = [\<lparr>ur_relayer = 7, ur_messages = \<lparr>dm_begin = 1, dm_end = 2\<rparr>\<rparr>], last_confirmed_nonce = 0\<rparr>]\<rparr>"

theorem inbound_lane_refines_queue_witness:
  "\<exists>res s1 x1. receive_message runtime_inbound_storage_ops (mc_dispatch sample_messages_config) 9 1 3 \<lparr>dmd_payload = []\<rparr> sample_lane [] = (res, s1, x1) \<and>
     lane_abs (ris_view s1) = LaneQueue 0 (replicate 2 7 @ [9])"
proof -
  obtain res s1 x1 where r: "receive_message runtime_inbound_storage_ops (mc_dispatch sample_messages_config) 9 1 3 \<lparr>dmd_payload = []\<rparr> sample_lane [] = (res, s1, x1)"
    and d: "is_dispatched res"
    by (simp add: messages_eval sample_lane_def is_dispatched_def)
  obtain upd s2 where u: "receive_state_update runtime_inbound_storage_ops default_outbound_lane_data sample_lane = (upd, s2)"
    by fastforce
  have ok: "inbound_ok (ris_max_unrewarded_relayer_entries sample_lane) (ris_max_unconfirmed_messages sample_lane) (ris_view sample_lane)"
    and co: "ris_coherent sample_lane" and "lane_abs (ris_view sample_lane) = LaneQueue 0 (replicate 2 7)"
    by (simp_all add: sample_lane_def ris_coherent_def ris_view_def inbound_lanes_get_def inbound_ok_def inbound_limits_def
        inbound_wf_def last_delivered_nonce_def lane_abs_def unconfirmed_in_entry_def word_le_nat_alt word_less_nat_alt)
  then have "lane_abs (ris_view s1) = LaneQueue 0 (replicate 2 7 @ [9])"
    using inbound_lane_refines_queue [OF co _ ok r u] d by simp
  with r show ?thesis by blast
qed

text \<open>
  A confirmed nonce can stay in the relayers queue. When the confirmed nonce is the first one of
  an entry with more messages, \<open>receive_state_update\<close> does not advance the entry: with the entry 2..3
  and the confirmation of nonce 2, the entry still starts at 2 although 2 is confirmed.
\<close>

lemma confirmed_nonce_stays_in_entry:
  "let entry = \<lparr>ur_relayer = 7 :: nat, ur_messages = \<lparr>dm_begin = 2, dm_end = 3\<rparr>\<rparr>;
       s = sample_lane\<lparr>ris_inbound_lanes :=
             [LaneId 0 0 0 1 \<mapsto> \<lparr>relayers = [entry], last_confirmed_nonce = 1\<rparr>]\<rparr>;
       out = \<lparr>oldest_unpruned_nonce = 1, latest_received_nonce = 2, latest_generated_nonce = 3\<rparr>
   in ris_view (snd (receive_state_update runtime_inbound_storage_ops out s)) =
        \<lparr>relayers = [entry], last_confirmed_nonce = 2\<rparr> \<and>
      contains_message (ur_messages entry) 2"
  by (simp add: messages_eval sample_lane_def receive_state_update_def ris_view_def contains_message_def)

text \<open>
  The sample inputs of \<open>ensure_weights_are_correct\<close> are representative. With benchmark results
  that pass its assertions, the proof size of a delivery transaction depends neither on the number
  of messages nor on the size of the proof, for all inputs, and its weight covers the dispatch
  weight.
\<close>

lemma delivery_weight_proof_size:
  assumes "weight_laws W" and "ensure_weights_are_correct W I"
  shows "w_proof_size W (receive_messages_proof_weight W I psize count dw) =
      saturating_add (w_proof_size W (receive_messages_proof_overhead W I)) (w_proof_size W dw) \<and>
    weight_le W dw (receive_messages_proof_weight W I psize count dw)"
  using receive_messages_proof_weight_proof_size [OF assms] dispatch_weight_covered [OF assms(1)] by blast

definition sample_weight_info :: "(u64 \<times> u64) messages_weight_info" where
  "sample_weight_info = \<lparr>receive_single_message_proof = (100, 100), receive_two_messages_proof = (150, 100),
     receive_single_message_proof_with_outbound_lane_state = (120, 100),
     receive_single_message_proof_1_kb = (100, 100), receive_single_message_proof_16_kb = (15460, 100),
     receive_delivery_proof_for_single_message = (50, 50),
     receive_delivery_proof_for_two_messages_by_single_relayer = (50, 50),
     receive_delivery_proof_for_two_messages_by_two_relayers = (60, 50),
     expected_extra_storage_proof_size = 1024\<rparr>"

end
