(* ===== verification/Storage_Proof.thy ===== *)
theory Storage_Proof
  imports Rust_Prelude
begin

text \<open>
  Storage keys, bounded storage values and storage proofs (\<open>primitives/runtime/src/lib.rs\<close>,
  \<open>storage_types.rs\<close> and \<open>storage_proof.rs\<close>).

  Hash functions, the SCALE codec and the trie of \<open>sp_trie\<close> are parameters. \<open>trie_laws\<close> states what
  the trie documents: reading a key through a proof records nodes of that proof only, and a value
  that is read below a root is the value of the storage with that root.
\<close>

type_synonym bytes = "u8 list"

definition as_bytes :: "string \<Rightarrow> bytes" where
  "as_bytes s = map of_char s"

section \<open>Storage keys\<close>

definition storage_map_final_key :: "(bytes \<Rightarrow> bytes) \<Rightarrow> (bytes \<Rightarrow> bytes) \<Rightarrow> string \<Rightarrow> string \<Rightarrow> bytes \<Rightarrow> bytes" where
  "storage_map_final_key twox_128 hasher pallet_prefix map_name key =
     (let key_hashed = hasher key;
          pallet_prefix_hashed = twox_128 (as_bytes pallet_prefix);
          storage_prefix_hashed = twox_128 (as_bytes map_name)
      in pallet_prefix_hashed @ storage_prefix_hashed @ key_hashed)"

definition storage_parameter_key :: "(bytes \<Rightarrow> bytes) \<Rightarrow> string \<Rightarrow> bytes" where
  "storage_parameter_key twox_128 parameter_name = twox_128 (as_bytes '':'' @ as_bytes parameter_name @ as_bytes '':'')"

text \<open>\<open>copy_from_slice\<close> panics when the lengths differ.\<close>

definition storage_value_key :: "(bytes \<Rightarrow> bytes) \<Rightarrow> string \<Rightarrow> string \<Rightarrow> bytes option" where
  "storage_value_key twox_128 pallet_prefix value_name =
     (let pallet_hash = twox_128 (as_bytes pallet_prefix);
          storage_hash = twox_128 (as_bytes value_name)
      in if length pallet_hash = 16 \<and> length storage_hash = 16 then Some (pallet_hash @ storage_hash) else None)"

definition map_key_provider_final_key ::
  "(bytes \<Rightarrow> bytes) \<Rightarrow> (bytes \<Rightarrow> bytes) \<Rightarrow> ('k \<Rightarrow> bytes) \<Rightarrow> string \<Rightarrow> string \<Rightarrow> 'k \<Rightarrow> bytes" where
  "map_key_provider_final_key twox_128 hasher encode map_name pallet_prefix key =
     storage_map_final_key twox_128 hasher pallet_prefix map_name (encode key)"

definition double_map_key_provider_final_key ::
  "(bytes \<Rightarrow> bytes) \<Rightarrow> (bytes \<Rightarrow> bytes) \<Rightarrow> (bytes \<Rightarrow> bytes) \<Rightarrow> ('k1 \<Rightarrow> bytes) \<Rightarrow> ('k2 \<Rightarrow> bytes) \<Rightarrow>
     string \<Rightarrow> string \<Rightarrow> 'k1 \<Rightarrow> 'k2 \<Rightarrow> bytes" where
  "double_map_key_provider_final_key twox_128 hasher1 hasher2 encode1 encode2 map_name pallet_prefix key1 key2 =
     (let key1_hashed = hasher1 (encode1 key1);
          key2_hashed = hasher2 (encode2 key2);
          pallet_prefix_hashed = twox_128 (as_bytes pallet_prefix);
          storage_prefix_hashed = twox_128 (as_bytes map_name)
      in pallet_prefix_hashed @ storage_prefix_hashed @ key1_hashed @ key2_hashed)"

section \<open>Derived accounts\<close>

datatype 'acc source_account = SourceRoot | SourceAccount 'acc

definition ACCOUNT_DERIVATION_PREFIX :: bytes where
  "ACCOUNT_DERIVATION_PREFIX = as_bytes ''pallet-bridge/account-derivation/account''"

definition ROOT_ACCOUNT_DERIVATION_PREFIX :: bytes where
  "ROOT_ACCOUNT_DERIVATION_PREFIX = as_bytes ''pallet-bridge/account-derivation/root''"

text \<open>\<open>encode_slice\<close> is the SCALE encoding of a byte slice; a chain identifier is encoded as its four bytes.\<close>

definition derive_account_id ::
  "(bytes \<Rightarrow> 'h256) \<Rightarrow> (bytes \<Rightarrow> bytes) \<Rightarrow> ('acc \<Rightarrow> bytes) \<Rightarrow> bytes \<Rightarrow> 'acc source_account \<Rightarrow> 'h256" where
  "derive_account_id blake2_256 encode_slice encode_account bridge_id account =
     (case account of
        SourceRoot \<Rightarrow> blake2_256 (encode_slice ROOT_ACCOUNT_DERIVATION_PREFIX @ bridge_id)
      | SourceAccount acc \<Rightarrow> blake2_256 (encode_slice ACCOUNT_DERIVATION_PREFIX @ bridge_id @ encode_account acc))"

section \<open>Bounded storage values\<close>

record maximal_size_exceeded_error =
  mse_value_size :: nat
  mse_maximal_size :: nat

definition try_from_inner :: "('v \<Rightarrow> nat) \<Rightarrow> u32 \<Rightarrow> 'v \<Rightarrow> maximal_size_exceeded_error + 'v" where
  "try_from_inner encoded_size bound value =
     (let value_size = encoded_size value; maximal_size = unat bound
      in if maximal_size < value_size
         then Inl \<lparr>mse_value_size = value_size, mse_maximal_size = maximal_size\<rparr>
         else Inr value)"

section \<open>The storage proof checker\<close>

datatype storage_proof_error =
    DuplicateNodesInProof
  | UnusedNodesInTheProof
  | StorageRootMismatch
  | StorageValueUnavailable
  | StorageValueEmpty
  | StorageValueDecodeFailed

text \<open>
  The trie: whether a memory database built from some nodes contains a root, and the read of a key
  with the nodes that it records. \<open>Inl ()\<close> is a trie error.
\<close>

record 'hash trie_ops =
  tr_contains :: "bytes set \<Rightarrow> 'hash \<Rightarrow> bool"
  tr_read :: "bytes set \<Rightarrow> 'hash \<Rightarrow> bytes \<Rightarrow> (unit + bytes option) \<times> bytes list"

record 'hash storage_proof_checker =
  spc_proof_nodes_count :: nat
  spc_root :: 'hash
  spc_db :: "bytes set"
  spc_recorder :: "bytes list"

definition storage_proof_checker_new ::
  "'hash trie_ops \<Rightarrow> 'hash \<Rightarrow> bytes list \<Rightarrow> storage_proof_error + 'hash storage_proof_checker" where
  "storage_proof_checker_new T root proof =
     (let proof_nodes_count = length proof; nodes = set proof
      in if proof_nodes_count \<noteq> card nodes then Inl DuplicateNodesInProof
         else if \<not> tr_contains T nodes root then Inl StorageRootMismatch
         else Inr \<lparr>spc_proof_nodes_count = proof_nodes_count, spc_root = root, spc_db = nodes, spc_recorder = []\<rparr>)"

definition ensure_no_unused_nodes :: "'hash storage_proof_checker \<Rightarrow> storage_proof_error + unit" where
  "ensure_no_unused_nodes checker =
     (let visited_nodes_count = card (set (spc_recorder checker))
      in if spc_proof_nodes_count checker = visited_nodes_count then Inr () else Inl UnusedNodesInTheProof)"

definition read_value ::
  "'hash trie_ops \<Rightarrow> bytes \<Rightarrow> 'hash storage_proof_checker \<Rightarrow>
     (storage_proof_error + bytes option) \<times> 'hash storage_proof_checker" where
  "read_value T key checker =
     (let (result, recorded) = tr_read T (spc_db checker) (spc_root checker) key
      in (map_sum (\<lambda>_. StorageValueUnavailable) id result,
          checker\<lparr>spc_recorder := spc_recorder checker @ recorded\<rparr>))"

definition read_and_decode_value ::
  "'hash trie_ops \<Rightarrow> (bytes \<Rightarrow> 't option) \<Rightarrow> bytes \<Rightarrow> 'hash storage_proof_checker \<Rightarrow>
     (storage_proof_error + 't option) \<times> 'hash storage_proof_checker" where
  "read_and_decode_value T decode key checker =
     (let (result, checker) = read_value T key checker
      in (case result of
            Inl e \<Rightarrow> Inl e
          | Inr None \<Rightarrow> Inr None
          | Inr (Some v) \<Rightarrow> (case decode v of None \<Rightarrow> Inl StorageValueDecodeFailed | Some t \<Rightarrow> Inr (Some t)),
          checker))"

definition read_and_decode_mandatory_value ::
  "'hash trie_ops \<Rightarrow> (bytes \<Rightarrow> 't option) \<Rightarrow> bytes \<Rightarrow> 'hash storage_proof_checker \<Rightarrow>
     (storage_proof_error + 't) \<times> 'hash storage_proof_checker" where
  "read_and_decode_mandatory_value T decode key checker =
     (let (result, checker) = read_and_decode_value T decode key checker
      in (case result of
            Inl e \<Rightarrow> Inl e
          | Inr None \<Rightarrow> Inl StorageValueEmpty
          | Inr (Some t) \<Rightarrow> Inr t,
          checker))"

definition read_and_decode_opt_value ::
  "'hash trie_ops \<Rightarrow> (bytes \<Rightarrow> 't option) \<Rightarrow> bytes \<Rightarrow> 'hash storage_proof_checker \<Rightarrow>
     (storage_proof_error + 't option) \<times> 'hash storage_proof_checker" where
  "read_and_decode_opt_value T decode key checker =
     (let (result, checker) = read_and_decode_value T decode key checker
      in (case result of
            Inr value \<Rightarrow> Inr value
          | Inl StorageValueUnavailable \<Rightarrow> Inr None
          | Inl e \<Rightarrow> Inl e,
          checker))"

section \<open>What a checker guarantees\<close>

text \<open>\<open>root_of\<close> is the state root of a storage.\<close>

definition trie_laws :: "('hash \<Rightarrow> (bytes \<rightharpoonup> bytes) \<Rightarrow> bool) \<Rightarrow> 'hash trie_ops \<Rightarrow> bool" where
  "trie_laws root_of T \<longleftrightarrow>
     (\<forall>nodes root key. set (snd (tr_read T nodes root key)) \<subseteq> nodes) \<and>
     (\<forall>nodes root key storage v. root_of root storage \<longrightarrow> fst (tr_read T nodes root key) = Inr v \<longrightarrow> v = storage key)"

text \<open>A checker in use: the database is the proof, without duplicates, and only proof nodes are recorded.\<close>

definition checker_ok :: "'hash \<Rightarrow> bytes list \<Rightarrow> 'hash storage_proof_checker \<Rightarrow> bool" where
  "checker_ok root proof checker \<longleftrightarrow>
     distinct proof \<and> spc_proof_nodes_count checker = length proof \<and> spc_db checker = set proof \<and>
     spc_root checker = root \<and> set (spc_recorder checker) \<subseteq> set proof"

lemma checker_new_ok:
  assumes "storage_proof_checker_new T root proof = Inr checker"
  shows "checker_ok root proof checker" and "tr_contains T (set proof) root"
  using assms by (auto simp: storage_proof_checker_new_def checker_ok_def Let_def card_distinct split: if_splits)

lemma read_value_ok:
  assumes "trie_laws root_of T" and "checker_ok root proof checker"
    and "read_value T key checker = (result, checker')"
  shows "checker_ok root proof checker'" and "root_of root storage \<Longrightarrow> result = Inr v \<Longrightarrow> v = storage key"
proof -
  obtain r recorded where tr: "tr_read T (spc_db checker) (spc_root checker) key = (r, recorded)" by fastforce
  have "set recorded \<subseteq> spc_db checker"
    and val: "root_of (spc_root checker) storage \<Longrightarrow> r = Inr v \<Longrightarrow> v = storage key" for storage v
    using assms(1) tr by (metis trie_laws_def snd_conv, metis trie_laws_def fst_conv)
  then show "checker_ok root proof checker'"
    using assms(2,3) tr by (auto simp: read_value_def checker_ok_def)
  show "v = storage key" if "root_of root storage" "result = Inr v"
    using val [of storage v] assms(2,3) tr that by (cases r) (auto simp: read_value_def checker_ok_def)
qed

lemma read_and_decode_value_ok:
  assumes "trie_laws root_of T" and "checker_ok root proof checker"
    and "read_and_decode_value T decode key checker = (result, checker')"
  shows "checker_ok root proof checker'"
    and "root_of root storage \<Longrightarrow> result = Inr (Some t) \<Longrightarrow> \<exists>v. storage key = Some v \<and> decode v = Some t"
    and "root_of root storage \<Longrightarrow> result = Inr None \<Longrightarrow> storage key = None"
proof -
  obtain r where r: "read_value T key checker = (r, checker')"
    using assms(3) by (auto simp: read_and_decode_value_def split: prod.splits)
  note ok = read_value_ok [OF assms(1,2) r]
  show "checker_ok root proof checker'" by (rule ok(1))
  show "\<exists>v. storage key = Some v \<and> decode v = Some t" if "root_of root storage" "result = Inr (Some t)"
    using ok(2) [OF that(1)] assms(3) that(2)
    by (auto simp: read_and_decode_value_def r split: sum.splits option.splits)
  show "storage key = None" if "root_of root storage" "result = Inr None"
    using ok(2) [OF that(1)] assms(3) that(2)
    by (auto simp: read_and_decode_value_def r split: sum.splits option.splits)
qed

lemma read_and_decode_mandatory_value_ok:
  assumes "trie_laws root_of T" and "checker_ok root proof checker"
    and "read_and_decode_mandatory_value T decode key checker = (result, checker')"
  shows "checker_ok root proof checker'"
    and "root_of root storage \<Longrightarrow> result = Inr t \<Longrightarrow> \<exists>v. storage key = Some v \<and> decode v = Some t"
proof -
  obtain r where r: "read_and_decode_value T decode key checker = (r, checker')"
    using assms(3) by (auto simp: read_and_decode_mandatory_value_def split: prod.splits)
  note ok = read_and_decode_value_ok [OF assms(1,2) r]
  show "checker_ok root proof checker'" by (rule ok(1))
  show "\<exists>v. storage key = Some v \<and> decode v = Some t" if "root_of root storage" "result = Inr t"
    using ok(2) [OF that(1)] assms(3) that(2)
    by (auto simp: read_and_decode_mandatory_value_def r split: sum.splits option.splits)
qed

lemma read_and_decode_opt_value_ok:
  assumes "trie_laws root_of T" and "checker_ok root proof checker"
    and "read_and_decode_opt_value T decode key checker = (result, checker')"
  shows "checker_ok root proof checker'"
    and "root_of root storage \<Longrightarrow> result = Inr (Some t) \<Longrightarrow> \<exists>v. storage key = Some v \<and> decode v = Some t"
proof -
  obtain r where r: "read_and_decode_value T decode key checker = (r, checker')"
    using assms(3) by (auto simp: read_and_decode_opt_value_def split: prod.splits)
  note ok = read_and_decode_value_ok [OF assms(1,2) r]
  show "checker_ok root proof checker'" by (rule ok(1))
  show "\<exists>v. storage key = Some v \<and> decode v = Some t" if "root_of root storage" "result = Inr (Some t)"
    using ok(2) [OF that(1)] assms(3) that(2)
    by (auto simp: read_and_decode_opt_value_def r split: sum.splits storage_proof_error.splits)
qed

text \<open>After the check for unused nodes, exactly the nodes of the proof have been visited.\<close>

lemma no_unused_nodes:
  assumes "checker_ok root proof checker" and "ensure_no_unused_nodes checker = Inr ()"
  shows "set (spc_recorder checker) = set proof"
  using assms
  by (auto simp: checker_ok_def ensure_no_unused_nodes_def Let_def distinct_card [symmetric] card_subset_eq split: if_splits)

section \<open>Keys and accounts do not collide\<close>

text \<open>
  \<open>concat_hasher\<close>: \<open>Twox64Concat\<close> and \<open>Blake2_128Concat\<close> append the key to a digest of fixed length.
\<close>

definition concat_hasher :: "nat \<Rightarrow> (bytes \<Rightarrow> bytes) \<Rightarrow> bool" where
  "concat_hasher n hasher \<longleftrightarrow> (\<forall>key. \<exists>digest. length digest = n \<and> hasher key = digest @ key)"

lemma concat_hasher_inj: "concat_hasher n hasher \<Longrightarrow> hasher k = hasher k' \<Longrightarrow> k = k'"
  by (metis concat_hasher_def append_eq_append_conv)

text \<open>SCALE encodings are prefix free: a decoder knows where a value ends.\<close>

definition prefix_free :: "('a \<Rightarrow> bytes) \<Rightarrow> bool" where
  "prefix_free encode \<longleftrightarrow> (\<forall>a b x y. encode a @ x = encode b @ y \<longrightarrow> a = b \<and> x = y)"

lemma prefix_freeD: "prefix_free encode \<Longrightarrow> encode a @ x = encode b @ y \<Longrightarrow> a = b \<and> x = y"
  by (simp add: prefix_free_def)

lemma concat_hasher_append:
  assumes "concat_hasher n hasher" and "prefix_free encode" and "hasher (encode a) @ x = hasher (encode b) @ y"
  shows "a = b \<and> x = y"
proof -
  obtain d d' where "length d = n" "hasher (encode a) = d @ encode a" "length d' = n" "hasher (encode b) = d' @ encode b"
    using assms(1) unfolding concat_hasher_def by blast
  then have "encode a @ x = encode b @ y" using assms(3) by simp
  then show ?thesis by (rule prefix_freeD [OF assms(2)])
qed

lemma prefix_free_inj: "prefix_free encode \<Longrightarrow> encode a = encode b \<Longrightarrow> a = b"
  using prefix_freeD [of encode a "[]" b "[]"] by simp

text \<open>
  Different keys of a storage map or double map have different storage keys.
\<close>

lemma storage_keys_injective:
  assumes "concat_hasher n hasher1" and "concat_hasher m hasher2" and "prefix_free encode1" and "prefix_free encode2"
  shows "(map_key_provider_final_key twox_128 hasher1 encode1 map_name pallet_prefix k =
            map_key_provider_final_key twox_128 hasher1 encode1 map_name pallet_prefix k' \<longrightarrow> k = k') \<and>
         (double_map_key_provider_final_key twox_128 hasher1 hasher2 encode1 encode2 map_name pallet_prefix k l =
            double_map_key_provider_final_key twox_128 hasher1 hasher2 encode1 encode2 map_name pallet_prefix k' l' \<longrightarrow>
          k = k' \<and> l = l')"
proof (intro conjI impI)
  assume "map_key_provider_final_key twox_128 hasher1 encode1 map_name pallet_prefix k =
    map_key_provider_final_key twox_128 hasher1 encode1 map_name pallet_prefix k'"
  then have "hasher1 (encode1 k) @ [] = hasher1 (encode1 k') @ []"
    by (simp add: map_key_provider_final_key_def storage_map_final_key_def Let_def)
  then show "k = k'" using concat_hasher_append [OF assms(1,3)] by blast
next
  assume "double_map_key_provider_final_key twox_128 hasher1 hasher2 encode1 encode2 map_name pallet_prefix k l =
    double_map_key_provider_final_key twox_128 hasher1 hasher2 encode1 encode2 map_name pallet_prefix k' l'"
  then have "hasher1 (encode1 k) @ hasher2 (encode2 l) = hasher1 (encode1 k') @ hasher2 (encode2 l')"
    by (simp add: double_map_key_provider_final_key_def Let_def)
  then have eq: "k = k' \<and> hasher2 (encode2 l) @ [] = hasher2 (encode2 l') @ []"
    using concat_hasher_append [OF assms(1,3)] by simp
  then show "k = k'" "l = l'" using concat_hasher_append [OF assms(2,4)] by blast+
qed

definition sample_encode :: "bool \<Rightarrow> bytes" where
  "sample_encode b = [if b then 1 else 0]"

lemma sample_encode_prefix_free: "prefix_free sample_encode"
  by (auto simp: prefix_free_def sample_encode_def)

text \<open>
  Without collisions of the hash function, derived accounts of different bridges, of root and of
  different source accounts are different.
\<close>

lemma derived_accounts_distinct:
  assumes "inj blake2_256" and "prefix_free encode_slice" and "inj encode_account"
    and "length bridge = 4" and "length bridge' = 4"
  shows "derive_account_id blake2_256 encode_slice encode_account bridge a =
         derive_account_id blake2_256 encode_slice encode_account bridge' a' \<longleftrightarrow> bridge = bridge' \<and> a = a'"
proof -
  have "length ROOT_ACCOUNT_DERIVATION_PREFIX = 37" "length ACCOUNT_DERIVATION_PREFIX = 40"
    by (simp_all add: ROOT_ACCOUNT_DERIVATION_PREFIX_def ACCOUNT_DERIVATION_PREFIX_def as_bytes_def)
  then have ne: "ROOT_ACCOUNT_DERIVATION_PREFIX \<noteq> ACCOUNT_DERIVATION_PREFIX" by force
  have pf: "encode_slice p @ x = encode_slice q @ y \<longleftrightarrow> p = q \<and> x = y" for p q x y
    using prefix_freeD [OF assms(2)] by blast
  show ?thesis
    using assms(4,5) ne ne [symmetric]
    by (cases a; cases a') (auto simp: derive_account_id_def inj_eq [OF assms(1)] inj_eq [OF assms(3)] pf)
qed

end
