(* ===== verification/Justification.thy ===== *)
theory Justification
  imports Bridge_Runtime
begin

text \<open>
  GRANDPA justifications (\<open>primitives/header-chain/src/justification.rs\<close>): verification with
  callbacks, the strict verification used on chain and the optimizing one used by relays, and the
  ancestry chain of the votes.

  The voter set of the \<open>finality_grandpa\<close> crate and the signature check of
  \<open>sp_consensus_grandpa\<close> are parameters. \<open>voter_set_laws\<close> states what the crate documents for a
  voter set: finitely many voters, weights that are not zero, a total weight that fits \<open>u64\<close>, and
  the threshold computed from the total.
\<close>

section \<open>Data\<close>

record ('hash, 'number) precommit =
  pc_target_hash :: 'hash
  pc_target_number :: 'number

record ('hash, 'number, 'id, 'sig) signed_precommit =
  sp_precommit :: "('hash, 'number) precommit"
  sp_signature :: 'sig
  sp_id :: 'id

record ('hash, 'number, 'id, 'sig) commit =
  cm_target_hash :: 'hash
  cm_target_number :: 'number
  cm_precommits :: "('hash, 'number, 'id, 'sig) signed_precommit list"

text \<open>\<open>'header\<close> is the header type; its hash and parent hash are given by the chain.\<close>

record ('hash, 'number, 'id, 'sig, 'header) grandpa_justification =
  gj_round :: u64
  gj_commit :: "('hash, 'number, 'id, 'sig) commit"
  gj_votes_ancestries :: "'header list"

datatype justification_error =
    JustificationDecode
  | InvalidJustificationTarget
  | RedundantVotesInJustification
  | UnknownAuthorityVote
  | DuplicateAuthorityVote
  | InvalidAuthoritySignature
  | PrecommitIsNotCommitDescendant
  | TooLowCumulativeWeight
  | ExtraHeadersInVotesAncestries

record 'id voter_set =
  vs_get :: "'id \<Rightarrow> u64 option"
  vs_threshold :: u64

record ('hash, 'number, 'id, 'sig, 'header) justification_config =
  jc_header_hash :: "'header \<Rightarrow> 'hash"
  jc_header_parent_hash :: "'header \<Rightarrow> 'hash"
  jc_check_signature :: "('hash, 'number) precommit \<Rightarrow> 'id \<Rightarrow> 'sig \<Rightarrow> u64 \<Rightarrow> u64 \<Rightarrow> bool"

definition target_header_number :: "('hash, 'number, 'id, 'sig, 'header) grandpa_justification \<Rightarrow> 'number" where
  "target_header_number j = cm_target_number (gj_commit j)"

text \<open>
  \<open>max_reasonable_size\<close>. The encoded lengths of numbers, hashes and authority identifiers are
  \<open>usize\<close> values given by the codec; \<open>saturated_into\<close> clamps them to \<open>u32\<close>.
\<close>

definition max_reasonable_size :: "nat \<Rightarrow> nat \<Rightarrow> nat \<Rightarrow> u32 \<Rightarrow> u32 \<Rightarrow> u32 \<Rightarrow> u32" where
  "max_reasonable_size number_len hash_len authority_id_len headers_in_ancestry average_header_size required_precommits =
     (let signed_precommit_size = saturating_of_nat (number_len + hash_len + 64 + authority_id_len) :: u32;
          max_expected_signed_commit_size =
            saturating_add (saturating_add (saturating_mul signed_precommit_size required_precommits)
              (saturating_of_nat number_len)) (saturating_of_nat hash_len);
          max_expected_votes_ancestries_size = saturating_mul headers_in_ancestry average_header_size
      in saturating_add (saturating_add 8 max_expected_signed_commit_size) max_expected_votes_ancestries_size)"

definition required_justification_precommits :: "u32 \<Rightarrow> u32" where
  "required_justification_precommits authorities_set_length =
     authorities_set_length - saturating_sub authorities_set_length 1 div 3"

definition decode_justification_target ::
  "('raw \<Rightarrow> ('hash, 'number, 'id, 'sig, 'header) grandpa_justification option) \<Rightarrow> 'raw \<Rightarrow>
     justification_error + ('hash \<times> 'number)" where
  "decode_justification_target decode raw_justification =
     (case decode raw_justification of
        Some justification \<Rightarrow> Inr (cm_target_hash (gj_commit justification), cm_target_number (gj_commit justification))
      | None \<Rightarrow> Inl JustificationDecode)"

section \<open>The ancestry chain\<close>

text \<open>The set of unvisited hashes is a list without duplicates, so that the loop visibly ends.\<close>

record 'hash ancestry_chain =
  ac_parents :: "'hash \<rightharpoonup> 'hash"
  ac_unvisited :: "'hash list"

definition ancestry_chain_new ::
  "('header \<Rightarrow> 'hash) \<Rightarrow> ('header \<Rightarrow> 'hash) \<Rightarrow> 'header list \<Rightarrow> 'hash ancestry_chain" where
  "ancestry_chain_new hash parent_hash ancestry =
     fold (\<lambda>ancestor chain.
            chain\<lparr>ac_parents := (ac_parents chain)(hash ancestor \<mapsto> parent_hash ancestor),
                  ac_unvisited := List.insert (hash ancestor) (ac_unvisited chain)\<rparr>)
       ancestry \<lparr>ac_parents = Map.empty, ac_unvisited = []\<rparr>"

function descendant_loop ::
  "('hash \<rightharpoonup> 'hash) \<Rightarrow> 'hash \<Rightarrow> 'hash \<Rightarrow> 'hash list \<Rightarrow> justification_error + 'hash list" where
  "descendant_loop parents commit_target current_hash unvisited =
     (if current_hash = commit_target then Inr unvisited
      else
        let is_visited_before = (current_hash \<notin> set unvisited);
            unvisited' = removeAll current_hash unvisited
        in case parents current_hash of
             Some parent_hash \<Rightarrow>
               if is_visited_before then Inr unvisited'
               else descendant_loop parents commit_target parent_hash unvisited'
           | None \<Rightarrow> Inl PrecommitIsNotCommitDescendant)"
  by pat_completeness auto

termination descendant_loop
  by (relation "measure (\<lambda>(_, _, _, unvisited). length unvisited)") (auto intro: length_removeAll_less)

declare descendant_loop.simps [simp del]

definition ensure_descendant ::
  "'hash ancestry_chain \<Rightarrow> 'hash \<Rightarrow> 'hash \<Rightarrow> justification_error + 'hash ancestry_chain" where
  "ensure_descendant chain commit_target precommit_target =
     map_sum id (\<lambda>unvisited. chain\<lparr>ac_unvisited := unvisited\<rparr>)
       (descendant_loop (ac_parents chain) commit_target precommit_target (ac_unvisited chain))"

section \<open>Verification with callbacks\<close>

record 'cb verification_callbacks =
  on_unkown_authority :: "nat \<Rightarrow> 'cb \<Rightarrow> justification_error + 'cb"
  on_duplicate_authority_vote :: "nat \<Rightarrow> 'cb \<Rightarrow> justification_error + 'cb"
  on_redundant_authority_vote :: "nat \<Rightarrow> 'cb \<Rightarrow> justification_error + 'cb"

definition strict_verification_callbacks :: "unit verification_callbacks" where
  "strict_verification_callbacks = \<lparr>
     on_unkown_authority = (\<lambda>_ _. Inl UnknownAuthorityVote),
     on_duplicate_authority_vote = (\<lambda>_ _. Inl DuplicateAuthorityVote),
     on_redundant_authority_vote = (\<lambda>_ _. Inl RedundantVotesInJustification)\<rparr>"

definition optimization_callbacks :: "nat list verification_callbacks" where
  "optimization_callbacks = \<lparr>
     on_unkown_authority = (\<lambda>i cb. Inr (cb @ [i])),
     on_duplicate_authority_vote = (\<lambda>i cb. Inr (cb @ [i])),
     on_redundant_authority_vote = (\<lambda>i cb. Inr (cb @ [i]))\<rparr>"

text \<open>\<open>Vec::remove\<close> for the recorded indices, from the last to the first; it panics out of range.\<close>

definition vec_remove :: "nat \<Rightarrow> 'a list \<Rightarrow> 'a list option" where
  "vec_remove i xs = (if i < length xs then Some (take i xs @ drop (Suc i) xs) else None)"

fun remove_precommits :: "nat list \<Rightarrow> 'a list \<Rightarrow> 'a list option" where
  "remove_precommits [] precommits = Some precommits"
| "remove_precommits (i # ixs) precommits = do { precommits \<leftarrow> vec_remove i precommits; remove_precommits ixs precommits }"

definition optimize ::
  "nat list \<Rightarrow> ('hash, 'number, 'id, 'sig, 'header) grandpa_justification \<Rightarrow>
     ('hash, 'number, 'id, 'sig, 'header) grandpa_justification option" where
  "optimize invalid justification =
     do {
       precommits \<leftarrow> remove_precommits (rev invalid) (cm_precommits (gj_commit justification));
       Some (justification\<lparr>gj_commit := (gj_commit justification)\<lparr>cm_precommits := precommits\<rparr>\<rparr>)
     }"

text \<open>The variables of the verification loop.\<close>

record ('hash, 'id, 'cb) verification_vars =
  vv_chain :: "'hash ancestry_chain"
  vv_votes :: "'id set"
  vv_cumulative_weight :: u64
  vv_callbacks :: 'cb

text \<open>
  The body of the loop for the precommit with index \<open>i\<close>. \<open>None\<close> is the panic of the \<open>expect\<close> on the
  sum of the weights.
\<close>

definition verify_precommit ::
  "('hash, 'number::linorder, 'id, 'sig, 'header) justification_config \<Rightarrow> u64 \<Rightarrow> 'id voter_set \<Rightarrow>
     ('hash, 'number, 'id, 'sig, 'header) grandpa_justification \<Rightarrow> 'cb verification_callbacks \<Rightarrow> nat \<Rightarrow>
     ('hash, 'number, 'id, 'sig) signed_precommit \<Rightarrow> ('hash, 'id, 'cb) verification_vars \<Rightarrow>
     (justification_error + ('hash, 'id, 'cb) verification_vars) option" where
  "verify_precommit J authorities_set_id authorities_set justification callbacks i vote v =
     (if vs_threshold authorities_set \<le> vv_cumulative_weight v
      then Some (map_sum id (\<lambda>cb. v\<lparr>vv_callbacks := cb\<rparr>) (on_redundant_authority_vote callbacks i (vv_callbacks v)))
      else
      case vs_get authorities_set (sp_id vote) of
        None \<Rightarrow> Some (map_sum id (\<lambda>cb. v\<lparr>vv_callbacks := cb\<rparr>) (on_unkown_authority callbacks i (vv_callbacks v)))
      | Some weight \<Rightarrow>
      if sp_id vote \<in> vv_votes v
      then Some (map_sum id (\<lambda>cb. v\<lparr>vv_callbacks := cb\<rparr>) (on_duplicate_authority_vote callbacks i (vv_callbacks v)))
      else
      let v = v\<lparr>vv_votes := insert (sp_id vote) (vv_votes v)\<rparr>
      in if pc_target_number (sp_precommit vote) < cm_target_number (gj_commit justification)
         then Some (Inl PrecommitIsNotCommitDescendant)
         else
         case ensure_descendant (vv_chain v) (cm_target_hash (gj_commit justification))
                (pc_target_hash (sp_precommit vote)) of
           Inl e \<Rightarrow> Some (Inl e)
         | Inr chain \<Rightarrow>
             do {
               cumulative_weight \<leftarrow> checked_add (vv_cumulative_weight v) weight;
               Some (if \<not> jc_check_signature J (sp_precommit vote) (sp_id vote) (sp_signature vote)
                          (gj_round justification) authorities_set_id
                     then Inl InvalidAuthoritySignature
                     else Inr (v\<lparr>vv_chain := chain, vv_cumulative_weight := cumulative_weight\<rparr>))
             })"

fun verify_precommits ::
  "('hash, 'number::linorder, 'id, 'sig, 'header) justification_config \<Rightarrow> u64 \<Rightarrow> 'id voter_set \<Rightarrow>
     ('hash, 'number, 'id, 'sig, 'header) grandpa_justification \<Rightarrow> 'cb verification_callbacks \<Rightarrow> nat \<Rightarrow>
     ('hash, 'number, 'id, 'sig) signed_precommit list \<Rightarrow> ('hash, 'id, 'cb) verification_vars \<Rightarrow>
     (justification_error + ('hash, 'id, 'cb) verification_vars) option" where
  "verify_precommits J set_id A justification callbacks i [] v = Some (Inr v)"
| "verify_precommits J set_id A justification callbacks i (vote # precommits) v =
     (case verify_precommit J set_id A justification callbacks i vote v of
        None \<Rightarrow> None
      | Some (Inl e) \<Rightarrow> Some (Inl e)
      | Some (Inr v) \<Rightarrow> verify_precommits J set_id A justification callbacks (Suc i) precommits v)"

definition verify_justification_with_callbacks ::
  "('hash, 'number::linorder, 'id, 'sig, 'header) justification_config \<Rightarrow> 'hash \<times> 'number \<Rightarrow> u64 \<Rightarrow> 'id voter_set \<Rightarrow>
     ('hash, 'number, 'id, 'sig, 'header) grandpa_justification \<Rightarrow> 'cb verification_callbacks \<Rightarrow> 'cb \<Rightarrow>
     (justification_error + 'cb) option" where
  "verify_justification_with_callbacks J finalized_target authorities_set_id authorities_set justification callbacks cb =
     (if (cm_target_hash (gj_commit justification), cm_target_number (gj_commit justification)) \<noteq> finalized_target
      then Some (Inl InvalidJustificationTarget)
      else
        let chain = ancestry_chain_new (jc_header_hash J) (jc_header_parent_hash J) (gj_votes_ancestries justification)
        in case verify_precommits J authorities_set_id authorities_set justification callbacks 0
                  (cm_precommits (gj_commit justification))
                  \<lparr>vv_chain = chain, vv_votes = {}, vv_cumulative_weight = 0, vv_callbacks = cb\<rparr> of
             None \<Rightarrow> None
           | Some (Inl e) \<Rightarrow> Some (Inl e)
           | Some (Inr v) \<Rightarrow>
               if ac_unvisited (vv_chain v) \<noteq> [] then Some (Inl ExtraHeadersInVotesAncestries)
               else if vs_threshold authorities_set \<le> vv_cumulative_weight v then Some (Inr (vv_callbacks v))
               else Some (Inl TooLowCumulativeWeight))"

definition verify_justification ::
  "('hash, 'number::linorder, 'id, 'sig, 'header) justification_config \<Rightarrow> 'hash \<times> 'number \<Rightarrow> u64 \<Rightarrow> 'id voter_set \<Rightarrow>
     ('hash, 'number, 'id, 'sig, 'header) grandpa_justification \<Rightarrow> (justification_error + unit) option" where
  "verify_justification J finalized_target authorities_set_id authorities_set justification =
     verify_justification_with_callbacks J finalized_target authorities_set_id authorities_set justification
       strict_verification_callbacks ()"

definition verify_and_optimize_justification ::
  "('hash, 'number::linorder, 'id, 'sig, 'header) justification_config \<Rightarrow> 'hash \<times> 'number \<Rightarrow> u64 \<Rightarrow> 'id voter_set \<Rightarrow>
     ('hash, 'number, 'id, 'sig, 'header) grandpa_justification \<Rightarrow>
     (justification_error + ('hash, 'number, 'id, 'sig, 'header) grandpa_justification) option" where
  "verify_and_optimize_justification J finalized_target authorities_set_id authorities_set justification =
     (case verify_justification_with_callbacks J finalized_target authorities_set_id authorities_set justification
             optimization_callbacks [] of
        None \<Rightarrow> None
      | Some (Inl e) \<Rightarrow> Some (Inl e)
      | Some (Inr optimizer) \<Rightarrow> map_option Inr (optimize optimizer justification))"

section \<open>The ancestry of votes\<close>

text \<open>\<open>descends parents target h\<close>: following parents from \<open>h\<close> leads to the target.\<close>

inductive descends :: "('hash \<rightharpoonup> 'hash) \<Rightarrow> 'hash \<Rightarrow> 'hash \<Rightarrow> bool" for parents target where
  descends_refl: "descends parents target target"
| descends_parent: "parents h = Some p \<Longrightarrow> descends parents target p \<Longrightarrow> descends parents target h"

text \<open>Header hashes have no cycles: no header is its own ancestor.\<close>

definition acyclic_parents :: "('hash \<rightharpoonup> 'hash) \<Rightarrow> bool" where
  "acyclic_parents parents \<longleftrightarrow> acyclic {(h, p). parents h = Some p}"

text \<open>Every visited header of the chain is a descendant of the target.\<close>

definition visited_descend :: "('hash \<rightharpoonup> 'hash) \<Rightarrow> 'hash \<Rightarrow> 'hash list \<Rightarrow> bool" where
  "visited_descend parents target unvisited \<longleftrightarrow>
     (\<forall>h \<in> dom parents. h \<notin> set unvisited \<longrightarrow> descends parents target h)"

text \<open>The same during the loop: what was visited in this call is an ancestor path to the current header.\<close>

lemma descends_trancl:
  assumes "(h, g) \<in> {(h, p). parents h = Some p}\<^sup>+" and "descends parents target g"
  shows "descends parents target h"
  using assms by (induction rule: converse_trancl_induct) (auto intro: descends_parent)

lemma descendant_loop_sound:
  assumes "acyclic_parents parents"
    and "descendant_loop parents target current unvisited = Inr unvisited'"
    and "\<And>h. h \<in> dom parents \<Longrightarrow> h \<notin> set unvisited \<Longrightarrow>
      descends parents target h \<or> (h, current) \<in> {(h, p). parents h = Some p}\<^sup>+"
  shows "descends parents target current \<and> visited_descend parents target unvisited'"
  using assms
proof (induction parents target current unvisited rule: descendant_loop.induct)
  case (1 parents target current unvisited)
  let ?R = "{(h, p). parents h = Some p}"
  note res = 1(3) [unfolded descendant_loop.simps [of parents target current unvisited]]
  show ?case
  proof (cases "current = target")
    case True
    then show ?thesis
      using res 1(4) by (auto simp: visited_descend_def intro: descends_refl descends_trancl)
  next
    case False
    then obtain p where p: "parents current = Some p"
      using res by (auto simp: Let_def split: option.splits)
    show ?thesis
    proof (cases "current \<in> set unvisited")
      case True
      have "descendant_loop parents target p (removeAll current unvisited) = Inr unvisited'"
        using res False p True by (simp add: Let_def)
      moreover have "descends parents target h \<or> (h, p) \<in> ?R\<^sup>+"
        if "h \<in> dom parents" "h \<notin> set (removeAll current unvisited)" for h
        using 1(4) [OF that(1)] that(2) p by (cases "h = current") (auto intro: trancl_into_trancl)
      ultimately have "descends parents target p \<and> visited_descend parents target unvisited'"
        using 1(1) [OF False refl refl p] True 1(2) by blast
      then show ?thesis using p by (auto intro: descends_parent)
    next
      case visited: False
      have "(current, current) \<notin> ?R\<^sup>+"
        using 1(2) by (simp add: acyclic_parents_def acyclic_def)
      then have d: "descends parents target current"
        using 1(4) [of current] p visited by blast
      have "unvisited' = removeAll current unvisited"
        using res False p visited by (simp add: Let_def)
      then show ?thesis
        using d 1(4) visited by (auto simp: visited_descend_def intro: descends_trancl)
    qed
  qed
qed

lemma descendant_loop_subset:
  "descendant_loop parents target current unvisited = Inr unvisited' \<Longrightarrow> set unvisited' \<subseteq> set unvisited"
proof (induction parents target current unvisited arbitrary: unvisited' rule: descendant_loop.induct)
  case (1 parents target current unvisited)
  show ?case
    using 1(2) 1(1)
    by (subst (asm) descendant_loop.simps) (fastforce simp: Let_def split: if_splits option.splits)
qed

lemma ensure_descendant_sound:
  assumes "acyclic_parents (ac_parents chain)" and "visited_descend (ac_parents chain) target (ac_unvisited chain)"
    and "ensure_descendant chain target h = Inr chain'"
  shows "ac_parents chain' = ac_parents chain" and "descends (ac_parents chain) target h"
    and "visited_descend (ac_parents chain) target (ac_unvisited chain')"
proof -
  from assms(3) obtain u where u: "descendant_loop (ac_parents chain) target h (ac_unvisited chain) = Inr u"
    and c: "chain' = chain\<lparr>ac_unvisited := u\<rparr>"
    by (cases "descendant_loop (ac_parents chain) target h (ac_unvisited chain)") (auto simp: ensure_descendant_def)
  have "descends (ac_parents chain) target h \<and> visited_descend (ac_parents chain) target u"
    using assms(2) by (intro descendant_loop_sound [OF assms(1) u]) (auto simp: visited_descend_def)
  then show "ac_parents chain' = ac_parents chain" "descends (ac_parents chain) target h"
    "visited_descend (ac_parents chain) target (ac_unvisited chain')"
    by (simp_all add: c)
qed

lemma ancestry_chain_new_props:
  "ac_parents (ancestry_chain_new hash parent_hash hs) = map_of (rev (map (\<lambda>h. (hash h, parent_hash h)) hs))"
  "set (ac_unvisited (ancestry_chain_new hash parent_hash hs)) = hash ` set hs"
proof -
  let ?step = "\<lambda>ancestor (chain :: 'a ancestry_chain).
     chain\<lparr>ac_parents := (ac_parents chain)(hash ancestor \<mapsto> parent_hash ancestor),
           ac_unvisited := List.insert (hash ancestor) (ac_unvisited chain)\<rparr>"
  have "ac_parents (fold ?step hs c) = ac_parents c ++ map_of (rev (map (\<lambda>h. (hash h, parent_hash h)) hs)) \<and>
    set (ac_unvisited (fold ?step hs c)) = hash ` set hs \<union> set (ac_unvisited c)" for c
    by (induction hs arbitrary: c) (auto simp: map_add_def fun_eq_iff split: option.splits)
  then show "ac_parents (ancestry_chain_new hash parent_hash hs) = map_of (rev (map (\<lambda>h. (hash h, parent_hash h)) hs))"
    "set (ac_unvisited (ancestry_chain_new hash parent_hash hs)) = hash ` set hs"
    by (simp_all add: ancestry_chain_new_def)
qed

lemma ancestry_chain_new_visited:
  "visited_descend (ac_parents (ancestry_chain_new hash parent_hash hs)) target
     (ac_unvisited (ancestry_chain_new hash parent_hash hs))"
  by (auto simp: visited_descend_def ancestry_chain_new_props dom_map_of_conv_image_fst)

section \<open>Soundness of the verification\<close>

definition voter_weight :: "'id voter_set \<Rightarrow> 'id \<Rightarrow> nat" where
  "voter_weight A i = (case vs_get A i of None \<Rightarrow> 0 | Some w \<Rightarrow> unat w)"

definition voter_set_laws :: "'id voter_set \<Rightarrow> bool" where
  "voter_set_laws A \<longleftrightarrow>
     finite (dom (vs_get A)) \<and> (\<forall>w \<in> ran (vs_get A). w \<noteq> 0) \<and>
     (let total = \<Sum>i \<in> dom (vs_get A). voter_weight A i
      in 0 < total \<and> total < 2 ^ 64 \<and> unat (vs_threshold A) = total - (total - 1) div 3)"

text \<open>A vote that the verification may count for the target.\<close>

definition valid_vote ::
  "('hash, 'number::linorder, 'id, 'sig, 'header) justification_config \<Rightarrow> u64 \<Rightarrow> 'id voter_set \<Rightarrow>
     ('hash, 'number, 'id, 'sig, 'header) grandpa_justification \<Rightarrow>
     ('hash, 'number, 'id, 'sig) signed_precommit \<Rightarrow> bool" where
  "valid_vote J set_id A j vote \<longleftrightarrow>
     vs_get A (sp_id vote) \<noteq> None \<and>
     cm_target_number (gj_commit j) \<le> pc_target_number (sp_precommit vote) \<and>
     descends (map_of (rev (map (\<lambda>h. (jc_header_hash J h, jc_header_parent_hash J h)) (gj_votes_ancestries j))))
       (cm_target_hash (gj_commit j)) (pc_target_hash (sp_precommit vote)) \<and>
     jc_check_signature J (sp_precommit vote) (sp_id vote) (sp_signature vote) (gj_round j) set_id"

abbreviation justification_parents ::
  "('hash, 'number::linorder, 'id, 'sig, 'header) justification_config \<Rightarrow>
     ('hash, 'number, 'id, 'sig, 'header) grandpa_justification \<Rightarrow> 'hash \<rightharpoonup> 'hash" where
  "justification_parents J j \<equiv>
     map_of (rev (map (\<lambda>h. (jc_header_hash J h, jc_header_parent_hash J h)) (gj_votes_ancestries j)))"

text \<open>The invariant of the loop: \<open>acc\<close> are the votes that have been counted.\<close>

definition votes_inv ::
  "('hash, 'number::linorder, 'id, 'sig, 'header) justification_config \<Rightarrow> u64 \<Rightarrow> 'id voter_set \<Rightarrow>
     ('hash, 'number, 'id, 'sig, 'header) grandpa_justification \<Rightarrow>
     ('hash, 'number, 'id, 'sig) signed_precommit list \<Rightarrow> ('hash, 'id, 'cb) verification_vars \<Rightarrow> bool" where
  "votes_inv J set_id A j acc v \<longleftrightarrow>
     distinct (map sp_id acc) \<and> vv_votes v = sp_id ` set acc \<and>
     (\<forall>vote \<in> set acc. valid_vote J set_id A j vote) \<and>
     unat (vv_cumulative_weight v) = (\<Sum>vote \<leftarrow> acc. voter_weight A (sp_id vote)) \<and>
     ac_parents (vv_chain v) = justification_parents J j \<and>
     visited_descend (justification_parents J j) (cm_target_hash (gj_commit j)) (ac_unvisited (vv_chain v))"

lemma verify_precommit_cases:
  assumes "verify_precommit J set_id A j cbs i vote v = Some (Inr v')"
  obtains (skipped) cb where "v' = v\<lparr>vv_callbacks := cb\<rparr>"
  | (counted) w chain sum where "vs_get A (sp_id vote) = Some w" "sp_id vote \<notin> vv_votes v"
      "\<not> vs_threshold A \<le> vv_cumulative_weight v"
      "cm_target_number (gj_commit j) \<le> pc_target_number (sp_precommit vote)"
      "ensure_descendant (vv_chain v) (cm_target_hash (gj_commit j)) (pc_target_hash (sp_precommit vote)) = Inr chain"
      "unat sum = unat (vv_cumulative_weight v) + unat w"
      "jc_check_signature J (sp_precommit vote) (sp_id vote) (sp_signature vote) (gj_round j) set_id"
      "v' = v\<lparr>vv_votes := insert (sp_id vote) (vv_votes v), vv_chain := chain, vv_cumulative_weight := sum\<rparr>"
proof (cases "vs_threshold A \<le> vv_cumulative_weight v \<or> vs_get A (sp_id vote) = None \<or> sp_id vote \<in> vv_votes v")
  case True
  then have "\<exists>cb. v' = v\<lparr>vv_callbacks := cb\<rparr>"
    using assms
    by (auto simp: verify_precommit_def map_sum_eq_Inr_iff split: if_splits option.splits)
  then show thesis using skipped by blast
next
  case False
  then obtain w where w: "vs_get A (sp_id vote) = Some w" by auto
  show thesis
    using assms False w counted
    by (auto simp: verify_precommit_def Let_def bind_eq_Some_conv checked_add_Some split: if_splits sum.splits)
qed

lemma votes_inv_step:
  assumes acyc: "acyclic_parents (justification_parents J j)" and inv: "votes_inv J set_id A j acc v"
    and "verify_precommit J set_id A j cbs i vote v = Some (Inr v')"
  shows "votes_inv J set_id A j acc v' \<or> votes_inv J set_id A j (acc @ [vote]) v'"
  using assms(3)
proof (cases rule: verify_precommit_cases)
  case (skipped cb)
  then show ?thesis using inv by (simp add: votes_inv_def)
next
  case (counted w chain sum)
  have parents: "ac_parents (vv_chain v) = justification_parents J j"
    and visited: "visited_descend (justification_parents J j) (cm_target_hash (gj_commit j)) (ac_unvisited (vv_chain v))"
    using inv by (simp_all add: votes_inv_def)
  note d = ensure_descendant_sound [OF _ _ counted(5), unfolded parents, OF acyc visited]
  have "votes_inv J set_id A j (acc @ [vote]) v'"
    using inv counted d by (auto simp: votes_inv_def valid_vote_def voter_weight_def)
  then show ?thesis by blast
qed

lemma votes_inv_loop:
  assumes acyc: "acyclic_parents (justification_parents J j)" and "votes_inv J set_id A j acc v"
    and "verify_precommits J set_id A j cbs i pcs v = Some (Inr v')"
  shows "\<exists>acc'. votes_inv J set_id A j acc' v' \<and> set acc' \<subseteq> set acc \<union> set pcs"
  using assms(2,3)
proof (induction pcs arbitrary: acc v i)
  case (Cons vote pcs)
  then obtain v1 where v1: "verify_precommit J set_id A j cbs i vote v = Some (Inr v1)"
    and rest: "verify_precommits J set_id A j cbs (Suc i) pcs v1 = Some (Inr v')"
    by (auto split: option.splits sum.splits)
  obtain acc1 where acc1: "votes_inv J set_id A j acc1 v1" "set acc1 \<subseteq> insert vote (set acc)"
    using votes_inv_step [OF acyc Cons.prems(1) v1] by fastforce
  from Cons.IH [OF acc1(1) rest] acc1(2) show ?case by fastforce
qed auto

lemma votes_inv_start:
  "votes_inv J set_id A j [] \<lparr>vv_chain = ancestry_chain_new (jc_header_hash J) (jc_header_parent_hash J) (gj_votes_ancestries j),
     vv_votes = {}, vv_cumulative_weight = 0, vv_callbacks = cb\<rparr>"
  using ancestry_chain_new_visited [of "jc_header_hash J" "jc_header_parent_hash J" "gj_votes_ancestries j"]
  by (simp add: votes_inv_def ancestry_chain_new_props)

lemma verify_with_callbacks_Inr:
  assumes "verify_justification_with_callbacks J target set_id A j cbs cb = Some (Inr cb')"
  obtains v where "target = (cm_target_hash (gj_commit j), cm_target_number (gj_commit j))"
    "verify_precommits J set_id A j cbs 0 (cm_precommits (gj_commit j))
       \<lparr>vv_chain = ancestry_chain_new (jc_header_hash J) (jc_header_parent_hash J) (gj_votes_ancestries j),
        vv_votes = {}, vv_cumulative_weight = 0, vv_callbacks = cb\<rparr> = Some (Inr v)"
    "ac_unvisited (vv_chain v) = []" "vs_threshold A \<le> vv_cumulative_weight v" "cb' = vv_callbacks v"
  using assms
  by (auto simp: verify_justification_with_callbacks_def Let_def split: if_splits option.splits sum.splits)

text \<open>Whatever the callbacks are, an accepted justification carries enough valid votes of distinct voters.\<close>

lemma verify_with_callbacks_sound:
  assumes "acyclic_parents (justification_parents J j)"
    and "verify_justification_with_callbacks J target set_id A j cbs cb = Some (Inr cb')"
  shows "target = (cm_target_hash (gj_commit j), cm_target_number (gj_commit j)) \<and>
    (\<exists>acc. set acc \<subseteq> set (cm_precommits (gj_commit j)) \<and> distinct (map sp_id acc) \<and>
       (\<forall>vote \<in> set acc. valid_vote J set_id A j vote) \<and>
       unat (vs_threshold A) \<le> (\<Sum>vote \<leftarrow> acc. voter_weight A (sp_id vote)))"
  using assms(2)
proof (cases rule: verify_with_callbacks_Inr)
  case (1 v)
  from votes_inv_loop [OF assms(1) votes_inv_start 1(2)] obtain acc
    where "votes_inv J set_id A j acc v" "set acc \<subseteq> set (cm_precommits (gj_commit j))" by auto
  then show ?thesis
    using 1 by (intro conjI exI [of _ acc]) (auto simp: votes_inv_def word_le_nat_alt)
qed

section \<open>No panic\<close>

lemma sum_list_distinct_le:
  fixes A :: "'id voter_set"
  assumes "finite (dom (vs_get A))" and "distinct ids" and "set ids \<subseteq> dom (vs_get A)"
  shows "(\<Sum>i \<leftarrow> ids. voter_weight A i) \<le> (\<Sum>i \<in> dom (vs_get A). voter_weight A i)"
  using assms by (simp add: sum_list_distinct_conv_sum_set sum_mono2)

lemma verify_precommit_total:
  assumes laws: "voter_set_laws A" and inv: "votes_inv J set_id A j acc v"
  shows "verify_precommit J set_id A j cbs i vote v \<noteq> None"
proof
  assume none: "verify_precommit J set_id A j cbs i vote v = None"
  then obtain w where w: "vs_get A (sp_id vote) = Some w" "sp_id vote \<notin> vv_votes v"
    and c: "checked_add (vv_cumulative_weight v) w = None"
    by (auto simp: verify_precommit_def Let_def bind_eq_None_conv split: if_splits option.splits sum.splits)
  have "(\<Sum>i \<leftarrow> map sp_id acc @ [sp_id vote]. voter_weight A i) \<le> (\<Sum>i \<in> dom (vs_get A). voter_weight A i)"
    using laws inv w by (intro sum_list_distinct_le) (auto simp: voter_set_laws_def votes_inv_def valid_vote_def)
  then have "unat (vv_cumulative_weight v) + unat w < 2 ^ 64"
    using laws inv w by (auto simp: voter_set_laws_def votes_inv_def voter_weight_def Let_def comp_def)
  with c show False by (simp add: checked_add_def)
qed

lemma verify_precommits_total:
  assumes laws: "voter_set_laws A" and acyc: "acyclic_parents (justification_parents J j)"
    and "votes_inv J set_id A j acc v"
  shows "verify_precommits J set_id A j cbs i pcs v \<noteq> None"
  using assms(3)
proof (induction pcs arbitrary: acc v i)
  case (Cons vote pcs)
  show ?case
  proof (cases "verify_precommit J set_id A j cbs i vote v")
    case None
    then show ?thesis using verify_precommit_total [OF laws Cons.prems] by blast
  next
    case (Some r)
    show ?thesis
    proof (cases r)
      case (Inr v1)
      then obtain acc1 where "votes_inv J set_id A j acc1 v1"
        using votes_inv_step [OF acyc Cons.prems] Some by blast
      then show ?thesis using Cons.IH Some Inr by simp
    qed (simp add: Some)
  qed
qed simp

lemma verify_with_callbacks_total:
  assumes "voter_set_laws A" and "acyclic_parents (justification_parents J j)"
  shows "verify_justification_with_callbacks J target set_id A j cbs cb \<noteq> None"
  using verify_precommits_total [OF assms votes_inv_start, of set_id cbs 0 "cm_precommits (gj_commit j)" cb]
  by (auto simp: verify_justification_with_callbacks_def Let_def split: option.splits sum.splits)

section \<open>Optimization\<close>

text \<open>The loop variables without the state of the callbacks.\<close>

definition strict_vars :: "('hash, 'id, 'cb) verification_vars \<Rightarrow> ('hash, 'id, unit) verification_vars" where
  "strict_vars v = \<lparr>vv_chain = vv_chain v, vv_votes = vv_votes v, vv_cumulative_weight = vv_cumulative_weight v,
     vv_callbacks = ()\<rparr>"

lemma remove_precommits_append:
  "remove_precommits (xs @ ys) ps = Option.bind (remove_precommits xs ps) (remove_precommits ys)"
  by (induction xs arbitrary: ps) (auto split: Option.bind_splits)

lemma vec_remove_middle: "length pre = i \<Longrightarrow> vec_remove i (pre @ x # xs) = Some (pre @ xs)"
  by (auto simp: vec_remove_def)

text \<open>A precommit is either recorded for removal or counted exactly as by the strict verification.\<close>

lemma verify_precommit_optimization:
  assumes "verify_precommit J set_id A j optimization_callbacks i vote v = Some (Inr v')"
  obtains (removed) "v' = v\<lparr>vv_callbacks := vv_callbacks v @ [i]\<rparr>"
  | (kept) "vv_callbacks v' = vv_callbacks v"
      "\<And>k. verify_precommit J set_id A j strict_verification_callbacks k vote (strict_vars v) = Some (Inr (strict_vars v'))"
proof (cases "vs_threshold A \<le> vv_cumulative_weight v \<or> vs_get A (sp_id vote) = None \<or> sp_id vote \<in> vv_votes v")
  case True
  then show thesis
    using assms removed
    by (auto simp: verify_precommit_def optimization_callbacks_def split: if_splits option.splits)
next
  case False
  then show thesis
    using assms kept
    by (auto simp: verify_precommit_def strict_vars_def Let_def bind_eq_Some_conv split: if_splits sum.splits)
qed

lemma verify_precommits_optimization:
  assumes "verify_precommits J set_id A j optimization_callbacks i pcs v = Some (Inr v')"
  shows "\<exists>idxs kept. vv_callbacks v' = vv_callbacks v @ idxs \<and> set kept \<subseteq> set pcs \<and>
    (\<forall>pre. length pre = i \<longrightarrow> remove_precommits (rev idxs) (pre @ pcs) = Some (pre @ kept)) \<and>
    (\<forall>k. verify_precommits J set_id A j strict_verification_callbacks k kept (strict_vars v) = Some (Inr (strict_vars v')))"
  using assms
proof (induction pcs arbitrary: v i)
  case (Cons vote pcs)
  then obtain v1 where v1: "verify_precommit J set_id A j optimization_callbacks i vote v = Some (Inr v1)"
    and rest: "verify_precommits J set_id A j optimization_callbacks (Suc i) pcs v1 = Some (Inr v')"
    by (auto split: option.splits sum.splits)
  from Cons.IH [OF rest] obtain idxs kept where
    cb: "vv_callbacks v' = vv_callbacks v1 @ idxs" and sub: "set kept \<subseteq> set pcs"
    and rem: "\<And>pre. length pre = Suc i \<Longrightarrow> remove_precommits (rev idxs) (pre @ pcs) = Some (pre @ kept)"
    and run: "\<And>k. verify_precommits J set_id A j strict_verification_callbacks k kept (strict_vars v1) = Some (Inr (strict_vars v'))"
    by blast
  have rem': "remove_precommits (rev idxs) (pre @ vote # pcs) = Some (pre @ vote # kept)" if "length pre = i" for pre
    using rem [of "pre @ [vote]"] that by simp
  from v1 show ?case
  proof (cases rule: verify_precommit_optimization)
    case removed
    have "strict_vars v1 = strict_vars v" by (simp add: removed strict_vars_def)
    then show ?thesis
      using cb sub rem' run removed
      by (intro exI [of _ "i # idxs"] exI [of _ kept])
         (auto simp: remove_precommits_append vec_remove_middle)
  next
    case kept': kept
    then show ?thesis
      using cb sub rem' run by (intro exI [of _ idxs] exI [of _ "vote # kept"]) auto
  qed
next
  case Nil
  then show ?case by (intro exI [of _ "[]"]) simp
qed

lemma verify_precommit_commit_irrelevant:
  "verify_precommit J set_id A (j\<lparr>gj_commit := (gj_commit j)\<lparr>cm_precommits := x\<rparr>\<rparr>) cbs i vote v =
     verify_precommit J set_id A j cbs i vote v"
  by (cases "vs_get A (sp_id vote)") (simp_all add: verify_precommit_def Let_def split: sum.split)

lemma verify_precommits_commit_irrelevant:
  "verify_precommits J set_id A (j\<lparr>gj_commit := (gj_commit j)\<lparr>cm_precommits := x\<rparr>\<rparr>) cbs i pcs v =
     verify_precommits J set_id A j cbs i pcs v"
  by (induction pcs arbitrary: i v)
     (simp_all add: verify_precommit_commit_irrelevant split: option.split sum.split)

lemma optimization_passes:
  assumes "verify_justification_with_callbacks J target set_id A j optimization_callbacks [] = Some (Inr idxs)"
  shows "\<exists>kept. set kept \<subseteq> set (cm_precommits (gj_commit j)) \<and>
    optimize idxs j = Some (j\<lparr>gj_commit := (gj_commit j)\<lparr>cm_precommits := kept\<rparr>\<rparr>) \<and>
    verify_justification J target set_id A (j\<lparr>gj_commit := (gj_commit j)\<lparr>cm_precommits := kept\<rparr>\<rparr>) = Some (Inr ())"
  using assms
proof (cases rule: verify_with_callbacks_Inr)
  case (1 v)
  from verify_precommits_optimization [OF 1(2)] obtain kept where
    sub: "set kept \<subseteq> set (cm_precommits (gj_commit j))"
    and rem: "remove_precommits (rev idxs) (cm_precommits (gj_commit j)) = Some kept"
    and run: "verify_precommits J set_id A j strict_verification_callbacks 0 kept
       \<lparr>vv_chain = ancestry_chain_new (jc_header_hash J) (jc_header_parent_hash J) (gj_votes_ancestries j),
        vv_votes = {}, vv_cumulative_weight = 0, vv_callbacks = ()\<rparr> = Some (Inr (strict_vars v))"
    using 1(5) by (auto simp: strict_vars_def)
  show ?thesis
    using 1 sub rem run
    by (intro exI [of _ kept])
       (auto simp: optimize_def verify_justification_def verify_justification_with_callbacks_def Let_def
         verify_precommits_commit_irrelevant strict_vars_def)
qed

section \<open>Properties\<close>

definition voters_total :: "'id voter_set \<Rightarrow> nat" where
  "voters_total A = (\<Sum>i \<in> dom (vs_get A). voter_weight A i)"

lemma two_thirds_arith: "(m::nat) - (m - 1) div 3 \<le> n \<Longrightarrow> 0 < m \<Longrightarrow> 2 * m < 3 * n"
  by (cases m) simp_all

lemma threshold_two_thirds:
  assumes "voter_set_laws A" and "unat (vs_threshold A) \<le> n"
  shows "2 * voters_total A < 3 * n"
  using assms two_thirds_arith [of "voters_total A" n]
  by (simp add: voter_set_laws_def voters_total_def Let_def)

text \<open>C8: a justification that the strict verification accepts is for the requested header, and it
  carries correctly signed precommits of different known voters for that header or its descendants
  whose weights sum up to more than two thirds of all voters.\<close>

theorem verify_justification_sound:
  assumes "voter_set_laws A" and "acyclic_parents (justification_parents J j)"
    and "verify_justification J target set_id A j = Some (Inr ())"
  shows "target = (cm_target_hash (gj_commit j), cm_target_number (gj_commit j)) \<and>
    (\<exists>votes. set votes \<subseteq> set (cm_precommits (gj_commit j)) \<and> distinct (map sp_id votes) \<and>
       (\<forall>vote \<in> set votes. valid_vote J set_id A j vote) \<and>
       2 * voters_total A < 3 * (\<Sum>vote \<leftarrow> votes. voter_weight A (sp_id vote)))"
  using verify_with_callbacks_sound [OF assms(2) assms(3) [unfolded verify_justification_def]]
    threshold_two_thirds [OF assms(1)] by blast

text \<open>C39: the verification never panics: the sum of the weights cannot overflow for a voter set, and
  the optimizer never removes a precommit that does not exist.\<close>

theorem justification_verification_total:
  assumes "voter_set_laws A" and "acyclic_parents (justification_parents J j)"
  shows "verify_justification J target set_id A j \<noteq> None \<and>
    verify_and_optimize_justification J target set_id A j \<noteq> None"
proof -
  have "verify_justification_with_callbacks J target set_id A j optimization_callbacks [] \<noteq> None"
    by (rule verify_with_callbacks_total [OF assms])
  then show ?thesis
    using verify_with_callbacks_total [OF assms, of target set_id strict_verification_callbacks "()"]
      optimization_passes [of J target set_id A j]
    by (auto simp: verify_justification_def verify_and_optimize_justification_def split: option.splits sum.splits)
qed

text \<open>
  The justification that the optimizing verification returns passes the strict verification
  of the pallet; only precommits have been removed.
\<close>

lemma optimized_justification_is_strict:
  assumes "verify_and_optimize_justification J target set_id A j = Some (Inr j')"
  shows "verify_justification J target set_id A j' = Some (Inr ()) \<and>
    set (cm_precommits (gj_commit j')) \<subseteq> set (cm_precommits (gj_commit j)) \<and>
    gj_round j' = gj_round j \<and> gj_votes_ancestries j' = gj_votes_ancestries j"
proof -
  from assms obtain idxs where
    "verify_justification_with_callbacks J target set_id A j optimization_callbacks [] = Some (Inr idxs)"
    and opt: "optimize idxs j = Some j'"
    by (auto simp: verify_and_optimize_justification_def split: option.splits sum.splits)
  from optimization_passes [OF this(1)] show ?thesis by (auto simp: opt)
qed

text \<open>
  The number of precommits that a justification needs when all authorities have the same
  weight is the least number above two thirds of the authorities.
\<close>

lemma required_precommits_exact:
  "(n = 0 \<and> required_justification_precommits n = 0) \<or>
   (2 * unat n < 3 * unat (required_justification_precommits n) \<and>
    3 * (unat (required_justification_precommits n) - 1) \<le> 2 * unat n)"
proof -
  have "saturating_sub n 1 div 3 \<le> n"
    by (simp add: word_le_nat_alt unat_div unat_saturating_sub)
  then have "unat (required_justification_precommits n) = unat n - (unat n - 1) div 3"
    by (simp add: required_justification_precommits_def unat_sub unat_div unat_saturating_sub)
  moreover have "0 < m \<Longrightarrow> 2 * m < 3 * (m - (m - 1) div 3) \<and> 3 * (m - (m - 1) div 3 - 1) \<le> 2 * m" for m :: nat
    by presburger
  ultimately show ?thesis
    by (cases "n = 0") (simp_all add: unat_gt_0 unat_eq_0)
qed

section \<open>An example\<close>

text \<open>
  Four voters of weight one. A header is its hash and its parent hash; a signature is the round and
  the set identifier it was made for.
\<close>

definition sample_justification_config :: "(nat, nat, nat, u64 \<times> u64, nat \<times> nat) justification_config" where
  "sample_justification_config = \<lparr>jc_header_hash = fst, jc_header_parent_hash = snd,
     jc_check_signature = (\<lambda>_ _ signature round set_id. signature = (round, set_id))\<rparr>"

definition sample_voters :: "nat voter_set" where
  "sample_voters = \<lparr>vs_get = (\<lambda>i. if i \<in> {1, 2, 3, 4} then Some 1 else None), vs_threshold = 3\<rparr>"

definition sample_vote :: "nat \<Rightarrow> nat \<Rightarrow> (nat, nat, nat, u64 \<times> u64) signed_precommit" where
  "sample_vote voter header = \<lparr>sp_precommit = \<lparr>pc_target_hash = header, pc_target_number = header\<rparr>,
     sp_signature = (7, 1), sp_id = voter\<rparr>"

definition sample_justification ::
  "(nat, nat, nat, u64 \<times> u64) signed_precommit list \<Rightarrow> (nat, nat, nat, u64 \<times> u64, nat \<times> nat) grandpa_justification" where
  "sample_justification votes = \<lparr>gj_round = 7,
     gj_commit = \<lparr>cm_target_hash = 10, cm_target_number = 10, cm_precommits = votes\<rparr>,
     gj_votes_ancestries = [(11, 10)]\<rparr>"

definition sample_strict_votes :: "(nat, nat, nat, u64 \<times> u64) signed_precommit list" where
  "sample_strict_votes = [sample_vote 1 10, sample_vote 2 11, sample_vote 3 10]"

definition sample_relay_votes :: "(nat, nat, nat, u64 \<times> u64) signed_precommit list" where
  "sample_relay_votes = [sample_vote 1 10, sample_vote 9 10, sample_vote 2 11, sample_vote 1 11,
     sample_vote 3 10, sample_vote 4 10]"

lemmas justification_eval = sample_justification_config_def sample_voters_def sample_vote_def sample_justification_def
  sample_strict_votes_def sample_relay_votes_def verify_justification_def verify_and_optimize_justification_def
  verify_justification_with_callbacks_def verify_precommit_def strict_verification_callbacks_def
  optimization_callbacks_def optimize_def vec_remove_def ancestry_chain_new_def ensure_descendant_def
  descendant_loop.simps checked_add_def Let_def word_le_nat_alt word_less_nat_alt

lemma sample_voters_laws: "voter_set_laws sample_voters"
proof -
  have dom: "dom (vs_get sample_voters) = {1, 2, 3, 4}"
    by (auto simp: sample_voters_def dom_def split: if_splits)
  have "ran (vs_get sample_voters) = {1}"
    by (auto simp: sample_voters_def ran_def split: if_splits)
  then show ?thesis
    by (simp add: voter_set_laws_def dom) (simp add: voter_weight_def sample_voters_def)
qed

lemma sample_acyclic: "acyclic_parents (justification_parents sample_justification_config (sample_justification votes))"
proof -
  have "{(h, p). justification_parents sample_justification_config (sample_justification votes) h = Some p} = {(11, 10)}"
    by (auto simp: sample_justification_config_def sample_justification_def split: if_splits)
  then show ?thesis by (simp add: acyclic_parents_def acyclic_insert) (simp add: acyclic_def)
qed

lemma sample_strict_accepted:
  "verify_justification sample_justification_config (10, 10) 1 sample_voters (sample_justification sample_strict_votes) =
     Some (Inr ())"
  by (simp add: justification_eval)

lemma sample_relay_optimized:
  "verify_and_optimize_justification sample_justification_config (10, 10) 1 sample_voters
     (sample_justification sample_relay_votes) = Some (Inr (sample_justification sample_strict_votes))"
  by (simp add: justification_eval)

theorem verify_justification_sound_witness:
  "\<exists>votes. set votes \<subseteq> set sample_strict_votes \<and> distinct (map sp_id votes) \<and>
     2 * voters_total sample_voters < 3 * (\<Sum>vote \<leftarrow> votes. voter_weight sample_voters (sp_id vote))"
  using verify_justification_sound [OF sample_voters_laws sample_acyclic sample_strict_accepted]
  by (auto simp: sample_justification_def)

theorem justification_verification_total_witness:
  "verify_justification sample_justification_config (10, 10) 2 sample_voters (sample_justification sample_relay_votes) \<noteq> None"
  using justification_verification_total [OF sample_voters_laws sample_acyclic] by blast

end
