(* ===== verification/Header_Chain.thy ===== *)
theory Header_Chain
  imports Bridge_Runtime Storage_Proof Justification
begin

text \<open>
  Primitives of header chains (\<open>primitives/header-chain/src/lib.rs\<close> and \<open>storage_keys.rs\<close>): stored
  header data, reading storage proofs below a finalized header, authority sets and the consensus log
  of GRANDPA.

  Headers, their hash and their digest are Substrate types; \<open>header_ops\<close> collects the accessors the
  sources use. \<open>grandpa_log\<close> decodes a digest item as a consensus log of the GRANDPA engine, and
  \<open>convert_first\<close> is the method of the same name of a digest: the first item that converts.
\<close>

section \<open>Headers\<close>

record ('header, 'hash, 'number, 'item) header_ops =
  h_hash :: "'header \<Rightarrow> 'hash"
  h_number :: "'header \<Rightarrow> 'number"
  h_parent_hash :: "'header \<Rightarrow> 'hash"
  h_state_root :: "'header \<Rightarrow> 'hash"
  h_digest :: "'header \<Rightarrow> 'item list"

datatype header_chain_error = UnknownHeader | StorageProofError storage_proof_error

record ('number, 'hash) stored_header_data =
  shd_number :: 'number
  shd_state_root :: 'hash

definition stored_header_data_build ::
  "('header, 'hash, 'number, 'item) header_ops \<Rightarrow> 'header \<Rightarrow> ('number, 'hash) stored_header_data" where
  "stored_header_data_build H header = \<lparr>shd_number = h_number H header, shd_state_root = h_state_root H header\<rparr>"

text \<open>\<open>HeaderChain::parse_finalized_storage_proof\<close> over the method \<open>finalized_header_state_root\<close> of the chain.\<close>

definition parse_finalized_storage_proof ::
  "'hash trie_ops \<Rightarrow> ('hash \<Rightarrow> 'hash option) \<Rightarrow> 'hash \<Rightarrow> bytes list \<Rightarrow> ('hash storage_proof_checker \<Rightarrow> 'r) \<Rightarrow>
     header_chain_error + 'r" where
  "parse_finalized_storage_proof T finalized_header_state_root header_hash storage_proof parse =
     (case finalized_header_state_root header_hash of
        None \<Rightarrow> Inl UnknownHeader
      | Some state_root \<Rightarrow>
          (case storage_proof_checker_new T state_root storage_proof of
             Inl e \<Rightarrow> Inl (StorageProofError e)
           | Inr storage_proof_checker \<Rightarrow> Inr (parse storage_proof_checker)))"

section \<open>Authority sets and the consensus log\<close>

type_synonym 'id authority_list = "('id \<times> u64) list"

record 'id authority_set =
  as_authorities :: "'id authority_list"
  as_set_id :: u64

record ('header, 'id) initialization_data =
  id_header :: 'header
  id_authority_list :: "'id authority_list"
  id_set_id :: u64
  id_operating_mode :: basic_operating_mode

record ('number, 'id) scheduled_change =
  sc_next_authorities :: "'id authority_list"
  sc_delay :: 'number

text \<open>The logs that the sources distinguish; all other logs of the engine are \<open>OtherLog\<close>.\<close>

datatype ('number, 'id) consensus_log =
    ScheduledChange "('number, 'id) scheduled_change"
  | ForcedChange 'number "('number, 'id) scheduled_change"
  | OtherLog

fun convert_first :: "('item \<Rightarrow> 'a option) \<Rightarrow> 'item list \<Rightarrow> 'a option" where
  "convert_first f [] = None"
| "convert_first f (item # items) = (case f item of Some a \<Rightarrow> Some a | None \<Rightarrow> convert_first f items)"

definition find_authorities_change ::
  "('item \<Rightarrow> ('number, 'id) consensus_log option) \<Rightarrow> 'item list \<Rightarrow> ('number, 'id) scheduled_change option" where
  "find_authorities_change grandpa_log digest =
     (case convert_first grandpa_log digest of
        Some (ScheduledChange change) \<Rightarrow> Some change
      | _ \<Rightarrow> None)"

definition schedules_authorities_change :: "('item \<Rightarrow> ('number, 'id) consensus_log option) \<Rightarrow> 'item list \<Rightarrow> bool" where
  "schedules_authorities_change grandpa_log digest \<longleftrightarrow> find_authorities_change grandpa_log digest \<noteq> None"

datatype ('header, 'just, 'id) bridge_grandpa_call =
    BridgeSubmitFinalityProof 'header 'just
  | BridgeInitialize "('header, 'id) initialization_data"

section \<open>Storage keys of the GRANDPA pallet\<close>

definition PALLET_OPERATING_MODE_VALUE_NAME :: string where
  "PALLET_OPERATING_MODE_VALUE_NAME = ''PalletOperatingMode''"

definition BEST_FINALIZED_VALUE_NAME :: string where
  "BEST_FINALIZED_VALUE_NAME = ''BestFinalized''"

definition CURRENT_AUTHORITY_SET_VALUE_NAME :: string where
  "CURRENT_AUTHORITY_SET_VALUE_NAME = ''CurrentAuthoritySet''"

text \<open>\<open>storage_value_final_key\<close> is the function of FRAME that the crate re-exports.\<close>

definition grandpa_pallet_operating_mode_key :: "(bytes \<Rightarrow> bytes \<Rightarrow> bytes) \<Rightarrow> string \<Rightarrow> bytes" where
  "grandpa_pallet_operating_mode_key storage_value_final_key pallet_prefix =
     storage_value_final_key (as_bytes pallet_prefix) (as_bytes PALLET_OPERATING_MODE_VALUE_NAME)"

definition current_authority_set_key :: "(bytes \<Rightarrow> bytes \<Rightarrow> bytes) \<Rightarrow> string \<Rightarrow> bytes" where
  "current_authority_set_key storage_value_final_key pallet_prefix =
     storage_value_final_key (as_bytes pallet_prefix) (as_bytes CURRENT_AUTHORITY_SET_VALUE_NAME)"

definition best_finalized_key :: "(bytes \<Rightarrow> bytes \<Rightarrow> bytes) \<Rightarrow> string \<Rightarrow> bytes" where
  "best_finalized_key storage_value_final_key pallet_prefix =
     storage_value_final_key (as_bytes pallet_prefix) (as_bytes BEST_FINALIZED_VALUE_NAME)"

section \<open>Facts\<close>

lemma convert_first_Some:
  assumes "convert_first f items = Some a"
  obtains before item after where "items = before @ item # after" "f item = Some a" "\<forall>i \<in> set before. f i = None"
  using assms
proof (induction items arbitrary: thesis)
  case (Cons item items)
  show ?case
  proof (cases "f item")
    case None
    then have "convert_first f items = Some a" using Cons.prems(2) by simp
    then obtain before it after where "items = before @ it # after" "f it = Some a" "\<forall>i \<in> set before. f i = None"
      using Cons.IH by blast
    then show ?thesis using None Cons.prems(1) [of "item # before" it after] by simp
  next
    case (Some b)
    then show ?thesis using Cons.prems(2) Cons.prems(1) [of "[]" item items] by simp
  qed
qed simp

lemma convert_first_None: "convert_first f items = None \<longleftrightarrow> (\<forall>i \<in> set items. f i = None)"
  by (induction items) (auto split: option.splits)

text \<open>What \<open>parse_finalized_storage_proof\<close> hands to the parser is a fresh checker of a known header.\<close>

lemma parse_finalized_storage_proof_Inr:
  assumes "parse_finalized_storage_proof T roots header_hash proof parse = Inr r"
  obtains root checker where "roots header_hash = Some root" "storage_proof_checker_new T root proof = Inr checker"
    "r = parse checker"
  using assms by (auto simp: parse_finalized_storage_proof_def split: option.splits sum.splits)

end
