(* ===== verification/Ring_Import.thy ===== *)
theory Ring_Import
  imports Rust_Prelude
begin

text \<open>
  The ring buffers of imported headers. The GRANDPA and the parachains pallets keep a bounded number
  of imported items: a map from items' hashes to their data, a map from ring positions to hashes, and
  the position of the next import, which overwrites the oldest position and prunes its item. The
  locale \<open>ring_import\<close> states what an import does to these three storage items; its lemmas give the
  bound on the storage, the consistency of the two maps and how long an item is kept. The pallets
  interpret it on their import operations.
\<close>

section \<open>The state of a ring\<close>

definition ring_ok :: "u32 \<Rightarrow> u32 \<Rightarrow> (u32 \<rightharpoonup> 'h) \<Rightarrow> ('h \<rightharpoonup> 'v) \<Rightarrow> bool" where
  "ring_ok keep pointer slots items \<longleftrightarrow>
     (pointer < keep \<or> pointer = 0) \<and> dom slots \<subseteq> {i. i < keep} \<and> inj_on slots (dom slots) \<and> dom items = ran slots"

text \<open>The part that holds even when an item is imported while it is still in the ring.\<close>

definition ring_bounded :: "u32 \<Rightarrow> u32 \<Rightarrow> (u32 \<rightharpoonup> 'h) \<Rightarrow> ('h \<rightharpoonup> 'v) \<Rightarrow> bool" where
  "ring_bounded keep pointer slots items \<longleftrightarrow>
     (pointer < keep \<or> pointer = 0) \<and> dom slots \<subseteq> {i. i < keep} \<and> dom items \<subseteq> ran slots"

lemma ring_ok_bounded: "ring_ok keep pointer slots items \<Longrightarrow> ring_bounded keep pointer slots items"
  by (simp add: ring_ok_def ring_bounded_def)

text \<open>The number of imports after which a position is overwritten.\<close>

definition ring_distance :: "u32 \<Rightarrow> u32 \<Rightarrow> u32 \<Rightarrow> nat" where
  "ring_distance keep pointer i = (unat i + unat keep - unat pointer) mod unat keep"

lemma ring_ok_empty: "ring_ok keep 0 Map.empty Map.empty"
  by (simp add: ring_ok_def)

lemma ring_bounded_bound:
  assumes "ring_bounded keep pointer slots items"
  shows "finite (dom items)" and "card (dom items) \<le> unat keep"
proof -
  have eq: "{i. i < keep} = of_nat ` {..<unat keep}"
  proof (intro equalityI subsetI)
    fix i assume "i \<in> {i. i < keep}"
    then show "i \<in> of_nat ` {..<unat keep}"
      by (intro image_eqI [of _ _ "unat i"]) (simp_all add: word_less_nat_alt)
  next
    fix i :: u32 assume "i \<in> of_nat ` {..<unat keep}"
    then obtain n where n: "i = of_nat n" "n < unat keep" by auto
    moreover have "n < 2 ^ 32" using n(2) unat_le_max [of keep] by simp
    ultimately show "i \<in> {i. i < keep}" by (simp add: word_less_nat_alt unat_of_nat_lt)
  qed
  have slots: "dom slots \<subseteq> {i. i < keep}" and items: "dom items \<subseteq> ran slots"
    using assms by (simp_all add: ring_bounded_def)
  have fin: "finite {i. i < keep}" by (simp add: eq)
  have ran: "ran slots = (\<lambda>i. the (slots i)) ` dom slots"
    by (force simp: ran_def dom_def image_def)
  have fr: "finite (ran slots)" using finite_subset [OF slots fin] by (simp add: ran)
  show "finite (dom items)" by (rule finite_subset [OF items fr])
  have "card (dom items) \<le> card (ran slots)" by (rule card_mono [OF fr items])
  also have "\<dots> \<le> card (dom slots)"
    using finite_subset [OF slots fin] by (simp add: ran card_image_le)
  also have "\<dots> \<le> card {i. i < keep}" by (rule card_mono [OF fin slots])
  also have "\<dots> \<le> unat keep" unfolding eq using card_image_le [of "{..<unat keep}"] by simp
  finally show "card (dom items) \<le> unat keep" .
qed

lemmas ring_ok_bound = ring_bounded_bound [OF ring_ok_bounded]

lemma ring_next:
  assumes "pointer < keep \<or> pointer = 0" and "keep \<noteq> 0"
  shows "unat ((pointer + 1) mod keep) = Suc (unat pointer) mod unat keep" and "(pointer + 1) mod keep < keep"
    and "pointer < keep"
proof -
  show lt: "pointer < keep" using assms by (auto simp: word_gt_0)
  then show "unat ((pointer + 1) mod keep) = Suc (unat pointer) mod unat keep"
    by (simp add: unat_mod unat_succ_lt)
  then show "(pointer + 1) mod keep < keep"
    using lt by (simp add: word_less_nat_alt)
qed

lemma ring_distance_next:
  assumes "i < keep" and "pointer < keep" and "i \<noteq> pointer"
  shows "Suc (ring_distance keep ((pointer + 1) mod keep) i) = ring_distance keep pointer i"
proof -
  have nz: "keep \<noteq> 0" using assms(1) by auto
  note eq = ring_next(1) [OF disjI1 [OF assms(2)] nz]
  have ik: "unat i < unat keep" and pk: "unat pointer < unat keep" and ne: "unat i \<noteq> unat pointer"
    using assms by (auto simp: word_less_nat_alt dest: unsigned_word_eqI)
  have "Suc ((a + k - Suc p mod k) mod k) = (a + k - p) mod k" if "a < k" "p < k" "a \<noteq> p" for a k p :: nat
  proof (cases "Suc p = k")
    case True
    then show ?thesis using that by (auto simp: mod_if)
  next
    case False
    then have "Suc p < k" using that by simp
    then show ?thesis using that by (cases "a < p") (simp_all add: mod_if, linarith+)
  qed
  from this [OF ik pk ne] show ?thesis by (simp add: ring_distance_def eq)
qed

lemma ring_distance_pointer: "pointer < keep \<Longrightarrow> ring_distance keep pointer pointer = 0"
  by (simp add: ring_distance_def)

lemma ring_distance_last:
  assumes "pointer < keep"
  shows "Suc (ring_distance keep ((pointer + 1) mod keep) pointer) = unat keep"
proof -
  have nz: "keep \<noteq> 0" using assms by auto
  have pk: "unat pointer < unat keep" using assms by (simp add: word_less_nat_alt)
  have "Suc ((p + k - Suc p mod k) mod k) = k" if "p < k" for p k :: nat
    using that by (cases "Suc p = k") (auto simp: mod_if)
  from this [OF pk] show ?thesis by (simp add: ring_distance_def ring_next(1) [OF disjI1 [OF assms] nz])
qed

section \<open>The interface\<close>

locale ring_import =
  fixes keep :: "'c \<Rightarrow> u32"
    and pointer :: "'s \<Rightarrow> u32" and slots :: "'s \<Rightarrow> u32 \<rightharpoonup> 'h" and items :: "'s \<Rightarrow> 'h \<rightharpoonup> 'v"
    and key :: "'c \<Rightarrow> 'a \<Rightarrow> 'h" and val :: "'c \<Rightarrow> 'a \<Rightarrow> 'v"
    and import_item :: "'c \<Rightarrow> 'a \<Rightarrow> 's \<Rightarrow> 's option"
  assumes import_panics: "import_item c a s = None \<longleftrightarrow> keep c = 0"
    and import_pointer: "import_item c a s = Some s' \<Longrightarrow> pointer s' = (pointer s + 1) mod keep c"
    and import_slots: "import_item c a s = Some s' \<Longrightarrow> slots s' = (slots s)(pointer s \<mapsto> key c a)"
    and import_items: "import_item c a s = Some s' \<Longrightarrow>
      items s' = (case slots s (pointer s) of
                    None \<Rightarrow> (items s)(key c a \<mapsto> val c a)
                  | Some pruned \<Rightarrow> ((items s)(key c a \<mapsto> val c a))(pruned := None))"
begin

lemma import_ring_bounded:
  assumes ok: "ring_bounded (keep c) (pointer s) (slots s) (items s)" and imp: "import_item c a s = Some s'"
  shows "ring_bounded (keep c) (pointer s') (slots s') (items s')"
proof -
  have keep: "keep c \<noteq> 0" using imp import_panics [of c a s] by auto
  have ptr: "pointer s < keep c \<or> pointer s = 0" and dom: "dom (slots s) \<subseteq> {i. i < keep c}"
    and items: "dom (items s) \<subseteq> ran (slots s)"
    using ok by (simp_all add: ring_bounded_def)
  note next_ptr = ring_next [OF ptr keep]
  have "h \<in> ran (slots s')" if "items s' h = Some v" for h v
  proof (cases "h = key c a")
    case True
    then show ?thesis by (auto simp: import_slots [OF imp] ran_def)
  next
    case False
    then have "slots s (pointer s) \<noteq> Some h" and "items s h = Some v"
      using that by (auto simp: import_items [OF imp] split: option.splits if_splits)
    moreover obtain i where "slots s i = Some h" using items \<open>items s h = Some v\<close> by (auto simp: ran_def)
    ultimately show ?thesis by (auto simp: import_slots [OF imp] ran_def intro!: exI [of _ i])
  qed
  then show ?thesis
    using dom next_ptr by (auto simp: ring_bounded_def import_pointer [OF imp] import_slots [OF imp])
qed

lemma import_ring_ok:
  assumes ok: "ring_ok (keep c) (pointer s) (slots s) (items s)"
    and imp: "import_item c a s = Some s'" and new: "key c a \<notin> dom (items s)"
  shows "ring_ok (keep c) (pointer s') (slots s') (items s')" and "items s' (key c a) = Some (val c a)"
proof -
  have keep: "keep c \<noteq> 0" using imp import_panics [of c a s] by auto
  have ptr: "pointer s < keep c \<or> pointer s = 0" and dom: "dom (slots s) \<subseteq> {i. i < keep c}"
    and inj: "inj_on (slots s) (dom (slots s))" and items: "dom (items s) = ran (slots s)"
    using ok by (simp_all add: ring_ok_def)
  note next_ptr = ring_next [OF ptr keep]
  have fresh: "slots s i \<noteq> Some (key c a)" for i
    using new items by (auto simp: ran_def)
  show val: "items s' (key c a) = Some (val c a)"
    using fresh by (auto simp: import_items [OF imp] split: option.split)
  have "dom (items s') = ran (slots s')"
  proof (cases "slots s (pointer s)")
    case None
    then show ?thesis
      using items by (simp add: import_items [OF imp] import_slots [OF imp])
  next
    case (Some pruned)
    have "slots s i \<noteq> Some pruned" if "i \<noteq> pointer s" for i
      using inj Some that by (auto simp: inj_on_def dom_def)
    then have "ran ((slots s)(pointer s \<mapsto> key c a)) = insert (key c a) (ran (slots s) - {pruned})"
      using Some fresh by (auto simp: ran_def split: if_splits) (metis option.inject)
    then show ?thesis
      using items fresh [of "pointer s"] Some
      by (auto simp: import_items [OF imp] import_slots [OF imp] dom_def set_eq_iff)
  qed
  moreover have "inj_on (slots s') (dom (slots s'))"
    using inj fresh fresh [THEN not_sym] by (auto simp: import_slots [OF imp] inj_on_def)
  ultimately show "ring_ok (keep c) (pointer s') (slots s') (items s')"
    using dom next_ptr by (auto simp: ring_ok_def import_pointer [OF imp] import_slots [OF imp])
qed

text \<open>An item in a position that is not the next one survives the import and comes one step nearer.\<close>

lemma import_keeps:
  assumes ok: "ring_ok (keep c) (pointer s) (slots s) (items s)"
    and imp: "import_item c a s = Some s'" and new: "key c a \<notin> dom (items s)"
    and at: "slots s i = Some h" "items s h = Some v" and dist: "0 < ring_distance (keep c) (pointer s) i"
  shows "slots s' i = Some h" and "items s' h = Some v"
    and "Suc (ring_distance (keep c) (pointer s') i) = ring_distance (keep c) (pointer s) i"
proof -
  have keep: "keep c \<noteq> 0" using imp import_panics [of c a s] by auto
  have ptr: "pointer s < keep c" using ring_next(3) [OF _ keep, of "pointer s"] ok by (simp add: ring_ok_def)
  have i: "i < keep c" using ok at(1) by (auto simp: ring_ok_def)
  have ne: "i \<noteq> pointer s" using dist ring_distance_pointer [OF ptr] by auto
  show "slots s' i = Some h" using at ne by (simp add: import_slots [OF imp])
  show "Suc (ring_distance (keep c) (pointer s') i) = ring_distance (keep c) (pointer s) i"
    by (simp add: import_pointer [OF imp] ring_distance_next [OF i ptr ne])
  have "slots s (pointer s) \<noteq> Some h"
    using ok at(1) ne by (auto simp: ring_ok_def inj_on_def dom_def)
  moreover have "h \<noteq> key c a" using at new by auto
  ultimately show "items s' h = Some v"
    using at(2) by (auto simp: import_items [OF imp] split: option.split)
qed

end

end
