(* ===== verification/Grandpa_Pallet.thy ===== *)
theory Grandpa_Pallet
  imports Header_Chain Ring_Import
begin

text \<open>
  The GRANDPA pallet (\<open>modules/grandpa/src/lib.rs\<close>, \<open>storage_types.rs\<close> and \<open>call_ext.rs\<close>): an
  on-chain light client that imports finalized headers of the bridged chain and follows its
  authority sets.

  Parameters of the configuration are the bridged chain (headers, digests, encoded sizes), the
  signature check, the constructor \<open>VoterSet::new\<close> of \<open>finality_grandpa\<close> and the benchmarked weight.
\<close>

section \<open>Configuration, storage and errors\<close>

record ('o, 'acc, 'header, 'hash, 'number, 'item, 'id, 'sig, 'w) grandpa_config =
  "('o, 'acc) origin_config" +
  gc_weight_ops :: "'w weight_ops"
  gc_db_weight :: "'w db_weight"
  gc_header :: "('header, 'hash, 'number, 'item) header_ops"
  gc_grandpa_log :: "'item \<Rightarrow> ('number, 'id) consensus_log option"
  gc_check_signature :: "('hash, 'number) precommit \<Rightarrow> 'id \<Rightarrow> 'sig \<Rightarrow> u64 \<Rightarrow> u64 \<Rightarrow> bool"
  gc_voter_set_new :: "'id authority_list \<Rightarrow> 'id voter_set option"
  gc_max_requests :: u32
  gc_headers_to_keep :: u32
  gc_max_authorities_count :: u32
  gc_reasonable_headers_in_justification_ancestry :: u32
  gc_average_header_size_in_justification :: u32
  gc_max_header_size :: u32
  gc_number_max_encoded_len :: nat
  gc_hash_max_encoded_len :: nat
  gc_authority_id_max_encoded_len :: nat
  gc_authority_max_encoded_len :: u64
  gc_header_encoded_size :: "'header \<Rightarrow> nat"
  gc_justification_encoded_size :: "('hash, 'number, 'id, 'sig, 'header) grandpa_justification \<Rightarrow> nat"
  gc_submit_finality_proof_weight :: "u32 \<Rightarrow> u32 \<Rightarrow> 'w"

text \<open>A stored authority set has the fields of an authority set; the number of authorities is bounded.\<close>

type_synonym 'id stored_authority_set = "'id authority_set"

datatype grandpa_error =
    InvalidJustification
  | InvalidAuthoritySet
  | TooManyRequests
  | OldHeader
  | UnsupportedScheduledChange
  | NotInitialized
  | AlreadyInitialized
  | TooManyAuthoritiesInSet
  | GrandpaBridgeModule owned_bridge_module_error

record ('acc, 'hash, 'number, 'id) grandpa_state =
  gs_request_count :: u32
  gs_initial_hash :: 'hash
  gs_best_finalized :: "('hash, 'number) header_id option"
  gs_imported_hashes :: "u32 \<rightharpoonup> 'hash"
  gs_imported_hashes_pointer :: u32
  gs_imported_headers :: "'hash \<rightharpoonup> ('number, 'hash) stored_header_data"
  gs_current_authority_set :: "'id stored_authority_set"
  gs_owner :: "'acc option"
  gs_operating_mode :: basic_operating_mode

section \<open>Stored authority sets\<close>

definition stored_authority_set_default :: "'id stored_authority_set" where
  "stored_authority_set_default = \<lparr>as_authorities = [], as_set_id = 0\<rparr>"

definition stored_authority_set_try_new ::
  "u32 \<Rightarrow> 'id authority_list \<Rightarrow> u64 \<Rightarrow> grandpa_error + 'id stored_authority_set" where
  "stored_authority_set_try_new max_authorities_count authorities set_id =
     (if length authorities \<le> unat max_authorities_count
      then Inr \<lparr>as_authorities = authorities, as_set_id = set_id\<rparr>
      else Inl TooManyAuthoritiesInSet)"

definition unused_proof_size ::
  "('o, 'acc, 'header, 'hash, 'number, 'item, 'id, 'sig, 'w) grandpa_config \<Rightarrow> 'id stored_authority_set \<Rightarrow> u64" where
  "unused_proof_size C authority_set =
     (let single_authority_max_encoded_len = gc_authority_max_encoded_len C;
          extra_authorities = saturating_sub (gc_max_authorities_count C) (of_nat (length (as_authorities authority_set)))
      in saturating_mul single_authority_max_encoded_len (ucast extra_authorities))"

section \<open>Owner and operating mode\<close>

definition grandpa_owned ::
  "(('acc, 'hash, 'number, 'id) grandpa_state, 'acc, basic_operating_mode) owned_storage" where
  "grandpa_owned = \<lparr>
     om_owner = gs_owner, om_put_owner = (\<lambda>x s. s\<lparr>gs_owner := x\<rparr>),
     om_mode = gs_operating_mode, om_put_mode = (\<lambda>m s. s\<lparr>gs_operating_mode := m\<rparr>),
     om_mode_halted = basic_is_halted\<rparr>"

lemma grandpa_owned_simps [simp]:
  "om_owner grandpa_owned = gs_owner" "om_put_owner grandpa_owned = (\<lambda>x s. s\<lparr>gs_owner := x\<rparr>)"
  "om_mode grandpa_owned = gs_operating_mode" "om_put_mode grandpa_owned = (\<lambda>m s. s\<lparr>gs_operating_mode := m\<rparr>)"
  "om_mode_halted grandpa_owned = basic_is_halted"
  by (simp_all add: grandpa_owned_def)

interpretation grandpa_module: owned_bridge_module grandpa_owned
  by unfold_locales simp_all

definition grandpa_set_owner ::
  "('o, 'acc, 'z) origin_config_scheme \<Rightarrow> 'o \<Rightarrow> 'acc option \<Rightarrow> ('acc, 'hash, 'number, 'id) grandpa_state \<Rightarrow>
     grandpa_error dispatch_error + ('acc, 'hash, 'number, 'id) grandpa_state" where
  "grandpa_set_owner C origin new_owner s = set_owner C grandpa_owned origin new_owner s"

definition grandpa_set_operating_mode ::
  "('o, 'acc, 'z) origin_config_scheme \<Rightarrow> 'o \<Rightarrow> basic_operating_mode \<Rightarrow> ('acc, 'hash, 'number, 'id) grandpa_state \<Rightarrow>
     grandpa_error dispatch_error + ('acc, 'hash, 'number, 'id) grandpa_state" where
  "grandpa_set_operating_mode C origin operating_mode s = set_operating_mode C grandpa_owned origin operating_mode s"

section \<open>Size of calls and obsolete calls (call\_ext.rs)\<close>

record ('number, 'w) submit_finality_proof_info =
  sfp_block_number :: 'number
  sfp_extra_weight :: 'w
  sfp_extra_size :: u32

definition fits_limits :: "'w weight_ops \<Rightarrow> ('number, 'w) submit_finality_proof_info \<Rightarrow> bool" where
  "fits_limits W info \<longleftrightarrow> w_is_zero W (sfp_extra_weight info) \<and> sfp_extra_size info = 0"

definition check_obsolete ::
  "'number::linorder \<Rightarrow> ('acc, 'hash, 'number, 'id) grandpa_state \<Rightarrow> grandpa_error + unit" where
  "check_obsolete finality_target s =
     (case gs_best_finalized s of
        None \<Rightarrow> Inl NotInitialized
      | Some best_finalized \<Rightarrow> if finality_target \<le> hid_number best_finalized then Inl OldHeader else Inr ())"

definition was_successful :: "'number \<Rightarrow> ('acc, 'hash, 'number, 'id) grandpa_state \<Rightarrow> bool" where
  "was_successful finality_target s \<longleftrightarrow>
     (case gs_best_finalized s of
        Some best_finalized \<Rightarrow> hid_number best_finalized = finality_target
      | None \<Rightarrow> False)"

definition max_expected_call_size ::
  "('o, 'acc, 'header, 'hash, 'number, 'item, 'id, 'sig, 'w) grandpa_config \<Rightarrow> u32 \<Rightarrow> u32" where
  "max_expected_call_size C required_precommits =
     (let max_expected_justification_size =
            max_reasonable_size (gc_number_max_encoded_len C) (gc_hash_max_encoded_len C)
              (gc_authority_id_max_encoded_len C) (gc_reasonable_headers_in_justification_ancestry C)
              (gc_average_header_size_in_justification C) required_precommits
      in saturating_add (gc_max_header_size C) max_expected_justification_size)"

definition submit_finality_proof_info_from_args ::
  "('o, 'acc, 'header, 'hash, 'number, 'item, 'id, 'sig, 'w) grandpa_config \<Rightarrow> 'header \<Rightarrow>
     ('hash, 'number, 'id, 'sig, 'header) grandpa_justification \<Rightarrow> ('number, 'w) submit_finality_proof_info" where
  "submit_finality_proof_info_from_args C finality_target justification =
     (let block_number = h_number (gc_header C) finality_target;
          precommits_len = saturating_of_nat (length (cm_precommits (gj_commit justification)));
          required_precommits = precommits_len;
          votes_ancestries_len = saturating_of_nat (length (gj_votes_ancestries justification));
          extra_weight =
            (if gc_reasonable_headers_in_justification_ancestry C < votes_ancestries_len
             then gc_submit_finality_proof_weight C precommits_len votes_ancestries_len
             else w_zero (gc_weight_ops C));
          actual_call_size =
            saturating_of_nat (gc_header_encoded_size C finality_target + gc_justification_encoded_size C justification);
          extra_size = saturating_sub actual_call_size (max_expected_call_size C required_precommits)
      in \<lparr>sfp_block_number = block_number, sfp_extra_weight = extra_weight, sfp_extra_size = extra_size\<rparr>)"

text \<open>The calls of the pallet; \<open>is_sub_type\<close> extracts them from a call of the runtime.\<close>

datatype ('acc, 'hash, 'number, 'id, 'sig, 'header) grandpa_call =
    Call_submit_finality_proof 'header "('hash, 'number, 'id, 'sig, 'header) grandpa_justification"
  | Call_initialize "('header, 'id) initialization_data"
  | Call_set_owner "'acc option"
  | Call_set_operating_mode basic_operating_mode

definition call_submit_finality_proof_info ::
  "('o, 'acc, 'header, 'hash, 'number, 'item, 'id, 'sig, 'w) grandpa_config \<Rightarrow>
     ('call \<Rightarrow> ('acc, 'hash, 'number, 'id, 'sig, 'header) grandpa_call option) \<Rightarrow> 'call \<Rightarrow>
     ('number, 'w) submit_finality_proof_info option" where
  "call_submit_finality_proof_info C is_sub_type call =
     (case is_sub_type call of
        Some (Call_submit_finality_proof finality_target justification) \<Rightarrow>
          Some (submit_finality_proof_info_from_args C finality_target justification)
      | _ \<Rightarrow> None)"

definition check_obsolete_submit_finality_proof ::
  "('o, 'acc, 'header, 'hash, 'number::linorder, 'item, 'id, 'sig, 'w) grandpa_config \<Rightarrow>
     ('call \<Rightarrow> ('acc, 'hash, 'number, 'id, 'sig, 'header) grandpa_call option) \<Rightarrow> 'call \<Rightarrow>
     ('acc, 'hash, 'number, 'id) grandpa_state \<Rightarrow> invalid_transaction + unit" where
  "check_obsolete_submit_finality_proof C is_sub_type call s =
     (case call_submit_finality_proof_info C is_sub_type call of
        None \<Rightarrow> Inr ()
      | Some finality_target \<Rightarrow>
          (case check_obsolete (sfp_block_number finality_target) s of
             Inr _ \<Rightarrow> Inr ()
           | Inl OldHeader \<Rightarrow> Inl Stale
           | Inl _ \<Rightarrow> Inl InvalidCall))"

section \<open>Importing headers\<close>

text \<open>
  \<open>(index + 1) % HeadersToKeep\<close> panics when no headers are kept; that is \<open>None\<close>.
\<close>

definition insert_header ::
  "('o, 'acc, 'header, 'hash, 'number, 'item, 'id, 'sig, 'w) grandpa_config \<Rightarrow> 'header \<Rightarrow> 'hash \<Rightarrow>
     ('acc, 'hash, 'number, 'id) grandpa_state \<Rightarrow> ('acc, 'hash, 'number, 'id) grandpa_state option" where
  "insert_header C header hash s =
     (let index = gs_imported_hashes_pointer s;
          pruning = gs_imported_hashes s index;
          s = s\<lparr>gs_best_finalized := Some (HeaderId (h_number (gc_header C) header) hash)\<rparr>;
          s = s\<lparr>gs_imported_headers := (gs_imported_headers s)(hash \<mapsto> stored_header_data_build (gc_header C) header)\<rparr>;
          s = s\<lparr>gs_imported_hashes := (gs_imported_hashes s)(index \<mapsto> hash)\<rparr>
      in do {
           pointer \<leftarrow> checked_rem (index + 1) (gc_headers_to_keep C);
           let s = s\<lparr>gs_imported_hashes_pointer := pointer\<rparr>;
           Some (case pruning of
                   Some hash \<Rightarrow> s\<lparr>gs_imported_headers := (gs_imported_headers s)(hash := None)\<rparr>
                 | None \<Rightarrow> s)
         })"

definition find_scheduled_change ::
  "('o, 'acc, 'header, 'hash, 'number, 'item, 'id, 'sig, 'w) grandpa_config \<Rightarrow> 'header \<Rightarrow>
     ('number, 'id) scheduled_change option" where
  "find_scheduled_change C header =
     convert_first (\<lambda>l. Option.bind (gc_grandpa_log C l)
         (\<lambda>log. case log of ScheduledChange change \<Rightarrow> Some change | _ \<Rightarrow> None))
       (h_digest (gc_header C) header)"

definition find_forced_change ::
  "('o, 'acc, 'header, 'hash, 'number, 'item, 'id, 'sig, 'w) grandpa_config \<Rightarrow> 'header \<Rightarrow>
     ('number \<times> ('number, 'id) scheduled_change) option" where
  "find_forced_change C header =
     convert_first (\<lambda>l. Option.bind (gc_grandpa_log C l)
         (\<lambda>log. case log of ForcedChange delay change \<Rightarrow> Some (delay, change) | _ \<Rightarrow> None))
       (h_digest (gc_header C) header)"

definition try_enact_authority_change ::
  "('o, 'acc, 'header, 'hash, 'number::zero, 'item, 'id, 'sig, 'w) grandpa_config \<Rightarrow> 'header \<Rightarrow> u64 \<Rightarrow>
     ('acc, 'hash, 'number, 'id) grandpa_state \<Rightarrow> grandpa_error + (bool \<times> ('acc, 'hash, 'number, 'id) grandpa_state)" where
  "try_enact_authority_change C header current_set_id s =
     (if find_forced_change C header \<noteq> None then Inl UnsupportedScheduledChange
      else
      case find_scheduled_change C header of
        None \<Rightarrow> Inr (False, s)
      | Some change \<Rightarrow>
          if sc_delay change \<noteq> 0 then Inl UnsupportedScheduledChange
          else
          (case stored_authority_set_try_new (gc_max_authorities_count C) (sc_next_authorities change) (current_set_id + 1) of
             Inl e \<Rightarrow> Inl e
           | Inr next_authorities \<Rightarrow> Inr (True, s\<lparr>gs_current_authority_set := next_authorities\<rparr>)))"

definition grandpa_justification_config ::
  "('o, 'acc, 'header, 'hash, 'number, 'item, 'id, 'sig, 'w) grandpa_config \<Rightarrow>
     ('hash, 'number, 'id, 'sig, 'header) justification_config" where
  "grandpa_justification_config C = \<lparr>
     jc_header_hash = h_hash (gc_header C), jc_header_parent_hash = h_parent_hash (gc_header C),
     jc_check_signature = gc_check_signature C\<rparr>"

definition pallet_verify_justification ::
  "('o, 'acc, 'header, 'hash, 'number::linorder, 'item, 'id, 'sig, 'w) grandpa_config \<Rightarrow>
     ('hash, 'number, 'id, 'sig, 'header) grandpa_justification \<Rightarrow> 'hash \<Rightarrow> 'number \<Rightarrow> 'id authority_set \<Rightarrow>
     (grandpa_error + unit) option" where
  "pallet_verify_justification C justification hash number authority_set =
     (case gc_voter_set_new C (as_authorities authority_set) of
        None \<Rightarrow> Some (Inl InvalidAuthoritySet)
      | Some voter_set \<Rightarrow>
          map_option (map_sum (\<lambda>_. InvalidJustification) id)
            (verify_justification (grandpa_justification_config C) (hash, number) (as_set_id authority_set)
               voter_set justification))"

definition initialize_bridge ::
  "('o, 'acc, 'header, 'hash, 'number, 'item, 'id, 'sig, 'w) grandpa_config \<Rightarrow> ('header, 'id) initialization_data \<Rightarrow>
     ('acc, 'hash, 'number, 'id) grandpa_state \<Rightarrow> (grandpa_error + ('acc, 'hash, 'number, 'id) grandpa_state) option" where
  "initialize_bridge C init_params s =
     (case stored_authority_set_try_new (gc_max_authorities_count C) (id_authority_list init_params) (id_set_id init_params) of
        Inl e \<Rightarrow> Some (Inl e)
      | Inr authority_set \<Rightarrow>
          (let initial_hash = h_hash (gc_header C) (id_header init_params);
               s = s\<lparr>gs_initial_hash := initial_hash\<rparr>;
               s = s\<lparr>gs_imported_hashes_pointer := 0\<rparr>
           in do {
                s \<leftarrow> insert_header C (id_header init_params) initial_hash s;
                let s = s\<lparr>gs_current_authority_set := authority_set\<rparr>;
                Some (Inr (s\<lparr>gs_operating_mode := id_operating_mode init_params\<rparr>))
              }))"

section \<open>Calls and hooks\<close>

definition grandpa_on_initialize ::
  "('o, 'acc, 'header, 'hash, 'number, 'item, 'id, 'sig, 'w) grandpa_config \<Rightarrow>
     ('acc, 'hash, 'number, 'id) grandpa_state \<Rightarrow> 'w \<times> ('acc, 'hash, 'number, 'id) grandpa_state" where
  "grandpa_on_initialize C s =
     (db_reads_writes (gc_db_weight C) 1 1, s\<lparr>gs_request_count := saturating_sub (gs_request_count s) 1\<rparr>)"

text \<open>A panic is \<open>None\<close>; a call that fails leaves the state of before.\<close>

definition submit_finality_proof ::
  "('o, 'acc, 'header, 'hash, 'number::{linorder, zero}, 'item, 'id, 'sig, 'w) grandpa_config \<Rightarrow> 'o \<Rightarrow> 'header \<Rightarrow>
     ('hash, 'number, 'id, 'sig, 'header) grandpa_justification \<Rightarrow> ('acc, 'hash, 'number, 'id) grandpa_state \<Rightarrow>
     (grandpa_error dispatch_error + ('w post_dispatch_info \<times> ('acc, 'hash, 'number, 'id) grandpa_state)) option" where
  "submit_finality_proof C origin finality_target justification s =
     (case ensure_not_halted grandpa_owned s of
        Inl e \<Rightarrow> Some (Inl (ModuleError (GrandpaBridgeModule e)))
      | Inr _ \<Rightarrow>
      if \<not> gs_request_count s < gc_max_requests C then Some (Inl (ModuleError TooManyRequests))
      else
      let hash = h_hash (gc_header C) finality_target; number = h_number (gc_header C) finality_target
      in case check_obsolete number s of
        Inl e \<Rightarrow> Some (Inl (ModuleError e))
      | Inr _ \<Rightarrow>
      let authority_set = gs_current_authority_set s;
          unused_proof_size = unused_proof_size C authority_set;
          set_id = as_set_id authority_set
      in case pallet_verify_justification C justification hash number authority_set of
        None \<Rightarrow> None
      | Some (Inl e) \<Rightarrow> Some (Inl (ModuleError e))
      | Some (Inr _) \<Rightarrow>
      (case try_enact_authority_change C finality_target set_id s of
        Inl e \<Rightarrow> Some (Inl (ModuleError e))
      | Inr (is_authorities_change_enacted, s) \<Rightarrow>
          let may_refund_call_fee = (is_authorities_change_enacted \<and>
                fits_limits (gc_weight_ops C) (submit_finality_proof_info_from_args C finality_target justification));
              s = s\<lparr>gs_request_count := gs_request_count s + 1\<rparr>
          in do {
               s \<leftarrow> insert_header C finality_target hash s;
               let pays_fee = (if may_refund_call_fee then PaysNo else PaysYes);
               let pre_dispatch_weight = gc_submit_finality_proof_weight C
                     (saturating_of_nat (length (cm_precommits (gj_commit justification))))
                     (saturating_of_nat (length (gj_votes_ancestries justification)));
               let actual_weight = w_set_proof_size (gc_weight_ops C) pre_dispatch_weight
                     (saturating_sub (w_proof_size (gc_weight_ops C) pre_dispatch_weight) unused_proof_size);
               Some (Inr (\<lparr>actual_weight = Some actual_weight, pays_fee = pays_fee\<rparr>, s))
             }))"

definition initialize ::
  "('o, 'acc, 'header, 'hash, 'number, 'item, 'id, 'sig, 'w) grandpa_config \<Rightarrow> 'o \<Rightarrow> ('header, 'id) initialization_data \<Rightarrow>
     ('acc, 'hash, 'number, 'id) grandpa_state \<Rightarrow>
     (grandpa_error dispatch_error + ('acc, 'hash, 'number, 'id) grandpa_state) option" where
  "initialize C origin init_data s =
     (case ensure_owner_or_root C grandpa_owned origin s of
        Inl e \<Rightarrow> Some (Inl e)
      | Inr _ \<Rightarrow>
          let init_allowed = (gs_best_finalized s = None)
          in if \<not> init_allowed then Some (Inl (ModuleError AlreadyInitialized))
             else map_option (map_sum ModuleError id) (initialize_bridge C init_data s))"

definition grandpa_genesis_build ::
  "('o, 'acc, 'header, 'hash, 'number, 'item, 'id, 'sig, 'w) grandpa_config \<Rightarrow> 'acc option \<Rightarrow>
     ('header, 'id) initialization_data option \<Rightarrow> ('acc, 'hash, 'number, 'id) grandpa_state \<Rightarrow>
     ('acc, 'hash, 'number, 'id) grandpa_state option" where
  "grandpa_genesis_build C owner init_data s =
     (let s = (case owner of Some owner \<Rightarrow> s\<lparr>gs_owner := Some owner\<rparr> | None \<Rightarrow> s)
      in case init_data of
           Some init_data \<Rightarrow>
             (case initialize_bridge C init_data s of Some (Inr s) \<Rightarrow> Some s | _ \<Rightarrow> None)
         | None \<Rightarrow> Some (s\<lparr>gs_operating_mode := Halted\<rparr>))"

section \<open>Queries\<close>

definition best_finalized_number :: "('acc, 'hash, 'number, 'id) grandpa_state \<Rightarrow> 'number option" where
  "best_finalized_number s = map_option hid_number (gs_best_finalized s)"

definition grandpa_finalized_header_state_root :: "('acc, 'hash, 'number, 'id) grandpa_state \<Rightarrow> 'hash \<Rightarrow> 'hash option" where
  "grandpa_finalized_header_state_root s header_hash = map_option shd_state_root (gs_imported_headers s header_hash)"

section \<open>The ring buffer of imported headers\<close>

lemma insert_header_eq:
  "insert_header C header hash s =
     (if gc_headers_to_keep C = 0 then None
      else Some (s\<lparr>gs_best_finalized := Some (HeaderId (h_number (gc_header C) header) hash),
        gs_imported_headers :=
          (case gs_imported_hashes s (gs_imported_hashes_pointer s) of
             None \<Rightarrow> (gs_imported_headers s)(hash \<mapsto> stored_header_data_build (gc_header C) header)
           | Some pruned \<Rightarrow>
               ((gs_imported_headers s)(hash \<mapsto> stored_header_data_build (gc_header C) header))(pruned := None)),
        gs_imported_hashes := (gs_imported_hashes s)(gs_imported_hashes_pointer s \<mapsto> hash),
        gs_imported_hashes_pointer := (gs_imported_hashes_pointer s + 1) mod gc_headers_to_keep C\<rparr>))"
  by (simp add: insert_header_def checked_rem_def Let_def split: option.split)

interpretation grandpa_ring: ring_import gc_headers_to_keep gs_imported_hashes_pointer gs_imported_hashes
  gs_imported_headers "\<lambda>C. snd" "\<lambda>C a. stored_header_data_build (gc_header C) (fst a)"
  "\<lambda>C a. insert_header C (fst a) (snd a)"
  by unfold_locales (auto simp: insert_header_eq split: if_splits option.splits)

end
