(* ===== verification/Grandpa_Properties.thy ===== *)
theory Grandpa_Properties
  imports Grandpa_Pallet
begin

text \<open>
  Correctness of the GRANDPA pallet: the light client only stores headers that trusted authority
  sets have finalized, its ring buffer keeps exactly the latest headers, and every call behaves as
  documented on each of its branches.
\<close>

section \<open>Successful calls\<close>

text \<open>The checks of \<open>submit_finality_proof\<close>, in the order of the code.\<close>

definition submit_rejection ::
  "('o, 'acc, 'header, 'hash, 'number::{linorder, zero}, 'item, 'id, 'sig, 'w) grandpa_config \<Rightarrow> 'header \<Rightarrow>
     ('hash, 'number, 'id, 'sig, 'header) grandpa_justification \<Rightarrow> ('acc, 'hash, 'number, 'id) grandpa_state \<Rightarrow>
     grandpa_error option" where
  "submit_rejection C h j s =
     (if gs_operating_mode s = Halted then Some (GrandpaBridgeModule OwnedHalted)
      else if gc_max_requests C \<le> gs_request_count s then Some TooManyRequests
      else if gs_best_finalized s = None then Some NotInitialized
      else if h_number (gc_header C) h \<le> hid_number (the (gs_best_finalized s)) then Some OldHeader
      else
      case gc_voter_set_new C (as_authorities (gs_current_authority_set s)) of
        None \<Rightarrow> Some InvalidAuthoritySet
      | Some voters \<Rightarrow>
      if verify_justification (grandpa_justification_config C) (h_hash (gc_header C) h, h_number (gc_header C) h)
           (as_set_id (gs_current_authority_set s)) voters j \<noteq> Some (Inr ()) then Some InvalidJustification
      else if find_forced_change C h \<noteq> None then Some UnsupportedScheduledChange
      else
      case find_scheduled_change C h of
        None \<Rightarrow> None
      | Some change \<Rightarrow>
          if sc_delay change \<noteq> 0 then Some UnsupportedScheduledChange
          else if unat (gc_max_authorities_count C) < length (sc_next_authorities change) then Some TooManyAuthoritiesInSet
          else None)"

text \<open>The authority set after the import of a header.\<close>

definition next_authority_set ::
  "('o, 'acc, 'header, 'hash, 'number, 'item, 'id, 'sig, 'w) grandpa_config \<Rightarrow> 'header \<Rightarrow> 'id authority_set \<Rightarrow>
     'id authority_set" where
  "next_authority_set C h A =
     (case find_scheduled_change C h of
        None \<Rightarrow> A
      | Some change \<Rightarrow> \<lparr>as_authorities = sc_next_authorities change, as_set_id = as_set_id A + 1\<rparr>)"

definition submit_post_info ::
  "('o, 'acc, 'header, 'hash, 'number, 'item, 'id, 'sig, 'w) grandpa_config \<Rightarrow> 'header \<Rightarrow>
     ('hash, 'number, 'id, 'sig, 'header) grandpa_justification \<Rightarrow> 'id authority_set \<Rightarrow> 'w post_dispatch_info" where
  "submit_post_info C h j A =
     (let weight = gc_submit_finality_proof_weight C
            (saturating_of_nat (length (cm_precommits (gj_commit j)))) (saturating_of_nat (length (gj_votes_ancestries j)))
      in \<lparr>actual_weight = Some (w_set_proof_size (gc_weight_ops C) weight
            (saturating_sub (w_proof_size (gc_weight_ops C) weight) (unused_proof_size C A))),
          pays_fee = (if find_scheduled_change C h \<noteq> None \<and>
              fits_limits (gc_weight_ops C) (submit_finality_proof_info_from_args C h j) then PaysNo else PaysYes)\<rparr>)"

text \<open>What \<open>VoterSet::new\<close> documents: a voter set has the laws of a voter set.\<close>

definition voter_set_new_laws :: "('id authority_list \<Rightarrow> 'id voter_set option) \<Rightarrow> bool" where
  "voter_set_new_laws new \<longleftrightarrow> (\<forall>authorities voters. new authorities = Some voters \<longrightarrow> voter_set_laws voters)"

text \<open>No header is an ancestor of itself, in whatever votes ancestries it appears.\<close>

definition acyclic_headers :: "('header, 'hash, 'number, 'item) header_ops \<Rightarrow> bool" where
  "acyclic_headers H \<longleftrightarrow>
     (\<forall>hs. acyclic_parents (map_of (rev (map (\<lambda>h. (h_hash H h, h_parent_hash H h)) hs))))"

lemma acyclic_headers_justification:
  "acyclic_headers (gc_header C) \<Longrightarrow> acyclic_parents (justification_parents (grandpa_justification_config C) j)"
  by (simp add: acyclic_headers_def grandpa_justification_config_def)

lemma pallet_verify_justification_total:
  assumes "voter_set_new_laws (gc_voter_set_new C)" and "acyclic_headers (gc_header C)"
  shows "pallet_verify_justification C j hash number A =
    (case gc_voter_set_new C (as_authorities A) of
       None \<Rightarrow> Some (Inl InvalidAuthoritySet)
     | Some voters \<Rightarrow>
         if verify_justification (grandpa_justification_config C) (hash, number) (as_set_id A) voters j = Some (Inr ())
         then Some (Inr ()) else Some (Inl InvalidJustification))"
proof (cases "gc_voter_set_new C (as_authorities A)")
  case (Some voters)
  then have "voter_set_laws voters" using assms(1) by (simp add: voter_set_new_laws_def)
  then have "verify_justification (grandpa_justification_config C) (hash, number) (as_set_id A) voters j \<noteq> None"
    unfolding verify_justification_def
    by (rule verify_with_callbacks_total [OF _ acyclic_headers_justification [OF assms(2)]])
  then obtain r where
    r: "verify_justification (grandpa_justification_config C) (hash, number) (as_set_id A) voters j = Some r" by blast
  then show ?thesis by (cases r) (simp_all add: pallet_verify_justification_def Some)
qed (simp add: pallet_verify_justification_def)

lemma try_enact_authority_change_eq:
  "try_enact_authority_change C h set_id s =
     (if find_forced_change C h \<noteq> None then Inl UnsupportedScheduledChange
      else case find_scheduled_change C h of
        None \<Rightarrow> Inr (False, s)
      | Some change \<Rightarrow>
          if sc_delay change \<noteq> 0 then Inl UnsupportedScheduledChange
          else if unat (gc_max_authorities_count C) < length (sc_next_authorities change) then Inl TooManyAuthoritiesInSet
          else Inr (True, s\<lparr>gs_current_authority_set := \<lparr>as_authorities = sc_next_authorities change, as_set_id = set_id + 1\<rparr>\<rparr>))"
  by (simp add: try_enact_authority_change_def stored_authority_set_try_new_def split: option.split)

lemma submit_finality_proof_eq:
  assumes "voter_set_new_laws (gc_voter_set_new C)" and "acyclic_headers (gc_header C)"
  shows "submit_finality_proof C origin h j s =
    (case submit_rejection C h j s of
       Some e \<Rightarrow> Some (Inl (ModuleError e))
     | None \<Rightarrow>
         map_option (\<lambda>s'. Inr (submit_post_info C h j (gs_current_authority_set s), s'))
           (insert_header C h (h_hash (gc_header C) h)
             (s\<lparr>gs_current_authority_set := next_authority_set C h (gs_current_authority_set s),
                gs_request_count := gs_request_count s + 1\<rparr>)))"
proof (cases "gs_operating_mode s = Halted \<or> gc_max_requests C \<le> gs_request_count s \<or> gs_best_finalized s = None")
  case True
  then show ?thesis
    by (auto simp: submit_finality_proof_def submit_rejection_def ensure_not_halted_def is_halted_def
        basic_is_halted_def check_obsolete_def Let_def not_less)
next
  case False
  then obtain best where best: "gs_best_finalized s = Some best" by auto
  have mode: "ensure_not_halted grandpa_owned s = Inr ()" and req: "gs_request_count s < gc_max_requests C"
    using False by (simp_all add: ensure_not_halted_def is_halted_def basic_is_halted_def not_le)
  have go: "submit_finality_proof C origin h j s =
    (if h_number (gc_header C) h \<le> hid_number best then Some (Inl (ModuleError OldHeader))
     else
      case pallet_verify_justification C j (h_hash (gc_header C) h) (h_number (gc_header C) h) (gs_current_authority_set s) of
        None \<Rightarrow> None
      | Some (Inl e) \<Rightarrow> Some (Inl (ModuleError e))
      | Some (Inr _) \<Rightarrow>
      (case try_enact_authority_change C h (as_set_id (gs_current_authority_set s)) s of
        Inl e \<Rightarrow> Some (Inl (ModuleError e))
      | Inr (enacted, s') \<Rightarrow>
          map_option (\<lambda>s''. Inr (\<lparr>actual_weight = actual_weight (submit_post_info C h j (gs_current_authority_set s)),
             pays_fee = (if enacted \<and> fits_limits (gc_weight_ops C) (submit_finality_proof_info_from_args C h j)
               then PaysNo else PaysYes)\<rparr>, s''))
           (insert_header C h (h_hash (gc_header C) h) (s'\<lparr>gs_request_count := gs_request_count s' + 1\<rparr>))))"
    using mode req best
    by (simp add: submit_finality_proof_def check_obsolete_def Let_def submit_post_info_def map_option_case
        Option.bind_map_option split: option.split sum.split)
  show ?thesis
    using False
    by (auto simp: go best submit_rejection_def pallet_verify_justification_total [OF assms]
        try_enact_authority_change_eq next_authority_set_def submit_post_info_def Let_def split: option.split)
qed

lemma submit_Inr:
  assumes "voter_set_new_laws (gc_voter_set_new C)" and "acyclic_headers (gc_header C)"
    and "submit_finality_proof C origin h j s = Some (Inr (info, s'))"
  obtains "submit_rejection C h j s = None" "info = submit_post_info C h j (gs_current_authority_set s)"
    "insert_header C h (h_hash (gc_header C) h)
       (s\<lparr>gs_current_authority_set := next_authority_set C h (gs_current_authority_set s),
          gs_request_count := gs_request_count s + 1\<rparr>) = Some s'"
  using assms(3) by (auto simp: submit_finality_proof_eq [OF assms(1,2)] split: option.splits)

lemma initialize_Inr:
  assumes "initialize C origin d s = Some (Inr s')"
  obtains s1 where "module_admin C grandpa_owned origin s" "gs_best_finalized s = None"
    "length (id_authority_list d) \<le> unat (gc_max_authorities_count C)"
    "insert_header C (id_header d) (h_hash (gc_header C) (id_header d))
       (s\<lparr>gs_initial_hash := h_hash (gc_header C) (id_header d), gs_imported_hashes_pointer := 0\<rparr>) = Some s1"
    "s' = s1\<lparr>gs_current_authority_set := \<lparr>as_authorities = id_authority_list d, as_set_id = id_set_id d\<rparr>,
       gs_operating_mode := id_operating_mode d\<rparr>"
  using assms
  by (auto simp: initialize_def initialize_bridge_def stored_authority_set_try_new_def ensure_owner_or_root_iff Let_def
      bind_eq_Some_conv split: if_splits)

section \<open>Steps and invariant\<close>

inductive grandpa_step ::
  "('o, 'acc, 'header, 'hash, 'number::{linorder, zero}, 'item, 'id, 'sig, 'w) grandpa_config \<Rightarrow>
     ('acc, 'hash, 'number, 'id) grandpa_state \<Rightarrow> ('acc, 'hash, 'number, 'id) grandpa_state \<Rightarrow> bool" for C where
  step_submit: "submit_finality_proof C origin h j s = Some (Inr (info, s')) \<Longrightarrow> grandpa_step C s s'"
| step_initialize: "initialize C origin d s = Some (Inr s') \<Longrightarrow> grandpa_step C s s'"
| step_set_owner: "grandpa_set_owner C origin owner s = Inr s' \<Longrightarrow> grandpa_step C s s'"
| step_set_mode: "grandpa_set_operating_mode C origin mode s = Inr s' \<Longrightarrow> grandpa_step C s s'"
| step_on_initialize: "grandpa_on_initialize C s = (w, s') \<Longrightarrow> grandpa_step C s s'"

definition empty_grandpa_state :: "'hash \<Rightarrow> ('acc, 'hash, 'number, 'id) grandpa_state" where
  "empty_grandpa_state default_hash = \<lparr>gs_request_count = 0, gs_initial_hash = default_hash, gs_best_finalized = None,
     gs_imported_hashes = Map.empty, gs_imported_hashes_pointer = 0, gs_imported_headers = Map.empty,
     gs_current_authority_set = stored_authority_set_default, gs_owner = None, gs_operating_mode = Normal\<rparr>"

text \<open>The reachable states: genesis, then successful calls and block starts in any order.\<close>

inductive grandpa_reachable ::
  "('o, 'acc, 'header, 'hash, 'number::{linorder, zero}, 'item, 'id, 'sig, 'w) grandpa_config \<Rightarrow>
     ('acc, 'hash, 'number, 'id) grandpa_state \<Rightarrow> bool" for C where
  reachable_genesis: "grandpa_genesis_build C owner init_data (empty_grandpa_state hash) = Some s \<Longrightarrow> grandpa_reachable C s"
| reachable_step: "grandpa_reachable C s \<Longrightarrow> grandpa_step C s s' \<Longrightarrow> grandpa_reachable C s'"

definition grandpa_inv ::
  "('o, 'acc, 'header, 'hash, 'number::linorder, 'item, 'id, 'sig, 'w) grandpa_config \<Rightarrow>
     ('acc, 'hash, 'number, 'id) grandpa_state \<Rightarrow> bool" where
  "grandpa_inv C s \<longleftrightarrow>
     ring_ok (gc_headers_to_keep C) (gs_imported_hashes_pointer s) (gs_imported_hashes s) (gs_imported_headers s) \<and>
     (\<forall>hash data. gs_imported_headers s hash = Some data \<longrightarrow>
        (\<exists>h. hash = h_hash (gc_header C) h \<and> data = stored_header_data_build (gc_header C) h)) \<and>
     (case gs_best_finalized s of
        None \<Rightarrow> gs_imported_hashes s = Map.empty
      | Some best \<Rightarrow>
          (\<exists>data. gs_imported_headers s (hid_hash best) = Some data \<and> shd_number data = hid_number best) \<and>
          (\<forall>data \<in> ran (gs_imported_headers s). shd_number data \<le> hid_number best)) \<and>
     length (as_authorities (gs_current_authority_set s)) \<le> unat (gc_max_authorities_count C) \<and>
     gs_request_count s \<le> gc_max_requests C"

text \<open>Headers with the same hash have the same number (the hash function has no collisions).\<close>

definition hash_determines_number :: "('header, 'hash, 'number, 'item) header_ops \<Rightarrow> bool" where
  "hash_determines_number H \<longleftrightarrow> (\<forall>h h'. h_hash H h = h_hash H h' \<longrightarrow> h_number H h = h_number H h')"

lemma stored_numbers_below:
  assumes "grandpa_inv C s" and "\<And>best. gs_best_finalized s = Some best \<Longrightarrow> hid_number best < n"
    and "gs_imported_headers s hash = Some data"
  shows "shd_number data < n"
proof (cases "gs_best_finalized s")
  case None
  then show ?thesis using assms by (auto simp: grandpa_inv_def ring_ok_def)
next
  case (Some best)
  then have "shd_number data \<le> hid_number best" using assms by (auto simp: grandpa_inv_def ran_def)
  with assms(2) [OF Some] show ?thesis by simp
qed

lemma new_header_fresh:
  assumes inv: "grandpa_inv C s" and hd: "hash_determines_number (gc_header C)"
    and new: "\<And>best. gs_best_finalized s = Some best \<Longrightarrow> hid_number best < h_number (gc_header C) h"
  shows "h_hash (gc_header C) h \<notin> dom (gs_imported_headers s)"
proof
  assume "h_hash (gc_header C) h \<in> dom (gs_imported_headers s)"
  then obtain data where data: "gs_imported_headers s (h_hash (gc_header C) h) = Some data" by auto
  then obtain h' where "h_hash (gc_header C) h = h_hash (gc_header C) h'" "data = stored_header_data_build (gc_header C) h'"
    using inv by (auto simp: grandpa_inv_def)
  then show False
    using stored_numbers_below [OF inv new data] hd unfolding hash_determines_number_def
    by (metis less_irrefl stored_header_data.select_convs(1) stored_header_data_build_def)
qed

lemma insert_header_inv:
  assumes inv: "grandpa_inv C s" and ins: "insert_header C h (h_hash (gc_header C) h) s = Some s'"
    and hd: "hash_determines_number (gc_header C)"
    and new: "\<And>best. gs_best_finalized s = Some best \<Longrightarrow> hid_number best < h_number (gc_header C) h"
  shows "grandpa_inv C s'"
proof -
  let ?H = "gc_header C"
  have ring: "ring_ok (gc_headers_to_keep C) (gs_imported_hashes_pointer s) (gs_imported_hashes s) (gs_imported_headers s)"
    and src: "\<And>hash data. gs_imported_headers s hash = Some data \<Longrightarrow>
      \<exists>h. hash = h_hash ?H h \<and> data = stored_header_data_build ?H h"
    using inv by (auto simp: grandpa_inv_def)
  have ok: "ring_ok (gc_headers_to_keep C) (gs_imported_hashes_pointer s') (gs_imported_hashes s') (gs_imported_headers s')"
    "gs_imported_headers s' (h_hash ?H h) = Some (stored_header_data_build ?H h)"
    using grandpa_ring.import_ring_ok [OF ring, of "(h, h_hash ?H h)" s'] ins new_header_fresh [OF inv hd new] by simp_all
  have items: "gs_imported_headers s' hash = Some data \<Longrightarrow>
      gs_imported_headers s hash = Some data \<or> hash = h_hash ?H h \<and> data = stored_header_data_build ?H h" for hash data
    using ins by (auto simp: insert_header_eq split: if_splits option.splits)
  have rest: "gs_best_finalized s' = Some (HeaderId (h_number ?H h) (h_hash ?H h))"
    "gs_current_authority_set s' = gs_current_authority_set s" "gs_request_count s' = gs_request_count s"
    using ins by (auto simp: insert_header_eq split: if_splits)
  have "\<exists>h. hash = h_hash ?H h \<and> data = stored_header_data_build ?H h" if "gs_imported_headers s' hash = Some data" for hash data
    using items [OF that] src by blast
  moreover have "shd_number data \<le> h_number ?H h" if "data \<in> ran (gs_imported_headers s')" for data
    using that items stored_numbers_below [OF inv new] by (fastforce simp: ran_def stored_header_data_build_def)
  ultimately show ?thesis
    using ok rest inv by (auto simp: grandpa_inv_def stored_header_data_build_def)
qed

lemma initialized_inv:
  assumes inv: "grandpa_inv C s" and none: "gs_best_finalized s = None" and hd: "hash_determines_number (gc_header C)"
    and len: "length (id_authority_list d) \<le> unat (gc_max_authorities_count C)"
    and ins: "insert_header C (id_header d) (h_hash (gc_header C) (id_header d))
      (s\<lparr>gs_initial_hash := h_hash (gc_header C) (id_header d), gs_imported_hashes_pointer := 0\<rparr>) = Some s1"
  shows "grandpa_inv C (s1\<lparr>gs_current_authority_set := \<lparr>as_authorities = id_authority_list d, as_set_id = id_set_id d\<rparr>\<rparr>)"
proof -
  have "grandpa_inv C (s\<lparr>gs_initial_hash := h_hash (gc_header C) (id_header d), gs_imported_hashes_pointer := 0\<rparr>)"
    using inv none by (auto simp: grandpa_inv_def ring_ok_def)
  then have "grandpa_inv C s1" by (rule insert_header_inv [OF _ ins hd]) (simp add: none)
  then show ?thesis using len by (cases "gs_best_finalized s1") (auto simp: grandpa_inv_def)
qed

lemma grandpa_inv_frame [simp]:
  "grandpa_inv C (s\<lparr>gs_owner := owner\<rparr>) \<longleftrightarrow> grandpa_inv C s"
  "grandpa_inv C (s\<lparr>gs_operating_mode := mode\<rparr>) \<longleftrightarrow> grandpa_inv C s"
  "grandpa_inv C s \<Longrightarrow> grandpa_inv C (s\<lparr>gs_request_count := n\<rparr>) \<longleftrightarrow> n \<le> gc_max_requests C"
  by (simp_all add: grandpa_inv_def cong: option.case_cong)

lemma grandpa_step_inv:
  assumes laws: "voter_set_new_laws (gc_voter_set_new C)" "acyclic_headers (gc_header C)" "hash_determines_number (gc_header C)"
    and inv: "grandpa_inv C s" and "grandpa_step C s s'"
  shows "grandpa_inv C s'"
  using assms(5)
proof cases
  case (step_submit origin h j info)
  from step_submit show ?thesis
  proof (rule submit_Inr [OF laws(1,2)])
    assume rej: "submit_rejection C h j s = None"
      and ins: "insert_header C h (h_hash (gc_header C) h)
       (s\<lparr>gs_current_authority_set := next_authority_set C h (gs_current_authority_set s),
          gs_request_count := gs_request_count s + 1\<rparr>) = Some s'" (is "insert_header _ _ _ ?s = _")
    have "gs_request_count s < gc_max_requests C"
      and best: "\<And>best. gs_best_finalized s = Some best \<Longrightarrow> hid_number best < h_number (gc_header C) h"
      and len: "length (as_authorities (next_authority_set C h (gs_current_authority_set s))) \<le> unat (gc_max_authorities_count C)"
      using rej inv
      by (auto simp: submit_rejection_def next_authority_set_def grandpa_inv_def split: if_splits option.splits)
    then have "gs_request_count s + 1 \<le> gc_max_requests C"
      by (simp add: word_succ_le_iff unat_succ_lt)
    then have "grandpa_inv C ?s" using inv len by (cases "gs_best_finalized s") (auto simp: grandpa_inv_def)
    then show ?thesis by (rule insert_header_inv [OF _ ins laws(3)]) (simp add: best)
  qed
next
  case (step_initialize origin d)
  then show ?thesis
    by (rule initialize_Inr) (simp add: initialized_inv [OF inv _ laws(3)])
next
  case (step_set_owner origin owner)
  then show ?thesis
    using inv by (auto simp: grandpa_set_owner_def grandpa_module.set_owner_eq split: if_splits)
next
  case (step_set_mode origin mode)
  then show ?thesis
    using inv by (auto simp: grandpa_set_operating_mode_def grandpa_module.set_operating_mode_eq split: if_splits)
next
  case (step_on_initialize w)
  have "saturating_sub (gs_request_count s) 1 \<le> gc_max_requests C"
    using inv by (intro order_trans [OF saturating_sub_le]) (simp add: grandpa_inv_def)
  then show ?thesis using step_on_initialize inv by (auto simp: grandpa_on_initialize_def)
qed

lemma grandpa_genesis_inv:
  fixes s :: "('acc, 'hash, 'number::linorder, 'id) grandpa_state"
  assumes "hash_determines_number (gc_header C)"
    and "grandpa_genesis_build C owner init_data (empty_grandpa_state hash) = Some s"
  shows "grandpa_inv C s"
proof -
  define s0 :: "('acc, 'hash, 'number, 'id) grandpa_state" where
    "s0 = (case owner of Some owner \<Rightarrow> (empty_grandpa_state hash)\<lparr>gs_owner := Some owner\<rparr> | None \<Rightarrow> empty_grandpa_state hash)"
  have empty: "gs_best_finalized s0 = None" "gs_imported_hashes s0 = Map.empty" "gs_imported_headers s0 = Map.empty"
    "gs_imported_hashes_pointer s0 = 0" "gs_request_count s0 = 0" "as_authorities (gs_current_authority_set s0) = []"
    by (simp_all add: s0_def empty_grandpa_state_def stored_authority_set_default_def split: option.split)
  show ?thesis
  proof (cases init_data)
    case None
    then show ?thesis
      using assms(2) empty by (auto simp: grandpa_genesis_build_def grandpa_inv_def ring_ok_def s0_def [symmetric])
  next
    case (Some d)
    then have "initialize_bridge C d s0 = Some (Inr s)"
      using assms(2) by (auto simp: grandpa_genesis_build_def s0_def [symmetric] split: option.splits sum.splits)
    then obtain s1 where ins: "insert_header C (id_header d) (h_hash (gc_header C) (id_header d))
       (s0\<lparr>gs_initial_hash := h_hash (gc_header C) (id_header d), gs_imported_hashes_pointer := 0\<rparr>) = Some s1"
      and s: "s = s1\<lparr>gs_current_authority_set := \<lparr>as_authorities = id_authority_list d, as_set_id = id_set_id d\<rparr>,
       gs_operating_mode := id_operating_mode d\<rparr>"
      and len: "length (id_authority_list d) \<le> unat (gc_max_authorities_count C)"
      by (auto simp: initialize_bridge_def stored_authority_set_try_new_def Let_def bind_eq_Some_conv split: if_splits)
    have "grandpa_inv C s0" using empty by (simp add: grandpa_inv_def ring_ok_def)
    from initialized_inv [OF this empty(1) assms(1) len ins] show ?thesis by (simp add: s)
  qed
qed

lemma grandpa_reachable_inv:
  assumes "voter_set_new_laws (gc_voter_set_new C)" "acyclic_headers (gc_header C)" "hash_determines_number (gc_header C)"
    and "grandpa_reachable C s"
  shows "grandpa_inv C s"
  using assms(4)
proof induction
  case (reachable_genesis owner init_data hash s)
  then show ?case by (rule grandpa_genesis_inv [OF assms(3)])
next
  case (reachable_step s s')
  then show ?case using grandpa_step_inv [OF assms(1-3)] by blast
qed

section \<open>Trust in the stored headers\<close>

text \<open>A header that an authority set has finalized.\<close>

definition justified ::
  "('o, 'acc, 'header, 'hash, 'number::linorder, 'item, 'id, 'sig, 'w) grandpa_config \<Rightarrow> 'id authority_set \<Rightarrow> 'header \<Rightarrow> bool" where
  "justified C A h \<longleftrightarrow>
     (\<exists>voters j. gc_voter_set_new C (as_authorities A) = Some voters \<and>
        verify_justification (grandpa_justification_config C) (h_hash (gc_header C) h, h_number (gc_header C) h)
          (as_set_id A) voters j = Some (Inr ()))"

text \<open>
  The authority sets that the initial data makes trustworthy: the initial set, and every set that a
  header finalized by a trusted set hands over to, immediately and without being forced.
\<close>

inductive trusted_set ::
  "('o, 'acc, 'header, 'hash, 'number::{linorder, zero}, 'item, 'id, 'sig, 'w) grandpa_config \<Rightarrow> ('header, 'id) initialization_data \<Rightarrow>
     'id authority_set \<Rightarrow> bool" for C d where
  trusted_initial: "trusted_set C d \<lparr>as_authorities = id_authority_list d, as_set_id = id_set_id d\<rparr>"
| trusted_handoff: "trusted_set C d A \<Longrightarrow> justified C A h \<Longrightarrow> find_forced_change C h = None \<Longrightarrow>
    find_scheduled_change C h = Some change \<Longrightarrow> sc_delay change = 0 \<Longrightarrow>
    trusted_set C d \<lparr>as_authorities = sc_next_authorities change, as_set_id = as_set_id A + 1\<rparr>"

definition trusted_header ::
  "('o, 'acc, 'header, 'hash, 'number::{linorder, zero}, 'item, 'id, 'sig, 'w) grandpa_config \<Rightarrow> ('header, 'id) initialization_data \<Rightarrow>
     'header \<Rightarrow> bool" where
  "trusted_header C d h \<longleftrightarrow> h = id_header d \<or> (\<exists>A. trusted_set C d A \<and> justified C A h)"

text \<open>The states that follow an initialization with the given data.\<close>

inductive grandpa_run ::
  "('o, 'acc, 'header, 'hash, 'number::{linorder, zero}, 'item, 'id, 'sig, 'w) grandpa_config \<Rightarrow> ('header, 'id) initialization_data \<Rightarrow>
     ('acc, 'hash, 'number, 'id) grandpa_state \<Rightarrow> bool" for C d where
  run_start: "grandpa_inv C s \<Longrightarrow> initialize C origin d s = Some (Inr s') \<Longrightarrow> grandpa_run C d s'"
| run_step: "grandpa_run C d s \<Longrightarrow> grandpa_step C s s' \<Longrightarrow> grandpa_run C d s'"

definition trust_inv ::
  "('o, 'acc, 'header, 'hash, 'number::{linorder, zero}, 'item, 'id, 'sig, 'w) grandpa_config \<Rightarrow> ('header, 'id) initialization_data \<Rightarrow>
     ('acc, 'hash, 'number, 'id) grandpa_state \<Rightarrow> bool" where
  "trust_inv C d s \<longleftrightarrow>
     gs_best_finalized s \<noteq> None \<and> trusted_set C d (gs_current_authority_set s) \<and>
     (\<forall>hash data. gs_imported_headers s hash = Some data \<longrightarrow>
        (\<exists>h. trusted_header C d h \<and> hash = h_hash (gc_header C) h \<and> data = stored_header_data_build (gc_header C) h))"

lemma insert_header_stored:
  assumes "insert_header C h hash s = Some s'" and "gs_imported_headers s' hash' = Some data"
  shows "gs_imported_headers s hash' = Some data \<or> hash' = hash \<and> data = stored_header_data_build (gc_header C) h"
  using assms by (auto simp: insert_header_eq split: if_splits option.splits)

lemma insert_header_frame:
  assumes "insert_header C h hash s = Some s'"
  shows "gs_current_authority_set s' = gs_current_authority_set s"
    "gs_best_finalized s' = Some (HeaderId (h_number (gc_header C) h) hash)"
    "gs_request_count s' = gs_request_count s" "gs_operating_mode s' = gs_operating_mode s" "gs_owner s' = gs_owner s"
  using assms by (auto simp: insert_header_eq split: if_splits)

lemma submit_justified:
  assumes "submit_rejection C h j s = None"
  shows "justified C (gs_current_authority_set s) h" "find_forced_change C h = None"
    "find_scheduled_change C h = Some change \<Longrightarrow> sc_delay change = 0"
  using assms by (auto simp: submit_rejection_def justified_def split: if_splits option.splits)

lemma grandpa_run_trust:
  assumes laws: "voter_set_new_laws (gc_voter_set_new C)" "acyclic_headers (gc_header C)"
    and "grandpa_run C d s"
  shows "trust_inv C d s"
  using assms(3)
proof induction
  case (run_start s origin s')
  from run_start(2) show ?case
  proof (rule initialize_Inr)
    fix s1
    assume none: "gs_best_finalized s = None"
      and ins: "insert_header C (id_header d) (h_hash (gc_header C) (id_header d))
       (s\<lparr>gs_initial_hash := h_hash (gc_header C) (id_header d), gs_imported_hashes_pointer := 0\<rparr>) = Some s1"
      and s': "s' = s1\<lparr>gs_current_authority_set := \<lparr>as_authorities = id_authority_list d, as_set_id = id_set_id d\<rparr>,
       gs_operating_mode := id_operating_mode d\<rparr>"
    have "gs_imported_headers s = Map.empty" using run_start(1) none by (auto simp: grandpa_inv_def ring_ok_def)
    then show ?thesis
      using insert_header_stored [OF ins] insert_header_frame(2) [OF ins]
      by (fastforce simp: s' trust_inv_def trusted_header_def intro: trusted_initial)
  qed
next
  case (run_step s s')
  from run_step(2) show ?case
  proof cases
    case (step_submit origin h j info)
    from step_submit show ?thesis
    proof (rule submit_Inr [OF laws])
      assume rej: "submit_rejection C h j s = None"
        and ins: "insert_header C h (h_hash (gc_header C) h)
         (s\<lparr>gs_current_authority_set := next_authority_set C h (gs_current_authority_set s),
            gs_request_count := gs_request_count s + 1\<rparr>) = Some s'"
      note j = submit_justified [OF rej]
      have tr: "trusted_set C d (gs_current_authority_set s)" using run_step(3) by (simp add: trust_inv_def)
      have "trusted_set C d (next_authority_set C h (gs_current_authority_set s))"
        using tr j by (auto simp: next_authority_set_def intro: trusted_handoff split: option.split)
      moreover have "trusted_header C d h" using tr j(1) by (auto simp: trusted_header_def)
      moreover have "\<exists>h. trusted_header C d h \<and> hash = h_hash (gc_header C) h \<and> data = stored_header_data_build (gc_header C) h"
        if "gs_imported_headers s' hash = Some data" for hash data
        using insert_header_stored [OF ins that] run_step(3) \<open>trusted_header C d h\<close> by (auto simp: trust_inv_def)
      ultimately show ?thesis using insert_header_frame [OF ins] by (simp add: trust_inv_def)
    qed
  next
    case (step_initialize origin d')
    then show ?thesis using run_step(3) by (auto simp: trust_inv_def elim: initialize_Inr)
  next
    case (step_set_owner origin owner)
    then show ?thesis
      using run_step(3) by (auto simp: grandpa_set_owner_def grandpa_module.set_owner_eq trust_inv_def split: if_splits)
  next
    case (step_set_mode origin mode)
    then show ?thesis
      using run_step(3)
      by (auto simp: grandpa_set_operating_mode_def grandpa_module.set_operating_mode_eq trust_inv_def split: if_splits)
  next
    case (step_on_initialize w)
    then show ?thesis using run_step(3) by (auto simp: grandpa_on_initialize_def trust_inv_def)
  qed
qed

lemma justified_votes:
  assumes "voter_set_new_laws (gc_voter_set_new C)" "acyclic_headers (gc_header C)" and "justified C A h"
  shows "\<exists>voters j votes. gc_voter_set_new C (as_authorities A) = Some voters \<and>
    cm_target_hash (gj_commit j) = h_hash (gc_header C) h \<and> distinct (map sp_id votes) \<and>
    (\<forall>vote \<in> set votes. valid_vote (grandpa_justification_config C) (as_set_id A) voters j vote) \<and>
    2 * voters_total voters < 3 * (\<Sum>vote \<leftarrow> votes. voter_weight voters (sp_id vote))"
proof -
  obtain voters j where v: "gc_voter_set_new C (as_authorities A) = Some voters"
    and ok: "verify_justification (grandpa_justification_config C) (h_hash (gc_header C) h, h_number (gc_header C) h)
      (as_set_id A) voters j = Some (Inr ())"
    using assms(3) by (auto simp: justified_def)
  have laws: "voter_set_laws voters" using assms(1) v by (simp add: voter_set_new_laws_def)
  from verify_with_callbacks_sound [OF acyclic_headers_justification [OF assms(2)] ok [unfolded verify_justification_def]]
    threshold_two_thirds [OF laws] v
  show ?thesis by (metis prod.inject)
qed

section \<open>How long a header is kept\<close>

text \<open>\<open>grandpa_imports C n s s'\<close>: from \<open>s\<close> to \<open>s'\<close> by steps of which exactly \<open>n\<close> import a header.\<close>

inductive grandpa_imports ::
  "('o, 'acc, 'header, 'hash, 'number::{linorder, zero}, 'item, 'id, 'sig, 'w) grandpa_config \<Rightarrow> nat \<Rightarrow>
     ('acc, 'hash, 'number, 'id) grandpa_state \<Rightarrow> ('acc, 'hash, 'number, 'id) grandpa_state \<Rightarrow> bool" for C where
  imports_none: "grandpa_imports C 0 s s"
| imports_submit: "grandpa_imports C n s s' \<Longrightarrow> submit_finality_proof C origin h j s' = Some (Inr (info, s'')) \<Longrightarrow>
    grandpa_imports C (Suc n) s s''"
| imports_other: "grandpa_imports C n s s' \<Longrightarrow> grandpa_step C s' s'' \<Longrightarrow> gs_best_finalized s'' = gs_best_finalized s' \<Longrightarrow>
    grandpa_imports C n s s''"

text \<open>A header that still has \<open>m\<close> imports to go before it is pruned.\<close>

definition header_kept ::
  "('o, 'acc, 'header, 'hash, 'number, 'item, 'id, 'sig, 'w) grandpa_config \<Rightarrow> nat \<Rightarrow> 'header \<Rightarrow>
     ('acc, 'hash, 'number, 'id) grandpa_state \<Rightarrow> bool" where
  "header_kept C m h s \<longleftrightarrow>
     gs_imported_headers s (h_hash (gc_header C) h) = Some (stored_header_data_build (gc_header C) h) \<and>
     (\<exists>i. gs_imported_hashes s i = Some (h_hash (gc_header C) h) \<and>
          ring_distance (gc_headers_to_keep C) (gs_imported_hashes_pointer s) i = m)"

lemma submit_new:
  assumes "submit_rejection C h j s = None" and "gs_best_finalized s = Some best"
  shows "hid_number best < h_number (gc_header C) h"
  using assms by (auto simp: submit_rejection_def split: if_splits)

lemma submit_header_kept:
  assumes laws: "voter_set_new_laws (gc_voter_set_new C)" "acyclic_headers (gc_header C)" "hash_determines_number (gc_header C)"
    and inv: "grandpa_inv C s" and sub: "submit_finality_proof C origin h j s = Some (Inr (info, s'))"
  shows "header_kept C (unat (gc_headers_to_keep C) - 1) h s'"
    and "header_kept C (Suc m) h' s \<Longrightarrow> header_kept C m h' s'"
proof -
  let ?s = "s\<lparr>gs_current_authority_set := next_authority_set C h (gs_current_authority_set s),
    gs_request_count := gs_request_count s + 1\<rparr>"
  obtain rej: "submit_rejection C h j s = None" and ins: "insert_header C h (h_hash (gc_header C) h) ?s = Some s'"
    by (rule submit_Inr [OF laws(1,2) sub])
  have fresh: "h_hash (gc_header C) h \<notin> dom (gs_imported_headers s)"
    by (rule new_header_fresh [OF inv laws(3) submit_new [OF rej]])
  have ring: "ring_ok (gc_headers_to_keep C) (gs_imported_hashes_pointer ?s) (gs_imported_hashes ?s) (gs_imported_headers ?s)"
    using inv by (simp add: grandpa_inv_def)
  have keep: "gc_headers_to_keep C \<noteq> 0" using ins by (auto simp: insert_header_eq)
  have ptr: "gs_imported_hashes_pointer s < gc_headers_to_keep C"
    using ring_next(3) [OF _ keep, of "gs_imported_hashes_pointer s"] ring by (simp add: ring_ok_def)
  have "gs_imported_headers s' (h_hash (gc_header C) h) = Some (stored_header_data_build (gc_header C) h)"
    using grandpa_ring.import_ring_ok(2) [OF ring, of "(h, h_hash (gc_header C) h)" s'] ins fresh by simp
  moreover have "gs_imported_hashes s' (gs_imported_hashes_pointer s) = Some (h_hash (gc_header C) h)"
    "gs_imported_hashes_pointer s' = (gs_imported_hashes_pointer s + 1) mod gc_headers_to_keep C"
    using grandpa_ring.import_slots [of C "(h, h_hash (gc_header C) h)" ?s s']
      grandpa_ring.import_pointer [of C "(h, h_hash (gc_header C) h)" ?s s'] ins by simp_all
  ultimately show "header_kept C (unat (gc_headers_to_keep C) - 1) h s'"
    unfolding header_kept_def using ring_distance_last [OF ptr]
    by (intro conjI exI [of _ "gs_imported_hashes_pointer s"]) simp_all
  assume "header_kept C (Suc m) h' s"
  then obtain i where "gs_imported_hashes ?s i = Some (h_hash (gc_header C) h')"
    "gs_imported_headers ?s (h_hash (gc_header C) h') = Some (stored_header_data_build (gc_header C) h')"
    "ring_distance (gc_headers_to_keep C) (gs_imported_hashes_pointer ?s) i = Suc m"
    by (auto simp: header_kept_def)
  then show "header_kept C m h' s'"
    unfolding header_kept_def
    using grandpa_ring.import_keeps [OF ring, of "(h, h_hash (gc_header C) h)" s' i] ins fresh
    by (intro conjI exI [of _ i]) simp_all
qed

lemma step_without_import:
  assumes laws: "voter_set_new_laws (gc_voter_set_new C)" "acyclic_headers (gc_header C)"
    and "grandpa_step C s s'" and same: "gs_best_finalized s' = gs_best_finalized s"
  shows "gs_imported_headers s' = gs_imported_headers s" "gs_imported_hashes s' = gs_imported_hashes s"
    "gs_imported_hashes_pointer s' = gs_imported_hashes_pointer s"
proof -
  have "gs_imported_headers s' = gs_imported_headers s \<and> gs_imported_hashes s' = gs_imported_hashes s \<and>
    gs_imported_hashes_pointer s' = gs_imported_hashes_pointer s"
    using assms(3)
  proof cases
    case (step_submit origin h j info)
    from step_submit show ?thesis
    proof (rule submit_Inr [OF laws])
      assume rej: "submit_rejection C h j s = None"
        and ins: "insert_header C h (h_hash (gc_header C) h)
         (s\<lparr>gs_current_authority_set := next_authority_set C h (gs_current_authority_set s),
            gs_request_count := gs_request_count s + 1\<rparr>) = Some s'"
      show ?thesis using submit_new [OF rej] insert_header_frame(2) [OF ins] same by auto
    qed
  next
    case (step_initialize origin d)
    from step_initialize show ?thesis
      by (rule initialize_Inr) (use same in \<open>auto simp: insert_header_frame(2)\<close>)
  qed (auto simp: grandpa_set_owner_def grandpa_module.set_owner_eq grandpa_set_operating_mode_def
      grandpa_module.set_operating_mode_eq grandpa_on_initialize_def split: if_splits)
  then show "gs_imported_headers s' = gs_imported_headers s" "gs_imported_hashes s' = gs_imported_hashes s"
    "gs_imported_hashes_pointer s' = gs_imported_hashes_pointer s" by simp_all
qed

lemma imports_header_kept:
  assumes laws: "voter_set_new_laws (gc_voter_set_new C)" "acyclic_headers (gc_header C)" "hash_determines_number (gc_header C)"
    and "grandpa_imports C n s s'" and "grandpa_inv C s" and "header_kept C m h s" and "n \<le> m"
  shows "grandpa_inv C s' \<and> header_kept C (m - n) h s'"
  using assms(4-7)
proof induction
  case (imports_submit n s s' origin h' j info s'')
  then have "header_kept C (Suc (m - Suc n)) h s'" by (simp add: Suc_diff_Suc)
  then show ?case
    using imports_submit submit_header_kept(2) [OF laws _ imports_submit.hyps(2)]
      grandpa_step_inv [OF laws _ step_submit [OF imports_submit.hyps(2)]] by simp
next
  case (imports_other n s s' s'')
  then show ?case
    using step_without_import [OF laws(1,2) imports_other.hyps(2,3)] grandpa_step_inv [OF laws _ imports_other.hyps(2)]
    by (auto simp: header_kept_def)
qed simp

section \<open>An example chain\<close>

text \<open>
  A header is its parent hash, an extra value and its digest; its hash is larger than the parent
  hash, and the hash is also the number. The four sample voters are the only authorities known.
\<close>

type_synonym sample_header = "nat \<times> nat \<times> (nat, nat) consensus_log option list"

definition sample_authorities :: "nat authority_list" where
  "sample_authorities = [(1, 1), (2, 1), (3, 1), (4, 1)]"

definition sample_grandpa_for ::
  "('header, 'hash, 'number, 'item) header_ops \<Rightarrow> ('item \<Rightarrow> ('number, nat) consensus_log option) \<Rightarrow>
     (nat option, nat, 'header, 'hash, 'number, 'item, nat, u64 \<times> u64, u64 \<times> u64) grandpa_config" where
  "sample_grandpa_for header grandpa_log = \<lparr>
     origin_into = (\<lambda>origin. case origin of None \<Rightarrow> Some Root | Some a \<Rightarrow> Some (Signed a)), ensure_signed = id,
     gc_weight_ops = pair_weight_ops,
     gc_db_weight = \<lparr>db_reads = (\<lambda>n. (n, 0)), db_writes = (\<lambda>n. (n, 0)), db_reads_writes = (\<lambda>n m. (n + m, 0))\<rparr>,
     gc_header = header, gc_grandpa_log = grandpa_log,
     gc_check_signature = (\<lambda>_ _ signature round set_id. signature = (round, set_id)),
     gc_voter_set_new = (\<lambda>authorities. if authorities = sample_authorities then Some sample_voters else None),
     gc_max_requests = 2, gc_headers_to_keep = 3, gc_max_authorities_count = 5,
     gc_reasonable_headers_in_justification_ancestry = 8, gc_average_header_size_in_justification = 100,
     gc_max_header_size = 200, gc_number_max_encoded_len = 4, gc_hash_max_encoded_len = 32,
     gc_authority_id_max_encoded_len = 32, gc_authority_max_encoded_len = 40,
     gc_header_encoded_size = (\<lambda>_. 100), gc_justification_encoded_size = (\<lambda>_. 300),
     gc_submit_finality_proof_weight = (\<lambda>p v. (1000, 500))\<rparr>"

definition sample_grandpa_config ::
  "(nat option, nat, sample_header, nat, nat, (nat, nat) consensus_log option, nat, u64 \<times> u64, u64 \<times> u64) grandpa_config" where
  "sample_grandpa_config = sample_grandpa_for
     \<lparr>h_hash = (\<lambda>(p, x, d). Suc (p + x)), h_number = (\<lambda>(p, x, d). Suc (p + x)), h_parent_hash = fst,
       h_state_root = (\<lambda>(p, x, d). x), h_digest = (\<lambda>(p, x, d). d)\<rparr> id"

definition sample_init_data :: "(sample_header, nat) initialization_data" where
  "sample_init_data = \<lparr>id_header = (0, 4, []), id_authority_list = sample_authorities, id_set_id = 1, id_operating_mode = Normal\<rparr>"

definition sample_target :: sample_header where
  "sample_target = (5, 4, [None, Some (ScheduledChange \<lparr>sc_next_authorities = sample_authorities, sc_delay = 0\<rparr>)])"

definition sample_grandpa_justification :: "(nat, nat, nat, u64 \<times> u64, sample_header) grandpa_justification" where
  "sample_grandpa_justification = \<lparr>gj_round = 7,
     gj_commit = \<lparr>cm_target_hash = 10, cm_target_number = 10, cm_precommits = sample_strict_votes\<rparr>,
     gj_votes_ancestries = [(10, 0, [])]\<rparr>"

definition sample_initialized :: "(nat, nat, nat, nat) grandpa_state" where
  "sample_initialized = \<lparr>gs_request_count = 0, gs_initial_hash = 5, gs_best_finalized = Some (HeaderId 5 5),
     gs_imported_hashes = [0 \<mapsto> 5], gs_imported_hashes_pointer = 1,
     gs_imported_headers = [5 \<mapsto> \<lparr>shd_number = 5, shd_state_root = 4\<rparr>],
     gs_current_authority_set = \<lparr>as_authorities = sample_authorities, as_set_id = 1\<rparr>, gs_owner = None,
     gs_operating_mode = Normal\<rparr>"

definition sample_imported :: "(nat, nat, nat, nat) grandpa_state" where
  "sample_imported = \<lparr>gs_request_count = 1, gs_initial_hash = 5, gs_best_finalized = Some (HeaderId 10 10),
     gs_imported_hashes = [0 \<mapsto> 5, 1 \<mapsto> 10], gs_imported_hashes_pointer = 2,
     gs_imported_headers = [5 \<mapsto> \<lparr>shd_number = 5, shd_state_root = 4\<rparr>, 10 \<mapsto> \<lparr>shd_number = 10, shd_state_root = 4\<rparr>],
     gs_current_authority_set = \<lparr>as_authorities = sample_authorities, as_set_id = 2\<rparr>, gs_owner = None,
     gs_operating_mode = Normal\<rparr>"

lemmas grandpa_eval = sample_grandpa_config_def sample_grandpa_for_def sample_init_data_def sample_target_def sample_grandpa_justification_def
  sample_initialized_def sample_imported_def sample_authorities_def
  initialize_def initialize_bridge_def ensure_owner_or_root_def
  stored_authority_set_try_new_def insert_header_eq stored_header_data_build_def submit_finality_proof_def
  ensure_not_halted_def is_halted_def basic_is_halted_def check_obsolete_def pallet_verify_justification_def
  grandpa_justification_config_def try_enact_authority_change_def find_forced_change_def find_scheduled_change_def
  unused_proof_size_def fits_limits_def submit_finality_proof_info_from_args_def max_expected_call_size_def
  max_reasonable_size_def saturating_of_nat_def saturating_sub_def saturating_mul_def saturating_add_def
  pair_weight_ops_def sample_voters_def sample_vote_def sample_strict_votes_def verify_justification_def
  verify_justification_with_callbacks_def verify_precommit_def strict_verification_callbacks_def
  ancestry_chain_new_def ensure_descendant_def descendant_loop.simps checked_add_def Let_def
  word_le_nat_alt word_less_nat_alt

lemma sample_initialize:
  "initialize sample_grandpa_config None sample_init_data (empty_grandpa_state 0) = Some (Inr sample_initialized)"
  by (simp add: grandpa_eval empty_grandpa_state_def)

lemma sample_submit:
  "submit_finality_proof sample_grandpa_config None sample_target sample_grandpa_justification sample_initialized =
     Some (Inr (\<lparr>actual_weight = Some (1000, 460), pays_fee = PaysNo\<rparr>, sample_imported))"
  by (simp add: grandpa_eval)

lemma sample_laws:
  "voter_set_new_laws (gc_voter_set_new sample_grandpa_config)"
  "acyclic_headers (gc_header sample_grandpa_config)"
  "hash_determines_number (gc_header sample_grandpa_config)"
proof -
  show "voter_set_new_laws (gc_voter_set_new sample_grandpa_config)"
    using sample_voters_laws by (simp add: voter_set_new_laws_def sample_grandpa_config_def sample_grandpa_for_def)
  show "hash_determines_number (gc_header sample_grandpa_config)"
    by (auto simp: hash_determines_number_def sample_grandpa_config_def sample_grandpa_for_def)
  let ?H = "gc_header sample_grandpa_config"
  have "acyclic {(h, p). map_of (rev (map (\<lambda>h. (h_hash ?H h, h_parent_hash ?H h)) hs)) h = Some p}" for hs
  proof (rule acyclic_subset)
    show "acyclic {(h, p :: nat). p < h}" by (rule acyclicI_order [where f = id]) auto
    show "{(h, p). map_of (rev (map (\<lambda>h. (h_hash ?H h, h_parent_hash ?H h)) hs)) h = Some p} \<subseteq> {(h, p). p < h}"
      by (auto dest!: map_of_SomeD simp: sample_grandpa_config_def sample_grandpa_for_def)
  qed
  then show "acyclic_headers ?H" by (simp add: acyclic_headers_def acyclic_parents_def)
qed

lemma sample_inv: "grandpa_inv sample_grandpa_config sample_initialized"
  by (auto simp: grandpa_inv_def sample_initialized_def sample_grandpa_config_def sample_grandpa_for_def ring_ok_def sample_authorities_def
      stored_header_data_build_def word_less_nat_alt word_le_nat_alt ran_def split: if_splits)

section \<open>Properties\<close>

text \<open>
  C3: the light client can be trusted. After an initialization, whatever calls follow, the current
  authority set descends from the initial one by hand-overs in finalized headers, and every state
  root that the pallet serves belongs to the initial header or to a header for which voters with
  more than two thirds of the weight of such a trusted set have signed precommits.
\<close>

theorem light_client_trust:
  assumes "voter_set_new_laws (gc_voter_set_new C)" and "acyclic_headers (gc_header C)" and "grandpa_run C d s"
  shows "trusted_set C d (gs_current_authority_set s) \<and>
    (\<forall>hash root. grandpa_finalized_header_state_root s hash = Some root \<longrightarrow>
      (\<exists>h. hash = h_hash (gc_header C) h \<and> root = h_state_root (gc_header C) h \<and>
        (h = id_header d \<or>
         (\<exists>A voters j votes. trusted_set C d A \<and> gc_voter_set_new C (as_authorities A) = Some voters \<and>
            cm_target_hash (gj_commit j) = hash \<and> distinct (map sp_id votes) \<and>
            (\<forall>vote \<in> set votes. valid_vote (grandpa_justification_config C) (as_set_id A) voters j vote) \<and>
            2 * voters_total voters < 3 * (\<Sum>vote \<leftarrow> votes. voter_weight voters (sp_id vote))))))"
proof -
  note inv = grandpa_run_trust [OF assms]
  have "\<exists>h. hash = h_hash (gc_header C) h \<and> root = h_state_root (gc_header C) h \<and>
        (h = id_header d \<or>
         (\<exists>A voters j votes. trusted_set C d A \<and> gc_voter_set_new C (as_authorities A) = Some voters \<and>
            cm_target_hash (gj_commit j) = hash \<and> distinct (map sp_id votes) \<and>
            (\<forall>vote \<in> set votes. valid_vote (grandpa_justification_config C) (as_set_id A) voters j vote) \<and>
            2 * voters_total voters < 3 * (\<Sum>vote \<leftarrow> votes. voter_weight voters (sp_id vote))))"
    if "grandpa_finalized_header_state_root s hash = Some root" for hash root
  proof -
    from that inv obtain h where h: "trusted_header C d h" "hash = h_hash (gc_header C) h" "root = h_state_root (gc_header C) h"
      by (fastforce simp: grandpa_finalized_header_state_root_def trust_inv_def stored_header_data_build_def)
    show ?thesis
    proof (cases "h = id_header d")
      case False
      then obtain A where A: "trusted_set C d A" "justified C A h" using h(1) by (auto simp: trusted_header_def)
      from justified_votes [OF assms(1,2) A(2)] A(1) h(2,3) show ?thesis by blast
    qed (use h in blast)
  qed
  then show ?thesis using inv by (simp add: trust_inv_def)
qed

lemma sample_run: "grandpa_run sample_grandpa_config sample_init_data sample_imported"
proof (rule run_step)
  have "grandpa_inv sample_grandpa_config (empty_grandpa_state 0)"
    by (simp add: grandpa_inv_def empty_grandpa_state_def ring_ok_def stored_authority_set_default_def)
  then show "grandpa_run sample_grandpa_config sample_init_data sample_initialized"
    by (rule run_start [OF _ sample_initialize])
  show "grandpa_step sample_grandpa_config sample_initialized sample_imported"
    by (rule step_submit [OF sample_submit])
qed

theorem light_client_trust_witness:
  "\<exists>h. h_hash (gc_header sample_grandpa_config) h = 10 \<and> h_state_root (gc_header sample_grandpa_config) h = 4"
proof -
  have "grandpa_finalized_header_state_root sample_imported 10 = Some 4"
    by (simp add: grandpa_finalized_header_state_root_def sample_imported_def)
  then show ?thesis using light_client_trust [OF sample_laws(1,2) sample_run] by metis
qed

text \<open>
  C21: in every reachable state the pallet stores at most \<open>HeadersToKeep\<close> headers, exactly those in
  its ring buffer; the best finalized header is stored and no stored header has a higher number; the
  authority set fits its bound and the request counter never exceeds \<open>MaxRequests\<close>.
\<close>

theorem grandpa_reachable_invariant:
  assumes "voter_set_new_laws (gc_voter_set_new C)" and "acyclic_headers (gc_header C)"
    and "hash_determines_number (gc_header C)" and "grandpa_reachable C s"
  shows "grandpa_inv C s \<and> finite (dom (gs_imported_headers s)) \<and>
    card (dom (gs_imported_headers s)) \<le> unat (gc_headers_to_keep C)"
proof -
  have inv: "grandpa_inv C s" by (rule grandpa_reachable_inv [OF assms])
  then show ?thesis
    using ring_ok_bound [of "gc_headers_to_keep C" "gs_imported_hashes_pointer s" "gs_imported_hashes s" "gs_imported_headers s"]
    by (simp add: grandpa_inv_def)
qed

lemma sample_reachable: "grandpa_reachable sample_grandpa_config sample_imported"
proof (rule reachable_step)
  show "grandpa_reachable sample_grandpa_config sample_initialized"
    by (rule reachable_genesis [where owner = None and init_data = "Some sample_init_data" and hash = 0])
       (simp add: grandpa_genesis_build_def grandpa_eval empty_grandpa_state_def)
  show "grandpa_step sample_grandpa_config sample_initialized sample_imported"
    by (rule step_submit [OF sample_submit])
qed

theorem grandpa_reachable_invariant_witness:
  "grandpa_inv sample_grandpa_config sample_imported \<and> card (dom (gs_imported_headers sample_imported)) \<le> 3"
  using grandpa_reachable_invariant [OF sample_laws sample_reachable] by (simp add: sample_grandpa_config_def sample_grandpa_for_def)

text \<open>
  C20: an imported header is available until \<open>HeadersToKeep\<close> further headers have been imported, no
  matter which other calls are made in between.
\<close>

theorem imported_header_retained:
  assumes "voter_set_new_laws (gc_voter_set_new C)" and "acyclic_headers (gc_header C)"
    and "hash_determines_number (gc_header C)" and "grandpa_inv C s"
    and "submit_finality_proof C origin h j s = Some (Inr (info, s1))"
    and "grandpa_imports C n s1 s2" and "n < unat (gc_headers_to_keep C)"
  shows "grandpa_finalized_header_state_root s2 (h_hash (gc_header C) h) = Some (h_state_root (gc_header C) h)"
proof -
  have "header_kept C (unat (gc_headers_to_keep C) - 1 - n) h s2"
    using imports_header_kept [OF assms(1-3,6) grandpa_step_inv [OF assms(1-4) step_submit [OF assms(5)]]
        submit_header_kept(1) [OF assms(1-5)]] assms(7) by simp
  then show ?thesis
    by (simp add: header_kept_def grandpa_finalized_header_state_root_def stored_header_data_build_def)
qed

theorem imported_header_retained_witness:
  "grandpa_finalized_header_state_root (snd (grandpa_on_initialize sample_grandpa_config sample_imported))
     (h_hash (gc_header sample_grandpa_config) sample_target) = Some (h_state_root (gc_header sample_grandpa_config) sample_target)"
proof -
  let ?s = "snd (grandpa_on_initialize sample_grandpa_config sample_imported)"
  have "grandpa_imports sample_grandpa_config 0 sample_imported ?s"
    by (rule imports_other [OF imports_none step_on_initialize]) (auto simp: grandpa_on_initialize_def)
  then show ?thesis
    by (rule imported_header_retained [OF sample_laws sample_inv sample_submit]) (simp add: sample_grandpa_config_def sample_grandpa_for_def)
qed

text \<open>
  C22: \<open>submit_finality_proof\<close> never panics when headers are kept. It reports the first failing check
  in the order of the code and changes nothing; when all checks pass, the header becomes the best
  finalized one, its state root is served, the scheduled authority set is enacted with the next set
  identifier (and otherwise the set stays the same), and one request is counted.
\<close>

theorem submit_finality_proof_behaviour:
  assumes "voter_set_new_laws (gc_voter_set_new C)" and "acyclic_headers (gc_header C)"
    and "hash_determines_number (gc_header C)" and "grandpa_inv C s" and "gc_headers_to_keep C \<noteq> 0"
  shows "case submit_rejection C h j s of
      Some e \<Rightarrow> submit_finality_proof C origin h j s = Some (Inl (ModuleError e))
    | None \<Rightarrow> \<exists>s'. submit_finality_proof C origin h j s =
          Some (Inr (submit_post_info C h j (gs_current_authority_set s), s')) \<and>
        gs_best_finalized s' = Some (HeaderId (h_number (gc_header C) h) (h_hash (gc_header C) h)) \<and>
        grandpa_finalized_header_state_root s' (h_hash (gc_header C) h) = Some (h_state_root (gc_header C) h) \<and>
        gs_current_authority_set s' = next_authority_set C h (gs_current_authority_set s) \<and>
        gs_request_count s' = gs_request_count s + 1"
proof (cases "submit_rejection C h j s")
  case None
  then obtain s' where s': "submit_finality_proof C origin h j s =
      Some (Inr (submit_post_info C h j (gs_current_authority_set s), s'))"
    and ins: "insert_header C h (h_hash (gc_header C) h)
         (s\<lparr>gs_current_authority_set := next_authority_set C h (gs_current_authority_set s),
            gs_request_count := gs_request_count s + 1\<rparr>) = Some s'"
    using assms(5) by (auto simp: submit_finality_proof_eq [OF assms(1,2)] insert_header_eq)
  have "header_kept C (unat (gc_headers_to_keep C) - 1) h s'" by (rule submit_header_kept(1) [OF assms(1-4) s'])
  then show ?thesis
    using s' insert_header_frame [OF ins] None
    by (simp add: header_kept_def grandpa_finalized_header_state_root_def stored_header_data_build_def)
qed (simp add: submit_finality_proof_eq [OF assms(1,2)])

theorem submit_finality_proof_behaviour_witness:
  "submit_finality_proof sample_grandpa_config None sample_target sample_grandpa_justification
     (sample_initialized\<lparr>gs_request_count := 2\<rparr>) = Some (Inl (ModuleError TooManyRequests))"
proof -
  have inv: "grandpa_inv sample_grandpa_config (sample_initialized\<lparr>gs_request_count := 2\<rparr>)"
    using sample_inv by (simp add: sample_grandpa_config_def sample_grandpa_for_def)
  have rej: "submit_rejection sample_grandpa_config sample_target sample_grandpa_justification
     (sample_initialized\<lparr>gs_request_count := 2\<rparr>) = Some TooManyRequests"
    by (simp add: submit_rejection_def sample_initialized_def sample_grandpa_config_def sample_grandpa_for_def)
  show ?thesis
    using submit_finality_proof_behaviour [OF sample_laws inv, where h = sample_target and
        j = sample_grandpa_justification and origin = None]
    by (simp add: rej) (simp add: sample_grandpa_config_def sample_grandpa_for_def)
qed

lemma convert_first_single:
  assumes "length (filter (\<lambda>item. log item \<noteq> None) items) \<le> 1"
  shows "(case convert_first log items of Some (ScheduledChange change) \<Rightarrow> Some change | _ \<Rightarrow> None) =
    convert_first (\<lambda>l. Option.bind (log l) (\<lambda>log. case log of ScheduledChange change \<Rightarrow> Some change | _ \<Rightarrow> None)) items"
  using assms
proof (induction items)
  case (Cons item items)
  show ?case
  proof (cases "log item")
    case (Some l)
    then have "filter (\<lambda>item. log item \<noteq> None) items = []" using Cons.prems by simp
    then have "convert_first (\<lambda>l. Option.bind (log l)
        (\<lambda>log. case log of ScheduledChange change \<Rightarrow> Some change | _ \<Rightarrow> None)) items = None"
      by (auto simp: convert_first_None filter_empty_conv)
    then show ?thesis using Some by (cases l) simp_all
  qed (use Cons in simp)
qed simp

text \<open>
  The relay and the pallet read the same authority set change from a header that has at most one
  GRANDPA log in its digest.
\<close>

lemma authorities_change_agree:
  assumes "length (filter (\<lambda>item. gc_grandpa_log C item \<noteq> None) (h_digest (gc_header C) h)) \<le> 1"
  shows "find_authorities_change (gc_grandpa_log C) (h_digest (gc_header C) h) = find_scheduled_change C h"
  unfolding find_authorities_change_def find_scheduled_change_def by (rule convert_first_single [OF assms])

text \<open>
  With two GRANDPA logs they disagree. When another log precedes the scheduled change, the
  pallet enacts the change while the relay's reader finds none, so that the relay does not treat
  the header as mandatory.
\<close>

lemma authorities_change_disagree:
  "\<exists>h change. find_scheduled_change sample_grandpa_config h = Some change \<and>
     \<not> schedules_authorities_change (gc_grandpa_log sample_grandpa_config) (h_digest (gc_header sample_grandpa_config) h)"
  by (rule exI [of _ "(5, 4, [Some OtherLog, Some (ScheduledChange \<lparr>sc_next_authorities = sample_authorities, sc_delay = 0\<rparr>)])"])
     (simp add: find_scheduled_change_def schedules_authorities_change_def find_authorities_change_def sample_grandpa_config_def sample_grandpa_for_def)

text \<open>
  The fee of an import is waived exactly for headers that change the authority set in a call
  within the expected limits, and the reported weight never exceeds the declared one: only its proof
  size is reduced, by the bytes that missing authorities do not occupy.
\<close>

lemma submit_finality_proof_fee:
  assumes "voter_set_new_laws (gc_voter_set_new C)" and "acyclic_headers (gc_header C)" and "weight_laws (gc_weight_ops C)"
    and "submit_finality_proof C origin h j s = Some (Inr (info, s'))"
  shows "(pays_fee info = PaysNo \<longleftrightarrow> find_scheduled_change C h \<noteq> None \<and>
      fits_limits (gc_weight_ops C) (submit_finality_proof_info_from_args C h j)) \<and>
    (\<exists>used. actual_weight info = Some used \<and> weight_le (gc_weight_ops C) used
       (gc_submit_finality_proof_weight C (saturating_of_nat (length (cm_precommits (gj_commit j))))
         (saturating_of_nat (length (gj_votes_ancestries j)))))"
proof -
  have "info = submit_post_info C h j (gs_current_authority_set s)" by (rule submit_Inr [OF assms(1,2,4)])
  then show ?thesis
    by (simp add: submit_post_info_def Let_def weight_le_def weight_simps [OF assms(3)])
qed

lemma finality_check_agrees:
  assumes "voter_set_new_laws (gc_voter_set_new C)" and "acyclic_headers (gc_header C)"
    and "is_sub_type call = Some (Call_submit_finality_proof h j)"
  shows "(check_obsolete_submit_finality_proof C is_sub_type call s \<noteq> Inr () \<longrightarrow>
      (\<exists>e. submit_finality_proof C origin h j s = Some (Inl (ModuleError e)))) \<and>
    (\<forall>info s'. submit_finality_proof C origin h j s = Some (Inr (info, s')) \<longrightarrow>
      check_obsolete_submit_finality_proof C is_sub_type call s = Inr () \<and> was_successful (h_number (gc_header C) h) s')"
proof -
  have chk: "check_obsolete_submit_finality_proof C is_sub_type call s =
    (case gs_best_finalized s of
       None \<Rightarrow> Inl InvalidCall
     | Some best \<Rightarrow> if h_number (gc_header C) h \<le> hid_number best then Inl Stale else Inr ())"
    using assms(3)
    by (simp add: check_obsolete_submit_finality_proof_def call_submit_finality_proof_info_def check_obsolete_def
        submit_finality_proof_info_from_args_def Let_def split: option.split)
  have "submit_rejection C h j s \<noteq> None" if "check_obsolete_submit_finality_proof C is_sub_type call s \<noteq> Inr ()"
    using that by (auto simp: chk submit_rejection_def split: option.splits if_splits)
  moreover have "check_obsolete_submit_finality_proof C is_sub_type call s = Inr () \<and> was_successful (h_number (gc_header C) h) s'"
    if sub: "submit_finality_proof C origin h j s = Some (Inr (info, s'))" for info s'
  proof (rule submit_Inr [OF assms(1,2) sub])
    assume rej: "submit_rejection C h j s = None"
      and ins: "insert_header C h (h_hash (gc_header C) h)
         (s\<lparr>gs_current_authority_set := next_authority_set C h (gs_current_authority_set s),
            gs_request_count := gs_request_count s + 1\<rparr>) = Some s'"
    show ?thesis
      using rej insert_header_frame(2) [OF ins]
      by (auto simp: chk submit_rejection_def was_successful_def split: option.splits if_splits)
  qed
  ultimately show ?thesis by (auto simp: submit_finality_proof_eq [OF assms(1,2)])
qed

text \<open>
  The check of the transaction pool is sound and complete for outdated headers. A call that it
  rejects would fail when dispatched, and a call that succeeds had passed it and is recognised as
  successful afterwards.
\<close>

lemma obsolete_check_agrees:
  assumes "voter_set_new_laws (gc_voter_set_new C)" and "acyclic_headers (gc_header C)"
    and "is_sub_type call = Some (Call_submit_finality_proof h j)"
  shows "(check_obsolete_submit_finality_proof C is_sub_type call s \<noteq> Inr () \<longrightarrow>
      (\<exists>e. submit_finality_proof C origin h j s = Some (Inl (ModuleError e)))) \<and>
    (\<forall>info s'. submit_finality_proof C origin h j s = Some (Inr (info, s')) \<longrightarrow>
      check_obsolete_submit_finality_proof C is_sub_type call s = Inr () \<and> was_successful (h_number (gc_header C) h) s')"
  using assms by (rule finality_check_agrees)

text \<open>
  The pallet is initialized once. Without initial data it starts halted and accepts no header;
  after an initialization, a further one is refused to administrators and everybody else.
\<close>

lemma initialized_once:
  assumes "voter_set_new_laws (gc_voter_set_new C)" and "acyclic_headers (gc_header C)"
  shows "(\<forall>owner s. grandpa_genesis_build C owner None (empty_grandpa_state hash) = Some s \<longrightarrow>
      submit_finality_proof C origin h j s = Some (Inl (ModuleError (GrandpaBridgeModule OwnedHalted)))) \<and>
    (\<forall>s. grandpa_run C d s \<longrightarrow> initialize C origin d' s =
      Some (Inl (if module_admin C grandpa_owned origin s then ModuleError AlreadyInitialized else BadOrigin)))"
proof (intro conjI allI impI)
  fix owner s
  assume "grandpa_genesis_build C owner None (empty_grandpa_state hash) = Some s"
  then have "gs_operating_mode s = Halted" by (auto simp: grandpa_genesis_build_def)
  then show "submit_finality_proof C origin h j s = Some (Inl (ModuleError (GrandpaBridgeModule OwnedHalted)))"
    by (simp add: submit_finality_proof_eq [OF assms] submit_rejection_def)
next
  fix s
  assume "grandpa_run C d s"
  then have "gs_best_finalized s \<noteq> None" using grandpa_run_trust [OF assms] by (simp add: trust_inv_def)
  then show "initialize C origin d' s =
      Some (Inl (if module_admin C grandpa_owned origin s then ModuleError AlreadyInitialized else BadOrigin))"
    by (simp add: initialize_def ensure_owner_or_root_iff)
qed

end
