(* ===== verification/Parachains_Pallet.thy ===== *)
theory Parachains_Pallet
  imports Grandpa_Pallet
begin

text \<open>
  The parachains pallet (\<open>modules/parachains/src/lib.rs\<close>, \<open>call_ext.rs\<close>, \<open>weights_ext.rs\<close>) and its
  primitives (\<open>primitives/parachains/src/lib.rs\<close>, \<open>primitives/polkadot-core/src/parachains.rs\<close>):
  heads of parachains are read from storage proofs below relay chain headers that the GRANDPA pallet
  has imported, and kept in one ring buffer per parachain.

  Hashing, the SCALE codec, the trie and the builder of stored head data are parameters of the
  configuration.
\<close>

section \<open>Primitives\<close>

datatype para_id = ParaId (para_id_number: u32)

datatype para_head = ParaHead bytes

datatype para_stored_header_data = ParaStoredHeaderData (encoded_data: bytes)

definition para_head_hash :: "(bytes \<Rightarrow> 'hash) \<Rightarrow> para_head \<Rightarrow> 'hash" where
  "para_head_hash blake2_256 head = (case head of ParaHead data \<Rightarrow> blake2_256 data)"

text \<open>\<open>Size for ParaHeadsProof\<close>: the sum of the lengths of the nodes, clamped to \<open>u32\<close>.\<close>

definition para_heads_proof_size :: "bytes list \<Rightarrow> u32" where
  "para_heads_proof_size proof = saturating_of_nat (fold (\<lambda>node sum. sum + length node) proof 0)"

record 'hash best_para_head_hash =
  at_relay_block_number :: u32
  head_hash :: 'hash

record 'hash para_info =
  best_head_hash :: "'hash best_para_head_hash"
  next_imported_hash_position :: u32

definition parachain_head_storage_key_at_source ::
  "(bytes \<Rightarrow> bytes) \<Rightarrow> (bytes \<Rightarrow> bytes) \<Rightarrow> (para_id \<Rightarrow> bytes) \<Rightarrow> string \<Rightarrow> para_id \<Rightarrow> bytes" where
  "parachain_head_storage_key_at_source twox_128 twox_64_concat encode_para_id paras_pallet_name para_id =
     storage_map_final_key twox_128 twox_64_concat paras_pallet_name ''Heads'' (encode_para_id para_id)"

definition paras_info_final_key :: "(bytes \<Rightarrow> bytes) \<Rightarrow> (bytes \<Rightarrow> bytes) \<Rightarrow> (para_id \<Rightarrow> bytes) \<Rightarrow> string \<Rightarrow> para_id \<Rightarrow> bytes" where
  "paras_info_final_key twox_128 blake2_128_concat encode_para_id =
     map_key_provider_final_key twox_128 blake2_128_concat encode_para_id ''ParasInfo''"

definition imported_para_heads_final_key ::
  "(bytes \<Rightarrow> bytes) \<Rightarrow> (bytes \<Rightarrow> bytes) \<Rightarrow> (para_id \<Rightarrow> bytes) \<Rightarrow> ('hash \<Rightarrow> bytes) \<Rightarrow> string \<Rightarrow> para_id \<Rightarrow> 'hash \<Rightarrow> bytes" where
  "imported_para_heads_final_key twox_128 blake2_128_concat encode_para_id encode_hash =
     double_map_key_provider_final_key twox_128 blake2_128_concat blake2_128_concat encode_para_id encode_hash ''ImportedParaHeads''"

definition decode_parachain_head_data ::
  "(bytes \<Rightarrow> ('number, 'hash) stored_header_data option) \<Rightarrow> para_stored_header_data \<Rightarrow>
     ('number, 'hash) stored_header_data option" where
  "decode_parachain_head_data decode data = decode (encoded_data data)"

definition single_para_try_build ::
  "u32 \<Rightarrow> (bytes \<Rightarrow> 'header option) \<Rightarrow> ('header, 'hash, 'number, 'item) header_ops \<Rightarrow>
     (('number, 'hash) stored_header_data \<Rightarrow> bytes) \<Rightarrow> para_id \<Rightarrow> para_head \<Rightarrow> para_stored_header_data option" where
  "single_para_try_build parachain_id decode_header H encode para_id para_head =
     (if para_id = ParaId parachain_id
      then case para_head of ParaHead data \<Rightarrow>
        do {
          header \<leftarrow> decode_header data;
          Some (ParaStoredHeaderData
            (encode \<lparr>shd_number = h_number H header, shd_state_root = h_state_root H header\<rparr>))
        }
      else None)"

text \<open>The builder of a tuple of parachains tries its members in order.\<close>

fun tuple_try_build ::
  "(para_id \<Rightarrow> para_head \<Rightarrow> para_stored_header_data option) list \<Rightarrow> para_id \<Rightarrow> para_head \<Rightarrow>
     para_stored_header_data option" where
  "tuple_try_build [] para_id para_head = None"
| "tuple_try_build (build # builders) para_id para_head =
     (case build para_id para_head of
        Some maybe_para_head \<Rightarrow> Some maybe_para_head
      | None \<Rightarrow> tuple_try_build builders para_id para_head)"

fun tuple_supported_parachains :: "'b list \<Rightarrow> u32" where
  "tuple_supported_parachains [] = 0"
| "tuple_supported_parachains (build # builders) = 1 + tuple_supported_parachains builders"

section \<open>Weights (weights\_ext.rs)\<close>

record 'w parachains_weight_info =
  submit_parachain_heads_with_n_parachains :: "u32 \<Rightarrow> 'w"
  submit_parachain_heads_with_1kb_proof :: 'w
  submit_parachain_heads_with_16kb_proof :: 'w

definition DEFAULT_PARACHAIN_HEAD_SIZE :: u32 where
  "DEFAULT_PARACHAIN_HEAD_SIZE = 384"

definition PARACHAINS_EXTRA_STORAGE_PROOF_SIZE :: u32 where
  "PARACHAINS_EXTRA_STORAGE_PROOF_SIZE = 1024"

definition parachain_head_storage_write_weight :: "'w db_weight \<Rightarrow> 'w" where
  "parachain_head_storage_write_weight db_weight = db_writes db_weight 2"

definition parachain_head_pruning_weight :: "'w db_weight \<Rightarrow> 'w" where
  "parachain_head_pruning_weight db_weight = db_writes db_weight 1"

definition parachains_storage_proof_size_overhead :: "'w weight_ops \<Rightarrow> 'w parachains_weight_info \<Rightarrow> u32 \<Rightarrow> 'w" where
  "parachains_storage_proof_size_overhead W I extra_proof_bytes =
     (let extra_byte_weight =
            w_div W (w_sub W (submit_parachain_heads_with_16kb_proof I) (submit_parachain_heads_with_1kb_proof I)) (15 * 1024)
      in w_saturating_mul W extra_byte_weight (ucast extra_proof_bytes))"

definition submit_parachain_heads_weight ::
  "'w weight_ops \<Rightarrow> 'w parachains_weight_info \<Rightarrow> 'w db_weight \<Rightarrow> u32 \<Rightarrow> u32 \<Rightarrow> 'w" where
  "submit_parachain_heads_weight W I db_weight actual_proof_size parachains_count =
     (let base_weight = submit_parachain_heads_with_n_parachains I parachains_count;
          expected_proof_size =
            saturating_add (saturating_mul parachains_count DEFAULT_PARACHAIN_HEAD_SIZE) PARACHAINS_EXTRA_STORAGE_PROOF_SIZE;
          proof_size_overhead =
            parachains_storage_proof_size_overhead W I (saturating_sub actual_proof_size expected_proof_size);
          pruning_weight = w_saturating_mul W (parachain_head_pruning_weight db_weight) (ucast parachains_count)
      in w_saturating_add W (w_saturating_add W base_weight proof_size_overhead) pruning_weight)"

section \<open>Configuration, storage, events and errors\<close>

record ('o, 'acc, 'hash, 'w) parachains_config =
  "('o, 'acc) origin_config" +
  pc_weight_ops :: "'w weight_ops"
  pc_db_weight :: "'w db_weight"
  pc_weight_info :: "'w parachains_weight_info"
  pc_trie :: "'hash trie_ops"
  pc_twox_128 :: "bytes \<Rightarrow> bytes"
  pc_twox_64_concat :: "bytes \<Rightarrow> bytes"
  pc_encode_para_id :: "para_id \<Rightarrow> bytes"
  pc_decode_para_head :: "bytes \<Rightarrow> para_head option"
  pc_blake2_256 :: "bytes \<Rightarrow> 'hash"
  pc_paras_pallet_name :: string
  pc_try_build :: "para_id \<Rightarrow> para_head \<Rightarrow> para_stored_header_data option"
  pc_heads_to_keep :: u32
  pc_max_para_head_data_size :: u32
  pc_stored_data_encoded_size :: "para_stored_header_data \<Rightarrow> nat"

datatype 'hash parachains_event =
    UntrackedParachainRejected para_id
  | MissingParachainHead para_id
  | IncorrectParachainHeadHash para_id 'hash 'hash
  | RejectedObsoleteParachainHead para_id 'hash
  | RejectedLargeParachainHead para_id 'hash u32
  | UpdatedParachainHead para_id 'hash

datatype parachains_error =
    UnknownRelayChainBlock
  | InvalidRelayChainBlockNumber
  | HeaderChain header_chain_error
  | UnknownParaHead
  | ParaStorageRootMismatch
  | FailedToExtractStateRoot
  | ParachainsBridgeModule owned_bridge_module_error

record ('acc, 'hash) parachains_state =
  ps_owner :: "'acc option"
  ps_operating_mode :: basic_operating_mode
  ps_paras_info :: "para_id \<rightharpoonup> 'hash para_info"
  ps_imported_para_heads :: "para_id \<times> 'hash \<rightharpoonup> para_stored_header_data"
  ps_imported_para_hashes :: "para_id \<times> u32 \<rightharpoonup> 'hash"
  ps_events :: "'hash parachains_event list"

definition parachains_deposit_event ::
  "'hash parachains_event \<Rightarrow> ('acc, 'hash) parachains_state \<Rightarrow> ('acc, 'hash) parachains_state" where
  "parachains_deposit_event e s = s\<lparr>ps_events := ps_events s @ [e]\<rparr>"

definition parachains_genesis_build ::
  "basic_operating_mode \<Rightarrow> 'acc option \<Rightarrow> ('acc, 'hash) parachains_state \<Rightarrow> ('acc, 'hash) parachains_state" where
  "parachains_genesis_build operating_mode owner s =
     (let s = s\<lparr>ps_operating_mode := operating_mode\<rparr>
      in case owner of Some owner \<Rightarrow> s\<lparr>ps_owner := Some owner\<rparr> | None \<Rightarrow> s)"

definition maybe_max_parachains :: "u32 \<Rightarrow> u32 option" where
  "maybe_max_parachains supported_parachains = Some supported_parachains"

definition maybe_max_total_parachain_hashes :: "u32 \<Rightarrow> u32 \<Rightarrow> u32 option" where
  "maybe_max_total_parachain_hashes supported_parachains heads_to_keep =
     Some (saturating_mul supported_parachains heads_to_keep)"

section \<open>Owner and operating mode\<close>

definition parachains_owned :: "(('acc, 'hash) parachains_state, 'acc, basic_operating_mode) owned_storage" where
  "parachains_owned = \<lparr>
     om_owner = ps_owner, om_put_owner = (\<lambda>x s. s\<lparr>ps_owner := x\<rparr>),
     om_mode = ps_operating_mode, om_put_mode = (\<lambda>m s. s\<lparr>ps_operating_mode := m\<rparr>),
     om_mode_halted = basic_is_halted\<rparr>"

lemma parachains_owned_simps [simp]:
  "om_owner parachains_owned = ps_owner" "om_put_owner parachains_owned = (\<lambda>x s. s\<lparr>ps_owner := x\<rparr>)"
  "om_mode parachains_owned = ps_operating_mode" "om_put_mode parachains_owned = (\<lambda>m s. s\<lparr>ps_operating_mode := m\<rparr>)"
  "om_mode_halted parachains_owned = basic_is_halted"
  by (simp_all add: parachains_owned_def)

interpretation parachains_module: owned_bridge_module parachains_owned
  by unfold_locales simp_all

definition parachains_set_owner ::
  "('o, 'acc, 'z) origin_config_scheme \<Rightarrow> 'o \<Rightarrow> 'acc option \<Rightarrow> ('acc, 'hash) parachains_state \<Rightarrow>
     parachains_error dispatch_error + ('acc, 'hash) parachains_state" where
  "parachains_set_owner C origin new_owner s = set_owner C parachains_owned origin new_owner s"

definition parachains_set_operating_mode ::
  "('o, 'acc, 'z) origin_config_scheme \<Rightarrow> 'o \<Rightarrow> basic_operating_mode \<Rightarrow> ('acc, 'hash) parachains_state \<Rightarrow>
     parachains_error dispatch_error + ('acc, 'hash) parachains_state" where
  "parachains_set_operating_mode C origin operating_mode s = set_operating_mode C parachains_owned origin operating_mode s"

section \<open>Obsolete heads (call\_ext.rs)\<close>

record 'hash submit_parachain_heads_info =
  sph_at_relay_block_number :: u32
  sph_para_id :: para_id
  sph_para_head_hash :: 'hash

definition para_is_obsolete :: "'hash submit_parachain_heads_info \<Rightarrow> ('acc, 'hash) parachains_state \<Rightarrow> bool" where
  "para_is_obsolete update s =
     (case ps_paras_info s (sph_para_id update) of
        None \<Rightarrow> False
      | Some stored_best_head \<Rightarrow>
          if sph_at_relay_block_number update \<le> at_relay_block_number (best_head_hash stored_best_head) then True
          else if head_hash (best_head_hash stored_best_head) = sph_para_head_hash update then True
          else False)"

definition para_was_successful :: "'hash submit_parachain_heads_info \<Rightarrow> ('acc, 'hash) parachains_state \<Rightarrow> bool" where
  "para_was_successful update s =
     (case ps_paras_info s (sph_para_id update) of
        Some stored_best_head \<Rightarrow>
          best_head_hash stored_best_head =
            \<lparr>at_relay_block_number = sph_at_relay_block_number update, head_hash = sph_para_head_hash update\<rparr>
      | None \<Rightarrow> False)"

datatype ('acc, 'hash) parachains_call =
    Call_submit_parachain_heads "u32 \<times> 'hash" "(para_id \<times> 'hash) list" "bytes list"
  | Call_parachains_set_owner "'acc option"
  | Call_parachains_set_operating_mode basic_operating_mode

definition one_entry_submit_parachain_heads_info ::
  "('call \<Rightarrow> ('acc, 'hash) parachains_call option) \<Rightarrow> 'call \<Rightarrow> 'hash submit_parachain_heads_info option" where
  "one_entry_submit_parachain_heads_info is_sub_type call =
     (case is_sub_type call of
        Some (Call_submit_parachain_heads at_relay_block parachains _) \<Rightarrow>
          (case parachains of
             [(para_id, hash)] \<Rightarrow>
               Some \<lparr>sph_at_relay_block_number = fst at_relay_block, sph_para_id = para_id, sph_para_head_hash = hash\<rparr>
           | _ \<Rightarrow> None)
      | _ \<Rightarrow> None)"

definition submit_parachain_heads_info_for ::
  "('call \<Rightarrow> ('acc, 'hash) parachains_call option) \<Rightarrow> 'call \<Rightarrow> u32 \<Rightarrow> 'hash submit_parachain_heads_info option" where
  "submit_parachain_heads_info_for is_sub_type call para_id =
     (case one_entry_submit_parachain_heads_info is_sub_type call of
        Some update \<Rightarrow> if para_id_number (sph_para_id update) = para_id then Some update else None
      | None \<Rightarrow> None)"

definition check_obsolete_submit_parachain_heads ::
  "('call \<Rightarrow> ('acc, 'hash) parachains_call option) \<Rightarrow> 'call \<Rightarrow> ('acc, 'hash) parachains_state \<Rightarrow>
     invalid_transaction + unit" where
  "check_obsolete_submit_parachain_heads is_sub_type call s =
     (case one_entry_submit_parachain_heads_info is_sub_type call of
        None \<Rightarrow> Inr ()
      | Some update \<Rightarrow> if para_is_obsolete update s then Inl Stale else Inr ())"

section \<open>Importing heads\<close>

definition read_parachain_head ::
  "('o, 'acc, 'hash, 'w) parachains_config \<Rightarrow> 'hash storage_proof_checker \<Rightarrow> para_id \<Rightarrow>
     (storage_proof_error + para_head option) \<times> 'hash storage_proof_checker" where
  "read_parachain_head C storage parachain =
     (let parachain_head_key = parachain_head_storage_key_at_source (pc_twox_128 C) (pc_twox_64_concat C)
            (pc_encode_para_id C) (pc_paras_pallet_name C) parachain
      in read_and_decode_value (pc_trie C) (pc_decode_para_head C) parachain_head_key storage)"

record 'hash update_parachain_head_artifacts =
  up_best_head :: "'hash para_info"
  up_prune_happened :: bool

text \<open>
  The write of a new head into the ring of its parachain; \<open>None\<close> is the panic of the remainder by
  zero. The ring position is the one of the stored information, which \<open>take\<close> has moved out.
\<close>

definition import_parachain_head ::
  "('o, 'acc, 'hash, 'w) parachains_config \<Rightarrow> para_id \<Rightarrow> 'hash para_info option \<Rightarrow> u32 \<Rightarrow> para_stored_header_data \<Rightarrow> 'hash \<Rightarrow>
     ('acc, 'hash) parachains_state \<Rightarrow> ('hash update_parachain_head_artifacts \<times> ('acc, 'hash) parachains_state) option" where
  "import_parachain_head C parachain stored_best_head new_at_relay_block_number updated_head_data new_head_hash s =
     (let next_position = (case stored_best_head of None \<Rightarrow> 0 | Some stored_best_head \<Rightarrow> next_imported_hash_position stored_best_head);
          head_hash_to_prune = ps_imported_para_hashes s (parachain, next_position)
      in do {
           position \<leftarrow> checked_rem (next_position + 1) (pc_heads_to_keep C);
           let updated_best_para_head = \<lparr>
             best_head_hash = \<lparr>at_relay_block_number = new_at_relay_block_number, head_hash = new_head_hash\<rparr>,
             next_imported_hash_position = position\<rparr>;
           let s = s\<lparr>ps_imported_para_hashes := (ps_imported_para_hashes s)((parachain, next_position) \<mapsto> new_head_hash)\<rparr>;
           let s = s\<lparr>ps_imported_para_heads := (ps_imported_para_heads s)((parachain, new_head_hash) \<mapsto> updated_head_data)\<rparr>;
           let prune_happened = (head_hash_to_prune \<noteq> None);
           let s = (case head_hash_to_prune of
                      Some head_hash_to_prune \<Rightarrow>
                        s\<lparr>ps_imported_para_heads := (ps_imported_para_heads s)((parachain, head_hash_to_prune) := None)\<rparr>
                    | None \<Rightarrow> s);
           let s = parachains_deposit_event (UpdatedParachainHead parachain new_head_hash) s;
           Some (\<lparr>up_best_head = updated_best_para_head, up_prune_happened = prune_happened\<rparr>, s)
         })"

definition update_parachain_head ::
  "('o, 'acc, 'hash, 'w) parachains_config \<Rightarrow> para_id \<Rightarrow> 'hash para_info option \<Rightarrow> u32 \<Rightarrow> para_stored_header_data \<Rightarrow> 'hash \<Rightarrow>
     ('acc, 'hash) parachains_state \<Rightarrow>
     ((unit + 'hash update_parachain_head_artifacts) \<times> ('acc, 'hash) parachains_state) option" where
  "update_parachain_head C parachain stored_best_head new_at_relay_block_number new_head_data new_head_hash s =
     (let update = \<lparr>sph_at_relay_block_number = new_at_relay_block_number, sph_para_id = parachain,
            sph_para_head_hash = new_head_hash\<rparr>
      in if para_is_obsolete update s
         then Some (Inl (), parachains_deposit_event (RejectedObsoleteParachainHead parachain new_head_hash) s)
         else
         case try_from_inner (pc_stored_data_encoded_size C) (pc_max_para_head_data_size C) new_head_data of
           Inl e \<Rightarrow>
             Some (Inl (), parachains_deposit_event
               (RejectedLargeParachainHead parachain new_head_hash (of_nat (mse_value_size e))) s)
         | Inr updated_head_data \<Rightarrow>
             map_option (\<lambda>(artifacts, s). (Inr artifacts, s))
               (import_parachain_head C parachain stored_best_head new_at_relay_block_number updated_head_data new_head_hash s))"

text \<open>
  The body of the loop over the submitted heads: the checker, the weight as the closure sees it and
  the state. \<open>ParasInfo::try_mutate\<close> writes the new information only when the update succeeds.
\<close>

definition submit_parachain_head ::
  "('o, 'acc, 'hash, 'w) parachains_config \<Rightarrow> u32 \<Rightarrow> para_id \<times> 'hash \<Rightarrow>
     'hash storage_proof_checker \<times> 'w \<times> ('acc, 'hash) parachains_state \<Rightarrow>
     ('hash storage_proof_checker \<times> 'w \<times> ('acc, 'hash) parachains_state) option" where
  "submit_parachain_head C relay_block_number entry acc =
     (let (parachain, parachain_head_hash) = entry;
          (storage, actual_weight, s) = acc;
          (head, storage) = read_parachain_head C storage parachain
      in case head of
           Inl _ \<Rightarrow> Some (storage, actual_weight, parachains_deposit_event (MissingParachainHead parachain) s)
         | Inr None \<Rightarrow> Some (storage, actual_weight, parachains_deposit_event (MissingParachainHead parachain) s)
         | Inr (Some parachain_head) \<Rightarrow>
             let actual_parachain_head_hash = para_head_hash (pc_blake2_256 C) parachain_head
             in if parachain_head_hash \<noteq> actual_parachain_head_hash
                then Some (storage, actual_weight, parachains_deposit_event
                       (IncorrectParachainHeadHash parachain parachain_head_hash actual_parachain_head_hash) s)
                else
                case pc_try_build C parachain parachain_head of
                  None \<Rightarrow> Some (storage, actual_weight, parachains_deposit_event (UntrackedParachainRejected parachain) s)
                | Some parachain_head_data \<Rightarrow>
                    (case update_parachain_head C parachain (ps_paras_info s parachain) relay_block_number
                            parachain_head_data parachain_head_hash s of
                       None \<Rightarrow> None
                     | Some (update_result, s) \<Rightarrow>
                         let s = (case update_result of
                                    Inr artifacts \<Rightarrow> s\<lparr>ps_paras_info := (ps_paras_info s)(parachain \<mapsto> up_best_head artifacts)\<rparr>
                                  | Inl _ \<Rightarrow> s);
                             is_update_happened = (case update_result of Inr _ \<Rightarrow> True | Inl _ \<Rightarrow> False);
                             actual_weight = (if \<not> is_update_happened
                               then w_saturating_sub (pc_weight_ops C) actual_weight
                                      (parachain_head_storage_write_weight (pc_db_weight C)) else actual_weight);
                             is_prune_happened = (case update_result of Inr artifacts \<Rightarrow> up_prune_happened artifacts | Inl _ \<Rightarrow> False);
                             actual_weight = (if \<not> is_prune_happened
                               then w_saturating_sub (pc_weight_ops C) actual_weight
                                      (parachain_head_pruning_weight (pc_db_weight C)) else actual_weight)
                         in Some (storage, actual_weight, s)))"

fun submit_parachain_heads_loop ::
  "('o, 'acc, 'hash, 'w) parachains_config \<Rightarrow> u32 \<Rightarrow> (para_id \<times> 'hash) list \<Rightarrow>
     'hash storage_proof_checker \<times> 'w \<times> ('acc, 'hash) parachains_state \<Rightarrow>
     ('hash storage_proof_checker \<times> 'w \<times> ('acc, 'hash) parachains_state) option" where
  "submit_parachain_heads_loop C relay_block_number [] acc = Some acc"
| "submit_parachain_heads_loop C relay_block_number (entry # parachains) acc =
     do { acc \<leftarrow> submit_parachain_head C relay_block_number entry acc;
          submit_parachain_heads_loop C relay_block_number parachains acc }"

text \<open>
  The call. \<open>relay\<close> is the state of the GRANDPA pallet for the relay chain. The closure that runs the
  loop is a \<open>move\<close> closure and \<open>Weight\<close> is \<open>Copy\<close>: the loop changes a copy of the weight, and the
  weight of the result is the one of before.
\<close>

definition submit_parachain_heads ::
  "('o, 'acc, 'hash, 'w) parachains_config \<Rightarrow> ('racc, 'hash, u32, 'id) grandpa_state \<Rightarrow> 'o \<Rightarrow> u32 \<times> 'hash \<Rightarrow>
     (para_id \<times> 'hash) list \<Rightarrow> bytes list \<Rightarrow> ('acc, 'hash) parachains_state \<Rightarrow>
     (parachains_error dispatch_error + ('w post_dispatch_info \<times> ('acc, 'hash) parachains_state)) option" where
  "submit_parachain_heads C relay origin at_relay_block parachains parachain_heads_proof s =
     (case ensure_not_halted parachains_owned s of
        Inl e \<Rightarrow> Some (Inl (ModuleError (ParachainsBridgeModule e)))
      | Inr _ \<Rightarrow>
      let (relay_block_number, relay_block_hash) = at_relay_block
      in case gs_imported_headers relay relay_block_hash of
           None \<Rightarrow> Some (Inl (ModuleError UnknownRelayChainBlock))
         | Some relay_block \<Rightarrow>
             if shd_number relay_block \<noteq> relay_block_number then Some (Inl (ModuleError InvalidRelayChainBlockNumber))
             else
             let actual_weight = submit_parachain_heads_weight (pc_weight_ops C) (pc_weight_info C) (pc_db_weight C)
                   (para_heads_proof_size parachain_heads_proof) (of_nat (length parachains))
             in case parse_finalized_storage_proof (pc_trie C) (grandpa_finalized_header_state_root relay)
                       relay_block_hash parachain_heads_proof
                       (\<lambda>storage. submit_parachain_heads_loop C relay_block_number parachains (storage, actual_weight, s)) of
                  Inl e \<Rightarrow> Some (Inl (ModuleError (HeaderChain e)))
                | Inr None \<Rightarrow> None
                | Inr (Some (storage, _, s)) \<Rightarrow>
                    (case ensure_no_unused_nodes storage of
                       Inl e \<Rightarrow> Some (Inl (ModuleError (HeaderChain (StorageProofError e))))
                     | Inr _ \<Rightarrow> Some (Inr (\<lparr>actual_weight = Some actual_weight, pays_fee = PaysYes\<rparr>, s))))"

section \<open>Queries\<close>

definition best_parachain_info :: "('acc, 'hash) parachains_state \<Rightarrow> para_id \<Rightarrow> 'hash para_info option" where
  "best_parachain_info s parachain = ps_paras_info s parachain"

definition parachain_head :: "('acc, 'hash) parachains_state \<Rightarrow> para_id \<Rightarrow> 'hash \<Rightarrow> para_stored_header_data option" where
  "parachain_head s parachain hash = ps_imported_para_heads s (parachain, hash)"

definition best_parachain_head_hash :: "('acc, 'hash) parachains_state \<Rightarrow> para_id \<Rightarrow> 'hash option" where
  "best_parachain_head_hash s parachain =
     do { info \<leftarrow> ps_paras_info s parachain; Some (head_hash (best_head_hash info)) }"

definition best_parachain_head :: "('acc, 'hash) parachains_state \<Rightarrow> para_id \<Rightarrow> para_stored_header_data option" where
  "best_parachain_head s parachain =
     do { info \<leftarrow> ps_paras_info s parachain;
          ps_imported_para_heads s (parachain, head_hash (best_head_hash info)) }"

text \<open>\<open>Inl ()\<close> is the codec error.\<close>

definition best_parachain_head_id ::
  "(bytes \<Rightarrow> ('number, 'hash) stored_header_data option) \<Rightarrow> u32 \<Rightarrow> ('acc, 'hash) parachains_state \<Rightarrow>
     unit + ('hash, 'number) header_id option" where
  "best_parachain_head_id decode parachain_id s =
     (let parachain = ParaId parachain_id
      in case best_parachain_head_hash s parachain of
           None \<Rightarrow> Inr None
         | Some best_hash \<Rightarrow>
             (case parachain_head s parachain best_hash of
                None \<Rightarrow> Inr None
              | Some encoded_head \<Rightarrow>
                  (case decode_parachain_head_data decode encoded_head of
                     None \<Rightarrow> Inl ()
                   | Some data \<Rightarrow> Inr (Some (HeaderId (shd_number data) best_hash)))))"

definition parachain_finalized_header_state_root ::
  "(bytes \<Rightarrow> ('number, 'hash) stored_header_data option) \<Rightarrow> u32 \<Rightarrow> ('acc, 'hash) parachains_state \<Rightarrow> 'hash \<Rightarrow> 'hash option" where
  "parachain_finalized_header_state_root decode parachain_id s hash =
     map_option shd_state_root
       (Option.bind (parachain_head s (ParaId parachain_id) hash) (decode_parachain_head_data decode))"

end
