(* ===== verification/Sample_Trie.thy ===== *)
theory Sample_Trie
  imports Storage_Proof
begin

text \<open>
  The trie of the examples, and what is documented about complete proofs.

  In the examples a hash is the storage it commits to, so that the trie reads are
  authentic; a proof lists the keys that may be read.
\<close>

type_synonym sample_hash = "(bytes \<times> bytes) list"

definition sample_trie :: "sample_hash trie_ops" where
  "sample_trie = \<lparr>tr_contains = (\<lambda>_ _. True),
     tr_read = (\<lambda>nodes root key. if key \<in> nodes then (Inr (map_of root key), [key]) else (Inl (), []))\<rparr>"

definition sample_root_of :: "sample_hash \<Rightarrow> (bytes \<rightharpoonup> bytes) \<Rightarrow> bool" where
  "sample_root_of root storage \<longleftrightarrow> storage = map_of root"

lemma sample_trie_laws: "trie_laws sample_root_of sample_trie"
  by (simp add: trie_laws_def sample_trie_def sample_root_of_def)

text \<open>
  What the trie documents about complete proofs: when a database contains the nodes on the path to a
  key, the root is found, the read returns the value of the key and records exactly that path.
\<close>

definition trie_complete ::
  "('hash \<Rightarrow> (bytes \<rightharpoonup> bytes) \<Rightarrow> bool) \<Rightarrow> 'hash trie_ops \<Rightarrow> ('hash \<Rightarrow> bytes \<Rightarrow> bytes set) \<Rightarrow> bool" where
  "trie_complete root_of T path \<longleftrightarrow>
     (\<forall>root storage nodes key. root_of root storage \<longrightarrow> path root key \<subseteq> nodes \<longrightarrow>
        tr_contains T nodes root \<and>
        fst (tr_read T nodes root key) = Inr (storage key) \<and> set (snd (tr_read T nodes root key)) = path root key)"

lemma sample_trie_complete: "trie_complete sample_root_of sample_trie (\<lambda>_ key. {key})"
  by (simp add: trie_complete_def sample_trie_def sample_root_of_def)

text \<open>Reading a key through a checker whose database has the path of the key.\<close>

lemma read_value_complete:
  assumes "trie_complete root_of T path" and "root_of root storage"
    and "spc_root st = root" and "path root key \<subseteq> spc_db st"
  obtains recorded where "read_value T key st = (Inr (storage key), st\<lparr>spc_recorder := spc_recorder st @ recorded\<rparr>)"
    "set recorded = path root key"
proof -
  obtain r recorded where rd: "tr_read T (spc_db st) (spc_root st) key = (r, recorded)" by fastforce
  then have "r = Inr (storage key)" "set recorded = path root key"
    using assms unfolding trie_complete_def by (metis fst_conv, metis snd_conv)
  then show thesis using that [of recorded] rd by (simp add: read_value_def)
qed

end
