(* ===== verification/Parachains_Properties.thy ===== *)
theory Parachains_Properties
  imports Parachains_Pallet Sample_Trie
begin

text \<open>
  Correctness of the parachains pallet: stored heads are the heads of the relay chain state, they
  never go back, and every parachain has at most \<open>HeadsToKeep\<close> of them.
\<close>

section \<open>The ring of a parachain\<close>

definition ring_position :: "para_id \<Rightarrow> ('acc, 'hash) parachains_state \<Rightarrow> u32" where
  "ring_position p s = (case ps_paras_info s p of None \<Rightarrow> 0 | Some info \<Rightarrow> next_imported_hash_position info)"

text \<open>The write of a head together with the update of \<open>ParasInfo\<close>, for relay block number, data and hash.\<close>

definition record_head ::
  "para_id \<Rightarrow> ('o, 'acc, 'hash, 'w) parachains_config \<Rightarrow> u32 \<times> para_stored_header_data \<times> 'hash \<Rightarrow>
     ('acc, 'hash) parachains_state \<Rightarrow> ('acc, 'hash) parachains_state option" where
  "record_head p C a s =
     map_option (\<lambda>(artifacts, s). s\<lparr>ps_paras_info := (ps_paras_info s)(p \<mapsto> up_best_head artifacts)\<rparr>)
       (import_parachain_head C p (ps_paras_info s p) (fst a) (fst (snd a)) (snd (snd a)) s)"

lemma record_head_eq':
  "record_head p C a s =
     (if pc_heads_to_keep C = 0 then None
      else Some (s\<lparr>ps_paras_info := (ps_paras_info s)(p \<mapsto> \<lparr>
             best_head_hash = \<lparr>at_relay_block_number = fst a, head_hash = snd (snd a)\<rparr>,
             next_imported_hash_position = (ring_position p s + 1) mod pc_heads_to_keep C\<rparr>),
           ps_imported_para_heads :=
             (case ps_imported_para_hashes s (p, ring_position p s) of
                None \<Rightarrow> (ps_imported_para_heads s)((p, snd (snd a)) \<mapsto> fst (snd a))
              | Some pruned \<Rightarrow> ((ps_imported_para_heads s)((p, snd (snd a)) \<mapsto> fst (snd a)))((p, pruned) := None)),
           ps_imported_para_hashes := (ps_imported_para_hashes s)((p, ring_position p s) \<mapsto> snd (snd a)),
           ps_events := ps_events s @ [UpdatedParachainHead p (snd (snd a))]\<rparr>))"
  by (simp add: record_head_def import_parachain_head_def checked_rem_def Let_def parachains_deposit_event_def
      ring_position_def split: option.split)

lemmas record_head_eq = record_head_eq' [of p C "(n, data, hash)" for p C n data hash, simplified]

interpretation para_ring: ring_import pc_heads_to_keep "ring_position p" "\<lambda>s i. ps_imported_para_hashes s (p, i)"
  "\<lambda>s h. ps_imported_para_heads s (p, h)" "\<lambda>C a. snd (snd a)" "\<lambda>C a. fst (snd a)" "record_head p" for p
  by unfold_locales (auto simp: record_head_eq' ring_position_def fun_eq_iff split: if_splits option.splits)

text \<open>Other parachains are not touched.\<close>

lemma record_head_other:
  assumes "record_head p C a s = Some s'" and "q \<noteq> p"
  shows "ps_paras_info s' q = ps_paras_info s q" "ring_position q s' = ring_position q s"
    "ps_imported_para_hashes s' (q, i) = ps_imported_para_hashes s (q, i)"
    "ps_imported_para_heads s' (q, h) = ps_imported_para_heads s (q, h)"
  using assms by (auto simp: record_head_eq' ring_position_def split: if_splits option.splits)

lemma record_head_info:
  assumes "record_head p C (n, data, hash) s = Some s'"
  obtains info where "ps_paras_info s' p = Some info"
    "best_head_hash info = \<lparr>at_relay_block_number = n, head_hash = hash\<rparr>"
  using assms by (auto simp: record_head_eq split: if_splits)

lemma record_head_stored:
  assumes "record_head p C (n, data, hash) s = Some s'" and "ps_imported_para_heads s' (q, h) = Some d"
  shows "ps_imported_para_heads s (q, h) = Some d \<or> q = p \<and> h = hash \<and> d = data"
  using assms by (auto simp: record_head_eq split: if_splits option.splits)

section \<open>One submitted head\<close>

abbreviation head_key :: "('o, 'acc, 'hash, 'w) parachains_config \<Rightarrow> para_id \<Rightarrow> bytes" where
  "head_key C \<equiv> parachain_head_storage_key_at_source (pc_twox_128 C) (pc_twox_64_concat C) (pc_encode_para_id C)
     (pc_paras_pallet_name C)"

lemma submit_parachain_head_cases:
  assumes "submit_parachain_head C n (p, hash) (st, w, s) = Some (st', w', s')"
  obtains (rejected) e where "st' = snd (read_parachain_head C st p)" "s' = parachains_deposit_event e s"
  | (accepted) head data where "st' = snd (read_parachain_head C st p)"
      "fst (read_parachain_head C st p) = Inr (Some head)" "hash = para_head_hash (pc_blake2_256 C) head"
      "pc_try_build C p head = Some data" "pc_stored_data_encoded_size C data \<le> unat (pc_max_para_head_data_size C)"
      "\<not> para_is_obsolete \<lparr>sph_at_relay_block_number = n, sph_para_id = p, sph_para_head_hash = hash\<rparr> s"
      "record_head p C (n, data, hash) s = Some s'"
proof -
  obtain r storage where rd: "read_parachain_head C st p = (r, storage)" by fastforce
  show thesis
  proof (cases "\<exists>head. r = Inr (Some head)")
    case False
    then show thesis
      using assms rejected by (auto simp: submit_parachain_head_def rd Let_def split: sum.splits option.splits)
  next
    case True
    then obtain head where r: "r = Inr (Some head)" by blast
    show thesis
    proof (cases "hash = para_head_hash (pc_blake2_256 C) head")
      case False
      then show thesis using assms rejected by (auto simp: submit_parachain_head_def rd r Let_def)
    next
      case hash: True
      show thesis
      proof (cases "pc_try_build C p head")
        case None
        then show thesis using assms rejected hash by (auto simp: submit_parachain_head_def rd r Let_def)
      next
        case (Some data)
        let ?upd = "\<lparr>sph_at_relay_block_number = n, sph_para_id = p, sph_para_head_hash = hash\<rparr>"
        show thesis
        proof (cases "para_is_obsolete ?upd s \<or> unat (pc_max_para_head_data_size C) < pc_stored_data_encoded_size C data")
          case True
          then show thesis
            using assms rejected hash Some
            by (auto simp: submit_parachain_head_def rd r Let_def update_parachain_head_def try_from_inner_def split: if_splits)
        next
          case False
          then have "record_head p C (n, data, hash) s = Some s'"
            using assms hash Some
            by (auto simp: submit_parachain_head_def rd r Let_def update_parachain_head_def try_from_inner_def record_head_def
                split: option.splits prod.splits)
          then show thesis using assms accepted [of head data] hash Some r rd False
            by (auto simp: submit_parachain_head_def Let_def update_parachain_head_def try_from_inner_def split: option.splits prod.splits)
        qed
      qed
    qed
  qed
qed

lemma deposit_event_frame [simp]:
  "ps_paras_info (parachains_deposit_event e s) = ps_paras_info s"
  "ps_imported_para_heads (parachains_deposit_event e s) = ps_imported_para_heads s"
  "ps_imported_para_hashes (parachains_deposit_event e s) = ps_imported_para_hashes s"
  "ps_owner (parachains_deposit_event e s) = ps_owner s"
  "ps_operating_mode (parachains_deposit_event e s) = ps_operating_mode s"
  "ring_position p (parachains_deposit_event e s) = ring_position p s"
  by (simp_all add: parachains_deposit_event_def ring_position_def)

text \<open>A property of the state that every recorded head keeps is kept by the loop.\<close>

lemma loop_induct:
  assumes "submit_parachain_heads_loop C n entries (st, w, s) = Some (st', w', s')"
    and "set entries \<subseteq> E" and "Q st s"
    and event: "\<And>st s e p hash. (p, hash) \<in> E \<Longrightarrow> Q st s \<Longrightarrow>
      Q (snd (read_parachain_head C st p)) (parachains_deposit_event e s)"
    and head: "\<And>st s s' p hash head data. (p, hash) \<in> E \<Longrightarrow> Q st s \<Longrightarrow>
      fst (read_parachain_head C st p) = Inr (Some head) \<Longrightarrow> hash = para_head_hash (pc_blake2_256 C) head \<Longrightarrow>
      pc_try_build C p head = Some data \<Longrightarrow> pc_stored_data_encoded_size C data \<le> unat (pc_max_para_head_data_size C) \<Longrightarrow>
      \<not> para_is_obsolete \<lparr>sph_at_relay_block_number = n, sph_para_id = p, sph_para_head_hash = hash\<rparr> s \<Longrightarrow>
      record_head p C (n, data, hash) s = Some s' \<Longrightarrow> Q (snd (read_parachain_head C st p)) s'"
  shows "Q st' s'"
  using assms(1-3)
proof (induction entries arbitrary: st w s)
  case (Cons entry entries)
  obtain p hash where entry: "entry = (p, hash)" by (cases entry)
  from Cons.prems(1) obtain st1 w1 s1 where one: "submit_parachain_head C n (p, hash) (st, w, s) = Some (st1, w1, s1)"
    and rest: "submit_parachain_heads_loop C n entries (st1, w1, s1) = Some (st', w', s')"
    by (auto simp: entry bind_eq_Some_conv)
  have E: "(p, hash) \<in> E" "set entries \<subseteq> E" using Cons.prems(2) by (simp_all add: entry)
  have "Q st1 s1"
    using one
  proof (cases rule: submit_parachain_head_cases)
    case (rejected e)
    then show ?thesis using event [OF E(1) Cons.prems(3), of e] by simp
  next
    case (accepted head data)
    show ?thesis
      unfolding accepted(1) by (rule head [OF E(1) Cons.prems(3) accepted(2-7)])
  qed
  then show ?case by (rule Cons.IH [OF rest E(2)])
qed simp

lemma submit_parachain_heads_Inr:
  assumes "submit_parachain_heads C relay origin (n, relay_hash) entries nodes s = Some (Inr (info, s'))"
  obtains data checker st w where "ps_operating_mode s = Normal" "gs_imported_headers relay relay_hash = Some data"
    "shd_number data = n" "storage_proof_checker_new (pc_trie C) (shd_state_root data) nodes = Inr checker"
    "submit_parachain_heads_loop C n entries
       (checker, submit_parachain_heads_weight (pc_weight_ops C) (pc_weight_info C) (pc_db_weight C)
          (para_heads_proof_size nodes) (of_nat (length entries)), s) = Some (st, w, s')"
    "ensure_no_unused_nodes st = Inr ()"
    "info = \<lparr>actual_weight = Some (submit_parachain_heads_weight (pc_weight_ops C) (pc_weight_info C) (pc_db_weight C)
       (para_heads_proof_size nodes) (of_nat (length entries))), pays_fee = PaysYes\<rparr>"
proof -
  have mode: "ps_operating_mode s = Normal"
    using assms by (cases "ps_operating_mode s") (auto simp: submit_parachain_heads_def ensure_not_halted_def is_halted_def basic_is_halted_def)
  obtain data where data: "gs_imported_headers relay relay_hash = Some data"
    using assms mode
    by (auto simp: submit_parachain_heads_def ensure_not_halted_def is_halted_def basic_is_halted_def split: option.splits)
  let ?w = "submit_parachain_heads_weight (pc_weight_ops C) (pc_weight_info C) (pc_db_weight C)
       (para_heads_proof_size nodes) (of_nat (length entries))"
  from assms mode data obtain st w where num: "shd_number data = n"
    and parse: "parse_finalized_storage_proof (pc_trie C) (grandpa_finalized_header_state_root relay) relay_hash nodes
      (\<lambda>storage. submit_parachain_heads_loop C n entries (storage, ?w, s)) = Inr (Some (st, w, s'))"
    and unused: "ensure_no_unused_nodes st = Inr ()" and info: "info = \<lparr>actual_weight = Some ?w, pays_fee = PaysYes\<rparr>"
    by (auto simp: submit_parachain_heads_def ensure_not_halted_def is_halted_def basic_is_halted_def Let_def
        split: if_splits sum.splits option.splits)
  from parse obtain root checker where "grandpa_finalized_header_state_root relay relay_hash = Some root"
    and checker: "storage_proof_checker_new (pc_trie C) root nodes = Inr checker" "Some (st, w, s') = submit_parachain_heads_loop C n entries (checker, ?w, s)"
    by (rule parse_finalized_storage_proof_Inr)
  then have "root = shd_state_root data" using data by (simp add: grandpa_finalized_header_state_root_def)
  then show thesis
    using that [OF mode data num _ checker(2) [symmetric] unused info] checker(1) by simp
qed

section \<open>Steps and invariant\<close>

definition empty_parachains_state :: "('acc, 'hash) parachains_state" where
  "empty_parachains_state = \<lparr>ps_owner = None, ps_operating_mode = Normal, ps_paras_info = Map.empty,
     ps_imported_para_heads = Map.empty, ps_imported_para_hashes = Map.empty, ps_events = []\<rparr>"

text \<open>A step while the GRANDPA pallet of the relay chain is in the given state.\<close>

inductive parachains_step ::
  "('o, 'acc, 'hash, 'w) parachains_config \<Rightarrow> ('acc, 'hash, u32, 'id) grandpa_state \<Rightarrow>
     ('acc, 'hash) parachains_state \<Rightarrow> ('acc, 'hash) parachains_state \<Rightarrow> bool"
  for C relay where
  step_submit_heads: "submit_parachain_heads C relay origin block entries nodes s = Some (Inr (info, s')) \<Longrightarrow> parachains_step C relay s s'"
| step_parachains_owner: "parachains_set_owner C origin owner s = Inr s' \<Longrightarrow> parachains_step C relay s s'"
| step_parachains_mode: "parachains_set_operating_mode C origin mode s = Inr s' \<Longrightarrow> parachains_step C relay s s'"

text \<open>The states that are reachable while the GRANDPA pallet goes through states of a given set.\<close>

inductive parachains_reachable ::
  "('o, 'acc, 'hash, 'w) parachains_config \<Rightarrow> ('acc, 'hash, u32, 'id) grandpa_state set \<Rightarrow> ('acc, 'hash) parachains_state \<Rightarrow> bool"
  for C relays where
  parachains_genesis: "parachains_reachable C relays (parachains_genesis_build mode owner empty_parachains_state)"
| parachains_next: "parachains_reachable C relays s \<Longrightarrow> relay \<in> relays \<Longrightarrow> parachains_step C relay s s' \<Longrightarrow>
    parachains_reachable C relays s'"

definition parachains_inv :: "('o, 'acc, 'hash, 'w) parachains_config \<Rightarrow> ('acc, 'hash) parachains_state \<Rightarrow> bool" where
  "parachains_inv C s \<longleftrightarrow>
     (\<forall>p. ring_bounded (pc_heads_to_keep C) (ring_position p s)
            (\<lambda>i. ps_imported_para_hashes s (p, i)) (\<lambda>h. ps_imported_para_heads s (p, h))) \<and>
     (\<forall>data \<in> ran (ps_imported_para_heads s). pc_stored_data_encoded_size C data \<le> unat (pc_max_para_head_data_size C))"

lemma parachains_inv_frame [simp]:
  "parachains_inv C (parachains_deposit_event e s) \<longleftrightarrow> parachains_inv C s"
  "parachains_inv C (s\<lparr>ps_owner := owner\<rparr>) \<longleftrightarrow> parachains_inv C s"
  "parachains_inv C (s\<lparr>ps_operating_mode := mode\<rparr>) \<longleftrightarrow> parachains_inv C s"
  by (simp_all add: parachains_inv_def ring_position_def)

lemma record_head_inv:
  assumes inv: "parachains_inv C s" and rec: "record_head p C (n, data, hash) s = Some s'"
    and fits: "pc_stored_data_encoded_size C data \<le> unat (pc_max_para_head_data_size C)"
  shows "parachains_inv C s'"
proof -
  have "ring_bounded (pc_heads_to_keep C) (ring_position q s')
      (\<lambda>i. ps_imported_para_hashes s' (q, i)) (\<lambda>h. ps_imported_para_heads s' (q, h))" for q
  proof (cases "q = p")
    case True
    then show ?thesis
      using para_ring.import_ring_bounded [OF _ rec] inv by (simp add: parachains_inv_def)
  next
    case False
    then show ?thesis using inv record_head_other [OF rec False] by (simp add: parachains_inv_def)
  qed
  moreover have "pc_stored_data_encoded_size C d \<le> unat (pc_max_para_head_data_size C)"
    if "d \<in> ran (ps_imported_para_heads s')" for d
  proof -
    from that obtain q h where "ps_imported_para_heads s' (q, h) = Some d" by (auto simp: ran_def)
    from record_head_stored [OF rec this] show ?thesis using inv fits by (auto simp: parachains_inv_def ran_def)
  qed
  ultimately show ?thesis by (simp add: parachains_inv_def)
qed

text \<open>How the information of a parachain may change: not at all, or to another head at a later relay block.\<close>

definition info_progress :: "'hash para_info option \<Rightarrow> 'hash para_info option \<Rightarrow> bool" where
  "info_progress before after \<longleftrightarrow>
     (case before of
        None \<Rightarrow> True
      | Some i \<Rightarrow> \<exists>i'. after = Some i' \<and>
          (i' = i \<or> at_relay_block_number (best_head_hash i) < at_relay_block_number (best_head_hash i')))"

lemma info_progress_refl: "info_progress i i"
  by (simp add: info_progress_def split: option.split)

lemma info_progress_trans: "info_progress i j \<Longrightarrow> info_progress j k \<Longrightarrow> info_progress i k"
  by (auto simp: info_progress_def split: option.splits)

lemma record_head_progress:
  assumes rec: "record_head p C (n, data, hash) s = Some s'"
    and new: "\<not> para_is_obsolete \<lparr>sph_at_relay_block_number = n, sph_para_id = p, sph_para_head_hash = hash\<rparr> s"
  shows "info_progress (ps_paras_info s q) (ps_paras_info s' q)"
proof (cases "q = p")
  case True
  show ?thesis
    by (rule record_head_info [OF rec])
       (use new in \<open>auto simp: True info_progress_def para_is_obsolete_def split: option.splits if_splits\<close>)
next
  case False
  then show ?thesis using record_head_other(1) [OF rec] by (simp add: info_progress_refl)
qed

lemma parachains_step_inv:
  assumes "parachains_step C relay s s'" and inv: "parachains_inv C s"
  shows "parachains_inv C s'" and "info_progress (ps_paras_info s q) (ps_paras_info s' q)"
proof -
  have "parachains_inv C s' \<and> (\<forall>q. info_progress (ps_paras_info s q) (ps_paras_info s' q))"
    using assms(1)
  proof cases
    case (step_submit_heads origin block entries nodes info)
    obtain n relay_hash where block: "block = (n, relay_hash)" by (cases block)
    show ?thesis
    proof (rule submit_parachain_heads_Inr [OF step_submit_heads [unfolded block]])
      fix checker st w
      assume loop: "submit_parachain_heads_loop C n entries
       (checker, submit_parachain_heads_weight (pc_weight_ops C) (pc_weight_info C) (pc_db_weight C)
          (para_heads_proof_size nodes) (of_nat (length entries)), s) = Some (st, w, s')"
      show ?thesis
        by (rule loop_induct [where Q = "\<lambda>_ s'. parachains_inv C s' \<and> (\<forall>q. info_progress (ps_paras_info s q) (ps_paras_info s' q))",
              OF loop subset_refl])
           (auto simp: inv info_progress_refl intro: record_head_inv info_progress_trans record_head_progress)
    qed
  next
    case (step_parachains_owner origin owner)
    then show ?thesis
      using inv by (auto simp: parachains_set_owner_def parachains_module.set_owner_eq info_progress_refl split: if_splits)
  next
    case (step_parachains_mode origin mode)
    then show ?thesis
      using inv by (auto simp: parachains_set_operating_mode_def parachains_module.set_operating_mode_eq info_progress_refl split: if_splits)
  qed
  then show "parachains_inv C s'" "info_progress (ps_paras_info s q) (ps_paras_info s' q)" by blast+
qed

lemma parachains_reachable_inv: "parachains_reachable C relays s \<Longrightarrow> parachains_inv C s"
proof (induction rule: parachains_reachable.induct)
  case (parachains_genesis mode owner)
  show ?case
    by (cases owner) (simp_all add: parachains_genesis_build_def empty_parachains_state_def parachains_inv_def
      ring_bounded_def ring_position_def Let_def)
qed (blast intro: parachains_step_inv(1))

section \<open>An example\<close>

text \<open>The relay chain has head \<open>42\<close> for parachain 1.\<close>

definition sample_parachains_config :: "(nat option, nat, sample_hash, u64 \<times> u64) parachains_config" where
  "sample_parachains_config = \<lparr>
     origin_into = (\<lambda>origin. case origin of None \<Rightarrow> Some Root | Some a \<Rightarrow> Some (Signed a)), ensure_signed = id,
     pc_weight_ops = pair_weight_ops,
     pc_db_weight = \<lparr>db_reads = (\<lambda>n. (n, 0)), db_writes = (\<lambda>n. (10 * n, 0)), db_reads_writes = (\<lambda>n m. (n + 10 * m, 0))\<rparr>,
     pc_weight_info = \<lparr>submit_parachain_heads_with_n_parachains = (\<lambda>n. (1000, 100)),
       submit_parachain_heads_with_1kb_proof = (0, 0), submit_parachain_heads_with_16kb_proof = (0, 0)\<rparr>,
     pc_trie = sample_trie, pc_twox_128 = (\<lambda>_. []), pc_twox_64_concat = id,
     pc_encode_para_id = (\<lambda>p. [ucast (para_id_number p)]), pc_decode_para_head = (\<lambda>v. Some (ParaHead v)),
     pc_blake2_256 = (\<lambda>data. [(data, [])]), pc_paras_pallet_name = ''Paras'',
     pc_try_build = (\<lambda>p head. case head of ParaHead data \<Rightarrow> if p = ParaId 1 then Some (ParaStoredHeaderData data) else None),
     pc_heads_to_keep = 2, pc_max_para_head_data_size = 8,
     pc_stored_data_encoded_size = (\<lambda>data. length (encoded_data data))\<rparr>"

text \<open>The state of the GRANDPA pallet: the relay chain blocks 5 and 6, with the given heads of parachain 1.\<close>

definition sample_relay_state :: "bytes \<Rightarrow> bytes \<Rightarrow> (nat, sample_hash, u32, nat) grandpa_state" where
  "sample_relay_state head5 head6 = \<lparr>gs_request_count = 0, gs_initial_hash = [], gs_best_finalized = None,
     gs_imported_hashes = Map.empty, gs_imported_hashes_pointer = 0,
     gs_imported_headers = [[([5], [])] \<mapsto> \<lparr>shd_number = 5, shd_state_root = [([1], head5)]\<rparr>,
       [([6], [])] \<mapsto> \<lparr>shd_number = 6, shd_state_root = [([1], head6)]\<rparr>],
     gs_current_authority_set = stored_authority_set_default, gs_owner = None, gs_operating_mode = Normal\<rparr>"

definition sample_head_state :: "(nat, sample_hash) parachains_state" where
  "sample_head_state = \<lparr>ps_owner = None, ps_operating_mode = Normal,
     ps_paras_info = [ParaId 1 \<mapsto> \<lparr>best_head_hash = \<lparr>at_relay_block_number = 5, head_hash = [([42], [])]\<rparr>,
       next_imported_hash_position = 1\<rparr>],
     ps_imported_para_heads = [(ParaId 1, [([42], [])]) \<mapsto> ParaStoredHeaderData [42]],
     ps_imported_para_hashes = [(ParaId 1, 0) \<mapsto> [([42], [])]],
     ps_events = [UpdatedParachainHead (ParaId 1) [([42], [])]]\<rparr>"

lemmas parachains_eval = sample_parachains_config_def sample_relay_state_def sample_head_state_def sample_trie_def
  empty_parachains_state_def submit_parachain_heads_def ensure_not_halted_def is_halted_def basic_is_halted_def
  parse_finalized_storage_proof_def grandpa_finalized_header_state_root_def storage_proof_checker_new_def
  submit_parachain_head_def read_parachain_head_def read_and_decode_value_def read_value_def
  parachain_head_storage_key_at_source_def storage_map_final_key_def para_head_hash_def update_parachain_head_def
  try_from_inner_def import_parachain_head_def checked_rem_def para_is_obsolete_def ensure_no_unused_nodes_def
  parachains_deposit_event_def submit_parachain_heads_weight_def para_heads_proof_size_def
  parachains_storage_proof_size_overhead_def parachain_head_pruning_weight_def parachain_head_storage_write_weight_def
  pair_weight_ops_def saturating_add_def saturating_sub_def saturating_mul_def saturating_of_nat_def
  DEFAULT_PARACHAIN_HEAD_SIZE_def PARACHAINS_EXTRA_STORAGE_PROOF_SIZE_def Let_def word_le_nat_alt word_less_nat_alt

lemma sample_submit_head:
  "submit_parachain_heads sample_parachains_config (sample_relay_state [42] h6) None (5, [([5], [])])
     [(ParaId 1, [([42], [])])] [[1]] empty_parachains_state =
   Some (Inr (\<lparr>actual_weight = Some (1010, 100), pays_fee = PaysYes\<rparr>, sample_head_state))"
  by (simp add: parachains_eval)

section \<open>Properties\<close>

text \<open>
  A head of a parachain as the relay chain state has it: the value below the key of the parachain
  decodes to a head with the given hash, for which the builder gives the stored data.
\<close>

definition relay_head ::
  "('o, 'acc, 'hash, 'w) parachains_config \<Rightarrow> (bytes \<rightharpoonup> bytes) \<Rightarrow> para_id \<Rightarrow> 'hash \<Rightarrow> para_stored_header_data \<Rightarrow> bool" where
  "relay_head C storage p hash data \<longleftrightarrow>
     (\<exists>v head. storage (head_key C p) = Some v \<and> pc_decode_para_head C v = Some head \<and>
        hash = para_head_hash (pc_blake2_256 C) head \<and> pc_try_build C p head = Some data)"

lemma read_parachain_head_ok:
  assumes "trie_laws root_of (pc_trie C)" and "checker_ok root nodes st"
  shows "checker_ok root nodes (snd (read_parachain_head C st p))"
    and "root_of root storage \<Longrightarrow> fst (read_parachain_head C st p) = Inr (Some head) \<Longrightarrow>
      \<exists>v. storage (head_key C p) = Some v \<and> pc_decode_para_head C v = Some head"
proof -
  obtain r st' where r: "read_and_decode_value (pc_trie C) (pc_decode_para_head C) (head_key C p) st = (r, st')" by fastforce
  note ok = read_and_decode_value_ok [OF assms r]
  show "checker_ok root nodes (snd (read_parachain_head C st p))" using ok(1) r by (simp add: read_parachain_head_def)
  show "\<exists>v. storage (head_key C p) = Some v \<and> pc_decode_para_head C v = Some head"
    if "root_of root storage" "fst (read_parachain_head C st p) = Inr (Some head)"
    using ok(2) [OF that(1)] that(2) r by (simp add: read_parachain_head_def)
qed

text \<open>
  C13: imported parachain heads are authentic. After a successful call, every stored head was stored
  before or is the head of its parachain in the state of the relay chain block that the call names,
  which the GRANDPA pallet has imported under that number; the same holds for the best heads. The
  proof has no duplicate nodes and all of its nodes were visited.
\<close>

theorem parachain_heads_authentic:
  fixes s s' :: "('acc, 'hash) parachains_state"
  assumes "trie_laws root_of (pc_trie C)"
    and "submit_parachain_heads C relay origin (n, relay_hash) entries nodes s = Some (Inr (info, s'))"
    and "grandpa_finalized_header_state_root relay relay_hash = Some root" and "root_of root storage"
  shows "(\<exists>data. gs_imported_headers relay relay_hash = Some data \<and> shd_number data = n) \<and> distinct nodes \<and>
    (\<exists>checker w st w'. storage_proof_checker_new (pc_trie C) root nodes = Inr checker \<and>
       submit_parachain_heads_loop C n entries (checker, w, s) = Some (st, w', s') \<and> set (spc_recorder st) = set nodes) \<and>
    (\<forall>p hash data. ps_imported_para_heads s' (p, hash) = Some data \<longrightarrow>
       ps_imported_para_heads s (p, hash) = Some data \<or> (p, hash) \<in> set entries \<and> relay_head C storage p hash data) \<and>
    (\<forall>p. ps_paras_info s' p = ps_paras_info s p \<or>
       (\<exists>i hash data. ps_paras_info s' p = Some i \<and> best_head_hash i = \<lparr>at_relay_block_number = n, head_hash = hash\<rparr> \<and>
          (p, hash) \<in> set entries \<and> relay_head C storage p hash data))"
proof (rule submit_parachain_heads_Inr [OF assms(2)])
  fix data checker st w
  assume data: "gs_imported_headers relay relay_hash = Some data" "shd_number data = n"
    and new: "storage_proof_checker_new (pc_trie C) (shd_state_root data) nodes = Inr checker" and unused: "ensure_no_unused_nodes st = Inr ()"
    and loop: "submit_parachain_heads_loop C n entries
       (checker, submit_parachain_heads_weight (pc_weight_ops C) (pc_weight_info C) (pc_db_weight C)
          (para_heads_proof_size nodes) (of_nat (length entries)), s) = Some (st, w, s')"
  have root: "shd_state_root data = root" using assms(3) data by (simp add: grandpa_finalized_header_state_root_def)
  define Q where "Q st1 s1 \<longleftrightarrow> checker_ok root nodes st1 \<and>
    (\<forall>p hash data. ps_imported_para_heads s1 (p, hash) = Some data \<longrightarrow>
       ps_imported_para_heads s (p, hash) = Some data \<or> (p, hash) \<in> set entries \<and> relay_head C storage p hash data) \<and>
    (\<forall>p. ps_paras_info s1 p = ps_paras_info s p \<or>
       (\<exists>i hash data. ps_paras_info s1 p = Some i \<and> best_head_hash i = \<lparr>at_relay_block_number = n, head_hash = hash\<rparr> \<and>
          (p, hash) \<in> set entries \<and> relay_head C storage p hash data))" for st1 and s1 :: "('acc, 'hash) parachains_state"
  have "Q st s'"
  proof (rule loop_induct [where Q = Q, OF loop subset_refl])
    show "Q checker s" using checker_new_ok(1) [OF new] by (simp add: Q_def root)
    show "Q (snd (read_parachain_head C st p)) (parachains_deposit_event e s)" if "Q st s" for st s e p
      using that read_parachain_head_ok(1) [OF assms(1)] by (simp add: Q_def)
    show "Q (snd (read_parachain_head C st p)) s2"
      if entry: "(p, hash) \<in> set entries" and q: "Q st s1" and rd: "fst (read_parachain_head C st p) = Inr (Some head)"
        and hash: "hash = para_head_hash (pc_blake2_256 C) head" and build: "pc_try_build C p head = Some d"
        and rec: "record_head p C (n, d, hash) s1 = Some s2" for st s1 s2 p hash head d
    proof -
      have st: "checker_ok root nodes st" using q by (simp add: Q_def)
      obtain v where v: "storage (head_key C p) = Some v" "pc_decode_para_head C v = Some head"
        using read_parachain_head_ok(2) [OF assms(1) st assms(4) rd] by blast
      have auth: "relay_head C storage p hash d" unfolding relay_head_def using v hash build by blast
      have heads: "ps_imported_para_heads s (q, h) = Some x \<or> (q, h) \<in> set entries \<and> relay_head C storage q h x"
        if "ps_imported_para_heads s2 (q, h) = Some x" for q h x
        using record_head_stored [OF rec that] q entry auth unfolding Q_def by blast
      have infos: "ps_paras_info s2 r = ps_paras_info s r \<or>
       (\<exists>i hash data. ps_paras_info s2 r = Some i \<and> best_head_hash i = \<lparr>at_relay_block_number = n, head_hash = hash\<rparr> \<and>
          (r, hash) \<in> set entries \<and> relay_head C storage r hash data)" for r
      proof (cases "r = p")
        case True
        show ?thesis by (rule record_head_info [OF rec]) (use True entry auth in blast)
      next
        case False
        then show ?thesis using q record_head_other(1) [OF rec False] by (simp add: Q_def)
      qed
      show ?thesis using read_parachain_head_ok(1) [OF assms(1) st] heads infos by (simp add: Q_def)
    qed
  qed
  then have st: "checker_ok root nodes st" and Q: "Q st s'" by (simp_all add: Q_def)
  have "distinct nodes" "set (spc_recorder st) = set nodes"
    using st no_unused_nodes [OF st unused] by (simp_all add: checker_ok_def)
  then have "\<exists>checker w st w'. storage_proof_checker_new (pc_trie C) root nodes = Inr checker \<and>
       submit_parachain_heads_loop C n entries (checker, w, s) = Some (st, w', s') \<and> set (spc_recorder st) = set nodes"
    using new loop unfolding root by blast
  then show ?thesis using data Q \<open>distinct nodes\<close> by (simp add: Q_def)
qed

theorem parachain_heads_authentic_witness:
  "\<exists>data. relay_head sample_parachains_config (map_of [([1], [42])]) (ParaId 1) [([42], [])] data"
proof -
  have root: "grandpa_finalized_header_state_root (sample_relay_state [42] []) [([5], [])] = Some [([1], [42])]"
    by (simp add: sample_relay_state_def grandpa_finalized_header_state_root_def)
  have laws: "trie_laws sample_root_of (pc_trie sample_parachains_config)"
    using sample_trie_laws by (simp add: sample_parachains_config_def)
  have "sample_root_of [([1], [42])] (map_of [([1], [42])])" by (simp add: sample_root_of_def)
  note heads = parachain_heads_authentic [OF laws sample_submit_head root this, THEN conjunct2, THEN conjunct2,
      THEN conjunct2, THEN conjunct1, rule_format]
  have "ps_imported_para_heads sample_head_state (ParaId 1, [([42], [])]) = Some (ParaStoredHeaderData [42])"
    by (simp add: sample_head_state_def)
  from heads [OF this] show ?thesis by (auto simp: empty_parachains_state_def)
qed

text \<open>
  C24: in every reachable state each parachain has at most \<open>HeadsToKeep\<close> stored heads, each of them in
  its ring buffer and within the size limit, and a step never moves a parachain back: its best head
  stays or is replaced by one from a later relay chain block.
\<close>

theorem parachains_reachable_invariant:
  assumes "parachains_reachable C relays s"
  shows "parachains_inv C s \<and> card {hash. ps_imported_para_heads s (p, hash) \<noteq> None} \<le> unat (pc_heads_to_keep C) \<and>
    (\<forall>s'. parachains_step C relay s s' \<longrightarrow> info_progress (ps_paras_info s p) (ps_paras_info s' p))"
proof -
  have inv: "parachains_inv C s" by (rule parachains_reachable_inv [OF assms])
  then have "card (dom (\<lambda>h. ps_imported_para_heads s (p, h))) \<le> unat (pc_heads_to_keep C)"
    by (intro ring_bounded_bound(2) [of _ "ring_position p s" "\<lambda>i. ps_imported_para_hashes s (p, i)"])
       (simp add: parachains_inv_def)
  then show ?thesis using inv by (auto simp: dom_def intro: parachains_step_inv(2))
qed

theorem parachains_reachable_invariant_witness:
  "card {hash. ps_imported_para_heads sample_head_state (ParaId 1, hash) \<noteq> None} \<le> 2"
proof -
  let ?R = "{sample_relay_state [42] []}"
  have "parachains_reachable sample_parachains_config ?R (parachains_genesis_build Normal None empty_parachains_state)"
    by (rule parachains_genesis)
  then have "parachains_reachable sample_parachains_config ?R empty_parachains_state"
    by (simp add: parachains_genesis_build_def empty_parachains_state_def)
  then have "parachains_reachable sample_parachains_config ?R sample_head_state"
    by (rule parachains_next [OF _ _ step_submit_heads [OF sample_submit_head]]) simp
  from parachains_reachable_invariant [OF this, THEN conjunct2, THEN conjunct1, of "ParaId 1"]
  show ?thesis by (simp add: sample_parachains_config_def)
qed

text \<open>
  A new head is served. When a head whose hash is not in the ring of its parachain is recorded,
  it becomes the best head and its data is returned for it, and the ring stays consistent.
\<close>

lemma recorded_head_served:
  assumes "ring_ok (pc_heads_to_keep C) (ring_position p s)
      (\<lambda>i. ps_imported_para_hashes s (p, i)) (\<lambda>h. ps_imported_para_heads s (p, h))"
    and "submit_parachain_head C n (p, hash) (st, w, s) = Some (st', w', s')"
    and "parachain_head s p hash = None" and "ps_paras_info s' p \<noteq> ps_paras_info s p"
  shows "best_parachain_head_hash s' p = Some hash \<and> parachain_head s' p hash \<noteq> None \<and>
    best_parachain_head s' p = parachain_head s' p hash \<and>
    ring_ok (pc_heads_to_keep C) (ring_position p s')
      (\<lambda>i. ps_imported_para_hashes s' (p, i)) (\<lambda>h. ps_imported_para_heads s' (p, h))"
  using assms(2)
proof (cases rule: submit_parachain_head_cases)
  case (rejected e)
  then show ?thesis using assms(4) by simp
next
  case (accepted head data)
  have new: "snd (snd (n, data, hash)) \<notin> dom (\<lambda>h. ps_imported_para_heads s (p, h))"
    using assms(3) by (simp add: parachain_head_def dom_def)
  note ring = para_ring.import_ring_ok [OF assms(1) accepted(7) new]
  show ?thesis
    by (rule record_head_info [OF accepted(7)])
       (use ring in \<open>auto simp: best_parachain_head_hash_def best_parachain_head_def parachain_head_def\<close>)
qed

lemma heads_check_agrees:
  assumes "is_sub_type call = Some (Call_submit_parachain_heads (n, relay_hash) [(p, hash)] nodes)"
    and "submit_parachain_heads C relay origin (n, relay_hash) [(p, hash)] nodes s = Some (Inr (info, s'))"
  shows "(check_obsolete_submit_parachain_heads is_sub_type call s = Inl Stale \<longrightarrow>
      ps_paras_info s' = ps_paras_info s \<and> ps_imported_para_heads s' = ps_imported_para_heads s \<and>
      ps_imported_para_hashes s' = ps_imported_para_hashes s) \<and>
    (ps_paras_info s' \<noteq> ps_paras_info s \<longrightarrow>
      check_obsolete_submit_parachain_heads is_sub_type call s = Inr () \<and>
      (\<exists>update. one_entry_submit_parachain_heads_info is_sub_type call = Some update \<and> para_was_successful update s'))"
proof -
  let ?upd = "\<lparr>sph_at_relay_block_number = n, sph_para_id = p, sph_para_head_hash = hash\<rparr>"
  have one: "one_entry_submit_parachain_heads_info is_sub_type call = Some ?upd"
    using assms(1) by (simp add: one_entry_submit_parachain_heads_info_def)
  show ?thesis
  proof (rule submit_parachain_heads_Inr [OF assms(2)])
    fix checker st w
    assume "submit_parachain_heads_loop C n [(p, hash)]
       (checker, submit_parachain_heads_weight (pc_weight_ops C) (pc_weight_info C) (pc_db_weight C)
          (para_heads_proof_size nodes) (of_nat (length [(p, hash)])), s) = Some (st, w, s')"
    then have "submit_parachain_head C n (p, hash)
       (checker, submit_parachain_heads_weight (pc_weight_ops C) (pc_weight_info C) (pc_db_weight C)
          (para_heads_proof_size nodes) (of_nat (length [(p, hash)])), s) = Some (st, w, s')"
      by (auto simp: bind_eq_Some_conv)
    then show ?thesis
    proof (cases rule: submit_parachain_head_cases)
      case (rejected e)
      then show ?thesis by simp
    next
      case (accepted head data)
      show ?thesis
        by (rule record_head_info [OF accepted(7)])
           (use accepted(6) one in \<open>auto simp: check_obsolete_submit_parachain_heads_def para_was_successful_def\<close>)
    qed
  qed
qed

text \<open>
  The check of the transaction pool agrees with the call for calls with one head. A call that it
  rejects as stale changes nothing but the events, and a call that changes the best head had passed
  it and is recognised as successful.
\<close>

lemma parachains_obsolete_check_agrees:
  assumes "is_sub_type call = Some (Call_submit_parachain_heads (n, relay_hash) [(p, hash)] nodes)"
    and "submit_parachain_heads C relay origin (n, relay_hash) [(p, hash)] nodes s = Some (Inr (info, s'))"
  shows "(check_obsolete_submit_parachain_heads is_sub_type call s = Inl Stale \<longrightarrow>
      ps_paras_info s' = ps_paras_info s \<and> ps_imported_para_heads s' = ps_imported_para_heads s \<and>
      ps_imported_para_hashes s' = ps_imported_para_hashes s) \<and>
    (ps_paras_info s' \<noteq> ps_paras_info s \<longrightarrow>
      check_obsolete_submit_parachain_heads is_sub_type call s = Inr () \<and>
      (\<exists>update. one_entry_submit_parachain_heads_info is_sub_type call = Some update \<and> para_was_successful update s'))"
  using assms by (rule heads_check_agrees)

text \<open>
  Refunds are lost. A successful call always reports the full declared weight; in the example a
  head that is already known is submitted again, the loop computes a smaller weight for it, and the
  call still reports the full one.
\<close>

lemma parachains_refund_lost:
  "(\<forall>(C :: (nat option, nat, sample_hash, u64 \<times> u64) parachains_config) relay origin at entries nodes s info s'.
      submit_parachain_heads C relay origin at entries nodes s = Some (Inr (info, s')) \<longrightarrow>
      actual_weight info = Some (submit_parachain_heads_weight (pc_weight_ops C) (pc_weight_info C) (pc_db_weight C)
        (para_heads_proof_size nodes) (of_nat (length entries)))) \<and>
   (\<exists>relay s' st w. submit_parachain_heads sample_parachains_config (relay :: (nat, sample_hash, u32, nat) grandpa_state) None
        (6, [([6], [])]) [(ParaId 1, [([42], [])])] [[1]] sample_head_state =
        Some (Inr (\<lparr>actual_weight = Some (1010, 100), pays_fee = PaysYes\<rparr>, s')) \<and>
      submit_parachain_heads_loop sample_parachains_config 6 [(ParaId 1, [([42], [])])]
        (\<lparr>spc_proof_nodes_count = 1, spc_root = [([1], [42])], spc_db = {[1]}, spc_recorder = []\<rparr>, (1010, 100), sample_head_state) =
        Some (st, w, s') \<and> w = (980, 100))"
proof (intro conjI allI impI)
  fix C :: "(nat option, nat, sample_hash, u64 \<times> u64) parachains_config" and relay :: "('a, sample_hash, u32, 'b) grandpa_state"
    and origin entries nodes info and s s' :: "(nat, sample_hash) parachains_state" and at
  assume sub: "submit_parachain_heads C relay origin at entries nodes s = Some (Inr (info, s'))"
  obtain n relay_hash where "at = (n, relay_hash)" by (cases at)
  with sub show "actual_weight info = Some (submit_parachain_heads_weight (pc_weight_ops C) (pc_weight_info C) (pc_db_weight C)
        (para_heads_proof_size nodes) (of_nat (length entries)))"
    by (auto elim!: submit_parachain_heads_Inr)
next
  show "\<exists>relay s' st w. submit_parachain_heads sample_parachains_config (relay :: (nat, sample_hash, u32, nat) grandpa_state) None
        (6, [([6], [])]) [(ParaId 1, [([42], [])])] [[1]] sample_head_state =
        Some (Inr (\<lparr>actual_weight = Some (1010, 100), pays_fee = PaysYes\<rparr>, s')) \<and>
      submit_parachain_heads_loop sample_parachains_config 6 [(ParaId 1, [([42], [])])]
        (\<lparr>spc_proof_nodes_count = 1, spc_root = [([1], [42])], spc_db = {[1]}, spc_recorder = []\<rparr>, (1010, 100), sample_head_state) =
        Some (st, w, s') \<and> w = (980, 100)"
    by (rule exI [of _ "sample_relay_state [42] [42]"]) (simp add: parachains_eval)
qed

text \<open>
  The ring relies on heads that do not come back. When a parachain returns to a head that is
  about to be pruned, the head is recorded as the best one, and then removed by the pruning, so that
  the best head has no data.
\<close>

lemma returning_head_is_pruned:
  "\<exists>s1 s2. record_head (ParaId 1) sample_parachains_config (6, ParaStoredHeaderData [43], [([43], [])]) sample_head_state = Some s1 \<and>
     record_head (ParaId 1) sample_parachains_config (7, ParaStoredHeaderData [42], [([42], [])]) s1 = Some s2 \<and>
     \<not> para_is_obsolete \<lparr>sph_at_relay_block_number = 7, sph_para_id = ParaId 1, sph_para_head_hash = [([42], [])]\<rparr> s1 \<and>
     best_parachain_head_hash s2 (ParaId 1) = Some [([42], [])] \<and> best_parachain_head s2 (ParaId 1) = None"
  by (simp add: record_head_eq ring_position_def sample_parachains_config_def sample_head_state_def
      best_parachain_head_hash_def best_parachain_head_def para_is_obsolete_def word_le_nat_alt)

end
