(* ===== verification/Messages_Keys.thy ===== *)
theory Messages_Keys
  imports Messages_Primitives Storage_Proof
begin

text \<open>
  Storage keys of the messages pallet (\<open>primitives/messages/src/storage_keys.rs\<close>) and the derived
  encodings of the identifiers that are part of them: a fixed-size array is encoded as its bytes,
  a \<open>u64\<close> in little endian.
\<close>

fun lane_id_encode :: "lane_id \<Rightarrow> bytes" where
  "lane_id_encode (LaneId a b c d) = [a, b, c, d]"

definition u64_encode :: "u64 \<Rightarrow> bytes" where
  "u64_encode n = map (\<lambda>i. ucast (drop_bit (8 * i) n)) [0..<8]"

definition message_key_encode :: "message_key \<Rightarrow> bytes" where
  "message_key_encode key = lane_id_encode (mk_lane_id key) @ u64_encode (mk_nonce key)"

definition OPERATING_MODE_VALUE_NAME :: string where
  "OPERATING_MODE_VALUE_NAME = ''PalletOperatingMode''"

definition OUTBOUND_MESSAGES_MAP_NAME :: string where
  "OUTBOUND_MESSAGES_MAP_NAME = ''OutboundMessages''"

definition OUTBOUND_LANES_MAP_NAME :: string where
  "OUTBOUND_LANES_MAP_NAME = ''OutboundLanes''"

definition INBOUND_LANES_MAP_NAME :: string where
  "INBOUND_LANES_MAP_NAME = ''InboundLanes''"

definition operating_mode_key :: "(bytes \<Rightarrow> bytes \<Rightarrow> bytes) \<Rightarrow> string \<Rightarrow> bytes" where
  "operating_mode_key storage_value_final_key pallet_prefix =
     storage_value_final_key (as_bytes pallet_prefix) (as_bytes OPERATING_MODE_VALUE_NAME)"

definition message_storage_key :: "(bytes \<Rightarrow> bytes) \<Rightarrow> (bytes \<Rightarrow> bytes) \<Rightarrow> string \<Rightarrow> lane_id \<Rightarrow> message_nonce \<Rightarrow> bytes" where
  "message_storage_key twox_128 blake2_128_concat pallet_prefix lane nonce =
     storage_map_final_key twox_128 blake2_128_concat pallet_prefix OUTBOUND_MESSAGES_MAP_NAME
       (message_key_encode \<lparr>mk_lane_id = lane, mk_nonce = nonce\<rparr>)"

definition outbound_lane_data_key :: "(bytes \<Rightarrow> bytes) \<Rightarrow> (bytes \<Rightarrow> bytes) \<Rightarrow> string \<Rightarrow> lane_id \<Rightarrow> bytes" where
  "outbound_lane_data_key twox_128 blake2_128_concat pallet_prefix lane =
     storage_map_final_key twox_128 blake2_128_concat pallet_prefix OUTBOUND_LANES_MAP_NAME (lane_id_encode lane)"

definition inbound_lane_data_key :: "(bytes \<Rightarrow> bytes) \<Rightarrow> (bytes \<Rightarrow> bytes) \<Rightarrow> string \<Rightarrow> lane_id \<Rightarrow> bytes" where
  "inbound_lane_data_key twox_128 blake2_128_concat pallet_prefix lane =
     storage_map_final_key twox_128 blake2_128_concat pallet_prefix INBOUND_LANES_MAP_NAME (lane_id_encode lane)"

section \<open>Different identifiers have different encodings\<close>

lemma length_lane_id_encode [simp]: "length (lane_id_encode lane) = 4"
  by (cases lane) simp

lemma lane_id_encode_inj [simp]: "lane_id_encode a = lane_id_encode b \<longleftrightarrow> a = b"
  by (cases a; cases b) simp

lemma lane_id_encode_eq: "lane_id_encode lane = [a, b, c, d] \<longleftrightarrow> lane = LaneId a b c d"
  by (cases lane) auto

lemma length_u64_encode [simp]: "length (u64_encode n) = 8"
  by (simp add: u64_encode_def)

lemma u64_encode_inj [simp]: "u64_encode a = u64_encode b \<longleftrightarrow> a = b"
proof
  assume eq: "u64_encode a = u64_encode b"
  have byte: "bit a (8 * i + j) = bit b (8 * i + j)" if "i < 8" "j < 8" for i j
  proof -
    have "u64_encode a ! i = u64_encode b ! i" using eq by simp
    then have "(ucast (drop_bit (8 * i) a) :: u8) = ucast (drop_bit (8 * i) b)"
      using that(1) by (simp add: u64_encode_def)
    then have "bit (ucast (drop_bit (8 * i) a) :: u8) j = bit (ucast (drop_bit (8 * i) b) :: u8) j" by simp
    then show ?thesis using that(2) by (simp add: bit_ucast_iff bit_drop_bit_eq add.commute)
  qed
  show "a = b"
  proof (rule bit_word_eqI)
    fix n assume "n < LENGTH(64)"
    then have "n div 8 < 8" "n mod 8 < 8" by simp_all
    from byte [OF this] show "bit a n = bit b n" by simp
  qed
qed simp

lemma message_key_encode_inj [simp]: "message_key_encode a = message_key_encode b \<longleftrightarrow> a = b"
  by (auto simp: message_key_encode_def intro: message_key.equality)

end
