(* ===== verification/Relayers.thy ===== *)
theory Relayers
  imports Messages_Keys
begin

text \<open>
  The relayers pallet (\<open>modules/relayers\<close>, \<open>primitives/relayers\<close>): accumulated rewards, their claim,
  and the adapter that the messages pallet uses to reward delivered messages. The lemmas give the
  effect of a registration, of the adapter and of a claim on the reward of each relayer.

  The type of rewards is an unsigned integer type of any width; the procedure that pays a reward is
  a parameter of the pallet, over the state of the balances.
\<close>

section \<open>Primitives\<close>

datatype rewards_account_owner = ThisChain | BridgedChain

type_synonym chain_id = "u8 \<times> u8 \<times> u8 \<times> u8"

record rewards_account_params =
  rap_lane_id :: lane_id
  rap_bridged_chain_id :: chain_id
  rap_owner :: rewards_account_owner

definition rewards_account_params_new :: "lane_id \<Rightarrow> chain_id \<Rightarrow> rewards_account_owner \<Rightarrow> rewards_account_params" where
  "rewards_account_params_new lane_id bridged_chain_id owner =
     \<lparr>rap_lane_id = lane_id, rap_bridged_chain_id = bridged_chain_id, rap_owner = owner\<rparr>"

text \<open>The derived SCALE encoding: the fixed-size arrays and the index of the variant.\<close>

fun chain_id_encode :: "chain_id \<Rightarrow> bytes" where
  "chain_id_encode (a, b, c, d) = [a, b, c, d]"

fun rewards_account_owner_encode :: "rewards_account_owner \<Rightarrow> bytes" where
  "rewards_account_owner_encode ThisChain = [0]"
| "rewards_account_owner_encode BridgedChain = [1]"

definition rewards_account_params_encode :: "rewards_account_params \<Rightarrow> bytes" where
  "rewards_account_params_encode params =
     lane_id_encode (rap_lane_id params) @ chain_id_encode (rap_bridged_chain_id params) @
     rewards_account_owner_encode (rap_owner params)"

definition rewards_account_params_TYPE_ID :: bytes where
  "rewards_account_params_TYPE_ID = map of_char ''brap''"

text \<open>
  \<open>PayRewardFromAccount\<close>. The conversion \<open>into_sub_account_truncating\<close> of the runtime library is a
  parameter: it maps the type identifier, the encoded parameters and the sub-account to an account.
\<close>

definition rewards_account ::
  "(bytes \<Rightarrow> bytes \<Rightarrow> bytes \<Rightarrow> 'acc) \<Rightarrow> rewards_account_params \<Rightarrow> 'acc" where
  "rewards_account into_sub_account_truncating params =
     into_sub_account_truncating rewards_account_params_TYPE_ID (rewards_account_params_encode params)
       (map of_char ''rewards-account'')"

definition pay_reward_from_account ::
  "(bytes \<Rightarrow> bytes \<Rightarrow> bytes \<Rightarrow> 'acc) \<Rightarrow> ('acc \<Rightarrow> 'acc \<Rightarrow> 'l::len word \<Rightarrow> bool \<Rightarrow> 'x \<Rightarrow> 'e + ('l word \<times> 'x)) \<Rightarrow>
     'acc \<Rightarrow> rewards_account_params \<Rightarrow> 'l word \<Rightarrow> 'x \<Rightarrow> 'e + 'x" where
  "pay_reward_from_account into_sub_account_truncating transfer relayer params reward x =
     map_sum id snd (transfer (rewards_account into_sub_account_truncating params) relayer reward False x)"

text \<open>The procedure that pays nothing.\<close>

definition noop_pay_reward :: "'acc \<Rightarrow> rewards_account_params \<Rightarrow> 'l::len word \<Rightarrow> 'x \<Rightarrow> 'e + 'x" where
  "noop_pay_reward relayer params reward x = Inr x"

definition relayer_rewards_final_key ::
  "(bytes \<Rightarrow> bytes) \<Rightarrow> (bytes \<Rightarrow> bytes) \<Rightarrow> ('acc \<Rightarrow> bytes) \<Rightarrow> string \<Rightarrow> 'acc \<Rightarrow> rewards_account_params \<Rightarrow> bytes" where
  "relayer_rewards_final_key twox_128 blake2_128_concat encode_account =
     double_map_key_provider_final_key twox_128 blake2_128_concat id encode_account rewards_account_params_encode
       ''RelayerRewards''"

section \<open>The pallet\<close>

datatype ('acc, 'r) relayers_event = RewardPaid 'acc rewards_account_params 'r

datatype relayers_error = NoRewardForRelayer | FailedToPayReward

record ('acc, 'r) relayers_state =
  rs_relayer_rewards :: "'acc \<times> rewards_account_params \<Rightarrow> 'r option"
  rs_events :: "('acc, 'r) relayers_event list"

record ('o, 'acc, 'r, 'x, 'e) relayers_config = "('o, 'acc) origin_config" +
  rc_pay_reward :: "'acc \<Rightarrow> rewards_account_params \<Rightarrow> 'r \<Rightarrow> 'x \<Rightarrow> 'e + 'x"

definition claim_rewards ::
  "('o, 'acc, 'r, 'x, 'e) relayers_config \<Rightarrow> 'o \<Rightarrow> rewards_account_params \<Rightarrow>
     ('acc, 'r) relayers_state \<Rightarrow> 'x \<Rightarrow> relayers_error dispatch_error + (('acc, 'r) relayers_state \<times> 'x)" where
  "claim_rewards C origin params s x =
     (case ensure_signed C origin of
        None \<Rightarrow> Inl BadOrigin
      | Some relayer \<Rightarrow>
          (case rs_relayer_rewards s (relayer, params) of
             None \<Rightarrow> Inl (ModuleError NoRewardForRelayer)
           | Some reward \<Rightarrow>
               (case rc_pay_reward C relayer params reward x of
                  Inl _ \<Rightarrow> Inl (ModuleError FailedToPayReward)
                | Inr x \<Rightarrow> Inr (s\<lparr>rs_relayer_rewards := (rs_relayer_rewards s)((relayer, params) := None),
                    rs_events := rs_events s @ [RewardPaid relayer params reward]\<rparr>, x))))"

definition register_relayer_reward ::
  "rewards_account_params \<Rightarrow> 'acc \<Rightarrow> 'l::len word \<Rightarrow> ('acc, 'l word) relayers_state \<Rightarrow> ('acc, 'l word) relayers_state" where
  "register_relayer_reward params relayer reward s =
     (if reward = 0 then s
      else let old_reward = (case rs_relayer_rewards s (relayer, params) of None \<Rightarrow> 0 | Some old \<Rightarrow> old);
               new_reward = saturating_add old_reward reward
           in s\<lparr>rs_relayer_rewards := (rs_relayer_rewards s)((relayer, params) \<mapsto> new_reward)\<rparr>)"

section \<open>The payment adapter of the messages pallet\<close>

text \<open>The conversion of a number of messages to the type of rewards.\<close>

definition reward_saturated_from :: "message_nonce \<Rightarrow> 'l::len word" where
  "reward_saturated_from n = saturating_of_nat (unat n)"

definition register_relayers_rewards ::
  "'acc \<Rightarrow> ('acc, message_nonce) btree \<Rightarrow> rewards_account_params \<Rightarrow> 'l::len word \<Rightarrow>
     ('acc, 'l word) relayers_state \<Rightarrow> ('acc, 'l word) relayers_state" where
  "register_relayers_rewards confirmation_relayer relayers_rewards lane_id delivery_fee s =
     (let (confirmation_relayer_reward, s) =
            fold (\<lambda>(relayer, messages) (confirmation_relayer_reward, s).
                let relayer_reward = saturating_mul (reward_saturated_from messages) delivery_fee
                in if relayer \<noteq> confirmation_relayer
                   then (confirmation_relayer_reward, register_relayer_reward lane_id relayer relayer_reward s)
                   else (saturating_add confirmation_relayer_reward relayer_reward, s))
              relayers_rewards (0, s)
      in register_relayer_reward lane_id confirmation_relayer confirmation_relayer_reward s)"

text \<open>\<open>DeliveryConfirmationPaymentsAdapter::pay_reward\<close> for a bridged chain and a reward per message.\<close>

definition adapter_pay_reward ::
  "chain_id \<Rightarrow> 'l::len word \<Rightarrow> lane_id \<Rightarrow> 'acc::linorder unrewarded_relayer list \<Rightarrow> 'acc \<Rightarrow>
     message_nonce \<times> message_nonce \<Rightarrow> ('acc, 'l word) relayers_state \<Rightarrow> ('acc, 'l word) relayers_state" where
  "adapter_pay_reward bridged_chain_id delivery_reward lane_id messages_relayers confirmation_relayer received_range s =
     (let relayers_rewards = calc_relayers_rewards messages_relayers received_range
      in register_relayers_rewards confirmation_relayer relayers_rewards
           (rewards_account_params_new lane_id bridged_chain_id BridgedChain) delivery_reward s)"

section \<open>Registered rewards\<close>

definition relayer_reward :: "('acc, 'l::len word) relayers_state \<Rightarrow> 'acc \<Rightarrow> rewards_account_params \<Rightarrow> 'l word" where
  "relayer_reward s relayer params = (case rs_relayer_rewards s (relayer, params) of None \<Rightarrow> 0 | Some reward \<Rightarrow> reward)"

lemma relayer_reward_register:
  "relayer_reward (register_relayer_reward p r a s) r' p' =
     (if r' = r \<and> p' = p then saturating_add (relayer_reward s r p) a else relayer_reward s r' p')"
  by (auto simp: register_relayer_reward_def relayer_reward_def Let_def)

lemma events_register [simp]: "rs_events (register_relayer_reward p r a s) = rs_events s"
  by (simp add: register_relayer_reward_def Let_def)

text \<open>The reward that a relayer gets for the messages of a map.\<close>

definition messages_reward :: "'l::len word \<Rightarrow> ('acc, message_nonce) btree \<Rightarrow> 'acc \<Rightarrow> 'l word" where
  "messages_reward fee m r =
     (case btree_get m r of None \<Rightarrow> 0 | Some n \<Rightarrow> saturating_mul (reward_saturated_from n) fee)"

lemma messages_reward_Nil [simp]: "messages_reward fee [] r = 0"
  by (simp add: messages_reward_def)

lemma messages_reward_Cons:
  "messages_reward fee ((k, n) # m) r =
     (if k = r then saturating_mul (reward_saturated_from n) fee else messages_reward fee m r)"
  by (simp add: messages_reward_def)

lemma messages_reward_fresh: "r \<notin> fst ` set m \<Longrightarrow> messages_reward fee m r = 0"
  by (induction m) (auto simp: messages_reward_Cons)

lemma register_loop:
  fixes s :: "('acc, 'l::len word) relayers_state"
  assumes "distinct (map fst m)"
    and "fold (\<lambda>(relayer, messages) (acc, s).
                let relayer_reward = saturating_mul (reward_saturated_from messages) fee
                in if relayer \<noteq> c then (acc, register_relayer_reward p relayer relayer_reward s)
                   else (saturating_add acc relayer_reward, s)) m (a, s) = (a', s')"
  shows "a' = saturating_add a (messages_reward fee m c) \<and>
    relayer_reward s' r q = (if q = p \<and> r \<noteq> c then saturating_add (relayer_reward s r q) (messages_reward fee m r)
      else relayer_reward s r q) \<and> rs_events s' = rs_events s"
  using assms
proof (induction m arbitrary: a s)
  case (Cons km m)
  obtain k n where km: "km = (k, n)" by (cases km)
  have fresh: "messages_reward fee m k = (0 :: 'l word)"
    using Cons.prems(1) by (intro messages_reward_fresh) (simp add: km)
  have d: "distinct (map fst m)" using Cons.prems(1) by simp
  show ?case
  proof (cases "k = c")
    case True
    then show ?thesis
      using Cons.IH [OF d] Cons.prems(2) fresh by (auto simp: km messages_reward_Cons)
  next
    case False
    then show ?thesis
      using Cons.IH [OF d] Cons.prems(2) fresh
      by (auto simp: km messages_reward_Cons relayer_reward_register)
  qed
qed simp

lemma register_relayers_rewards_exact:
  assumes "btree_wf m"
  shows "relayer_reward (register_relayers_rewards c m p fee s) r q =
      (if q = p then saturating_add (relayer_reward s r q) (messages_reward fee m r) else relayer_reward s r q)"
    and "rs_events (register_relayers_rewards c m p fee s) = rs_events s"
proof -
  have d: "distinct (map fst m)" using btree.distinct_entries [OF assms] by simp
  obtain a' s' where loop: "fold (\<lambda>(relayer, messages) (acc, s).
                let relayer_reward = saturating_mul (reward_saturated_from messages) fee
                in if relayer \<noteq> c then (acc, register_relayer_reward p relayer relayer_reward s)
                   else (saturating_add acc relayer_reward, s)) m (0, s) = (a', s')"
    by fastforce
  note l = register_loop [OF d loop]
  show "relayer_reward (register_relayers_rewards c m p fee s) r q =
      (if q = p then saturating_add (relayer_reward s r q) (messages_reward fee m r) else relayer_reward s r q)"
    "rs_events (register_relayers_rewards c m p fee s) = rs_events s"
    using l by (auto simp: register_relayers_rewards_def loop relayer_reward_register)
qed

text \<open>The rewards of a confirmed range, for a queue of consecutive entries.\<close>

lemma adapter_pay_reward_exact:
  fixes s :: "('acc::linorder, 'l::len word) relayers_state"
  assumes "consecutive None es" and "(a, b) \<noteq> (0, - 1)"
    and fits: "unat (relayer_reward s r (rewards_account_params_new lane chain BridgedChain)) +
      card (delivered_by es {a..b} r) * unat fee < 2 ^ LENGTH('l)"
    and wide: "64 \<le> LENGTH('l)"
  shows "unat (relayer_reward (adapter_pay_reward chain fee lane es c (a, b) s) r (rewards_account_params_new lane chain BridgedChain)) =
    unat (relayer_reward s r (rewards_account_params_new lane chain BridgedChain)) + card (delivered_by es {a..b} r) * unat fee"
proof -
  let ?n = "card (delivered_by es {a..b} r)" and ?p = "rewards_account_params_new lane chain BridgedChain"
  let ?m = "calc_relayers_rewards es (a, b)"
  have "?n \<le> card {a..b}" by (intro card_mono) (auto simp: delivered_by_def)
  then have n: "?n < 2 ^ 64" using card_range_lt [OF assms(2)] by simp
  then have n': "?n < 2 ^ LENGTH('l)"
    using wide by (meson less_le_trans one_le_numeral power_increasing)
  have "unat (reward_saturated_from (of_nat ?n :: message_nonce) :: 'l word) = ?n"
    using n n' by (simp add: reward_saturated_from_def unat_saturating_of_nat unat_of_nat_lt)
  then have "unat (messages_reward fee ?m r) = ?n * unat fee"
    using fits by (auto simp: messages_reward_def calc_relayers_rewards_get [OF assms(1,2)] unat_saturating_mul)
  then show ?thesis
    using fits by (simp add: adapter_pay_reward_def register_relayers_rewards_exact [OF btree_wf_rewards] unat_saturating_add)
qed

section \<open>The ledger\<close>

text \<open>The operations of the pallet, as the runtime composes them; a failed claim changes nothing.\<close>

datatype ('o, 'acc, 'r) relayers_op =
    Op_register rewards_account_params 'acc 'r
  | Op_claim 'o rewards_account_params

fun relayers_exec ::
  "('o, 'acc, 'l::len word, 'x, 'e) relayers_config \<Rightarrow> ('o, 'acc, 'l word) relayers_op \<Rightarrow>
     ('acc, 'l word) relayers_state \<times> 'x \<Rightarrow> ('acc, 'l word) relayers_state \<times> 'x" where
  "relayers_exec C (Op_register params relayer reward) (s, x) = (register_relayer_reward params relayer reward s, x)"
| "relayers_exec C (Op_claim origin params) (s, x) =
     (case claim_rewards C origin params s x of Inl _ \<Rightarrow> (s, x) | Inr sx \<Rightarrow> sx)"

text \<open>What was registered for a relayer and what was paid to it, as unbounded numbers.\<close>

fun registered :: "'acc \<Rightarrow> rewards_account_params \<Rightarrow> ('o, 'acc, 'l::len word) relayers_op list \<Rightarrow> nat" where
  "registered r p [] = 0"
| "registered r p (Op_register params relayer reward # ops) =
     (if relayer = r \<and> params = p then unat reward else 0) + registered r p ops"
| "registered r p (Op_claim origin params # ops) = registered r p ops"

fun paid :: "'acc \<Rightarrow> rewards_account_params \<Rightarrow> ('acc, 'l::len word) relayers_event list \<Rightarrow> nat" where
  "paid r p [] = 0"
| "paid r p (RewardPaid relayer params reward # events) =
     (if relayer = r \<and> params = p then unat reward else 0) + paid r p events"

lemma registered_append [simp]: "registered r p (ops @ ops') = registered r p ops + registered r p ops'"
  by (induction r p ops rule: registered.induct) simp_all

lemma paid_append [simp]: "paid r p (es @ es') = paid r p es + paid r p es'"
  by (induction r p es rule: paid.induct) simp_all

lemma claim_rewards_Inr:
  assumes "claim_rewards C origin params s x = Inr (s', x')"
  obtains relayer reward where "ensure_signed C origin = Some relayer" "rs_relayer_rewards s (relayer, params) = Some reward"
    "rc_pay_reward C relayer params reward x = Inr x'"
    "s' = s\<lparr>rs_relayer_rewards := (rs_relayer_rewards s)((relayer, params) := None),
       rs_events := rs_events s @ [RewardPaid relayer params reward]\<rparr>"
  using assms by (auto simp: claim_rewards_def split: option.splits sum.splits)

definition empty_relayers_state :: "('acc, 'r) relayers_state" where
  "empty_relayers_state = \<lparr>rs_relayer_rewards = Map.empty, rs_events = []\<rparr>"

lemma ledger_step:
  fixes s s' :: "('acc, 'l::len word) relayers_state"
  assumes "relayers_exec C op (s, x) = (s', x')"
    and "paid r p (rs_events s) + unat (relayer_reward s r p) \<le> n"
    and "n < 2 ^ LENGTH('l) \<Longrightarrow> paid r p (rs_events s) + unat (relayer_reward s r p) = n"
  shows "paid r p (rs_events s') + unat (relayer_reward s' r p) \<le> n + registered r p [op]"
    and "n + registered r p [op] < 2 ^ LENGTH('l) \<Longrightarrow>
      paid r p (rs_events s') + unat (relayer_reward s' r p) = n + registered r p [op]"
proof -
  have "paid r p (rs_events s') + unat (relayer_reward s' r p) \<le> n + registered r p [op] \<and>
    (n + registered r p [op] < 2 ^ LENGTH('l) \<longrightarrow>
      paid r p (rs_events s') + unat (relayer_reward s' r p) = n + registered r p [op])"
  proof (cases op)
    case (Op_register params relayer reward)
    then have "s' = register_relayer_reward params relayer reward s" using assms(1) by simp
    then show ?thesis
      using assms(2,3) Op_register by (auto simp: relayer_reward_register unat_saturating_add)
  next
    case (Op_claim origin params)
    show ?thesis
    proof (cases "claim_rewards C origin params s x")
      case (Inl e)
      then show ?thesis using assms Op_claim by simp
    next
      case (Inr sx)
      then have "claim_rewards C origin params s x = Inr (s', x')" using assms(1) Op_claim by simp
      then show ?thesis
        using assms(2,3) Op_claim by (elim claim_rewards_Inr) (auto simp: relayer_reward_def)
    qed
  qed
  then show "paid r p (rs_events s') + unat (relayer_reward s' r p) \<le> n + registered r p [op]"
    and "n + registered r p [op] < 2 ^ LENGTH('l) \<Longrightarrow>
      paid r p (rs_events s') + unat (relayer_reward s' r p) = n + registered r p [op]" by simp_all
qed

end
