(* ===== verification/Relayers_Properties.thy ===== *)
theory Relayers_Properties
  imports Relayers Messages_Properties
begin

text \<open>
  Correctness of the relayers pallet: the ledger equation of registered, claimed and claimable
  rewards, and that a confirmed delivery registers the rewards of exactly the newly confirmed
  messages.
\<close>

text \<open>
  C26: the ledger of the pallet. After any sequence of registrations and claims, what was paid to a
  relayer and what it can still claim never exceed what was registered for it, and they add up to it
  as long as the registered rewards fit into the type of rewards.
\<close>

theorem relayer_rewards_ledger:
  assumes "fold (relayers_exec C) ops (empty_relayers_state :: ('acc, 'l::len word) relayers_state, x) = (s, x')"
  shows "paid r p (rs_events s) + unat (relayer_reward s r p) \<le> registered r p ops \<and>
    (registered r p ops < 2 ^ LENGTH('l) \<longrightarrow>
      paid r p (rs_events s) + unat (relayer_reward s r p) = registered r p ops)"
  using assms
proof (induction ops arbitrary: s x' rule: rev_induct)
  case Nil
  then show ?case by (auto simp: empty_relayers_state_def relayer_reward_def)
next
  case (snoc op ops)
  obtain s1 x1 where run: "fold (relayers_exec C) ops (empty_relayers_state, x) = (s1, x1)" by fastforce
  then have step: "relayers_exec C op (s1, x1) = (s, x')" using snoc.prems by simp
  show ?case using snoc.IH [OF run] ledger_step [OF step] by auto
qed

definition sample_relayers_config :: "(nat option, nat, 128 word, nat, unit) relayers_config" where
  "sample_relayers_config = \<lparr>origin_into = (\<lambda>origin. case origin of None \<Rightarrow> Some Root | Some a \<Rightarrow> Some (Signed a)),
     ensure_signed = id, rc_pay_reward = (\<lambda>_ _ reward x. Inr (x + unat reward))\<rparr>"

theorem relayer_rewards_ledger_witness:
  "let p = rewards_account_params_new (LaneId 0 0 0 1) (1, 2, 3, 4) ThisChain; (s, x) = fold (relayers_exec sample_relayers_config)
      [Op_register p 7 100, Op_claim (Some 7) p, Op_register p 7 5] (empty_relayers_state, 0)
   in x = 100 \<and> paid 7 p (rs_events s) + unat (relayer_reward s 7 p) = 105"
proof -
  let ?p = "rewards_account_params_new (LaneId 0 0 0 1) (1, 2, 3, 4) ThisChain"
  let ?ops = "[Op_register ?p 7 100, Op_claim (Some 7) ?p, Op_register ?p 7 5] :: (nat option, nat, 128 word) relayers_op list"
  obtain s where run: "fold (relayers_exec sample_relayers_config) ?ops (empty_relayers_state, 0) = (s, 100)"
    by (simp add: sample_relayers_config_def empty_relayers_state_def register_relayer_reward_def claim_rewards_def
        rewards_account_params_new_def saturating_add_def)
  then show ?thesis
    using relayer_rewards_ledger [OF run, of 7 ?p] by simp
qed

text \<open>The effect of a confirmation on the rewards.\<close>

lemma confirmation_rewards:
  fixes x x' :: "('acc::linorder, 'l::len word) relayers_state"
  assumes "mc_pay_confirmation_reward C = adapter_pay_reward chain fee" and "64 \<le> LENGTH('l)"
    and call: "receive_messages_delivery_proof C origin proof st ms x = Inr (ms', x')"
    and verified: "mc_verify_messages_delivery_proof C proof x = Inr (lane, ld)"
    and confirmed: "N = {n. latest_received_nonce (pallet_outbound_lane_data ms lane) < n \<and>
      n \<le> latest_received_nonce (pallet_outbound_lane_data ms' lane)}"
    and params: "p = rewards_account_params_new lane chain BridgedChain"
    and fits: "unat (relayer_reward x r p) + card (delivered_by (relayers ld) N r) * unat fee < 2 ^ LENGTH('l)"
  shows "unat (relayer_reward x' r p) = unat (relayer_reward x r p) + card (delivered_by (relayers ld) N r) * unat fee \<and>
    (q \<noteq> p \<longrightarrow> relayer_reward x' r q = relayer_reward x r q)"
  using call
proof (cases rule: receive_messages_delivery_proof_effect)
  case (1 lane' ld' relayer)
  then have [simp]: "lane' = lane" "ld' = ld" using verified by simp_all
  let ?a = "latest_received_nonce (pallet_outbound_lane_data ms lane)"
  from 1(6) show ?thesis
  proof (elim disjE conjE)
    assume "ms' = ms" and "x' = x"
    then have "N = {}" by (auto simp: confirmed)
    then show ?thesis by (simp add: \<open>x' = x\<close> delivered_by_def)
  next
    assume new: "latest_received_nonce (pallet_outbound_lane_data ms lane') < last_delivered_nonce ld'" and q: "consecutive None (relayers ld')"
      and ms': "pallet_outbound_lane_data ms' = (pallet_outbound_lane_data ms)
       (lane' := (pallet_outbound_lane_data ms lane')\<lparr>latest_received_nonce := last_delivered_nonce ld'\<rparr>)"
      and x': "x' = mc_pay_confirmation_reward C lane' (relayers ld') relayer
       (latest_received_nonce (pallet_outbound_lane_data ms lane') + 1, last_delivered_nonce ld') x"
    have suc: "unat (?a + 1) = Suc (unat ?a)" using new by (intro unat_succ_lt) simp
    have N: "N = {?a + 1..last_delivered_nonce ld}"
      by (auto simp: confirmed ms' word_succ_le_iff [OF suc])
    have "(?a + 1, last_delivered_nonce ld) \<noteq> (0, - 1)" using suc by (metis fst_conv nat.distinct(1) unsigned_0)
    from adapter_pay_reward_exact [OF _ this, of "relayers ld" x r lane chain fee relayer]
    have "unat (relayer_reward x' r p) = unat (relayer_reward x r p) + card (delivered_by (relayers ld) N r) * unat fee"
      using q fits assms(1,2) by (simp add: x' N params)
    moreover have "q \<noteq> p \<longrightarrow> relayer_reward x' r q = relayer_reward x r q"
      using assms(1) by (simp add: x' adapter_pay_reward_def params register_relayers_rewards_exact [OF btree_wf_rewards])
    ultimately show ?thesis by simp
  qed
qed

text \<open>
  C27: rewards follow the confirmed messages. When the messages pallet is configured with the adapter,
  a successful delivery confirmation adds to the claimable reward of every relayer exactly the
  reward of the newly confirmed messages that the relayer has delivered, and changes no reward for
  another lane, chain or direction.
\<close>

theorem confirmation_rewards_exact:
  fixes x x' :: "('acc::linorder, 'l::len word) relayers_state"
  assumes "mc_pay_confirmation_reward C = adapter_pay_reward chain fee" and "64 \<le> LENGTH('l)"
    and call: "receive_messages_delivery_proof C origin proof st ms x = Inr (ms', x')"
    and verified: "mc_verify_messages_delivery_proof C proof x = Inr (lane, ld)"
    and confirmed: "N = {n. latest_received_nonce (pallet_outbound_lane_data ms lane) < n \<and>
      n \<le> latest_received_nonce (pallet_outbound_lane_data ms' lane)}"
    and params: "p = rewards_account_params_new lane chain BridgedChain"
    and fits: "unat (relayer_reward x r p) + card (delivered_by (relayers ld) N r) * unat fee < 2 ^ LENGTH('l)"
  shows "unat (relayer_reward x' r p) = unat (relayer_reward x r p) + card (delivered_by (relayers ld) N r) * unat fee \<and>
    (q \<noteq> p \<longrightarrow> relayer_reward x' r q = relayer_reward x r q)"
  using assms by (rule confirmation_rewards)

theorem confirmation_rewards_exact_witness:
  "\<exists>ms' x'. receive_messages_delivery_proof
       (sample_config (adapter_pay_reward (1, 2, 3, 4) (50 :: 128 word)) (\<lambda>_ x. x) (\<lambda>_ m x. (\<lparr>unspent_weight = (0, 0), dispatch_level_result = ()\<rparr>, x)) sample_verify (\<lambda>p _. Inr p))
       (Some 1) (LaneId 0 0 0 1, \<lparr>relayers = [\<lparr>ur_relayer = 7, ur_messages = \<lparr>dm_begin = 2, dm_end = 3\<rparr>\<rparr>], last_confirmed_nonce = 1\<rparr>)
       \<lparr>unrewarded_relayer_entries = 1, messages_in_oldest_entry = 2, total_messages_in_state = 2,
        last_delivered_nonce_in_state = 3\<rparr> sample_outbound_state empty_relayers_state = Inr (ms', x') \<and>
     unat (relayer_reward x' 7 (rewards_account_params_new (LaneId 0 0 0 1) (1, 2, 3, 4) BridgedChain)) = 100"
proof -
  let ?C = "sample_config (adapter_pay_reward (1, 2, 3, 4) (50 :: 128 word)) (\<lambda>_ x. x) (\<lambda>_ m x. (\<lparr>unspent_weight = (0, 0), dispatch_level_result = ()\<rparr>, x)) sample_verify (\<lambda>p _. Inr p)"
  let ?ld = "\<lparr>relayers = [\<lparr>ur_relayer = 7, ur_messages = \<lparr>dm_begin = 2, dm_end = 3\<rparr>\<rparr>], last_confirmed_nonce = 1\<rparr> :: nat inbound_lane_data"
  let ?p = "rewards_account_params_new (LaneId 0 0 0 1) (1, 2, 3, 4) BridgedChain"
  let ?ms' = "sample_outbound_state\<lparr>ms_outbound_lanes :=
     [LaneId 0 0 0 1 \<mapsto> \<lparr>oldest_unpruned_nonce = 1, latest_received_nonce = 3, latest_generated_nonce = 3\<rparr>],
     ms_events := [MessagesDelivered (LaneId 0 0 0 1) \<lparr>dm_begin = 2, dm_end = 3\<rparr>]\<rparr>"
  have "\<exists>x'. receive_messages_delivery_proof ?C (Some 1) (LaneId 0 0 0 1, ?ld)
       \<lparr>unrewarded_relayer_entries = 1, messages_in_oldest_entry = 2, total_messages_in_state = 2,
        last_delivered_nonce_in_state = 3\<rparr> sample_outbound_state empty_relayers_state = Inr (?ms', x')"
    by (simp add: delivery_eval)
  then obtain x' where run: "receive_messages_delivery_proof ?C (Some 1) (LaneId 0 0 0 1, ?ld)
       \<lparr>unrewarded_relayer_entries = 1, messages_in_oldest_entry = 2, total_messages_in_state = 2,
        last_delivered_nonce_in_state = 3\<rparr> sample_outbound_state empty_relayers_state = Inr (?ms', x')"
    by blast
  have N: "{2..3} = {n. latest_received_nonce (pallet_outbound_lane_data sample_outbound_state (LaneId 0 0 0 1)) < n \<and>
      n \<le> latest_received_nonce (pallet_outbound_lane_data ?ms' (LaneId 0 0 0 1))}"
    by (auto simp: pallet_outbound_lane_data_def outbound_lanes_get_def sample_outbound_state_def word_less_nat_alt word_le_nat_alt)
  have card: "card (delivered_by (relayers ?ld) {2..3} 7) = 2"
    by (simp add: delivered_by_Cons nonces_of_def card_word_interval)
  have "unat (relayer_reward x' 7 ?p) = 100"
    using confirmation_rewards_exact [where r = 7 and C = ?C and fee = 50 and chain = "(1, 2, 3, 4)", OF _ _ run _ N refl] card
    by (simp add: sample_config_def empty_relayers_state_def relayer_reward_def)
  then show ?thesis using run by blast
qed

text \<open>
  Different bridge ends have different reward accounts, provided that the conversion to accounts
  does not identify encodings of the same length, as for accounts of 32 bytes.
\<close>

lemma rewards_accounts_distinct:
  assumes "\<And>t s a b. length t = 4 \<Longrightarrow> length a = 9 \<Longrightarrow> length b = 9 \<Longrightarrow> length s = 15 \<Longrightarrow>
      into_sub_account_truncating t a s = into_sub_account_truncating t b s \<Longrightarrow> a = b"
  shows "rewards_account into_sub_account_truncating params = rewards_account into_sub_account_truncating params' \<longleftrightarrow>
    params = params'"
proof
  assume eq: "rewards_account into_sub_account_truncating params = rewards_account into_sub_account_truncating params'"
  have len: "length (rewards_account_params_encode q) = 9" for q
    by (cases "rap_lane_id q"; cases "rap_bridged_chain_id q"; cases "rap_owner q") (simp_all add: rewards_account_params_encode_def)
  have "rewards_account_params_encode params = rewards_account_params_encode params'"
    by (rule assms [OF _ len len _ eq [unfolded rewards_account_def]]) (simp_all add: rewards_account_params_TYPE_ID_def)
  then have "rap_lane_id params = rap_lane_id params' \<and> rap_bridged_chain_id params = rap_bridged_chain_id params' \<and>
    rap_owner params = rap_owner params'"
    by (cases "rap_lane_id params"; cases "rap_lane_id params'"; cases "rap_bridged_chain_id params";
        cases "rap_bridged_chain_id params'"; cases "rap_owner params"; cases "rap_owner params'")
       (simp_all add: rewards_account_params_encode_def)
  then show "params = params'" by simp
qed simp

end
