(* ===== verification/Runtime_Messages.thy ===== *)
theory Runtime_Messages
  imports Messages_Keys Header_Chain Messages_Pallet
begin

text \<open>
  The runtime side of a message bridge (\<open>bin/runtime-common/src/messages.rs\<close>): verification of
  outgoing messages, of messages proofs and of delivery proofs, the dispatch of incoming messages as
  XCM programs and the adapter that sends XCM over a lane.

  A \<open>message_bridge\<close> collects what the traits \<open>MessageBridge\<close>, \<open>ThisChainWithMessages\<close> and
  \<open>BridgedChainWithMessages\<close> leave to a runtime. The header chain of the bridged chain depends on the
  state \<open>'x\<close> of this chain. Hash functions, the trie and the SCALE decoders of stored values are
  parameters.
\<close>

record ('o, 'hash, 'acc, 'x) message_bridge =
  mb_bridged_messages_pallet_name :: string
  mb_trie :: "'hash trie_ops"
  mb_finalized_header_state_root :: "'x \<Rightarrow> 'hash \<Rightarrow> 'hash option"
  mb_twox_128 :: "bytes \<Rightarrow> bytes"
  mb_blake2_128_concat :: "bytes \<Rightarrow> bytes"
  mb_decode_message_payload :: "bytes \<Rightarrow> message_payload option"
  mb_decode_outbound_lane_data :: "bytes \<Rightarrow> outbound_lane_data option"
  mb_decode_inbound_lane_data :: "bytes \<Rightarrow> 'acc inbound_lane_data option"
  mb_is_message_accepted :: "'o \<Rightarrow> lane_id \<Rightarrow> bool"
  mb_maximal_pending_messages_at_outbound_lane :: message_nonce
  mb_verify_dispatch_weight :: "message_payload \<Rightarrow> bool"
  mb_bridged_max_extrinsic_size :: u32

datatype runtime_messages_error =
    EmptyMessageProof
  | MsgHeaderChain header_chain_error
  | InboundLaneStorage storage_proof_error
  | InvalidMessageWeight
  | MessagesCountMismatch
  | MessageStorage storage_proof_error
  | MessageTooLarge
  | OutboundLaneStorage storage_proof_error
  | MsgStorageProof storage_proof_error

section \<open>Limits\<close>

definition maximal_incoming_message_dispatch_weight :: "'w weight_ops \<Rightarrow> 'w \<Rightarrow> 'w" where
  "maximal_incoming_message_dispatch_weight W maximal_extrinsic_weight = w_div W maximal_extrinsic_weight 2"

definition maximal_incoming_message_size :: "u32 \<Rightarrow> u32" where
  "maximal_incoming_message_size maximal_extrinsic_size = maximal_extrinsic_size div 3 * 2"

definition maximal_message_size :: "('o, 'hash, 'acc, 'x) message_bridge \<Rightarrow> u32" where
  "maximal_message_size B = maximal_incoming_message_size (mb_bridged_max_extrinsic_size B)"

section \<open>Messages from this chain\<close>

datatype lane_verifier_error = MESSAGE_REJECTED_BY_OUTBOUND_LANE | TOO_MANY_PENDING_MESSAGES

definition from_this_chain_verify_message ::
  "('o, 'hash, 'acc, 'x) message_bridge \<Rightarrow> 'o \<Rightarrow> lane_id \<Rightarrow> outbound_lane_data \<Rightarrow> message_payload \<Rightarrow>
     lane_verifier_error + unit" where
  "from_this_chain_verify_message B submitter lane lane_outbound_data payload =
     (if \<not> mb_is_message_accepted B submitter lane then Inl MESSAGE_REJECTED_BY_OUTBOUND_LANE
      else let max_pending_messages = mb_maximal_pending_messages_at_outbound_lane B;
               pending_messages = saturating_sub (latest_generated_nonce lane_outbound_data)
                 (latest_received_nonce lane_outbound_data)
           in if pending_messages > max_pending_messages then Inl TOO_MANY_PENDING_MESSAGES else Inr ())"

definition verify_chain_message ::
  "('o, 'hash, 'acc, 'x) message_bridge \<Rightarrow> message_payload \<Rightarrow> runtime_messages_error + unit" where
  "verify_chain_message B payload =
     (if \<not> mb_verify_dispatch_weight B payload then Inl InvalidMessageWeight
      else if length payload > unat (maximal_message_size B) then Inl MessageTooLarge
      else Inr ())"

section \<open>Proofs of the bridged chain\<close>

record 'hash messages_delivery_proof =
  mdp_bridged_header_hash :: 'hash
  mdp_storage_proof :: "bytes list"
  mdp_lane :: lane_id

record 'hash messages_proof =
  mp_bridged_header_hash :: 'hash
  mp_storage_proof :: "bytes list"
  mp_lane :: lane_id
  mp_nonces_start :: message_nonce
  mp_nonces_end :: message_nonce

definition messages_delivery_proof_size :: "'hash messages_delivery_proof \<Rightarrow> u32" where
  "messages_delivery_proof_size proof =
     saturating_of_nat (fold (\<lambda>node sum. sum + length node) (mdp_storage_proof proof) 0)"

definition messages_proof_size :: "'hash messages_proof \<Rightarrow> u32" where
  "messages_proof_size proof =
     saturating_of_nat (fold (\<lambda>node sum. sum + length node) (mp_storage_proof proof) 0)"

abbreviation mb_message_key :: "('o, 'hash, 'acc, 'x) message_bridge \<Rightarrow> lane_id \<Rightarrow> message_nonce \<Rightarrow> bytes" where
  "mb_message_key B \<equiv> message_storage_key (mb_twox_128 B) (mb_blake2_128_concat B) (mb_bridged_messages_pallet_name B)"

abbreviation mb_outbound_key :: "('o, 'hash, 'acc, 'x) message_bridge \<Rightarrow> lane_id \<Rightarrow> bytes" where
  "mb_outbound_key B \<equiv> outbound_lane_data_key (mb_twox_128 B) (mb_blake2_128_concat B) (mb_bridged_messages_pallet_name B)"

abbreviation mb_inbound_key :: "('o, 'hash, 'acc, 'x) message_bridge \<Rightarrow> lane_id \<Rightarrow> bytes" where
  "mb_inbound_key B \<equiv> inbound_lane_data_key (mb_twox_128 B) (mb_blake2_128_concat B) (mb_bridged_messages_pallet_name B)"

definition parse_delivery_proof ::
  "('o, 'hash, 'acc, 'x) message_bridge \<Rightarrow> lane_id \<Rightarrow> 'hash storage_proof_checker \<Rightarrow>
     runtime_messages_error + (lane_id \<times> 'acc inbound_lane_data)" where
  "parse_delivery_proof B lane storage =
     (let (inbound_lane_data, storage) =
            read_and_decode_mandatory_value (mb_trie B) (mb_decode_inbound_lane_data B) (mb_inbound_key B lane) storage
      in case inbound_lane_data of
           Inl e \<Rightarrow> Inl (InboundLaneStorage e)
         | Inr inbound_lane_data \<Rightarrow>
             (case ensure_no_unused_nodes storage of
                Inl e \<Rightarrow> Inl (MsgStorageProof e)
              | Inr _ \<Rightarrow> Inr (lane, inbound_lane_data)))"

definition verify_messages_delivery_proof ::
  "('o, 'hash, 'acc, 'x) message_bridge \<Rightarrow> 'hash messages_delivery_proof \<Rightarrow> 'x \<Rightarrow>
     runtime_messages_error + (lane_id \<times> 'acc inbound_lane_data)" where
  "verify_messages_delivery_proof B proof x =
     (case parse_finalized_storage_proof (mb_trie B) (mb_finalized_header_state_root B x)
             (mdp_bridged_header_hash proof) (mdp_storage_proof proof) (parse_delivery_proof B (mdp_lane proof)) of
        Inl e \<Rightarrow> Inl (MsgHeaderChain e)
      | Inr result \<Rightarrow> result)"

definition read_and_decode_outbound_lane_data ::
  "('o, 'hash, 'acc, 'x) message_bridge \<Rightarrow> lane_id \<Rightarrow> 'hash storage_proof_checker \<Rightarrow>
     (runtime_messages_error + outbound_lane_data option) \<times> 'hash storage_proof_checker" where
  "read_and_decode_outbound_lane_data B lane_id storage =
     map_prod (map_sum OutboundLaneStorage id) id
       (read_and_decode_opt_value (mb_trie B) (mb_decode_outbound_lane_data B) (mb_outbound_key B lane_id) storage)"

definition read_and_decode_message_payload ::
  "('o, 'hash, 'acc, 'x) message_bridge \<Rightarrow> message_key \<Rightarrow> 'hash storage_proof_checker \<Rightarrow>
     (runtime_messages_error + message_payload) \<times> 'hash storage_proof_checker" where
  "read_and_decode_message_payload B key storage =
     map_prod (map_sum MessageStorage id) id
       (read_and_decode_mandatory_value (mb_trie B) (mb_decode_message_payload B)
          (mb_message_key B (mk_lane_id key) (mk_nonce key)) storage)"

text \<open>The loop over the claimed nonces; the first error ends it.\<close>

fun read_messages ::
  "('o, 'hash, 'acc, 'x) message_bridge \<Rightarrow> lane_id \<Rightarrow> message_nonce list \<Rightarrow> 'hash storage_proof_checker \<Rightarrow>
     (runtime_messages_error + message list) \<times> 'hash storage_proof_checker" where
  "read_messages B lane [] storage = (Inr [], storage)"
| "read_messages B lane (nonce # nonces) storage =
     (let message_key = \<lparr>mk_lane_id = lane, mk_nonce = nonce\<rparr>;
          (payload, storage) = read_and_decode_message_payload B message_key storage
      in case payload of
           Inl e \<Rightarrow> (Inl e, storage)
         | Inr payload \<Rightarrow>
             let (messages, storage) = read_messages B lane nonces storage
             in (map_sum id (\<lambda>messages. \<lparr>msg_key = message_key, msg_payload = payload\<rparr> # messages) messages, storage))"

text \<open>The inclusive range of nonces \<open>nonces_start..=nonces_end\<close>.\<close>

definition nonce_range :: "message_nonce \<Rightarrow> message_nonce \<Rightarrow> message_nonce list" where
  "nonce_range nonces_start nonces_end = map of_nat [unat nonces_start..<Suc (unat nonces_end)]"

definition parse_messages_proof ::
  "('o, 'hash, 'acc, 'x) message_bridge \<Rightarrow> lane_id \<Rightarrow> message_nonce \<Rightarrow> message_nonce \<Rightarrow> u32 \<Rightarrow>
     'hash storage_proof_checker \<Rightarrow> runtime_messages_error + message proved_messages" where
  "parse_messages_proof B lane nonces_start nonces_end messages_count storage =
     (let messages_in_the_proof =
            (case checked_sub nonces_end nonces_start of
               Some nonces_difference \<Rightarrow>
                 let messages_in_the_proof = saturating_add nonces_difference 1
                 in if messages_in_the_proof \<noteq> ucast messages_count then Inl MessagesCountMismatch
                    else Inr messages_in_the_proof
             | None \<Rightarrow> Inr 0)
      in case messages_in_the_proof of
           Inl e \<Rightarrow> Inl e
         | Inr _ \<Rightarrow>
             let (messages, storage) = read_messages B lane (nonce_range nonces_start nonces_end) storage
             in case messages of
                  Inl e \<Rightarrow> Inl e
                | Inr messages \<Rightarrow>
                    let (lane_state, storage) = read_and_decode_outbound_lane_data B lane storage
                    in case lane_state of
                         Inl e \<Rightarrow> Inl e
                       | Inr lane_state \<Rightarrow>
                           if lane_state = None \<and> messages = [] then Inl EmptyMessageProof
                           else case ensure_no_unused_nodes storage of
                                  Inl e \<Rightarrow> Inl (MsgStorageProof e)
                                | Inr _ \<Rightarrow> Inr (btree_insert lane \<lparr>pm_lane_state = lane_state, pm_messages = messages\<rparr> []))"

definition verify_messages_proof ::
  "('o, 'hash, 'acc, 'x) message_bridge \<Rightarrow> 'hash messages_proof \<Rightarrow> u32 \<Rightarrow> 'x \<Rightarrow>
     runtime_messages_error + message proved_messages" where
  "verify_messages_proof B proof messages_count x =
     (case parse_finalized_storage_proof (mb_trie B) (mb_finalized_header_state_root B x)
             (mp_bridged_header_hash proof) (mp_storage_proof proof)
             (parse_messages_proof B (mp_lane proof) (mp_nonces_start proof) (mp_nonces_end proof) messages_count) of
        Inl e \<Rightarrow> Inl (MsgHeaderChain e)
      | Inr result \<Rightarrow> result)"

section \<open>Dispatch of incoming messages\<close>

record ('loc, 'xcm, 'w) from_bridged_chain_payload =
  fbp_xcm :: "'loc \<times> 'xcm"
  fbp_weight :: "'w option"

text \<open>
  Decoding a payload: a compact length that is skipped, then the location and the program. The
  decoders return the rest of the input.
\<close>

definition from_bridged_chain_payload_decode ::
  "(bytes \<Rightarrow> 'e + u32 \<times> bytes) \<Rightarrow> (bytes \<Rightarrow> 'e + ('loc \<times> 'xcm) \<times> bytes) \<Rightarrow> bytes \<Rightarrow>
     'e + ('loc, 'xcm, 'w) from_bridged_chain_payload \<times> bytes" where
  "from_bridged_chain_payload_decode decode_compact decode_xcm_with_depth_limit input =
     (case decode_compact input of
        Inl e \<Rightarrow> Inl e
      | Inr (_, input) \<Rightarrow>
          (case decode_xcm_with_depth_limit input of
             Inl e \<Rightarrow> Inl e
           | Inr (xcm, input) \<Rightarrow> Inr (\<lparr>fbp_xcm = xcm, fbp_weight = None\<rparr>, input)))"

definition from_bridged_chain_payload_from :: "'loc \<times> 'xcm \<Rightarrow> ('loc, 'xcm, 'w) from_bridged_chain_payload" where
  "from_bridged_chain_payload_from xcm = \<lparr>fbp_xcm = xcm, fbp_weight = None\<rparr>"

text \<open>The weigher may change the program it weighs.\<close>

definition xcm_dispatch_weight ::
  "'w weight_ops \<Rightarrow> ('xcm \<Rightarrow> (unit + 'w) \<times> 'xcm) \<Rightarrow>
     ('e + ('loc, 'xcm, 'w) from_bridged_chain_payload) dispatch_message \<Rightarrow>
     'w \<times> ('e + ('loc, 'xcm, 'w) from_bridged_chain_payload) dispatch_message" where
  "xcm_dispatch_weight W xcm_weigher message =
     (case dmd_payload (dmsg_data message) of
        Inr payload \<Rightarrow>
          (let (location, program) = fbp_xcm payload;
               (weight, program) = xcm_weigher program;
               weight = (case weight of Inr weight \<Rightarrow> weight | Inl _ \<Rightarrow> w_zero W)
           in (weight, message\<lparr>dmsg_data := (dmsg_data message)\<lparr>dmd_payload :=
                 Inr (payload\<lparr>fbp_xcm := (location, program), fbp_weight := Some weight\<rparr>)\<rparr>\<rparr>))
      | Inl _ \<Rightarrow> (w_zero W, message))"

definition xcm_dispatch ::
  "'w weight_ops \<Rightarrow> ('loc \<Rightarrow> 'xcm \<Rightarrow> 'xcm_hash \<Rightarrow> 'w \<Rightarrow> 'w \<Rightarrow> 'x \<Rightarrow> 'outcome \<times> 'x) \<Rightarrow> (bytes \<Rightarrow> 'xcm_hash) \<Rightarrow> 'w \<Rightarrow>
     'acc \<Rightarrow> ('e + ('loc, 'xcm, 'w) from_bridged_chain_payload) dispatch_message \<Rightarrow> 'x \<Rightarrow>
     (unit, 'w) message_dispatch_result \<times> 'x" where
  "xcm_dispatch W execute_xcm_in_credit blake2_256 weight_credit relayer message x =
     (let x = (case dmd_payload (dmsg_data message) of
                 Inl _ \<Rightarrow> x
               | Inr payload \<Rightarrow>
                   let (location, program) = fbp_xcm payload;
                       hash = blake2_256 (message_key_encode (dmsg_key message));
                       weight_limit = (case fbp_weight payload of Some weight \<Rightarrow> weight | None \<Rightarrow> w_zero W)
                   in snd (execute_xcm_in_credit location program hash weight_limit weight_credit x))
      in (\<lparr>unspent_weight = w_zero W, dispatch_level_result = ()\<rparr>, x))"

section \<open>Sending XCM over a lane\<close>

datatype send_error = MissingArgument | NotApplicable | Transport

text \<open>The arguments are taken out of the options; the results are the options after the call.\<close>

definition xcm_bridge_validate ::
  "('loc \<Rightarrow> bool) \<Rightarrow> 'loc \<Rightarrow> ('loc \<times> 'xcm \<Rightarrow> bytes) \<Rightarrow> 'loc option \<Rightarrow> 'xcm option \<Rightarrow>
     (send_error + bytes \<times> nat) \<times> 'loc option \<times> 'xcm option" where
  "xcm_bridge_validate verify_destination route encode dest msg =
     (case dest of
        None \<Rightarrow> (Inl MissingArgument, None, msg)
      | Some d \<Rightarrow>
          if \<not> verify_destination d then (Inl NotApplicable, Some d, msg)
          else (case msg of
                  None \<Rightarrow> (Inl MissingArgument, None, None)
                | Some msg \<Rightarrow> (Inr (encode (route, msg), 1000000), None, None)))"

definition xcm_bridge_deliver ::
  "('o \<Rightarrow> lane_id \<Rightarrow> bytes \<Rightarrow> 's \<Rightarrow> ('e + 'w send_message_artifacts \<times> 's) option) \<Rightarrow> 'o \<Rightarrow> lane_id \<Rightarrow>
     (bytes \<Rightarrow> 'xcm_hash) \<Rightarrow> bytes \<Rightarrow> 's \<Rightarrow> (send_error + 'xcm_hash \<times> 's) option" where
  "xcm_bridge_deliver message_sender origin lane blake2_256 ticket s =
     map_option (map_sum (\<lambda>_. Transport)
         (\<lambda>(artifacts, s). (blake2_256 (message_key_encode \<lparr>mk_lane_id = lane, mk_nonce = sma_nonce artifacts\<rparr>), s)))
       (message_sender origin lane ticket s)"

end
