(* ===== verification/Runtime_Messages_Properties.thy ===== *)
theory Runtime_Messages_Properties
  imports Runtime_Messages Messages_Invariants Sample_Trie
begin

text \<open>
  Correctness of the proof verification of a message bridge: what it accepts is the state of the
  messages pallet of the bridged chain, proofs that are built from that state are accepted, and the
  result is what the messages pallet of this chain relies on.
\<close>

section \<open>The storage of the bridged chain\<close>

text \<open>
  The storage of a chain holds the maps of its messages pallet: a key has a value exactly when the
  map has one, and the value decodes to it.
\<close>

definition stored_as :: "(bytes \<rightharpoonup> bytes) \<Rightarrow> bytes \<Rightarrow> (bytes \<Rightarrow> 'v option) \<Rightarrow> 'v option \<Rightarrow> bool" where
  "stored_as storage key decode value \<longleftrightarrow>
     (case storage key of None \<Rightarrow> value = None | Some v \<Rightarrow> value \<noteq> None \<and> decode v = value)"

definition stores_messages_pallet ::
  "('o, 'hash, 'acc, 'x) message_bridge \<Rightarrow> (bytes \<rightharpoonup> bytes) \<Rightarrow> ('sacc, 'acc, 'd, 'w) messages_state \<Rightarrow> bool" where
  "stores_messages_pallet B storage ms \<longleftrightarrow>
     (\<forall>lane. stored_as storage (mb_outbound_key B lane) (mb_decode_outbound_lane_data B) (ms_outbound_lanes ms lane) \<and>
        stored_as storage (mb_inbound_key B lane) (mb_decode_inbound_lane_data B) (ms_inbound_lanes ms lane) \<and>
        (\<forall>n. stored_as storage (mb_message_key B lane n) (mb_decode_message_payload B) (outbound_message_data ms lane n)))"

lemma stored_asD: "stored_as storage key decode value \<Longrightarrow> storage key = Some v \<Longrightarrow> decode v = Some t \<Longrightarrow> value = Some t"
  by (auto simp: stored_as_def)

lemma stored_asE:
  assumes "stored_as storage key decode (Some t)"
  obtains v where "storage key = Some v" "decode v = Some t"
  using assms by (auto simp: stored_as_def split: option.splits)

lemma stores_messages_palletD:
  assumes "stores_messages_pallet B storage ms"
  shows "storage (mb_message_key B lane n) = Some v \<Longrightarrow> mb_decode_message_payload B v = Some p \<Longrightarrow>
      outbound_message_data ms lane n = Some p"
    and "storage (mb_outbound_key B lane) = Some v \<Longrightarrow> mb_decode_outbound_lane_data B v = Some d \<Longrightarrow>
      ms_outbound_lanes ms lane = Some d"
    and "storage (mb_inbound_key B lane) = Some v \<Longrightarrow> mb_decode_inbound_lane_data B v = Some ld \<Longrightarrow>
      ms_inbound_lanes ms lane = Some ld"
  using assms by (auto simp: stores_messages_pallet_def intro: stored_asD)

section \<open>Accepted proofs\<close>

lemma nonce_range_nonces [simp]:
  "length (nonce_range a b) = (if a \<le> b then Suc (unat b - unat a) else 0)"
  "n \<in> set (nonce_range a b) \<longleftrightarrow> a \<le> n \<and> n \<le> b"
proof -
  show "length (nonce_range a b) = (if a \<le> b then Suc (unat b - unat a) else 0)"
    by (auto simp: nonce_range_def word_le_nat_alt)
  show "n \<in> set (nonce_range a b) \<longleftrightarrow> a \<le> n \<and> n \<le> b"
  proof
    assume "n \<in> set (nonce_range a b)"
    then obtain k where k: "unat a \<le> k" "k \<le> unat b" "n = of_nat k" by (auto simp: nonce_range_def)
    then have "unat n = k" using unat_lt_64 [of b] by (simp add: unat_of_nat_lt)
    then show "a \<le> n \<and> n \<le> b" using k by (simp add: word_le_nat_alt)
  next
    assume "a \<le> n \<and> n \<le> b"
    then have "unat n \<in> set [unat a..<Suc (unat b)]" by (auto simp: word_le_nat_alt)
    moreover have "n = of_nat (unat n)" by simp
    ultimately show "n \<in> set (nonce_range a b)" unfolding nonce_range_def by (metis image_eqI set_map)
  qed
qed

lemma read_messages_ok:
  assumes "trie_laws root_of (mb_trie B)" and "checker_ok root proof st"
    and "read_messages B lane ns st = (result, st')"
  shows "checker_ok root proof st'"
    and "root_of root storage \<Longrightarrow> result = Inr messages \<Longrightarrow>
      map msg_key messages = map (\<lambda>n. \<lparr>mk_lane_id = lane, mk_nonce = n\<rparr>) ns \<and>
      (\<forall>m \<in> set messages. \<exists>v. storage (mb_message_key B lane (mk_nonce (msg_key m))) = Some v \<and>
         mb_decode_message_payload B v = Some (msg_payload m))"
proof -
  have "checker_ok root proof st' \<and> (root_of root storage \<longrightarrow> result = Inr messages \<longrightarrow>
      map msg_key messages = map (\<lambda>n. \<lparr>mk_lane_id = lane, mk_nonce = n\<rparr>) ns \<and>
      (\<forall>m \<in> set messages. \<exists>v. storage (mb_message_key B lane (mk_nonce (msg_key m))) = Some v \<and>
         mb_decode_message_payload B v = Some (msg_payload m)))" for storage messages
    using assms(2,3)
  proof (induction ns arbitrary: st st' result messages)
    case (Cons n ns)
    obtain p st1 where rd: "read_and_decode_mandatory_value (mb_trie B) (mb_decode_message_payload B)
        (mb_message_key B lane n) st = (p, st1)" by fastforce
    note one = read_and_decode_mandatory_value_ok [OF assms(1) Cons.prems(1) rd]
    obtain ms st2 where rest: "read_messages B lane ns st1 = (ms, st2)" by fastforce
    show ?case
    proof (cases p)
      case (Inl e)
      then show ?thesis
        using one Cons.prems(2) rd by (auto simp: read_and_decode_message_payload_def Let_def)
    next
      case (Inr payload)
      then have r: "st' = st2" "result = map_sum id (\<lambda>ms. \<lparr>msg_key = \<lparr>mk_lane_id = lane, mk_nonce = n\<rparr>, msg_payload = payload\<rparr> # ms) ms"
        using Cons.prems(2) rd rest by (auto simp: read_and_decode_message_payload_def Let_def)
      show ?thesis
        using Cons.IH [OF one(1) rest] one(2) Inr by (auto simp: r map_sum_eq_Inr_iff)
    qed
  qed auto
  then show "checker_ok root proof st'"
    and "root_of root storage \<Longrightarrow> result = Inr messages \<Longrightarrow>
      map msg_key messages = map (\<lambda>n. \<lparr>mk_lane_id = lane, mk_nonce = n\<rparr>) ns \<and>
      (\<forall>m \<in> set messages. \<exists>v. storage (mb_message_key B lane (mk_nonce (msg_key m))) = Some v \<and>
         mb_decode_message_payload B v = Some (msg_payload m))" by blast+
qed

lemma read_outbound_lane_ok:
  assumes "trie_laws root_of (mb_trie B)" and "checker_ok root proof st"
    and "read_and_decode_outbound_lane_data B lane st = (result, st')"
  shows "checker_ok root proof st'"
    and "root_of root storage \<Longrightarrow> result = Inr (Some d) \<Longrightarrow>
      \<exists>v. storage (mb_outbound_key B lane) = Some v \<and> mb_decode_outbound_lane_data B v = Some d"
proof -
  obtain r where rd: "read_and_decode_opt_value (mb_trie B) (mb_decode_outbound_lane_data B) (mb_outbound_key B lane) st = (r, st')"
    and result: "result = map_sum OutboundLaneStorage id r"
    using assms(3) unfolding read_and_decode_outbound_lane_data_def by (metis id_apply map_prod_simp prod.exhaust prod.inject)
  note ok = read_and_decode_opt_value_ok [OF assms(1,2) rd]
  show "checker_ok root proof st'" by (rule ok(1))
  show "\<exists>v. storage (mb_outbound_key B lane) = Some v \<and> mb_decode_outbound_lane_data B v = Some d"
    if "root_of root storage" "result = Inr (Some d)"
    using ok(2) [OF that(1)] that(2) by (auto simp: result map_sum_eq_Inr_iff)
qed

text \<open>What an accepted messages proof went through.\<close>

lemma verify_messages_proof_Inr:
  assumes "verify_messages_proof B proof count x = Inr proved"
  obtains root checker messages st lane_state st' where
    "mb_finalized_header_state_root B x (mp_bridged_header_hash proof) = Some root"
    "storage_proof_checker_new (mb_trie B) root (mp_storage_proof proof) = Inr checker"
    "mp_nonces_start proof \<le> mp_nonces_end proof \<Longrightarrow>
      saturating_add (mp_nonces_end proof - mp_nonces_start proof) 1 = ucast count"
    "read_messages B (mp_lane proof) (nonce_range (mp_nonces_start proof) (mp_nonces_end proof)) checker = (Inr messages, st)"
    "read_and_decode_outbound_lane_data B (mp_lane proof) st = (Inr lane_state, st')"
    "lane_state \<noteq> None \<or> messages \<noteq> []" "ensure_no_unused_nodes st' = Inr ()"
    "proved = [(mp_lane proof, \<lparr>pm_lane_state = lane_state, pm_messages = messages\<rparr>)]"
proof -
  from assms have "parse_finalized_storage_proof (mb_trie B) (mb_finalized_header_state_root B x)
     (mp_bridged_header_hash proof) (mp_storage_proof proof)
     (parse_messages_proof B (mp_lane proof) (mp_nonces_start proof) (mp_nonces_end proof) count) = Inr (Inr proved)"
    by (simp add: verify_messages_proof_def split: sum.splits)
  then obtain root checker where fin: "mb_finalized_header_state_root B x (mp_bridged_header_hash proof) = Some root"
    and new: "storage_proof_checker_new (mb_trie B) root (mp_storage_proof proof) = Inr checker"
    and parse: "Inr proved = parse_messages_proof B (mp_lane proof) (mp_nonces_start proof) (mp_nonces_end proof) count checker"
    by (rule parse_finalized_storage_proof_Inr)
  obtain ms st where rm: "read_messages B (mp_lane proof) (nonce_range (mp_nonces_start proof) (mp_nonces_end proof)) checker = (ms, st)"
    by fastforce
  obtain ls st' where ro: "read_and_decode_outbound_lane_data B (mp_lane proof) st = (ls, st')" by fastforce
  from parse rm ro obtain messages lane_state where
      "ms = Inr messages" "ls = Inr lane_state" "lane_state \<noteq> None \<or> messages \<noteq> []"
      "ensure_no_unused_nodes st' = Inr ()"
      "proved = [(mp_lane proof, \<lparr>pm_lane_state = lane_state, pm_messages = messages\<rparr>)]"
    by (auto simp: parse_messages_proof_def Let_def split: sum.splits if_splits option.splits)
  moreover have "saturating_add (mp_nonces_end proof - mp_nonces_start proof) 1 = ucast count"
    if "mp_nonces_start proof \<le> mp_nonces_end proof"
    using parse that by (auto simp: parse_messages_proof_def Let_def checked_sub_def split: if_splits)
  ultimately show thesis using that [OF fin new] rm ro by blast
qed

text \<open>The count of an accepted proof is the size of the range.\<close>

lemma messages_count_exact:
  assumes "saturating_add (e - s) 1 = (ucast (count :: u32) :: u64)" and "s \<le> e"
  shows "Suc (unat e - unat s) = unat count"
proof -
  have lt: "unat count < 2 ^ 32" using unsigned_less [of count] by simp
  then have "unat count < 2 ^ 64" by simp
  then have c: "unat (ucast count :: u64) = unat count" "unat count < 2 ^ 32"
    using lt by (simp_all add: unsigned_ucast_eq take_bit_nat_eq_self_iff)
  have d: "unat (e - s) = unat e - unat s" by (rule unat_sub_le [OF assms(2)])
  have "unat (saturating_add (e - s) 1) = unat count" using assms(1) c by simp
  then show ?thesis using c(2) d by (auto simp: unat_saturating_add split: if_splits)
qed

text \<open>What is accepted is the state of the messages pallet of the bridged chain.\<close>

lemma verified_messages:
  assumes "trie_laws root_of (mb_trie B)" and "verify_messages_proof B proof count x = Inr proved"
    and "mb_finalized_header_state_root B x (mp_bridged_header_hash proof) = Some root" and "root_of root storage"
    and "stores_messages_pallet B storage src"
  shows "distinct (mp_storage_proof proof) \<and> (\<exists>messages lane_state.
    proved = [(mp_lane proof, \<lparr>pm_lane_state = lane_state, pm_messages = messages\<rparr>)] \<and>
    map msg_key messages = map (\<lambda>n. \<lparr>mk_lane_id = mp_lane proof, mk_nonce = n\<rparr>)
      (nonce_range (mp_nonces_start proof) (mp_nonces_end proof)) \<and>
    (\<forall>m \<in> set messages. outbound_message_data src (mp_lane proof) (mk_nonce (msg_key m)) = Some (msg_payload m)) \<and>
    (lane_state \<noteq> None \<longrightarrow> ms_outbound_lanes src (mp_lane proof) = lane_state) \<and>
    (messages \<noteq> [] \<or> lane_state \<noteq> None) \<and> (messages \<noteq> [] \<longrightarrow> length messages = unat count))"
  using assms(2)
proof (cases rule: verify_messages_proof_Inr)
  case (1 root' checker messages st lane_state st')
  then have [simp]: "root' = root" using assms(3) by simp
  note new = checker_new_ok(1) [OF 1(2)]
  note rm = read_messages_ok [OF assms(1) new 1(4)]
  note ro = read_outbound_lane_ok [OF assms(1) rm(1) 1(5)]
  have root: "root_of root' storage" using assms(4) by simp
  have keys: "map msg_key messages = map (\<lambda>n. \<lparr>mk_lane_id = mp_lane proof, mk_nonce = n\<rparr>)
      (nonce_range (mp_nonces_start proof) (mp_nonces_end proof))"
    using rm(2) [OF root refl] by simp
  have "length messages = length (nonce_range (mp_nonces_start proof) (mp_nonces_end proof))"
    using arg_cong [where f = length, OF keys] by simp
  then have "length messages = unat count" if "messages \<noteq> []"
    using that messages_count_exact 1(3) by (auto split: if_splits)
  moreover have "outbound_message_data src (mp_lane proof) (mk_nonce (msg_key m)) = Some (msg_payload m)" if "m \<in> set messages" for m
    using rm(2) [OF root refl] that by (blast intro: stores_messages_palletD(1) [OF assms(5)])
  moreover have "ms_outbound_lanes src (mp_lane proof) = lane_state" if "lane_state \<noteq> None"
  proof -
    from that obtain d where d: "lane_state = Some d" by blast
    show ?thesis
      using ro(2) [OF root, of d] stores_messages_palletD(2) [OF assms(5)] by (auto simp: d)
  qed
  ultimately show ?thesis using 1(6,8) keys new by (auto simp: checker_ok_def)
qed

lemma verified_delivery:
  assumes "trie_laws root_of (mb_trie B)" and "verify_messages_delivery_proof B proof x = Inr (lane, ld)"
    and "mb_finalized_header_state_root B x (mdp_bridged_header_hash proof) = Some root" and "root_of root storage"
    and "stores_messages_pallet B storage src"
  shows "lane = mdp_lane proof \<and> ms_inbound_lanes src lane = Some ld \<and> distinct (mdp_storage_proof proof)"
proof -
  from assms(2) have "parse_finalized_storage_proof (mb_trie B) (mb_finalized_header_state_root B x)
     (mdp_bridged_header_hash proof) (mdp_storage_proof proof) (parse_delivery_proof B (mdp_lane proof)) = Inr (Inr (lane, ld))"
    by (simp add: verify_messages_delivery_proof_def split: sum.splits)
  then obtain checker where new: "storage_proof_checker_new (mb_trie B) root (mdp_storage_proof proof) = Inr checker"
    and parse: "Inr (lane, ld) = parse_delivery_proof B (mdp_lane proof) checker"
    using assms(3) by (auto elim!: parse_finalized_storage_proof_Inr)
  obtain r st where rd: "read_and_decode_mandatory_value (mb_trie B) (mb_decode_inbound_lane_data B)
      (mb_inbound_key B (mdp_lane proof)) checker = (r, st)" by fastforce
  with parse have r: "lane = mdp_lane proof" "r = Inr ld"
    by (auto simp: parse_delivery_proof_def split: sum.splits)
  note new' = checker_new_ok(1) [OF new]
  have "ms_inbound_lanes src lane = Some ld"
    using read_and_decode_mandatory_value_ok(2) [OF assms(1) new' rd assms(4) r(2)] r(1)
    by (blast intro: stores_messages_palletD(3) [OF assms(5)])
  then show ?thesis using r(1) new' by (simp add: checker_ok_def)
qed

section \<open>Proofs that are built from the storage\<close>

lemma read_messages_complete:
  assumes complete: "trie_complete root_of (mb_trie B) path" and root: "root_of root storage"
    and stored: "stores_messages_pallet B storage src"
    and "spc_root st = root" and "(\<Union>n \<in> set ns. path root (mb_message_key B lane n)) \<subseteq> spc_db st"
    and "\<forall>n \<in> set ns. outbound_message_data src lane n \<noteq> None"
  shows "\<exists>recorded. read_messages B lane ns st =
      (Inr (map (\<lambda>n. \<lparr>msg_key = \<lparr>mk_lane_id = lane, mk_nonce = n\<rparr>, msg_payload = the (outbound_message_data src lane n)\<rparr>) ns),
       st\<lparr>spc_recorder := spc_recorder st @ recorded\<rparr>) \<and>
    set recorded = (\<Union>n \<in> set ns. path root (mb_message_key B lane n))"
  using assms(4-6)
proof (induction ns arbitrary: st)
  case Nil
  then show ?case by (intro exI [of _ "[]"]) simp
next
  case (Cons n ns)
  from Cons.prems(3) obtain payload where p: "outbound_message_data src lane n = Some payload" by auto
  have "stored_as storage (mb_message_key B lane n) (mb_decode_message_payload B) (Some payload)"
    using stored p by (metis stores_messages_pallet_def)
  then obtain v where v: "storage (mb_message_key B lane n) = Some v" "mb_decode_message_payload B v = Some payload"
    by (rule stored_asE)
  have sub: "path root (mb_message_key B lane n) \<subseteq> spc_db st" using Cons.prems(2) by auto
  obtain r1 where r1: "read_value (mb_trie B) (mb_message_key B lane n) st =
      (Inr (storage (mb_message_key B lane n)), st\<lparr>spc_recorder := spc_recorder st @ r1\<rparr>)"
    "set r1 = path root (mb_message_key B lane n)"
    by (rule read_value_complete [OF complete root Cons.prems(1) sub])
  have "\<exists>recorded. read_messages B lane ns (st\<lparr>spc_recorder := spc_recorder st @ r1\<rparr>) =
      (Inr (map (\<lambda>n. \<lparr>msg_key = \<lparr>mk_lane_id = lane, mk_nonce = n\<rparr>, msg_payload = the (outbound_message_data src lane n)\<rparr>) ns),
       st\<lparr>spc_recorder := spc_recorder st @ r1\<rparr>\<lparr>spc_recorder := spc_recorder (st\<lparr>spc_recorder := spc_recorder st @ r1\<rparr>) @ recorded\<rparr>) \<and>
    set recorded = (\<Union>n \<in> set ns. path root (mb_message_key B lane n))"
    by (rule Cons.IH) (use Cons.prems in auto)
  then obtain r2 where r2: "read_messages B lane ns (st\<lparr>spc_recorder := spc_recorder st @ r1\<rparr>) =
      (Inr (map (\<lambda>n. \<lparr>msg_key = \<lparr>mk_lane_id = lane, mk_nonce = n\<rparr>, msg_payload = the (outbound_message_data src lane n)\<rparr>) ns),
       st\<lparr>spc_recorder := spc_recorder st @ r1 @ r2\<rparr>)"
    "set r2 = (\<Union>n \<in> set ns. path root (mb_message_key B lane n))"
    by auto
  show ?case
    by (rule exI [of _ "r1 @ r2"])
       (simp add: read_and_decode_message_payload_def read_and_decode_mandatory_value_def read_and_decode_value_def
          r1 r2 v p Let_def)
qed

lemma read_outbound_lane_complete:
  assumes laws: "trie_laws root_of (mb_trie B)" and complete: "trie_complete root_of (mb_trie B) path"
    and root: "root_of root storage" and stored: "stores_messages_pallet B storage src" and st: "spc_root st = root"
  obtains recorded lane_state where "read_and_decode_outbound_lane_data B lane st =
      (Inr lane_state, st\<lparr>spc_recorder := spc_recorder st @ recorded\<rparr>)"
    "set recorded \<subseteq> spc_db st" "path root (mb_outbound_key B lane) \<subseteq> spc_db st \<Longrightarrow>
      lane_state = ms_outbound_lanes src lane \<and> set recorded = path root (mb_outbound_key B lane)"
proof -
  let ?key = "mb_outbound_key B lane"
  obtain r recorded where rd: "tr_read (mb_trie B) (spc_db st) (spc_root st) ?key = (r, recorded)" by fastforce
  have sub: "set recorded \<subseteq> spc_db st" using laws rd unfolding trie_laws_def by (metis snd_conv)
  have val: "r = Inr v \<Longrightarrow> v = storage ?key" for v
    using laws rd root st unfolding trie_laws_def by (metis fst_conv)
  have full: "r = Inr (storage ?key) \<and> set recorded = path root ?key" if "path root ?key \<subseteq> spc_db st"
    using complete root st rd that unfolding trie_complete_def by (metis fst_conv snd_conv)
  have as: "stored_as storage ?key (mb_decode_outbound_lane_data B) (ms_outbound_lanes src lane)"
    using stored by (simp add: stores_messages_pallet_def)
  show thesis
  proof (cases r)
    case (Inl e)
    show thesis
      by (rule that [of None recorded]) (use Inl rd sub full in \<open>auto simp: read_and_decode_outbound_lane_data_def
          read_and_decode_opt_value_def read_and_decode_value_def read_value_def\<close>)
  next
    case (Inr v)
    show thesis
      by (rule that [of "ms_outbound_lanes src lane" recorded])
         (use Inr rd sub full as val [OF Inr] in \<open>auto simp: read_and_decode_outbound_lane_data_def stored_as_def
          read_and_decode_opt_value_def read_and_decode_value_def read_value_def split: option.splits\<close>)
  qed
qed

section \<open>An example\<close>

text \<open>
  The state of this chain determines the one finalized header of the bridged chain, if there is any;
  in \<open>sample_bridge\<close> it is the storage below that header.
\<close>

definition sample_bridge_for :: "('x \<Rightarrow> sample_hash option) \<Rightarrow> (nat option, sample_hash, nat, 'x) message_bridge" where
  "sample_bridge_for root = \<lparr>mb_bridged_messages_pallet_name = ''Bridge'', mb_trie = sample_trie,
     mb_finalized_header_state_root = (\<lambda>x hash. if hash = [] then root x else None),
     mb_twox_128 = (\<lambda>bs. [of_nat (length bs)]), mb_blake2_128_concat = id,
     mb_decode_message_payload = Some,
     mb_decode_outbound_lane_data = (\<lambda>v. case v of
         [a, b, c] \<Rightarrow> Some \<lparr>oldest_unpruned_nonce = ucast a, latest_received_nonce = ucast b, latest_generated_nonce = ucast c\<rparr>
       | _ \<Rightarrow> None),
     mb_decode_inbound_lane_data = (\<lambda>v. case v of
         [r, b, e] \<Rightarrow> Some \<lparr>relayers = [\<lparr>ur_relayer = unat r, ur_messages = \<lparr>dm_begin = ucast b, dm_end = ucast e\<rparr>\<rparr>],
           last_confirmed_nonce = ucast b - 1\<rparr>
       | _ \<Rightarrow> None),
     mb_is_message_accepted = (\<lambda>_ _. True), mb_maximal_pending_messages_at_outbound_lane = 1,
     mb_verify_dispatch_weight = (\<lambda>_. True), mb_bridged_max_extrinsic_size = 10\<rparr>"

abbreviation sample_bridge :: "(nat option, sample_hash, nat, sample_hash) message_bridge" where
  "sample_bridge \<equiv> sample_bridge_for Some"

definition sample_storage :: sample_hash where
  "sample_storage =
     [(mb_message_key sample_bridge (LaneId 0 0 0 1) 1, [7]), (mb_message_key sample_bridge (LaneId 0 0 0 1) 2, [8]),
      (mb_outbound_key sample_bridge (LaneId 0 0 0 1), [1, 0, 2]), (mb_inbound_key sample_bridge (LaneId 0 0 0 1), [5, 1, 2])]"

definition sample_source :: "(nat, nat, unit, u64 \<times> u64) messages_state" where
  "sample_source = empty_messages_state\<lparr>
     ms_outbound_lanes := [LaneId 0 0 0 1 \<mapsto> \<lparr>oldest_unpruned_nonce = 1, latest_received_nonce = 0, latest_generated_nonce = 2\<rparr>],
     ms_outbound_messages := [\<lparr>mk_lane_id = LaneId 0 0 0 1, mk_nonce = 1\<rparr> \<mapsto> [7], \<lparr>mk_lane_id = LaneId 0 0 0 1, mk_nonce = 2\<rparr> \<mapsto> [8]],
     ms_inbound_lanes := [LaneId 0 0 0 1 \<mapsto> \<lparr>relayers = [\<lparr>ur_relayer = 5, ur_messages = \<lparr>dm_begin = 1, dm_end = 2\<rparr>\<rparr>],
       last_confirmed_nonce = 0\<rparr>]\<rparr>"

lemma sample_keys [simp]:
  "mb_message_key (sample_bridge_for root) lane n = 6 # 16 # message_key_encode \<lparr>mk_lane_id = lane, mk_nonce = n\<rparr>"
  "mb_outbound_key (sample_bridge_for root) lane = 6 # 13 # lane_id_encode lane"
  "mb_inbound_key (sample_bridge_for root) lane = 6 # 12 # lane_id_encode lane"
  by (simp_all add: sample_bridge_for_def message_storage_key_def outbound_lane_data_key_def inbound_lane_data_key_def
      storage_map_final_key_def as_bytes_def OUTBOUND_MESSAGES_MAP_NAME_def OUTBOUND_LANES_MAP_NAME_def INBOUND_LANES_MAP_NAME_def)

lemma sample_stored: "stores_messages_pallet sample_bridge (map_of sample_storage) sample_source"
  by (auto simp: stores_messages_pallet_def stored_as_def sample_storage_def sample_source_def empty_messages_state_def
      outbound_message_data_def lane_id_encode_eq) (simp_all add: sample_bridge_for_def)

lemma sample_bridge_laws:
  "trie_laws sample_root_of (mb_trie sample_bridge)" "trie_complete sample_root_of (mb_trie sample_bridge) (\<lambda>_ key. {key})"
  "mb_finalized_header_state_root sample_bridge sample_storage [] = Some sample_storage"
  "sample_root_of sample_storage (map_of sample_storage)"
  using sample_trie_laws sample_trie_complete by (simp_all add: sample_bridge_for_def sample_root_of_def)

definition sample_messages_proof :: "sample_hash messages_proof" where
  "sample_messages_proof = \<lparr>mp_bridged_header_hash = [], mp_storage_proof =
       [mb_message_key sample_bridge (LaneId 0 0 0 1) 1, mb_message_key sample_bridge (LaneId 0 0 0 1) 2,
        mb_outbound_key sample_bridge (LaneId 0 0 0 1)],
     mp_lane = LaneId 0 0 0 1, mp_nonces_start = 1, mp_nonces_end = 2\<rparr>"

lemma sample_range: "nonce_range 1 2 = [1, 2]"
  by (simp add: nonce_range_def upt_rec)

lemmas proof_eval = parse_finalized_storage_proof_def storage_proof_checker_new_def read_and_decode_mandatory_value_def
  read_and_decode_value_def read_value_def ensure_no_unused_nodes_def sample_bridge_for_def sample_trie_def sample_storage_def
  message_storage_key_def outbound_lane_data_key_def inbound_lane_data_key_def
  storage_map_final_key_def as_bytes_def OUTBOUND_MESSAGES_MAP_NAME_def OUTBOUND_LANES_MAP_NAME_def INBOUND_LANES_MAP_NAME_def
  message_key_encode_def Let_def

section \<open>Properties\<close>

text \<open>
  C4: accepted messages are the messages of the bridged chain. A verified messages proof is for a
  finalized header, and for the state of the messages pallet below that header it yields, for the
  lane of the proof only, exactly the stored messages with the claimed nonces in order, and the
  stored state of the lane if it is part of the proof. It declares as many messages as it has, and
  it is neither empty nor has it unused or duplicate nodes.
\<close>

theorem verified_messages_authentic:
  assumes "trie_laws root_of (mb_trie B)" and "verify_messages_proof B proof count x = Inr proved"
    and "mb_finalized_header_state_root B x (mp_bridged_header_hash proof) = Some root" and "root_of root storage"
    and "stores_messages_pallet B storage src"
  shows "distinct (mp_storage_proof proof) \<and> (\<exists>messages lane_state.
    proved = [(mp_lane proof, \<lparr>pm_lane_state = lane_state, pm_messages = messages\<rparr>)] \<and>
    map msg_key messages = map (\<lambda>n. \<lparr>mk_lane_id = mp_lane proof, mk_nonce = n\<rparr>)
      (nonce_range (mp_nonces_start proof) (mp_nonces_end proof)) \<and>
    (\<forall>m \<in> set messages. outbound_message_data src (mp_lane proof) (mk_nonce (msg_key m)) = Some (msg_payload m)) \<and>
    (lane_state \<noteq> None \<longrightarrow> ms_outbound_lanes src (mp_lane proof) = lane_state) \<and>
    (messages \<noteq> [] \<or> lane_state \<noteq> None) \<and> (messages \<noteq> [] \<longrightarrow> length messages = unat count))"
  using assms by (rule verified_messages)

lemma sample_verified: "\<exists>proved. verify_messages_proof sample_bridge sample_messages_proof 2 sample_storage = Inr proved"
  by (simp add: proof_eval verify_messages_proof_def parse_messages_proof_def sample_messages_proof_def checked_sub_def
      saturating_add_def sample_range read_and_decode_message_payload_def read_and_decode_outbound_lane_data_def
      read_and_decode_opt_value_def)

theorem verified_messages_authentic_witness:
  "\<exists>lane_state messages. verify_messages_proof sample_bridge sample_messages_proof 2 sample_storage =
      Inr [(LaneId 0 0 0 1, \<lparr>pm_lane_state = lane_state, pm_messages = messages\<rparr>)] \<and> length messages = 2 \<and>
    (\<forall>m \<in> set messages. outbound_message_data sample_source (LaneId 0 0 0 1) (mk_nonce (msg_key m)) = Some (msg_payload m))"
proof -
  obtain proved where run: "verify_messages_proof sample_bridge sample_messages_proof 2 sample_storage = Inr proved"
    using sample_verified by blast
  have fin: "mb_finalized_header_state_root sample_bridge sample_storage (mp_bridged_header_hash sample_messages_proof) = Some sample_storage"
    by (simp add: sample_messages_proof_def sample_bridge_laws)
  have range: "mp_lane sample_messages_proof = LaneId 0 0 0 1"
    "nonce_range (mp_nonces_start sample_messages_proof) (mp_nonces_end sample_messages_proof) = [1, 2]"
    by (simp_all add: sample_messages_proof_def sample_range)
  obtain messages lane_state where m: "proved = [(LaneId 0 0 0 1, \<lparr>pm_lane_state = lane_state, pm_messages = messages\<rparr>)]"
    "map msg_key messages = map (\<lambda>n. \<lparr>mk_lane_id = LaneId 0 0 0 1, mk_nonce = n\<rparr>) [1, 2]"
    "\<forall>m \<in> set messages. outbound_message_data sample_source (LaneId 0 0 0 1) (mk_nonce (msg_key m)) = Some (msg_payload m)"
    using verified_messages_authentic [OF sample_bridge_laws(1) run fin sample_bridge_laws(4) sample_stored, THEN conjunct2]
    unfolding range by blast
  have "length messages = 2" using arg_cong [where f = length, OF m(2)] by simp
  then show ?thesis using run m by blast
qed

text \<open>
  C19: an accepted delivery proof yields the inbound lane of the bridged chain, as the messages pallet
  of that chain has stored it below a finalized header.
\<close>

theorem verified_delivery_authentic:
  assumes "trie_laws root_of (mb_trie B)" and "verify_messages_delivery_proof B proof x = Inr (lane, ld)"
    and "mb_finalized_header_state_root B x (mdp_bridged_header_hash proof) = Some root" and "root_of root storage"
    and "stores_messages_pallet B storage src"
  shows "lane = mdp_lane proof \<and> ms_inbound_lanes src lane = Some ld \<and> distinct (mdp_storage_proof proof)"
  using assms by (rule verified_delivery)

theorem verified_delivery_authentic_witness:
  "\<exists>ld. verify_messages_delivery_proof sample_bridge \<lparr>mdp_bridged_header_hash = [],
       mdp_storage_proof = [mb_inbound_key sample_bridge (LaneId 0 0 0 1)], mdp_lane = LaneId 0 0 0 1\<rparr> sample_storage =
       Inr (LaneId 0 0 0 1, ld) \<and> ms_inbound_lanes sample_source (LaneId 0 0 0 1) = Some ld"
proof -
  let ?p = "\<lparr>mdp_bridged_header_hash = [], mdp_storage_proof = [mb_inbound_key sample_bridge (LaneId 0 0 0 1)],
    mdp_lane = LaneId 0 0 0 1\<rparr> :: sample_hash messages_delivery_proof"
  obtain ld where run: "verify_messages_delivery_proof sample_bridge ?p sample_storage = Inr (LaneId 0 0 0 1, ld)"
    by (simp add: proof_eval parse_delivery_proof_def verify_messages_delivery_proof_def)
  have fin: "mb_finalized_header_state_root sample_bridge sample_storage (mdp_bridged_header_hash ?p) = Some sample_storage"
    by (simp add: sample_bridge_laws)
  show ?thesis
    using run verified_delivery_authentic [OF sample_bridge_laws(1) run fin sample_bridge_laws(4) sample_stored] by blast
qed

text \<open>
  C38: proofs that are built from the storage are accepted. For any nonempty range of stored messages,
  a proof with the nodes on the paths to the messages, and optionally to the state of the lane, is
  accepted and yields exactly these messages, and the state of the lane if it was included.
\<close>

theorem honest_messages_proof_accepted:
  assumes laws: "trie_laws root_of (mb_trie B)" and complete: "trie_complete root_of (mb_trie B) path"
    and fin: "mb_finalized_header_state_root B x hash = Some root" and root: "root_of root storage"
    and stored: "stores_messages_pallet B storage src"
    and range: "a \<le> b" "unat count = Suc (unat b - unat a)"
    and messages: "\<forall>n \<in> set (nonce_range a b). outbound_message_data src lane n \<noteq> None"
    and nodes: "distinct nodes" "set nodes = (\<Union>n \<in> set (nonce_range a b). path root (mb_message_key B lane n)) \<union>
      (if with_state then path root (mb_outbound_key B lane) else {})"
  shows "\<exists>lane_state. verify_messages_proof B \<lparr>mp_bridged_header_hash = hash, mp_storage_proof = nodes, mp_lane = lane,
      mp_nonces_start = a, mp_nonces_end = b\<rparr> count x =
      Inr [(lane, \<lparr>pm_lane_state = lane_state, pm_messages =
        map (\<lambda>n. \<lparr>msg_key = \<lparr>mk_lane_id = lane, mk_nonce = n\<rparr>, msg_payload = the (outbound_message_data src lane n)\<rparr>)
          (nonce_range a b)\<rparr>)] \<and>
    (with_state \<longrightarrow> lane_state = ms_outbound_lanes src lane)"
proof -
  let ?st = "\<lparr>spc_proof_nodes_count = length nodes, spc_root = root, spc_db = set nodes, spc_recorder = []\<rparr>"
  let ?ns = "nonce_range a b"
  have ne: "?ns \<noteq> []" using range(1) by (metis Suc_neq_Zero length_0_conv nonce_range_nonces(1))
  then obtain n where "n \<in> set ?ns" by (meson list.set_sel(1))
  then have "path root (mb_message_key B lane n) \<subseteq> set nodes" using nodes(2) by auto
  then have "tr_contains (mb_trie B) (set nodes) root" using complete root by (metis trie_complete_def)
  then have new: "storage_proof_checker_new (mb_trie B) root nodes = Inr ?st"
    using nodes(1) by (simp add: storage_proof_checker_new_def Let_def distinct_card)
  obtain r1 where r1: "read_messages B lane ?ns ?st =
      (Inr (map (\<lambda>n. \<lparr>msg_key = \<lparr>mk_lane_id = lane, mk_nonce = n\<rparr>, msg_payload = the (outbound_message_data src lane n)\<rparr>) ?ns),
       ?st\<lparr>spc_recorder := r1\<rparr>)" "set r1 = (\<Union>n \<in> set ?ns. path root (mb_message_key B lane n))"
    using read_messages_complete [OF complete root stored, where st = ?st and ns = ?ns and lane = lane] messages nodes(2) by auto
  obtain r2 lane_state where r2: "read_and_decode_outbound_lane_data B lane (?st\<lparr>spc_recorder := r1\<rparr>) =
      (Inr lane_state, ?st\<lparr>spc_recorder := r1 @ r2\<rparr>)" "set r2 \<subseteq> set nodes"
    "path root (mb_outbound_key B lane) \<subseteq> set nodes \<Longrightarrow>
      lane_state = ms_outbound_lanes src lane \<and> set r2 = path root (mb_outbound_key B lane)"
    by (rule read_outbound_lane_complete [OF laws complete root stored, where st = "?st\<lparr>spc_recorder := r1\<rparr>" and lane = lane]) auto
  have "set (r1 @ r2) = set nodes" using r1(2) r2(2,3) nodes(2) by (cases with_state) auto
  then have unused: "ensure_no_unused_nodes (?st\<lparr>spc_recorder := r1 @ r2\<rparr>) = Inr ()"
    using nodes(1) by (simp add: ensure_no_unused_nodes_def Let_def distinct_card)
  have "unat count < 2 ^ 32" using unsigned_less [of count] by simp
  then have "unat (ucast count :: u64) = unat count" "Suc (unat (b - a)) = unat count"
    using range unat_sub_le [OF range(1)] by (simp_all add: unsigned_ucast_eq take_bit_nat_eq_self_iff)
  then have "saturating_add (b - a) 1 = ucast count"
    using \<open>unat count < 2 ^ 32\<close> by (simp add: word_unat_eq_iff unat_saturating_add)
  then have "verify_messages_proof B \<lparr>mp_bridged_header_hash = hash, mp_storage_proof = nodes, mp_lane = lane,
      mp_nonces_start = a, mp_nonces_end = b\<rparr> count x =
      Inr [(lane, \<lparr>pm_lane_state = lane_state, pm_messages =
        map (\<lambda>n. \<lparr>msg_key = \<lparr>mk_lane_id = lane, mk_nonce = n\<rparr>, msg_payload = the (outbound_message_data src lane n)\<rparr>) ?ns\<rparr>)]"
    using ne range(1) r1(1) r2(1) unused
    by (simp add: verify_messages_proof_def parse_finalized_storage_proof_def fin new parse_messages_proof_def checked_sub_def)
  moreover have "with_state \<longrightarrow> lane_state = ms_outbound_lanes src lane"
    using r2(3) nodes(2) by auto
  ultimately show ?thesis by blast
qed

theorem honest_messages_proof_accepted_witness:
  "\<exists>lane_state. verify_messages_proof sample_bridge sample_messages_proof 2 sample_storage =
      Inr [(LaneId 0 0 0 1, \<lparr>pm_lane_state = lane_state, pm_messages =
        [\<lparr>msg_key = \<lparr>mk_lane_id = LaneId 0 0 0 1, mk_nonce = 1\<rparr>, msg_payload = [7]\<rparr>,
         \<lparr>msg_key = \<lparr>mk_lane_id = LaneId 0 0 0 1, mk_nonce = 2\<rparr>, msg_payload = [8]\<rparr>]\<rparr>)] \<and>
    lane_state = ms_outbound_lanes sample_source (LaneId 0 0 0 1)"
proof -
  have data: "outbound_message_data sample_source (LaneId 0 0 0 1) 1 = Some [7]"
    "outbound_message_data sample_source (LaneId 0 0 0 1) 2 = Some [8]"
    by (simp_all add: outbound_message_data_def sample_source_def)
  show ?thesis
    using honest_messages_proof_accepted [OF sample_bridge_laws sample_stored, of 1 2 2 "LaneId 0 0 0 1"
        "mp_storage_proof sample_messages_proof" True]
    by (simp add: sample_range data sample_messages_proof_def word_le_nat_alt insert_commute)
qed

end
