(* ===== verification/Lane_Protocol.thy ===== *)
theory Lane_Protocol
  imports Runtime_Messages_Properties
begin

text \<open>
  Two chains and the lanes between them. The source chain sends messages and receives delivery
  confirmations, the target chain receives messages, and each of them verifies proofs against headers
  of the other one. Shown is that the target dispatches on every lane exactly the messages that the
  source has sent, once and in order.
\<close>

section \<open>Induction over a delivery transaction\<close>

lemma inbound_lanes_get_update:
  assumes "\<And>lane'. lane' \<noteq> lane \<Longrightarrow> lanes' lane' = lanes lane'"
  shows "inbound_lanes_get lanes' = (inbound_lanes_get lanes)(lane := inbound_lanes_get lanes' lane)"
  using assms by (auto simp: inbound_lanes_get_def fun_eq_iff)

text \<open>
  A predicate on the lanes and the world that is kept by confirming proved nonces, by dispatching a
  proved message with the next nonce and by paying the relayer holds after the transaction.
\<close>

lemma receive_one_message_induct:
  fixes v :: "('r, 'd, 'w, 'x) receive_vars"
  assumes Q: "Q (inbound_lanes_get (ris_inbound_lanes (rv_lane v))) (rv_world v)"
    and co: "ris_coherent (rv_lane v)" "ris_lane_id (rv_lane v) = lane" and key: "dispatch_weight_keeps_key C"
    and deliver: "\<And>f x. Q f x \<Longrightarrow> mk_nonce (dmsg_key m) = last_delivered_nonce (f lane) + 1 \<Longrightarrow>
      Q (f(lane := deliver_data rb (mk_nonce (dmsg_key m)) (f lane)))
        (snd (mc_dispatch C rt \<lparr>dmsg_key = \<lparr>mk_lane_id = lane, mk_nonce = mk_nonce (dmsg_key m)\<rparr>,
           dmsg_data = dmsg_data (snd (mc_dispatch_weight C m))\<rparr> x))"
  shows "Q (inbound_lanes_get (ris_inbound_lanes (rv_lane (receive_one_message C rb rt m v))))
      (rv_world (receive_one_message C rb rt m v)) \<and>
    ris_coherent (rv_lane (receive_one_message C rb rt m v)) \<and>
    ris_lane_id (rv_lane (receive_one_message C rb rt m v)) = lane"
proof (cases rule: receive_one_message_cases [of C rb rt m v])
  case skipped
  then show ?thesis using Q co by simp
next
  case (received mdw m' res unspent)
  let ?v = "receive_one_message C rb rt m v"
  have k: "dmsg_key m' = dmsg_key m" using key received(2) by (metis dispatch_weight_keeps_key_def snd_conv)
  note view = runtime_inbound.receive_message_view [OF co(1) received(4)]
  have id: "ris_lane_id (rv_lane ?v) = lane" using receive_message_keeps_id [OF received(4)] co(2) by simp
  have up: "inbound_lanes_get (ris_inbound_lanes (rv_lane ?v)) =
      (inbound_lanes_get (ris_inbound_lanes (rv_lane v)))(lane := ris_view (rv_lane ?v))"
    unfolding ris_view_def id
    by (rule inbound_lanes_get_update) (use receive_message_other_lanes [OF received(4)] co(2) in auto)
  have old: "inbound_lanes_get (ris_inbound_lanes (rv_lane v)) lane = ris_view (rv_lane v)"
    by (simp add: ris_view_def co(2))
  show ?thesis
  proof (cases "is_dispatched res")
    case False
    then have "ris_view (rv_lane ?v) = ris_view (rv_lane v) \<and> rv_world ?v = rv_world v"
      using view(3) by (auto simp: is_dispatched_def split: if_splits)
    then show ?thesis using Q up old view(1) id by (metis fun_upd_triv)
  next
    case True
    then obtain dr where nonce: "mk_nonce (dmsg_key m) = last_delivered_nonce (ris_view (rv_lane v)) + 1"
      and disp: "mc_dispatch C rt \<lparr>dmsg_key = \<lparr>mk_lane_id = lane, mk_nonce = mk_nonce (dmsg_key m)\<rparr>, dmsg_data = dmsg_data m'\<rparr>
        (rv_world v) = (dr, rv_world ?v)"
      and v': "ris_view (rv_lane ?v) = deliver_data rb (mk_nonce (dmsg_key m)) (ris_view (rv_lane v))"
      using view(3) k co(2) by (auto simp: is_dispatched_def split: if_splits)
    have "Q ((inbound_lanes_get (ris_inbound_lanes (rv_lane v)))(lane := ris_view (rv_lane ?v))) (rv_world ?v)"
      using deliver [OF Q] nonce disp received(2) by (simp add: old v')
    then show ?thesis using up view(1) id by simp
  qed
qed

lemma receive_lane_messages_induct:
  fixes l :: "('acc, 'r, 'd, 'w, 'x) receive_lanes_vars"
  assumes Q: "Q (pallet_inbound_lane_data (rl_state l)) (rl_world l)" and key: "dispatch_weight_keeps_key C"
    and confirm: "\<And>f x out. Q f x \<Longrightarrow> pm_lane_state ld = Some out \<Longrightarrow>
      last_confirmed_nonce (f lane) < latest_received_nonce out \<Longrightarrow>
      latest_received_nonce out \<le> last_delivered_nonce (f lane) \<Longrightarrow>
      Q (f(lane := confirm_data (latest_received_nonce out) (f lane))) x"
    and deliver: "\<And>f x m. Q f x \<Longrightarrow> m \<in> set (pm_messages ld) \<Longrightarrow>
      mk_nonce (dmsg_key m) = last_delivered_nonce (f lane) + 1 \<Longrightarrow>
      Q (f(lane := deliver_data rb (mk_nonce (dmsg_key m)) (f lane)))
        (snd (mc_dispatch C rt \<lparr>dmsg_key = \<lparr>mk_lane_id = lane, mk_nonce = mk_nonce (dmsg_key m)\<rparr>,
           dmsg_data = dmsg_data (snd (mc_dispatch_weight C m))\<rparr> x))"
  shows "Q (pallet_inbound_lane_data (rl_state (receive_lane_messages C rb rt (lane, ld) l)))
      (rl_world (receive_lane_messages C rb rt (lane, ld) l))"
proof -
  let ?v0 = "lane_start_vars C lane (pm_lane_state ld) l"
  have start: "Q (inbound_lanes_get (ris_inbound_lanes (rv_lane ?v0))) (rv_world ?v0) \<and>
    ris_coherent (rv_lane ?v0) \<and> ris_lane_id (rv_lane ?v0) = lane"
  proof -
    let ?s = "snd (ris_data (inbound_lane C lane (rl_state l)))"
    have w: "rv_world ?v0 = rl_world l" by (simp add: lane_start_vars_def Let_def split: prod.split)
    have f: "inbound_lanes_get (ris_inbound_lanes ?s) = pallet_inbound_lane_data (rl_state l)"
      by (simp add: ris_data_inbound_lane pallet_inbound_lane_data_def fun_eq_iff)
    show ?thesis
    proof (cases "pm_lane_state ld")
      case None
      then show ?thesis using Q f w by (simp add: lane_start_vars_simps ris_data_inbound_lane)
    next
      case (Some out)
      obtain res s' where r: "receive_state_update runtime_inbound_storage_ops out ?s = (res, s')" by fastforce
      note view = runtime_inbound.receive_state_update_view [OF ris_data_inbound_lane(1) r]
      have v0: "rv_lane ?v0 = s'" using Some r by (simp add: lane_start_vars_simps)
      have id: "ris_lane_id s' = lane" using view(2) by (simp add: same_inbound_config_def ris_data_inbound_lane)
      have up: "inbound_lanes_get (ris_inbound_lanes s') = (pallet_inbound_lane_data (rl_state l))(lane := ris_view s')"
        unfolding ris_view_def id f [symmetric]
        by (rule inbound_lanes_get_update) (use receive_state_update_other_lanes [OF r] in \<open>auto simp: ris_data_inbound_lane\<close>)
      have old: "ris_view ?s = pallet_inbound_lane_data (rl_state l) lane"
        by (simp add: ris_data_inbound_lane pallet_inbound_lane_data_def)
      have "Q (inbound_lanes_get (ris_inbound_lanes s')) (rl_world l)"
      proof (cases "last_confirmed_nonce (ris_view ?s) < latest_received_nonce out \<and>
          latest_received_nonce out \<le> last_delivered_nonce (ris_view ?s)")
        case True
        then show ?thesis using confirm [OF Q Some] view(3) up old by simp
      next
        case False
        then have "ris_view s' = pallet_inbound_lane_data (rl_state l) lane" using view(3) old by simp
        then show ?thesis using up Q by simp
      qed
      then show ?thesis using view(1) id v0 w by simp
    qed
  qed
  have "Q (inbound_lanes_get (ris_inbound_lanes (rv_lane (fold (receive_one_message C rb rt) ms v))))
      (rv_world (fold (receive_one_message C rb rt) ms v))"
    if "set ms \<subseteq> set (pm_messages ld)" "Q (inbound_lanes_get (ris_inbound_lanes (rv_lane v))) (rv_world v) \<and>
      ris_coherent (rv_lane v) \<and> ris_lane_id (rv_lane v) = lane" for ms v
    using that
  proof (induction ms arbitrary: v)
    case (Cons m ms)
    have m: "m \<in> set (pm_messages ld)" using Cons.prems(1) by simp
    have "Q (inbound_lanes_get (ris_inbound_lanes (rv_lane (receive_one_message C rb rt m v))))
      (rv_world (receive_one_message C rb rt m v)) \<and>
      ris_coherent (rv_lane (receive_one_message C rb rt m v)) \<and>
      ris_lane_id (rv_lane (receive_one_message C rb rt m v)) = lane"
      by (rule receive_one_message_induct [where Q = Q and lane = lane])
         (use Cons.prems(2) key in blast, use Cons.prems(2) in blast, use Cons.prems(2) in blast, rule key,
          erule deliver [OF _ m], assumption)
    then show ?case using Cons.IH Cons.prems(1) by simp
  qed simp
  from this [OF subset_refl start] show ?thesis
    by (simp add: receive_lane_messages_alt Let_def store_inbound_lane_def pallet_inbound_lane_data_def [abs_def])
qed

lemma receive_messages_induct:
  assumes call: "receive_messages_proof C origin rb proof count dw ms x = Inr (w, ms', x')"
    and proved: "mc_verify_messages_proof C proof count x = Inr proved"
    and Q: "Q (pallet_inbound_lane_data ms) x" and key: "dispatch_weight_keeps_key C"
    and confirm: "\<And>f x lane ld out. Q f x \<Longrightarrow> (lane, ld) \<in> set proved \<Longrightarrow> pm_lane_state ld = Some out \<Longrightarrow>
      last_confirmed_nonce (f lane) < latest_received_nonce out \<Longrightarrow>
      latest_received_nonce out \<le> last_delivered_nonce (f lane) \<Longrightarrow>
      Q (f(lane := confirm_data (latest_received_nonce out) (f lane))) x"
    and deliver: "\<And>f x rt lane ld m. Q f x \<Longrightarrow> (lane, ld) \<in> set proved \<Longrightarrow> m \<in> set (pm_messages ld) \<Longrightarrow>
      mk_nonce (msg_key m) = last_delivered_nonce (f lane) + 1 \<Longrightarrow>
      Q (f(lane := deliver_data rb (mk_nonce (msg_key m)) (f lane)))
        (snd (mc_dispatch C rt \<lparr>dmsg_key = \<lparr>mk_lane_id = lane, mk_nonce = mk_nonce (msg_key m)\<rparr>,
           dmsg_data = dmsg_data (snd (mc_dispatch_weight C (dispatch_message_from (mc_decode_inbound_payload C) m)))\<rparr> x))"
    and reward: "\<And>f x relayer total valid w. Q f x \<Longrightarrow> Q f (mc_pay_delivery_reward C relayer total valid w x)"
  shows "Q (pallet_inbound_lane_data ms') x'"
  using call
proof (cases rule: receive_messages_proof_Inr)
  case (1 relayer messages l)
  let ?decode = "\<lambda>(lane, lane_data). (lane, \<lparr>pm_lane_state = pm_lane_state lane_data,
       pm_messages = map (dispatch_message_from (mc_decode_inbound_payload C)) (pm_messages lane_data)\<rparr>)"
  have messages: "messages = map ?decode proved"
    using 1(3) proved by (auto simp: verify_and_decode_messages_proof_def)
  have "Q (pallet_inbound_lane_data (rl_state (fold (receive_lane_messages C rb relayer) (map ?decode lanes) vars)))
      (rl_world (fold (receive_lane_messages C rb relayer) (map ?decode lanes) vars))"
    if "set lanes \<subseteq> set proved" "Q (pallet_inbound_lane_data (rl_state vars)) (rl_world vars)" for lanes vars
    using that
  proof (induction lanes arbitrary: vars)
    case (Cons a lanes)
    obtain lane ld where a: "a = (lane, ld)" by fastforce
    have mem: "(lane, ld) \<in> set proved" using Cons.prems(1) by (simp add: a)
    have "Q (pallet_inbound_lane_data (rl_state (receive_lane_messages C rb relayer (?decode a) vars)))
      (rl_world (receive_lane_messages C rb relayer (?decode a) vars))"
      unfolding a prod.case
    proof (rule receive_lane_messages_induct [where Q = Q, OF Cons.prems(2) key], goal_cases)
      case (1 f x out)
      then show ?case by (intro confirm [OF _ mem]) auto
    next
      case (2 f x d)
      then obtain m where "m \<in> set (pm_messages ld)" "d = dispatch_message_from (mc_decode_inbound_payload C) m" by auto
      then show ?case using deliver [OF 2(1) mem, of m] 2(3) by (simp add: dispatch_message_from_def)
    qed
    then show ?case using Cons.IH Cons.prems(1) by simp
  qed simp
  from this [of proved "\<lparr>rl_state = ms, rl_statuses = [], rl_total = 0, rl_valid = 0, rl_dispatch_weight_left = dw,
        rl_actual_weight = receive_messages_proof_weight (mc_weight_ops C) (mc_weight_info C)
             (mc_messages_proof_size C proof) count dw, rl_world = x\<rparr>", OF subset_refl] Q
  have "Q (pallet_inbound_lane_data (rl_state l)) (rl_world l)" by (simp add: 1(5) messages)
  then show ?thesis
    using reward by (simp add: 1(7,8) messages_deposit_event_def pallet_inbound_lane_data_def [abs_def])
qed

section \<open>Steps of the source and of the target\<close>

lemma receive_messages_outbound_frame:
  assumes "receive_messages_proof C origin rb proof count dw ms x = Inr (w, ms', x')"
  shows "ms_outbound_lanes ms' = ms_outbound_lanes ms" "ms_outbound_messages ms' = ms_outbound_messages ms"
proof -
  have frame: "ms_outbound_lanes (rl_state (fold (receive_lane_messages C rb rt) lanes l)) = ms_outbound_lanes (rl_state l) \<and>
    ms_outbound_messages (rl_state (fold (receive_lane_messages C rb rt) lanes l)) = ms_outbound_messages (rl_state l)"
    for rt lanes l
    by (induction lanes arbitrary: l)
       (auto simp: receive_lane_messages_alt Let_def store_inbound_lane_def split_paired_all)
  show "ms_outbound_lanes ms' = ms_outbound_lanes ms" "ms_outbound_messages ms' = ms_outbound_messages ms"
    using assms by (auto elim!: receive_messages_proof_Inr simp: messages_deposit_event_def frame)
qed

lemma on_idle_messages:
  assumes "on_idle C block rem ms = Some (w, ms')" and ok: "\<And>lane. outbound_lane_ok ms lane"
    and "outbound_message_data ms' lane' n = Some p"
  shows "outbound_message_data ms lane' n = Some p"
  using assms(1)
proof (cases rule: on_idle_cases)
  case 1
  then show ?thesis using assms(3) by simp
next
  case (2 lane s spent)
  have lt: "latest_received_nonce (ols_data runtime_outbound_storage_ops (outbound_lane C lane ms)) < - 1"
    using ok [of lane] by (auto simp: outbound_lane_ok_def outbound_wf_def outbound_lane_ros intro: le_less_trans)
  obtain o' where "ros_message s = (\<lambda>n. if oldest_unpruned_nonce (pallet_outbound_lane_data ms lane) \<le> n \<and> n < o' then None
      else outbound_message_data ms lane n)"
    using runtime_outbound.prune_messages_effect [OF lt, where W = "mc_weight_ops C" and db = "mc_db_weight C"
        and rem = "w_sub (mc_weight_ops C) rem (db_reads (mc_db_weight C) 1)", unfolded outbound_lane_ros] 2(3)
    by auto
  then show ?thesis
    using assms(3) by (auto simp: 2(5) outbound_lane_ros store_outbound_lane_data [OF prune_messages_frame [OF 2(3)]] split: if_splits)
qed

abbreviation generated :: "('acc, 'r, 'd, 'w) messages_state \<Rightarrow> lane_id \<Rightarrow> message_nonce" where
  "generated ms lane \<equiv> latest_generated_nonce (pallet_outbound_lane_data ms lane)"

abbreviation confirmed :: "('acc, 'r, 'd, 'w) messages_state \<Rightarrow> lane_id \<Rightarrow> message_nonce" where
  "confirmed ms lane \<equiv> latest_received_nonce (pallet_outbound_lane_data ms lane)"

lemma confirmed_le_generated [simp]: "outbound_lane_ok ms lane \<Longrightarrow> confirmed ms lane \<le> generated ms lane"
  by (simp add: outbound_lane_ok_def outbound_wf_def)

text \<open>
  What a step does to the outbound lanes: nonces only grow, a stored message was stored before or
  has a new nonce, and the confirmed nonce changes only to the last nonce of a verified inbound lane.
\<close>

lemma source_step:
  assumes "messages_step C (ms, x) (ms', x')" and ok: "\<And>lane. outbound_lane_ok ms lane"
  shows "outbound_lane_ok ms' lane \<and> generated ms lane \<le> generated ms' lane \<and> confirmed ms lane \<le> confirmed ms' lane \<and>
    (outbound_message_data ms' lane n = Some p \<longrightarrow>
       outbound_message_data ms lane n = Some p \<or> generated ms lane < n) \<and>
    confirmed ms' lane \<le> generated ms lane \<and>
    (confirmed ms' lane = confirmed ms lane \<or>
       (\<exists>proof ld. mc_verify_messages_delivery_proof C proof x = Inr (lane, ld) \<and> confirmed ms' lane = last_delivered_nonce ld))"
  using assms(1)
proof cases
  case (step_send origin l payload a)
  note e = send_message_effect [OF step_send(2)]
  have lt: "generated ms l < generated ms l + 1"
    using step_send(3) e(2) ok [of l] by (metis outbound_lane_ok_def word_less_nat_alt unat_succ lessI)
  then show ?thesis
    using send_message_outbound_ok [OF step_send(2-4), of lane] ok by (auto simp: e)
next
  case (step_receive origin rb pf count dw w)
  then show ?thesis
    using ok [of lane] receive_messages_outbound_frame [OF step_receive]
    by (simp add: outbound_lane_ok_def outbound_wf_def pallet_outbound_lane_data_def outbound_message_data_def [abs_def])
next
  case (step_confirm origin dproof st)
  have ok': "outbound_lane_ok ms' lane" using receive_messages_delivery_proof_outbound_ok [OF step_confirm ok] by blast
  from step_confirm show ?thesis
  proof (cases rule: receive_messages_delivery_proof_effect)
    case (1 l ld relayer)
    from 1(6) show ?thesis
    proof (elim disjE conjE)
      assume "ms' = ms"
      then show ?thesis using ok by simp
    next
      assume new: "confirmed ms l < last_delivered_nonce ld" "last_delivered_nonce ld \<le> generated ms l"
        and d: "pallet_outbound_lane_data ms' = (pallet_outbound_lane_data ms)
          (l := (pallet_outbound_lane_data ms l)\<lparr>latest_received_nonce := last_delivered_nonce ld\<rparr>)"
        and m: "outbound_message_data ms' = outbound_message_data ms"
      have "generated ms' lane = generated ms lane"
        "confirmed ms' lane = (if lane = l then last_delivered_nonce ld else confirmed ms lane)"
        "outbound_message_data ms' lane = outbound_message_data ms lane" by (simp_all add: d m)
      then show ?thesis using ok' ok [of lane] 1(3) less_imp_le [OF new(1)] new(2)
        by (cases "lane = l") (auto simp: outbound_lane_ok_def outbound_wf_def)
    qed
  qed
next
  case (step_idle block rem w)
  note e = on_idle_outbound_ok [OF step_idle(2) ok, of lane]
  have "generated ms' lane = generated ms lane" "confirmed ms' lane = confirmed ms lane"
    using e by (metis outbound_lane_data.select_convs(2,3) outbound_lane_data.surjective outbound_lane_data.update_convs(1))+
  then show ?thesis using e ok [of lane] on_idle_messages [OF step_idle(2) ok] by auto
next
  case (step_set_owner origin owner)
  then show ?thesis
    using ok [of lane] by (auto simp: messages_set_owner_def messages_module.set_owner_eq outbound_lane_ok_def outbound_wf_def
      pallet_outbound_lane_data_def outbound_message_data_def [abs_def] split: if_splits)
next
  case (step_set_mode origin mode)
  then show ?thesis
    using ok [of lane] by (auto simp: messages_set_operating_mode_def messages_module.set_operating_mode_eq outbound_lane_ok_def outbound_wf_def
      pallet_outbound_lane_data_def outbound_message_data_def [abs_def] split: if_splits)
next
  case step_world
  then show ?thesis using ok by simp
qed

text \<open>A step that is not a delivery transaction changes no inbound lane.\<close>

lemma target_step:
  assumes "messages_step C (ms, x) (ms', x')" and ok: "\<And>lane. outbound_lane_ok ms lane"
  obtains (receive) origin rb pf count dw w where "receive_messages_proof C origin rb pf count dw ms x = Inr (w, ms', x')"
  | (other) "ms_inbound_lanes ms' = ms_inbound_lanes ms"
  using assms(1)
proof cases
  case (step_send origin l payload a)
  then show ?thesis using send_message_effect(5) [OF step_send(2)] other by blast
next
  case (step_receive origin rb pf count dw w)
  then show ?thesis using receive by blast
next
  case (step_confirm origin dproof st)
  then show ?thesis using receive_messages_delivery_proof_outbound_ok [OF step_confirm ok] other by blast
next
  case (step_idle block rem w)
  then show ?thesis using on_idle_outbound_ok [OF step_idle(2) ok] other by blast
next
  case (step_set_owner origin owner)
  then have "ms_inbound_lanes ms' = ms_inbound_lanes ms"
    by (auto simp: messages_set_owner_def messages_module.set_owner_eq split: if_splits)
  then show ?thesis by (rule other)
next
  case (step_set_mode origin mode)
  then have "ms_inbound_lanes ms' = ms_inbound_lanes ms"
    by (auto simp: messages_set_operating_mode_def messages_module.set_operating_mode_eq split: if_splits)
  then show ?thesis by (rule other)
next
  case step_world
  then show ?thesis using other by simp
qed

section \<open>The two chains\<close>

text \<open>
  The headers that a chain knows are headers of the other chain: each root that it accepts as
  finalized is the root of a storage that holds one of the given states of the messages pallet.
\<close>

definition knows_headers ::
  "('hash \<Rightarrow> (bytes \<rightharpoonup> bytes) \<Rightarrow> bool) \<Rightarrow> ('o, 'hash, 'acc, 'x) message_bridge \<Rightarrow> 'x \<Rightarrow>
     ('sacc, 'acc, 'd, 'w) messages_state set \<Rightarrow> bool" where
  "knows_headers root_of B x states \<longleftrightarrow>
     (\<forall>hash root. mb_finalized_header_state_root B x hash = Some root \<longrightarrow>
        (\<exists>ms \<in> states. \<exists>storage. root_of root storage \<and> stores_messages_pallet B storage ms))"

text \<open>A messages pallet that verifies proofs with a bridge; the errors are only logged.\<close>

definition uses_bridge ::
  "('o, 'acc, 'r, 'hash messages_proof, 'hash messages_delivery_proof, 'op, 'p, 'd, 'w, 'x) messages_config \<Rightarrow>
     ('o2, 'hash, 'acc, 'x) message_bridge \<Rightarrow> bool" where
  "uses_bridge C B \<longleftrightarrow> dispatch_weight_keeps_key C \<and>
     (\<exists>err. \<forall>proof count x. mc_verify_messages_proof C proof count x = map_sum err id (verify_messages_proof B proof count x)) \<and>
     (\<exists>err. \<forall>proof x. mc_verify_messages_delivery_proof C proof x = map_sum err id (verify_messages_delivery_proof B proof x))"

lemma known_messages:
  assumes "trie_laws root_of (mb_trie B)" and "uses_bridge C B" and "knows_headers root_of B x states"
    and "mc_verify_messages_proof C proof count x = Inr proved" and "(lane, ld) \<in> set proved"
  obtains ms where "ms \<in> states" "\<And>m. m \<in> set (pm_messages ld) \<Longrightarrow> outbound_message_data ms lane (mk_nonce (msg_key m)) = Some (msg_payload m)"
    "\<And>out. pm_lane_state ld = Some out \<Longrightarrow> pallet_outbound_lane_data ms lane = out"
proof -
  from assms(2,4) have v: "verify_messages_proof B proof count x = Inr proved"
    by (auto simp: uses_bridge_def map_sum_eq_Inr_iff)
  obtain root where fin: "mb_finalized_header_state_root B x (mp_bridged_header_hash proof) = Some root"
    using v by (rule verify_messages_proof_Inr)
  then obtain ms storage where ms: "ms \<in> states" "root_of root storage" "stores_messages_pallet B storage ms"
    using assms(3) unfolding knows_headers_def by blast
  obtain messages lane_state where p: "proved = [(mp_lane proof, \<lparr>pm_lane_state = lane_state, pm_messages = messages\<rparr>)]"
    and m: "\<forall>m \<in> set messages. outbound_message_data ms (mp_lane proof) (mk_nonce (msg_key m)) = Some (msg_payload m)"
    and l: "lane_state \<noteq> None \<longrightarrow> ms_outbound_lanes ms (mp_lane proof) = lane_state"
    using verified_messages [OF assms(1) v fin ms(2,3)] by blast
  show thesis
    by (rule that [OF ms(1)]) (use p m l assms(5) in \<open>auto simp: pallet_outbound_lane_data_def outbound_lanes_get_def\<close>)
qed

lemma known_delivery:
  assumes "trie_laws root_of (mb_trie B)" and "uses_bridge C B" and "knows_headers root_of B x states"
    and "mc_verify_messages_delivery_proof C proof x = Inr (lane, ld)"
  obtains ms where "ms \<in> states" "pallet_inbound_lane_data ms lane = ld"
proof -
  from assms(2,4) have v: "verify_messages_delivery_proof B proof x = Inr (lane, ld)"
    by (auto simp: uses_bridge_def map_sum_eq_Inr_iff)
  then obtain root where fin: "mb_finalized_header_state_root B x (mdp_bridged_header_hash proof) = Some root"
    by (auto simp: verify_messages_delivery_proof_def parse_finalized_storage_proof_def split: option.splits)
  then obtain ms storage where ms: "ms \<in> states" "root_of root storage" "stores_messages_pallet B storage ms"
    using assms(3) unfolding knows_headers_def by blast
  show thesis
    by (rule that [OF ms(1)])
       (use verified_delivery [OF assms(1) v fin ms(2,3)] in \<open>auto simp: pallet_inbound_lane_data_def inbound_lanes_get_def\<close>)
qed

record ('sa, 'ta, 'sd, 'sw, 'sx, 'td, 'tw, 'tx) two_chains =
  tc_source :: "('sa, 'ta, 'sd, 'sw) messages_state"
  tc_source_world :: 'sx
  tc_source_past :: "('sa, 'ta, 'sd, 'sw) messages_state set"
  tc_target :: "('ta, 'sa, 'td, 'tw) messages_state"
  tc_target_world :: 'tx
  tc_target_past :: "('ta, 'sa, 'td, 'tw) messages_state set"

text \<open>
  The interleaved steps of the two chains. \<open>RS\<close> and \<open>RT\<close> relate roots and storages of the source and
  of the target. \<open>dispatch_log\<close> reads from the state of the target chain which messages it has
  dispatched; steps other than delivery transactions do not dispatch.
\<close>

inductive two_chains_step for RS RT and
  CS :: "('so, 'sa, 'ta, 'th messages_proof, 'th messages_delivery_proof, 'sop, 'sp, 'sd, 'sw, 'sx) messages_config" and
  BS :: "('so2, 'th, 'sa, 'sx) message_bridge" and
  CT :: "('to, 'ta, 'sa, 'sh messages_proof, 'sh messages_delivery_proof, 'top, 'tp, 'td, 'tw, 'tx) messages_config" and
  BT :: "('to2, 'sh, 'ta, 'tx) message_bridge" and
  dispatch_log :: "'tx \<Rightarrow> (message_key \<times> 'c) list" where
  source_moves: "messages_step CS (tc_source c, tc_source_world c) (ms', x') \<Longrightarrow>
     knows_headers RT BS (tc_source_world c) (tc_target_past c) \<Longrightarrow>
     two_chains_step RS RT CS BS CT BT dispatch_log c
       (c\<lparr>tc_source := ms', tc_source_world := x', tc_source_past := insert ms' (tc_source_past c)\<rparr>)"
| target_receives: "receive_messages_proof CT origin rb proof count dw (tc_target c) (tc_target_world c) = Inr (w, ms', x') \<Longrightarrow>
     knows_headers RS BT (tc_target_world c) (tc_source_past c) \<Longrightarrow>
     two_chains_step RS RT CS BS CT BT dispatch_log c
       (c\<lparr>tc_target := ms', tc_target_world := x', tc_target_past := insert ms' (tc_target_past c)\<rparr>)"
| target_moves: "messages_step CT (tc_target c, tc_target_world c) (ms', x') \<Longrightarrow>
     knows_headers RS BT (tc_target_world c) (tc_source_past c) \<Longrightarrow>
     dispatch_log x' = dispatch_log (tc_target_world c) \<Longrightarrow>
     two_chains_step RS RT CS BS CT BT dispatch_log c
       (c\<lparr>tc_target := ms', tc_target_world := x', tc_target_past := insert ms' (tc_target_past c)\<rparr>)"

definition two_chains_start :: "'sx \<Rightarrow> 'tx \<Rightarrow> ('sa, 'ta, 'sd, 'sw, 'sx, 'td, 'tw, 'tx) two_chains" where
  "two_chains_start xs xt = \<lparr>tc_source = empty_messages_state, tc_source_world = xs, tc_source_past = {empty_messages_state},
     tc_target = empty_messages_state, tc_target_world = xt, tc_target_past = {empty_messages_state}\<rparr>"

text \<open>A message that the source has sent: some state so far has it in its store.\<close>

definition was_sent ::
  "('sa, 'ta, 'sd, 'sw, 'sx, 'td, 'tw, 'tx) two_chains \<Rightarrow> lane_id \<Rightarrow> message_nonce \<Rightarrow> message_payload \<Rightarrow> bool" where
  "was_sent c lane n p \<longleftrightarrow> (\<exists>ms \<in> tc_source_past c. outbound_message_data ms lane n = Some p)"

definition source_inv :: "('sa, 'ta, 'sd, 'sw, 'sx, 'td, 'tw, 'tx) two_chains \<Rightarrow> bool" where
  "source_inv c \<longleftrightarrow> tc_source c \<in> tc_source_past c \<and>
     (\<forall>ms \<in> tc_source_past c. \<forall>lane. outbound_lane_ok ms lane \<and>
        generated ms lane \<le> generated (tc_source c) lane \<and> confirmed ms lane \<le> confirmed (tc_source c) lane) \<and>
     (\<forall>lane n p p'. was_sent c lane n p \<longrightarrow> was_sent c lane n p' \<longrightarrow> p = p') \<and>
     (\<forall>lane n. 0 < n \<and> n \<le> generated (tc_source c) lane \<longrightarrow> (\<exists>p. was_sent c lane n p))"

lemma source_invD:
  assumes "source_inv c"
  shows "ms \<in> tc_source_past c \<Longrightarrow> outbound_lane_ok ms lane"
    and "ms \<in> tc_source_past c \<Longrightarrow> generated ms lane \<le> generated (tc_source c) lane"
    and "ms \<in> tc_source_past c \<Longrightarrow> confirmed ms lane \<le> confirmed (tc_source c) lane"
    and "tc_source c \<in> tc_source_past c"
  using assms by (auto simp: source_inv_def)

lemma stored_le_generated:
  "outbound_lane_ok ms lane \<Longrightarrow> outbound_message_data ms lane n = Some p \<Longrightarrow> n \<le> generated ms lane"
  by (auto simp: outbound_lane_ok_def outbound_store_ok_iff)

lemma source_inv_step:
  fixes c :: "('sa, 'ta, 'sd, 'sw, 'sx, 'td, 'tw, 'tx) two_chains"
  assumes inv: "source_inv c" and step: "messages_step C (tc_source c, x) (ms', x')"
  shows "source_inv (c\<lparr>tc_source := ms', tc_source_world := x', tc_source_past := insert ms' (tc_source_past c)\<rparr>)"
proof -
  let ?c = "c\<lparr>tc_source := ms', tc_source_world := x', tc_source_past := insert ms' (tc_source_past c)\<rparr>"
  note st = source_step [OF step source_invD(1) [OF inv source_invD(4) [OF inv]]]
  have ok': "outbound_lane_ok ms' lane" and grow: "generated (tc_source c) lane \<le> generated ms' lane"
      "confirmed (tc_source c) lane \<le> confirmed ms' lane" and cg: "confirmed ms' lane \<le> generated (tc_source c) lane" for lane
    using st [of lane] by blast+
  have sent: "was_sent ?c lane n p \<longleftrightarrow> was_sent c lane n p \<or> outbound_message_data ms' lane n = Some p" for lane n p
    by (auto simp: was_sent_def)
  have old_le: "n \<le> generated (tc_source c) lane" if "was_sent c lane n p" for lane n p
    using that stored_le_generated source_invD(1,2) [OF inv] unfolding was_sent_def by (meson order_trans)
  have same: "was_sent c lane n p" if "outbound_message_data ms' lane n = Some p" "n \<le> generated (tc_source c) lane" for lane n p
    using st [of lane n p] that source_invD(4) [OF inv] by (auto simp: was_sent_def)
  have unique: "p = p'" if "was_sent ?c lane n p" "was_sent ?c lane n p'" for lane n p p'
    using that inv old_le same unfolding sent source_inv_def by (metis option.inject)
  have complete: "\<exists>p. was_sent ?c lane n p" if n: "0 < n" "n \<le> generated ms' lane" for lane n
  proof (cases "n \<le> generated (tc_source c) lane")
    case True
    then show ?thesis using inv n(1) unfolding source_inv_def sent by blast
  next
    case False
    then have "confirmed ms' lane < n" using cg [of lane] by auto
    then have "outbound_message_data ms' lane n \<noteq> None"
      using ok' [of lane] n(2) by (auto simp: outbound_lane_ok_def outbound_store_ok_iff)
    then show ?thesis by (auto simp: sent)
  qed
  have "outbound_lane_ok ms lane \<and> generated ms lane \<le> generated ms' lane \<and> confirmed ms lane \<le> confirmed ms' lane"
    if "ms \<in> insert ms' (tc_source_past c)" for ms lane
    using that ok' grow source_invD(1-3) [OF inv, of ms lane] by (auto intro: order_trans)
  then show ?thesis using unique complete by (simp add: source_inv_def)
qed

abbreviation delivered :: "('acc, 'r, 'd, 'w) messages_state \<Rightarrow> lane_id \<Rightarrow> message_nonce" where
  "delivered ms lane \<equiv> last_delivered_nonce (pallet_inbound_lane_data ms lane)"

text \<open>
  The configuration of the target logs what it dispatches. \<open>content\<close> is the part of a decoded payload
  that computing its weight does not change.
\<close>

definition logs_dispatch ::
  "('o, 'acc, 'r, 'proof, 'dproof, 'op, 'p, 'd, 'w, 'x) messages_config \<Rightarrow> ('x \<Rightarrow> (message_key \<times> 'c) list) \<Rightarrow>
     ('p \<Rightarrow> 'c) \<Rightarrow> bool" where
  "logs_dispatch C dispatch_log content \<longleftrightarrow>
     (\<forall>acc m x. dispatch_log (snd (mc_dispatch C acc m x)) = dispatch_log x @ [(dmsg_key m, content (dmd_payload (dmsg_data m)))]) \<and>
     (\<forall>r t v w x. dispatch_log (mc_pay_delivery_reward C r t v w x) = dispatch_log x) \<and>
     (\<forall>m. content (dmd_payload (dmsg_data (snd (mc_dispatch_weight C m)))) = content (dmd_payload (dmsg_data m)))"

text \<open>The log of a lane up to a nonce: one entry per nonce, in order, with what the source has sent.\<close>

definition log_matches ::
  "('sa, 'ta, 'sd, 'sw, 'sx, 'td, 'tw, 'tx) two_chains \<Rightarrow> (message_payload \<Rightarrow> 'c) \<Rightarrow> lane_id \<Rightarrow> message_nonce \<Rightarrow>
     (message_key \<times> 'c) list \<Rightarrow> bool" where
  "log_matches c decode lane n log \<longleftrightarrow>
     list_all2 (\<lambda>i entry. fst entry = \<lparr>mk_lane_id = lane, mk_nonce = of_nat i\<rparr> \<and>
          (\<exists>p. was_sent c lane (of_nat i) p \<and> snd entry = decode p))
       [1..<Suc (unat n)] (filter (\<lambda>entry. mk_lane_id (fst entry) = lane) log)"

lemma log_matches_append_other:
  "mk_lane_id (fst entry) \<noteq> lane \<Longrightarrow> log_matches c decode lane n (log @ [entry]) \<longleftrightarrow> log_matches c decode lane n log"
  by (simp add: log_matches_def)

lemma log_matches_append:
  assumes "log_matches c decode lane n log" and "unat n' = Suc (unat n)" and "was_sent c lane n' p"
  shows "log_matches c decode lane n' (log @ [(\<lparr>mk_lane_id = lane, mk_nonce = n'\<rparr>, decode p)])"
proof -
  have "n' = of_nat (Suc (unat n))" unfolding assms(2) [symmetric] by simp
  moreover have "[1..<Suc (unat n')] = [1..<Suc (unat n)] @ [Suc (unat n)]" by (simp add: assms(2))
  ultimately show ?thesis
    using assms(1,3) unfolding log_matches_def by (auto intro!: list_all2_appendI simp del: upt_Suc)
qed

lemma log_matches_mono:
  assumes "log_matches c decode lane n log" and "tc_source_past c \<subseteq> tc_source_past c'"
  shows "log_matches c' decode lane n log"
  using assms(1) unfolding log_matches_def by (rule list_all2_mono) (use assms(2) in \<open>auto simp: was_sent_def\<close>)

text \<open>The invariant of the target, and what links the two chains.\<close>

definition target_inv :: "('sa, 'ta, 'sd, 'sw, 'sx, 'td, 'tw, 'tx) two_chains \<Rightarrow> bool" where
  "target_inv c \<longleftrightarrow> tc_target c \<in> tc_target_past c \<and>
     (\<forall>ms \<in> tc_target_past c. \<forall>lane. outbound_lane_ok ms lane \<and> inbound_wf (pallet_inbound_lane_data ms lane) \<and>
        delivered ms lane \<le> delivered (tc_target c) lane \<and>
        last_confirmed_nonce (pallet_inbound_lane_data ms lane) \<le> confirmed (tc_source c) lane) \<and>
     (\<forall>lane. confirmed (tc_source c) lane \<le> delivered (tc_target c) lane \<and>
        delivered (tc_target c) lane \<le> generated (tc_source c) lane)"

lemma target_invD:
  assumes "target_inv c"
  shows "ms \<in> tc_target_past c \<Longrightarrow> outbound_lane_ok ms lane"
    and "ms \<in> tc_target_past c \<Longrightarrow> inbound_wf (pallet_inbound_lane_data ms lane)"
    and "ms \<in> tc_target_past c \<Longrightarrow> delivered ms lane \<le> delivered (tc_target c) lane"
    and "ms \<in> tc_target_past c \<Longrightarrow> last_confirmed_nonce (pallet_inbound_lane_data ms lane) \<le> confirmed (tc_source c) lane"
    and "tc_target c \<in> tc_target_past c"
    and "confirmed (tc_source c) lane \<le> delivered (tc_target c) lane"
    and "delivered (tc_target c) lane \<le> generated (tc_source c) lane"
  using assms by (auto simp: target_inv_def)

lemma target_inv_source_step:
  assumes laws: "trie_laws RT (mb_trie BS)" "uses_bridge CS BS"
    and step: "messages_step CS (tc_source c, tc_source_world c) (ms', x')"
    and known: "knows_headers RT BS (tc_source_world c) (tc_target_past c)"
    and inv: "source_inv c" "target_inv c"
  shows "target_inv (c\<lparr>tc_source := ms', tc_source_world := x', tc_source_past := insert ms' (tc_source_past c)\<rparr>)"
proof -
  note st = source_step [OF step source_invD(1) [OF inv(1) source_invD(4) [OF inv(1)]]]
  have grow: "generated (tc_source c) lane \<le> generated ms' lane" "confirmed (tc_source c) lane \<le> confirmed ms' lane" for lane
    using st [of lane] by blast+
  have "confirmed ms' lane \<le> delivered (tc_target c) lane" for lane
  proof (cases "confirmed ms' lane = confirmed (tc_source c) lane")
    case True
    then show ?thesis using target_invD(6) [OF inv(2)] by simp
  next
    case False
    then obtain pf ld where v: "mc_verify_messages_delivery_proof CS pf (tc_source_world c) = Inr (lane, ld)"
      and c: "confirmed ms' lane = last_delivered_nonce ld" using st [of lane] by blast
    obtain ms where "ms \<in> tc_target_past c" "pallet_inbound_lane_data ms lane = ld"
      by (rule known_delivery [OF laws known v])
    then show ?thesis using target_invD(3) [OF inv(2), of ms lane] c by simp
  qed
  moreover have "last_confirmed_nonce (pallet_inbound_lane_data ms lane) \<le> confirmed ms' lane" if "ms \<in> tc_target_past c" for ms lane
    by (rule order_trans [OF target_invD(4) [OF inv(2) that] grow(2)])
  moreover have "delivered (tc_target c) lane \<le> generated ms' lane" for lane
    by (rule order_trans [OF target_invD(7) [OF inv(2)] grow(1)])
  ultimately show ?thesis using inv(2) by (auto simp: target_inv_def)
qed

text \<open>What holds of the lanes and of the log of the target in the course of a delivery transaction.\<close>

definition receiving_inv ::
  "('x \<Rightarrow> (message_key \<times> 'c) list) \<Rightarrow> (message_payload \<Rightarrow> 'c) \<Rightarrow> ('sa, 'ta, 'sd, 'sw, 'sx, 'td, 'tw, 'tx) two_chains \<Rightarrow>
     (lane_id \<Rightarrow> 'sa inbound_lane_data) \<Rightarrow> 'x \<Rightarrow> bool" where
  "receiving_inv dispatch_log decode c f x \<longleftrightarrow>
     (\<forall>lane. inbound_wf (f lane) \<and> delivered (tc_target c) lane \<le> last_delivered_nonce (f lane) \<and>
        last_delivered_nonce (f lane) \<le> generated (tc_source c) lane \<and>
        last_confirmed_nonce (f lane) \<le> confirmed (tc_source c) lane \<and>
        log_matches c decode lane (last_delivered_nonce (f lane)) (dispatch_log x))"

lemma receiving_confirm:
  assumes inv: "source_inv c" and Q: "receiving_inv dispatch_log decode c f x"
    and ms: "ms \<in> tc_source_past c" "pallet_outbound_lane_data ms lane = out"
    and n: "last_confirmed_nonce (f lane) < latest_received_nonce out" "latest_received_nonce out \<le> last_delivered_nonce (f lane)"
  shows "receiving_inv dispatch_log decode c (f(lane := confirm_data (latest_received_nonce out) (f lane))) x"
proof -
  have "inbound_wf (f lane)" using Q by (simp add: receiving_inv_def)
  note cd = confirm_data_ok [OF this n]
  have "latest_received_nonce out \<le> confirmed (tc_source c) lane" using source_invD(3) [OF inv ms(1), of lane] ms(2) by simp
  then show ?thesis using Q cd(1,2) by (simp add: receiving_inv_def confirm_data_def)
qed

lemma receiving_deliver:
  assumes inv: "source_inv c" and Q: "receiving_inv dispatch_log decode c f x"
    and ms: "ms \<in> tc_source_past c" "outbound_message_data ms lane n = Some p"
    and n: "n = last_delivered_nonce (f lane) + 1"
    and lg: "dispatch_log x' = dispatch_log x @ [(\<lparr>mk_lane_id = lane, mk_nonce = n\<rparr>, decode p)]"
  shows "receiving_inv dispatch_log decode c (f(lane := deliver_data rb n (f lane))) x'"
proof -
  have le: "n \<le> generated (tc_source c) lane"
    using stored_le_generated [OF source_invD(1) [OF inv ms(1)] ms(2)] source_invD(2) [OF inv ms(1), of lane] by simp
  have "generated (tc_source c) lane < - 1"
    using source_invD(1) [OF inv source_invD(4) [OF inv]] by (simp add: outbound_lane_ok_def)
  then have "last_delivered_nonce (f lane) < - 1" using Q by (auto simp: receiving_inv_def intro: le_less_trans)
  then have suc: "unat n = Suc (unat (last_delivered_nonce (f lane)))" unfolding n by (rule unat_succ)
  then have nz: "n \<noteq> 0" by auto
  have wf: "inbound_wf (f lane)" using Q by (simp add: receiving_inv_def)
  note dd = deliver_data_ok [OF wf n nz]
  have "log_matches c decode lane n (dispatch_log x')"
    unfolding lg by (rule log_matches_append [OF _ suc]) (use Q ms in \<open>auto simp: receiving_inv_def was_sent_def\<close>)
  moreover have "log_matches c decode l (last_delivered_nonce (f l)) (dispatch_log x')" if "l \<noteq> lane" for l
    unfolding lg using Q that by (simp add: log_matches_append_other receiving_inv_def)
  moreover have "delivered (tc_target c) lane \<le> n" using Q suc by (simp add: receiving_inv_def word_le_nat_alt le_SucI)
  ultimately show ?thesis using Q dd(1-3) le by (simp add: receiving_inv_def)
qed

lemma target_inv_receive:
  fixes c :: "('sa, 'ta, 'sd, 'sw, 'sx, 'td, 'tw, 'tx) two_chains"
  assumes laws: "trie_laws RS (mb_trie BT)" "uses_bridge CT BT"
    and logs: "logs_dispatch CT dispatch_log content"
    and call: "receive_messages_proof CT origin rb proof count dw (tc_target c) (tc_target_world c) = Inr (w, ms', x')"
    and known: "knows_headers RS BT (tc_target_world c) (tc_source_past c)"
    and inv: "source_inv c" "target_inv c"
    and log: "\<And>lane. log_matches c (content \<circ> mc_decode_inbound_payload CT) lane (delivered (tc_target c) lane)
      (dispatch_log (tc_target_world c))"
  shows "target_inv (c\<lparr>tc_target := ms', tc_target_world := x', tc_target_past := insert ms' (tc_target_past c)\<rparr>)"
    and "log_matches c (content \<circ> mc_decode_inbound_payload CT) lane (delivered ms' lane) (dispatch_log x')"
proof -
  let ?Q = "receiving_inv dispatch_log (content \<circ> mc_decode_inbound_payload CT) c"
  have key: "dispatch_weight_keeps_key CT" using laws(2) by (simp add: uses_bridge_def)
  obtain proved where proved: "mc_verify_messages_proof CT proof count (tc_target_world c) = Inr proved"
    using call by (elim receive_messages_proof_Inr verify_and_decode_Inr)
  have "?Q (pallet_inbound_lane_data ms') x'"
  proof (rule receive_messages_induct [where Q = ?Q, OF call proved _ key], goal_cases)
    case 1
    show ?case
      using log target_invD(2,4,7) [OF inv(2)] target_invD(5) [OF inv(2)] by (simp add: receiving_inv_def)
  next
    case (2 f x lane ld out)
    obtain ms where "ms \<in> tc_source_past c" "pallet_outbound_lane_data ms lane = out"
      by (rule known_messages [OF laws known proved 2(2)]) (use 2(3) in blast)
    then show ?case by (rule receiving_confirm [OF inv(1) 2(1) _ _ 2(4,5)])
  next
    case (3 f x rt lane ld m)
    obtain ms where "ms \<in> tc_source_past c" "outbound_message_data ms lane (mk_nonce (msg_key m)) = Some (msg_payload m)"
      by (rule known_messages [OF laws known proved 3(2)]) (use 3(3) in blast)
    then show ?case
      by (rule receiving_deliver [OF inv(1) 3(1) _ _ 3(4)])
         (use logs in \<open>simp add: logs_dispatch_def dispatch_message_from_def dispatch_message_data_from_def\<close>)
  next
    case (4 f x relayer total valid w)
    then show ?case using logs by (simp add: receiving_inv_def logs_dispatch_def)
  qed
  then have *: "inbound_wf (pallet_inbound_lane_data ms' lane)" "delivered (tc_target c) lane \<le> delivered ms' lane"
      "delivered ms' lane \<le> generated (tc_source c) lane"
      "last_confirmed_nonce (pallet_inbound_lane_data ms' lane) \<le> confirmed (tc_source c) lane"
      "log_matches c (content \<circ> mc_decode_inbound_payload CT) lane (delivered ms' lane) (dispatch_log x')" for lane
    by (simp_all add: receiving_inv_def)
  show "log_matches c (content \<circ> mc_decode_inbound_payload CT) lane (delivered ms' lane) (dispatch_log x')" by (rule *(5))
  have "outbound_lane_ok ms' lane" for lane
    using target_invD(1) [OF inv(2) target_invD(5) [OF inv(2)], of lane] receive_messages_outbound_frame [OF call]
    by (simp add: outbound_lane_ok_def pallet_outbound_lane_data_def outbound_message_data_def [abs_def])
  then show "target_inv (c\<lparr>tc_target := ms', tc_target_world := x', tc_target_past := insert ms' (tc_target_past c)\<rparr>)"
    using *(1-4) order_trans [OF target_invD(3) [OF inv(2)] *(2)] order_trans [OF target_invD(6) [OF inv(2)] *(2)] inv(2)
    by (auto simp: target_inv_def)
qed

lemma target_inv_other:
  fixes c :: "('sa, 'ta, 'sd, 'sw, 'sx, 'td, 'tw, 'tx) two_chains"
  assumes step: "messages_step CT (tc_target c, x) (ms', x')" and same: "ms_inbound_lanes ms' = ms_inbound_lanes (tc_target c)"
    and inv: "target_inv c"
  shows "target_inv (c\<lparr>tc_target := ms', tc_target_world := x', tc_target_past := insert ms' (tc_target_past c)\<rparr>)"
proof -
  have data: "pallet_inbound_lane_data ms' = pallet_inbound_lane_data (tc_target c)"
    by (simp add: pallet_inbound_lane_data_def [abs_def] same)
  have "outbound_lane_ok ms' lane" for lane
    using source_step [OF step target_invD(1) [OF inv target_invD(5) [OF inv]]] by blast
  then show ?thesis using inv by (auto simp: target_inv_def data)
qed

section \<open>Reachable states of the two chains\<close>

definition two_chains_inv where
  "two_chains_inv CT dispatch_log content c \<longleftrightarrow> source_inv c \<and> target_inv c \<and>
     (\<forall>lane. log_matches c (content \<circ> mc_decode_inbound_payload CT) lane (delivered (tc_target c) lane)
        (dispatch_log (tc_target_world c)))"

lemma log_matches_target [simp]:
  "log_matches (c\<lparr>tc_target := t, tc_target_world := x, tc_target_past := ts\<rparr>) = log_matches c"
  by (simp add: log_matches_def was_sent_def fun_eq_iff)

lemma source_inv_target [simp]:
  "source_inv (c\<lparr>tc_target := t, tc_target_world := x, tc_target_past := ts\<rparr>) \<longleftrightarrow> source_inv c"
  by (simp add: source_inv_def was_sent_def)

lemma two_chains_inv_step:
  assumes "two_chains_step RS RT CS BS CT BT dispatch_log c c'"
    and S: "trie_laws RT (mb_trie BS)" "uses_bridge CS BS" and T: "trie_laws RS (mb_trie BT)" "uses_bridge CT BT"
    and logs: "logs_dispatch CT dispatch_log content" and inv: "two_chains_inv CT dispatch_log content c"
  shows "two_chains_inv CT dispatch_log content c'"
  using assms(1)
proof cases
  case (source_moves ms' x')
  have si: "source_inv c" and ti: "target_inv c" using inv by (simp_all add: two_chains_inv_def)
  have "log_matches c' (content \<circ> mc_decode_inbound_payload CT) lane (delivered (tc_target c) lane)
        (dispatch_log (tc_target_world c))" for lane
    by (rule log_matches_mono [of c]) (use inv source_moves in \<open>auto simp: two_chains_inv_def\<close>)
  then show ?thesis
    using source_inv_step [OF si source_moves(2)] target_inv_source_step [OF S source_moves(2,3) si ti] source_moves(1)
    by (simp add: two_chains_inv_def)
next
  case (target_receives origin rb pf count dw w ms' x')
  have i: "source_inv c" "target_inv c" "\<And>lane. log_matches c (content \<circ> mc_decode_inbound_payload CT) lane (delivered (tc_target c) lane)
        (dispatch_log (tc_target_world c))" using inv by (simp_all add: two_chains_inv_def)
  show ?thesis
    using target_inv_receive [OF T logs target_receives(2,3) i] i(1) target_receives(1) by (simp add: two_chains_inv_def)
next
  case (target_moves ms' x')
  have i: "source_inv c" "target_inv c" "\<And>lane. log_matches c (content \<circ> mc_decode_inbound_payload CT) lane (delivered (tc_target c) lane)
        (dispatch_log (tc_target_world c))" using inv by (simp_all add: two_chains_inv_def)
  from target_moves(2) target_invD(1) [OF i(2) target_invD(5) [OF i(2)]] show ?thesis
  proof (cases rule: target_step)
    case (receive origin rb pf count dw w)
    then show ?thesis
      using target_inv_receive [OF T logs _ target_moves(3) i] i(1) target_moves(1) by (auto simp: two_chains_inv_def)
  next
    case other
    then have "pallet_inbound_lane_data ms' = pallet_inbound_lane_data (tc_target c)"
      by (simp add: pallet_inbound_lane_data_def [abs_def])
    then show ?thesis
      using target_inv_other [OF target_moves(2) other i(2)] i(1,3) target_moves(1,4) by (simp add: two_chains_inv_def)
  qed
qed

lemma empty_lanes [simp]:
  "outbound_lane_ok empty_messages_state lane"
  "pallet_outbound_lane_data empty_messages_state lane = default_outbound_lane_data"
  "pallet_inbound_lane_data empty_messages_state lane = default_inbound_lane_data"
  "outbound_message_data empty_messages_state lane n = None"
  using messages_inv_empty
  by (auto simp: messages_inv_def pallet_outbound_lane_data_def pallet_inbound_lane_data_def outbound_lanes_get_def
      inbound_lanes_get_def empty_messages_state_def outbound_message_data_def)

lemma two_chains_inv_start:
  assumes "dispatch_log xt = []"
  shows "two_chains_inv CT dispatch_log content (two_chains_start xs xt)"
proof -
  have d: "last_delivered_nonce default_inbound_lane_data = 0" "latest_generated_nonce default_outbound_lane_data = 0"
    "latest_received_nonce default_outbound_lane_data = 0" "last_confirmed_nonce default_inbound_lane_data = 0"
    by (simp_all add: last_delivered_nonce_def default_inbound_lane_data_def default_outbound_lane_data_def)
  show ?thesis
    using assms
    by (auto simp: two_chains_inv_def source_inv_def target_inv_def two_chains_start_def was_sent_def log_matches_def
        d inbound_wf_default)
qed

lemma two_chains_reachable_inv:
  assumes "(two_chains_step RS RT CS BS CT BT dispatch_log)\<^sup>*\<^sup>* (two_chains_start xs xt) c" and "dispatch_log xt = []"
    and "trie_laws RT (mb_trie BS)" "uses_bridge CS BS" "trie_laws RS (mb_trie BT)" "uses_bridge CT BT"
    and "logs_dispatch CT dispatch_log content"
  shows "two_chains_inv CT dispatch_log content c"
  using assms(1)
proof (induction rule: rtranclp_induct)
  case base
  show ?case by (rule two_chains_inv_start) (rule assms(2))
next
  case (step c c')
  then show ?case using two_chains_inv_step [OF step(2) assms(3-7)] by blast
qed

end
