(* ===== verification/Protocol_Properties.thy ===== *)
theory Protocol_Properties
  imports Lane_Protocol Relayers_Properties
begin

text \<open>
  The properties of the two chains: messages are dispatched exactly once and in order, and every
  confirmed message is rewarded once.
\<close>

section \<open>Rewards cover the confirmed nonces\<close>

lemma delivered_by_disjoint:
  assumes "consecutive None es" and "r \<noteq> r'"
  shows "delivered_by es N r \<inter> delivered_by es N r' = {}"
  using assms
proof (induction es)
  case (Cons e es)
  have "consecutive None es" using Cons.prems(1) by (cases es) auto
  then show ?case
    using Cons consecutive_disjoint [OF Cons.prems(1)] delivered_by_subset [of es N r] delivered_by_subset [of es N r']
    by (auto simp: delivered_by_Cons)
qed simp

lemma delivered_by_cover:
  "(\<Union>r \<in> ur_relayer ` set es. delivered_by es N r) = N \<inter> queue_nonces es"
  by (auto simp: delivered_by_def queue_nonces_def)

lemma sum_delivered_by:
  assumes "consecutive None es" and "N \<subseteq> queue_nonces es"
  shows "(\<Sum>r \<in> ur_relayer ` set es. card (delivered_by es N r)) = card N"
proof -
  have "card (\<Union>r \<in> ur_relayer ` set es. delivered_by es N r) = (\<Sum>r \<in> ur_relayer ` set es. card (delivered_by es N r))"
    by (rule card_UN_disjoint) (auto simp: delivered_by_disjoint [OF assms(1)])
  then show ?thesis unfolding delivered_by_cover using assms(2) by (simp only: Int_absorb2)
qed

lemma queue_covers:
  assumes "inbound_wf ld" and "last_confirmed_nonce ld < n" and "n \<le> last_delivered_nonce ld"
  shows "n \<in> queue_nonces (relayers ld)"
proof (cases "relayers ld")
  case Nil
  then show ?thesis using assms by (auto simp: last_delivered_nonce_alt)
next
  case (Cons e es)
  have "unat (entry_begin e) \<le> Suc (unat (last_confirmed_nonce ld))" "consecutive None (relayers ld)"
    using assms(1) by (simp_all add: inbound_wf_def Cons)
  then show ?thesis
    using assms(2,3) queue_nonces_consecutive [of None e es] Cons
    by (auto simp: last_delivered_nonce_alt word_le_nat_alt word_less_nat_alt)
qed

lemma card_newer: "card {n. a < n \<and> n \<le> b} = unat b - unat a" for a b :: message_nonce
proof (cases "a < b")
  case True
  then have suc: "unat (a + 1) = Suc (unat a)" by (rule unat_succ_lt)
  have "{n. a < n \<and> n \<le> b} = {a + 1..b}" by (auto simp: word_succ_le_iff [OF suc])
  then show ?thesis using True suc by (auto simp: card_word_interval word_le_nat_alt word_less_nat_alt)
next
  case False
  then have "{n. a < n \<and> n \<le> b} = {}" by auto
  then show ?thesis using False by (simp add: word_less_nat_alt)
qed

text \<open>The newly confirmed nonces are in the queue of relayers that the proof has shown.\<close>

lemma newly_confirmed_in_queue:
  assumes "target_inv c" and "trie_laws RT (mb_trie BS)" and "uses_bridge CS BS" and "knows_headers RT BS x (tc_target_past c)"
    and call: "receive_messages_delivery_proof CS origin proof st (tc_source c) x = Inr (ms', x')"
    and verified: "mc_verify_messages_delivery_proof CS proof x = Inr (lane, ld)"
    and n: "confirmed (tc_source c) lane < n" "n \<le> confirmed ms' lane"
  shows "n \<in> queue_nonces (relayers ld)" and "consecutive None (relayers ld)"
proof -
  obtain t where t: "t \<in> tc_target_past c" "pallet_inbound_lane_data t lane = ld"
    by (rule known_delivery [OF assms(2-4) verified])
  have wf: "inbound_wf ld" and lc: "last_confirmed_nonce ld \<le> confirmed (tc_source c) lane"
    using target_invD(2,4) [OF assms(1) t(1), of lane] t(2) by simp_all
  have "confirmed ms' lane = last_delivered_nonce ld"
    using call
  proof (cases rule: receive_messages_delivery_proof_effect)
    case (1 l ld' relayer)
    then have "l = lane" "ld' = ld" using verified by simp_all
    then show ?thesis using 1(6) n by auto
  qed
  then show "n \<in> queue_nonces (relayers ld)" using queue_covers [OF wf] lc n by (auto intro: le_less_trans)
  show "consecutive None (relayers ld)" using wf by (simp add: inbound_wf_def)
qed

section \<open>An example\<close>

text \<open>
  The source sends one message. The target learns a header of the source and receives the message,
  and the source learns a header of the target.

  The state of the target chain is the storage below the known header and the log of dispatched
  messages. The state of the source chain is that of its relayers pallet; it knows the header of the
  target once a reward has been paid.
\<close>

type_synonym sample_log = "(message_key \<times> u8 list) list"

definition sample_delivered_storage :: sample_hash where
  "sample_delivered_storage = [(6 # 12 # lane_id_encode (LaneId 0 0 0 1), [5, 1, 1])]"

definition sample_source_bridge :: "(nat option, sample_hash, nat, (nat, 128 word) relayers_state) message_bridge" where
  "sample_source_bridge = sample_bridge_for (\<lambda>x. if rs_events x = [] then None else Some sample_delivered_storage)"

definition sample_target_bridge :: "(nat option, sample_hash, nat, sample_hash option \<times> sample_log) message_bridge" where
  "sample_target_bridge = sample_bridge_for fst"

definition sample_source_config where
  "sample_source_config = sample_config (adapter_pay_reward (1, 2, 3, 4) 50) (\<lambda>r x. x)
     (\<lambda>_ m x. (\<lparr>unspent_weight = (0, 0), dispatch_level_result = ()\<rparr>, x))
     (\<lambda>proof count x. map_sum (\<lambda>_. ''invalid'') id (verify_messages_proof sample_source_bridge proof count x))
     (\<lambda>proof x. map_sum (\<lambda>_. ''invalid'') id (verify_messages_delivery_proof sample_source_bridge proof x))"

definition sample_target_config where
  "sample_target_config = sample_config (\<lambda>l rs r rng x. x) (\<lambda>r x. x)
     (\<lambda>_ m x. (\<lparr>unspent_weight = (0, 0), dispatch_level_result = ()\<rparr>,
        (fst x, snd x @ [(dmsg_key m, dmd_payload (dmsg_data m))])))
     (\<lambda>proof count x. map_sum (\<lambda>_. ''invalid'') id (verify_messages_proof sample_target_bridge proof count x))
     (\<lambda>proof x. map_sum (\<lambda>_. ''invalid'') id (verify_messages_delivery_proof sample_target_bridge proof x))"

lemma sample_uses_bridge: "uses_bridge sample_source_config sample_source_bridge" "uses_bridge sample_target_config sample_target_bridge"
  by (auto simp: uses_bridge_def sample_source_config_def sample_target_config_def sample_config_def dispatch_weight_keeps_key_def)

lemma sample_logs: "logs_dispatch sample_target_config snd id"
  by (simp add: logs_dispatch_def sample_target_config_def sample_config_def)

lemma sample_bridges_trie:
  "trie_laws sample_root_of (mb_trie sample_source_bridge)" "trie_laws sample_root_of (mb_trie sample_target_bridge)"
  using sample_trie_laws by (simp_all add: sample_source_bridge_def sample_target_bridge_def sample_bridge_for_def)

text \<open>The source after sending the payload \<open>[7]\<close>, and its storage.\<close>

definition sample_sent :: "(nat, nat, unit, u64 \<times> u64) messages_state" where
  "sample_sent = empty_messages_state\<lparr>
     ms_outbound_lanes := [LaneId 0 0 0 1 \<mapsto> \<lparr>oldest_unpruned_nonce = 1, latest_received_nonce = 0, latest_generated_nonce = 1\<rparr>],
     ms_outbound_messages := [\<lparr>mk_lane_id = LaneId 0 0 0 1, mk_nonce = 1\<rparr> \<mapsto> [7]],
     ms_events := [MessageAccepted (LaneId 0 0 0 1) 1]\<rparr>"

definition sample_sent_storage :: sample_hash where
  "sample_sent_storage = [(6 # 16 # message_key_encode \<lparr>mk_lane_id = LaneId 0 0 0 1, mk_nonce = 1\<rparr>, [7]),
     (6 # 13 # lane_id_encode (LaneId 0 0 0 1), [1, 0, 1])]"

lemma sample_sent_stored: "stores_messages_pallet sample_target_bridge (map_of sample_sent_storage) sample_sent"
  by (auto simp: sample_target_bridge_def stores_messages_pallet_def stored_as_def sample_sent_storage_def sample_sent_def
      empty_messages_state_def outbound_message_data_def lane_id_encode_eq) (simp_all add: sample_bridge_for_def)

lemma sample_send_step:
  "messages_step sample_source_config (empty_messages_state, empty_relayers_state) (sample_sent, empty_relayers_state)"
proof (rule step_send [where origin = None and lane = "LaneId 0 0 0 1" and payload = "[7]"
      and a = "\<lparr>sma_nonce = 1, sma_weight = (6, 0)\<rparr>"])
  show "send_message sample_source_config None (LaneId 0 0 0 1) [7] empty_relayers_state empty_messages_state =
      Some (Inr (\<lparr>sma_nonce = 1, sma_weight = (6, 0)\<rparr>, sample_sent))"
    by (simp add: sample_source_config_def sample_config_def sample_sent_def send_message_def ensure_normal_operating_mode_def
        empty_messages_state_def outbound_lane_def lane_send_message_def runtime_outbound_storage_ops_def ros_data_def
        ros_set_data_def ros_save_message_def stored_message_payload_try_from_def outbound_lanes_get_def
        default_outbound_lane_data_def store_outbound_lane_def messages_deposit_event_def Let_def)
qed simp_all

definition sample_delivery :: "sample_hash messages_proof" where
  "sample_delivery = \<lparr>mp_bridged_header_hash = [],
     mp_storage_proof = [6 # 16 # message_key_encode \<lparr>mk_lane_id = LaneId 0 0 0 1, mk_nonce = 1\<rparr>],
     mp_lane = LaneId 0 0 0 1, mp_nonces_start = 1, mp_nonces_end = 1\<rparr>"

lemma sample_delivery_verified:
  "verify_messages_proof sample_target_bridge sample_delivery 1 (Some sample_sent_storage, []) =
     Inr [(LaneId 0 0 0 1, \<lparr>pm_lane_state = None,
       pm_messages = [\<lparr>msg_key = \<lparr>mk_lane_id = LaneId 0 0 0 1, mk_nonce = 1\<rparr>, msg_payload = [7]\<rparr>]\<rparr>)]"
  by (simp add: proof_eval sample_target_bridge_def sample_sent_storage_def sample_delivery_def verify_messages_proof_def
      parse_messages_proof_def checked_sub_def saturating_add_def nonce_range_def read_and_decode_message_payload_def
      read_and_decode_outbound_lane_data_def read_and_decode_opt_value_def)

text \<open>The two chains before and after the delivery.\<close>

type_synonym sample_chains =
  "(nat, nat, unit, u64 \<times> u64, (nat, 128 word) relayers_state, unit, u64 \<times> u64, sample_hash option \<times> sample_log) two_chains"

definition sample_start :: sample_chains where
  "sample_start = two_chains_start empty_relayers_state (None, [])"

definition sample_before :: sample_chains where
  "sample_before = sample_start\<lparr>tc_source := sample_sent, tc_source_past := {sample_sent, empty_messages_state},
     tc_target_world := (Some sample_sent_storage, [])\<rparr>"

definition sample_after :: "(nat, nat, unit, u64 \<times> u64) messages_state \<Rightarrow> sample_hash option \<times> sample_log \<Rightarrow> sample_chains" where
  "sample_after t x = sample_before\<lparr>tc_target := t, tc_target_world := x, tc_target_past := insert t (tc_target_past sample_before)\<rparr>"

lemma sample_finalized [simp]:
  "mb_finalized_header_state_root sample_source_bridge x hash =
     (if hash = [] \<and> rs_events x \<noteq> [] then Some sample_delivered_storage else None)"
  "mb_finalized_header_state_root sample_target_bridge y hash = (if hash = [] then fst y else None)"
  by (simp_all add: sample_source_bridge_def sample_target_bridge_def sample_bridge_for_def)

lemma sample_knows:
  "rs_events x = [] \<or> (\<exists>t \<in> states. stores_messages_pallet sample_source_bridge (map_of sample_delivered_storage) t) \<Longrightarrow>
    knows_headers sample_root_of sample_source_bridge x states"
  "knows_headers sample_root_of sample_target_bridge (None, log) states'"
  "sample_sent \<in> states' \<Longrightarrow> knows_headers sample_root_of sample_target_bridge (Some sample_sent_storage, log) states'"
  using sample_sent_stored by (auto simp: knows_headers_def sample_root_of_def)

abbreviation sample_two_chains_step where
  "sample_two_chains_step \<equiv> two_chains_step sample_root_of sample_root_of sample_source_config sample_source_bridge
     sample_target_config sample_target_bridge snd"

lemma sample_reaches_before: "sample_two_chains_step\<^sup>*\<^sup>* sample_start sample_before"
proof -
  define c1 where "c1 = sample_start\<lparr>tc_source := sample_sent, tc_source_world := empty_relayers_state,
    tc_source_past := insert sample_sent (tc_source_past sample_start)\<rparr>"
  have one: "sample_two_chains_step sample_start c1"
    unfolding c1_def
    by (rule source_moves)
       (use sample_send_step in \<open>simp_all add: sample_start_def two_chains_start_def sample_knows empty_relayers_state_def\<close>)
  have "sample_two_chains_step c1 (c1\<lparr>tc_target := tc_target c1, tc_target_world := (Some sample_sent_storage, []),
      tc_target_past := insert (tc_target c1) (tc_target_past c1)\<rparr>)"
    by (rule target_moves) (simp_all add: step_world c1_def sample_start_def two_chains_start_def sample_knows)
  moreover have "c1\<lparr>tc_target := tc_target c1, tc_target_world := (Some sample_sent_storage, []),
      tc_target_past := insert (tc_target c1) (tc_target_past c1)\<rparr> = sample_before"
    by (simp add: c1_def sample_before_def sample_start_def two_chains_start_def)
  ultimately have "sample_two_chains_step c1 sample_before" by simp
  then have "sample_two_chains_step\<^sup>*\<^sup>* c1 sample_before" by (rule r_into_rtranclp)
  with one show ?thesis by (rule converse_rtranclp_into_rtranclp)
qed

lemma sample_receive_step:
  "\<exists>w ms'. receive_messages_proof sample_target_config (Some 1) 5 sample_delivery 1 (10, 0) empty_messages_state
      (Some sample_sent_storage, []) =
     Inr (w, ms', (Some sample_sent_storage, [(\<lparr>mk_lane_id = LaneId 0 0 0 1, mk_nonce = 1\<rparr>, [7])])) \<and>
     ms_inbound_lanes ms' = [LaneId 0 0 0 1 \<mapsto> \<lparr>relayers = [\<lparr>ur_relayer = 5, ur_messages = \<lparr>dm_begin = 1, dm_end = 1\<rparr>\<rparr>],
       last_confirmed_nonce = 0\<rparr>]"
  by (simp add: messages_eval sample_target_config_def sample_delivery_verified)

lemma sample_reaches_after:
  obtains t x where "sample_two_chains_step\<^sup>*\<^sup>* sample_start (sample_after t x)"
    "ms_inbound_lanes t = [LaneId 0 0 0 1 \<mapsto> \<lparr>relayers = [\<lparr>ur_relayer = 5, ur_messages = \<lparr>dm_begin = 1, dm_end = 1\<rparr>\<rparr>],
       last_confirmed_nonce = 0\<rparr>]"
    "stores_messages_pallet sample_source_bridge (map_of sample_delivered_storage) t"
proof -
  obtain w t x where run: "receive_messages_proof sample_target_config (Some 1) 5 sample_delivery 1 (10, 0)
      (tc_target sample_before) (tc_target_world sample_before) = Inr (w, t, x)"
    and t: "ms_inbound_lanes t = [LaneId 0 0 0 1 \<mapsto> \<lparr>relayers = [\<lparr>ur_relayer = 5, ur_messages = \<lparr>dm_begin = 1, dm_end = 1\<rparr>\<rparr>],
       last_confirmed_nonce = 0\<rparr>]"
    using sample_receive_step by (auto simp: sample_before_def sample_start_def two_chains_start_def)
  have "sample_two_chains_step sample_before (sample_after t x)"
    unfolding sample_after_def by (rule target_receives [OF run]) (simp add: sample_before_def sample_start_def sample_knows)
  with sample_reaches_before have reach: "sample_two_chains_step\<^sup>*\<^sup>* sample_start (sample_after t x)"
    by (rule rtranclp.rtrancl_into_rtrancl)
  have "tc_target sample_before = empty_messages_state" by (simp add: sample_before_def sample_start_def two_chains_start_def)
  then have "ms_outbound_lanes t = Map.empty" "ms_outbound_messages t = Map.empty"
    using receive_messages_outbound_frame [OF run] by (simp_all add: empty_messages_state_def)
  then have "stores_messages_pallet sample_source_bridge (map_of sample_delivered_storage) t"
    by (auto simp: sample_source_bridge_def stores_messages_pallet_def stored_as_def sample_delivered_storage_def t
      outbound_message_data_def lane_id_encode_eq) (simp_all add: sample_bridge_for_def)
  then show thesis using that reach t by blast
qed

text \<open>The confirmation of the delivery.\<close>

definition sample_rewards :: "(nat, 128 word) relayers_state" where
  "sample_rewards = \<lparr>rs_relayer_rewards = Map.empty,
     rs_events = [RewardPaid 9 (rewards_account_params_new (LaneId 0 0 0 0) (1, 2, 3, 4) ThisChain) 1]\<rparr>"

definition sample_confirmation :: "sample_hash messages_delivery_proof" where
  "sample_confirmation = \<lparr>mdp_bridged_header_hash = [], mdp_storage_proof = [6 # 12 # lane_id_encode (LaneId 0 0 0 1)],
     mdp_lane = LaneId 0 0 0 1\<rparr>"

lemma sample_confirmation_verified:
  "mc_verify_messages_delivery_proof sample_source_config sample_confirmation sample_rewards =
     Inr (LaneId 0 0 0 1, \<lparr>relayers = [\<lparr>ur_relayer = 5, ur_messages = \<lparr>dm_begin = 1, dm_end = 1\<rparr>\<rparr>], last_confirmed_nonce = 0\<rparr>)"
  by (simp add: proof_eval sample_source_config_def sample_config_def sample_source_bridge_def sample_delivered_storage_def
      sample_confirmation_def sample_rewards_def parse_delivery_proof_def verify_messages_delivery_proof_def)

lemma sample_sent_confirmed: "confirmed sample_sent (LaneId 0 0 0 1) = 0"
  by (simp add: sample_sent_def pallet_outbound_lane_data_def outbound_lanes_get_def)

lemma sample_source_config_simps:
  "ensure_signed sample_source_config = id" "mc_maximal_outbound_payload_size sample_source_config = 3"
  "mc_pay_confirmation_reward sample_source_config = adapter_pay_reward (1, 2, 3, 4) 50"
  by (simp_all add: sample_source_config_def sample_config_def fun_eq_iff)

lemma sample_confirm_step:
  "\<exists>ms' x'. receive_messages_delivery_proof sample_source_config (Some 1) sample_confirmation
       \<lparr>unrewarded_relayer_entries = 1, messages_in_oldest_entry = 1, total_messages_in_state = 1,
        last_delivered_nonce_in_state = 1\<rparr> sample_sent sample_rewards = Inr (ms', x') \<and> confirmed ms' (LaneId 0 0 0 1) = 1"
  by (simp add: receive_messages_delivery_proof_def sample_confirmation_verified sample_source_config_simps sample_sent_def
      empty_messages_state_def ensure_not_halted_def is_halted_def basic_is_halted_def last_delivered_nonce_def
      total_unrewarded_messages_def checked_sub_def checked_add_def outbound_lane_def confirm_delivery_def runtime_outbound_storage_ops_def
      ros_data_def ros_set_data_def outbound_lanes_get_def ensure_unrewarded_relayers_are_correct_def
      store_outbound_lane_def pallet_outbound_lane_data_def messages_deposit_event_def Let_def)

end
