(* ===== verification/Call_Extensions.thy ===== *)
theory Call_Extensions
  imports Runtime_Messages Grandpa_Pallet Parachains_Pallet Relayers
begin

text \<open>
  Transaction extensions of a bridge runtime (\<open>bin/runtime-common/src\<close>): recognition of messages
  calls (\<open>messages_call_ext.rs\<close>), rejection of obsolete calls (\<open>lib.rs\<close>) and the refund of useful
  transactions (\<open>refund_relayer_extension.rs\<close>).

  The calls of a runtime are a parameter \<open>'call\<close>, with the functions \<open>is_sub_type\<close> that extract the
  calls of a pallet. The fee calculation of the transaction payment pallet is a parameter, too.
\<close>

section \<open>Calls of the messages pallet (messages\_call\_ext.rs)\<close>

datatype ('acc, 'r, 'hash, 'w) messages_call =
    Call_messages_set_owner "'acc option"
  | Call_messages_set_operating_mode messages_operating_mode
  | Call_receive_messages_proof 'r "'hash messages_proof" u32 'w
  | Call_receive_messages_delivery_proof "'hash messages_delivery_proof" unrewarded_relayers_state

record base_messages_proof_info =
  bmp_lane_id :: lane_id
  bmp_best_bundled_nonce :: message_nonce
  bmp_best_stored_nonce :: message_nonce

definition bmp_is_obsolete :: "base_messages_proof_info \<Rightarrow> bool" where
  "bmp_is_obsolete info \<longleftrightarrow> bmp_best_bundled_nonce info \<le> bmp_best_stored_nonce info"

datatype messages_call_info =
    ReceiveMessagesProof base_messages_proof_info
  | ReceiveMessagesDeliveryProof base_messages_proof_info

fun was_partially_successful :: "messages_call_info \<Rightarrow> ('acc, 'r, 'd, 'w) messages_state \<Rightarrow> bool" where
  "was_partially_successful (ReceiveMessagesProof info) ms \<longleftrightarrow>
     bmp_best_stored_nonce info < last_delivered_nonce (inbound_lanes_get (ms_inbound_lanes ms) (bmp_lane_id info))"
| "was_partially_successful (ReceiveMessagesDeliveryProof info) ms \<longleftrightarrow>
     bmp_best_stored_nonce info < latest_received_nonce (outbound_lanes_get (ms_outbound_lanes ms) (bmp_lane_id info))"

definition receive_messages_proof_info ::
  "('call \<Rightarrow> ('acc, 'r, 'hash, 'w) messages_call option) \<Rightarrow> 'call \<Rightarrow> ('acc, 'r, 'd, 'w) messages_state \<Rightarrow>
     base_messages_proof_info option" where
  "receive_messages_proof_info is_sub_type call ms =
     (case is_sub_type call of
        Some (Call_receive_messages_proof _ proof _ _) \<Rightarrow>
          let inbound_lane_data = inbound_lanes_get (ms_inbound_lanes ms) (mp_lane proof)
          in Some \<lparr>bmp_lane_id = mp_lane proof, bmp_best_bundled_nonce = mp_nonces_end proof,
               bmp_best_stored_nonce = last_delivered_nonce inbound_lane_data\<rparr>
      | _ \<Rightarrow> None)"

definition receive_messages_delivery_proof_info ::
  "('call \<Rightarrow> ('acc, 'r, 'hash, 'w) messages_call option) \<Rightarrow> 'call \<Rightarrow> ('acc, 'r, 'd, 'w) messages_state \<Rightarrow>
     base_messages_proof_info option" where
  "receive_messages_delivery_proof_info is_sub_type call ms =
     (case is_sub_type call of
        Some (Call_receive_messages_delivery_proof proof relayers_state) \<Rightarrow>
          let outbound_lane_data = outbound_lanes_get (ms_outbound_lanes ms) (mdp_lane proof)
          in Some \<lparr>bmp_lane_id = mdp_lane proof, bmp_best_bundled_nonce = last_delivered_nonce_in_state relayers_state,
               bmp_best_stored_nonce = latest_received_nonce outbound_lane_data\<rparr>
      | _ \<Rightarrow> None)"

definition messages_call_info_of ::
  "('call \<Rightarrow> ('acc, 'r, 'hash, 'w) messages_call option) \<Rightarrow> 'call \<Rightarrow> ('acc, 'r, 'd, 'w) messages_state \<Rightarrow>
     messages_call_info option" where
  "messages_call_info_of is_sub_type call ms =
     (case receive_messages_proof_info is_sub_type call ms of
        Some info \<Rightarrow> Some (ReceiveMessagesProof info)
      | None \<Rightarrow>
          (case receive_messages_delivery_proof_info is_sub_type call ms of
             Some info \<Rightarrow> Some (ReceiveMessagesDeliveryProof info)
           | None \<Rightarrow> None))"

fun messages_call_lane :: "messages_call_info \<Rightarrow> lane_id" where
  "messages_call_lane (ReceiveMessagesProof info) = bmp_lane_id info"
| "messages_call_lane (ReceiveMessagesDeliveryProof info) = bmp_lane_id info"

definition call_info_for ::
  "('call \<Rightarrow> ('acc, 'r, 'hash, 'w) messages_call option) \<Rightarrow> 'call \<Rightarrow> lane_id \<Rightarrow> ('acc, 'r, 'd, 'w) messages_state \<Rightarrow>
     messages_call_info option" where
  "call_info_for is_sub_type call lane_id ms =
     (case messages_call_info_of is_sub_type call ms of
        Some info \<Rightarrow> if messages_call_lane info = lane_id then Some info else None
      | None \<Rightarrow> None)"

definition check_obsolete_call ::
  "('call \<Rightarrow> ('acc, 'r, 'hash, 'w) messages_call option) \<Rightarrow> 'call \<Rightarrow> ('acc, 'r, 'd, 'w) messages_state \<Rightarrow>
     invalid_transaction + unit" where
  "check_obsolete_call is_sub_type call ms =
     (case messages_call_info_of is_sub_type call ms of
        Some (ReceiveMessagesProof proof_info) \<Rightarrow> if bmp_is_obsolete proof_info then Inl Stale else Inr ()
      | Some (ReceiveMessagesDeliveryProof proof_info) \<Rightarrow> if bmp_is_obsolete proof_info then Inl Stale else Inr ()
      | None \<Rightarrow> Inr ())"

section \<open>Rejection of obsolete calls (lib.rs)\<close>

text \<open>
  The macro declares an extension with a list of filters, one per pallet; its \<open>validate\<close> fails with
  the error of the first filter that rejects the call.
\<close>

fun reject_obsolete_validate :: "('call \<Rightarrow> 's \<Rightarrow> invalid_transaction + unit) list \<Rightarrow> 'call \<Rightarrow> 's \<Rightarrow> invalid_transaction + unit" where
  "reject_obsolete_validate [] call s = Inr ()"
| "reject_obsolete_validate (filter_call # filter_calls) call s =
     (case filter_call call s of
        Inl e \<Rightarrow> Inl e
      | Inr _ \<Rightarrow> reject_obsolete_validate filter_calls call s)"

definition reject_obsolete_pre_dispatch ::
  "('call \<Rightarrow> 's \<Rightarrow> invalid_transaction + unit) list \<Rightarrow> 'call \<Rightarrow> 's \<Rightarrow> invalid_transaction + unit" where
  "reject_obsolete_pre_dispatch filter_calls call s = reject_obsolete_validate filter_calls call s"

section \<open>Refunds (refund\_relayer\_extension.rs)\<close>

text \<open>The utility pallet: a batch of calls, or another call of the pallet.\<close>

datatype 'call utility_call = Call_batch_all "'call list" | Call_other_utility

record 'w dispatch_info =
  di_weight :: 'w

record ('acc, 'hash, 'id, 'r, 'd, 'w, 'reward) bridge_runtime =
  br_grandpa :: "('acc, 'hash, u32, 'id) grandpa_state"
  br_parachains :: "('acc, 'hash) parachains_state"
  br_messages :: "('acc, 'r, 'd, 'w) messages_state"
  br_relayers :: "('acc, 'reward) relayers_state"

record ('call, 'o, 'acc, 'header, 'hash, 'item, 'id, 'sig, 'r, 'mhash, 'w, 'reward) refund_config =
  rc_grandpa :: "('o, 'acc, 'header, 'hash, u32, 'item, 'id, 'sig, 'w) grandpa_config"
  rc_is_utility :: "'call \<Rightarrow> 'call utility_call option"
  rc_is_grandpa :: "'call \<Rightarrow> ('acc, 'hash, u32, 'id, 'sig, 'header) grandpa_call option"
  rc_is_parachains :: "'call \<Rightarrow> ('acc, 'hash) parachains_call option"
  rc_is_messages :: "'call \<Rightarrow> ('acc, 'r, 'mhash, 'w) messages_call option"
  rc_para_id :: u32
  rc_lane_id :: lane_id
  rc_bridged_chain_id :: chain_id
  rc_compute_refund :: "'w dispatch_info \<Rightarrow> 'w post_dispatch_info \<Rightarrow> nat \<Rightarrow> 'reward \<Rightarrow> 'reward"

text \<open>\<open>ActualFeeRefund\<close>: the fee of the transaction payment pallet, for a length that is cast to \<open>u32\<close>.\<close>

definition actual_fee_refund ::
  "(u32 \<Rightarrow> 'w dispatch_info \<Rightarrow> 'w post_dispatch_info \<Rightarrow> 'reward \<Rightarrow> 'reward) \<Rightarrow>
     'w dispatch_info \<Rightarrow> 'w post_dispatch_info \<Rightarrow> nat \<Rightarrow> 'reward \<Rightarrow> 'reward" where
  "actual_fee_refund compute_actual_fee info post_info len tip = compute_actual_fee (of_nat len) info post_info tip"

datatype ('hash, 'w) refund_call_info =
    AllFinalityAndMsgs "(u32, 'w) submit_finality_proof_info" "'hash submit_parachain_heads_info" messages_call_info
  | ParachainFinalityAndMsgs "'hash submit_parachain_heads_info" messages_call_info
  | Msgs messages_call_info

fun refund_submit_finality_proof_info :: "('hash, 'w) refund_call_info \<Rightarrow> (u32, 'w) submit_finality_proof_info option" where
  "refund_submit_finality_proof_info (AllFinalityAndMsgs info _ _) = Some info"
| "refund_submit_finality_proof_info (ParachainFinalityAndMsgs _ _) = None"
| "refund_submit_finality_proof_info (Msgs _) = None"

fun refund_submit_parachain_heads_info :: "('hash, 'w) refund_call_info \<Rightarrow> 'hash submit_parachain_heads_info option" where
  "refund_submit_parachain_heads_info (AllFinalityAndMsgs _ info _) = Some info"
| "refund_submit_parachain_heads_info (ParachainFinalityAndMsgs info _) = Some info"
| "refund_submit_parachain_heads_info (Msgs _) = None"

fun refund_messages_call_info :: "('hash, 'w) refund_call_info \<Rightarrow> messages_call_info" where
  "refund_messages_call_info (AllFinalityAndMsgs _ _ info) = info"
| "refund_messages_call_info (ParachainFinalityAndMsgs _ info) = info"
| "refund_messages_call_info (Msgs info) = info"

record ('acc, 'hash, 'w) pre_dispatch_data =
  pd_relayer :: 'acc
  pd_call_info :: "('hash, 'w) refund_call_info"

definition expand_call ::
  "('call, 'o, 'acc, 'header, 'hash, 'item, 'id, 'sig, 'r, 'mhash, 'w, 'reward) refund_config \<Rightarrow> 'call \<Rightarrow> 'call list option" where
  "expand_call R call =
     (case rc_is_utility R call of
        Some (Call_batch_all calls) \<Rightarrow> if 3 < length calls then None else Some calls
      | Some _ \<Rightarrow> None
      | None \<Rightarrow> Some [call])"

definition refund_validate_nested ::
  "('call, 'o, 'acc, 'header, 'hash, 'item, 'id, 'sig, 'r, 'mhash, 'w, 'reward) refund_config \<Rightarrow> 'call \<Rightarrow>
     ('acc, 'hash, 'id, 'r, 'd, 'w, 'reward) bridge_runtime \<Rightarrow> invalid_transaction + unit" where
  "refund_validate_nested R nested_call s =
     (case check_obsolete_submit_finality_proof (rc_grandpa R) (rc_is_grandpa R) nested_call (br_grandpa s) of
        Inl e \<Rightarrow> Inl e
      | Inr _ \<Rightarrow>
     case check_obsolete_submit_parachain_heads (rc_is_parachains R) nested_call (br_parachains s) of
        Inl e \<Rightarrow> Inl e
      | Inr _ \<Rightarrow> check_obsolete_call (rc_is_messages R) nested_call (br_messages s))"

fun refund_validate_calls ::
  "('call, 'o, 'acc, 'header, 'hash, 'item, 'id, 'sig, 'r, 'mhash, 'w, 'reward) refund_config \<Rightarrow> 'call list \<Rightarrow>
     ('acc, 'hash, 'id, 'r, 'd, 'w, 'reward) bridge_runtime \<Rightarrow> invalid_transaction + unit" where
  "refund_validate_calls R [] s = Inr ()"
| "refund_validate_calls R (nested_call # calls) s =
     (case refund_validate_nested R nested_call s of
        Inl e \<Rightarrow> Inl e
      | Inr _ \<Rightarrow> refund_validate_calls R calls s)"

definition refund_validate ::
  "('call, 'o, 'acc, 'header, 'hash, 'item, 'id, 'sig, 'r, 'mhash, 'w, 'reward) refund_config \<Rightarrow> 'call \<Rightarrow>
     ('acc, 'hash, 'id, 'r, 'd, 'w, 'reward) bridge_runtime \<Rightarrow> invalid_transaction + unit" where
  "refund_validate R call s =
     (case expand_call R call of
        Some calls \<Rightarrow> refund_validate_calls R calls s
      | None \<Rightarrow> Inr ())"

definition refund_parse_call ::
  "('call, 'o, 'acc, 'header, 'hash, 'item, 'id, 'sig, 'r, 'mhash, 'w, 'reward) refund_config \<Rightarrow> 'call \<Rightarrow>
     ('acc, 'hash, 'id, 'r, 'd, 'w, 'reward) bridge_runtime \<Rightarrow> ('hash, 'w) refund_call_info option" where
  "refund_parse_call R call s = do {
     calls \<leftarrow> expand_call R call;
     (case calls of
        [c1, c2, c3] \<Rightarrow> do {
          finality_info \<leftarrow> call_submit_finality_proof_info (rc_grandpa R) (rc_is_grandpa R) c1;
          para_info \<leftarrow> submit_parachain_heads_info_for (rc_is_parachains R) c2 (rc_para_id R);
          msgs_info \<leftarrow> call_info_for (rc_is_messages R) c3 (rc_lane_id R) (br_messages s);
          Some (AllFinalityAndMsgs finality_info para_info msgs_info) }
      | [c1, c2] \<Rightarrow> do {
          para_info \<leftarrow> submit_parachain_heads_info_for (rc_is_parachains R) c1 (rc_para_id R);
          msgs_info \<leftarrow> call_info_for (rc_is_messages R) c2 (rc_lane_id R) (br_messages s);
          Some (ParachainFinalityAndMsgs para_info msgs_info) }
      | [c1] \<Rightarrow> do {
          msgs_info \<leftarrow> call_info_for (rc_is_messages R) c1 (rc_lane_id R) (br_messages s);
          Some (Msgs msgs_info) }
      | _ \<Rightarrow> None)
   }"

definition refund_pre_dispatch ::
  "('call, 'o, 'acc, 'header, 'hash, 'item, 'id, 'sig, 'r, 'mhash, 'w, 'reward) refund_config \<Rightarrow> 'acc \<Rightarrow> 'call \<Rightarrow>
     ('acc, 'hash, 'id, 'r, 'd, 'w, 'reward) bridge_runtime \<Rightarrow>
     invalid_transaction + ('acc, 'hash, 'w) pre_dispatch_data option" where
  "refund_pre_dispatch R who call s =
     (case refund_validate R call s of
        Inl e \<Rightarrow> Inl e
      | Inr _ \<Rightarrow> Inr (map_option (\<lambda>call_info. \<lparr>pd_relayer = who, pd_call_info = call_info\<rparr>) (refund_parse_call R call s)))"

text \<open>
  \<open>post_dispatch\<close> always returns \<open>Ok(())\<close>; its effect is on the relayers pallet. The argument \<open>pre\<close> is
  \<open>None\<close> for unsigned transactions.
\<close>

definition refund_post_dispatch ::
  "('call, 'o, 'acc, 'header, 'hash, 'item, 'id, 'sig, 'r, 'mhash, 'w, 'l::len word) refund_config \<Rightarrow>
     ('acc, 'hash, 'w) pre_dispatch_data option option \<Rightarrow> 'w dispatch_info \<Rightarrow> 'w post_dispatch_info \<Rightarrow> nat \<Rightarrow>
     ('e + unit) \<Rightarrow> ('acc, 'hash, 'id, 'r, 'd, 'w, 'l word) bridge_runtime \<Rightarrow>
     ('acc, 'hash, 'id, 'r, 'd, 'w, 'l word) bridge_runtime" where
  "refund_post_dispatch R pre info post_info len result s =
     (let W = gc_weight_ops (rc_grandpa R); extra_weight = w_zero W; extra_size = 0
      in case result of
           Inl _ \<Rightarrow> s
         | Inr _ \<Rightarrow>
      (case pre of
         Some (Some pre) \<Rightarrow>
           let relayer = pd_relayer pre; call_info = pd_call_info pre;
               finality = refund_submit_finality_proof_info call_info
           in if \<not> (case finality of Some finality_proof_info \<Rightarrow> was_successful (sfp_block_number finality_proof_info) (br_grandpa s)
                                  | None \<Rightarrow> True)
              then s
              else
              let extra_weight = (case finality of Some finality_proof_info \<Rightarrow> sfp_extra_weight finality_proof_info | None \<Rightarrow> extra_weight);
                  extra_size = (case finality of Some finality_proof_info \<Rightarrow> sfp_extra_size finality_proof_info | None \<Rightarrow> extra_size)
              in if \<not> (case refund_submit_parachain_heads_info call_info of
                          Some para_proof_info \<Rightarrow> para_was_successful para_proof_info (br_parachains s)
                        | None \<Rightarrow> True)
                 then s
                 else
                 let msgs_call_info = refund_messages_call_info call_info
                 in if \<not> was_partially_successful msgs_call_info (br_messages s) then s
                    else
                    let tip = 0;
                        post_info_len = len - unat extra_size;
                        post_info = post_info\<lparr>actual_weight := Some (w_saturating_sub W
                          (case actual_weight post_info of Some weight \<Rightarrow> weight | None \<Rightarrow> di_weight info) extra_weight)\<rparr>;
                        refund = rc_compute_refund R info post_info post_info_len tip;
                        rewards_account_owner = (case msgs_call_info of
                            ReceiveMessagesProof _ \<Rightarrow> ThisChain
                          | ReceiveMessagesDeliveryProof _ \<Rightarrow> BridgedChain)
                    in s\<lparr>br_relayers := register_relayer_reward
                           (rewards_account_params_new (rc_lane_id R) (rc_bridged_chain_id R) rewards_account_owner)
                           relayer refund (br_relayers s)\<rparr>
       | _ \<Rightarrow> s))"

end
