(* ===== verification/Refund_Properties.thy ===== *)
theory Refund_Properties
  imports Call_Extensions Grandpa_Properties Parachains_Properties Relayers_Properties Protocol_Properties
begin

text \<open>
  Properties of the transaction extensions: the check for obsolete messages calls agrees with the
  calls, and refunds are registered exactly for transactions that advance the bridge.
\<close>

section \<open>Obsolete messages calls\<close>

lemma read_messages_keys:
  "read_messages B lane ns st = (Inr messages, st') \<Longrightarrow>
     map msg_key messages = map (\<lambda>n. \<lparr>mk_lane_id = lane, mk_nonce = n\<rparr>) ns"
proof (induction ns arbitrary: messages st)
  case (Cons n ns)
  from Cons.prems obtain p st1 ms st2 where "read_and_decode_message_payload B \<lparr>mk_lane_id = lane, mk_nonce = n\<rparr> st = (Inr p, st1)"
    and ms: "read_messages B lane ns st1 = (Inr ms, st2)" and "messages = \<lparr>msg_key = \<lparr>mk_lane_id = lane, mk_nonce = n\<rparr>, msg_payload = p\<rparr> # ms"
    by (auto simp: Let_def map_sum_eq_Inr_iff split: prod.splits sum.splits)
  then show ?case using Cons.IH [of st1 ms] Cons.prems by (auto simp: Let_def)
qed simp

lemma verified_nonces:
  assumes "verify_messages_proof B proof count x = Inr proved" and "(lane, ld) \<in> set proved"
  shows "lane = mp_lane proof" and "m \<in> set (pm_messages ld) \<Longrightarrow>
      mp_nonces_start proof \<le> mk_nonce (msg_key m) \<and> mk_nonce (msg_key m) \<le> mp_nonces_end proof"
proof -
  obtain messages st' st where keys: "read_messages B (mp_lane proof)
      (nonce_range (mp_nonces_start proof) (mp_nonces_end proof)) st = (Inr messages, st')"
    and proved: "lane = mp_lane proof" "pm_messages ld = messages"
    using assms by (elim verify_messages_proof_Inr) auto
  show "lane = mp_lane proof" by (rule proved(1))
  assume "m \<in> set (pm_messages ld)"
  then have "msg_key m \<in> set (map msg_key messages)" by (simp add: proved(2))
  then show "mp_nonces_start proof \<le> mk_nonce (msg_key m) \<and> mk_nonce (msg_key m) \<le> mp_nonces_end proof"
    unfolding read_messages_keys [OF keys] by auto
qed

lemma verified_delivery_lane: "verify_messages_delivery_proof B proof x = Inr (lane, ld) \<Longrightarrow> lane = mdp_lane proof"
  by (auto simp: verify_messages_delivery_proof_def parse_finalized_storage_proof_def parse_delivery_proof_def Let_def
      split: option.splits sum.splits prod.splits)

lemma receive_messages_delivered:
  fixes C :: "('o, 'acc, 'r, 'hash messages_proof, 'hash messages_delivery_proof, 'op, 'p, 'd, 'w, 'x) messages_config"
    and ms :: "('acc, 'r, 'd, 'w) messages_state"
  assumes call: "receive_messages_proof C origin rb proof count dw ms x = Inr (w, ms', x')"
    and bridge: "uses_bridge C B" and start: "mp_nonces_start proof \<noteq> 0" and ok: "inbound_lanes_ok C (ms_inbound_lanes ms)"
  shows "delivered ms lane \<le> delivered ms' lane"
    and "lane \<noteq> mp_lane proof \<Longrightarrow> delivered ms' lane = delivered ms lane"
    and "delivered ms' (mp_lane proof) \<le> max (delivered ms (mp_lane proof)) (mp_nonces_end proof)"
proof -
  obtain proved where proved: "mc_verify_messages_proof C proof count x = Inr proved"
    using call by (elim receive_messages_proof_Inr verify_and_decode_Inr)
  then have ver: "verify_messages_proof B proof count x = Inr proved"
    using bridge by (auto simp: uses_bridge_def map_sum_eq_Inr_iff)
  have nz: "mk_nonce (msg_key m) \<noteq> 0" if "(lane, ld) \<in> set proved" "m \<in> set (pm_messages ld)" for lane ld m
    using verified_nonces(2) [OF ver that] start by auto
  define Q :: "(lane_id \<Rightarrow> 'r inbound_lane_data) \<Rightarrow> 'x \<Rightarrow> bool" where
    "Q f y \<longleftrightarrow> (\<forall>lane. inbound_wf (f lane) \<and> delivered ms lane \<le> last_delivered_nonce (f lane) \<and>
       (lane \<noteq> mp_lane proof \<longrightarrow> last_delivered_nonce (f lane) = delivered ms lane)) \<and>
       last_delivered_nonce (f (mp_lane proof)) \<le> max (delivered ms (mp_lane proof)) (mp_nonces_end proof)"
    for f and y :: 'x
  have "Q (pallet_inbound_lane_data ms') x'"
  proof (rule receive_messages_induct [where Q = Q, OF call proved], goal_cases)
    case 1
    then show ?case using ok by (simp add: Q_def inbound_lanes_ok_def inbound_ok_def pallet_inbound_lane_data_def)
  next
    case 2
    then show ?case using bridge by (simp add: uses_bridge_def)
  next
    case (3 f y lane ld out)
    then show ?case using confirm_data_ok(1,2) [of "f lane" "latest_received_nonce out"] by (auto simp: Q_def)
  next
    case (4 f y rt lane ld m)
    note lane = verified_nonces [OF ver 4(2)]
    have "inbound_wf (f lane)" and "unat (delivered ms lane) \<le> Suc (unat (last_delivered_nonce (f lane)))"
      using 4(1) by (auto simp: Q_def word_le_nat_alt le_SucI)
    from this(2) deliver_data_ok(1,2) [OF this(1) 4(4) nz [OF 4(2,3)], of rb] deliver_data_ok(5) [OF this(1) 4(4) nz [OF 4(2,3)]]
      4(1) lane(1) lane(2) [OF 4(3)] show ?case
      by (auto simp: Q_def word_le_nat_alt max_def)
  next
    case (5 f y relayer total valid w)
    then show ?case by (simp add: Q_def)
  qed
  then show "delivered ms lane \<le> delivered ms' lane" "lane \<noteq> mp_lane proof \<Longrightarrow> delivered ms' lane = delivered ms lane"
    "delivered ms' (mp_lane proof) \<le> max (delivered ms (mp_lane proof)) (mp_nonces_end proof)"
    by (simp_all add: Q_def)
qed

section \<open>Refunds\<close>

text \<open>
  What a recognised transaction is meant to achieve between two states of the runtime: the relay
  chain header and the parachain head of its calls become the best ones, which they were not before,
  and its lane has new delivered or confirmed messages.
\<close>

definition finality_advanced :: "'number::linorder \<Rightarrow> ('acc, 'hash, 'number, 'id) grandpa_state \<Rightarrow> ('acc, 'hash, 'number, 'id) grandpa_state \<Rightarrow> bool" where
  "finality_advanced n g g' \<longleftrightarrow>
     (\<exists>b b'. gs_best_finalized g = Some b \<and> gs_best_finalized g' = Some b' \<and> hid_number b < n \<and> hid_number b' = n)"

definition head_advanced ::
  "'hash submit_parachain_heads_info \<Rightarrow> ('acc, 'hash) parachains_state \<Rightarrow> ('acc, 'hash) parachains_state \<Rightarrow> bool" where
  "head_advanced upd p p' \<longleftrightarrow>
     (\<forall>i. ps_paras_info p (sph_para_id upd) = Some i \<longrightarrow>
        at_relay_block_number (best_head_hash i) < sph_at_relay_block_number upd \<and>
        head_hash (best_head_hash i) \<noteq> sph_para_head_hash upd) \<and>
     (\<exists>i. ps_paras_info p' (sph_para_id upd) = Some i \<and> best_head_hash i =
        \<lparr>at_relay_block_number = sph_at_relay_block_number upd, head_hash = sph_para_head_hash upd\<rparr>)"

fun lane_advanced :: "messages_call_info \<Rightarrow> ('acc, 'r, 'd, 'w) messages_state \<Rightarrow> ('acc, 'r, 'd, 'w) messages_state \<Rightarrow> bool" where
  "lane_advanced (ReceiveMessagesProof i) ms ms' \<longleftrightarrow> delivered ms (bmp_lane_id i) < delivered ms' (bmp_lane_id i)"
| "lane_advanced (ReceiveMessagesDeliveryProof i) ms ms' \<longleftrightarrow> confirmed ms (bmp_lane_id i) < confirmed ms' (bmp_lane_id i)"

definition refund_progress ::
  "('hash, 'w) refund_call_info \<Rightarrow> ('acc, 'hash, 'id, 'r, 'd, 'w, 'reward) bridge_runtime \<Rightarrow>
     ('acc, 'hash, 'id, 'r, 'd, 'w, 'reward) bridge_runtime \<Rightarrow> bool" where
  "refund_progress ci s s' \<longleftrightarrow>
     (\<forall>i. refund_submit_finality_proof_info ci = Some i \<longrightarrow> finality_advanced (sfp_block_number i) (br_grandpa s) (br_grandpa s')) \<and>
     (\<forall>u. refund_submit_parachain_heads_info ci = Some u \<longrightarrow> head_advanced u (br_parachains s) (br_parachains s')) \<and>
     lane_advanced (refund_messages_call_info ci) (br_messages s) (br_messages s')"

text \<open>
  The refund: the fee without a tip, for the weight and the length without the excess of the
  justification; it is paid by the account of this chain for deliveries, and by the account of the
  bridged chain for confirmations.
\<close>

definition refund_amount ::
  "('call, 'o, 'acc, 'header, 'hash, 'item, 'id, 'sig, 'r, 'mhash, 'w, 'l::len word) refund_config \<Rightarrow>
     ('hash, 'w) refund_call_info \<Rightarrow> 'w dispatch_info \<Rightarrow> 'w post_dispatch_info \<Rightarrow> nat \<Rightarrow> 'l word" where
  "refund_amount R ci info post_info len =
     (let weight = (case actual_weight post_info of Some w \<Rightarrow> w | None \<Rightarrow> di_weight info);
          (extra_weight, extra_size) = (case refund_submit_finality_proof_info ci of
             Some i \<Rightarrow> (sfp_extra_weight i, unat (sfp_extra_size i)) | None \<Rightarrow> (w_zero (gc_weight_ops (rc_grandpa R)), 0))
      in rc_compute_refund R info
           (post_info\<lparr>actual_weight := Some (w_saturating_sub (gc_weight_ops (rc_grandpa R)) weight extra_weight)\<rparr>) (len - extra_size) 0)"

definition refund_params ::
  "('call, 'o, 'acc, 'header, 'hash, 'item, 'id, 'sig, 'r, 'mhash, 'w, 'reward) refund_config \<Rightarrow>
     ('hash, 'w) refund_call_info \<Rightarrow> rewards_account_params" where
  "refund_params R ci = rewards_account_params_new (rc_lane_id R) (rc_bridged_chain_id R)
     (case refund_messages_call_info ci of ReceiveMessagesProof _ \<Rightarrow> ThisChain | ReceiveMessagesDeliveryProof _ \<Rightarrow> BridgedChain)"

lemma refund_post_dispatch_eq:
  "refund_post_dispatch R (Some (Some pd)) info post_info len (Inr u) s =
     (if (\<forall>i. refund_submit_finality_proof_info (pd_call_info pd) = Some i \<longrightarrow> was_successful (sfp_block_number i) (br_grandpa s)) \<and>
         (\<forall>u. refund_submit_parachain_heads_info (pd_call_info pd) = Some u \<longrightarrow> para_was_successful u (br_parachains s)) \<and>
         was_partially_successful (refund_messages_call_info (pd_call_info pd)) (br_messages s)
      then s\<lparr>br_relayers := register_relayer_reward (refund_params R (pd_call_info pd)) (pd_relayer pd)
             (refund_amount R (pd_call_info pd) info post_info len) (br_relayers s)\<rparr>
      else s)"
  by (cases "pd_call_info pd") (auto simp: refund_post_dispatch_def Let_def refund_params_def refund_amount_def)

lemma validated_call:
  assumes "refund_validate R call s = Inr u" and "expand_call R call = Some calls" and "c \<in> set calls"
  shows "refund_validate_nested R c s = Inr ()"
proof -
  have "refund_validate_calls R calls s = Inr u" using assms(1,2) by (simp add: refund_validate_def)
  then show ?thesis using assms(3) by (induction calls) (auto split: sum.splits)
qed

lemma validated_nested:
  assumes "refund_validate_nested R c s = Inr u"
  shows "call_submit_finality_proof_info (rc_grandpa R) (rc_is_grandpa R) c = Some i \<Longrightarrow>
      \<exists>b. gs_best_finalized (br_grandpa s) = Some b \<and> hid_number b < sfp_block_number i"
    and "submit_parachain_heads_info_for (rc_is_parachains R) c para = Some upd \<Longrightarrow> \<not> para_is_obsolete upd (br_parachains s)"
    and "call_info_for (rc_is_messages R) c lane (br_messages s) = Some mi \<Longrightarrow>
      was_partially_successful mi ms' = lane_advanced mi (br_messages s) ms'"
proof -
  have checks: "check_obsolete_submit_finality_proof (rc_grandpa R) (rc_is_grandpa R) c (br_grandpa s) = Inr ()"
    "check_obsolete_submit_parachain_heads (rc_is_parachains R) c (br_parachains s) = Inr ()"
    "check_obsolete_call (rc_is_messages R) c (br_messages s) = Inr ()"
    using assms by (auto simp: refund_validate_nested_def split: sum.splits)
  show "call_submit_finality_proof_info (rc_grandpa R) (rc_is_grandpa R) c = Some i \<Longrightarrow>
      \<exists>b. gs_best_finalized (br_grandpa s) = Some b \<and> hid_number b < sfp_block_number i"
    using checks(1)
    by (auto simp: check_obsolete_submit_finality_proof_def check_obsolete_def split: option.splits if_splits)
  show "submit_parachain_heads_info_for (rc_is_parachains R) c para = Some upd \<Longrightarrow> \<not> para_is_obsolete upd (br_parachains s)"
    using checks(2)
    by (auto simp: check_obsolete_submit_parachain_heads_def submit_parachain_heads_info_for_def split: option.splits if_splits)
  show "call_info_for (rc_is_messages R) c lane (br_messages s) = Some mi \<Longrightarrow>
      was_partially_successful mi ms' = lane_advanced mi (br_messages s) ms'"
    by (auto simp: call_info_for_def messages_call_info_of_def receive_messages_proof_info_def
        receive_messages_delivery_proof_info_def pallet_inbound_lane_data_def pallet_outbound_lane_data_def
        split: option.splits if_splits messages_call.splits)
qed

lemma refund_parse_call_cases:
  assumes "refund_parse_call R call s = Some ci"
  obtains (all) c1 c2 c3 fi hi mi where "expand_call R call = Some [c1, c2, c3]" "ci = AllFinalityAndMsgs fi hi mi"
      "call_submit_finality_proof_info (rc_grandpa R) (rc_is_grandpa R) c1 = Some fi"
      "submit_parachain_heads_info_for (rc_is_parachains R) c2 (rc_para_id R) = Some hi"
      "call_info_for (rc_is_messages R) c3 (rc_lane_id R) (br_messages s) = Some mi"
  | (heads) c1 c2 hi mi where "expand_call R call = Some [c1, c2]" "ci = ParachainFinalityAndMsgs hi mi"
      "submit_parachain_heads_info_for (rc_is_parachains R) c1 (rc_para_id R) = Some hi"
      "call_info_for (rc_is_messages R) c2 (rc_lane_id R) (br_messages s) = Some mi"
  | (msgs) c mi where "expand_call R call = Some [c]" "ci = Msgs mi"
      "call_info_for (rc_is_messages R) c (rc_lane_id R) (br_messages s) = Some mi"
proof -
  from assms obtain calls where calls: "expand_call R call = Some calls"
    by (cases "expand_call R call") (simp_all add: refund_parse_call_def)
  consider "calls = []" | c where "calls = [c]" | c1 c2 where "calls = [c1, c2]" | c1 c2 c3 where "calls = [c1, c2, c3]"
    | c1 c2 c3 c4 cs where "calls = c1 # c2 # c3 # c4 # cs"
    by (metis list.exhaust)
  then show ?thesis
  proof cases
    case 1
    then show ?thesis using assms calls by (simp add: refund_parse_call_def)
  next
    case 2
    then show ?thesis using assms calls msgs by (auto simp: refund_parse_call_def bind_eq_Some_conv)
  next
    case 3
    then show ?thesis using assms calls heads by (auto simp: refund_parse_call_def bind_eq_Some_conv)
  next
    case 4
    then show ?thesis using assms calls all by (auto simp: refund_parse_call_def bind_eq_Some_conv)
  next
    case 5
    then show ?thesis using assms calls by (simp add: refund_parse_call_def)
  qed
qed

lemma successful_iff_progress:
  assumes "refund_validate R call s = Inr u" and "refund_parse_call R call s = Some ci"
  shows "(\<forall>i. refund_submit_finality_proof_info ci = Some i \<longrightarrow> was_successful (sfp_block_number i) (br_grandpa s')) \<and>
         (\<forall>u. refund_submit_parachain_heads_info ci = Some u \<longrightarrow> para_was_successful u (br_parachains s')) \<and>
         was_partially_successful (refund_messages_call_info ci) (br_messages s') \<longleftrightarrow> refund_progress ci s s'"
proof -
  have fin: "was_successful (sfp_block_number i) (br_grandpa s') \<longleftrightarrow> finality_advanced (sfp_block_number i) (br_grandpa s) (br_grandpa s')"
    if "refund_validate_nested R c s = Inr ()" "call_submit_finality_proof_info (rc_grandpa R) (rc_is_grandpa R) c = Some i" for c i
    using validated_nested(1) [OF that] by (auto simp: was_successful_def finality_advanced_def split: option.splits)
  have head: "para_was_successful u (br_parachains s') \<longleftrightarrow> head_advanced u (br_parachains s) (br_parachains s')"
    if "refund_validate_nested R c s = Inr ()" "submit_parachain_heads_info_for (rc_is_parachains R) c para = Some u" for c u para
    using validated_nested(2) [OF that]
    by (auto simp: para_was_successful_def head_advanced_def para_is_obsolete_def not_le split: option.splits if_splits)
  show ?thesis
    using assms(2)
  proof (cases rule: refund_parse_call_cases)
    case (all c1 c2 c3 fi hi mi)
    note ok = validated_call [OF assms(1) all(1)]
    show ?thesis
      using fin [OF ok all(3)] head [OF ok all(4)] validated_nested(3) [OF ok all(5)] by (simp add: all(2) refund_progress_def)
  next
    case (heads c1 c2 hi mi)
    note ok = validated_call [OF assms(1) heads(1)]
    show ?thesis
      using head [OF ok heads(3)] validated_nested(3) [OF ok heads(4)] by (simp add: heads(2) refund_progress_def)
  next
    case (msgs c mi)
    note ok = validated_call [OF assms(1) msgs(1)]
    show ?thesis using validated_nested(3) [OF ok msgs(3)] by (simp add: msgs(2) refund_progress_def)
  qed
qed

section \<open>Refunds of dispatched transactions\<close>

text \<open>
  The dispatch of the calls of a batch, one after the other. The messages pallet sees the other
  pallets through its world, which may change with every call.
\<close>

definition pallets_disjoint ::
  "('call, 'o, 'acc, 'header, 'hash, 'item, 'id, 'sig, 'r, 'mhash, 'w, 'reward) refund_config \<Rightarrow> bool" where
  "pallets_disjoint R \<longleftrightarrow> (\<forall>c.
     (rc_is_grandpa R c \<noteq> None \<longrightarrow> rc_is_parachains R c = None \<and> rc_is_messages R c = None) \<and>
     (rc_is_parachains R c \<noteq> None \<longrightarrow> rc_is_messages R c = None))"

inductive bridge_call_runs ::
  "('call, 'o, 'acc, 'header, 'hash, 'item, 'id, 'sig, 'r, 'mhash, 'w, 'reward) refund_config \<Rightarrow>
     ('o, 'acc, 'hash, 'w) parachains_config \<Rightarrow>
     ('o, 'acc, 'r, 'mhash messages_proof, 'mhash messages_delivery_proof, 'op, 'p, 'd, 'w, 'x) messages_config \<Rightarrow>
     'o \<Rightarrow> 'call \<Rightarrow> ('acc, 'hash, 'id, 'r, 'd, 'w, 'reward) bridge_runtime \<times> 'x \<Rightarrow>
     ('acc, 'hash, 'id, 'r, 'd, 'w, 'reward) bridge_runtime \<times> 'x \<Rightarrow> bool"
  for R CP CM origin where
  finality: "rc_is_grandpa R c = Some (Call_submit_finality_proof h j) \<Longrightarrow>
     submit_finality_proof (rc_grandpa R) origin h j (br_grandpa s) = Some (Inr (i, g)) \<Longrightarrow>
     bridge_call_runs R CP CM origin c (s, x) (s\<lparr>br_grandpa := g\<rparr>, x')"
| heads: "rc_is_parachains R c = Some (Call_submit_parachain_heads (n, rh) heads nodes) \<Longrightarrow>
     submit_parachain_heads CP (br_grandpa s) origin (n, rh) heads nodes (br_parachains s) = Some (Inr (i, p)) \<Longrightarrow>
     bridge_call_runs R CP CM origin c (s, x) (s\<lparr>br_parachains := p\<rparr>, x')"
| delivery: "rc_is_messages R c = Some (Call_receive_messages_proof rb proof count dw) \<Longrightarrow>
     receive_messages_proof CM origin rb proof count dw (br_messages s) x = Inr (w, m, x') \<Longrightarrow>
     bridge_call_runs R CP CM origin c (s, x) (s\<lparr>br_messages := m\<rparr>, x')"
| confirmation: "rc_is_messages R c = Some (Call_receive_messages_delivery_proof dproof st) \<Longrightarrow>
     receive_messages_delivery_proof CM origin dproof st (br_messages s) x = Inr (m, x') \<Longrightarrow>
     bridge_call_runs R CP CM origin c (s, x) (s\<lparr>br_messages := m\<rparr>, x')"

inductive_cases bridge_call_runsE: "bridge_call_runs R CP CM origin c (s, x) (s', x')"

inductive bridge_calls_run ::
  "('call, 'o, 'acc, 'header, 'hash, 'item, 'id, 'sig, 'r, 'mhash, 'w, 'reward) refund_config \<Rightarrow>
     ('o, 'acc, 'hash, 'w) parachains_config \<Rightarrow>
     ('o, 'acc, 'r, 'mhash messages_proof, 'mhash messages_delivery_proof, 'op, 'p, 'd, 'w, 'x) messages_config \<Rightarrow>
     'o \<Rightarrow> 'call list \<Rightarrow> ('acc, 'hash, 'id, 'r, 'd, 'w, 'reward) bridge_runtime \<times> 'x \<Rightarrow>
     ('acc, 'hash, 'id, 'r, 'd, 'w, 'reward) bridge_runtime \<times> 'x \<Rightarrow> bool"
  for R CP CM origin where
  no_calls: "bridge_calls_run R CP CM origin [] s s"
| a_call: "bridge_call_runs R CP CM origin c s s' \<Longrightarrow> bridge_calls_run R CP CM origin cs s' s'' \<Longrightarrow>
     bridge_calls_run R CP CM origin (c # cs) s s''"

inductive_simps bridge_calls_run_simps [simp]:
  "bridge_calls_run R CP CM origin [] s s'"
  "bridge_calls_run R CP CM origin (c # cs) s s'"

lemma finality_call_runs:
  assumes laws: "voter_set_new_laws (gc_voter_set_new (rc_grandpa R))" "acyclic_headers (gc_header (rc_grandpa R))"
    and "pallets_disjoint R" and "call_submit_finality_proof_info (rc_grandpa R) (rc_is_grandpa R) c = Some i"
    and "bridge_call_runs R CP CM origin c (s, x) (s', x')"
  shows "was_successful (sfp_block_number i) (br_grandpa s')" and "br_parachains s' = br_parachains s"
    and "br_messages s' = br_messages s"
proof -
  obtain h j where c: "rc_is_grandpa R c = Some (Call_submit_finality_proof h j)"
    and i: "sfp_block_number i = h_number (gc_header (rc_grandpa R)) h"
    using assms(4) by (auto simp: call_submit_finality_proof_info_def submit_finality_proof_info_from_args_def Let_def
        split: option.splits grandpa_call.splits)
  from assms(5) c assms(3) obtain info g where run: "submit_finality_proof (rc_grandpa R) origin h j (br_grandpa s) = Some (Inr (info, g))"
    and s': "s' = s\<lparr>br_grandpa := g\<rparr>"
    by (cases rule: bridge_call_runsE) (auto simp: pallets_disjoint_def)
  show "was_successful (sfp_block_number i) (br_grandpa s')"
    using finality_check_agrees [where is_sub_type = "rc_is_grandpa R" and call = c and s = "br_grandpa s" and origin = origin, OF laws c] run by (auto simp: s' i)
  show "br_parachains s' = br_parachains s" "br_messages s' = br_messages s" by (simp_all add: s')
qed

lemma heads_call_runs:
  assumes "pallets_disjoint R" and "submit_parachain_heads_info_for (rc_is_parachains R) c para = Some u"
    and "bridge_call_runs R CP CM origin c (s, x) (s', x')" and "\<not> para_is_obsolete u (br_parachains s)"
  shows "para_was_successful u (br_parachains s') \<longleftrightarrow> ps_paras_info (br_parachains s') \<noteq> ps_paras_info (br_parachains s)"
    and "br_grandpa s' = br_grandpa s" and "br_messages s' = br_messages s"
proof -
  obtain n rh p hash nodes where c: "rc_is_parachains R c = Some (Call_submit_parachain_heads (n, rh) [(p, hash)] nodes)"
    and u: "u = \<lparr>sph_at_relay_block_number = n, sph_para_id = p, sph_para_head_hash = hash\<rparr>"
    and one: "one_entry_submit_parachain_heads_info (rc_is_parachains R) c = Some u"
    using assms(2) by (auto simp: submit_parachain_heads_info_for_def one_entry_submit_parachain_heads_info_def
        split: option.splits parachains_call.splits list.splits if_splits prod.splits)
  from assms(3) c assms(1) obtain info ps where
    run: "submit_parachain_heads CP (br_grandpa s) origin (n, rh) [(p, hash)] nodes (br_parachains s) = Some (Inr (info, ps))"
    and s': "s' = s\<lparr>br_parachains := ps\<rparr>"
    by (cases rule: bridge_call_runsE) (auto simp: pallets_disjoint_def)
  show "para_was_successful u (br_parachains s') \<longleftrightarrow> ps_paras_info (br_parachains s') \<noteq> ps_paras_info (br_parachains s)"
  proof
    assume "para_was_successful u (br_parachains s')"
    with assms(4) show "ps_paras_info (br_parachains s') \<noteq> ps_paras_info (br_parachains s)"
      by (auto simp: para_was_successful_def para_is_obsolete_def split: option.splits)
  next
    assume "ps_paras_info (br_parachains s') \<noteq> ps_paras_info (br_parachains s)"
    then show "para_was_successful u (br_parachains s')"
      using heads_check_agrees [where is_sub_type = "rc_is_parachains R" and call = c, OF c run] one by (simp add: s')
  qed
  show "br_grandpa s' = br_grandpa s" "br_messages s' = br_messages s" by (simp_all add: s')
qed

lemma messages_call_runs:
  assumes "pallets_disjoint R" and "call_info_for (rc_is_messages R) c lane ms = Some mi"
    and "bridge_call_runs R CP CM origin c (s, x) (s', x')"
  shows "br_grandpa s' = br_grandpa s" and "br_parachains s' = br_parachains s"
proof -
  have "rc_is_messages R c \<noteq> None"
    using assms(2) by (auto simp: call_info_for_def messages_call_info_of_def receive_messages_proof_info_def
        receive_messages_delivery_proof_info_def split: option.splits)
  with assms(1,3) have "br_grandpa s' = br_grandpa s \<and> br_parachains s' = br_parachains s"
    by (cases rule: bridge_call_runsE) (auto simp: pallets_disjoint_def)
  then show "br_grandpa s' = br_grandpa s" "br_parachains s' = br_parachains s" by simp_all
qed

section \<open>An example\<close>

text \<open>
  A relay chain whose block \<open>n\<close> is the number \<open>n\<close>; every block has head \<open>[42]\<close> for parachain 1. The
  transaction \<open>0\<close> is a batch of the calls \<open>1\<close>, \<open>2\<close> and \<open>3\<close>: it imports block 2, the head of the
  parachain and one message.
\<close>

definition sample_relay_headers :: "(nat, sample_hash, u32, unit) header_ops" where
  "sample_relay_headers = \<lparr>h_hash = (\<lambda>n. replicate (Suc n) ([], [])), h_number = of_nat, h_parent_hash = (\<lambda>n. replicate n ([], [])),
     h_state_root = (\<lambda>_. [([1], [42])]), h_digest = (\<lambda>_. [])\<rparr>"

definition sample_relay_justification :: "(sample_hash, u32, nat, u64 \<times> u64, nat) grandpa_justification" where
  "sample_relay_justification = \<lparr>gj_round = 7, gj_commit = \<lparr>cm_target_hash = [([], []), ([], []), ([], [])], cm_target_number = 2,
       cm_precommits = map (\<lambda>voter. \<lparr>sp_precommit = \<lparr>pc_target_hash = [([], []), ([], []), ([], [])], pc_target_number = 2\<rparr>,
         sp_signature = (7, 1), sp_id = voter\<rparr>) [1, 2, 3]\<rparr>, gj_votes_ancestries = []\<rparr>"

definition sample_refund_config ::
  "(nat, nat option, nat, nat, sample_hash, unit, nat, u64 \<times> u64, nat, sample_hash, u64 \<times> u64, 128 word) refund_config" where
  "sample_refund_config = \<lparr>rc_grandpa = sample_grandpa_for sample_relay_headers (\<lambda>_. None),
     rc_is_utility = (\<lambda>c. if c = 0 then Some (Call_batch_all [1, 2, 3]) else None),
     rc_is_grandpa = (\<lambda>c. if c = 1 then Some (Call_submit_finality_proof 2 sample_relay_justification) else None),
     rc_is_parachains = (\<lambda>c. if c = 2 then Some (Call_submit_parachain_heads (2, [([], []), ([], []), ([], [])]) [(ParaId 1, [([42], [])])] [[1]]) else None),
     rc_is_messages = (\<lambda>c. if c = 3 then Some (Call_receive_messages_proof 5 sample_delivery 1 (10, 0)) else None),
     rc_para_id = 1, rc_lane_id = LaneId 0 0 0 1, rc_bridged_chain_id = (1, 2, 3, 4),
     rc_compute_refund = (\<lambda>info post_info len tip. of_nat len + tip)\<rparr>"

definition sample_relay_initialized :: "(nat, sample_hash, u32, nat) grandpa_state" where
  "sample_relay_initialized = \<lparr>gs_request_count = 0, gs_initial_hash = [([], []), ([], [])], gs_best_finalized = Some (HeaderId 1 [([], []), ([], [])]),
     gs_imported_hashes = [0 \<mapsto> [([], []), ([], [])]], gs_imported_hashes_pointer = 1,
     gs_imported_headers = [[([], []), ([], [])] \<mapsto> \<lparr>shd_number = 1, shd_state_root = [([1], [42])]\<rparr>],
     gs_current_authority_set = \<lparr>as_authorities = sample_authorities, as_set_id = 1\<rparr>, gs_owner = None,
     gs_operating_mode = Normal\<rparr>"

definition sample_runtime :: "(nat, sample_hash, nat, nat, unit, u64 \<times> u64, 128 word) bridge_runtime" where
  "sample_runtime = \<lparr>br_grandpa = sample_relay_initialized, br_parachains = empty_parachains_state,
     br_messages = empty_messages_state, br_relayers = empty_relayers_state\<rparr>"

lemma sample_refund_laws:
  "voter_set_new_laws (gc_voter_set_new (rc_grandpa sample_refund_config))"
  "acyclic_headers (gc_header (rc_grandpa sample_refund_config))" "pallets_disjoint sample_refund_config"
proof -
  show "voter_set_new_laws (gc_voter_set_new (rc_grandpa sample_refund_config))"
    using sample_voters_laws by (simp add: voter_set_new_laws_def sample_refund_config_def sample_grandpa_for_def)
  show "pallets_disjoint sample_refund_config" by (simp add: pallets_disjoint_def sample_refund_config_def)
  let ?H = "gc_header (rc_grandpa sample_refund_config)"
  have "acyclic {(h, p). map_of (rev (map (\<lambda>h. (h_hash ?H h, h_parent_hash ?H h)) hs)) h = Some p}" for hs
  proof (rule acyclic_subset)
    show "acyclic {(h, p :: sample_hash). length p < length h}" by (rule acyclicI_order [where f = length]) auto
    show "{(h, p). map_of (rev (map (\<lambda>h. (h_hash ?H h, h_parent_hash ?H h)) hs)) h = Some p} \<subseteq> {(h, p). length p < length h}"
      by (auto dest!: map_of_SomeD simp: sample_refund_config_def sample_grandpa_for_def sample_relay_headers_def simp del: replicate_Suc)
  qed
  then show "acyclic_headers ?H" by (simp add: acyclic_headers_def acyclic_parents_def)
qed

lemmas refund_eval = sample_refund_config_def sample_runtime_def sample_relay_initialized_def sample_relay_justification_def
  sample_relay_headers_def

lemma replicate_two: "replicate 2 x = [x, x]"
  by (simp add: numeral_2_eq_2)

lemma sample_finality_runs:
  "\<exists>g. submit_finality_proof (rc_grandpa sample_refund_config) (Some 9) 2 sample_relay_justification sample_relay_initialized =
     Some (Inr (\<lparr>actual_weight = Some (1000, 460), pays_fee = PaysYes\<rparr>, g)) \<and>
     gs_imported_headers g ([([], []), ([], []), ([], [])]) = Some \<lparr>shd_number = 2, shd_state_root = [([1], [42])]\<rparr>"
  by (simp add: refund_eval grandpa_eval replicate_two)


lemma sample_heads_runs:
  assumes "gs_imported_headers g [([], []), ([], []), ([], [])] = Some \<lparr>shd_number = 2, shd_state_root = [([1], [42])]\<rparr>"
  shows "\<exists>i p. submit_parachain_heads sample_parachains_config g (Some 9) (2, [([], []), ([], []), ([], [])])
      [(ParaId 1, [([42], [])])] [[1]] empty_parachains_state = Some (Inr (i, p)) \<and> ps_paras_info p \<noteq> Map.empty"
  using assms by (simp add: parachains_eval)

lemma sample_pre_dispatch:
  "\<exists>pre. refund_pre_dispatch sample_refund_config 9 0 sample_runtime = Inr (Some pre) \<and>
     pd_call_info pre = AllFinalityAndMsgs \<lparr>sfp_block_number = 2, sfp_extra_weight = (0, 0), sfp_extra_size = 0\<rparr>
       \<lparr>sph_at_relay_block_number = 2, sph_para_id = ParaId 1, sph_para_head_hash = [([42], [])]\<rparr>
       (ReceiveMessagesProof \<lparr>bmp_lane_id = LaneId 0 0 0 1, bmp_best_bundled_nonce = 1, bmp_best_stored_nonce = 0\<rparr>)"
  by (simp add: refund_eval refund_pre_dispatch_def refund_validate_def expand_call_def refund_validate_nested_def
      check_obsolete_submit_finality_proof_def call_submit_finality_proof_info_def check_obsolete_submit_parachain_heads_def
      one_entry_submit_parachain_heads_info_def check_obsolete_call_def messages_call_info_of_def
      receive_messages_proof_info_def receive_messages_delivery_proof_info_def bmp_is_obsolete_def refund_parse_call_def
      submit_parachain_heads_info_for_def call_info_for_def para_is_obsolete_def empty_parachains_state_def
      empty_messages_state_def sample_delivery_def inbound_lanes_get_def default_inbound_lane_data_def last_delivered_nonce_def
      sample_grandpa_for_def check_obsolete_def submit_finality_proof_info_from_args_def max_expected_call_size_def
      max_reasonable_size_def saturating_of_nat_def saturating_sub_def saturating_mul_def saturating_add_def
      pair_weight_ops_def Let_def word_less_nat_alt word_le_nat_alt required_justification_precommits_def)

lemma sample_batch_runs:
  obtains s' x' where "bridge_calls_run sample_refund_config sample_parachains_config sample_target_config (Some 9) [1, 2, 3]
      (sample_runtime, (None, [])) (s', x')" "ps_paras_info (br_parachains s') \<noteq> Map.empty"
    "delivered (br_messages s') (LaneId 0 0 0 1) = 1" "br_relayers s' = empty_relayers_state"
proof -
  obtain i g where g: "submit_finality_proof (rc_grandpa sample_refund_config) (Some 9) 2 sample_relay_justification
      (br_grandpa sample_runtime) = Some (Inr (i, g))"
    and root: "gs_imported_headers g [([], []), ([], []), ([], [])] = Some \<lparr>shd_number = 2, shd_state_root = [([1], [42])]\<rparr>"
    using sample_finality_runs by (auto simp: sample_runtime_def)
  let ?s1 = "sample_runtime\<lparr>br_grandpa := g\<rparr>"
  obtain i' p where p: "submit_parachain_heads sample_parachains_config (br_grandpa ?s1) (Some 9) (2, [([], []), ([], []), ([], [])])
      [(ParaId 1, [([42], [])])] [[1]] (br_parachains ?s1) = Some (Inr (i', p))" and changed: "ps_paras_info p \<noteq> Map.empty"
    using sample_heads_runs [OF root] by (auto simp: sample_runtime_def)
  let ?s2 = "?s1\<lparr>br_parachains := p\<rparr>"
  obtain w m x' where m: "receive_messages_proof sample_target_config (Some 9) 5 sample_delivery 1 (10, 0) (br_messages ?s2)
      (Some sample_sent_storage, []) = Inr (w, m, x')" and d: "delivered m (LaneId 0 0 0 1) = 1"
    by (simp add: messages_eval sample_target_config_def sample_delivery_verified sample_runtime_def pallet_inbound_lane_data_def)
  have "bridge_call_runs sample_refund_config sample_parachains_config sample_target_config (Some 9) 1
      (sample_runtime, (None, [])) (?s1, (None, []))"
    by (rule finality [OF _ g]) (simp add: sample_refund_config_def)
  moreover have "bridge_call_runs sample_refund_config sample_parachains_config sample_target_config (Some 9) 2
      (?s1, (None, [])) (?s2, (Some sample_sent_storage, []))"
    by (rule heads [OF _ p]) (simp add: sample_refund_config_def)
  moreover have "bridge_call_runs sample_refund_config sample_parachains_config sample_target_config (Some 9) 3
      (?s2, (Some sample_sent_storage, [])) (?s2\<lparr>br_messages := m\<rparr>, x')"
    by (rule delivery [OF _ m]) (simp add: sample_refund_config_def)
  ultimately have "bridge_calls_run sample_refund_config sample_parachains_config sample_target_config (Some 9) [1, 2, 3]
      (sample_runtime, (None, [])) (?s2\<lparr>br_messages := m\<rparr>, x')"
    by (blast intro: bridge_calls_run.intros)
  then show thesis by (rule that) (use changed d in \<open>simp_all add: sample_runtime_def\<close>)
qed

section \<open>Properties\<close>

text \<open>
  C37: the check of the transaction pool agrees with the messages calls. A delivery call that it
  rejects as stale delivers no message on any lane, and a delivery call that delivers a message had
  passed it and is recognised as successful. A confirmation call that it rejects as stale changes
  nothing, and one that confirms messages had passed it and is recognised as successful.
\<close>

theorem messages_obsolete_check_agrees:
  assumes "uses_bridge C B" and "mp_nonces_start pf \<noteq> 0" and "inbound_lanes_ok C (ms_inbound_lanes ms)"
  shows "(is_sub_type call = Some (Call_receive_messages_proof rb pf count dw) \<and>
      receive_messages_proof C origin rb pf count dw ms x = Inr (w, ms', x') \<longrightarrow>
      (check_obsolete_call is_sub_type call ms = Inl Stale \<longrightarrow> delivered ms' = delivered ms) \<and>
      (delivered ms' \<noteq> delivered ms \<longrightarrow> check_obsolete_call is_sub_type call ms = Inr () \<and>
        (\<exists>info. call_info_for is_sub_type call (mp_lane pf) ms = Some info \<and> was_partially_successful info ms'))) \<and>
    (is_sub_type call = Some (Call_receive_messages_delivery_proof dproof st) \<and>
      receive_messages_delivery_proof C origin dproof st ms x = Inr (ms', x') \<longrightarrow>
      (check_obsolete_call is_sub_type call ms = Inl Stale \<longrightarrow> ms' = ms \<and> x' = x) \<and>
      (ms' \<noteq> ms \<longrightarrow> check_obsolete_call is_sub_type call ms = Inr () \<and>
        (\<exists>info. call_info_for is_sub_type call (mdp_lane dproof) ms = Some info \<and> was_partially_successful info ms')))"
    (is "(_ \<and> ?call1 \<longrightarrow> ?one) \<and> (_ \<and> ?call2 \<longrightarrow> ?two)")
proof (rule conjI; rule impI; elim conjE)
  assume sub: "is_sub_type call = Some (Call_receive_messages_proof rb pf count dw)" and run: ?call1
  note d = receive_messages_delivered [OF run assms]
  have info: "messages_call_info_of is_sub_type call ms = Some (ReceiveMessagesProof \<lparr>bmp_lane_id = mp_lane pf,
      bmp_best_bundled_nonce = mp_nonces_end pf, bmp_best_stored_nonce = delivered ms (mp_lane pf)\<rparr>)"
    using sub by (simp add: messages_call_info_of_def receive_messages_proof_info_def pallet_inbound_lane_data_def)
  have "delivered ms' = delivered ms" if "delivered ms' (mp_lane pf) = delivered ms (mp_lane pf)"
    using that d(2) by (metis ext)
  then show ?one
    using d(1) [of "mp_lane pf"] d(3)
    by (auto simp: check_obsolete_call_def call_info_for_def info bmp_is_obsolete_def max_def less_le
        simp flip: pallet_inbound_lane_data_def split: if_splits)
next
  assume sub: "is_sub_type call = Some (Call_receive_messages_delivery_proof dproof st)" and run: ?call2
  have info: "messages_call_info_of is_sub_type call ms = Some (ReceiveMessagesDeliveryProof \<lparr>bmp_lane_id = mdp_lane dproof,
      bmp_best_bundled_nonce = last_delivered_nonce_in_state st, bmp_best_stored_nonce = confirmed ms (mdp_lane dproof)\<rparr>)"
    using sub by (simp add: messages_call_info_of_def receive_messages_proof_info_def receive_messages_delivery_proof_info_def
        pallet_outbound_lane_data_def)
  show ?two
    using run
  proof (cases rule: receive_messages_delivery_proof_effect)
    case (1 lane ld relayer)
    have "lane = mdp_lane dproof"
      using 1(3) assms(1) by (auto simp: uses_bridge_def map_sum_eq_Inr_iff intro: verified_delivery_lane)
    then show ?thesis
      using 1(5,6)
      by (auto simp: check_obsolete_call_def call_info_for_def info bmp_is_obsolete_def pallet_outbound_lane_data_def fun_eq_iff)
  qed
qed

theorem messages_obsolete_check_agrees_witness:
  "check_obsolete_call (rc_is_messages sample_refund_config) 3 (br_messages sample_runtime) = Inr ()"
proof -
  obtain w m x' where m: "receive_messages_proof sample_target_config (Some 9) 5 sample_delivery 1 (10, 0)
      (br_messages sample_runtime) (Some sample_sent_storage, []) = Inr (w, m, x')" and d: "delivered m (LaneId 0 0 0 1) = 1"
    by (simp add: messages_eval sample_target_config_def sample_delivery_verified sample_runtime_def pallet_inbound_lane_data_def)
  have ok: "inbound_lanes_ok sample_target_config (ms_inbound_lanes (br_messages sample_runtime))"
    by (simp add: sample_runtime_def empty_messages_state_def inbound_lanes_ok_empty)
  have "delivered (br_messages sample_runtime) (LaneId 0 0 0 1) = 0"
    by (simp add: sample_runtime_def empty_messages_state_def pallet_inbound_lane_data_def inbound_lanes_get_def
        default_inbound_lane_data_def last_delivered_nonce_def)
  then have "delivered m \<noteq> delivered (br_messages sample_runtime)" using d by (metis zero_neq_one)
  then show ?thesis
    using messages_obsolete_check_agrees [OF sample_uses_bridge(2) _ ok,
        where is_sub_type = "rc_is_messages sample_refund_config" and call = 3 and rb = 5 and pf = sample_delivery
        and count = 1 and dw = "(10, 0)" and origin = "Some 9" and x = "(Some sample_sent_storage, [])" and w = w and ms' = m
        and x' = x', THEN conjunct1] m
    by (simp add: sample_refund_config_def sample_delivery_def)
qed

text \<open>
  C28: a relayer is refunded exactly for useful transactions. Whatever the dispatch of a transaction
  has done to the runtime, the extension registers a refund for the submitter if and only if the
  dispatch was successful, the transaction is a recognised one, its header and its parachain head
  were new and have become the best ones, and its lane has advanced. Nothing else is changed.
\<close>

theorem refund_exactly_for_progress:
  assumes "refund_pre_dispatch R who call s = Inr pre"
  shows "refund_post_dispatch R (Some pre) info post_info len result s' =
    (case (result, refund_parse_call R call s) of
       (Inr _, Some ci) \<Rightarrow>
         if refund_progress ci s s'
         then s'\<lparr>br_relayers := register_relayer_reward (refund_params R ci) who
                (refund_amount R ci info post_info len) (br_relayers s')\<rparr>
         else s'
     | _ \<Rightarrow> s')"
proof -
  from assms obtain u where val: "refund_validate R call s = Inr u"
    and pre: "pre = map_option (\<lambda>call_info. \<lparr>pd_relayer = who, pd_call_info = call_info\<rparr>) (refund_parse_call R call s)"
    by (auto simp: refund_pre_dispatch_def split: sum.splits)
  show ?thesis
  proof (cases "refund_parse_call R call s")
    case None
    then show ?thesis by (auto simp: pre refund_post_dispatch_def split: sum.splits)
  next
    case (Some ci)
    show ?thesis
    proof (cases result)
      case (Inl e)
      then show ?thesis by (simp add: refund_post_dispatch_def)
    next
      case (Inr v)
      show ?thesis
        unfolding pre Some Inr option.map refund_post_dispatch_eq using successful_iff_progress [OF val Some, of s'] by simp
    qed
  qed
qed

theorem refund_exactly_for_progress_witness:
  "\<exists>pre. refund_pre_dispatch sample_refund_config 9 0 sample_runtime = Inr pre \<and>
     refund_post_dispatch sample_refund_config (Some pre) \<lparr>di_weight = (1, 1)\<rparr> \<lparr>actual_weight = None, pays_fee = PaysYes\<rparr> 100
       (Inr ()) sample_runtime = sample_runtime"
proof -
  obtain pre where pre: "refund_pre_dispatch sample_refund_config 9 0 sample_runtime = Inr (Some pre)"
    using sample_pre_dispatch by blast
  have "\<not> refund_progress ci sample_runtime sample_runtime" for ci :: "(sample_hash, u64 \<times> u64) refund_call_info"
    by (cases "refund_messages_call_info ci") (auto simp: refund_progress_def)
  then show ?thesis
    using pre refund_exactly_for_progress [OF pre, of "\<lparr>di_weight = (1, 1)\<rparr>" "\<lparr>actual_weight = None, pays_fee = PaysYes\<rparr>" 100
        "Inr ()" sample_runtime] by (intro exI [of _ "Some pre"]) (simp split: option.splits)
qed

text \<open>
  C18: the four pallets and the extension together. When the calls of a recognised transaction are
  dispatched successfully, the submitter is refunded if and only if the parachains pallet has
  recorded the submitted head, where there is one, and the lane has advanced; an imported relay
  chain header always counts as useful.
\<close>

theorem refund_of_dispatched_transaction:
  assumes "voter_set_new_laws (gc_voter_set_new (rc_grandpa R))" and "acyclic_headers (gc_header (rc_grandpa R))"
    and "pallets_disjoint R" and "refund_pre_dispatch R who call s = Inr (Some pre)" and "expand_call R call = Some calls"
    and "bridge_calls_run R CP CM origin calls (s, x) (s', x')"
  shows "refund_post_dispatch R (Some (Some pre)) info post_info len (Inr () :: 'e + unit) s' =
    (if (refund_submit_parachain_heads_info (pd_call_info pre) = None \<or>
         ps_paras_info (br_parachains s') \<noteq> ps_paras_info (br_parachains s)) \<and>
        lane_advanced (refund_messages_call_info (pd_call_info pre)) (br_messages s) (br_messages s')
     then s'\<lparr>br_relayers := register_relayer_reward (refund_params R (pd_call_info pre)) who
            (refund_amount R (pd_call_info pre) info post_info len) (br_relayers s')\<rparr>
     else s')"
proof -
  obtain u ci where val: "refund_validate R call s = Inr u" and parse: "refund_parse_call R call s = Some ci"
    and pre: "pre = \<lparr>pd_relayer = who, pd_call_info = ci\<rparr>"
    using assms(4) by (auto simp: refund_pre_dispatch_def split: sum.splits)
  from parse have "(\<forall>i. refund_submit_finality_proof_info ci = Some i \<longrightarrow> was_successful (sfp_block_number i) (br_grandpa s')) \<and>
      (\<forall>u. refund_submit_parachain_heads_info ci = Some u \<longrightarrow> para_was_successful u (br_parachains s')) \<and>
      was_partially_successful (refund_messages_call_info ci) (br_messages s') \<longleftrightarrow>
    (refund_submit_parachain_heads_info ci = None \<or> ps_paras_info (br_parachains s') \<noteq> ps_paras_info (br_parachains s)) \<and>
      lane_advanced (refund_messages_call_info ci) (br_messages s) (br_messages s')"
  proof (cases rule: refund_parse_call_cases)
    case (all c1 c2 c3 fi hi mi)
    note ok = validated_call [OF val all(1)]
    from assms(5,6) all(1) obtain s1 x1 s2 x2 where run: "bridge_call_runs R CP CM origin c1 (s, x) (s1, x1)"
      "bridge_call_runs R CP CM origin c2 (s1, x1) (s2, x2)" "bridge_call_runs R CP CM origin c3 (s2, x2) (s', x')" by auto
    note f = finality_call_runs [OF assms(1-3) all(3) run(1)]
    note obs = validated_nested(2) [OF ok all(4)]
    note h = heads_call_runs [OF assms(3) all(4) run(2)]
    note m = messages_call_runs [OF assms(3) all(5) run(3)]
    show ?thesis
      using f h obs m validated_nested(3) [OF ok all(5)] by (simp add: all(2))
  next
    case (heads c1 c2 hi mi)
    note ok = validated_call [OF val heads(1)]
    from assms(5,6) heads(1) obtain s1 x1 where run: "bridge_call_runs R CP CM origin c1 (s, x) (s1, x1)"
      "bridge_call_runs R CP CM origin c2 (s1, x1) (s', x')" by auto
    note h = heads_call_runs [OF assms(3) heads(3) run(1) validated_nested(2) [OF ok heads(3)]]
    note m = messages_call_runs [OF assms(3) heads(4) run(2)]
    show ?thesis
      using h m validated_nested(3) [OF ok heads(4)] by (simp add: heads(2))
  next
    case (msgs c mi)
    show ?thesis
      using validated_nested(3) [OF validated_call [OF val msgs(1)] msgs(3)] by (simp add: msgs(2))
  qed
  then show ?thesis by (simp add: refund_post_dispatch_eq pre)
qed

theorem refund_of_dispatched_transaction_witness:
  "\<exists>pre s' x'. refund_pre_dispatch sample_refund_config 9 0 sample_runtime = Inr (Some pre) \<and>
     bridge_calls_run sample_refund_config sample_parachains_config sample_target_config (Some 9) [1, 2, 3]
       (sample_runtime, (None, [])) (s', x') \<and>
     relayer_reward (br_relayers (refund_post_dispatch sample_refund_config (Some (Some pre)) \<lparr>di_weight = (1, 1)\<rparr>
         \<lparr>actual_weight = None, pays_fee = PaysYes\<rparr> 100 (Inr () :: unit + unit) s')) 9
       (rewards_account_params_new (LaneId 0 0 0 1) (1, 2, 3, 4) ThisChain) = 100"
proof -
  obtain pre where pre: "refund_pre_dispatch sample_refund_config 9 0 sample_runtime = Inr (Some pre)"
    and ci: "pd_call_info pre = AllFinalityAndMsgs \<lparr>sfp_block_number = 2, sfp_extra_weight = (0, 0), sfp_extra_size = 0\<rparr>
       \<lparr>sph_at_relay_block_number = 2, sph_para_id = ParaId 1, sph_para_head_hash = [([42], [])]\<rparr>
       (ReceiveMessagesProof \<lparr>bmp_lane_id = LaneId 0 0 0 1, bmp_best_bundled_nonce = 1, bmp_best_stored_nonce = 0\<rparr>)"
    using sample_pre_dispatch by blast
  obtain s' x' where run: "bridge_calls_run sample_refund_config sample_parachains_config sample_target_config (Some 9) [1, 2, 3]
      (sample_runtime, (None, [])) (s', x')" and new: "ps_paras_info (br_parachains s') \<noteq> Map.empty"
    "delivered (br_messages s') (LaneId 0 0 0 1) = 1" "br_relayers s' = empty_relayers_state"
    by (rule sample_batch_runs)
  have refund: "refund_amount sample_refund_config (AllFinalityAndMsgs \<lparr>sfp_block_number = 2, sfp_extra_weight = (0, 0), sfp_extra_size = 0\<rparr>
      hi mi) info post_info 100 = 100" for hi mi info post_info
    by (simp add: refund_amount_def sample_refund_config_def)
  have params: "refund_params sample_refund_config (AllFinalityAndMsgs fi hi (ReceiveMessagesProof i)) =
      rewards_account_params_new (LaneId 0 0 0 1) (1, 2, 3, 4) ThisChain" for fi hi i
    by (simp add: refund_params_def sample_refund_config_def)
  have calls: "expand_call sample_refund_config 0 = Some [1, 2, 3]" by (simp add: expand_call_def sample_refund_config_def)
  have "delivered (br_messages sample_runtime) (LaneId 0 0 0 1) = 0"
    by (simp add: sample_runtime_def empty_messages_state_def pallet_inbound_lane_data_def inbound_lanes_get_def
        default_inbound_lane_data_def last_delivered_nonce_def)
  moreover have "ps_paras_info (br_parachains sample_runtime) = Map.empty"
    by (simp add: sample_runtime_def empty_parachains_state_def)
  ultimately have "br_relayers (refund_post_dispatch sample_refund_config (Some (Some pre)) \<lparr>di_weight = (1, 1)\<rparr>
         \<lparr>actual_weight = None, pays_fee = PaysYes\<rparr> 100 (Inr () :: unit + unit) s') =
      register_relayer_reward (rewards_account_params_new (LaneId 0 0 0 1) (1, 2, 3, 4) ThisChain) 9 100 empty_relayers_state"
    using refund_of_dispatched_transaction [where 'e = unit, OF sample_refund_laws pre calls run, of "\<lparr>di_weight = (1, 1)\<rparr>"
        "\<lparr>actual_weight = None, pays_fee = PaysYes\<rparr>" 100] new
    by (simp add: ci refund params)
  then show ?thesis
    using pre run by (intro exI [of _ pre] exI [of _ s'] exI [of _ x'] conjI)
      (assumption+, simp add: relayer_reward_def register_relayer_reward_def empty_relayers_state_def saturating_add_def Let_def)
qed

end
