(* ===== verification/Relay_Utils.thy ===== *)
theory Relay_Utils
  imports Rust_Prelude
begin

text \<open>
  Utilities of the relays (\<open>relays/utils/src/lib.rs\<close>): results of requests to clients and the
  failures that end a relay loop. Durations are not modelled: a client that has failed goes offline
  until a timer fires.
\<close>

text \<open>The operator \<open>?\<close> on results.\<close>

definition result_bind :: "'e + 'a \<Rightarrow> ('a \<Rightarrow> 'e + 'b) \<Rightarrow> 'e + 'b" where
  "result_bind r f = (case r of Inl e \<Rightarrow> Inl e | Inr x \<Rightarrow> f x)"

lemma result_bind_simps [simp]: "result_bind (Inl e) f = Inl e" "result_bind (Inr x) f = f x"
  by (simp_all add: result_bind_def)

lemma result_bind_Inr: "result_bind r f = Inr y \<longleftrightarrow> (\<exists>x. r = Inr x \<and> f x = Inr y)"
  by (cases r) auto

datatype failed_client = SourceFailed | TargetFailed | BothFailed

datatype future_result = FutureSuccess | FutureFailed | FutureConnectionFailed

datatype 'block tracked_transaction_status = TransactionLost | TransactionFinalized 'block

datatype stringified_maybe_connection_error = ConnectionError string | NonConnectionError string

definition stringified_maybe_connection_error_new :: "bool \<Rightarrow> string \<Rightarrow> stringified_maybe_connection_error" where
  "stringified_maybe_connection_error_new is_connection_error error =
     (if is_connection_error then ConnectionError error else NonConnectionError error)"

fun stringified_is_connection_error :: "stringified_maybe_connection_error \<Rightarrow> bool" where
  "stringified_is_connection_error (ConnectionError _) = True"
| "stringified_is_connection_error (NonConnectionError _) = False"

fun future_is_ok :: "future_result \<Rightarrow> bool" where
  "future_is_ok FutureSuccess = True"
| "future_is_ok FutureFailed = False"
| "future_is_ok FutureConnectionFailed = False"

definition fail_if_error :: "failed_client \<Rightarrow> future_result \<Rightarrow> failed_client + unit" where
  "fail_if_error failed_client result = (if future_is_ok result then Inr () else Inl failed_client)"

fun fail_if_connection_error :: "failed_client \<Rightarrow> future_result \<Rightarrow> failed_client + bool" where
  "fail_if_connection_error failed_client FutureSuccess = Inr True"
| "fail_if_connection_error failed_client FutureFailed = Inr False"
| "fail_if_connection_error failed_client FutureConnectionFailed = Inl failed_client"

text \<open>
  \<open>on_success\<close> and \<open>go_offline\<close> act on the variables \<open>'s\<close> of the calling loop; the latter starts the
  timer of the client.
\<close>

definition process_future_result ::
  "('e \<Rightarrow> bool) \<Rightarrow> ('e + 'r) \<Rightarrow> ('r \<Rightarrow> 's \<Rightarrow> 's) \<Rightarrow> ('s \<Rightarrow> 's) \<Rightarrow> 's \<Rightarrow> future_result \<times> 's" where
  "process_future_result is_connection_error result on_success go_offline s =
     (case result of
        Inr result \<Rightarrow> (FutureSuccess, on_success result s)
      | Inl error \<Rightarrow> if is_connection_error error then (FutureConnectionFailed, go_offline s)
                    else (FutureFailed, go_offline s))"

end
