(* ===== verification/Race_Loop.thy ===== *)
theory Race_Loop
  imports Relay_Utils Messages_Primitives
begin

text \<open>
  The race loop of the messages relay (\<open>relays/messages/src/message_race_loop.rs\<close>): it moves nonces
  from a source to a target by asking the source for proofs and submitting them to the target. The
  lane loop runs it twice, for messages and for confirmations.

  The body of the \<open>select!\<close> loop is a function on the variables of the loop. A future that is in
  flight is the request it was started with, a terminated one is \<open>None\<close>; timers are booleans. Every
  completed future is an event, with the answer of the client. Logging, metrics and durations are
  not modelled.
\<close>

type_synonym nonces_range = "message_nonce \<times> message_nonce"

section \<open>State of the race\<close>

record ('sh, 'th) client_state =
  cst_best_self :: 'sh
  cst_best_finalized_self :: 'sh
  cst_best_finalized_peer_at_best_self :: "'th option"
  cst_actual_best_finalized_peer_at_best_self :: "'th option"

record 'range source_client_nonces =
  scn_new_nonces :: 'range
  scn_confirmed_nonce :: "message_nonce option"

record 'tnd target_client_nonces =
  tcn_latest_nonce :: message_nonce
  tcn_nonces_data :: 'tnd

record 'tracker nonces_submit_artifacts =
  nsa_nonces :: nonces_range
  nsa_tx_tracker :: 'tracker

record ('sh, 'th, 'proof, 'batch) race_state =
  rst_best_finalized_source_header_id_at_source :: "'sh option"
  rst_best_finalized_source_header_id_at_best_target :: "'sh option"
  rst_best_target_header_id :: "'th option"
  rst_best_finalized_target_header_id :: "'th option"
  rst_nonces_to_submit :: "('sh \<times> nonces_range \<times> 'proof) option"
  rst_nonces_to_submit_batch :: "'batch option"
  rst_nonces_submitted :: "nonces_range option"

definition race_state_default :: "('sh, 'th, 'proof, 'batch) race_state" where
  "race_state_default = \<lparr>
     rst_best_finalized_source_header_id_at_source = None,
     rst_best_finalized_source_header_id_at_best_target = None,
     rst_best_target_header_id = None, rst_best_finalized_target_header_id = None,
     rst_nonces_to_submit = None, rst_nonces_to_submit_batch = None, rst_nonces_submitted = None\<rparr>"

definition race_nonces_to_submit :: "('sh, 'th, 'proof, 'batch) race_state \<Rightarrow> nonces_range option" where
  "race_nonces_to_submit rs = map_option (\<lambda>(_, nonces, _). nonces) (rst_nonces_to_submit rs)"

definition reset_nonces_to_submit :: "('sh, 'th, 'proof, 'batch) race_state \<Rightarrow> ('sh, 'th, 'proof, 'batch) race_state" where
  "reset_nonces_to_submit rs = rs\<lparr>rst_nonces_to_submit := None, rst_nonces_to_submit_batch := None\<rparr>"

definition reset_nonces_submitted :: "('sh, 'th, 'proof, 'batch) race_state \<Rightarrow> ('sh, 'th, 'proof, 'batch) race_state" where
  "reset_nonces_submitted rs = rs\<lparr>rst_nonces_submitted := None\<rparr>"

text \<open>The trait \<open>RaceStrategy\<close>, on a state \<open>'st\<close> of the strategy.\<close>

record ('st, 'sh, 'th, 'proof, 'batch, 'range, 'pp, 'tnd) race_strategy =
  str_is_empty :: "'st \<Rightarrow> bool"
  str_required_source_header_at_target :: "'sh \<Rightarrow> ('sh, 'th, 'proof, 'batch) race_state \<Rightarrow> 'st \<Rightarrow> 'sh option"
  str_best_at_source :: "'st \<Rightarrow> message_nonce option"
  str_best_at_target :: "'st \<Rightarrow> message_nonce option"
  str_source_nonces_updated :: "'sh \<Rightarrow> 'range source_client_nonces \<Rightarrow> 'st \<Rightarrow> 'st"
  str_best_target_nonces_updated ::
    "'tnd target_client_nonces \<Rightarrow> ('sh, 'th, 'proof, 'batch) race_state \<Rightarrow> 'st \<Rightarrow> 'st \<times> ('sh, 'th, 'proof, 'batch) race_state"
  str_finalized_target_nonces_updated ::
    "'tnd target_client_nonces \<Rightarrow> ('sh, 'th, 'proof, 'batch) race_state \<Rightarrow> 'st \<Rightarrow> 'st \<times> ('sh, 'th, 'proof, 'batch) race_state"
  str_select_nonces_to_deliver :: "('sh, 'th, 'proof, 'batch) race_state \<Rightarrow> 'st \<Rightarrow> (nonces_range \<times> 'pp) option"

section \<open>The loop\<close>

record ('st, 'sh, 'th, 'proof, 'batch, 'pp, 'tracker) race_loop =
  lp_state :: "('sh, 'th, 'proof, 'batch) race_state"
  lp_strategy :: 'st
  lp_source_client_is_online :: bool
  lp_source_nonces_required :: bool
  lp_source_required_header :: "'sh option"
  lp_source_nonces :: "('sh \<times> message_nonce) option"
  lp_source_generate_proof :: "('sh \<times> nonces_range \<times> 'pp \<times> 'batch option) option"
  lp_source_go_offline :: bool
  lp_target_client_is_online :: bool
  lp_target_best_nonces_required :: bool
  lp_target_finalized_nonces_required :: bool
  lp_target_batch_transaction :: "'batch option"
  lp_target_require_source_header :: "'sh option"
  lp_target_best_nonces :: "'th option"
  lp_target_finalized_nonces :: "'th option"
  lp_target_submit_proof :: "('batch option \<times> 'sh \<times> nonces_range \<times> 'proof) option"
  lp_target_tx_tracker :: "'tracker option"
  lp_target_go_offline :: bool

definition race_loop_start :: "'st \<Rightarrow> ('st, 'sh, 'th, 'proof, 'batch, 'pp, 'tracker) race_loop" where
  "race_loop_start strategy = \<lparr>
     lp_state = race_state_default, lp_strategy = strategy,
     lp_source_client_is_online = True, lp_source_nonces_required = False, lp_source_required_header = None,
     lp_source_nonces = None, lp_source_generate_proof = None, lp_source_go_offline = False,
     lp_target_client_is_online = True, lp_target_best_nonces_required = False,
     lp_target_finalized_nonces_required = False, lp_target_batch_transaction = None,
     lp_target_require_source_header = None, lp_target_best_nonces = None, lp_target_finalized_nonces = None,
     lp_target_submit_proof = None, lp_target_tx_tracker = None, lp_target_go_offline = False\<rparr>"

text \<open>
  Events. \<open>TargetTracked\<close> carries the status of the transaction and the answer of the target to the
  request for nonces that the handler makes for finalized transactions.
\<close>

datatype ('e, 'sh, 'th, 'proof, 'batch, 'range, 'tnd, 'tracker) race_event =
    SourceUpdated "('sh, 'th) client_state option"
  | TargetUpdated "('th, 'sh) client_state option"
  | SourceNonces "'e + 'sh \<times> 'range source_client_nonces"
  | TargetBestNonces "'e + 'th \<times> 'tnd target_client_nonces"
  | TargetFinalizedNonces "'e + 'th \<times> 'tnd target_client_nonces"
  | TargetRequiredSourceHeader "'e + 'batch option"
  | SourceProof "'e + 'sh \<times> nonces_range \<times> 'proof"
  | TargetSubmitted "'e + 'tracker nonces_submit_artifacts"
  | TargetTracked "'th tracked_transaction_status" "'e + 'th \<times> 'tnd target_client_nonces"
  | SourceOnlineAgain
  | TargetOnlineAgain

text \<open>An event happens only when its future is in flight.\<close>

fun race_event_enabled ::
  "('e, 'sh, 'th, 'proof, 'batch, 'range, 'tnd, 'tracker) race_event \<Rightarrow>
     ('st, 'sh, 'th, 'proof, 'batch, 'pp, 'tracker) race_loop \<Rightarrow> bool" where
  "race_event_enabled (SourceUpdated _) v = True"
| "race_event_enabled (TargetUpdated _) v = True"
| "race_event_enabled (SourceNonces _) v = (lp_source_nonces v \<noteq> None)"
| "race_event_enabled (TargetBestNonces _) v = (lp_target_best_nonces v \<noteq> None)"
| "race_event_enabled (TargetFinalizedNonces _) v = (lp_target_finalized_nonces v \<noteq> None)"
| "race_event_enabled (TargetRequiredSourceHeader _) v = (lp_target_require_source_header v \<noteq> None)"
| "race_event_enabled (SourceProof _) v = (lp_source_generate_proof v \<noteq> None)"
| "race_event_enabled (TargetSubmitted _) v = (lp_target_submit_proof v \<noteq> None)"
| "race_event_enabled (TargetTracked _ _) v = (lp_target_tx_tracker v \<noteq> None)"
| "race_event_enabled SourceOnlineAgain v = lp_source_go_offline v"
| "race_event_enabled TargetOnlineAgain v = lp_target_go_offline v"

abbreviation source_offline where "source_offline v \<equiv> v\<lparr>lp_source_go_offline := True\<rparr>"
abbreviation target_offline where "target_offline v \<equiv> v\<lparr>lp_target_go_offline := True\<rparr>"

fun race_handle_event ::
  "('e \<Rightarrow> bool) \<Rightarrow> ('st, 'sh, 'th, 'proof, 'batch, 'range, 'pp, 'tnd) race_strategy \<Rightarrow>
     ('e, 'sh, 'th, 'proof, 'batch, 'range, 'tnd, 'tracker) race_event \<Rightarrow>
     ('st, 'sh, 'th, 'proof, 'batch, 'pp, 'tracker) race_loop \<Rightarrow>
     failed_client + ('st, 'sh, 'th, 'proof, 'batch, 'pp, 'tracker) race_loop" where
  "race_handle_event conn S (SourceUpdated source_state) v =
     Inr (case source_state of
            None \<Rightarrow> v
          | Some source_state \<Rightarrow>
              let is_source_state_updated =
                    rst_best_finalized_source_header_id_at_source (lp_state v) \<noteq> Some (cst_best_finalized_self source_state)
              in if is_source_state_updated
                 then v\<lparr>lp_source_nonces_required := True,
                        lp_state := (lp_state v)\<lparr>rst_best_finalized_source_header_id_at_source :=
                          Some (cst_best_finalized_self source_state)\<rparr>\<rparr>
                 else v)"
| "race_handle_event conn S (TargetUpdated target_state) v =
     Inr (case target_state of
            None \<Rightarrow> v
          | Some target_state \<Rightarrow>
              let is_target_best_state_updated = rst_best_target_header_id (lp_state v) \<noteq> Some (cst_best_self target_state);
                  v = (if is_target_best_state_updated
                       then v\<lparr>lp_target_best_nonces_required := True,
                              lp_state := (lp_state v)\<lparr>rst_best_target_header_id := Some (cst_best_self target_state),
                                rst_best_finalized_source_header_id_at_best_target :=
                                  cst_best_finalized_peer_at_best_self target_state\<rparr>\<rparr>
                       else v);
                  is_target_finalized_state_updated =
                    rst_best_finalized_target_header_id (lp_state v) \<noteq> Some (cst_best_finalized_self target_state)
              in if is_target_finalized_state_updated
                 then v\<lparr>lp_target_finalized_nonces_required := True,
                        lp_state := (lp_state v)\<lparr>rst_best_finalized_target_header_id :=
                          Some (cst_best_finalized_self target_state)\<rparr>\<rparr>
                 else v)"
| "race_handle_event conn S (SourceNonces nonces) v =
     (let v = v\<lparr>lp_source_nonces := None, lp_source_nonces_required := False\<rparr>;
          (result, v) = process_future_result conn nonces
            (\<lambda>(at_block, nonces) v. v\<lparr>lp_strategy := str_source_nonces_updated S at_block nonces (lp_strategy v)\<rparr>)
            source_offline v
      in case fail_if_connection_error SourceFailed result of
           Inl e \<Rightarrow> Inl e
         | Inr online \<Rightarrow>
             Inr (v\<lparr>lp_source_client_is_online := online,
               lp_source_required_header :=
                 (case rst_best_finalized_source_header_id_at_best_target (lp_state v) of
                    Some best \<Rightarrow> str_required_source_header_at_target S best (lp_state v) (lp_strategy v)
                  | None \<Rightarrow> None)\<rparr>))"
| "race_handle_event conn S (TargetBestNonces nonces) v =
     (let v = v\<lparr>lp_target_best_nonces := None, lp_target_best_nonces_required := False\<rparr>;
          (result, v) = process_future_result conn nonces
            (\<lambda>(_, nonces) v.
               let (st, rs) = str_best_target_nonces_updated S nonces (lp_state v) (lp_strategy v)
               in v\<lparr>lp_strategy := st, lp_state := rs\<rparr>)
            target_offline v
      in map_sum id (\<lambda>online. v\<lparr>lp_target_client_is_online := online\<rparr>) (fail_if_connection_error TargetFailed result))"
| "race_handle_event conn S (TargetFinalizedNonces nonces) v =
     (let v = v\<lparr>lp_target_finalized_nonces := None, lp_target_finalized_nonces_required := False\<rparr>;
          (result, v) = process_future_result conn nonces
            (\<lambda>(_, nonces) v.
               let (st, rs) = str_finalized_target_nonces_updated S nonces (lp_state v) (lp_strategy v)
               in v\<lparr>lp_strategy := st, lp_state := rs\<rparr>)
            target_offline v
      in map_sum id (\<lambda>online. v\<lparr>lp_target_client_is_online := online\<rparr>) (fail_if_connection_error TargetFailed result))"
| "race_handle_event conn S (TargetRequiredSourceHeader maybe_batch_transaction) v =
     (let v = v\<lparr>lp_target_require_source_header := None, lp_source_required_header := None\<rparr>;
          (result, v) = process_future_result conn maybe_batch_transaction
            (\<lambda>maybe_batch_transaction v. v\<lparr>lp_target_batch_transaction := maybe_batch_transaction\<rparr>)
            target_offline v
      in map_sum id (\<lambda>online. v\<lparr>lp_target_client_is_online := online\<rparr>) (fail_if_connection_error TargetFailed result))"
| "race_handle_event conn S (SourceProof pf) v =
     (let batch_transaction = (case lp_source_generate_proof v of Some (_, _, _, batch) \<Rightarrow> batch | None \<Rightarrow> None);
          v = v\<lparr>lp_source_generate_proof := None\<rparr>;
          (result, v) = process_future_result conn pf
            (\<lambda>(at_block, nonces_range, pf) v.
               v\<lparr>lp_state := (lp_state v)\<lparr>rst_nonces_to_submit := Some (at_block, nonces_range, pf),
                                       rst_nonces_to_submit_batch := batch_transaction\<rparr>\<rparr>)
            source_offline v
      in map_sum id (\<lambda>_. v\<lparr>lp_source_client_is_online := True\<rparr>) (fail_if_error SourceFailed result))"
| "race_handle_event conn S (TargetSubmitted proof_submit_result) v =
     (let v = v\<lparr>lp_target_submit_proof := None\<rparr>;
          (result, v) = process_future_result conn proof_submit_result
            (\<lambda>artifacts v.
               v\<lparr>lp_state := (reset_nonces_to_submit (lp_state v))\<lparr>rst_nonces_submitted := Some (nsa_nonces artifacts)\<rparr>,
                 lp_target_tx_tracker := Some (nsa_tx_tracker artifacts)\<rparr>)
            target_offline v
      in map_sum id (\<lambda>_. v\<lparr>lp_target_client_is_online := True\<rparr>) (fail_if_error TargetFailed result))"
| "race_handle_event conn S (TargetTracked target_transaction_status nonces_at_target) v =
     (let v = v\<lparr>lp_target_tx_tracker := None\<rparr>
      in Inr (case (target_transaction_status, rst_nonces_submitted (lp_state v)) of
                (TransactionFinalized _, Some nonces_submitted) \<Rightarrow>
                  (case nonces_at_target of
                     Inl _ \<Rightarrow> v\<lparr>lp_state := reset_nonces_submitted (lp_state v)\<rparr>
                   | Inr (_, nonces_at_target) \<Rightarrow>
                       if tcn_latest_nonce nonces_at_target < snd nonces_submitted
                       then v\<lparr>lp_state := reset_nonces_submitted (lp_state v)\<rparr> else v)
              | (TransactionLost, _) \<Rightarrow> v\<lparr>lp_state := reset_nonces_submitted (lp_state v)\<rparr>
              | _ \<Rightarrow> v))"
| "race_handle_event conn S SourceOnlineAgain v = Inr (v\<lparr>lp_source_go_offline := False, lp_source_client_is_online := True\<rparr>)"
| "race_handle_event conn S TargetOnlineAgain v = Inr (v\<lparr>lp_target_go_offline := False, lp_target_client_is_online := True\<rparr>)"

definition race_select_nonces_to_deliver ::
  "('st, 'sh, 'th, 'proof, 'batch, 'range, 'pp, 'tnd) race_strategy \<Rightarrow> ('sh, 'th, 'proof, 'batch) race_state \<Rightarrow> 'st \<Rightarrow>
     ('sh \<times> nonces_range \<times> 'pp) option" where
  "race_select_nonces_to_deliver S rs strategy =
     (case rst_best_finalized_source_header_id_at_best_target rs of
        None \<Rightarrow> None
      | Some best_finalized_source_header_id_at_best_target \<Rightarrow>
          map_option (\<lambda>(nonces_range, proof_parameters).
              (best_finalized_source_header_id_at_best_target, nonces_range, proof_parameters))
            (str_select_nonces_to_deliver S rs strategy))"

text \<open>
  After an event, requests to idle clients are started; \<open>required_header_id\<close> is the header that a
  batch transaction submits. The \<open>expect\<close>s are the panics \<open>None\<close>.
\<close>

definition race_ask_source ::
  "('batch \<Rightarrow> 'sh) \<Rightarrow> ('st, 'sh, 'th, 'proof, 'batch, 'range, 'pp, 'tnd) race_strategy \<Rightarrow>
     ('st, 'sh, 'th, 'proof, 'batch, 'pp, 'tracker) race_loop \<Rightarrow>
     ('st, 'sh, 'th, 'proof, 'batch, 'pp, 'tracker) race_loop option" where
  "race_ask_source required_header_id S v =
     (if \<not> lp_source_client_is_online v then Some v
      else
      let target_batch_transaction = lp_target_batch_transaction v;
          v = v\<lparr>lp_source_client_is_online := False, lp_target_batch_transaction := None\<rparr>;
          expected_race_state =
            (case target_batch_transaction of
               Some target_batch_transaction \<Rightarrow>
                 (lp_state v)\<lparr>rst_best_finalized_source_header_id_at_best_target :=
                   Some (required_header_id target_batch_transaction)\<rparr>
             | None \<Rightarrow> lp_state v);
          nonces_to_deliver = race_select_nonces_to_deliver S expected_race_state (lp_strategy v);
          best_at_source = str_best_at_source S (lp_strategy v)
      in case nonces_to_deliver of
           Some (at_block, nonces_range, proof_parameters) \<Rightarrow>
             Some (v\<lparr>lp_source_generate_proof := Some (at_block, nonces_range, proof_parameters, target_batch_transaction)\<rparr>)
         | None \<Rightarrow>
             if lp_source_nonces_required v \<and> best_at_source \<noteq> None
             then (case rst_best_finalized_source_header_id_at_source (lp_state v) of
                     None \<Rightarrow> None
                   | Some at_block \<Rightarrow> Some (v\<lparr>lp_source_nonces := Some (at_block, the best_at_source)\<rparr>))
             else Some (v\<lparr>lp_source_client_is_online := True\<rparr>))"

definition race_ask_target ::
  "('st, 'sh, 'th, 'proof, 'batch, 'pp, 'tracker) race_loop \<Rightarrow>
     ('st, 'sh, 'th, 'proof, 'batch, 'pp, 'tracker) race_loop option" where
  "race_ask_target v =
     (if \<not> lp_target_client_is_online v then Some v
      else
      let v = v\<lparr>lp_target_client_is_online := False\<rparr>
      in case rst_nonces_to_submit (lp_state v) of
           Some (at_block, nonces_range, pf) \<Rightarrow>
             Some (v\<lparr>lp_target_submit_proof := Some (rst_nonces_to_submit_batch (lp_state v), at_block, nonces_range, pf)\<rparr>)
         | None \<Rightarrow>
      (case lp_source_required_header v of
           Some source_required_header \<Rightarrow> Some (v\<lparr>lp_target_require_source_header := Some source_required_header\<rparr>)
         | None \<Rightarrow>
             if lp_target_best_nonces_required v
             then map_option (\<lambda>at_block. v\<lparr>lp_target_best_nonces := Some at_block\<rparr>) (rst_best_target_header_id (lp_state v))
             else if lp_target_finalized_nonces_required v
             then map_option (\<lambda>at_block. v\<lparr>lp_target_finalized_nonces := Some at_block\<rparr>)
                    (rst_best_finalized_target_header_id (lp_state v))
             else Some (v\<lparr>lp_target_client_is_online := True\<rparr>)))"

definition race_iteration ::
  "('e \<Rightarrow> bool) \<Rightarrow> ('batch \<Rightarrow> 'sh) \<Rightarrow> ('st, 'sh, 'th, 'proof, 'batch, 'range, 'pp, 'tnd) race_strategy \<Rightarrow>
     ('e, 'sh, 'th, 'proof, 'batch, 'range, 'tnd, 'tracker) race_event \<Rightarrow>
     ('st, 'sh, 'th, 'proof, 'batch, 'pp, 'tracker) race_loop \<Rightarrow>
     (failed_client + ('st, 'sh, 'th, 'proof, 'batch, 'pp, 'tracker) race_loop) option" where
  "race_iteration conn required_header_id S event v =
     (case race_handle_event conn S event v of
        Inl e \<Rightarrow> Some (Inl e)
      | Inr v \<Rightarrow> do {
          v \<leftarrow> race_ask_source required_header_id S v;
          v \<leftarrow> race_ask_target v;
          Some (Inr v)
        })"

inductive race_reachable ::
  "('e \<Rightarrow> bool) \<Rightarrow> ('batch \<Rightarrow> 'sh) \<Rightarrow> ('st, 'sh, 'th, 'proof, 'batch, 'range, 'pp, 'tnd) race_strategy \<Rightarrow> 'st \<Rightarrow>
     ('st, 'sh, 'th, 'proof, 'batch, 'pp, 'tracker) race_loop \<Rightarrow> bool"
  for conn required_header_id S strategy where
  race_starts: "race_reachable conn required_header_id S strategy (race_loop_start strategy)"
| race_continues: "race_reachable conn required_header_id S strategy v \<Longrightarrow> race_event_enabled event v \<Longrightarrow>
     race_iteration conn required_header_id S event v = Some (Inr v') \<Longrightarrow>
     race_reachable conn required_header_id S strategy v'"

section \<open>Invariants of the loop\<close>

text \<open>What the loop relies on: a strategy selects nonces only when nothing is prepared or submitted,
  and its updates change the race state by resetting prepared or submitted nonces only.\<close>

definition resets :: "('sh, 'th, 'proof, 'batch) race_state \<Rightarrow> ('sh, 'th, 'proof, 'batch) race_state set" where
  "resets rs = {rs, reset_nonces_to_submit rs, reset_nonces_submitted rs, reset_nonces_submitted (reset_nonces_to_submit rs)}"

text \<open>An idle client has no request in flight, a busy one has exactly one.\<close>

fun exactly_one :: "bool list \<Rightarrow> bool" where
  "exactly_one [] = False"
| "exactly_one (b # bs) = (if b then \<not> list_ex id bs else exactly_one bs)"

abbreviation in_flight :: "'a option \<Rightarrow> bool" where
  "in_flight future \<equiv> \<not> Option.is_none future"

definition clients_ok :: "('st, 'sh, 'th, 'proof, 'batch, 'pp, 'tracker) race_loop \<Rightarrow> bool" where
  "clients_ok v \<longleftrightarrow>
     exactly_one [lp_source_client_is_online v, in_flight (lp_source_nonces v), in_flight (lp_source_generate_proof v),
       lp_source_go_offline v] \<and>
     exactly_one [lp_target_client_is_online v, in_flight (lp_target_require_source_header v),
       in_flight (lp_target_best_nonces v), in_flight (lp_target_finalized_nonces v), in_flight (lp_target_submit_proof v),
       lp_target_go_offline v]"

text \<open>Nonces are requested only at known headers.\<close>

definition required_ok :: "('st, 'sh, 'th, 'proof, 'batch, 'pp, 'tracker) race_loop \<Rightarrow> bool" where
  "required_ok v \<longleftrightarrow>
     (lp_source_nonces_required v \<longrightarrow> rst_best_finalized_source_header_id_at_source (lp_state v) \<noteq> None) \<and>
     (lp_target_best_nonces_required v \<longrightarrow> rst_best_target_header_id (lp_state v) \<noteq> None) \<and>
     (lp_target_finalized_nonces_required v \<longrightarrow> rst_best_finalized_target_header_id (lp_state v) \<noteq> None)"

text \<open>
  Nonces pass through one stage at a time: being proved, prepared, submitted. What is being
  submitted is what has been prepared.
\<close>

definition pipeline_ok :: "('st, 'sh, 'th, 'proof, 'batch, 'pp, 'tracker) race_loop \<Rightarrow> bool" where
  "pipeline_ok v \<longleftrightarrow>
     (lp_source_generate_proof v \<noteq> None \<longrightarrow>
        rst_nonces_to_submit (lp_state v) = None \<and> rst_nonces_submitted (lp_state v) = None) \<and>
     (rst_nonces_to_submit (lp_state v) \<noteq> None \<longrightarrow> rst_nonces_submitted (lp_state v) = None) \<and>
     (\<forall>b h r p. lp_target_submit_proof v = Some (b, h, r, p) \<longrightarrow>
        rst_nonces_to_submit (lp_state v) = Some (h, r, p) \<and> rst_nonces_to_submit_batch (lp_state v) = b)"

definition race_inv :: "('st, 'sh, 'th, 'proof, 'batch, 'pp, 'tracker) race_loop \<Rightarrow> bool" where
  "race_inv v \<longleftrightarrow> clients_ok v \<and> required_ok v \<and> pipeline_ok v"

lemma clients_ok_frame [simp]:
  "clients_ok (v\<lparr>lp_state := rs\<rparr>) = clients_ok v" "clients_ok (v\<lparr>lp_strategy := st\<rparr>) = clients_ok v"
  "clients_ok (v\<lparr>lp_source_nonces_required := b\<rparr>) = clients_ok v" "clients_ok (v\<lparr>lp_source_required_header := h\<rparr>) = clients_ok v"
  "clients_ok (v\<lparr>lp_target_best_nonces_required := b\<rparr>) = clients_ok v"
  "clients_ok (v\<lparr>lp_target_finalized_nonces_required := b\<rparr>) = clients_ok v"
  "clients_ok (v\<lparr>lp_target_batch_transaction := t\<rparr>) = clients_ok v" "clients_ok (v\<lparr>lp_target_tx_tracker := k\<rparr>) = clients_ok v"
  by (simp_all add: clients_ok_def)

lemma pipeline_ok_frame [simp]:
  "pipeline_ok (v\<lparr>lp_strategy := st\<rparr>) = pipeline_ok v" "pipeline_ok (v\<lparr>lp_source_nonces_required := b\<rparr>) = pipeline_ok v"
  "pipeline_ok (v\<lparr>lp_source_required_header := h\<rparr>) = pipeline_ok v" "pipeline_ok (v\<lparr>lp_source_client_is_online := b\<rparr>) = pipeline_ok v"
  "pipeline_ok (v\<lparr>lp_source_nonces := r\<rparr>) = pipeline_ok v" "pipeline_ok (v\<lparr>lp_source_go_offline := b\<rparr>) = pipeline_ok v"
  "pipeline_ok (v\<lparr>lp_target_client_is_online := b\<rparr>) = pipeline_ok v" "pipeline_ok (v\<lparr>lp_target_go_offline := b\<rparr>) = pipeline_ok v"
  "pipeline_ok (v\<lparr>lp_target_best_nonces_required := b\<rparr>) = pipeline_ok v"
  "pipeline_ok (v\<lparr>lp_target_finalized_nonces_required := b\<rparr>) = pipeline_ok v"
  "pipeline_ok (v\<lparr>lp_target_batch_transaction := t\<rparr>) = pipeline_ok v" "pipeline_ok (v\<lparr>lp_target_tx_tracker := k\<rparr>) = pipeline_ok v"
  "pipeline_ok (v\<lparr>lp_target_require_source_header := h\<rparr>) = pipeline_ok v"
  "pipeline_ok (v\<lparr>lp_target_best_nonces := n\<rparr>) = pipeline_ok v" "pipeline_ok (v\<lparr>lp_target_finalized_nonces := n\<rparr>) = pipeline_ok v"
  by (simp_all add: pipeline_ok_def)

text \<open>An invariant of the loop variables holds after an event, unless the event ends the loop.\<close>

abbreviation after :: "(failed_client + 's) \<Rightarrow> ('s \<Rightarrow> bool) \<Rightarrow> bool" where
  "after r P \<equiv> (case r of Inl _ \<Rightarrow> True | Inr v \<Rightarrow> P v)"

lemma tracked_eq:
  "race_handle_event conn S (TargetTracked x y) v = Inr (v\<lparr>lp_target_tx_tracker := None\<rparr>) \<or>
   race_handle_event conn S (TargetTracked x y) v =
     Inr (v\<lparr>lp_target_tx_tracker := None, lp_state := reset_nonces_submitted (lp_state v)\<rparr>)"
  by (cases x; cases y; cases "rst_nonces_submitted (lp_state v)") (auto simp: Let_def)

lemma submits_nothing:
  "clients_ok v \<Longrightarrow> lp_target_best_nonces v \<noteq> None \<or> lp_target_finalized_nonces v \<noteq> None \<Longrightarrow> lp_target_submit_proof v = None"
  by (cases "lp_target_submit_proof v") (auto simp: clients_ok_def split: if_splits)

lemma handle_event_clients:
  assumes "clients_ok v" and "race_event_enabled event v"
  shows "after (race_handle_event conn S event v) clients_ok"
proof (cases event)
  case (SourceUpdated x)
  then show ?thesis using assms by (simp add: Let_def split: option.split)
next
  case (TargetUpdated x)
  then show ?thesis using assms by (simp add: Let_def split: option.split)
next
  case (SourceNonces x)
  then show ?thesis
    using assms by (cases x) (auto simp: clients_ok_def Let_def process_future_result_def case_prod_unfold split: if_splits)
next
  case (TargetBestNonces x)
  then show ?thesis
    using assms by (cases x) (auto simp: clients_ok_def Let_def process_future_result_def case_prod_unfold split: if_splits)
next
  case (TargetFinalizedNonces x)
  then show ?thesis
    using assms by (cases x) (auto simp: clients_ok_def Let_def process_future_result_def case_prod_unfold split: if_splits)
next
  case (TargetRequiredSourceHeader x)
  then show ?thesis
    using assms by (cases x) (auto simp: clients_ok_def Let_def process_future_result_def split: if_splits)
next
  case (SourceProof x)
  then show ?thesis
    using assms by (cases x) (auto simp: clients_ok_def Let_def process_future_result_def fail_if_error_def case_prod_unfold split: if_splits)
next
  case (TargetSubmitted x)
  then show ?thesis
    using assms by (cases x) (auto simp: clients_ok_def Let_def process_future_result_def fail_if_error_def split: if_splits)
next
  case (TargetTracked x y)
  then show ?thesis
    using assms(1) tracked_eq [of conn S x y v] by auto
qed (use assms in \<open>auto simp: clients_ok_def split: if_splits\<close>)

lemma pipeline_ok_resets:
  "pipeline_ok v \<Longrightarrow> lp_target_submit_proof v = None \<Longrightarrow> rs \<in> resets (lp_state v) \<Longrightarrow> pipeline_ok (v\<lparr>lp_state := rs\<rparr>)"
  by (auto simp: pipeline_ok_def resets_def reset_nonces_to_submit_def reset_nonces_submitted_def)

lemma required_ok_resets: "rs \<in> resets (lp_state v) \<Longrightarrow> required_ok (v\<lparr>lp_state := rs\<rparr>) = required_ok v"
  by (auto simp: required_ok_def resets_def reset_nonces_to_submit_def reset_nonces_submitted_def)

lemma required_ok_frame [simp]:
  "required_ok (v\<lparr>lp_strategy := st\<rparr>) = required_ok v" "required_ok (v\<lparr>lp_source_required_header := h\<rparr>) = required_ok v"
  "required_ok (v\<lparr>lp_source_client_is_online := b\<rparr>) = required_ok v" "required_ok (v\<lparr>lp_source_nonces := r\<rparr>) = required_ok v"
  "required_ok (v\<lparr>lp_source_generate_proof := g\<rparr>) = required_ok v" "required_ok (v\<lparr>lp_source_go_offline := b\<rparr>) = required_ok v"
  "required_ok (v\<lparr>lp_target_client_is_online := b\<rparr>) = required_ok v" "required_ok (v\<lparr>lp_target_go_offline := b\<rparr>) = required_ok v"
  "required_ok (v\<lparr>lp_target_batch_transaction := t\<rparr>) = required_ok v" "required_ok (v\<lparr>lp_target_tx_tracker := k\<rparr>) = required_ok v"
  "required_ok (v\<lparr>lp_target_require_source_header := h\<rparr>) = required_ok v"
  "required_ok (v\<lparr>lp_target_best_nonces := n\<rparr>) = required_ok v" "required_ok (v\<lparr>lp_target_finalized_nonces := n\<rparr>) = required_ok v"
  "required_ok (v\<lparr>lp_target_submit_proof := p\<rparr>) = required_ok v"
  "required_ok v \<Longrightarrow> required_ok (v\<lparr>lp_source_nonces_required := False\<rparr>)"
  "required_ok v \<Longrightarrow> required_ok (v\<lparr>lp_target_best_nonces_required := False\<rparr>)"
  "required_ok v \<Longrightarrow> required_ok (v\<lparr>lp_target_finalized_nonces_required := False\<rparr>)"
  by (simp_all add: required_ok_def)

locale race_strategy_contract =
  fixes S :: "('st, 'sh, 'th, 'proof, 'batch, 'range, 'pp, 'tnd) race_strategy"
  assumes selects_when_idle: "str_select_nonces_to_deliver S rs st = Some r \<Longrightarrow>
      rst_nonces_to_submit rs = None \<and> rst_nonces_submitted rs = None"
    and best_update_resets: "snd (str_best_target_nonces_updated S n rs st) \<in> resets rs"
    and finalized_update_resets: "snd (str_finalized_target_nonces_updated S n rs st) \<in> resets rs"
begin

lemma handle_event_required:
  assumes "required_ok v"
  shows "after (race_handle_event conn S event v) required_ok"
proof (cases event)
  case (SourceUpdated x)
  then show ?thesis using assms by (simp add: Let_def required_ok_def split: option.split)
next
  case (TargetUpdated x)
  then show ?thesis using assms by (simp add: Let_def required_ok_def split: option.split)
next
  case (SourceNonces x)
  then show ?thesis
    using assms by (cases x) (auto simp: Let_def process_future_result_def case_prod_unfold)
next
  case (TargetBestNonces x)
  then show ?thesis
    using assms best_update_resets
    by (cases x) (auto simp: Let_def process_future_result_def case_prod_unfold required_ok_resets)
next
  case (TargetFinalizedNonces x)
  then show ?thesis
    using assms finalized_update_resets
    by (cases x) (auto simp: Let_def process_future_result_def case_prod_unfold required_ok_resets)
next
  case (TargetRequiredSourceHeader x)
  then show ?thesis using assms by (cases x) (auto simp: Let_def process_future_result_def)
next
  case (SourceProof x)
  then show ?thesis
    using assms by (cases x) (auto simp: Let_def process_future_result_def fail_if_error_def case_prod_unfold required_ok_def)
next
  case (TargetSubmitted x)
  then show ?thesis
    using assms
    by (cases x) (auto simp: Let_def process_future_result_def fail_if_error_def required_ok_def reset_nonces_to_submit_def)
next
  case (TargetTracked x y)
  then show ?thesis
    using assms tracked_eq [of conn S x y v] by (auto simp: required_ok_def reset_nonces_submitted_def)
qed (use assms in simp_all)

lemma handle_event_pipeline:
  assumes "pipeline_ok v" and "race_event_enabled event v" and "clients_ok v"
  shows "after (race_handle_event conn S event v) pipeline_ok"
proof (cases event)
  case (SourceUpdated x)
  then show ?thesis using assms(1) by (simp add: Let_def pipeline_ok_def split: option.split)
next
  case (TargetUpdated x)
  then show ?thesis using assms(1) by (simp add: Let_def pipeline_ok_def split: option.split)
next
  case (SourceNonces x)
  then show ?thesis
    using assms(1) by (cases x) (auto simp: Let_def process_future_result_def case_prod_unfold)
next
  case (TargetBestNonces x)
  have none: "lp_target_submit_proof v = None"
    using assms(2,3) TargetBestNonces by (simp add: submits_nothing)
  show ?thesis
    using TargetBestNonces assms(1) none best_update_resets
    by (cases x) (auto simp: Let_def process_future_result_def case_prod_unfold intro!: pipeline_ok_resets)
next
  case (TargetFinalizedNonces x)
  have none: "lp_target_submit_proof v = None"
    using assms(2,3) TargetFinalizedNonces by (simp add: submits_nothing)
  show ?thesis
    using TargetFinalizedNonces assms(1) none finalized_update_resets
    by (cases x) (auto simp: Let_def process_future_result_def case_prod_unfold intro!: pipeline_ok_resets)
next
  case (TargetRequiredSourceHeader x)
  then show ?thesis using assms(1) by (cases x) (auto simp: Let_def process_future_result_def)
next
  case (SourceProof x)
  then show ?thesis
    using assms(1,2) by (cases x) (auto simp: Let_def process_future_result_def fail_if_error_def case_prod_unfold pipeline_ok_def)
next
  case (TargetSubmitted x)
  then show ?thesis
    using assms(1,2)
    by (cases x) (auto simp: Let_def process_future_result_def fail_if_error_def pipeline_ok_def reset_nonces_to_submit_def)
next
  case (TargetTracked x y)
  then show ?thesis
    using assms(1) tracked_eq [of conn S x y v] by (auto simp: pipeline_ok_def reset_nonces_submitted_def)
qed (use assms in simp_all)

lemma selected_when_idle:
  "race_select_nonces_to_deliver S rs st = Some r \<Longrightarrow> rst_nonces_to_submit rs = None \<and> rst_nonces_submitted rs = None"
  using selects_when_idle by (auto simp: race_select_nonces_to_deliver_def split: option.splits)

lemma ask_source_inv:
  assumes "race_inv v"
  obtains v' where "race_ask_source req S v = Some v'" and "race_inv v'"
proof (cases "lp_source_client_is_online v")
  case False
  then show thesis using that assms by (simp add: race_ask_source_def)
next
  case True
  let ?rs = "case lp_target_batch_transaction v of
      Some b \<Rightarrow> (lp_state v)\<lparr>rst_best_finalized_source_header_id_at_best_target := Some (req b)\<rparr> | None \<Rightarrow> lp_state v"
  let ?v = "v\<lparr>lp_source_client_is_online := False, lp_target_batch_transaction := None\<rparr>"
  have pipe: "rst_nonces_to_submit ?rs = rst_nonces_to_submit (lp_state v)"
    "rst_nonces_submitted ?rs = rst_nonces_submitted (lp_state v)" by (simp_all split: option.split)
  have inv: "clients_ok v" "required_ok v" "pipeline_ok v" using assms by (simp_all add: race_inv_def)
  show thesis
  proof (cases "race_select_nonces_to_deliver S ?rs (lp_strategy v)")
    case (Some r)
    obtain h rng pp where r: "r = (h, rng, pp)" by (cases r) auto
    let ?v' = "?v\<lparr>lp_source_generate_proof := Some (h, rng, pp, lp_target_batch_transaction v)\<rparr>"
    have "race_ask_source req S v = Some ?v'"
      using True Some by (cases "lp_target_batch_transaction v") (simp_all add: race_ask_source_def Let_def r)
    moreover have "rst_nonces_to_submit (lp_state v) = None" "rst_nonces_submitted (lp_state v) = None"
      using selected_when_idle [OF Some] pipe by simp_all
    then have "pipeline_ok ?v'" using inv(3) by (auto simp: pipeline_ok_def)
    moreover have "clients_ok ?v'" using inv(1) True by (auto simp: clients_ok_def split: if_splits)
    ultimately show thesis using that inv(2) by (simp add: race_inv_def)
  next
    case None
    show thesis
    proof (cases "lp_source_nonces_required v \<and> str_best_at_source S (lp_strategy v) \<noteq> None")
      case True2: True
      then obtain h where h: "rst_best_finalized_source_header_id_at_source (lp_state v) = Some h"
        using inv(2) by (auto simp: required_ok_def)
      let ?v' = "?v\<lparr>lp_source_nonces := Some (h, the (str_best_at_source S (lp_strategy v)))\<rparr>"
      have "race_ask_source req S v = Some ?v'"
        using True None True2 h by (cases "lp_target_batch_transaction v") (simp_all add: race_ask_source_def Let_def)
      moreover have "clients_ok ?v'" using inv(1) True by (auto simp: clients_ok_def split: if_splits)
      ultimately show thesis using that inv(2,3) by (simp add: race_inv_def)
    next
      case False
      have "race_ask_source req S v = Some (v\<lparr>lp_target_batch_transaction := None\<rparr>)"
        using True None False by (cases "lp_target_batch_transaction v") (auto simp: race_ask_source_def Let_def)
      then show thesis using that inv by (simp add: race_inv_def)
    qed
  qed
qed

lemma ask_target_inv:
  assumes "race_inv v"
  obtains v' where "race_ask_target v = Some v'" and "race_inv v'"
proof (cases "lp_target_client_is_online v")
  case False
  then show thesis using that assms by (simp add: race_ask_target_def)
next
  case True
  let ?v = "v\<lparr>lp_target_client_is_online := False\<rparr>"
  have inv: "clients_ok v" "required_ok v" "pipeline_ok v" using assms by (simp_all add: race_inv_def)
  consider h r p where "rst_nonces_to_submit (lp_state v) = Some (h, r, p)"
    | h where "rst_nonces_to_submit (lp_state v) = None" "lp_source_required_header v = Some h"
    | h where "rst_nonces_to_submit (lp_state v) = None" "lp_source_required_header v = None"
        "lp_target_best_nonces_required v" "rst_best_target_header_id (lp_state v) = Some h"
    | h where "rst_nonces_to_submit (lp_state v) = None" "lp_source_required_header v = None"
        "\<not> lp_target_best_nonces_required v" "lp_target_finalized_nonces_required v"
        "rst_best_finalized_target_header_id (lp_state v) = Some h"
    | "rst_nonces_to_submit (lp_state v) = None" "lp_source_required_header v = None"
        "\<not> lp_target_best_nonces_required v" "\<not> lp_target_finalized_nonces_required v"
    using inv(2) by (cases "rst_nonces_to_submit (lp_state v)"; cases "lp_source_required_header v")
      (auto simp: required_ok_def)
  then show thesis
  proof cases
    case 1
    let ?v' = "?v\<lparr>lp_target_submit_proof := Some (rst_nonces_to_submit_batch (lp_state v), h, r, p)\<rparr>"
    have "race_ask_target v = Some ?v'" using True 1 by (simp add: race_ask_target_def)
    moreover have "clients_ok ?v'" using inv(1) True by (auto simp: clients_ok_def split: if_splits)
    moreover have "pipeline_ok ?v'" using inv(3) 1 by (auto simp: pipeline_ok_def)
    ultimately show thesis using that inv(2) by (simp add: race_inv_def)
  next
    case 2
    let ?v' = "?v\<lparr>lp_target_require_source_header := Some h\<rparr>"
    have "race_ask_target v = Some ?v'" using True 2 by (simp add: race_ask_target_def)
    moreover have "clients_ok ?v'" using inv(1) True by (auto simp: clients_ok_def split: if_splits)
    ultimately show thesis using that inv(2,3) by (simp add: race_inv_def)
  next
    case 3
    let ?v' = "?v\<lparr>lp_target_best_nonces := Some h\<rparr>"
    have "race_ask_target v = Some ?v'" using True 3 by (simp add: race_ask_target_def)
    moreover have "clients_ok ?v'" using inv(1) True by (auto simp: clients_ok_def split: if_splits)
    ultimately show thesis using that inv(2,3) by (simp add: race_inv_def)
  next
    case 4
    let ?v' = "?v\<lparr>lp_target_finalized_nonces := Some h\<rparr>"
    have "race_ask_target v = Some ?v'" using True 4 by (simp add: race_ask_target_def)
    moreover have "clients_ok ?v'" using inv(1) True by (auto simp: clients_ok_def split: if_splits)
    ultimately show thesis using that inv(2,3) by (simp add: race_inv_def)
  next
    case 5
    have "race_ask_target v = Some v" using True 5 by (simp add: race_ask_target_def)
    then show thesis using that assms by simp
  qed
qed

lemma iteration_inv:
  assumes "race_inv v" and "race_event_enabled event v"
  obtains e where "race_iteration conn req S event v = Some (Inl e)"
  | v' where "race_iteration conn req S event v = Some (Inr v')" "race_inv v'"
proof (cases "race_handle_event conn S event v")
  case (Inl e)
  then show thesis using that(1) by (simp add: race_iteration_def)
next
  case (Inr w)
  have "race_inv w"
    using assms handle_event_clients [of v event conn S] handle_event_required [of v conn event]
      handle_event_pipeline [of v event conn] by (simp add: race_inv_def Inr)
  then obtain w1 where w1: "race_ask_source req S w = Some w1" "race_inv w1" by (rule ask_source_inv)
  from w1(2) obtain w2 where w2: "race_ask_target w1 = Some w2" "race_inv w2" by (rule ask_target_inv)
  show thesis by (rule that(2) [of w2]) (simp_all add: race_iteration_def Inr w1 w2)
qed

lemma race_inv_start: "race_inv (race_loop_start strategy)"
  by (simp add: race_inv_def race_loop_start_def clients_ok_def required_ok_def pipeline_ok_def race_state_default_def)

lemma race_reachable_inv: "race_reachable conn req S strategy v \<Longrightarrow> race_inv v"
proof (induction rule: race_reachable.induct)
  case (race_continues v event v')
  then show ?case by (metis iteration_inv option.inject sum.inject(2) sum.distinct(1))
qed (rule race_inv_start)

lemma race_never_panics:
  "race_reachable conn req S strategy v \<Longrightarrow> race_event_enabled event v \<Longrightarrow> race_iteration conn req S event v \<noteq> None"
  by (metis iteration_inv race_reachable_inv option.distinct(1))

end

end
