(* ===== verification/Lane_Loop.thy ===== *)
theory Lane_Loop
  imports Race_Loop
begin

text \<open>
  The lane loop of the messages relay (\<open>run_until_connection_lost\<close> of
  \<open>relays/messages/src/message_lane_loop.rs\<close>). It asks both clients for their states at every tick and
  sends the answers to the two races over channels. A channel is the list of the states sent so far;
  the races themselves are in \<open>Race_Loop\<close>, here they only report their failure.
\<close>

record ('sh, 'th) lane_loop =
  ll_source_client_is_online :: bool
  ll_source_state_required :: bool
  ll_source_state :: bool
  ll_source_go_offline :: bool
  ll_target_client_is_online :: bool
  ll_target_state_required :: bool
  ll_target_state :: bool
  ll_target_go_offline :: bool
  ll_delivery_source_states :: "('sh, 'th) client_state list"
  ll_delivery_target_states :: "('th, 'sh) client_state list"
  ll_receiving_source_states :: "('sh, 'th) client_state list"
  ll_receiving_target_states :: "('th, 'sh) client_state list"

definition lane_loop_start :: "('sh, 'th) lane_loop" where
  "lane_loop_start = \<lparr>
     ll_source_client_is_online = False, ll_source_state_required = True, ll_source_state = True, ll_source_go_offline = False,
     ll_target_client_is_online = False, ll_target_state_required = True, ll_target_state = True, ll_target_go_offline = False,
     ll_delivery_source_states = [], ll_delivery_target_states = [],
     ll_receiving_source_states = [], ll_receiving_target_states = []\<rparr>"

datatype ('e, 'sh, 'th) lane_event =
    LaneSourceState "'e + ('sh, 'th) client_state"
  | LaneSourceOnlineAgain
  | LaneSourceTick
  | LaneTargetState "'e + ('th, 'sh) client_state"
  | LaneTargetOnlineAgain
  | LaneTargetTick
  | DeliveryRaceFailed failed_client
  | ReceivingRaceFailed failed_client
  | LaneExit

fun lane_event_enabled :: "('e, 'sh, 'th) lane_event \<Rightarrow> ('sh, 'th) lane_loop \<Rightarrow> bool" where
  "lane_event_enabled (LaneSourceState _) v = ll_source_state v"
| "lane_event_enabled LaneSourceOnlineAgain v = ll_source_go_offline v"
| "lane_event_enabled (LaneTargetState _) v = ll_target_state v"
| "lane_event_enabled LaneTargetOnlineAgain v = ll_target_go_offline v"
| "lane_event_enabled _ v = True"

text \<open>The result of a step: the loop has ended (\<open>Inl\<close>) with an error or on the exit signal, or it goes on.\<close>

fun lane_handle_event ::
  "('e \<Rightarrow> bool) \<Rightarrow> ('e, 'sh, 'th) lane_event \<Rightarrow> ('sh, 'th) lane_loop \<Rightarrow> (failed_client + unit) + ('sh, 'th) lane_loop" where
  "lane_handle_event conn (LaneSourceState new_source_state) v =
     (let v = v\<lparr>ll_source_state := False, ll_source_state_required := False\<rparr>;
          (result, v) = process_future_result conn new_source_state
            (\<lambda>new_source_state v. v\<lparr>ll_delivery_source_states := ll_delivery_source_states v @ [new_source_state],
               ll_receiving_source_states := ll_receiving_source_states v @ [new_source_state]\<rparr>)
            (\<lambda>v. v\<lparr>ll_source_go_offline := True\<rparr>) v
      in case fail_if_connection_error SourceFailed result of
           Inl failed \<Rightarrow> Inl (Inl failed)
         | Inr is_online \<Rightarrow> Inr (v\<lparr>ll_source_client_is_online := is_online\<rparr>))"
| "lane_handle_event conn LaneSourceOnlineAgain v = Inr (v\<lparr>ll_source_go_offline := False, ll_source_client_is_online := True\<rparr>)"
| "lane_handle_event conn LaneSourceTick v = Inr (v\<lparr>ll_source_state_required := True\<rparr>)"
| "lane_handle_event conn (LaneTargetState new_target_state) v =
     (let v = v\<lparr>ll_target_state := False, ll_target_state_required := False\<rparr>;
          (result, v) = process_future_result conn new_target_state
            (\<lambda>new_target_state v. v\<lparr>ll_delivery_target_states := ll_delivery_target_states v @ [new_target_state],
               ll_receiving_target_states := ll_receiving_target_states v @ [new_target_state]\<rparr>)
            (\<lambda>v. v\<lparr>ll_target_go_offline := True\<rparr>) v
      in case fail_if_connection_error TargetFailed result of
           Inl failed \<Rightarrow> Inl (Inl failed)
         | Inr is_online \<Rightarrow> Inr (v\<lparr>ll_target_client_is_online := is_online\<rparr>))"
| "lane_handle_event conn LaneTargetOnlineAgain v = Inr (v\<lparr>ll_target_go_offline := False, ll_target_client_is_online := True\<rparr>)"
| "lane_handle_event conn LaneTargetTick v = Inr (v\<lparr>ll_target_state_required := True\<rparr>)"
| "lane_handle_event conn (DeliveryRaceFailed err) v = Inl (Inl err)"
| "lane_handle_event conn (ReceivingRaceFailed err) v = Inl (Inl err)"
| "lane_handle_event conn LaneExit v = Inl (Inr ())"

definition lane_ask_states :: "('sh, 'th) lane_loop \<Rightarrow> ('sh, 'th) lane_loop" where
  "lane_ask_states v =
     (let v = (if ll_source_client_is_online v \<and> ll_source_state_required v
               then v\<lparr>ll_source_state := True, ll_source_client_is_online := False\<rparr> else v)
      in if ll_target_client_is_online v \<and> ll_target_state_required v
         then v\<lparr>ll_target_state := True, ll_target_client_is_online := False\<rparr> else v)"

definition lane_iteration ::
  "('e \<Rightarrow> bool) \<Rightarrow> ('e, 'sh, 'th) lane_event \<Rightarrow> ('sh, 'th) lane_loop \<Rightarrow> (failed_client + unit) + ('sh, 'th) lane_loop" where
  "lane_iteration conn event v = map_sum id lane_ask_states (lane_handle_event conn event v)"

inductive lane_reachable :: "('e \<Rightarrow> bool) \<Rightarrow> ('sh, 'th) lane_loop \<Rightarrow> bool" for conn where
  lane_starts: "lane_reachable conn lane_loop_start"
| lane_continues: "lane_reachable conn v \<Longrightarrow> lane_event_enabled event v \<Longrightarrow> lane_iteration conn event v = Inr v' \<Longrightarrow>
     lane_reachable conn v'"

section \<open>Invariant\<close>

text \<open>
  Both races get the same states in the same order, every client is idle, asked or offline, and an
  idle client whose state is required is asked at once.
\<close>

definition lane_clients_ok :: "('sh, 'th) lane_loop \<Rightarrow> bool" where
  "lane_clients_ok v \<longleftrightarrow>
     exactly_one [ll_source_client_is_online v, ll_source_state v, ll_source_go_offline v] \<and>
     exactly_one [ll_target_client_is_online v, ll_target_state v, ll_target_go_offline v]"

definition lane_channels_ok :: "('sh, 'th) lane_loop \<Rightarrow> bool" where
  "lane_channels_ok v \<longleftrightarrow>
     ll_delivery_source_states v = ll_receiving_source_states v \<and>
     ll_delivery_target_states v = ll_receiving_target_states v"

definition lane_asked :: "('sh, 'th) lane_loop \<Rightarrow> bool" where
  "lane_asked v \<longleftrightarrow>
     \<not> (ll_source_client_is_online v \<and> ll_source_state_required v) \<and>
     \<not> (ll_target_client_is_online v \<and> ll_target_state_required v)"

definition lane_inv :: "('sh, 'th) lane_loop \<Rightarrow> bool" where
  "lane_inv v \<longleftrightarrow> lane_clients_ok v \<and> lane_channels_ok v \<and> lane_asked v"

lemma lane_handle_event_clients:
  assumes "lane_clients_ok v" and "lane_event_enabled event v" and "lane_handle_event conn event v = Inr v'"
  shows "lane_clients_ok v'"
proof (cases event)
  case (LaneSourceState x)
  then show ?thesis
    using assms by (cases x) (auto simp: lane_clients_ok_def process_future_result_def Let_def split: if_splits)
next
  case (LaneTargetState x)
  then show ?thesis
    using assms by (cases x) (auto simp: lane_clients_ok_def process_future_result_def Let_def split: if_splits)
qed (use assms in \<open>auto simp: lane_clients_ok_def split: if_splits\<close>)

lemma lane_handle_event_channels:
  assumes "lane_channels_ok v" and "lane_handle_event conn event v = Inr v'"
  shows "lane_channels_ok v'"
proof (cases event)
  case (LaneSourceState x)
  then show ?thesis
    using assms by (cases x) (auto simp: lane_channels_ok_def process_future_result_def Let_def split: if_splits)
next
  case (LaneTargetState x)
  then show ?thesis
    using assms by (cases x) (auto simp: lane_channels_ok_def process_future_result_def Let_def split: if_splits)
qed (use assms in \<open>auto simp: lane_channels_ok_def\<close>)

lemma lane_ask_states_inv:
  assumes "lane_clients_ok v" and "lane_channels_ok v"
  shows "lane_inv (lane_ask_states v)"
proof -
  have "lane_clients_ok (lane_ask_states v)"
    using assms(1) by (simp add: lane_clients_ok_def lane_ask_states_def Let_def split: if_splits)
  moreover have "lane_channels_ok (lane_ask_states v)"
    using assms(2) by (simp add: lane_channels_ok_def lane_ask_states_def Let_def)
  moreover have "lane_asked (lane_ask_states v)"
    by (simp add: lane_asked_def lane_ask_states_def Let_def)
  ultimately show ?thesis
    by (simp add: lane_inv_def)
qed

lemma lane_inv_iteration:
  assumes "lane_inv v" and "lane_event_enabled event v" and "lane_iteration conn event v = Inr v'"
  shows "lane_inv v'"
proof -
  obtain v1 where v1: "lane_handle_event conn event v = Inr v1" "v' = lane_ask_states v1"
    using assms(3) by (cases "lane_handle_event conn event v") (simp_all add: lane_iteration_def)
  have "lane_clients_ok v" "lane_channels_ok v"
    using assms(1) by (simp_all add: lane_inv_def)
  then show ?thesis
    unfolding v1(2)
    by (intro lane_ask_states_inv lane_handle_event_clients [OF _ assms(2) v1(1)]
        lane_handle_event_channels [OF _ v1(1)])
qed

lemma lane_inv_start: "lane_inv lane_loop_start"
  by (simp add: lane_inv_def lane_clients_ok_def lane_channels_ok_def lane_asked_def lane_loop_start_def)

lemma lane_reachable_inv: "lane_reachable conn v \<Longrightarrow> lane_inv v"
  by (induction rule: lane_reachable.induct) (auto intro: lane_inv_start lane_inv_iteration)

end
