(* ===== verification/Relay_Strategy.thy ===== *)
theory Relay_Strategy
  imports Race_Loop Bridge_Runtime Btree_Map
begin

text \<open>
  The basic strategy of the message races (\<open>relays/messages/src/message_race_strategy.rs\<close>): a queue of
  ranges of nonces with the source headers at which they have been seen. The locale \<open>nonces_ranges\<close> is
  the contract of the trait \<open>NoncesRange\<close>; it is interpreted on inclusive ranges (confirmations) and on
  ordered maps of message details (messages). The queue is specified by the set of the nonces in it.
\<close>

section \<open>Ranges of nonces\<close>

record 'r nonces_range_ops =
  nr_begin :: "'r \<Rightarrow> message_nonce"
  nr_end :: "'r \<Rightarrow> message_nonce"
  nr_greater_than :: "'r \<Rightarrow> message_nonce \<Rightarrow> 'r option"

text \<open>\<open>RangeInclusive<MessageNonce>\<close>.\<close>

definition inclusive_greater_than :: "nonces_range \<Rightarrow> message_nonce \<Rightarrow> nonces_range option" where
  "inclusive_greater_than nonces nonce =
     (let next_nonce = nonce + 1; range_end = snd nonces
      in if next_nonce > range_end then None else Some (max (fst nonces) next_nonce, range_end))"

definition inclusive_range_ops :: "nonces_range nonces_range_ops" where
  "inclusive_range_ops = \<lparr>nr_begin = fst, nr_end = snd, nr_greater_than = inclusive_greater_than\<rparr>"

text \<open>\<open>MessageDetailsMap\<close>, the ordered map of the details of messages.\<close>

record ('w, 'b) message_details =
  det_dispatch_weight :: 'w
  det_size :: u32
  det_reward :: 'b

type_synonym ('w, 'b) message_details_map = "(message_nonce, ('w, 'b) message_details) btree"

definition details_map_begin :: "('w, 'b) message_details_map \<Rightarrow> message_nonce" where
  "details_map_begin m = (case map fst m of nonce # _ \<Rightarrow> nonce | [] \<Rightarrow> 0)"

definition details_map_end :: "('w, 'b) message_details_map \<Rightarrow> message_nonce" where
  "details_map_end m = (if m = [] then 0 else last (map fst m))"

definition details_map_greater_than ::
  "('w, 'b) message_details_map \<Rightarrow> message_nonce \<Rightarrow> ('w, 'b) message_details_map option" where
  "details_map_greater_than m nonce =
     (let gte = btree_split_off (nonce + 1) m in if gte = [] then None else Some gte)"

definition details_map_ops :: "('w, 'b) message_details_map nonces_range_ops" where
  "details_map_ops = \<lparr>nr_begin = details_map_begin, nr_end = details_map_end, nr_greater_than = details_map_greater_than\<rparr>"

section \<open>The strategy\<close>

record ('hash, 'number, 'r) basic_strategy =
  bs_source_queue :: "(('hash, 'number) header_id \<times> 'r) list"
  bs_best_target_nonce :: "message_nonce option"

definition basic_strategy_new :: "('hash, 'number, 'r) basic_strategy" where
  "basic_strategy_new = \<lparr>bs_source_queue = [], bs_best_target_nonce = None\<rparr>"

definition iter_next :: "'a list \<Rightarrow> 'a option" where
  "iter_next xs = (case xs of x # _ \<Rightarrow> Some x | [] \<Rightarrow> None)"

definition iter_last :: "'a list \<Rightarrow> 'a option" where
  "iter_last xs = (if xs = [] then None else Some (last xs))"

definition available_source_queue_indices ::
  "'r nonces_range_ops \<Rightarrow> (('hash, 'number::linorder) header_id, 'th, 'proof, 'batch) race_state \<Rightarrow>
     ('hash, 'number, 'r) basic_strategy \<Rightarrow> (nat \<times> nat) option" where
  "available_source_queue_indices N race_state st =
     do {
       best_target_nonce \<leftarrow> bs_best_target_nonce st;
       if race_nonces_to_submit race_state \<noteq> None then None
       else if rst_nonces_submitted race_state \<noteq> None then None
       else do {
         begin_index \<leftarrow> iter_next (map fst
           (dropWhile (\<lambda>(_, (_, nonces)). nr_end N nonces \<le> best_target_nonce) (enumerate 0 (bs_source_queue st))));
         best_header_at_target \<leftarrow> rst_best_finalized_source_header_id_at_best_target race_state;
         end_index \<leftarrow> iter_last (map fst
           (takeWhile (\<lambda>(_, (queued_at, _)). hid_number queued_at \<le> hid_number best_header_at_target)
             (drop begin_index (enumerate 0 (bs_source_queue st)))));
         Some (begin_index, end_index)
       }
     }"

fun remove_le_nonces ::
  "'r nonces_range_ops \<Rightarrow> message_nonce \<Rightarrow> (('hash, 'number) header_id \<times> 'r) list \<Rightarrow>
     (('hash, 'number) header_id \<times> 'r) list" where
  "remove_le_nonces N nonce [] = []"
| "remove_le_nonces N nonce ((queued_at, queued_range) # source_queue) =
     (case nr_greater_than N queued_range nonce of
        Some range_to_requeue \<Rightarrow> (queued_at, range_to_requeue) # source_queue
      | None \<Rightarrow> remove_le_nonces N nonce source_queue)"

definition basic_is_empty :: "('hash, 'number, 'r) basic_strategy \<Rightarrow> bool" where
  "basic_is_empty st \<longleftrightarrow> bs_source_queue st = []"

definition basic_required_source_header_at_target ::
  "('hash, 'number::linorder) header_id \<Rightarrow> (('hash, 'number) header_id, 'th, 'proof, 'batch) race_state \<Rightarrow>
     ('hash, 'number, 'r) basic_strategy \<Rightarrow> ('hash, 'number) header_id option" where
  "basic_required_source_header_at_target current_best race_state st =
     do { (h, _) \<leftarrow> iter_last (bs_source_queue st);
          if hid_number h > hid_number current_best then Some h else None }"

definition basic_best_at_source :: "'r nonces_range_ops \<Rightarrow> ('hash, 'number, 'r) basic_strategy \<Rightarrow> message_nonce option" where
  "basic_best_at_source N st =
     (let best_in_queue = map_option (\<lambda>(_, range). nr_end N range) (iter_last (bs_source_queue st))
      in case (best_in_queue, bs_best_target_nonce st) of
           (Some best_in_queue, Some best_target_nonce) \<Rightarrow>
             if best_in_queue > best_target_nonce then Some best_in_queue else Some best_target_nonce
         | (None, Some best_target_nonce) \<Rightarrow> Some best_target_nonce
         | (_, None) \<Rightarrow> None)"

definition best_in_queue_or_target :: "'r nonces_range_ops \<Rightarrow> ('hash, 'number, 'r) basic_strategy \<Rightarrow> message_nonce" where
  "best_in_queue_or_target N st =
     (case map_option (\<lambda>(_, range). nr_end N range) (iter_last (bs_source_queue st)) of
        Some best \<Rightarrow> best
      | None \<Rightarrow> (case bs_best_target_nonce st of Some best \<Rightarrow> best | None \<Rightarrow> 0))"

definition basic_source_nonces_updated ::
  "'r nonces_range_ops \<Rightarrow> ('hash, 'number) header_id \<Rightarrow> 'r source_client_nonces \<Rightarrow>
     ('hash, 'number, 'r) basic_strategy \<Rightarrow> ('hash, 'number, 'r) basic_strategy" where
  "basic_source_nonces_updated N at_block nonces st =
     (let best_in_queue = best_in_queue_or_target N st
      in st\<lparr>bs_source_queue := bs_source_queue st @
           (case nr_greater_than N (scn_new_nonces nonces) best_in_queue of Some r \<Rightarrow> [(at_block, r)] | None \<Rightarrow> [])\<rparr>)"

definition basic_best_target_nonces_updated ::
  "unit target_client_nonces \<Rightarrow> ('sh, 'th, 'proof, 'batch) race_state \<Rightarrow> ('hash, 'number, 'r) basic_strategy \<Rightarrow>
     ('hash, 'number, 'r) basic_strategy \<times> ('sh, 'th, 'proof, 'batch) race_state" where
  "basic_best_target_nonces_updated nonces race_state st =
     (let nonce = tcn_latest_nonce nonces;
          need_to_select_new_nonces =
            (case race_nonces_to_submit race_state of Some (_, range_end) \<Rightarrow> range_end \<le> nonce | None \<Rightarrow> False);
          race_state = (if need_to_select_new_nonces then reset_nonces_to_submit race_state else race_state);
          need_new_nonces_to_submit =
            (case rst_nonces_submitted race_state of Some (_, range_end) \<Rightarrow> range_end \<le> nonce | None \<Rightarrow> False);
          race_state = (if need_new_nonces_to_submit then reset_nonces_submitted race_state else race_state)
      in (st\<lparr>bs_best_target_nonce := Some nonce\<rparr>, race_state))"

definition basic_finalized_target_nonces_updated ::
  "'r nonces_range_ops \<Rightarrow> unit target_client_nonces \<Rightarrow> ('sh, 'th, 'proof, 'batch) race_state \<Rightarrow>
     ('hash, 'number, 'r) basic_strategy \<Rightarrow> ('hash, 'number, 'r) basic_strategy \<times> ('sh, 'th, 'proof, 'batch) race_state" where
  "basic_finalized_target_nonces_updated N nonces race_state st =
     (let latest = tcn_latest_nonce nonces
      in (st\<lparr>bs_source_queue := remove_le_nonces N latest (bs_source_queue st),
             bs_best_target_nonce :=
               Some (max (case bs_best_target_nonce st of Some best \<Rightarrow> best | None \<Rightarrow> latest) latest)\<rparr>, race_state))"

definition basic_select_nonces_to_deliver ::
  "'r nonces_range_ops \<Rightarrow> (('hash, 'number::linorder) header_id, 'th, 'proof, 'batch) race_state \<Rightarrow>
     ('hash, 'number, 'r) basic_strategy \<Rightarrow> (nonces_range \<times> unit) option" where
  "basic_select_nonces_to_deliver N race_state st =
     do {
       (first, final) \<leftarrow> available_source_queue_indices N race_state st;
       best_target_nonce \<leftarrow> bs_best_target_nonce st;
       let range_begin = max (best_target_nonce + 1) (nr_begin N (snd (bs_source_queue st ! first)));
           range_end = nr_end N (snd (bs_source_queue st ! final))
       in Some ((range_begin, range_end), ())
     }"

definition basic_strategy_ops ::
  "'r nonces_range_ops \<Rightarrow> (('hash, 'number::linorder, 'r) basic_strategy, ('hash, 'number) header_id, 'th, 'proof, 'batch,
     'r, unit, unit) race_strategy" where
  "basic_strategy_ops N = \<lparr>
     str_is_empty = basic_is_empty,
     str_required_source_header_at_target = basic_required_source_header_at_target,
     str_best_at_source = basic_best_at_source N,
     str_best_at_target = bs_best_target_nonce,
     str_source_nonces_updated = basic_source_nonces_updated N,
     str_best_target_nonces_updated = basic_best_target_nonces_updated,
     str_finalized_target_nonces_updated = basic_finalized_target_nonces_updated N,
     str_select_nonces_to_deliver = basic_select_nonces_to_deliver N\<rparr>"

section \<open>The contract of the race loop\<close>

lemma available_when_idle:
  "available_source_queue_indices N rs st = Some r \<Longrightarrow> rst_nonces_to_submit rs = None \<and> rst_nonces_submitted rs = None"
  by (cases "rst_nonces_to_submit rs"; cases "rst_nonces_submitted rs")
    (auto simp: available_source_queue_indices_def race_nonces_to_submit_def split: bind_splits)

lemma basic_best_update_resets: "snd (basic_best_target_nonces_updated n rs st) \<in> resets rs"
  by (auto simp: basic_best_target_nonces_updated_def resets_def Let_def)

lemma basic_finalized_update_state: "snd (basic_finalized_target_nonces_updated N n rs st) = rs"
  by (simp add: basic_finalized_target_nonces_updated_def Let_def)

lemma resets_refl [simp]: "rs \<in> resets rs"
  by (simp add: resets_def)

interpretation basic: race_strategy_contract "basic_strategy_ops N"
  by unfold_locales
    (auto simp: basic_strategy_ops_def basic_select_nonces_to_deliver_def basic_best_update_resets
        basic_finalized_update_state dest: available_when_idle split: bind_splits)

section \<open>The queue as a set of nonces\<close>

lemma iter_next_index:
  "iter_next (map fst (dropWhile (\<lambda>(_, x). P x) (enumerate k xs))) =
     (if length (takeWhile P xs) < length xs then Some (k + length (takeWhile P xs)) else None)"
  by (induction xs arbitrary: k) (auto simp: iter_next_def)

lemma takeWhile_enumerate: "takeWhile (\<lambda>(_, x). P x) (enumerate k xs) = enumerate k (takeWhile P xs)"
  by (induction xs arbitrary: k) auto

lemma drop_enumerate: "drop n (enumerate k xs) = enumerate (k + n) (drop n xs)"
proof (induction xs arbitrary: k n)
  case (Cons x xs)
  then show ?case by (cases n) auto
qed simp

lemma iter_last_index:
  "iter_last (map fst (takeWhile (\<lambda>(_, x). P x) (drop k (enumerate 0 xs)))) =
     (if takeWhile P (drop k xs) = [] then None else Some (k + (length (takeWhile P (drop k xs)) - 1)))"
  by (auto simp: drop_enumerate takeWhile_enumerate iter_last_def last_conv_nth)

lemma succ_le_iff: "t \<noteq> - 1 \<Longrightarrow> t + 1 \<le> x \<longleftrightarrow> t < x" for t x :: "'l::len word"
  by (intro word_succ_le_iff unat_succ) (simp add: word_order.not_eq_extremum)

lemma sorted_dropWhile:
  assumes "sorted_wrt R xs" and "\<And>x y. y \<in> set xs \<Longrightarrow> \<not> P x \<Longrightarrow> R x y \<Longrightarrow> \<not> P y" and "z \<in> set (dropWhile P xs)"
  shows "\<not> P z"
  using assms by (induction xs) (auto split: if_splits)

text \<open>
  The queue is sorted: later entries have larger nonces and have been seen at later headers.
  \<open>available_nonces\<close> are the nonces that may be delivered: they are after the best nonce of the target
  and their header is known to the target.
\<close>

definition ranges_ok :: "'r nonces_range_ops \<Rightarrow> ('r \<Rightarrow> bool) \<Rightarrow> (('hash, 'number::linorder) header_id \<times> 'r) list \<Rightarrow> bool" where
  "ranges_ok N valid q \<longleftrightarrow> (\<forall>(h, r) \<in> set q. valid r) \<and>
     sorted_wrt (\<lambda>(h, r) (h', r'). hid_number h \<le> hid_number h' \<and> nr_end N r < nr_begin N r') q"

definition ranges_nonces :: "('r \<Rightarrow> message_nonce set) \<Rightarrow> (('hash, 'number) header_id \<times> 'r) list \<Rightarrow> message_nonce set" where
  "ranges_nonces nonces q = (\<Union>(h, r) \<in> set q. nonces r)"

definition available_nonces ::
  "('r \<Rightarrow> message_nonce set) \<Rightarrow> message_nonce \<Rightarrow> ('hash, 'number::linorder) header_id \<Rightarrow>
     (('hash, 'number) header_id \<times> 'r) list \<Rightarrow> message_nonce set" where
  "available_nonces nonces best_target_nonce best_header q =
     {x \<in> ranges_nonces nonces (filter (\<lambda>(h, _). hid_number h \<le> hid_number best_header) q). best_target_nonce < x}"

text \<open>The contract of a range: it is never empty, and it is the set of its nonces.\<close>

locale nonces_ranges =
  fixes N :: "'r nonces_range_ops" and valid :: "'r \<Rightarrow> bool" and nonces :: "'r \<Rightarrow> message_nonce set"
  assumes begin_least: "valid r \<Longrightarrow> nr_begin N r \<in> nonces r \<and> (\<forall>x \<in> nonces r. nr_begin N r \<le> x)"
    and end_greatest: "valid r \<Longrightarrow> nr_end N r \<in> nonces r \<and> (\<forall>x \<in> nonces r. x \<le> nr_end N r)"
    and greater_than_None: "valid r \<Longrightarrow> nonce \<noteq> - 1 \<Longrightarrow> nr_greater_than N r nonce = None \<longleftrightarrow> (\<forall>x \<in> nonces r. x \<le> nonce)"
    and greater_than_Some: "valid r \<Longrightarrow> nonce \<noteq> - 1 \<Longrightarrow> nr_greater_than N r nonce = Some r' \<Longrightarrow>
      valid r' \<and> nonces r' = {x \<in> nonces r. nonce < x}"
begin

abbreviation ok :: "(('hash, 'number::linorder) header_id \<times> 'r) list \<Rightarrow> bool" where
  "ok \<equiv> ranges_ok N valid"

abbreviation queued :: "(('hash, 'number) header_id \<times> 'r) list \<Rightarrow> message_nonce set" where
  "queued \<equiv> ranges_nonces nonces"

lemma ranges_ok_Nil [simp]: "ok []"
  by (simp add: ranges_ok_def)

lemma ranges_nonces_Nil [simp]: "queued [] = {}"
  by (simp add: ranges_nonces_def)

lemma ranges_nonces_Cons [simp]: "queued ((h, r) # q) = nonces r \<union> queued q"
  by (simp add: ranges_nonces_def)

lemma ranges_nonces_append [simp]: "queued (q @ q') = queued q \<union> queued q'"
  by (simp add: ranges_nonces_def)

lemma ranges_ok_Cons:
  "ok ((h, r) # q) \<longleftrightarrow> valid r \<and> ok q \<and>
     (\<forall>(h', r') \<in> set q. hid_number h \<le> hid_number h' \<and> nr_end N r < nr_begin N r')"
  by (auto simp: ranges_ok_def)

lemma ranges_ok_append:
  "ok (q @ q') \<longleftrightarrow> ok q \<and> ok q' \<and>
     (\<forall>(h, r) \<in> set q. \<forall>(h', r') \<in> set q'. hid_number h \<le> hid_number h' \<and> nr_end N r < nr_begin N r')"
  by (auto simp: ranges_ok_def sorted_wrt_append)

lemma tail_greater: "ok ((h, r) # q) \<Longrightarrow> x \<in> queued q \<Longrightarrow> nr_end N r < x"
  by (fastforce simp: ranges_ok_Cons ranges_nonces_def ranges_ok_def dest: begin_least)

lemma remove_le_nonces_spec:
  assumes "ok q" and "nonce \<noteq> - 1"
  shows "ok (remove_le_nonces N nonce q)"
    and "queued (remove_le_nonces N nonce q) = {x \<in> queued q. nonce < x}"
proof -
  have "ok (remove_le_nonces N nonce q) \<and> queued (remove_le_nonces N nonce q) = {x \<in> queued q. nonce < x}"
    using assms(1)
  proof (induction q)
    case (Cons p q)
    obtain h r where p: "p = (h, r)" by (cases p)
    have ok: "valid r" "ok q" using Cons.prems by (simp_all add: p ranges_ok_Cons)
    show ?case
    proof (cases "nr_greater_than N r nonce")
      case None
      then have "\<forall>x \<in> nonces r. x \<le> nonce" using greater_than_None [OF ok(1) assms(2)] by simp
      then show ?thesis using Cons.IH ok None by (auto simp: p)
    next
      case (Some r')
      note r' = greater_than_Some [OF ok(1) assms(2) Some]
      have "nonce < nr_end N r" using r' begin_least [of r'] end_greatest [OF ok(1)] by fastforce
      then have "nonce < x" if "x \<in> queued q" for x
        using tail_greater [OF Cons.prems [unfolded p] that] by simp
      moreover have "nr_end N r' \<le> nr_end N r" using r' end_greatest [of r'] end_greatest [OF ok(1)] by blast
      then have "ok ((h, r') # q)" using Cons.prems r' by (fastforce simp: p ranges_ok_Cons)
      ultimately show ?thesis using Some r' by (auto simp: p)
    qed
  qed simp
  then show "ok (remove_le_nonces N nonce q)"
    and "queued (remove_le_nonces N nonce q) = {x \<in> queued q. nonce < x}" by auto
qed

lemma in_queue: "ok q \<Longrightarrow> (h, r) \<in> set q \<Longrightarrow> valid r \<and> nonces r \<subseteq> queued q"
  by (auto simp: ranges_ok_def ranges_nonces_def)

lemma sorted_entries:
  assumes "ok q" and "i < j" and "j < length q"
  shows "hid_number (fst (q ! i)) \<le> hid_number (fst (q ! j))" and "nr_end N (snd (q ! i)) < nr_begin N (snd (q ! j))"
  using assms sorted_wrt_nth_less [of _ q i j] by (fastforce simp: ranges_ok_def split: prod.splits)+

lemma ends_le_last:
  assumes "ok q" and "(h, r) \<in> set q"
  shows "nr_end N r \<le> nr_end N (snd (last q))"
proof -
  from assms(2) obtain i where i: "i < length q" "q ! i = (h, r)" by (auto simp: in_set_conv_nth)
  have "q \<noteq> []" using assms(2) by auto
  then have last: "last q = q ! (length q - 1)" "last q \<in> set q" by (simp_all add: last_conv_nth)
  show ?thesis
  proof (cases "i = length q - 1")
    case False
    then have "i < length q - 1" "length q - 1 < length q" using i by auto
    then have "nr_end N r < nr_begin N (snd (last q))" using sorted_entries(2) [OF assms(1)] i last by fastforce
    moreover have "nr_begin N (snd (last q)) \<le> nr_end N (snd (last q))"
      using in_queue [OF assms(1), of "fst (last q)" "snd (last q)"] last begin_least end_greatest by auto
    ultimately show ?thesis by simp
  qed (use i last in simp)
qed

lemma source_nonces_updated_spec:
  assumes "ok (bs_source_queue st)" and "valid (scn_new_nonces n)" and "best_in_queue_or_target N st \<noteq> - 1"
    and "\<forall>(h, _) \<in> set (bs_source_queue st). hid_number h \<le> hid_number at_block"
  shows "ok (bs_source_queue (basic_source_nonces_updated N at_block n st))"
    and "queued (bs_source_queue (basic_source_nonces_updated N at_block n st)) =
      queued (bs_source_queue st) \<union> {x \<in> nonces (scn_new_nonces n). best_in_queue_or_target N st < x}"
proof -
  let ?q = "bs_source_queue st" and ?best = "best_in_queue_or_target N st"
  have last: "nr_end N r \<le> ?best" if "(h, r) \<in> set ?q" for h r
    using ends_le_last [OF assms(1) that] that
    by (auto simp: best_in_queue_or_target_def iter_last_def case_prod_unfold)
  show "ok (bs_source_queue (basic_source_nonces_updated N at_block n st))"
    and "queued (bs_source_queue (basic_source_nonces_updated N at_block n st)) =
      queued ?q \<union> {x \<in> nonces (scn_new_nonces n). ?best < x}"
  proof (atomize (full), cases "nr_greater_than N (scn_new_nonces n) ?best")
    case None
    then show "ok (bs_source_queue (basic_source_nonces_updated N at_block n st)) \<and>
      queued (bs_source_queue (basic_source_nonces_updated N at_block n st)) =
      queued ?q \<union> {x \<in> nonces (scn_new_nonces n). ?best < x}"
      using assms(1) greater_than_None [OF assms(2,3)] by (auto simp: basic_source_nonces_updated_def Let_def)
  next
    case (Some r')
    note r' = greater_than_Some [OF assms(2,3) Some]
    have "?best < nr_begin N r'" using r' begin_least [of r'] by blast
    then have "ok (?q @ [(at_block, r')])"
      using assms(1,4) r' last by (fastforce simp: ranges_ok_append ranges_ok_Cons)
    then show "ok (bs_source_queue (basic_source_nonces_updated N at_block n st)) \<and>
      queued (bs_source_queue (basic_source_nonces_updated N at_block n st)) =
      queued ?q \<union> {x \<in> nonces (scn_new_nonces n). ?best < x}"
      using Some r' by (simp add: basic_source_nonces_updated_def Let_def)
  qed
qed

lemma queue_bounds:
  assumes "ok q" and "q \<noteq> []"
  shows "x \<in> queued q \<Longrightarrow> nr_begin N (snd (hd q)) \<le> x \<and> x \<le> nr_end N (snd (last q))"
    and "nr_end N (snd (last q)) \<in> queued q"
proof -
  show "nr_end N (snd (last q)) \<in> queued q"
    using in_queue [OF assms(1), of "fst (last q)" "snd (last q)"] assms(2) end_greatest by auto
  assume "x \<in> queued q"
  then obtain h r where r: "(h, r) \<in> set q" "x \<in> nonces r" by (auto simp: ranges_nonces_def)
  have "x \<le> nr_end N (snd (last q))"
    using ends_le_last [OF assms(1) r(1)] in_queue [OF assms(1) r(1)] end_greatest [of r] r(2) by fastforce
  moreover obtain h0 r0 q' where q: "q = (h0, r0) # q'" using assms(2) by (cases q) auto
  have "nr_begin N r0 \<le> x"
  proof (cases "x \<in> nonces r0")
    case False
    then have "x \<in> queued q'" using \<open>x \<in> queued q\<close> by (simp add: q)
    then have "nr_end N r0 < x" using tail_greater assms(1) q by blast
    moreover have "valid r0" using assms(1) by (simp add: q ranges_ok_Cons)
    then have "nr_begin N r0 \<le> nr_end N r0" using begin_least end_greatest by blast
    ultimately show ?thesis by simp
  qed (use assms(1) begin_least in \<open>auto simp: q ranges_ok_Cons\<close>)
  ultimately show "nr_begin N (snd (hd q)) \<le> x \<and> x \<le> nr_end N (snd (last q))" by (simp add: q)
qed

text \<open>
  A sorted queue falls into three parts: the entries that the target has, the available ones and
  the ones whose header the target does not know.
\<close>

lemma queue_parts:
  fixes q :: "(('hash, 'number::linorder) header_id \<times> 'r) list" and t :: message_nonce and best :: "('hash, 'number) header_id"
  assumes "ok q"
  defines "delivered \<equiv> takeWhile (\<lambda>(_, r). nr_end N r \<le> t) q"
  defines "ready \<equiv> takeWhile (\<lambda>(h, _). hid_number h \<le> hid_number best) (drop (length delivered) q)"
  obtains rest where "q = delivered @ ready @ rest"
    and "\<forall>(h, r) \<in> set delivered. nr_end N r \<le> t" and "\<forall>(h, r) \<in> set (ready @ rest). t < nr_end N r"
    and "\<forall>(h, r) \<in> set ready. hid_number h \<le> hid_number best" and "\<forall>(h, r) \<in> set rest. hid_number best < hid_number h"
proof -
  have drop: "drop (length delivered) q = dropWhile (\<lambda>(_, r). nr_end N r \<le> t) q"
    by (simp add: delivered_def dropWhile_eq_drop)
  let ?rest = "dropWhile (\<lambda>(h, _). hid_number h \<le> hid_number best) (drop (length delivered) q)"
  have sorted: "sorted_wrt (\<lambda>(h, r) (h', r'). hid_number h \<le> hid_number h' \<and> nr_end N r < nr_begin N r') q"
    using assms(1) by (simp add: ranges_ok_def)
  have "\<not> (\<lambda>(_, r). nr_end N r \<le> t) e" if "e \<in> set (dropWhile (\<lambda>(_, r). nr_end N r \<le> t) q)" for e
    using sorted _ that
  proof (rule sorted_dropWhile)
    fix x y assume "y \<in> set q" "\<not> (\<lambda>(_, r). nr_end N r \<le> t) x"
      "(\<lambda>(h, r) (h', r'). hid_number h \<le> hid_number h' \<and> nr_end N r < nr_begin N r') x y"
    moreover have "nr_begin N (snd y) \<le> nr_end N (snd y)"
      using in_queue [OF assms(1), of "fst y" "snd y"] \<open>y \<in> set q\<close> begin_least end_greatest by auto
    ultimately show "\<not> (\<lambda>(_, r). nr_end N r \<le> t) y" by (auto simp: case_prod_unfold)
  qed
  moreover have "\<not> (\<lambda>(h, _). hid_number h \<le> hid_number best) e" if "e \<in> set ?rest" for e
    using sorted_wrt_drop [OF sorted] _ that by (rule sorted_dropWhile) (auto simp: case_prod_unfold)
  moreover have "q = delivered @ ready @ ?rest"
    unfolding ready_def takeWhile_dropWhile_id by (simp add: drop) (simp add: delivered_def)
  moreover have "set (ready @ ?rest) = set (drop (length delivered) q)"
    unfolding ready_def takeWhile_dropWhile_id ..
  ultimately show thesis
    by (intro that [of ?rest]) (auto simp: drop [unfolded delivered_def] delivered_def ready_def not_le dest: set_takeWhileD)
qed

lemma available_in_ready:
  assumes "ok (delivered @ ready @ rest)"
    and "\<forall>(h, r) \<in> set delivered. nr_end N r \<le> t"
    and "\<forall>(h, r) \<in> set ready. hid_number h \<le> hid_number best" and "\<forall>(h, r) \<in> set rest. hid_number best < hid_number h"
  shows "available_nonces nonces t best (delivered @ ready @ rest) = {x \<in> queued ready. t < x}"
proof -
  have "x \<le> t" if "(h, r) \<in> set delivered" "x \<in> nonces r" for h r x
    using in_queue [OF assms(1), of h r] that assms(2) end_greatest [of r] by fastforce
  moreover have "filter (\<lambda>(h, _). hid_number h \<le> hid_number best) rest = []"
    using assms(4) by (auto simp: filter_empty_conv)
  moreover have "filter (\<lambda>(h, _). hid_number h \<le> hid_number best) ready = ready"
    using assms(3) by (auto simp: filter_id_conv)
  ultimately show ?thesis by (fastforce simp: available_nonces_def ranges_nonces_def)
qed

lemma ready_selected:
  assumes "ok (delivered @ ready @ rest)" and "ready \<noteq> []" and t: "t \<noteq> - 1"
    and "\<forall>(h, r) \<in> set delivered. nr_end N r \<le> t" and "\<forall>(h, r) \<in> set (ready @ rest). t < nr_end N r"
  defines "a \<equiv> max (t + 1) (nr_begin N (snd (hd ready)))" and "b \<equiv> nr_end N (snd (last ready))"
  shows "{x \<in> queued (delivered @ ready @ rest). a \<le> x \<and> x \<le> b} = {x \<in> queued ready. t < x}"
    and "b \<in> {x \<in> queued ready. t < x}"
proof -
  have ok: "ok delivered" "ok ready" "ok rest" using assms(1) by (auto simp: ranges_ok_append)
  note succ = succ_le_iff [OF t]
  have last: "last ready \<in> set ready" using assms(2) by simp
  then have "t < b" using assms(5) by (auto simp: b_def case_prod_unfold)
  moreover have "b \<in> queued ready" unfolding b_def by (rule queue_bounds(2) [OF ok(2) assms(2)])
  ultimately show "b \<in> {x \<in> queued ready. t < x}" by simp
  have "x \<le> t" if "(h, r) \<in> set delivered" "x \<in> nonces r" for h r x
    using in_queue [OF ok(1) that(1)] that(2) assms(4) that(1) end_greatest [of r] by fastforce
  then have "\<not> t < x" if "x \<in> queued delivered" for x using that by (fastforce simp: ranges_nonces_def)
  moreover have "b < x" if "x \<in> queued rest" for x
  proof -
    from that obtain h r where r: "(h, r) \<in> set rest" "x \<in> nonces r" by (auto simp: ranges_nonces_def)
    then have "b < nr_begin N r" using assms(1) last by (fastforce simp: b_def ranges_ok_append case_prod_unfold)
    then show ?thesis using in_queue [OF ok(3) r(1)] r(2) begin_least [of r] by fastforce
  qed
  moreover have "t < x \<longleftrightarrow> a \<le> x \<and> x \<le> b" if "x \<in> queued ready" for x
    using queue_bounds(1) [OF ok(2) assms(2) that] by (auto simp: a_def b_def succ)
  ultimately show "{x \<in> queued (delivered @ ready @ rest). a \<le> x \<and> x \<le> b} = {x \<in> queued ready. t < x}"
    by (auto simp: a_def succ) (meson not_le)+
qed

lemma available_indices_spec:
  assumes "ok (bs_source_queue st)" and "bs_best_target_nonce st = Some t"
    and "rst_best_finalized_source_header_id_at_best_target rs = Some best"
    and "rst_nonces_to_submit rs = None" and "rst_nonces_submitted rs = None"
  obtains "available_source_queue_indices N rs st = None"
    and "available_nonces nonces t best (bs_source_queue st) = {}"
  | delivered ready rest where
    "available_source_queue_indices N rs st = Some (length delivered, length delivered + (length ready - 1))"
    and "bs_source_queue st = delivered @ ready @ rest" and "ready \<noteq> []"
    and "available_nonces nonces t best (bs_source_queue st) = {x \<in> queued ready. t < x}"
    and "\<forall>(h, r) \<in> set delivered. nr_end N r \<le> t" and "\<forall>(h, r) \<in> set (ready @ rest). t < nr_end N r"
proof -
  let ?q = "bs_source_queue st"
  let ?delivered = "takeWhile (\<lambda>(_, r). nr_end N r \<le> t) ?q"
  let ?ready = "takeWhile (\<lambda>(h, _). hid_number h \<le> hid_number best) (drop (length ?delivered) ?q)"
  obtain rest where q: "?q = ?delivered @ ?ready @ rest"
    and parts: "\<forall>(h, r) \<in> set ?delivered. nr_end N r \<le> t" "\<forall>(h, r) \<in> set (?ready @ rest). t < nr_end N r"
      "\<forall>(h, r) \<in> set ?ready. hid_number h \<le> hid_number best" "\<forall>(h, r) \<in> set rest. hid_number best < hid_number h"
    using queue_parts [OF assms(1), of t best] by metis
  have indices: "available_source_queue_indices N rs st =
    (if ?ready = [] then None else Some (length ?delivered, length ?delivered + (length ?ready - 1)))"
    using assms(2-5) length_takeWhile_le [of "\<lambda>(_, r). nr_end N r \<le> t" ?q]
    by (auto simp: available_source_queue_indices_def race_nonces_to_submit_def iter_next_index iter_last_index
        simp del: takeWhile_eq_Nil_iff)
  have avail: "available_nonces nonces t best ?q = {x \<in> queued ?ready. t < x}"
    using available_in_ready [OF _ parts(1,3,4)] assms(1) q by metis
  show thesis
  proof (cases "?ready = []")
    case True
    then show thesis using that(1) indices avail by simp
  next
    case False
    then show thesis using that(2) [OF _ q False avail parts(1,2)] indices by simp
  qed
qed

lemma basic_select_spec:
  assumes "ok (bs_source_queue st)" and "bs_best_target_nonce st = Some t" and t: "t \<noteq> - 1"
    and "rst_best_finalized_source_header_id_at_best_target rs = Some best"
    and "rst_nonces_to_submit rs = None" and "rst_nonces_submitted rs = None"
  shows "case basic_select_nonces_to_deliver N rs st of
      None \<Rightarrow> available_nonces nonces t best (bs_source_queue st) = {}
    | Some ((a, b), _) \<Rightarrow> t < a \<and> b \<in> available_nonces nonces t best (bs_source_queue st) \<and>
        {x \<in> queued (bs_source_queue st). a \<le> x \<and> x \<le> b} = available_nonces nonces t best (bs_source_queue st)"
  using assms(1,2,4-6)
proof (rule available_indices_spec)
  assume "available_source_queue_indices N rs st = None" "available_nonces nonces t best (bs_source_queue st) = {}"
  then show ?thesis by (simp add: basic_select_nonces_to_deliver_def)
next
  fix delivered ready rest
  assume *: "available_source_queue_indices N rs st = Some (length delivered, length delivered + (length ready - 1))"
    "bs_source_queue st = delivered @ ready @ rest" "ready \<noteq> []"
    "available_nonces nonces t best (bs_source_queue st) = {x \<in> queued ready. t < x}"
    "\<forall>(h, r) \<in> set delivered. nr_end N r \<le> t" "\<forall>(h, r) \<in> set (ready @ rest). t < nr_end N r"
  have "(delivered @ ready @ rest) ! length delivered = hd ready"
    "(delivered @ ready @ rest) ! (length delivered + (length ready - 1)) = last ready"
    using *(3) by (auto simp: nth_append hd_conv_nth last_conv_nth)
  then have "basic_select_nonces_to_deliver N rs st =
    Some ((max (t + 1) (nr_begin N (snd (hd ready))), nr_end N (snd (last ready))), ())"
    using *(1,2) assms(2) by (simp add: basic_select_nonces_to_deliver_def)
  moreover have "t < max (t + 1) y" for y :: message_nonce
    using succ_le_iff [OF t, of "t + 1"] by (simp add: less_max_iff_disj)
  ultimately show ?thesis
    using ready_selected [of delivered ready rest t] assms(1) t *(2-6) by simp
qed

end

section \<open>The two kinds of ranges\<close>

definition inclusive_valid :: "nonces_range \<Rightarrow> bool" where
  "inclusive_valid r \<longleftrightarrow> fst r \<le> snd r"

definition inclusive_nonces :: "nonces_range \<Rightarrow> message_nonce set" where
  "inclusive_nonces r = {fst r..snd r}"

lemma inclusive_greater_than_simp:
  "nonce \<noteq> - 1 \<Longrightarrow> inclusive_greater_than r nonce = (if nonce < snd r then Some (max (fst r) (nonce + 1), snd r) else None)"
  using succ_le_iff [of nonce "snd r"] by (simp add: inclusive_greater_than_def Let_def not_le [symmetric])

interpretation inclusive: nonces_ranges inclusive_range_ops inclusive_valid inclusive_nonces
proof
  fix r r' :: nonces_range and nonce :: message_nonce
  assume v: "inclusive_valid r"
  then show "nr_begin inclusive_range_ops r \<in> inclusive_nonces r \<and> (\<forall>x \<in> inclusive_nonces r. nr_begin inclusive_range_ops r \<le> x)"
    and "nr_end inclusive_range_ops r \<in> inclusive_nonces r \<and> (\<forall>x \<in> inclusive_nonces r. x \<le> nr_end inclusive_range_ops r)"
    by (simp_all add: inclusive_range_ops_def inclusive_valid_def inclusive_nonces_def)
  assume t: "nonce \<noteq> - 1"
  show "nr_greater_than inclusive_range_ops r nonce = None \<longleftrightarrow> (\<forall>x \<in> inclusive_nonces r. x \<le> nonce)"
  proof
    assume "nr_greater_than inclusive_range_ops r nonce = None"
    then show "\<forall>x \<in> inclusive_nonces r. x \<le> nonce"
      by (auto simp: inclusive_range_ops_def inclusive_greater_than_simp [OF t] inclusive_nonces_def split: if_splits)
  next
    assume "\<forall>x \<in> inclusive_nonces r. x \<le> nonce"
    moreover have "snd r \<in> inclusive_nonces r" using v by (simp add: inclusive_nonces_def inclusive_valid_def)
    ultimately show "nr_greater_than inclusive_range_ops r nonce = None"
      by (simp add: inclusive_range_ops_def inclusive_greater_than_simp [OF t] not_less)
  qed
  assume "nr_greater_than inclusive_range_ops r nonce = Some r'"
  then have "nonce < snd r" "r' = (max (fst r) (nonce + 1), snd r)"
    by (simp_all add: inclusive_range_ops_def inclusive_greater_than_simp [OF t] split: if_splits)
  then show "inclusive_valid r' \<and> inclusive_nonces r' = {x \<in> inclusive_nonces r. nonce < x}"
    using v by (auto simp: inclusive_valid_def inclusive_nonces_def succ_le_iff [OF t])
qed

definition details_valid :: "('w, 'b) message_details_map \<Rightarrow> bool" where
  "details_valid m \<longleftrightarrow> btree_wf m \<and> m \<noteq> []"

definition details_nonces :: "('w, 'b) message_details_map \<Rightarrow> message_nonce set" where
  "details_nonces m = fst ` set m"

lemma btree_wf_bounds:
  assumes "btree_wf m" and "m \<noteq> []" and "k \<in> fst ` set m"
  shows "fst (hd m) \<le> k" and "k \<le> fst (last m)"
proof -
  have sorted: "sorted (map fst m)" using assms(1) by (simp add: btree_wf_def strict_sorted_iff)
  from assms(3) obtain i where i: "i < length m" "k = fst (m ! i)" by (auto simp: in_set_conv_nth)
  show "fst (hd m) \<le> k" using sorted_nth_mono [OF sorted, of 0 i] i assms(2) by (simp add: hd_conv_nth)
  show "k \<le> fst (last m)" using sorted_nth_mono [OF sorted, of i "length m - 1"] i assms(2) by (simp add: last_conv_nth)
qed

lemma fst_set_split_off: "fst ` set (btree_split_off k m) = {x \<in> fst ` set m. k \<le> x}"
  by (force simp: btree_split_off_def)

interpretation details: nonces_ranges details_map_ops details_valid details_nonces
proof
  fix r r' :: "('w, 'b) message_details_map" and nonce :: message_nonce
  assume v: "details_valid r"
  have ends: "details_map_begin r = fst (hd r)" "details_map_end r = fst (last r)"
    using v by (auto simp: details_valid_def details_map_begin_def details_map_end_def last_map split: list.split)
  show "nr_begin details_map_ops r \<in> details_nonces r \<and> (\<forall>x \<in> details_nonces r. nr_begin details_map_ops r \<le> x)"
    using v btree_wf_bounds(1) by (auto simp: details_map_ops_def ends details_nonces_def details_valid_def)
  show "nr_end details_map_ops r \<in> details_nonces r \<and> (\<forall>x \<in> details_nonces r. x \<le> nr_end details_map_ops r)"
    using v btree_wf_bounds(2) by (auto simp: details_map_ops_def ends details_nonces_def details_valid_def)
  assume t: "nonce \<noteq> - 1"
  have rest: "details_nonces (btree_split_off (nonce + 1) r) = {x \<in> details_nonces r. nonce < x}"
    by (simp add: details_nonces_def fst_set_split_off succ_le_iff [OF t])
  have "btree_split_off (nonce + 1) r = [] \<longleftrightarrow> details_nonces (btree_split_off (nonce + 1) r) = {}"
    by (simp add: details_nonces_def)
  then show "nr_greater_than details_map_ops r nonce = None \<longleftrightarrow> (\<forall>x \<in> details_nonces r. x \<le> nonce)"
    by (auto simp: details_map_ops_def details_map_greater_than_def Let_def rest not_less)
  assume "nr_greater_than details_map_ops r nonce = Some r'"
  then have "r' = btree_split_off (nonce + 1) r" "r' \<noteq> []"
    by (auto simp: details_map_ops_def details_map_greater_than_def Let_def split: if_splits)
  then show "details_valid r' \<and> details_nonces r' = {x \<in> details_nonces r. nonce < x}"
    using v rest by (simp add: details_valid_def)
qed

end
