(* ===== verification/Relay_Delivery.thy ===== *)
theory Relay_Delivery
  imports Relay_Strategy Frame_Weights
begin

text \<open>
  The delivery race of the messages relay: the selection of a batch of messages
  (\<open>relays/messages/src/message_race_limits.rs\<close>), the delivery strategy and the adapters of the clients
  (\<open>message_race_delivery.rs\<close>) and the adapters of the confirmations race (\<open>message_race_receiving.rs\<close>).
  The clients of the two chains are records of operations. Metrics and logging are not modelled.
\<close>

section \<open>Limits of a delivery transaction\<close>

record ('hash, 'number, 'w, 'b) relay_messages_batch_reference =
  rmb_max_messages_in_this_batch :: message_nonce
  rmb_max_messages_weight_in_single_batch :: 'w
  rmb_max_messages_size_in_single_batch :: u32
  rmb_best_target_nonce :: message_nonce
  rmb_nonces_queue :: "(('hash, 'number) header_id \<times> ('w, 'b) message_details_map) list"
  rmb_nonces_queue_range :: "nat \<times> nat"

text \<open>A message that does not fit is still selected when it is the first one of the batch.\<close>

definition limit_by_weight :: "'w weight_ops \<Rightarrow> 'w \<Rightarrow> message_nonce \<Rightarrow> 'w \<Rightarrow> 'w \<Rightarrow> 'w option" where
  "limit_by_weight W max_weight selected_count selected_weight weight =
     (let new_selected_weight = w_checked_add W selected_weight weight
      in if (case new_selected_weight of Some new \<Rightarrow> w_all_lte W new max_weight | None \<Rightarrow> False) then new_selected_weight
         else if selected_count = 0
         then Some (case new_selected_weight of Some new \<Rightarrow> new | None \<Rightarrow> w_MAX W)
         else None)"

definition limit_by_size :: "u32 \<Rightarrow> message_nonce \<Rightarrow> u32 \<Rightarrow> u32 \<Rightarrow> u32 option" where
  "limit_by_size max_size selected_count selected_size message_size =
     (let new_selected_size = checked_add selected_size message_size
      in if (case new_selected_size of Some new \<Rightarrow> new \<le> max_size | None \<Rightarrow> False) then new_selected_size
         else if selected_count = 0
         then Some (case new_selected_size of Some new \<Rightarrow> new | None \<Rightarrow> - 1)
         else None)"

text \<open>The loop over the ready messages. Its result is \<open>hard_selected_count\<close>.\<close>

fun decide_loop ::
  "'w weight_ops \<Rightarrow> ('hash, 'number, 'w, 'b) relay_messages_batch_reference \<Rightarrow> nat \<Rightarrow> 'w \<Rightarrow> u32 \<Rightarrow> message_nonce \<Rightarrow> nat \<Rightarrow>
     (message_nonce \<times> ('w, 'b) message_details) list \<Rightarrow> nat" where
  "decide_loop W reference index selected_weight selected_size selected_count hard_selected_count [] = hard_selected_count"
| "decide_loop W reference index selected_weight selected_size selected_count hard_selected_count ((nonce, details) # ready) =
     (case limit_by_weight W (rmb_max_messages_weight_in_single_batch reference) selected_count selected_weight
             (det_dispatch_weight details) of
        None \<Rightarrow> hard_selected_count
      | Some new_selected_weight \<Rightarrow>
     (case limit_by_size (rmb_max_messages_size_in_single_batch reference) selected_count selected_size (det_size details) of
        None \<Rightarrow> hard_selected_count
      | Some new_selected_size \<Rightarrow>
          let new_selected_count = selected_count + 1
          in if new_selected_count > rmb_max_messages_in_this_batch reference then hard_selected_count
             else decide_loop W reference (index + 1) new_selected_weight new_selected_size new_selected_count (index + 1) ready))"

text \<open>The caller passes a range of indices of the queue.\<close>

definition hard_selected_begin_nonce :: "('hash, 'number, 'w, 'b) relay_messages_batch_reference \<Rightarrow> message_nonce" where
  "hard_selected_begin_nonce reference =
     max (rmb_best_target_nonce reference + 1)
       (details_map_begin (snd (rmb_nonces_queue reference ! fst (rmb_nonces_queue_range reference))))"

definition all_ready_nonces ::
  "('hash, 'number, 'w, 'b) relay_messages_batch_reference \<Rightarrow> (message_nonce \<times> ('w, 'b) message_details) list" where
  "all_ready_nonces reference =
     (let (first, final) = rmb_nonces_queue_range reference
      in filter (\<lambda>(nonce, _). nonce \<ge> hard_selected_begin_nonce reference)
           (concat (map snd (take (final + 1 - first) (drop first (rmb_nonces_queue reference))))))"

definition decide_batch ::
  "'w weight_ops \<Rightarrow> ('hash, 'number, 'w, 'b) relay_messages_batch_reference \<Rightarrow> nonces_range option" where
  "decide_batch W reference =
     (let begin_nonce = hard_selected_begin_nonce reference;
          hard_selected_count = decide_loop W reference 0 (w_zero W) 0 0 0 (all_ready_nonces reference)
      in if hard_selected_count \<noteq> 0
         then let selected_max_nonce = begin_nonce + of_nat hard_selected_count - 1 in Some (begin_nonce, selected_max_nonce)
         else None)"

section \<open>The delivery strategy\<close>

record delivery_race_target_nonces_data =
  drt_confirmed_nonce :: message_nonce
  drt_unrewarded_relayers :: unrewarded_relayers_state

record ('hash, 'number, 'w, 'b) message_delivery_strategy =
  mds_max_unrewarded_relayer_entries_at_target :: message_nonce
  mds_max_unconfirmed_nonces_at_target :: message_nonce
  mds_max_messages_in_single_batch :: message_nonce
  mds_max_messages_weight_in_single_batch :: 'w
  mds_max_messages_size_in_single_batch :: u32
  mds_latest_confirmed_nonces_at_source :: "(('hash, 'number) header_id \<times> message_nonce) list"
  mds_target_nonces :: "delivery_race_target_nonces_data target_client_nonces option"
  mds_strategy :: "('hash, 'number, ('w, 'b) message_details_map) basic_strategy"

record 'w message_proof_parameters =
  mpp_outbound_state_proof_required :: bool
  mpp_dispatch_weight :: 'w

record 'w message_delivery_params =
  mdp_max_unrewarded_relayer_entries_at_target :: message_nonce
  mdp_max_unconfirmed_nonces_at_target :: message_nonce
  mdp_max_messages_in_single_batch :: message_nonce
  mdp_max_messages_weight_in_single_batch :: 'w
  mdp_max_messages_size_in_single_batch :: u32

text \<open>The strategy that \<open>message_race_delivery::run\<close> starts the race with.\<close>

definition message_delivery_strategy_new :: "'w message_delivery_params \<Rightarrow> ('hash, 'number, 'w, 'b) message_delivery_strategy" where
  "message_delivery_strategy_new params = \<lparr>
     mds_max_unrewarded_relayer_entries_at_target = mdp_max_unrewarded_relayer_entries_at_target params,
     mds_max_unconfirmed_nonces_at_target = mdp_max_unconfirmed_nonces_at_target params,
     mds_max_messages_in_single_batch = mdp_max_messages_in_single_batch params,
     mds_max_messages_weight_in_single_batch = mdp_max_messages_weight_in_single_batch params,
     mds_max_messages_size_in_single_batch = mdp_max_messages_size_in_single_batch params,
     mds_latest_confirmed_nonces_at_source = [], mds_target_nonces = None, mds_strategy = basic_strategy_new\<rparr>"

definition dispatch_weight_for_range ::
  "'w weight_ops \<Rightarrow> ('hash, 'number, 'w, 'b) message_delivery_strategy \<Rightarrow> nonces_range \<Rightarrow> 'w" where
  "dispatch_weight_for_range W st nonces =
     foldl (w_saturating_add W) (w_zero W)
       (concat (map (\<lambda>(_, subrange).
          map (\<lambda>(_, details). det_dispatch_weight details)
            (filter (\<lambda>(nonce, _). fst nonces \<le> nonce \<and> nonce \<le> snd nonces) subrange))
          (bs_source_queue (mds_strategy st))))"

definition delivery_is_empty :: "('hash, 'number, 'w, 'b) message_delivery_strategy \<Rightarrow> bool" where
  "delivery_is_empty st \<longleftrightarrow> basic_is_empty (mds_strategy st)"

definition delivery_required_source_header_at_target ::
  "('hash, 'number::linorder) header_id \<Rightarrow> (('hash, 'number) header_id, 'th, 'proof, 'batch) race_state \<Rightarrow>
     ('hash, 'number, 'w, 'b) message_delivery_strategy \<Rightarrow> ('hash, 'number) header_id option" where
  "delivery_required_source_header_at_target current_best race_state st =
     (if rst_nonces_submitted race_state \<noteq> None then None
      else
      let has_nonces_to_deliver = \<not> basic_is_empty (mds_strategy st);
          header_required_for_messages_delivery =
            basic_required_source_header_at_target current_best race_state (mds_strategy st);
          header_required_for_reward_confirmations_delivery =
            (case iter_last (mds_latest_confirmed_nonces_at_source st) of
               Some (hid, nonce) \<Rightarrow> if nonce \<noteq> 0 \<and> hid_number hid > hid_number current_best then Some hid else None
             | None \<Rightarrow> None)
      in case (has_nonces_to_deliver, header_required_for_messages_delivery, header_required_for_reward_confirmations_delivery) of
           (True, Some id1, Some id2) \<Rightarrow> Some (if hid_number id1 > hid_number id2 then id1 else id2)
         | (True, a, b) \<Rightarrow> (case a of Some id1 \<Rightarrow> Some id1 | None \<Rightarrow> b)
         | (False, _, _) \<Rightarrow> None)"

definition delivery_source_nonces_updated ::
  "('hash, 'number) header_id \<Rightarrow> ('w, 'b) message_details_map source_client_nonces \<Rightarrow>
     ('hash, 'number, 'w, 'b) message_delivery_strategy \<Rightarrow> ('hash, 'number, 'w, 'b) message_delivery_strategy" where
  "delivery_source_nonces_updated at_block nonces st =
     (let st = (case scn_confirmed_nonce nonces of
                  Some confirmed_nonce \<Rightarrow>
                    let is_confirmed_nonce_updated =
                          (case iter_last (mds_latest_confirmed_nonces_at_source st) of
                             Some (_, prev_nonce) \<Rightarrow> prev_nonce \<noteq> confirmed_nonce | None \<Rightarrow> True)
                    in if is_confirmed_nonce_updated
                       then st\<lparr>mds_latest_confirmed_nonces_at_source :=
                              mds_latest_confirmed_nonces_at_source st @ [(at_block, confirmed_nonce)]\<rparr>
                       else st
                | None \<Rightarrow> st)
      in st\<lparr>mds_strategy := basic_source_nonces_updated details_map_ops at_block nonces (mds_strategy st)\<rparr>)"

definition delivery_best_target_nonces_updated ::
  "delivery_race_target_nonces_data target_client_nonces \<Rightarrow> ('sh, 'th, 'proof, 'batch) race_state \<Rightarrow>
     ('hash, 'number, 'w, 'b) message_delivery_strategy \<Rightarrow>
     ('hash, 'number, 'w, 'b) message_delivery_strategy \<times> ('sh, 'th, 'proof, 'batch) race_state" where
  "delivery_best_target_nonces_updated nonces race_state st =
     (let latest_nonce = tcn_latest_nonce nonces;
          st = st\<lparr>mds_target_nonces := Some nonces\<rparr>;
          (strategy, race_state) =
            basic_best_target_nonces_updated \<lparr>tcn_latest_nonce = latest_nonce, tcn_nonces_data = ()\<rparr> race_state (mds_strategy st)
      in (st\<lparr>mds_strategy := strategy\<rparr>, race_state))"

definition delivery_finalized_target_nonces_updated ::
  "delivery_race_target_nonces_data target_client_nonces \<Rightarrow>
     (('hash, 'number::linorder) header_id, 'th, 'proof, 'batch) race_state \<Rightarrow>
     ('hash, 'number, 'w, 'b) message_delivery_strategy \<Rightarrow>
     ('hash, 'number, 'w, 'b) message_delivery_strategy \<times> (('hash, 'number) header_id, 'th, 'proof, 'batch) race_state" where
  "delivery_finalized_target_nonces_updated nonces race_state st =
     (let st = (case rst_best_finalized_source_header_id_at_best_target race_state of
                  Some best_finalized_source_header_id_at_best_target \<Rightarrow>
                    let oldest_header_number_to_keep = hid_number best_finalized_source_header_id_at_best_target
                    in st\<lparr>mds_latest_confirmed_nonces_at_source :=
                         dropWhile (\<lambda>(hid, _). hid_number hid < oldest_header_number_to_keep)
                           (mds_latest_confirmed_nonces_at_source st)\<rparr>
                | None \<Rightarrow> st);
          st = st\<lparr>mds_target_nonces := map_option
                 (\<lambda>target_nonces. target_nonces\<lparr>tcn_latest_nonce := max (tcn_latest_nonce target_nonces) (tcn_latest_nonce nonces)\<rparr>)
                 (mds_target_nonces st)\<rparr>;
          (strategy, race_state) =
            basic_finalized_target_nonces_updated details_map_ops
              \<lparr>tcn_latest_nonce = tcn_latest_nonce nonces, tcn_nonces_data = ()\<rparr> race_state (mds_strategy st)
      in (st\<lparr>mds_strategy := strategy\<rparr>, race_state))"

text \<open>The confirmed nonce of the source lane that a proof at the given header contains.\<close>

definition latest_confirmed_nonce_at_source ::
  "('hash, 'number::linorder) header_id \<Rightarrow> message_nonce \<Rightarrow> ('hash, 'number, 'w, 'b) message_delivery_strategy \<Rightarrow> message_nonce" where
  "latest_confirmed_nonce_at_source best_header best_target_nonce st =
     (case iter_last (takeWhile (\<lambda>(hid, _). hid_number hid \<le> hid_number best_header)
             (mds_latest_confirmed_nonces_at_source st)) of
        Some (_, nonce) \<Rightarrow> nonce
      | None \<Rightarrow> best_target_nonce)"

definition max_nonces_to_deliver ::
  "message_nonce \<Rightarrow> message_nonce \<Rightarrow> ('hash, 'number, 'w, 'b) message_delivery_strategy \<Rightarrow> message_nonce" where
  "max_nonces_to_deliver received_at_target future_confirmed_nonce_at_target st =
     (let max_nonces =
            (case Option.bind (checked_sub received_at_target future_confirmed_nonce_at_target)
                    (checked_sub (mds_max_unconfirmed_nonces_at_target st)) of
               Some max_nonces \<Rightarrow> max_nonces
             | None \<Rightarrow> 0)
      in min max_nonces (mds_max_messages_in_single_batch st))"

definition delivery_batch_reference ::
  "message_nonce \<Rightarrow> message_nonce \<Rightarrow> nat \<times> nat \<Rightarrow> ('hash, 'number, 'w, 'b) message_delivery_strategy \<Rightarrow>
     ('hash, 'number, 'w, 'b) relay_messages_batch_reference" where
  "delivery_batch_reference max_nonces best_target_nonce available st = \<lparr>
     rmb_max_messages_in_this_batch = max_nonces,
     rmb_max_messages_weight_in_single_batch = mds_max_messages_weight_in_single_batch st,
     rmb_max_messages_size_in_single_batch = mds_max_messages_size_in_single_batch st,
     rmb_best_target_nonce = best_target_nonce,
     rmb_nonces_queue = bs_source_queue (mds_strategy st),
     rmb_nonces_queue_range = available\<rparr>"

definition delivery_select_nonces_to_deliver ::
  "'w weight_ops \<Rightarrow> (('hash, 'number::linorder) header_id, 'th, 'proof, 'batch) race_state \<Rightarrow>
     ('hash, 'number, 'w, 'b) message_delivery_strategy \<Rightarrow> (nonces_range \<times> 'w message_proof_parameters) option" where
  "delivery_select_nonces_to_deliver W race_state st =
     do {
       best_target_nonce \<leftarrow> bs_best_target_nonce (mds_strategy st);
       best_finalized_source_header_id_at_best_target \<leftarrow> rst_best_finalized_source_header_id_at_best_target race_state;
       let confirmed_at_source =
             latest_confirmed_nonce_at_source best_finalized_source_header_id_at_best_target best_target_nonce st
       in do {
         target_nonces \<leftarrow> mds_target_nonces st;
         let received_at_target = tcn_latest_nonce target_nonces;
             confirmations_missing = checked_sub received_at_target confirmed_at_source
         in if (case confirmations_missing of
                  Some confirmations_missing \<Rightarrow> confirmations_missing \<ge> mds_max_unconfirmed_nonces_at_target st
                | None \<Rightarrow> False) then None
         else
         let confirmed_at_target = drt_confirmed_nonce (tcn_nonces_data target_nonces);
             outbound_state_proof_required = confirmed_at_target < confirmed_at_source;
             unrewarded_relayers = drt_unrewarded_relayers (tcn_nonces_data target_nonces);
             unrewarded_relayer_entries_limit_reached =
               unrewarded_relayer_entries unrewarded_relayers \<ge> mds_max_unrewarded_relayer_entries_at_target st;
             number_of_rewards_being_proved = saturating_sub confirmed_at_source confirmed_at_target;
             enough_rewards_being_proved = number_of_rewards_being_proved \<ge> messages_in_oldest_entry unrewarded_relayers
         in if unrewarded_relayer_entries_limit_reached \<and> \<not> enough_rewards_being_proved then None
         else
         let future_confirmed_nonce_at_target =
               (if outbound_state_proof_required then confirmed_at_source else confirmed_at_target);
             max_nonces = max_nonces_to_deliver received_at_target future_confirmed_nonce_at_target st
         in do {
           available \<leftarrow> available_source_queue_indices details_map_ops race_state (mds_strategy st);
           selected_nonces \<leftarrow> decide_batch W (delivery_batch_reference max_nonces best_target_nonce available st);
           let dispatch_weight = dispatch_weight_for_range W st selected_nonces
           in Some (selected_nonces, \<lparr>mpp_outbound_state_proof_required = outbound_state_proof_required,
                mpp_dispatch_weight = dispatch_weight\<rparr>)
         }
       }
     }"

definition delivery_strategy_ops ::
  "'w weight_ops \<Rightarrow> (('hash, 'number::linorder, 'w, 'b) message_delivery_strategy, ('hash, 'number) header_id, 'th, 'proof,
     'batch, ('w, 'b) message_details_map, 'w message_proof_parameters, delivery_race_target_nonces_data) race_strategy" where
  "delivery_strategy_ops W = \<lparr>
     str_is_empty = delivery_is_empty,
     str_required_source_header_at_target = delivery_required_source_header_at_target,
     str_best_at_source = (\<lambda>st. basic_best_at_source details_map_ops (mds_strategy st)),
     str_best_at_target = (\<lambda>st. bs_best_target_nonce (mds_strategy st)),
     str_source_nonces_updated = delivery_source_nonces_updated,
     str_best_target_nonces_updated = delivery_best_target_nonces_updated,
     str_finalized_target_nonces_updated = delivery_finalized_target_nonces_updated,
     str_select_nonces_to_deliver = delivery_select_nonces_to_deliver W\<rparr>"

lemma delivery_selects_when_idle:
  assumes "delivery_select_nonces_to_deliver W rs st = Some r"
  shows "rst_nonces_to_submit rs = None \<and> rst_nonces_submitted rs = None"
proof -
  from assms obtain i where "available_source_queue_indices details_map_ops rs (mds_strategy st) = Some i"
    by (auto simp: delivery_select_nonces_to_deliver_def Let_def split: bind_splits if_splits)
  then show ?thesis by (rule available_when_idle)
qed

interpretation delivery: race_strategy_contract "delivery_strategy_ops W"
  by unfold_locales
    (simp_all add: delivery_strategy_ops_def delivery_selects_when_idle delivery_best_target_nonces_updated_def
      delivery_finalized_target_nonces_updated_def basic_best_update_resets basic_finalized_update_state Let_def case_prod_unfold)

section \<open>The clients of the two races\<close>

text \<open>
  The traits \<open>SourceClient\<close> and \<open>TargetClient\<close> of a message lane (\<open>message_lane_loop.rs\<close>): every
  operation that reads nonces or makes a proof returns the block it has been made at.
\<close>

record ('e, 'sh, 'w, 'b, 'mproof) lane_source_client =
  lsc_latest_generated_nonce :: "'sh \<Rightarrow> 'e + 'sh \<times> message_nonce"
  lsc_latest_confirmed_received_nonce :: "'sh \<Rightarrow> 'e + 'sh \<times> message_nonce"
  lsc_generated_message_details :: "'sh \<Rightarrow> nonces_range \<Rightarrow> 'e + ('w, 'b) message_details_map"
  lsc_prove_messages :: "'sh \<Rightarrow> nonces_range \<Rightarrow> 'w message_proof_parameters \<Rightarrow> 'e + 'sh \<times> nonces_range \<times> 'mproof"

record ('e, 'th, 'rproof) lane_target_client =
  ltc_latest_received_nonce :: "'th \<Rightarrow> 'e + 'th \<times> message_nonce"
  ltc_latest_confirmed_received_nonce :: "'th \<Rightarrow> 'e + 'th \<times> message_nonce"
  ltc_unrewarded_relayers_state :: "'th \<Rightarrow> 'e + 'th \<times> unrewarded_relayers_state"
  ltc_prove_messages_receiving :: "'th \<Rightarrow> 'e + 'th \<times> 'rproof"

definition delivery_source_nonces ::
  "('e, 'sh, 'w, 'b, 'mproof) lane_source_client \<Rightarrow> 'sh \<Rightarrow> message_nonce \<Rightarrow>
     'e + 'sh \<times> ('w, 'b) message_details_map source_client_nonces" where
  "delivery_source_nonces client at_block prev_latest_nonce =
     result_bind (lsc_latest_generated_nonce client at_block) (\<lambda>(at_block, latest_generated_nonce).
     result_bind (lsc_latest_confirmed_received_nonce client at_block) (\<lambda>(at_block, latest_confirmed_nonce).
     result_bind
       (if latest_generated_nonce > prev_latest_nonce
        then lsc_generated_message_details client at_block (prev_latest_nonce + 1, latest_generated_nonce)
        else Inr []) (\<lambda>new_nonces.
     Inr (at_block, \<lparr>scn_new_nonces = new_nonces, scn_confirmed_nonce = Some latest_confirmed_nonce\<rparr>))))"

definition delivery_source_generate_proof ::
  "('e, 'sh, 'w, 'b, 'mproof) lane_source_client \<Rightarrow> 'sh \<Rightarrow> nonces_range \<Rightarrow> 'w message_proof_parameters \<Rightarrow>
     'e + 'sh \<times> nonces_range \<times> 'mproof" where
  "delivery_source_generate_proof client at_block nonces proof_parameters = lsc_prove_messages client at_block nonces proof_parameters"

definition delivery_target_nonces ::
  "('e, 'th, 'rproof) lane_target_client \<Rightarrow> 'th \<Rightarrow> 'e + 'th \<times> delivery_race_target_nonces_data target_client_nonces" where
  "delivery_target_nonces client at_block =
     result_bind (ltc_latest_received_nonce client at_block) (\<lambda>(at_block, latest_received_nonce).
     result_bind (ltc_latest_confirmed_received_nonce client at_block) (\<lambda>(at_block, latest_confirmed_nonce).
     result_bind (ltc_unrewarded_relayers_state client at_block) (\<lambda>(at_block, unrewarded_relayers).
     Inr (at_block, \<lparr>tcn_latest_nonce = latest_received_nonce,
       tcn_nonces_data = \<lparr>drt_confirmed_nonce = latest_confirmed_nonce, drt_unrewarded_relayers = unrewarded_relayers\<rparr>\<rparr>))))"

text \<open>In the confirmations race the roles of the chains are swapped.\<close>

definition confirmations_source_nonces ::
  "('e, 'th, 'rproof) lane_target_client \<Rightarrow> 'th \<Rightarrow> message_nonce \<Rightarrow> 'e + 'th \<times> nonces_range source_client_nonces" where
  "confirmations_source_nonces client at_block prev_latest_nonce =
     result_bind (ltc_latest_received_nonce client at_block) (\<lambda>(at_block, latest_received_nonce).
     Inr (at_block, \<lparr>scn_new_nonces = (prev_latest_nonce + 1, latest_received_nonce), scn_confirmed_nonce = None\<rparr>))"

definition confirmations_source_generate_proof ::
  "('e, 'th, 'rproof) lane_target_client \<Rightarrow> 'th \<Rightarrow> nonces_range \<Rightarrow> unit \<Rightarrow> 'e + 'th \<times> nonces_range \<times> 'rproof" where
  "confirmations_source_generate_proof client at_block nonces proof_parameters =
     result_bind (ltc_prove_messages_receiving client at_block) (\<lambda>(at_block, pf). Inr (at_block, nonces, pf))"

definition confirmations_target_nonces ::
  "('e, 'sh, 'w, 'b, 'mproof) lane_source_client \<Rightarrow> 'sh \<Rightarrow> 'e + 'sh \<times> unit target_client_nonces" where
  "confirmations_target_nonces client at_block =
     result_bind (lsc_latest_confirmed_received_nonce client at_block) (\<lambda>(at_block, latest_confirmed_nonce).
     Inr (at_block, \<lparr>tcn_latest_nonce = latest_confirmed_nonce, tcn_nonces_data = ()\<rparr>))"

section \<open>The selected batch\<close>

text \<open>The totals of a list of messages, and when they are within the limits of a transaction.\<close>

definition batch_ref_time :: "'w weight_ops \<Rightarrow> (message_nonce \<times> ('w, 'b) message_details) list \<Rightarrow> nat" where
  "batch_ref_time W ms = (\<Sum>(_, details) \<leftarrow> ms. unat (w_ref_time W (det_dispatch_weight details)))"

definition batch_proof_size :: "'w weight_ops \<Rightarrow> (message_nonce \<times> ('w, 'b) message_details) list \<Rightarrow> nat" where
  "batch_proof_size W ms = (\<Sum>(_, details) \<leftarrow> ms. unat (w_proof_size W (det_dispatch_weight details)))"

definition batch_size :: "(message_nonce \<times> ('w, 'b) message_details) list \<Rightarrow> nat" where
  "batch_size ms = (\<Sum>(_, details) \<leftarrow> ms. unat (det_size details))"

definition batch_fits ::
  "'w weight_ops \<Rightarrow> ('hash, 'number, 'w, 'b) relay_messages_batch_reference \<Rightarrow> (message_nonce \<times> ('w, 'b) message_details) list \<Rightarrow>
     bool" where
  "batch_fits W reference ms \<longleftrightarrow>
     batch_ref_time W ms \<le> unat (w_ref_time W (rmb_max_messages_weight_in_single_batch reference)) \<and>
     batch_proof_size W ms \<le> unat (w_proof_size W (rmb_max_messages_weight_in_single_batch reference)) \<and>
     batch_size ms \<le> unat (rmb_max_messages_size_in_single_batch reference)"

lemmas message_totals = batch_ref_time_def batch_proof_size_def batch_size_def

lemma limit_by_size_spec:
  shows "c \<noteq> 0 \<Longrightarrow> \<not> unat s + unat x \<le> unat m \<Longrightarrow> limit_by_size m c s x = None"
    and "c = 0 \<and> unat s = 0 \<or> unat s + unat x \<le> unat m \<Longrightarrow> \<exists>s'. limit_by_size m c s x = Some s' \<and> unat s' = unat s + unat x"
proof -
  show "c \<noteq> 0 \<Longrightarrow> \<not> unat s + unat x \<le> unat m \<Longrightarrow> limit_by_size m c s x = None"
    by (auto simp: limit_by_size_def Let_def checked_add_def word_le_nat_alt unat_add_lt)
  assume fits: "c = 0 \<and> unat s = 0 \<or> unat s + unat x \<le> unat m"
  then have "unat s + unat x < 2 ^ 32"
    using unsigned_less [of m, where ?'a = nat] unsigned_less [of x, where ?'a = nat] by auto
  then show "\<exists>s'. limit_by_size m c s x = Some s' \<and> unat s' = unat s + unat x"
    using fits by (auto simp: limit_by_size_def Let_def checked_add_def word_le_nat_alt unat_add_lt)
qed

definition weight_fits :: "'w weight_ops \<Rightarrow> 'w \<Rightarrow> 'w \<Rightarrow> 'w \<Rightarrow> bool" where
  "weight_fits W m s x \<longleftrightarrow> unat (w_ref_time W s) + unat (w_ref_time W x) \<le> unat (w_ref_time W m) \<and>
     unat (w_proof_size W s) + unat (w_proof_size W x) \<le> unat (w_proof_size W m)"

lemma limit_by_weight_spec:
  assumes W: "weight_laws W"
  shows "c \<noteq> 0 \<Longrightarrow> \<not> weight_fits W m s x \<Longrightarrow> limit_by_weight W m c s x = None"
    and "c = 0 \<and> w_ref_time W s = 0 \<and> w_proof_size W s = 0 \<or> weight_fits W m s x \<Longrightarrow>
      \<exists>s'. limit_by_weight W m c s x = Some s' \<and> unat (w_ref_time W s') = unat (w_ref_time W s) + unat (w_ref_time W x) \<and>
        unat (w_proof_size W s') = unat (w_proof_size W s) + unat (w_proof_size W x)"
proof -
  note lte = weight_rel_parts(3) [OF W]
  show "c \<noteq> 0 \<Longrightarrow> \<not> weight_fits W m s x \<Longrightarrow> limit_by_weight W m c s x = None"
    using weight_checked_add [OF W, of s x]
    by (auto simp: limit_by_weight_def Let_def weight_fits_def lte word_le_nat_alt split: option.split)
  assume fits: "c = 0 \<and> w_ref_time W s = 0 \<and> w_proof_size W s = 0 \<or> weight_fits W m s x"
  then have "unat (w_ref_time W s) + unat (w_ref_time W x) < 2 ^ 64" "unat (w_proof_size W s) + unat (w_proof_size W x) < 2 ^ 64"
    using unat_lt_64 [of "w_ref_time W x"] unat_lt_64 [of "w_ref_time W m"]
      unat_lt_64 [of "w_proof_size W x"] unat_lt_64 [of "w_proof_size W m"] by (auto simp: weight_fits_def)
  then obtain s' where s': "w_checked_add W s x = Some s'" using W by (simp add: weight_laws_def checked_add_def)
  then show "\<exists>s'. limit_by_weight W m c s x = Some s' \<and>
      unat (w_ref_time W s') = unat (w_ref_time W s) + unat (w_ref_time W x) \<and>
      unat (w_proof_size W s') = unat (w_proof_size W s) + unat (w_proof_size W x)"
    using fits weight_checked_add [OF W s']
    by (auto simp: limit_by_weight_def Let_def lte weight_fits_def word_le_nat_alt)
qed

lemma of_nat_nonzero: "0 < n \<Longrightarrow> n < 2 ^ 64 \<Longrightarrow> (of_nat n :: u64) \<noteq> 0"
  using unat_of_nat_lt [of n, where 'l = 64] by auto

lemma decide_loop_spec:
  assumes W: "weight_laws W" and "length (selected @ ready) < 2 ^ 64"
    and "length selected \<le> unat (rmb_max_messages_in_this_batch reference)"
    and "unat (w_ref_time W w) = batch_ref_time W selected" and "unat (w_proof_size W w) = batch_proof_size W selected"
    and "unat s = batch_size selected" and "length selected \<le> 1 \<or> batch_fits W reference selected"
  defines "n \<equiv> decide_loop W reference (length selected) w s (of_nat (length selected)) (length selected) ready"
  shows "n \<le> length (selected @ ready)" and "n \<le> unat (rmb_max_messages_in_this_batch reference)"
    and "n \<le> 1 \<or> batch_fits W reference (take n (selected @ ready))"
    and "n = length (selected @ ready) \<or> n = unat (rmb_max_messages_in_this_batch reference) \<or>
      0 < n \<and> \<not> batch_fits W reference (take (Suc n) (selected @ ready))"
proof -
  let ?max = "rmb_max_messages_in_this_batch reference"
  have "n \<le> length (selected @ ready) \<and> n \<le> unat ?max \<and> (n \<le> 1 \<or> batch_fits W reference (take n (selected @ ready))) \<and>
    (n = length (selected @ ready) \<or> n = unat ?max \<or> 0 < n \<and> \<not> batch_fits W reference (take (Suc n) (selected @ ready)))"
    unfolding n_def using assms(2-7)
  proof (induction ready arbitrary: selected w s)
    case (Cons m ready)
    obtain nonce details where m: "m = (nonce, details)" by (cases m)
    let ?c = "of_nat (length selected) :: message_nonce"
    have c: "?c = 0 \<longleftrightarrow> selected = []" using of_nat_nonzero [of "length selected"] Cons.prems(1) by (cases selected) auto
    let ?mw = "rmb_max_messages_weight_in_single_batch reference" and ?ms = "rmb_max_messages_size_in_single_batch reference"
    let ?x = "det_dispatch_weight details" and ?y = "det_size details"
    have fits: "batch_fits W reference (selected @ [m]) \<longleftrightarrow> weight_fits W ?mw w ?x \<and> unat s + unat ?y \<le> unat ?ms"
      using Cons.prems(3-5) by (auto simp: batch_fits_def weight_fits_def message_totals m)
    have zero: "selected = [] \<Longrightarrow> w_ref_time W w = 0 \<and> w_proof_size W w = 0 \<and> unat s = 0"
      using Cons.prems(3-5) by (simp add: message_totals unat_eq_0)
    show ?case
    proof (cases "selected = [] \<or> batch_fits W reference (selected @ [m])")
      case False
      then have "decide_loop W reference (length selected) w s ?c (length selected) (m # ready) = length selected"
        using limit_by_weight_spec(1) [OF W, of ?c ?mw w ?x] limit_by_size_spec(1) [of ?c s ?y ?ms] fits c
        by (cases "weight_fits W ?mw w ?x") (auto simp: m split: option.split)
      then show ?thesis using Cons.prems False by simp
    next
      case True
      then have "?c = 0 \<and> w_ref_time W w = 0 \<and> w_proof_size W w = 0 \<or> weight_fits W ?mw w ?x"
        "?c = 0 \<and> unat s = 0 \<or> unat s + unat ?y \<le> unat ?ms"
        using fits zero c by auto
      then obtain w' s' where w': "limit_by_weight W ?mw ?c w ?x = Some w'"
          "unat (w_ref_time W w') = unat (w_ref_time W w) + unat (w_ref_time W ?x)"
          "unat (w_proof_size W w') = unat (w_proof_size W w) + unat (w_proof_size W ?x)"
        and s': "limit_by_size ?ms ?c s ?y = Some s'" "unat s' = unat s + unat ?y"
        using limit_by_weight_spec(2) [OF W, of ?c w ?mw ?x] limit_by_size_spec(2) [of ?c s ?y ?ms] by blast
      have "Suc (length selected) < 2 ^ LENGTH(64)" using Cons.prems(1) by simp
      from unat_of_nat_lt [OF this] have succ: "?c + 1 = of_nat (Suc (length selected))" "unat (?c + 1) = Suc (length selected)"
        by (simp_all only: of_nat_Suc add.commute)
      show ?thesis
      proof (cases "?max < ?c + 1")
        case True
        then have "length selected = unat ?max" using Cons.prems(2) by (simp only: word_less_nat_alt succ(2))
        then show ?thesis using True w' s' Cons.prems by (simp add: m)
      next
        case False
        then have "Suc (length selected) \<le> unat ?max" by (simp only: word_less_nat_alt succ(2))
        moreover have "length (selected @ [m]) \<le> 1 \<or> batch_fits W reference (selected @ [m])"
          using \<open>selected = [] \<or> batch_fits W reference (selected @ [m])\<close> by auto
        ultimately show ?thesis
          using Cons.IH [of "selected @ [m]" w' s'] Cons.prems w' s' False
          by (simp add: m message_totals succ(1) del: of_nat_Suc)
      qed
    qed
  qed simp
  then show "n \<le> length (selected @ ready)" and "n \<le> unat ?max"
    and "n \<le> 1 \<or> batch_fits W reference (take n (selected @ ready))"
    and "n = length (selected @ ready) \<or> n = unat ?max \<or> 0 < n \<and> \<not> batch_fits W reference (take (Suc n) (selected @ ready))"
    by blast+
qed

lemma decide_batch_spec:
  assumes W: "weight_laws W" and "length (all_ready_nonces reference) < 2 ^ 64"
  defines "ready \<equiv> all_ready_nonces reference"
  obtains "decide_batch W reference = None" and "ready = [] \<or> rmb_max_messages_in_this_batch reference = 0"
  | n where "decide_batch W reference =
        Some (hard_selected_begin_nonce reference, hard_selected_begin_nonce reference + of_nat n - 1)"
    and "0 < n" and "n \<le> length ready" and "n \<le> unat (rmb_max_messages_in_this_batch reference)"
    and "n = 1 \<or> batch_fits W reference (take n ready)"
    and "n = length ready \<or> n = unat (rmb_max_messages_in_this_batch reference) \<or>
      \<not> batch_fits W reference (take (Suc n) ready)"
proof -
  define n where "n = decide_loop W reference 0 (w_zero W) 0 0 0 ready"
  have zero: "unat (w_ref_time W (w_zero W)) = 0" "unat (w_proof_size W (w_zero W)) = 0"
    using W by (simp_all add: weight_simps)
  note * = decide_loop_spec [OF W, of "[]" ready reference "w_zero W" 0]
  have n: "n \<le> length ready" "n \<le> unat (rmb_max_messages_in_this_batch reference)"
    "n \<le> 1 \<or> batch_fits W reference (take n ready)"
    "n = length ready \<or> n = unat (rmb_max_messages_in_this_batch reference) \<or> 0 < n \<and> \<not> batch_fits W reference (take (Suc n) ready)"
    using * zero assms(2) by (simp_all add: n_def ready_def message_totals)
  show thesis
  proof (cases "n = 0")
    case True
    then show thesis using that(1) n(4) by (auto simp: decide_batch_def n_def ready_def unat_eq_0)
  next
    case False
    then have "decide_batch W reference =
      Some (hard_selected_begin_nonce reference, hard_selected_begin_nonce reference + of_nat n - 1)"
      by (simp add: decide_batch_def n_def ready_def Let_def)
    moreover have "n = 1 \<or> batch_fits W reference (take n ready)" using False n(3) by linarith
    ultimately show thesis using False n(1,2,4) by (intro that(2) [of n]) auto
  qed
qed

section \<open>Contiguous queues\<close>

text \<open>
  The strategy names a batch by its first nonce and its length, so it relies on a queue without
  gaps.
\<close>

definition consecutive_nonces :: "message_nonce list \<Rightarrow> bool" where
  "consecutive_nonces = successively (\<lambda>a b. unat b = Suc (unat a))"

definition queue_messages ::
  "(('hash, 'number) header_id \<times> ('w, 'b) message_details_map) list \<Rightarrow> (message_nonce \<times> ('w, 'b) message_details) list" where
  "queue_messages q = concat (map snd q)"

definition queue_contiguous :: "(('hash, 'number) header_id \<times> ('w, 'b) message_details_map) list \<Rightarrow> bool" where
  "queue_contiguous q \<longleftrightarrow> consecutive_nonces (map fst (queue_messages q))"

lemma queue_messages_append [simp]: "queue_messages (q @ q') = queue_messages q @ queue_messages q'"
  by (simp add: queue_messages_def)

lemma set_queue_messages: "fst ` set (queue_messages q) = ranges_nonces details_nonces q"
  by (force simp: queue_messages_def ranges_nonces_def details_nonces_def)

lemma consecutive_nth:
  "consecutive_nonces (x # xs) \<Longrightarrow> i < length (x # xs) \<Longrightarrow> unat ((x # xs) ! i) = unat x + i"
proof (induction i)
  case (Suc i)
  then show ?case
    using successively_nth [of "\<lambda>a b. unat b = Suc (unat a)" "x # xs" i] by (simp add: consecutive_nonces_def)
qed simp

lemma consecutive_take_drop:
  "consecutive_nonces (xs @ ys) \<Longrightarrow> consecutive_nonces xs" "consecutive_nonces (xs @ ys) \<Longrightarrow> consecutive_nonces ys"
  by (auto simp: consecutive_nonces_def successively_append_iff)

lemma consecutive_sorted:
  assumes "consecutive_nonces xs"
  shows "sorted_wrt (<) xs"
  unfolding sorted_wrt_iff_nth_less word_less_nat_alt
proof (intro allI impI)
  fix i j assume "i < j" "j < length xs"
  then show "unat (xs ! i) < unat (xs ! j)"
    using assms consecutive_nth [of "hd xs" "tl xs" i] consecutive_nth [of "hd xs" "tl xs" j] by (cases xs) simp_all
qed

lemma filter_ge_sorted: "sorted_wrt (<) (map fst xs) \<Longrightarrow> filter (\<lambda>(n, _). a \<le> n) xs = dropWhile (\<lambda>(n, _). n < a) xs"
  for a :: "'k::linorder"
proof (induction xs)
  case (Cons x xs)
  then show ?case by (cases xs) (auto simp: filter_id_conv)
qed simp

text \<open>The messages from a known nonce on are this nonce and the ones after it.\<close>

lemma consecutive_from:
  assumes "consecutive_nonces (map fst ms)" and "a \<in> fst ` set ms"
  defines "rest \<equiv> filter (\<lambda>(n, _). a \<le> n) ms"
  shows "rest \<noteq> []" and "consecutive_nonces (map fst rest)" and "fst (hd rest) = a"
proof -
  note sorted = consecutive_sorted [OF assms(1)]
  have rest: "rest = dropWhile (\<lambda>(n, _). n < a) ms" unfolding rest_def by (rule filter_ge_sorted [OF sorted])
  have in_rest: "a \<in> fst ` set rest" using assms(2) by (force simp: rest_def)
  then show ne: "rest \<noteq> []" by auto
  have "map fst ms = map fst (takeWhile (\<lambda>(n, _). n < a) ms) @ map fst rest"
    by (simp add: rest flip: map_append)
  then show con: "consecutive_nonces (map fst rest)" using assms(1) consecutive_take_drop(2) by metis
  obtain m ms' where r: "rest = m # ms'" using ne by (cases rest) auto
  have "a \<le> fst m" using r by (auto simp: rest_def filter_eq_Cons_iff)
  moreover have "fst m \<le> a" using in_rest consecutive_sorted [OF con] by (auto simp: r)
  ultimately show "fst (hd rest) = a" by (simp add: r)
qed

lemma delivery_select_Some:
  assumes "delivery_select_nonces_to_deliver W rs st = Some (nonces, p)"
  obtains t best tn available where "bs_best_target_nonce (mds_strategy st) = Some t"
    and "rst_best_finalized_source_header_id_at_best_target rs = Some best" and "mds_target_nonces st = Some tn"
    and "latest_confirmed_nonce_at_source best t st \<le> tcn_latest_nonce tn \<longrightarrow>
      tcn_latest_nonce tn - latest_confirmed_nonce_at_source best t st < mds_max_unconfirmed_nonces_at_target st"
    and "mds_max_unrewarded_relayer_entries_at_target st \<le> unrewarded_relayer_entries (drt_unrewarded_relayers (tcn_nonces_data tn)) \<longrightarrow>
      messages_in_oldest_entry (drt_unrewarded_relayers (tcn_nonces_data tn)) \<le>
        saturating_sub (latest_confirmed_nonce_at_source best t st) (drt_confirmed_nonce (tcn_nonces_data tn))"
    and "available_source_queue_indices details_map_ops rs (mds_strategy st) = Some available"
    and "decide_batch W (delivery_batch_reference (max_nonces_to_deliver (tcn_latest_nonce tn)
        (max (drt_confirmed_nonce (tcn_nonces_data tn)) (latest_confirmed_nonce_at_source best t st)) st) t available st) = Some nonces"
    and "p = \<lparr>mpp_outbound_state_proof_required =
        drt_confirmed_nonce (tcn_nonces_data tn) < latest_confirmed_nonce_at_source best t st,
      mpp_dispatch_weight = dispatch_weight_for_range W st nonces\<rparr>"
proof -
  have m: "(if a < b then b else a) = max a b" for a b :: message_nonce by auto
  from assms show thesis
    by (auto simp: delivery_select_nonces_to_deliver_def Let_def m checked_sub_def not_le
        split: bind_splits if_splits intro: that)
qed

lemma delivery_batch_reference_simps [simp]:
  "rmb_max_messages_in_this_batch (delivery_batch_reference m t available st) = m"
  "rmb_max_messages_weight_in_single_batch (delivery_batch_reference m t available st) = mds_max_messages_weight_in_single_batch st"
  "rmb_max_messages_size_in_single_batch (delivery_batch_reference m t available st) = mds_max_messages_size_in_single_batch st"
  by (simp_all add: delivery_batch_reference_def)

lemma ready_messages:
  assumes "available = (length delivered, length delivered + (length ready - 1))" and "ready \<noteq> []"
    and "bs_source_queue (mds_strategy st) = delivered @ ready @ rest"
  shows "all_ready_nonces (delivery_batch_reference m t available st) =
      filter (\<lambda>(nonce, _). max (t + 1) (details_map_begin (snd (hd ready))) \<le> nonce) (queue_messages ready)"
    and "hard_selected_begin_nonce (delivery_batch_reference m t available st) = max (t + 1) (details_map_begin (snd (hd ready)))"
proof -
  have "(delivered @ ready @ rest) ! length delivered = hd ready"
    using assms(2) by (simp add: nth_append hd_conv_nth)
  then show start: "hard_selected_begin_nonce (delivery_batch_reference m t available st) = max (t + 1) (details_map_begin (snd (hd ready)))"
    using assms(1,3) by (simp add: hard_selected_begin_nonce_def delivery_batch_reference_def)
  have "length delivered + (length ready - 1) + 1 - length delivered = length ready" using assms(2) by (cases ready) auto
  then show "all_ready_nonces (delivery_batch_reference m t available st) =
      filter (\<lambda>(nonce, _). max (t + 1) (details_map_begin (snd (hd ready))) \<le> nonce) (queue_messages ready)"
    unfolding all_ready_nonces_def start using assms(1,3) by (simp add: delivery_batch_reference_def queue_messages_def)
qed

lemma consecutive_between:
  assumes "consecutive_nonces xs" and "xs \<noteq> []" and "hd xs \<le> x" and "x \<le> last xs"
  shows "x \<in> set xs"
proof -
  obtain y ys where xs: "xs = y # ys" using assms(2) by (cases xs) auto
  have "unat (last xs) = unat y + (length xs - 1)"
    using consecutive_nth [of y ys "length xs - 1"] assms(1) last_conv_nth [OF assms(2)] by (simp add: xs)
  then have i: "unat x - unat y < length xs" using assms(3,4) by (simp add: xs word_le_nat_alt)
  then have "unat (xs ! (unat x - unat y)) = unat x"
    using consecutive_nth [of y ys "unat x - unat y"] assms(1,3) by (simp add: xs word_le_nat_alt del: nth_Cons')
  then have "xs ! (unat x - unat y) = x" by (simp add: word_unat_eq_iff)
  then show ?thesis using i nth_mem by metis
qed

lemma consecutive_take:
  assumes "consecutive_nonces xs" and "0 < n" and "n \<le> length xs" and "hd xs = a"
  shows "unat (a + of_nat n - 1) = unat a + n - 1"
    and "map unat (take n xs) = [unat a..<unat a + n]"
    and "set (take n xs) = {x. a \<le> x \<and> x \<le> a + of_nat n - 1}"
proof -
  obtain ys where xs: "xs = a # ys" using assms(2-4) by (cases xs) auto
  have nth: "i < n \<Longrightarrow> unat (xs ! i) = unat a + i" for i
    using consecutive_nth [of a ys i] assms(1,3) by (simp add: xs del: nth_Cons')
  have "unat (xs ! (n - 1)) = unat a + n - 1" using nth [of "n - 1"] assms(2) by simp
  moreover have "a + of_nat n - 1 = of_nat (unat a + n - 1)" using assms(2) by (simp add: of_nat_diff)
  moreover have "of_nat (unat (xs ! (n - 1))) = xs ! (n - 1)" by simp
  ultimately have last: "xs ! (n - 1) = a + of_nat n - 1" by simp
  then show u: "unat (a + of_nat n - 1) = unat a + n - 1"
    using \<open>unat (xs ! (n - 1)) = unat a + n - 1\<close> by simp
  show "map unat (take n xs) = [unat a..<unat a + n]"
    by (rule nth_equalityI) (use nth assms(3) in auto)
  show "set (take n xs) = {x. a \<le> x \<and> x \<le> a + of_nat n - 1}"
  proof (intro equalityI subsetI)
    fix x assume "x \<in> set (take n xs)"
    then obtain i where "i < n" "x = xs ! i" using assms(3) by (auto simp: in_set_conv_nth)
    then show "x \<in> {x. a \<le> x \<and> x \<le> a + of_nat n - 1}" using nth [of i] by (simp add: word_le_nat_alt u)
  next
    fix x assume "x \<in> {x. a \<le> x \<and> x \<le> a + of_nat n - 1}"
    moreover have ne: "take n xs \<noteq> []" using assms(2,3) by auto
    moreover have "last (take n xs) = a + of_nat n - 1" "hd (take n xs) = a"
      using last last_conv_nth [OF ne] assms(2-4) by simp_all
    moreover have "consecutive_nonces (take n xs)"
      using consecutive_take_drop(1) [of "take n xs" "drop n xs"] assms(1) by simp
    ultimately show "x \<in> set (take n xs)" using consecutive_between by simp
  qed
qed

lemma foldl_saturating_add:
  assumes W: "weight_laws W"
  shows "unat (w_ref_time W (foldl (w_saturating_add W) w ws)) =
      min (unat (w_ref_time W w) + (\<Sum>x \<leftarrow> ws. unat (w_ref_time W x))) (2 ^ 64 - 1)"
    and "unat (w_proof_size W (foldl (w_saturating_add W) w ws)) =
      min (unat (w_proof_size W w) + (\<Sum>x \<leftarrow> ws. unat (w_proof_size W x))) (2 ^ 64 - 1)"
proof -
  have "unat (w_ref_time W (foldl (w_saturating_add W) w ws)) =
      min (unat (w_ref_time W w) + (\<Sum>x \<leftarrow> ws. unat (w_ref_time W x))) (2 ^ 64 - 1) \<and>
    unat (w_proof_size W (foldl (w_saturating_add W) w ws)) =
      min (unat (w_proof_size W w) + (\<Sum>x \<leftarrow> ws. unat (w_proof_size W x))) (2 ^ 64 - 1)"
  proof (induction ws arbitrary: w)
    case Nil
    then show ?case using unat_lt_64 [of "w_ref_time W w"] unat_lt_64 [of "w_proof_size W w"] by simp
  next
    case (Cons x ws)
    have parts: "unat (w_ref_time W (w_saturating_add W w x)) = min (unat (w_ref_time W w) + unat (w_ref_time W x)) (2 ^ 64 - 1)"
      "unat (w_proof_size W (w_saturating_add W w x)) = min (unat (w_proof_size W w) + unat (w_proof_size W x)) (2 ^ 64 - 1)"
      by (simp_all add: weight_simps [OF W] rust_arith)
    have min: "min (min (i + j) m + k) m = min (i + (j + k)) m" for i j k m :: nat by (auto simp: min_def)
    show ?case by (simp only: foldl_Cons Cons.IH parts min list.map sum_list.Cons)
  qed
  then show "unat (w_ref_time W (foldl (w_saturating_add W) w ws)) =
      min (unat (w_ref_time W w) + (\<Sum>x \<leftarrow> ws. unat (w_ref_time W x))) (2 ^ 64 - 1)"
    and "unat (w_proof_size W (foldl (w_saturating_add W) w ws)) =
      min (unat (w_proof_size W w) + (\<Sum>x \<leftarrow> ws. unat (w_proof_size W x))) (2 ^ 64 - 1)" by simp_all
qed

lemma dispatch_weight_messages:
  "dispatch_weight_for_range W st (a, b) =
     foldl (w_saturating_add W) (w_zero W)
       (map (\<lambda>(_, details). det_dispatch_weight details)
         (filter (\<lambda>(nonce, _). a \<le> nonce \<and> nonce \<le> b) (queue_messages (bs_source_queue (mds_strategy st)))))"
  by (simp add: dispatch_weight_for_range_def queue_messages_def filter_concat map_concat comp_def case_prod_unfold)

lemma filter_part:
  "distinct (map fst (xs @ ys @ zs)) \<Longrightarrow> filter (\<lambda>x. fst x \<in> fst ` set ys) (xs @ ys @ zs) = ys"
proof -
  assume "distinct (map fst (xs @ ys @ zs))"
  then have "filter (\<lambda>x. fst x \<in> fst ` set ys) xs = []" "filter (\<lambda>x. fst x \<in> fst ` set ys) zs = []"
    by (auto simp: filter_empty_conv)
  then show ?thesis by simp
qed

text \<open>A batch of consecutive messages is a part of the queue.\<close>

lemma consecutive_batch:
  assumes "consecutive_nonces (map fst ms)" and "a \<in> fst ` set ms" and "0 < n" and "n \<le> length (filter (\<lambda>(k, _). a \<le> k) ms)"
  defines "batch \<equiv> take n (filter (\<lambda>(k, _). a \<le> k) ms)" and "b \<equiv> a + of_nat n - 1"
  shows "unat b = unat a + n - 1" and "map (unat \<circ> fst) batch = [unat a..<unat a + n]"
    and "fst ` set batch = {x. a \<le> x \<and> x \<le> b}" and "\<exists>xs zs. ms = xs @ batch @ zs"
proof -
  let ?from = "filter (\<lambda>(k, _). a \<le> k) ms"
  note from_a = consecutive_from [OF assms(1,2)]
  have "hd (map fst ?from) = a" using from_a(1,3) by (simp add: hd_map)
  note part = consecutive_take [OF from_a(2) assms(3) _ this]
  show "unat b = unat a + n - 1" "map (unat \<circ> fst) batch = [unat a..<unat a + n]" "fst ` set batch = {x. a \<le> x \<and> x \<le> b}"
    using part assms(4) by (simp_all add: b_def batch_def take_map)
  have "ms = takeWhile (\<lambda>(k, _). k < a) ms @ batch @ drop n ?from"
    using filter_ge_sorted [OF consecutive_sorted [OF assms(1)], of a] by (simp add: batch_def)
  then show "\<exists>xs zs. ms = xs @ batch @ zs" by blast
qed

lemma consecutive_length:
  assumes "consecutive_nonces (map fst ms)" and "a \<in> fst ` set ms" and "a \<noteq> 0"
  shows "length (filter (\<lambda>(k, _). a \<le> k) ms) < 2 ^ 64"
proof -
  let ?n = "length (filter (\<lambda>(k, _). a \<le> k) ms)"
  have "0 < ?n" using consecutive_from(1) [OF assms(1,2)] by simp
  then show ?thesis
    using consecutive_batch(1) [OF assms(1,2), of ?n] assms(3) unat_lt_64 [of "a + of_nat ?n - 1"] by (simp add: unat_eq_0 [symmetric])
qed

lemma messages_part_filter:
  assumes "consecutive_nonces (map fst ms)" and "ms = xs @ batch @ zs" and "fst ` set batch = {x. a \<le> x \<and> x \<le> b}"
  shows "batch = filter (\<lambda>(nonce, _). a \<le> nonce \<and> nonce \<le> b) ms"
proof -
  have "distinct (map fst (xs @ batch @ zs))"
    using consecutive_sorted [OF assms(1)] strict_sorted_iff assms(2) by metis
  from filter_part [OF this] show ?thesis by (simp only: assms(2,3) mem_Collect_eq case_prod_unfold)
qed

text \<open>The first available nonce is in the first available entry.\<close>

lemma first_available:
  assumes valid: "details_valid r" and con: "consecutive_nonces (map fst r)" and t: "t < nr_end details_map_ops r"
  shows "max (t + 1) (details_map_begin r) \<in> fst ` set r"
proof -
  have ne: "r \<noteq> []" using valid by (simp add: details_valid_def)
  have ends: "details_map_begin r = hd (map fst r)" "details_map_end r = last (map fst r)"
    using ne by (auto simp: details_map_begin_def details_map_end_def split: list.split)
  have "t \<noteq> - 1" using t word_order.extremum [of "nr_end details_map_ops r"] by auto
  then have "max (t + 1) (details_map_begin r) \<le> last (map fst r)"
    using t succ_le_iff [of t "last (map fst r)"] details.begin_least [OF valid] details.end_greatest [OF valid]
    by (auto simp: ends details_map_ops_def)
  moreover have "hd (map fst r) \<le> max (t + 1) (details_map_begin r)" by (simp add: ends)
  ultimately show ?thesis using consecutive_between [OF con, of "max (t + 1) (details_map_begin r)"] ne by simp
qed

text \<open>What the strategy selects from a contiguous queue.\<close>

lemma delivery_batch:
  assumes W: "weight_laws W" and ok: "ranges_ok details_map_ops details_valid (bs_source_queue (mds_strategy st))"
    and con: "queue_contiguous (bs_source_queue (mds_strategy st))"
    and t: "bs_best_target_nonce (mds_strategy st) = Some t"
    and best: "rst_best_finalized_source_header_id_at_best_target rs = Some best"
    and avail: "available_source_queue_indices details_map_ops rs (mds_strategy st) = Some available"
    and dec: "decide_batch W (delivery_batch_reference m t available st) = Some (a, b)"
  defines "q \<equiv> bs_source_queue (mds_strategy st)"
  obtains batch where "batch \<noteq> []" and "unat b = unat a + length batch - 1"
    and "map (unat \<circ> fst) batch = [unat a..<unat a + length batch]"
    and "fst ` set batch = {x. a \<le> x \<and> x \<le> b}" and "fst ` set batch \<subseteq> available_nonces details_nonces t best q"
    and "batch = filter (\<lambda>(nonce, _). a \<le> nonce \<and> nonce \<le> b) (queue_messages q)"
    and "length batch \<le> unat m" and "length batch = 1 \<or> batch_fits W (delivery_batch_reference m t available st) batch"
    and "t < a" and "\<forall>x \<in> available_nonces details_nonces t best q. a \<le> x"
proof -
  let ?ref = "delivery_batch_reference m t available st"
  have idle: "rst_nonces_to_submit rs = None" "rst_nonces_submitted rs = None"
    using available_when_idle [OF avail] by simp_all
  obtain delivered ready rest where av: "available = (length delivered, length delivered + (length ready - 1))"
    and q: "bs_source_queue (mds_strategy st) = delivered @ ready @ rest" and ne: "ready \<noteq> []"
    and nonces: "available_nonces details_nonces t best q = {x \<in> ranges_nonces details_nonces ready. t < x}"
    and parts: "\<forall>(h, r) \<in> set (ready @ rest). t < nr_end details_map_ops r"
    by (rule details.available_indices_spec [OF ok t best idle]) (use avail in \<open>auto simp: q_def\<close>)
  define a0 where "a0 = max (t + 1) (details_map_begin (snd (hd ready)))"
  note ready = ready_messages [OF av ne q, of m t, folded a0_def]
  have okr: "ranges_ok details_map_ops details_valid ready" using ok q details.ranges_ok_append by metis
  obtain h r ready' where r: "ready = (h, r) # ready'" using ne by (cases ready) auto
  have tr: "t < nr_end details_map_ops r" using parts by (simp add: r)
  then have t1: "t \<noteq> - 1" using word_order.extremum [of "nr_end details_map_ops r"] by auto
  have a0: "t < a0" using succ_le_iff [OF t1, of a0] by (simp add: a0_def)
  have conq: "consecutive_nonces (map fst (queue_messages q))" using con by (simp add: queue_contiguous_def q_def)
  then have conr: "consecutive_nonces (map fst (queue_messages ready))"
    using consecutive_take_drop unfolding q_def q queue_messages_append map_append by blast
  then have "consecutive_nonces (map fst r)"
    using consecutive_take_drop(1) [of "map fst r"] by (simp add: r queue_messages_def)
  then have in_ready: "a0 \<in> fst ` set (queue_messages ready)"
    using first_available [of r t] okr tr by (auto simp: a0_def r details.ranges_ok_Cons queue_messages_def)
  let ?from = "filter (\<lambda>(k, _). a0 \<le> k) (queue_messages ready)"
  have "a0 \<noteq> 0" using a0 by auto
  then have "length (all_ready_nonces ?ref) < 2 ^ 64"
    using consecutive_length [OF conr in_ready] by (simp add: ready)
  then obtain n where n: "a = a0" "b = a0 + of_nat n - 1" "0 < n" "n \<le> length ?from" "n \<le> unat m"
      "n = 1 \<or> batch_fits W ?ref (take n ?from)"
  proof (rule decide_batch_spec [OF W])
    fix n assume "decide_batch W ?ref = Some (hard_selected_begin_nonce ?ref, hard_selected_begin_nonce ?ref + of_nat n - 1)"
      and "0 < n" "n \<le> length (all_ready_nonces ?ref)" "n \<le> unat (rmb_max_messages_in_this_batch ?ref)"
        "n = 1 \<or> batch_fits W ?ref (take n (all_ready_nonces ?ref))"
    then show thesis using dec by (intro that [of n]) (simp_all add: ready)
  qed (use dec in simp)
  define batch where "batch = take n ?from"
  note batch = consecutive_batch [OF conr in_ready n(3,4), folded batch_def n(2)]
  have len: "length batch = n" using n(4) by (simp add: batch_def)
  obtain xs zs where "queue_messages q = xs @ batch @ zs"
    using batch(4) unfolding q_def q queue_messages_append by (metis append.assoc)
  then have filter: "batch = filter (\<lambda>(nonce, _). a \<le> nonce \<and> nonce \<le> b) (queue_messages q)"
    using messages_part_filter [OF conq _ batch(3)] n(1) by simp
  have sub: "fst ` set batch \<subseteq> ranges_nonces details_nonces ready"
    unfolding set_queue_messages [symmetric] batch_def using set_take_subset [of n ?from] by auto
  show thesis
  proof (rule that [of batch])
    show "fst ` set batch \<subseteq> available_nonces details_nonces t best q"
      using sub batch(3) a0 unfolding nonces by auto
    show "\<forall>x \<in> available_nonces details_nonces t best q. a \<le> x"
      unfolding nonces using details.queue_bounds(1) [OF okr ne] succ_le_iff [OF t1]
      by (auto simp: n(1) a0_def details_map_ops_def)
  qed (use batch filter n a0 len in \<open>auto simp: batch_def\<close>)
qed

end
