(* ===== verification/Relay_Clients.thy ===== *)
theory Relay_Clients
  imports Relay_Delivery Runtime_Messages "HOL-Library.Sublist"
begin

text \<open>
  The Substrate clients of the messages relay (\<open>relays/lib-substrate-relay/src/messages_source.rs\<close>,
  \<open>messages_target.rs\<close>). The RPC client of a node is a parameter: a read of the storage or a call of
  a runtime API at a block. SCALE sizes are a parameter too.
\<close>

section \<open>The source client\<close>

record 'w outbound_message_details =
  omd_nonce :: message_nonce
  omd_dispatch_weight :: 'w
  omd_size :: u32

datatype 'e substrate_error =
    RpcError 'e
  | BridgePalletIsHalted
  | MissingNonce message_nonce
  | MoreMessagesThanRequested
  | MessageMissingFromStorage message_nonce
  | DetailsCallTooLarge
  | UnexpectedNumberOfDetails

text \<open>The loop compares the answer with the requested nonces from the last one to the first one.\<close>

fun validate_from_the_end :: "'w outbound_message_details list \<Rightarrow> message_nonce list \<Rightarrow> 'e substrate_error + unit" where
  "validate_from_the_end (out_msg_details # out_msgs_details) (nonce # nonces) =
     (if omd_nonce out_msg_details \<noteq> nonce then Inl (MissingNonce nonce)
      else validate_from_the_end out_msgs_details nonces)"
| "validate_from_the_end [] nonces = Inr ()"
| "validate_from_the_end out_msgs_details [] = Inr ()"

definition validate_out_msgs_details :: "'w outbound_message_details list \<Rightarrow> nonces_range \<Rightarrow> 'e substrate_error + unit" where
  "validate_out_msgs_details out_msgs_details nonces =
     (let requested = nonce_range (fst nonces) (snd nonces)
      in if length out_msgs_details > length requested then Inl MoreMessagesThanRequested
         else if out_msgs_details = [] \<and> requested \<noteq> [] then Inl (MissingNonce (snd nonces))
         else validate_from_the_end (rev out_msgs_details) (rev requested))"

text \<open>
  \<open>split_msgs_to_refine\<close>: the inner loop moves messages from the end of the batch to the next one
  until the call fits.
\<close>

function split_next_batch :: "('m list \<Rightarrow> nat) \<Rightarrow> nat \<Rightarrow> 'm list \<Rightarrow> 'm list \<Rightarrow> ('m list \<times> 'm list) option" where
  "split_next_batch encoded_size max_batch_size current_msgs_batch next_msgs_batch =
     (if encoded_size current_msgs_batch > max_batch_size
      then if length current_msgs_batch \<le> 1 then None
           else split_next_batch encoded_size max_batch_size (butlast current_msgs_batch) (last current_msgs_batch # next_msgs_batch)
      else Some (current_msgs_batch, next_msgs_batch))"
  by pat_completeness auto
termination by (relation "measure (\<lambda>(_, _, current_msgs_batch, _). length current_msgs_batch)") auto

declare split_next_batch.simps [simp del]

lemma split_next_batch_Some:
  "split_next_batch encoded_size m current nxt = Some (batch, rest) \<Longrightarrow> current \<noteq> [] \<Longrightarrow>
     batch \<noteq> [] \<and> encoded_size batch \<le> m \<and> batch @ rest = current @ nxt \<and> length nxt \<le> length rest"
proof (induction encoded_size m current nxt rule: split_next_batch.induct)
  case (1 encoded_size m current nxt)
  show ?case
  proof (cases "encoded_size current > m")
    case True
    then have len: "\<not> length current \<le> 1" using "1.prems"(1) by (auto simp: split_next_batch.simps [of _ _ current])
    then have "butlast current \<noteq> []" by (cases current rule: rev_cases) auto
    then show ?thesis
      using "1.IH" [OF True len] "1.prems" True len append_butlast_last_id [of current]
      by (simp add: split_next_batch.simps [of _ _ current])
  next
    case False
    then show ?thesis using "1.prems" by (simp add: split_next_batch.simps [of _ _ current])
  qed
qed

function split_msgs_to_refine_loop :: "('m list \<Rightarrow> nat) \<Rightarrow> nat \<Rightarrow> 'm list \<Rightarrow> 'm list list \<Rightarrow> 'e substrate_error + 'm list list" where
  "split_msgs_to_refine_loop encoded_size max_batch_size current_msgs_batch batches =
     (if current_msgs_batch = [] then Inr batches
      else case split_next_batch encoded_size max_batch_size current_msgs_batch [] of
             None \<Rightarrow> Inl DetailsCallTooLarge
           | Some (current_msgs_batch, next_msgs_batch) \<Rightarrow>
               split_msgs_to_refine_loop encoded_size max_batch_size next_msgs_batch (batches @ [current_msgs_batch]))"
  by pat_completeness auto
termination
proof (relation "measure (\<lambda>(_, _, current_msgs_batch, _). length current_msgs_batch)", goal_cases)
  case (2 encoded_size m current batches x batch rest)
  then show ?case using split_next_batch_Some [of encoded_size m current "[]" batch rest] by auto
qed simp

declare split_msgs_to_refine_loop.simps [simp del]

definition split_msgs_to_refine :: "('m list \<Rightarrow> nat) \<Rightarrow> nat \<Rightarrow> 'm list \<Rightarrow> 'e substrate_error + 'm list list" where
  "split_msgs_to_refine encoded_size max_extrinsic_size msgs_to_refine =
     split_msgs_to_refine_loop encoded_size max_extrinsic_size msgs_to_refine []"

text \<open>
  The reads of \<open>generated_message_details\<close>: the runtime API with the details of sent messages, the
  stored payload of a message, and the runtime API of the target with the dispatch weights of
  messages.
\<close>

record ('e, 'w) details_rpc =
  dr_outbound_details :: "nonces_range \<Rightarrow> 'e + 'w outbound_message_details list"
  dr_message_payload :: "message_nonce \<Rightarrow> 'e + message_payload option"
  dr_inbound_details :: "(message_payload \<times> 'w outbound_message_details) list \<Rightarrow> 'e + 'w list"
  dr_encoded_size :: "(message_payload \<times> 'w outbound_message_details) list \<Rightarrow> nat"
  dr_max_extrinsic_size :: u32

fun collect_msgs_to_refine ::
  "('e, 'w) details_rpc \<Rightarrow> 'w outbound_message_details list \<Rightarrow>
     'e substrate_error + (message_payload \<times> 'w outbound_message_details) list" where
  "collect_msgs_to_refine R [] = Inr []"
| "collect_msgs_to_refine R (out_msg_details # out_msgs_details) =
     result_bind (map_sum RpcError id (dr_message_payload R (omd_nonce out_msg_details))) (\<lambda>payload.
     case payload of
       None \<Rightarrow> Inl (MessageMissingFromStorage (omd_nonce out_msg_details))
     | Some payload \<Rightarrow>
         result_bind (collect_msgs_to_refine R out_msgs_details) (\<lambda>msgs_to_refine.
         Inr ((payload, out_msg_details) # msgs_to_refine)))"

definition refine_batch ::
  "('e, 'w) details_rpc \<Rightarrow> (message_payload \<times> 'w outbound_message_details) list \<Rightarrow>
     'e substrate_error + 'w outbound_message_details list" where
  "refine_batch R msgs_to_refine_batch =
     result_bind (map_sum RpcError id (dr_inbound_details R msgs_to_refine_batch)) (\<lambda>in_msgs_details.
     if length in_msgs_details \<noteq> length msgs_to_refine_batch then Inl UnexpectedNumberOfDetails
     else Inr (map (\<lambda>((_, out_msg_details), dispatch_weight). out_msg_details\<lparr>omd_dispatch_weight := dispatch_weight\<rparr>)
            (zip msgs_to_refine_batch in_msgs_details)))"

fun refine_batches ::
  "('e, 'w) details_rpc \<Rightarrow> (message_payload \<times> 'w outbound_message_details) list list \<Rightarrow>
     'e substrate_error + 'w outbound_message_details list" where
  "refine_batches R [] = Inr []"
| "refine_batches R (batch # batches) =
     result_bind (refine_batch R batch) (\<lambda>refined.
     result_bind (refine_batches R batches) (\<lambda>rest. Inr (refined @ rest)))"

definition generated_message_details ::
  "('e, 'w) details_rpc \<Rightarrow> 'b \<Rightarrow> nonces_range \<Rightarrow> 'e substrate_error + ('w, 'b) message_details_map" where
  "generated_message_details R zero_reward nonces =
     result_bind (map_sum RpcError id (dr_outbound_details R nonces)) (\<lambda>out_msgs_details.
     result_bind (validate_out_msgs_details out_msgs_details nonces) (\<lambda>_.
     result_bind (collect_msgs_to_refine R out_msgs_details) (\<lambda>msgs_to_refine.
     result_bind (split_msgs_to_refine (dr_encoded_size R) (unat (dr_max_extrinsic_size R)) msgs_to_refine) (\<lambda>batches.
     result_bind (refine_batches R batches) (\<lambda>out_msgs_details.
     Inr (fold (\<lambda>out_msg_details. btree_insert (omd_nonce out_msg_details)
            \<lparr>det_dispatch_weight = omd_dispatch_weight out_msg_details, det_size = omd_size out_msg_details,
             det_reward = zero_reward\<rparr>)
          out_msgs_details []))))))"

text \<open>A lane that is missing from the storage has no messages.\<close>

definition source_latest_generated_nonce :: "('sh \<Rightarrow> 'e + outbound_lane_data option) \<Rightarrow> 'sh \<Rightarrow> 'e + 'sh \<times> message_nonce" where
  "source_latest_generated_nonce outbound_lane_data hid =
     result_bind (outbound_lane_data hid) (\<lambda>data.
     Inr (hid, case data of Some data \<Rightarrow> latest_generated_nonce data | None \<Rightarrow> 0))"

definition source_latest_confirmed_received_nonce ::
  "('sh \<Rightarrow> 'e + outbound_lane_data option) \<Rightarrow> 'sh \<Rightarrow> 'e + 'sh \<times> message_nonce" where
  "source_latest_confirmed_received_nonce outbound_lane_data hid =
     result_bind (outbound_lane_data hid) (\<lambda>data.
     Inr (hid, case data of Some data \<Rightarrow> latest_received_nonce data | None \<Rightarrow> 0))"

text \<open>The keys of a messages proof. The loop does not end when the last nonce is the largest one.\<close>

partial_function (option) message_keys_loop :: "(message_nonce \<Rightarrow> bytes) \<Rightarrow> message_nonce \<Rightarrow> message_nonce \<Rightarrow> bytes list option" where
  "message_keys_loop message_key nonces_end message_nonce =
     (if message_nonce \<le> nonces_end
      then do { keys \<leftarrow> message_keys_loop message_key nonces_end (message_nonce + 1);
                Some (message_key message_nonce # keys) }
      else Some [])"

definition messages_proof_keys ::
  "('o, 'hash, 'acc, 'x) message_bridge \<Rightarrow> lane_id \<Rightarrow> nonces_range \<Rightarrow> 'w message_proof_parameters \<Rightarrow> bytes list option" where
  "messages_proof_keys B lane_id nonces proof_parameters =
     do {
       storage_keys \<leftarrow> message_keys_loop (mb_message_key B lane_id) (snd nonces) (fst nonces);
       Some (if mpp_outbound_state_proof_required proof_parameters then storage_keys @ [mb_outbound_key B lane_id] else storage_keys)
     }"

definition prove_messages ::
  "('o, 'hash, 'acc, 'x) message_bridge \<Rightarrow> (bytes list \<Rightarrow> 'hash \<Rightarrow> 'e + bytes list) \<Rightarrow> lane_id \<Rightarrow> ('hash, 'number) header_id \<Rightarrow>
     nonces_range \<Rightarrow> 'w message_proof_parameters \<Rightarrow>
     ('e + ('hash, 'number) header_id \<times> nonces_range \<times> 'w \<times> 'hash messages_proof) option" where
  "prove_messages B prove_storage lane_id hid nonces proof_parameters =
     do {
       storage_keys \<leftarrow> messages_proof_keys B lane_id nonces proof_parameters;
       Some (result_bind (prove_storage storage_keys (hid_hash hid)) (\<lambda>pf.
         Inr (hid, nonces, mpp_dispatch_weight proof_parameters,
           \<lparr>mp_bridged_header_hash = hid_hash hid, mp_storage_proof = pf, mp_lane = lane_id,
            mp_nonces_start = fst nonces, mp_nonces_end = snd nonces\<rparr>)))
     }"

section \<open>The target client\<close>

definition target_latest_received_nonce :: "('th \<Rightarrow> 'e + 'r inbound_lane_data option) \<Rightarrow> 'th \<Rightarrow> 'e + 'th \<times> message_nonce" where
  "target_latest_received_nonce inbound_lane_data hid =
     result_bind (inbound_lane_data hid) (\<lambda>data.
     Inr (hid, case data of Some data \<Rightarrow> last_delivered_nonce data | None \<Rightarrow> 0))"

definition target_latest_confirmed_received_nonce ::
  "('th \<Rightarrow> 'e + 'r inbound_lane_data option) \<Rightarrow> 'th \<Rightarrow> 'e + 'th \<times> message_nonce" where
  "target_latest_confirmed_received_nonce inbound_lane_data hid =
     result_bind (inbound_lane_data hid) (\<lambda>data.
     Inr (hid, case data of Some data \<Rightarrow> last_confirmed_nonce data | None \<Rightarrow> 0))"

definition unrewarded_relayers_state_of :: "'r inbound_lane_data option \<Rightarrow> unrewarded_relayers_state" where
  "unrewarded_relayers_state_of inbound_lane_data =
     (let entries = (case inbound_lane_data of Some data \<Rightarrow> relayers data | None \<Rightarrow> [])
      in \<lparr>unrewarded_relayer_entries = of_nat (length entries),
          messages_in_oldest_entry =
            (case entries of entry # _ \<Rightarrow> 1 + dm_end (ur_messages entry) - dm_begin (ur_messages entry) | [] \<Rightarrow> 0),
          total_messages_in_state = (case total_unrewarded_messages entries of Some n \<Rightarrow> n | None \<Rightarrow> - 1),
          last_delivered_nonce_in_state = (case inbound_lane_data of Some data \<Rightarrow> last_delivered_nonce data | None \<Rightarrow> 0)\<rparr>)"

definition target_unrewarded_relayers_state ::
  "('th \<Rightarrow> 'e + 'r inbound_lane_data option) \<Rightarrow> 'th \<Rightarrow> 'e + 'th \<times> unrewarded_relayers_state" where
  "target_unrewarded_relayers_state inbound_lane_data hid =
     result_bind (inbound_lane_data hid) (\<lambda>data. Inr (hid, unrewarded_relayers_state_of data))"

definition prove_messages_receiving ::
  "('o, 'hash, 'acc, 'x) message_bridge \<Rightarrow> (bytes list \<Rightarrow> 'hash \<Rightarrow> 'e + bytes list) \<Rightarrow> lane_id \<Rightarrow>
     (('hash, 'number) header_id \<Rightarrow> 'e + 'r inbound_lane_data option) \<Rightarrow> ('hash, 'number) header_id \<Rightarrow>
     'e + ('hash, 'number) header_id \<times> unrewarded_relayers_state \<times> 'hash messages_delivery_proof" where
  "prove_messages_receiving B prove_storage lane_id inbound_lane_data hid =
     result_bind (target_unrewarded_relayers_state inbound_lane_data hid) (\<lambda>(hid, relayers_state).
     result_bind (prove_storage [mb_inbound_key B lane_id] (hid_hash hid)) (\<lambda>pf.
     Inr (hid, relayers_state,
       \<lparr>mdp_bridged_header_hash = hid_hash hid, mdp_storage_proof = pf, mdp_lane = lane_id\<rparr>)))"

section \<open>States of the chains\<close>

definition ensure_messages_pallet_active :: "'e + messages_operating_mode option \<Rightarrow> 'e substrate_error + unit" where
  "ensure_messages_pallet_active operating_mode =
     result_bind (map_sum RpcError id operating_mode) (\<lambda>operating_mode.
     if operating_mode = Some (Basic Halted) then Inl BridgePalletIsHalted else Inr ())"

definition read_client_state ::
  "'e + 'sh \<Rightarrow> 'e + 'sh \<Rightarrow> ('sh \<Rightarrow> 'e + 'th option) \<Rightarrow> ('th \<Rightarrow> 'e + 'th) option \<Rightarrow> 'e + ('sh, 'th) client_state" where
  "read_client_state best_finalized_header best_header best_finalized_peer_header_at_self peer_header_by_number =
     result_bind best_finalized_header (\<lambda>self_best_finalized_id.
     result_bind best_header (\<lambda>self_best_id.
     result_bind (best_finalized_peer_header_at_self self_best_id) (\<lambda>peer_on_self_best_finalized_id.
     result_bind
       (case (peer_header_by_number, peer_on_self_best_finalized_id) of
          (Some header_by_number, Some peer_id) \<Rightarrow> map_sum id Some (header_by_number peer_id)
        | _ \<Rightarrow> Inr peer_on_self_best_finalized_id) (\<lambda>actual_peer_on_self_best_finalized_id.
     Inr \<lparr>cst_best_self = self_best_id, cst_best_finalized_self = self_best_finalized_id,
          cst_best_finalized_peer_at_best_self = peer_on_self_best_finalized_id,
          cst_actual_best_finalized_peer_at_best_self = actual_peer_on_self_best_finalized_id\<rparr>))))"

section \<open>The answers of the clients\<close>

lemma validate_from_the_end_spec:
  "length ds \<le> length ns \<Longrightarrow> validate_from_the_end ds ns = Inr () \<longleftrightarrow> map omd_nonce ds = take (length ds) ns"
  by (induction ds ns rule: validate_from_the_end.induct) auto

lemma suffix_rev_take: "length xs \<le> length ys \<Longrightarrow> rev xs = take (length xs) (rev ys) \<longleftrightarrow> suffix xs ys"
  by (metis append_take_drop_id length_rev prefix_def suffix_to_prefix take_is_prefix append_eq_conv_conj)

text \<open>The answer is accepted exactly when it is a nonempty final part of the requested nonces.\<close>

lemma validate_out_msgs_details_spec:
  "validate_out_msgs_details ds (a, b) = Inr () \<longleftrightarrow>
     suffix (map omd_nonce ds) (nonce_range a b) \<and> (ds = [] \<longrightarrow> nonce_range a b = [])"
proof (cases "length ds \<le> length (nonce_range a b)")
  case True
  then show ?thesis
    using validate_from_the_end_spec [of "rev ds" "rev (nonce_range a b)"] suffix_rev_take [of "map omd_nonce ds" "nonce_range a b"]
    by (auto simp: validate_out_msgs_details_def Let_def rev_map)
next
  case False
  then show ?thesis using suffix_length_le [of "map omd_nonce ds" "nonce_range a b"] by (auto simp: validate_out_msgs_details_def)
qed

lemma split_next_batch_None:
  "split_next_batch encoded_size m current nxt = None \<Longrightarrow> current \<noteq> [] \<Longrightarrow> encoded_size [hd current] > m"
proof (induction encoded_size m current nxt rule: split_next_batch.induct)
  case (1 encoded_size m current nxt)
  from "1.prems"(1) have True: "encoded_size current > m" by (auto simp: split_next_batch.simps [of _ _ current] split: if_splits)
  show ?case
  proof (cases "length current \<le> 1")
    case len: True
    then show ?thesis using True "1.prems"(2) by (cases current) auto
  next
    case False
    then have "butlast current \<noteq> []" "hd (butlast current) = hd current"
      by (cases current rule: rev_cases; auto simp: hd_append)+
    then show ?thesis using "1.IH" [OF True False] "1.prems" True False by (simp add: split_next_batch.simps [of _ _ current])
  qed
qed

lemma split_msgs_to_refine_loop_spec:
  "case (split_msgs_to_refine_loop encoded_size m msgs batches :: 'e substrate_error + 'm list list) of
     Inl e \<Rightarrow> \<exists>msg \<in> set msgs. encoded_size [msg] > m
   | Inr batches' \<Rightarrow> \<exists>new. batches' = batches @ new \<and> concat new = msgs \<and> (\<forall>batch \<in> set new. batch \<noteq> [] \<and> encoded_size batch \<le> m)"
proof (induction encoded_size m msgs batches rule: split_msgs_to_refine_loop.induct)
  case (1 encoded_size m msgs batches)
  show ?case
  proof (cases "msgs = []")
    case True
    then show ?thesis by (simp add: split_msgs_to_refine_loop.simps [of _ _ "[]"])
  next
    case False
    show ?thesis
    proof (cases "split_next_batch encoded_size m msgs []")
      case None
      then show ?thesis
        using split_next_batch_None [OF None False] False hd_in_set [OF False]
        by (auto simp: split_msgs_to_refine_loop.simps [of _ _ msgs])
    next
      case (Some p)
      obtain batch rest where p: "p = (batch, rest)" by (cases p)
      have batch: "batch \<noteq> []" "encoded_size batch \<le> m" "batch @ rest = msgs"
        using split_next_batch_Some [OF Some [unfolded p] False] by simp_all
      show ?thesis
        using "1.IH" [OF False Some, of batch rest] p Some False batch
        by (auto simp: split_msgs_to_refine_loop.simps [of _ _ msgs] split: sum.splits)
    qed
  qed
qed

text \<open>Messages are split into parts that fit, unless some message alone does not fit.\<close>

lemma split_msgs_to_refine_spec:
  "case (split_msgs_to_refine encoded_size m msgs :: 'e substrate_error + 'm list list) of
     Inl e \<Rightarrow> \<exists>msg \<in> set msgs. encoded_size [msg] > m
   | Inr batches \<Rightarrow> concat batches = msgs \<and> (\<forall>batch \<in> set batches. batch \<noteq> [] \<and> encoded_size batch \<le> m)"
  using split_msgs_to_refine_loop_spec [where encoded_size = encoded_size and m = m and msgs = msgs and batches = "[]" and 'e = 'e]
  by (auto simp: split_msgs_to_refine_def split: sum.splits)

lemma collect_msgs_to_refine_Inr: "collect_msgs_to_refine R ds = Inr ms \<Longrightarrow> map snd ms = ds"
  by (induction ds arbitrary: ms) (auto simp: result_bind_Inr split: option.splits)

lemma refine_batch_Inr:
  assumes "refine_batch R batch = Inr ds"
  shows "map omd_nonce ds = map (omd_nonce \<circ> snd) batch" and "map omd_size ds = map (omd_size \<circ> snd) batch"
proof -
  from assms obtain ws where ws: "length ws = length batch"
    and ds: "ds = map (\<lambda>((_, d), w). d\<lparr>omd_dispatch_weight := w\<rparr>) (zip batch ws)"
    by (auto simp: refine_batch_def result_bind_Inr split: if_splits)
  show "map omd_nonce ds = map (omd_nonce \<circ> snd) batch" "map omd_size ds = map (omd_size \<circ> snd) batch"
    by (rule nth_equalityI; simp add: ds ws case_prod_unfold)+
qed

lemma refine_batches_Inr:
  "refine_batches R batches = Inr ds \<Longrightarrow> map omd_nonce ds = map (omd_nonce \<circ> snd) (concat batches)"
  by (induction batches arbitrary: ds) (auto simp: result_bind_Inr dest: refine_batch_Inr(1))

lemma btree_insert_last:
  "\<forall>k' \<in> fst ` set m. k' < k \<Longrightarrow> btree_insert k v m = m @ [(k, v)]" for k :: "'k::linorder"
  by (induction k v m rule: btree_insert.induct) auto

lemma fold_btree_insert_sorted:
  fixes key :: "'a \<Rightarrow> 'k::linorder"
  assumes "sorted_wrt (<) (map key xs)" and "\<forall>k' \<in> fst ` set m. \<forall>x \<in> set xs. k' < key x"
  shows "fold (\<lambda>x. btree_insert (key x) (val x)) xs m = m @ map (\<lambda>x. (key x, val x)) xs"
  using assms by (induction xs arbitrary: m) (auto simp: btree_insert_last)

lemma nonce_range_nth: "i < length (nonce_range a b) \<Longrightarrow> unat (nonce_range a b ! i) = unat a + i"
  using unat_lt_64 [of b] by (simp add: nonce_range_def unat_of_nat_lt del: upt_Suc of_nat_add)

lemma nonce_range_bounds: "n \<in> set (nonce_range a b) \<Longrightarrow> a \<le> n \<and> n \<le> b"
  using unat_lt_64 [of b] by (auto simp: nonce_range_def word_le_nat_alt unat_of_nat_lt less_Suc_eq_le)

lemma nonce_range_consecutive: "consecutive_nonces (nonce_range a b)"
  by (simp add: consecutive_nonces_def successively_conv_nth nonce_range_nth)

text \<open>The details of new messages are those of the last requested nonces, without gaps.\<close>

lemma generated_message_details_Inr:
  assumes "generated_message_details R z (a, b) = Inr m"
  shows "suffix (map fst m) (nonce_range a b)" and "m = [] \<longrightarrow> nonce_range a b = []"
    and "consecutive_nonces (map fst m)" and "btree_wf m"
proof -
  from assms obtain ds ms batches rs where v: "validate_out_msgs_details ds (a, b) = (Inr () :: 'a substrate_error + unit)"
    and ms: "collect_msgs_to_refine R ds = Inr ms"
    and batches: "split_msgs_to_refine (dr_encoded_size R) (unat (dr_max_extrinsic_size R)) ms = (Inr batches :: 'a substrate_error + _)"
    and rs: "refine_batches R batches = Inr rs"
    and m: "m = fold (\<lambda>d. btree_insert (omd_nonce d)
      \<lparr>det_dispatch_weight = omd_dispatch_weight d, det_size = omd_size d, det_reward = z\<rparr>) rs []"
    by (auto simp: generated_message_details_def result_bind_Inr)
  have "concat batches = ms"
    using split_msgs_to_refine_spec
      [where encoded_size = "dr_encoded_size R" and m = "unat (dr_max_extrinsic_size R)" and msgs = ms and 'e = 'a] batches by simp
  then have nonces: "map omd_nonce rs = map omd_nonce ds"
    using refine_batches_Inr [OF rs] collect_msgs_to_refine_Inr [OF ms] by (metis map_map)
  have s: "suffix (map omd_nonce rs) (nonce_range a b)" "ds = [] \<longrightarrow> nonce_range a b = []"
    using v nonces by (simp_all add: validate_out_msgs_details_spec)
  have con: "consecutive_nonces (map omd_nonce rs)"
    using s(1) nonce_range_consecutive [of a b] consecutive_take_drop(2) by (metis suffix_def)
  then have m': "m = map (\<lambda>d. (omd_nonce d, \<lparr>det_dispatch_weight = omd_dispatch_weight d, det_size = omd_size d, det_reward = z\<rparr>)) rs"
    unfolding m by (subst fold_btree_insert_sorted) (simp_all add: consecutive_sorted)
  then have keys: "map fst m = map omd_nonce rs" by simp
  show "suffix (map fst m) (nonce_range a b)" "consecutive_nonces (map fst m)" using s(1) con by (simp_all add: keys)
  show "btree_wf m" using consecutive_sorted [OF con] by (simp add: btree_wf_def keys)
  show "m = [] \<longrightarrow> nonce_range a b = []" using s(2) nonces m' by auto
qed

lemma message_keys_loop_spec:
  assumes "b \<noteq> - 1"
  shows "message_keys_loop key b a = Some (map key (nonce_range a b))"
proof (induction "Suc (unat b) - unat a" arbitrary: a)
  case 0
  then show ?case by (subst message_keys_loop.simps) (simp add: word_le_nat_alt nonce_range_def del: upt_Suc)
next
  case (Suc d)
  then have le: "a \<le> b" by (simp add: word_le_nat_alt)
  then have "a \<noteq> - 1" using assms word_order.extremum_unique by auto
  then have succ: "unat (a + 1) = Suc (unat a)" by (intro unat_succ) (simp add: word_order.not_eq_extremum)
  have "nonce_range a b = a # nonce_range (a + 1) b"
    using le by (simp add: nonce_range_def succ word_le_nat_alt upt_conv_Cons del: upt_Suc)
  then show ?case using Suc.hyps(1) [of "a + 1"] Suc.hyps(2) succ le by (subst message_keys_loop.simps) simp
qed

end
