(* ===== verification/Relay_Acceptance.thy ===== *)
theory Relay_Acceptance
  imports Relay_Clients Messages_Delivery
begin

text \<open>
  The relay and the pallet together: the batch that the delivery strategy selects is processed by the
  messages pallet of the target chain without a rejection. This joins the limits that the strategy
  computes with the guards of the inbound lane.
\<close>

section \<open>Messages that a lane accepts\<close>

definition proof_weights ::
  "('o, 'acc, 'r, 'proof, 'dproof, 'op, 'p, 'd, 'w, 'x) messages_config \<Rightarrow> 'p dispatch_message list \<Rightarrow> (message_nonce \<times> 'w) list" where
  "proof_weights C ms = map (\<lambda>m. (mk_nonce (dmsg_key m), fst (mc_dispatch_weight C m))) ms"

text \<open>
  The lane rejects a message when its set of relayers is full, even when the message would not add an
  entry. So several messages fit only when there is room for one entry more, or when the relayer
  already has the last entry.
\<close>

definition room_for_messages :: "'r \<Rightarrow> message_nonce \<Rightarrow> nat \<Rightarrow> 'r inbound_lane_data \<Rightarrow> bool" where
  "room_for_messages rb max_entries k d \<longleftrightarrow>
     length (relayers d) < unat max_entries \<and>
     (k \<le> 1 \<or> Suc (length (relayers d)) < unat max_entries \<or> relayers d \<noteq> [] \<and> ur_relayer (last (relayers d)) = rb)"

lemma last_push_delivered: "push_delivered r n es \<noteq> [] \<and> ur_relayer (last (push_delivered r n es)) = r"
  by (cases es rule: rev_cases) (simp_all add: push_delivered_snoc)

lemma room_deliver:
  assumes "room_for_messages rb m (Suc k) d" and "k \<noteq> 0"
  shows "room_for_messages rb m k (deliver_data rb n d)"
proof (cases "relayers d \<noteq> [] \<and> ur_relayer (last (relayers d)) = rb")
  case True
  then obtain es e where "relayers d = es @ [e]" "ur_relayer e = rb" by (cases "relayers d" rule: rev_cases) auto
  then show ?thesis using assms by (simp add: room_for_messages_def deliver_data_def push_delivered_snoc)
next
  case False
  then have "Suc (length (relayers d)) < unat m" using assms by (auto simp: room_for_messages_def)
  then show ?thesis
    using length_push_delivered [of rb n "relayers d"] last_push_delivered [of rb n "relayers d"]
    by (simp add: room_for_messages_def deliver_data_def)
qed

lemma receive_one_accepted:
  assumes "\<not> rv_stopped v" and "mc_dispatch_weight C m = (mdw, m')"
    and "\<not> w_any_gt (mc_weight_ops C) mdw (rv_dispatch_weight_left v)"
    and "receive_message runtime_inbound_storage_ops (mc_dispatch C) rb rt (mk_nonce (dmsg_key m')) (dmsg_data m')
      (rv_lane v) (rv_world v) = (Dispatched dr, lane, x)"
  shows "\<not> rv_stopped (receive_one_message C rb rt m v)" and "rv_lane (receive_one_message C rb rt m v) = lane"
    and "rv_dispatch_weight_left (receive_one_message C rb rt m v) =
      w_sub (mc_weight_ops C) (rv_dispatch_weight_left v)
        (w_sub (mc_weight_ops C) mdw (w_min (mc_weight_ops C) (unspent_weight dr) mdw))"
  using assms by (simp_all add: receive_one_message_def Let_def)

lemma left_after: "b \<le> a \<Longrightarrow> unat a - unat b \<le> unat (a - (b - min u b))" for a b u :: u64
proof -
  assume "b \<le> a"
  moreover have "b - min u b \<le> b" by (rule word_sub_le) simp
  ultimately have "b - min u b \<le> a" by simp
  then show ?thesis using \<open>b - min u b \<le> b\<close> by (simp add: unat_sub_le word_le_nat_alt diff_le_mono2)
qed

lemma accepted_batch:
  assumes W: "weight_laws (mc_weight_ops C)" and key: "dispatch_weight_keeps_key C"
    and "lane_loop_inv C lane d0 v" and "\<not> rv_stopped v"
    and "map (unat \<circ> mk_nonce \<circ> dmsg_key) ms =
      [Suc (unat (last_delivered_nonce (ris_view (rv_lane v))))..<Suc (unat (last_delivered_nonce (ris_view (rv_lane v)))) + length ms]"
    and "unat (last_delivered_nonce (ris_view (rv_lane v))) + length ms \<le>
      unat (last_confirmed_nonce (ris_view (rv_lane v))) + unat (mc_max_unconfirmed_messages_at_inbound_lane C)"
    and "unat (last_delivered_nonce (ris_view (rv_lane v))) + length ms < 2 ^ 64"
    and "room_for_messages rb (mc_max_unrewarded_relayer_entries_at_inbound_lane C) (length ms) (ris_view (rv_lane v)) \<or> ms = []"
    and "(\<Sum>m \<leftarrow> ms. unat (w_ref_time (mc_weight_ops C) (fst (mc_dispatch_weight C m)))) \<le>
      unat (w_ref_time (mc_weight_ops C) (rv_dispatch_weight_left v))"
    and "(\<Sum>m \<leftarrow> ms. unat (w_proof_size (mc_weight_ops C) (fst (mc_dispatch_weight C m)))) \<le>
      unat (w_proof_size (mc_weight_ops C) (rv_dispatch_weight_left v))"
  shows "unat (last_delivered_nonce (ris_view (rv_lane (fold (receive_one_message C rb rt) ms v)))) =
    unat (last_delivered_nonce (ris_view (rv_lane v))) + length ms"
  using assms(3-10)
proof (induction ms arbitrary: v)
  case (Cons m ms)
  let ?W = "mc_weight_ops C" and ?v = "receive_one_message C rb rt m v" and ?d = "ris_view (rv_lane v)"
  let ?L = "unat (last_delivered_nonce ?d)"
  obtain mdw m' where w: "mc_dispatch_weight C m = (mdw, m')" by fastforce
  have key': "dmsg_key m' = dmsg_key m" using key w by (metis dispatch_weight_keeps_key_def snd_conv)
  let ?n = "mk_nonce (dmsg_key m)"
  have n: "unat ?n = Suc ?L" and rest: "map (unat \<circ> mk_nonce \<circ> dmsg_key) ms = [Suc (Suc ?L)..<Suc (Suc ?L) + length ms]"
    using Cons.prems(3) by (simp_all add: upt_conv_Cons comp_def del: upt_Suc)
  have nz: "?n \<noteq> 0" using n by auto
  have n_eq: "?n = last_delivered_nonce ?d + 1"
    using arg_cong [OF n, of "of_nat :: nat \<Rightarrow> message_nonce"] by (simp add: add.commute)
  have co: "ris_coherent (rv_lane v)" and cfg: "ris_max_unrewarded_relayer_entries (rv_lane v) = mc_max_unrewarded_relayer_entries_at_inbound_lane C"
      "ris_max_unconfirmed_messages (rv_lane v) = mc_max_unconfirmed_messages_at_inbound_lane C"
    and wf: "inbound_wf ?d"
    using Cons.prems(1) by (auto simp: lane_loop_inv_def inbound_ok_def)
  have room: "room_for_messages rb (mc_max_unrewarded_relayer_entries_at_inbound_lane C) (Suc (length ms)) ?d"
    using Cons.prems(6) by simp
  obtain res s' x' where r: "receive_message runtime_inbound_storage_ops (mc_dispatch C) rb rt (mk_nonce (dmsg_key m')) (dmsg_data m')
    (rv_lane v) (rv_world v) = (res, s', x')" by (metis prod_cases3)
  have len: "unat (of_nat (length (relayers ?d)) :: message_nonce) = length (relayers ?d)"
    using room unat_lt_64 [of "mc_max_unrewarded_relayer_entries_at_inbound_lane C"]
    by (intro unat_of_nat_lt) (simp add: room_for_messages_def)
  obtain dr where dr: "res = Dispatched dr" "ris_view s' = deliver_data rb ?n ?d"
    using runtime_inbound.receive_message_view(3) [OF co r] n_eq room len Cons.prems(4) n
    by (auto simp: key' cfg room_for_messages_def word_le_nat_alt word_less_nat_alt rust_arith split: if_splits)
  have mdw: "w_ref_time ?W mdw \<le> w_ref_time ?W (rv_dispatch_weight_left v)" "w_proof_size ?W mdw \<le> w_proof_size ?W (rv_dispatch_weight_left v)"
    using Cons.prems(7,8) by (simp_all add: w word_le_nat_alt)
  then have "\<not> w_any_gt ?W mdw (rv_dispatch_weight_left v)" by (simp add: weight_rel_parts [OF W] not_less)
  note one = receive_one_accepted [OF Cons.prems(2) w this r [unfolded dr(1)]]
  have left: "unat (w_ref_time ?W (rv_dispatch_weight_left v)) - unat (w_ref_time ?W mdw) \<le> unat (w_ref_time ?W (rv_dispatch_weight_left ?v))"
    "unat (w_proof_size ?W (rv_dispatch_weight_left v)) - unat (w_proof_size ?W mdw) \<le> unat (w_proof_size ?W (rv_dispatch_weight_left ?v))"
    unfolding one(3) by (simp_all only: weight_simps [OF W] left_after [OF mdw(1)] left_after [OF mdw(2)])
  have view: "unat (last_delivered_nonce (ris_view (rv_lane ?v))) = Suc ?L"
    "last_confirmed_nonce (ris_view (rv_lane ?v)) = last_confirmed_nonce ?d"
    using deliver_data_ok(2,3) [OF wf n_eq nz] n by (simp_all add: one(2) dr(2))
  have "unat (last_delivered_nonce (ris_view (rv_lane (fold (receive_one_message C rb rt) ms ?v)))) =
    unat (last_delivered_nonce (ris_view (rv_lane ?v))) + length ms"
  proof (rule Cons.IH)
    show "lane_loop_inv C lane d0 ?v" by (rule lane_loop_inv_step [OF Cons.prems(1) key nz])
    show "\<not> rv_stopped ?v" by (rule one(1))
    show "room_for_messages rb (mc_max_unrewarded_relayer_entries_at_inbound_lane C) (length ms) (ris_view (rv_lane ?v)) \<or> ms = []"
      using room_deliver [OF room] by (auto simp: one(2) dr(2))
    show "map (unat \<circ> mk_nonce \<circ> dmsg_key) ms =
      [Suc (unat (last_delivered_nonce (ris_view (rv_lane ?v))))..<Suc (unat (last_delivered_nonce (ris_view (rv_lane ?v)))) + length ms]"
      unfolding view(1) by (rule rest)
  qed (use Cons.prems(4,5,7,8) left in \<open>simp_all add: view w\<close>)
  then show ?case by (simp add: view(1))
qed simp

section \<open>The lane after the state update\<close>

lemma start_view:
  assumes d: "inbound_lanes_get (ms_inbound_lanes (rl_state l)) lane = d"
    and st: "st = (if last_confirmed_nonce d < cs then Some out else None)" and "latest_received_nonce out = cs"
    and "cs \<le> last_delivered_nonce d"
  shows "ris_view (rv_lane (lane_start_vars C lane st l)) = (if last_confirmed_nonce d < cs then confirm_data cs d else d)"
proof (cases "last_confirmed_nonce d < cs")
  case True
  obtain res s' where r: "receive_state_update runtime_inbound_storage_ops out (snd (ris_data (inbound_lane C lane (rl_state l)))) = (res, s')"
    by fastforce
  have co: "ris_coherent (snd (ris_data (inbound_lane C lane (rl_state l))))" by (rule ris_data_inbound_lane)
  have "ris_view s' = confirm_data cs d"
    using runtime_inbound.receive_state_update_view(3) [OF co r] True assms(3,4)
    by (simp add: ris_data_inbound_lane d)
  then show ?thesis using st True r by (simp add: lane_start_vars_simps)
next
  case False
  then show ?thesis using st by (simp add: lane_start_vars_simps ris_data_inbound_lane d)
qed

lemma trim_front_length: "length (trim_front n es) = length es" "trim_front n es = [] \<longleftrightarrow> es = []"
  "es \<noteq> [] \<Longrightarrow> ur_relayer (last (trim_front n es)) = ur_relayer (last es)"
  by (cases es; simp)+

lemma pop_confirmed_suffix: "length (pop_confirmed n es) \<le> length es"
  "pop_confirmed n es \<noteq> [] \<Longrightarrow> last (pop_confirmed n es) = last es"
  by (induction es) (auto split: if_splits)

text \<open>Rewards for the messages of the oldest entry remove this entry.\<close>

lemma oldest_entry_confirmed:
  assumes wf: "inbound_wf d" and es: "relayers d = e # es" and "last_delivered_nonce d \<noteq> - 1"
    and le: "1 + dm_end (ur_messages e) - dm_begin (ur_messages e) \<le> saturating_sub cs (last_confirmed_nonce d)"
  shows "last_confirmed_nonce d < cs" and "length (relayers (confirm_data cs d)) \<le> length es"
proof -
  let ?e = "entry_end e" and ?b = "entry_begin e"
  have con: "consecutive None (e # es)" using wf by (simp add: inbound_wf_def es)
  have "?e \<le> entry_end (last (e # es))" by (rule consecutive_end_le_last [OF con]) simp
  then have "?e \<le> last_delivered_nonce d" by (simp add: es last_delivered_nonce_alt del: last.simps)
  then have "?e \<noteq> - 1" using assms(3) word_order.extremum_unique by metis
  then have succ: "unat (?e + 1) = Suc (unat ?e)" by (intro unat_succ) (simp add: word_order.not_eq_extremum)
  have b: "unat ?b \<le> Suc (unat (last_confirmed_nonce d))" using wf by (simp add: inbound_wf_def es)
  have be: "unat ?b \<le> unat ?e" using con by (simp add: word_le_nat_alt)
  have "?b \<le> ?e + 1" using be succ unfolding word_le_nat_alt by linarith
  then have "unat (?e + 1 - ?b) = Suc (unat ?e) - unat ?b" by (simp only: unat_sub_le succ)
  moreover have "1 + ?e - ?b = ?e + 1 - ?b" by (simp only: add.commute)
  ultimately have *: "Suc (unat ?e) - unat ?b \<le> unat cs - unat (last_confirmed_nonce d)"
    using le by (simp only: word_le_nat_alt unat_saturating_sub)
  then show "last_confirmed_nonce d < cs" using be unfolding word_less_nat_alt by linarith
  have "?e \<le> cs" using * b be unfolding word_le_nat_alt by linarith
  then show "length (relayers (confirm_data cs d)) \<le> length es"
    using pop_confirmed_suffix(1) [of cs es] by (simp add: confirm_data_def es trim_front_length)
qed

text \<open>Room for a batch in the lane that the relay has read.\<close>

definition room_for_batch :: "'r \<Rightarrow> message_nonce \<Rightarrow> nat \<Rightarrow> 'r inbound_lane_data \<Rightarrow> bool" where
  "room_for_batch rb max_entries k d \<longleftrightarrow>
     0 < unat max_entries \<and>
     (k = 1 \<or> Suc (length (relayers d)) < unat max_entries \<or>
      1 < unat max_entries \<and> relayers d \<noteq> [] \<and> ur_relayer (last (relayers d)) = rb)"

lemma room_after_update:
  assumes ok: "inbound_ok m u d" and room: "room_for_batch rb m k d" and "last_delivered_nonce d \<noteq> - 1"
    and enough: "m \<le> unrewarded_relayer_entries (unrewarded_relayers_state_of (Some d)) \<longrightarrow>
      messages_in_oldest_entry (unrewarded_relayers_state_of (Some d)) \<le> saturating_sub cs (last_confirmed_nonce d)"
  shows "room_for_messages rb m k (if last_confirmed_nonce d < cs then confirm_data cs d else d)" (is "room_for_messages rb m k ?d")
proof -
  have wf: "inbound_wf d" and le: "length (relayers d) \<le> unat m" using ok by (simp_all add: inbound_ok_def inbound_limits_def)
  have len: "unat (of_nat (length (relayers d)) :: message_nonce) = length (relayers d)"
    using le unat_lt_64 [of m] by (intro unat_of_nat_lt) simp
  have shorter: "length (relayers ?d) \<le> length (relayers d)"
    using pop_confirmed_suffix(1) [of cs "relayers d"] by (simp add: confirm_data_def trim_front_length)
  have "length (relayers ?d) < unat m"
  proof (cases "length (relayers d) = unat m")
    case True
    then obtain e es where es: "relayers d = e # es" using room by (cases "relayers d") (auto simp: room_for_batch_def)
    have "m \<le> of_nat (length (relayers d))" using True len by (simp add: word_le_nat_alt)
    then have "1 + dm_end (ur_messages e) - dm_begin (ur_messages e) \<le> saturating_sub cs (last_confirmed_nonce d)"
      using enough by (simp add: unrewarded_relayers_state_of_def es)
    from oldest_entry_confirmed [OF wf es assms(3) this] show ?thesis using True es by simp
  qed (use shorter le in simp)
  moreover have "k \<le> 1 \<or> Suc (length (relayers ?d)) < unat m \<or> relayers ?d \<noteq> [] \<and> ur_relayer (last (relayers ?d)) = rb"
  proof (cases "k = 1 \<or> Suc (length (relayers d)) < unat m")
    case False
    then have last: "1 < unat m" "relayers d \<noteq> []" "ur_relayer (last (relayers d)) = rb"
      using room by (auto simp: room_for_batch_def)
    show ?thesis
    proof (cases "relayers ?d = []")
      case False
      then have "ur_relayer (last (relayers ?d)) = ur_relayer (last (relayers d))"
        using pop_confirmed_suffix(2) [of cs "relayers d"] trim_front_length(3) [of "pop_confirmed cs (relayers d)" cs]
          trim_front_length(2) [of cs "pop_confirmed cs (relayers d)"] by (simp add: confirm_data_def split: if_splits)
      then show ?thesis using False last by simp
    qed (use last in simp)
  qed (use shorter in auto)
  ultimately show ?thesis by (simp only: room_for_messages_def)
qed

section \<open>The selected batch is accepted\<close>

text \<open>The strategy has read the state of the inbound lane.\<close>

definition knows_inbound_lane :: "('hash, 'number, 'w, 'b) message_delivery_strategy \<Rightarrow> 'r inbound_lane_data \<Rightarrow> bool" where
  "knows_inbound_lane st d \<longleftrightarrow>
     bs_best_target_nonce (mds_strategy st) = Some (last_delivered_nonce d) \<and>
     mds_target_nonces st = Some \<lparr>tcn_latest_nonce = last_delivered_nonce d,
       tcn_nonces_data = \<lparr>drt_confirmed_nonce = last_confirmed_nonce d, drt_unrewarded_relayers = unrewarded_relayers_state_of (Some d)\<rparr>\<rparr>"

definition substrate_target_client ::
  "('th \<Rightarrow> 'e + 'r inbound_lane_data option) \<Rightarrow> ('th \<Rightarrow> 'e + 'th \<times> 'rproof) \<Rightarrow> ('e, 'th, 'rproof) lane_target_client" where
  "substrate_target_client inbound_lane_data prove = \<lparr>
     ltc_latest_received_nonce = target_latest_received_nonce inbound_lane_data,
     ltc_latest_confirmed_received_nonce = target_latest_confirmed_received_nonce inbound_lane_data,
     ltc_unrewarded_relayers_state = target_unrewarded_relayers_state inbound_lane_data,
     ltc_prove_messages_receiving = prove\<rparr>"

lemma knows_lane_after_update:
  assumes "inbound_lane_data hid = Inr (Some d)"
    and "delivery_target_nonces (substrate_target_client inbound_lane_data prove) hid = Inr (hid', nonces)"
  shows "knows_inbound_lane (fst (delivery_best_target_nonces_updated nonces rs st)) d"
  using assms
  by (auto simp: delivery_target_nonces_def substrate_target_client_def target_latest_received_nonce_def
      target_latest_confirmed_received_nonce_def target_unrewarded_relayers_state_def knows_inbound_lane_def
      delivery_best_target_nonces_updated_def basic_best_target_nonces_updated_def Let_def)

lemma max_nonces_positive:
  assumes "0 < unat (max_nonces_to_deliver r f st)"
  shows "f \<le> r" and "unat r + unat (max_nonces_to_deliver r f st) \<le> unat f + unat (mds_max_unconfirmed_nonces_at_target st)"
proof -
  let ?u = "mds_max_unconfirmed_nonces_at_target st"
  show f: "f \<le> r" using assms by (auto simp: max_nonces_to_deliver_def checked_sub_def split: if_splits)
  then have le: "r - f \<le> ?u" using assms by (auto simp: max_nonces_to_deliver_def checked_sub_def split: if_splits)
  then have "max_nonces_to_deliver r f st = min (?u - (r - f)) (mds_max_messages_in_single_batch st)"
    using f by (simp add: max_nonces_to_deliver_def checked_sub_def)
  then have "unat (max_nonces_to_deliver r f st) \<le> unat (?u - (r - f))" by (simp flip: word_le_nat_alt)
  also have "\<dots> = unat ?u - (unat r - unat f)" using f le by (simp add: unat_sub_le)
  finally show "unat r + unat (max_nonces_to_deliver r f st) \<le> unat f + unat ?u"
    using f le by (simp add: word_le_nat_alt unat_sub_le)
qed

lemma batch_dispatch_weight:
  assumes W: "weight_laws W" and fits: "length batch = 1 \<or> batch_fits W reference batch"
    and "batch = filter (\<lambda>(nonce, _). a \<le> nonce \<and> nonce \<le> b) (queue_messages (bs_source_queue (mds_strategy st)))"
  shows "unat (w_ref_time W (dispatch_weight_for_range W st (a, b))) = batch_ref_time W batch"
    and "unat (w_proof_size W (dispatch_weight_for_range W st (a, b))) = batch_proof_size W batch"
proof -
  have "batch_ref_time W batch < 2 ^ 64 \<and> batch_proof_size W batch < 2 ^ 64"
  proof (cases "length batch = 1")
    case True
    then obtain n d where "batch = [(n, d)]" by (auto simp: length_Suc_conv)
    then show ?thesis
      using unat_lt_64 [of "w_ref_time W (det_dispatch_weight d)"] unat_lt_64 [of "w_proof_size W (det_dispatch_weight d)"]
      by (simp add: batch_ref_time_def batch_proof_size_def)
  next
    case False
    then show ?thesis
      using fits unat_lt_64 [of "w_ref_time W (rmb_max_messages_weight_in_single_batch reference)"]
        unat_lt_64 [of "w_proof_size W (rmb_max_messages_weight_in_single_batch reference)"]
      by (auto simp: batch_fits_def)
  qed
  then show "unat (w_ref_time W (dispatch_weight_for_range W st (a, b))) = batch_ref_time W batch"
    "unat (w_proof_size W (dispatch_weight_for_range W st (a, b))) = batch_proof_size W batch"
    unfolding dispatch_weight_messages assms(3) [symmetric]
    by (simp_all add: foldl_saturating_add [OF W] weight_op_parts(2) [OF W] weight_from_parts [OF W]
        batch_ref_time_def batch_proof_size_def comp_def case_prod_unfold)
qed

text \<open>
  The state update and the messages of a lane, as a function of the lane that the relay has read:
  the whole batch is delivered.
\<close>

lemma batch_accepted:
  assumes W: "weight_laws (mc_weight_ops C)" and key: "dispatch_weight_keeps_key C"
    and lanes: "inbound_lanes_ok C (ms_inbound_lanes (rl_state l))"
    and d: "inbound_lanes_get (ms_inbound_lanes (rl_state l)) lane = d"
    and st: "pm_lane_state ld = (if last_confirmed_nonce d < cs then Some out else None)" "latest_received_nonce out = cs"
    and cs: "max (last_confirmed_nonce d) cs \<le> last_delivered_nonce d"
    and nonces: "map (unat \<circ> mk_nonce \<circ> dmsg_key) (pm_messages ld) =
      [Suc (unat (last_delivered_nonce d))..<Suc (unat (last_delivered_nonce d)) + length (pm_messages ld)]"
    and limit: "unat (last_delivered_nonce d) + length (pm_messages ld) \<le>
      unat (max (last_confirmed_nonce d) cs) + unat (mc_max_unconfirmed_messages_at_inbound_lane C)"
    and small: "unat (last_delivered_nonce d) + length (pm_messages ld) < 2 ^ 64" and ne: "pm_messages ld \<noteq> []"
    and room: "room_for_batch rb (mc_max_unrewarded_relayer_entries_at_inbound_lane C) (length (pm_messages ld)) d"
    and enough: "mc_max_unrewarded_relayer_entries_at_inbound_lane C \<le> unrewarded_relayer_entries (unrewarded_relayers_state_of (Some d)) \<longrightarrow>
      messages_in_oldest_entry (unrewarded_relayers_state_of (Some d)) \<le> saturating_sub cs (last_confirmed_nonce d)"
    and weight: "(\<Sum>m \<leftarrow> pm_messages ld. unat (w_ref_time (mc_weight_ops C) (fst (mc_dispatch_weight C m)))) \<le>
        unat (w_ref_time (mc_weight_ops C) (rl_dispatch_weight_left l))"
      "(\<Sum>m \<leftarrow> pm_messages ld. unat (w_proof_size (mc_weight_ops C) (fst (mc_dispatch_weight C m)))) \<le>
        unat (w_proof_size (mc_weight_ops C) (rl_dispatch_weight_left l))"
  shows "unat (last_delivered_nonce (inbound_lanes_get (ms_inbound_lanes (rl_state (receive_lane_messages C rb rt (lane, ld) l))) lane)) =
    unat (last_delivered_nonce d) + length (pm_messages ld)"
proof -
  let ?v = "lane_start_vars C lane (pm_lane_state ld) l"
  let ?d = "if last_confirmed_nonce d < cs then confirm_data cs d else d"
  have view: "ris_view (rv_lane ?v) = ?d" by (rule start_view [OF d st]) (use cs in simp)
  have ok: "inbound_ok (mc_max_unrewarded_relayer_entries_at_inbound_lane C) (mc_max_unconfirmed_messages_at_inbound_lane C) d"
    using lanes d by (auto simp: inbound_lanes_ok_def)
  have wf: "inbound_wf d" using ok by (simp add: inbound_ok_def)
  have last: "last_delivered_nonce ?d = last_delivered_nonce d" "last_confirmed_nonce ?d = max (last_confirmed_nonce d) cs"
    using confirm_data_ok(2) [OF wf, of cs] cs by (auto simp: confirm_data_def)
  have start: "\<not> rv_stopped ?v" by (simp add: lane_start_vars_def Let_def split: prod.split)
  have "last_delivered_nonce d \<noteq> - 1" using small ne by (cases "pm_messages ld") auto
  then have "room_for_messages rb (mc_max_unrewarded_relayer_entries_at_inbound_lane C) (length (pm_messages ld)) ?d"
    using room_after_update [OF ok room _ enough] by simp
  then have room': "room_for_messages rb (mc_max_unrewarded_relayer_entries_at_inbound_lane C) (length (pm_messages ld)) ?d \<or> pm_messages ld = []" ..
  have delivered: "unat (last_delivered_nonce (ris_view (rv_lane (fold (receive_one_message C rb rt) (pm_messages ld) ?v)))) =
    unat (last_delivered_nonce (ris_view (rv_lane ?v))) + length (pm_messages ld)"
    by (rule accepted_batch [OF W key lane_loop_inv_start [OF lanes] start])
      (unfold view last lane_start_vars_simps(4), (rule nonces limit small room' weight)+)
  have inv: "lane_loop_inv C lane (unat (last_delivered_nonce (pallet_inbound_lane_data (rl_state l) lane)))
    (fold (receive_one_message C rb rt) (pm_messages ld) ?v)"
  proof (rule lane_loop_inv_fold [OF lane_loop_inv_start [OF lanes] key])
    fix m assume "m \<in> set (pm_messages ld)"
    then have "unat (mk_nonce (dmsg_key m)) \<in> set (map (unat \<circ> mk_nonce \<circ> dmsg_key) (pm_messages ld))" by auto
    then show "mk_nonce (dmsg_key m) \<noteq> 0" unfolding nonces by (auto simp del: upt_Suc)
  qed
  show ?thesis
    using delivered inv view last(1) by (simp add: receive_lane_messages_alt Let_def store_inbound_lane_def lane_loop_inv_def ris_view_def)
qed

text \<open>The selection of a strategy that knows the inbound lane.\<close>

lemma selection_of_known_lane:
  assumes view: "knows_inbound_lane st d" and best: "rst_best_finalized_source_header_id_at_best_target rs = Some best"
    and sel: "delivery_select_nonces_to_deliver W rs st = Some ((a, b), p)"
  defines "cs \<equiv> latest_confirmed_nonce_at_source best (last_delivered_nonce d) st"
  defines "m \<equiv> max_nonces_to_deliver (last_delivered_nonce d) (max (last_confirmed_nonce d) cs) st"
  obtains available where "available_source_queue_indices details_map_ops rs (mds_strategy st) = Some available"
    and "decide_batch W (delivery_batch_reference m (last_delivered_nonce d) available st) = Some (a, b)"
    and "p = \<lparr>mpp_outbound_state_proof_required = last_confirmed_nonce d < cs,
      mpp_dispatch_weight = dispatch_weight_for_range W st (a, b)\<rparr>"
    and "mds_max_unrewarded_relayer_entries_at_target st \<le> unrewarded_relayer_entries (unrewarded_relayers_state_of (Some d)) \<longrightarrow>
      messages_in_oldest_entry (unrewarded_relayers_state_of (Some d)) \<le> saturating_sub cs (last_confirmed_nonce d)"
proof -
  let ?L = "last_delivered_nonce d" and ?ct = "last_confirmed_nonce d"
  show thesis
  proof (rule delivery_select_Some [OF sel])
    fix t best' tn available
    assume *: "bs_best_target_nonce (mds_strategy st) = Some t"
      "rst_best_finalized_source_header_id_at_best_target rs = Some best'" "mds_target_nonces st = Some tn"
      "mds_max_unrewarded_relayer_entries_at_target st \<le> unrewarded_relayer_entries (drt_unrewarded_relayers (tcn_nonces_data tn)) \<longrightarrow>
        messages_in_oldest_entry (drt_unrewarded_relayers (tcn_nonces_data tn)) \<le>
          saturating_sub (latest_confirmed_nonce_at_source best' t st) (drt_confirmed_nonce (tcn_nonces_data tn))"
      "available_source_queue_indices details_map_ops rs (mds_strategy st) = Some available"
      "decide_batch W (delivery_batch_reference (max_nonces_to_deliver (tcn_latest_nonce tn)
        (max (drt_confirmed_nonce (tcn_nonces_data tn)) (latest_confirmed_nonce_at_source best' t st)) st) t available st) = Some (a, b)"
      "p = \<lparr>mpp_outbound_state_proof_required =
          drt_confirmed_nonce (tcn_nonces_data tn) < latest_confirmed_nonce_at_source best' t st,
        mpp_dispatch_weight = dispatch_weight_for_range W st (a, b)\<rparr>"
    have tn: "t = ?L" "best' = best" "tcn_latest_nonce tn = ?L" "drt_confirmed_nonce (tcn_nonces_data tn) = ?ct"
      "drt_unrewarded_relayers (tcn_nonces_data tn) = unrewarded_relayers_state_of (Some d)"
      using *(1-3) view best by (auto simp: knows_inbound_lane_def)
    show thesis by (rule that [of available]) (use *(4-7) in \<open>simp_all only: tn cs_def m_def\<close>)
  qed
qed

lemma selected_batch:
  fixes st :: "('hash, 'number::linorder, 'w, 'b) message_delivery_strategy"
  assumes W: "weight_laws W" and view: "knows_inbound_lane st d"
    and queue: "ranges_ok details_map_ops details_valid (bs_source_queue (mds_strategy st))"
      "queue_contiguous (bs_source_queue (mds_strategy st))"
    and best: "rst_best_finalized_source_header_id_at_best_target rs = Some best"
    and next_nonce: "last_delivered_nonce d + 1 \<in>
      available_nonces details_nonces (last_delivered_nonce d) best (bs_source_queue (mds_strategy st))"
    and sel: "delivery_select_nonces_to_deliver W rs st = Some ((a, b), p)"
  defines "cs \<equiv> latest_confirmed_nonce_at_source best (last_delivered_nonce d) st"
  defines "m \<equiv> max_nonces_to_deliver (last_delivered_nonce d) (max (last_confirmed_nonce d) cs) st"
  obtains batch and reference :: "('hash, 'number, 'w, 'b) relay_messages_batch_reference" where "batch \<noteq> []" and "unat a = Suc (unat (last_delivered_nonce d))"
    and "unat b = unat (last_delivered_nonce d) + length batch"
    and "map (unat \<circ> fst) batch = [Suc (unat (last_delivered_nonce d))..<Suc (unat (last_delivered_nonce d)) + length batch]"
    and "batch = filter (\<lambda>(nonce, _). a \<le> nonce \<and> nonce \<le> b) (queue_messages (bs_source_queue (mds_strategy st)))"
    and "length batch \<le> unat m" and "length batch = 1 \<or> batch_fits W reference batch"
    and "p = \<lparr>mpp_outbound_state_proof_required = last_confirmed_nonce d < cs,
      mpp_dispatch_weight = dispatch_weight_for_range W st (a, b)\<rparr>"
    and "mds_max_unrewarded_relayer_entries_at_target st \<le> unrewarded_relayer_entries (unrewarded_relayers_state_of (Some d)) \<longrightarrow>
      messages_in_oldest_entry (unrewarded_relayers_state_of (Some d)) \<le> saturating_sub cs (last_confirmed_nonce d)"
proof -
  let ?L = "last_delivered_nonce d" and ?ct = "last_confirmed_nonce d"
  obtain available where av: "available_source_queue_indices details_map_ops rs (mds_strategy st) = Some available"
    and dec: "decide_batch W (delivery_batch_reference m ?L available st) = Some (a, b)"
    and p: "p = \<lparr>mpp_outbound_state_proof_required = ?ct < cs, mpp_dispatch_weight = dispatch_weight_for_range W st (a, b)\<rparr>"
    and enough: "mds_max_unrewarded_relayer_entries_at_target st \<le> unrewarded_relayer_entries (unrewarded_relayers_state_of (Some d)) \<longrightarrow>
      messages_in_oldest_entry (unrewarded_relayers_state_of (Some d)) \<le> saturating_sub cs ?ct"
    unfolding cs_def m_def by (rule selection_of_known_lane [OF view best sel])
  have t: "bs_best_target_nonce (mds_strategy st) = Some ?L" using view by (simp add: knows_inbound_lane_def)
  obtain batch where batch: "batch \<noteq> []" "unat b = unat a + length batch - 1"
      "map (unat \<circ> fst) batch = [unat a..<unat a + length batch]"
      "batch = filter (\<lambda>(nonce, _). a \<le> nonce \<and> nonce \<le> b) (queue_messages (bs_source_queue (mds_strategy st)))"
      "length batch \<le> unat m" "length batch = 1 \<or> batch_fits W (delivery_batch_reference m ?L available st) batch"
      "?L < a" "a \<le> ?L + 1"
  proof (rule delivery_batch [OF W queue t best av dec])
    fix batch
    assume *: "batch \<noteq> []" "unat b = unat a + length batch - 1"
      "map (unat \<circ> fst) batch = [unat a..<unat a + length batch]"
      "batch = filter (\<lambda>(nonce, _). a \<le> nonce \<and> nonce \<le> b) (queue_messages (bs_source_queue (mds_strategy st)))"
      "length batch \<le> unat m" "length batch = 1 \<or> batch_fits W (delivery_batch_reference m ?L available st) batch" "?L < a"
      "\<forall>x \<in> available_nonces details_nonces ?L best (bs_source_queue (mds_strategy st)). a \<le> x"
    show thesis by (rule that [OF *(1-7)]) (use *(8) next_nonce in blast)
  qed
  have a: "unat a = Suc (unat ?L)"
    using batch(7,8) inc_le [OF batch(7)] unat_succ_lt [OF batch(7)] by (simp add: antisym)
  show thesis
    by (rule that [OF batch(1) a _ _ batch(4,5,6) p enough]) (use batch(1,2,3) a in simp_all)
qed

end
