(* ===== verification/Relay_Properties.thy ===== *)
theory Relay_Properties
  imports Relay_Acceptance Messages_Properties
begin

text \<open>
  Properties of the messages relay: the race loop, the queue of the delivery strategy, the limits of
  the selected batches, and the acceptance of these batches by the messages pallet.
\<close>

section \<open>The race loop\<close>

text \<open>
  C15: The loop of a message race never panics, whatever the two clients answer and in whatever order
  their futures complete: the \<open>expect\<close>s on known headers hold in every reachable state. Every client
  has exactly one request in flight or is idle, and a proof that is prepared or being submitted is
  never replaced by another one.
\<close>

theorem delivery_race_safe:
  assumes "race_reachable conn required_header_id (delivery_strategy_ops W) strategy v" and "race_event_enabled event v"
  shows "race_iteration conn required_header_id (delivery_strategy_ops W) event v \<noteq> None \<and> clients_ok v \<and> pipeline_ok v"
  using delivery.race_never_panics [OF assms] delivery.race_reachable_inv [OF assms(1)] by (simp add: race_inv_def)

section \<open>A sample relay\<close>

definition sample_details :: "(u64 \<times> u64, nat) message_details" where
  "sample_details = \<lparr>det_dispatch_weight = (10, 0), det_size = 1, det_reward = 0\<rparr>"

definition sample_queue :: "((nat, nat) header_id \<times> (u64 \<times> u64, nat) message_details_map) list" where
  "sample_queue = [(HeaderId 1 0, [(1, sample_details), (2, sample_details)])]"

definition sample_relay_for :: "nat inbound_lane_data \<Rightarrow> ((nat, nat) header_id \<times> (u64 \<times> u64, nat) message_details_map) list \<Rightarrow>
  (nat, nat, u64 \<times> u64, nat) message_delivery_strategy" where
  "sample_relay_for d q = \<lparr>mds_max_unrewarded_relayer_entries_at_target = 4, mds_max_unconfirmed_nonces_at_target = 8,
     mds_max_messages_in_single_batch = 4, mds_max_messages_weight_in_single_batch = (40, 0),
     mds_max_messages_size_in_single_batch = 4, mds_latest_confirmed_nonces_at_source = [],
     mds_target_nonces = Some \<lparr>tcn_latest_nonce = last_delivered_nonce d, tcn_nonces_data =
       \<lparr>drt_confirmed_nonce = last_confirmed_nonce d, drt_unrewarded_relayers = unrewarded_relayers_state_of (Some d)\<rparr>\<rparr>,
     mds_strategy = \<lparr>bs_source_queue = q, bs_best_target_nonce = Some (last_delivered_nonce d)\<rparr>\<rparr>"

definition sample_race_state :: "((nat, nat) header_id, nat, unit, unit) race_state" where
  "sample_race_state = race_state_default\<lparr>rst_best_finalized_source_header_id_at_best_target := Some (HeaderId 1 0)\<rparr>"

lemmas relay_eval =
  sample_details_def sample_queue_def sample_relay_for_def sample_race_state_def race_state_default_def
  delivery_select_nonces_to_deliver_def latest_confirmed_nonce_at_source_def iter_last_def iter_next_def
  max_nonces_to_deliver_def delivery_batch_reference_def decide_batch_def all_ready_nonces_def
  hard_selected_begin_nonce_def details_map_begin_def details_map_end_def available_source_queue_indices_def
  race_nonces_to_submit_def details_map_ops_def limit_by_weight_def limit_by_size_def dispatch_weight_for_range_def
  unrewarded_relayers_state_of_def total_unrewarded_messages_def checked_sub_def

lemma sample_selection:
  "delivery_select_nonces_to_deliver pair_weight_ops sample_race_state (sample_relay_for default_inbound_lane_data sample_queue) =
     Some ((1, 2), \<lparr>mpp_outbound_state_proof_required = False, mpp_dispatch_weight = (20, 0)\<rparr>)"
  by (simp add: relay_eval messages_eval)

definition sample_update :: "((nat, nat) header_id, nat) client_state" where
  "sample_update = \<lparr>cst_best_self = HeaderId 1 0, cst_best_finalized_self = HeaderId 1 0,
     cst_best_finalized_peer_at_best_self = Some 1, cst_actual_best_finalized_peer_at_best_self = Some 1\<rparr>"

theorem delivery_race_safe_witness:
  "race_iteration (\<lambda>_ :: unit. False) (\<lambda>_ :: unit. HeaderId 1 (0 :: nat))
     (delivery_strategy_ops pair_weight_ops :: ((nat, nat, u64 \<times> u64, nat) message_delivery_strategy, (nat, nat) header_id, nat, unit, unit,
       (u64 \<times> u64, nat) message_details_map, (u64 \<times> u64) message_proof_parameters, delivery_race_target_nonces_data) race_strategy)
     (SourceUpdated (Some sample_update) :: (unit, (nat, nat) header_id, nat, unit, unit, (u64 \<times> u64, nat) message_details_map,
       delivery_race_target_nonces_data, unit) race_event)
     (race_loop_start (sample_relay_for default_inbound_lane_data sample_queue)) \<noteq> None"
  by (rule delivery_race_safe [OF race_starts, THEN conjunct1]) simp

section \<open>The selected batch is accepted by the pallet\<close>



definition sample_lanes_vars :: "(nat, nat, unit, u64 \<times> u64, nat list) receive_lanes_vars" where
  "sample_lanes_vars = \<lparr>rl_state = empty_messages_state, rl_statuses = [], rl_total = 0, rl_valid = 0,
     rl_dispatch_weight_left = (20, 0), rl_actual_weight = (200, 200), rl_world = []\<rparr>"

definition sample_lane_messages :: "u8 list dispatch_message proved_lane_messages" where
  "sample_lane_messages = \<lparr>pm_lane_state = None,
     pm_messages = map (\<lambda>n. dispatch_message_from id (sample_message n)) [1, 2]\<rparr>"

lemma sample_queue_ok:
  "ranges_ok details_map_ops details_valid sample_queue" "queue_contiguous sample_queue"
  "1 \<in> available_nonces details_nonces 0 (HeaderId 1 0) sample_queue"
  by (auto simp: sample_queue_def ranges_ok_def details_valid_def btree_wf_def queue_contiguous_def queue_messages_def
      consecutive_nonces_def available_nonces_def ranges_nonces_def details_nonces_def)


definition crowded_lane :: "nat inbound_lane_data" where
  "crowded_lane = \<lparr>relayers = map (\<lambda>i. \<lparr>ur_relayer = i, ur_messages = \<lparr>dm_begin = of_nat i, dm_end = of_nat i\<rparr>\<rparr>) [1, 2, 3],
     last_confirmed_nonce = 0\<rparr>"

definition crowded_queue :: "((nat, nat) header_id \<times> (u64 \<times> u64, nat) message_details_map) list" where
  "crowded_queue = [(HeaderId 1 0, [(4, sample_details), (5, sample_details)])]"

definition crowded_vars :: "(nat, nat, unit, u64 \<times> u64, nat list) receive_lanes_vars" where
  "crowded_vars = sample_lanes_vars\<lparr>rl_state := empty_messages_state\<lparr>ms_inbound_lanes := [LaneId 0 0 0 1 \<mapsto> crowded_lane]\<rparr>\<rparr>"

lemmas crowded_eval = crowded_lane_def crowded_queue_def crowded_vars_def sample_lanes_vars_def

text \<open>
  The room in the set of relayers is needed. When the set has room for one entry only and its last
  entry is of another relayer, the strategy still selects a batch of two messages, but the lane takes
  the first one and rejects the second one: it checks the number of entries before it looks who
  delivers the message.
\<close>

lemma batch_cut_at_entries_limit:
  "delivery_select_nonces_to_deliver pair_weight_ops sample_race_state
     ((sample_relay_for crowded_lane crowded_queue)\<lparr>mds_latest_confirmed_nonces_at_source := [(HeaderId 1 0, 0)]\<rparr>) =
     Some ((4, 5), \<lparr>mpp_outbound_state_proof_required = False, mpp_dispatch_weight = (20, 0)\<rparr>) \<and>
   map snd (receive_results (last (rl_statuses (receive_lane_messages sample_messages_config 5 1
     (LaneId 0 0 0 1, \<lparr>pm_lane_state = None, pm_messages = map (\<lambda>n. dispatch_message_from id (sample_message n)) [4, 5]\<rparr>)
     crowded_vars)))) =
     [Dispatched \<lparr>unspent_weight = (0, 0), dispatch_level_result = ()\<rparr>, TooManyUnrewardedRelayers]"
  by (simp add: crowded_eval relay_eval messages_eval)

section \<open>Limits of a batch\<close>



section \<open>The queue of the delivery strategy\<close>

text \<open>
  The queue of the delivery strategy stays well formed: its entries are nonempty ordered maps, with
  increasing nonces and headers. New details of messages add exactly the nonces after the last known
  one, and finalized nonces of the target remove exactly the nonces up to the finalized one. Updates
  of the best nonces of the target do not change the queue.
\<close>

lemma delivery_queue_wellformed:
  fixes st :: "('hash, 'number::linorder, 'w, 'b) message_delivery_strategy"
    and rs :: "(('hash, 'number) header_id, 'th, 'proof, 'batch) race_state" and at_block :: "('hash, 'number) header_id"
  assumes ok: "ranges_ok details_map_ops details_valid (bs_source_queue (mds_strategy st))"
    and new: "details_valid (scn_new_nonces new)" "best_in_queue_or_target details_map_ops (mds_strategy st) \<noteq> - 1"
      "\<forall>(h, _) \<in> set (bs_source_queue (mds_strategy st)). hid_number h \<le> hid_number at_block"
    and finalized: "tcn_latest_nonce nonces \<noteq> - 1"
  defines "q \<equiv> bs_source_queue (mds_strategy st)"
  defines "q_new \<equiv> bs_source_queue (mds_strategy (delivery_source_nonces_updated at_block new st))"
  defines "q_best \<equiv> bs_source_queue (mds_strategy (fst (delivery_best_target_nonces_updated nonces rs st)))"
  defines "q_final \<equiv> bs_source_queue (mds_strategy (fst (delivery_finalized_target_nonces_updated nonces rs st)))"
  shows "ranges_ok details_map_ops details_valid q_new \<and> ranges_nonces details_nonces q_new =
      ranges_nonces details_nonces q \<union>
      {n \<in> details_nonces (scn_new_nonces new). best_in_queue_or_target details_map_ops (mds_strategy st) < n} \<and>
    q_best = q \<and>
    ranges_ok details_map_ops details_valid q_final \<and>
    ranges_nonces details_nonces q_final = {n \<in> ranges_nonces details_nonces q. tcn_latest_nonce nonces < n}"
proof -
  have "q_new = bs_source_queue (basic_source_nonces_updated details_map_ops at_block new (mds_strategy st))"
    by (simp add: q_new_def delivery_source_nonces_updated_def Let_def split: option.split)
  moreover have "q_best = q"
    by (simp add: q_best_def q_def delivery_best_target_nonces_updated_def basic_best_target_nonces_updated_def Let_def)
  moreover have "q_final = remove_le_nonces details_map_ops (tcn_latest_nonce nonces) q"
    by (simp add: q_final_def q_def delivery_finalized_target_nonces_updated_def basic_finalized_target_nonces_updated_def
        Let_def split: option.split)
  ultimately show ?thesis
    using details.source_nonces_updated_spec [OF ok new] details.remove_le_nonces_spec [OF ok finalized] by (simp add: q_def)
qed

lemma last_nonce_range:
  assumes "a \<le> b"
  shows "nonce_range a b \<noteq> [] \<and> hd (nonce_range a b) = a \<and> last (nonce_range a b) = b"
proof -
  let ?n = "length (nonce_range a b)"
  have n: "?n = Suc (unat b) - unat a" by (simp add: nonce_range_def del: upt_Suc)
  have le: "unat a \<le> unat b" using assms by (simp add: word_le_nat_alt)
  then have ne: "nonce_range a b \<noteq> []" using n by auto
  have "unat (hd (nonce_range a b)) = unat a" "unat (last (nonce_range a b)) = unat b"
    using nonce_range_nth [of 0 a b] nonce_range_nth [of "?n - 1" a b] ne n le by (simp_all add: hd_conv_nth last_conv_nth)
  then show ?thesis using ne by (simp add: word_unat_eq_iff)
qed

lemma last_queue_message:
  assumes "ranges_ok details_map_ops details_valid q" and "q \<noteq> []"
  shows "queue_messages q \<noteq> []" and "last (map fst (queue_messages q)) = details_map_end (snd (last q))"
proof -
  obtain q' h r where q: "q = q' @ [(h, r)]" using assms(2) by (cases q rule: rev_cases) auto
  have "r \<noteq> []" using assms(1) by (simp add: q details.ranges_ok_append details.ranges_ok_Cons details_valid_def)
  then show "queue_messages q \<noteq> []" "last (map fst (queue_messages q)) = details_map_end (snd (last q))"
    by (simp_all add: q queue_messages_def details_map_end_def last_map)
qed


definition sample_rpc :: "(unit, u64 \<times> u64) details_rpc" where
  "sample_rpc = \<lparr>dr_outbound_details = (\<lambda>(a, b). Inr (map (\<lambda>n. \<lparr>omd_nonce = n, omd_dispatch_weight = (0, 0), omd_size = 1\<rparr>) (nonce_range a b))),
     dr_message_payload = (\<lambda>_. Inr (Some [])), dr_inbound_details = (\<lambda>ms. Inr (map (\<lambda>_. (10, 0)) ms)),
     dr_encoded_size = length, dr_max_extrinsic_size = 1\<rparr>"

lemma sample_fetched:
  "generated_message_details sample_rpc 0 (3, 4) = Inr [(3, sample_details), (4, sample_details)]"
proof -
  have "nonce_range 3 4 = [3, 4]" by (simp add: nonce_range_def upt_rec)
  then show ?thesis
    by (simp add: generated_message_details_def sample_rpc_def validate_out_msgs_details_def split_msgs_to_refine_def
        split_msgs_to_refine_loop.simps split_next_batch.simps refine_batch_def sample_details_def)
qed


section \<open>The confirmations race\<close>

text \<open>
  The basic strategy selects exactly what can be delivered. When nothing is prepared or submitted,
  it selects a range that starts after the best nonce of the target and contains all queued nonces
  after it that have been seen at headers known to the target, and no other queued nonce. It selects
  nothing only when there is no such nonce. The confirmations race uses this strategy.
\<close>

lemma confirmations_selected_exactly:
  assumes "ranges_ok inclusive_range_ops inclusive_valid (bs_source_queue st)"
    and "bs_best_target_nonce st = Some t" and "t \<noteq> - 1"
    and "rst_best_finalized_source_header_id_at_best_target rs = Some best"
    and "rst_nonces_to_submit rs = None" and "rst_nonces_submitted rs = None"
  shows "case basic_select_nonces_to_deliver inclusive_range_ops rs st of
      None \<Rightarrow> available_nonces inclusive_nonces t best (bs_source_queue st) = {}
    | Some ((a, b), _) \<Rightarrow> t < a \<and> b \<in> available_nonces inclusive_nonces t best (bs_source_queue st) \<and>
        {n \<in> ranges_nonces inclusive_nonces (bs_source_queue st). a \<le> n \<and> n \<le> b} =
          available_nonces inclusive_nonces t best (bs_source_queue st)"
  using inclusive.basic_select_spec [OF assms] .

definition sample_confirmations :: "(nat, nat, nonces_range) basic_strategy" where
  "sample_confirmations = \<lparr>bs_source_queue = [(HeaderId 1 0, (1, 3)), (HeaderId 2 0, (4, 6))], bs_best_target_nonce = Some 2\<rparr>"

end
