(* ===== verification/Beefy_Pallet.thy ===== *)
theory Beefy_Pallet
  imports Bridge_Runtime Storage_Proof Ring_Import
begin

text \<open>
  The BEEFY pallet (\<open>modules/beefy/src/lib.rs\<close> and \<open>utils.rs\<close>) with its primitives
  (\<open>primitives/beefy/src/lib.rs\<close>): an on-chain light client that imports commitments signed by the
  BEEFY authorities of the bridged chain, together with a leaf of the Merkle mountain range that the
  commitment finalizes.

  Parameters of the configuration are the signature check and the encoding of the bridged chain, the
  Merkle root of a list of leaves (\<open>binary_merkle_tree\<close>), the hash of MMR leaves and the verification
  of MMR proofs (\<open>pallet_mmr\<close>). The records of commitments, validator sets and leaves have the fields
  of the types of \<open>sp_consensus_beefy\<close> that the pallet uses.
\<close>

section \<open>Types\<close>

record 'mhash beefy_authority_set_info =
  bas_id :: u64
  bas_len :: u32
  bas_root :: 'mhash

record 'id validator_set =
  vs_validators :: "'id list"
  vs_id :: u64

record ('number, 'payload) commitment =
  co_payload :: 'payload
  co_block_number :: 'number
  co_validator_set_id :: u64

record ('number, 'payload, 'sig) signed_commitment =
  sco_commitment :: "('number, 'payload) commitment"
  sco_signatures :: "'sig option list"

record ('number, 'hash, 'mhash, 'extra) beefy_mmr_leaf =
  ml_parent_number_and_hash :: "'number \<times> 'hash"
  ml_beefy_next_authority_set :: "'mhash beefy_authority_set_info"
  ml_leaf_extra :: 'extra

record ('number, 'mhash) beefy_initialization_data =
  bid_operating_mode :: basic_operating_mode
  bid_best_block_number :: 'number
  bid_authority_set :: "'mhash beefy_authority_set_info"

record ('number, 'hash, 'mhash) imported_commitment =
  ic_parent_number_and_hash :: "'number \<times> 'hash"
  ic_mmr_root :: 'mhash

record 'number imported_commitments_info_data =
  ici_best_block_number :: 'number
  ici_next_block_number_index :: u32

record ('o, 'acc, 'number, 'hash, 'mhash, 'id, 'sig, 'payload, 'extra, 'proof, 'w) beefy_config =
  "('o, 'acc) origin_config" +
  bc_weight_ops :: "'w weight_ops"
  bc_db_weight :: "'w db_weight"
  bc_max_requests :: u32
  bc_commitments_to_keep :: u32
  bc_authority_id_to_merkle_leaf :: "'id \<Rightarrow> bytes"
  bc_merkle_root :: "bytes list \<Rightarrow> 'mhash"
  bc_verify :: "'id \<Rightarrow> 'sig \<Rightarrow> bytes \<Rightarrow> bool"
  bc_commitment_encode :: "('number, 'payload) commitment \<Rightarrow> bytes"
  bc_get_decoded_mmr_root :: "'payload \<Rightarrow> 'mhash option"
  bc_leaf_encode :: "('number, 'hash, 'mhash, 'extra) beefy_mmr_leaf \<Rightarrow> bytes"
  bc_mmr_hash :: "bytes \<Rightarrow> 'mhash"
  bc_verify_mmr_leaves_proof :: "'mhash \<Rightarrow> 'mhash list \<Rightarrow> 'proof \<Rightarrow> bool"

datatype beefy_error =
    BeefyNotInitialized
  | BeefyAlreadyInitialized
  | InvalidInitialAuthoritySet
  | BeefyTooManyRequests
  | OldCommitment
  | InvalidCommitmentValidatorSetId
  | InvalidValidatorSetId
  | InvalidCommitmentSignaturesLen
  | InvalidValidatorSetLen
  | NotEnoughCorrectSignatures
  | MmrRootMissingFromCommitment
  | MmrProofVerificationFailed
  | InvalidValidatorSetRoot
  | BeefyBridgeModule owned_bridge_module_error

record ('acc, 'number, 'hash, 'mhash) beefy_state =
  bst_request_count :: u32
  bst_imported_commitments_info :: "'number imported_commitments_info_data option"
  bst_imported_block_numbers :: "u32 \<rightharpoonup> 'number"
  bst_imported_commitments :: "'number \<rightharpoonup> ('number, 'hash, 'mhash) imported_commitment"
  bst_current_authority_set_info :: "'mhash beefy_authority_set_info"
  bst_owner :: "'acc option"
  bst_operating_mode :: basic_operating_mode

section \<open>Verification of commitments (utils.rs)\<close>

definition get_authorities_mmr_root ::
  "('o, 'acc, 'number, 'hash, 'mhash, 'id, 'sig, 'payload, 'extra, 'proof, 'w) beefy_config \<Rightarrow> 'id list \<Rightarrow> 'mhash" where
  "get_authorities_mmr_root C authorities =
     (let merkle_leafs = map (bc_authority_id_to_merkle_leaf C) authorities in bc_merkle_root C merkle_leafs)"

definition verify_authority_set ::
  "('o, 'acc, 'number, 'hash, 'mhash, 'id, 'sig, 'payload, 'extra, 'proof, 'w) beefy_config \<Rightarrow>
     'mhash beefy_authority_set_info \<Rightarrow> 'id validator_set \<Rightarrow> beefy_error + unit" where
  "verify_authority_set C authority_set_info authority_set =
     (if vs_id authority_set \<noteq> bas_id authority_set_info then Inl InvalidValidatorSetId
      else if length (vs_validators authority_set) \<noteq> unat (bas_len authority_set_info) then Inl InvalidValidatorSetLen
      else let root = get_authorities_mmr_root C (vs_validators authority_set)
           in if root \<noteq> bas_root authority_set_info then Inl InvalidValidatorSetRoot else Inr ())"

text \<open>The type \<open>usize\<close> is a natural number; the saturating subtraction is the one of natural numbers.\<close>

definition signatures_required :: "nat \<Rightarrow> nat" where
  "signatures_required validators_len = validators_len - (validators_len - 1) div 3"

text \<open>The loop over pairs of an authority and its optional signature; it stops when no signature is missing.\<close>

fun count_signatures ::
  "('id \<Rightarrow> 'sig \<Rightarrow> bytes \<Rightarrow> bool) \<Rightarrow> bytes \<Rightarrow> ('id \<times> 'sig option) list \<Rightarrow> nat \<Rightarrow> nat" where
  "count_signatures verify msg [] missing_signatures = missing_signatures"
| "count_signatures verify msg ((authority, maybe_sig) # rest) missing_signatures =
     (case maybe_sig of
        Some sig \<Rightarrow>
          if verify authority sig msg
          then let missing_signatures = missing_signatures - 1
               in if missing_signatures = 0 then missing_signatures
                  else count_signatures verify msg rest missing_signatures
          else count_signatures verify msg rest missing_signatures
      | None \<Rightarrow> count_signatures verify msg rest missing_signatures)"

definition verify_signatures ::
  "('o, 'acc, 'number, 'hash, 'mhash, 'id, 'sig, 'payload, 'extra, 'proof, 'w) beefy_config \<Rightarrow>
     ('number, 'payload, 'sig) signed_commitment \<Rightarrow> 'id validator_set \<Rightarrow> beefy_error + unit" where
  "verify_signatures C commitment authority_set =
     (if length (sco_signatures commitment) \<noteq> length (vs_validators authority_set) then Inl InvalidCommitmentSignaturesLen
      else let msg = bc_commitment_encode C (sco_commitment commitment);
               missing_signatures = signatures_required (length (vs_validators authority_set));
               missing_signatures =
                 count_signatures (bc_verify C) msg (zip (vs_validators authority_set) (sco_signatures commitment))
                   missing_signatures
           in if missing_signatures \<noteq> 0 then Inl NotEnoughCorrectSignatures else Inr ())"

definition extract_mmr_root ::
  "('o, 'acc, 'number, 'hash, 'mhash, 'id, 'sig, 'payload, 'extra, 'proof, 'w) beefy_config \<Rightarrow>
     ('number, 'payload, 'sig) signed_commitment \<Rightarrow> beefy_error + 'mhash" where
  "extract_mmr_root C commitment =
     (case bc_get_decoded_mmr_root C (co_payload (sco_commitment commitment)) of
        Some mmr_root \<Rightarrow> Inr mmr_root
      | None \<Rightarrow> Inl MmrRootMissingFromCommitment)"

definition verify_commitment ::
  "('o, 'acc, 'number, 'hash, 'mhash, 'id, 'sig, 'payload, 'extra, 'proof, 'w) beefy_config \<Rightarrow>
     ('number, 'payload, 'sig) signed_commitment \<Rightarrow> 'mhash beefy_authority_set_info \<Rightarrow> 'id validator_set \<Rightarrow>
     beefy_error + 'mhash" where
  "verify_commitment C commitment authority_set_info authority_set =
     (if co_validator_set_id (sco_commitment commitment) \<noteq> bas_id authority_set_info
      then Inl InvalidCommitmentValidatorSetId
      else if length (sco_signatures commitment) \<noteq> unat (bas_len authority_set_info)
      then Inl InvalidCommitmentSignaturesLen
      else case verify_authority_set C authority_set_info authority_set of
             Inl e \<Rightarrow> Inl e
           | Inr _ \<Rightarrow>
               (case verify_signatures C commitment authority_set of
                  Inl e \<Rightarrow> Inl e
                | Inr _ \<Rightarrow> extract_mmr_root C commitment))"

definition verify_beefy_mmr_leaf ::
  "('o, 'acc, 'number, 'hash, 'mhash, 'id, 'sig, 'payload, 'extra, 'proof, 'w) beefy_config \<Rightarrow>
     ('number, 'hash, 'mhash, 'extra) beefy_mmr_leaf \<Rightarrow> 'proof \<Rightarrow> 'mhash \<Rightarrow> beefy_error + unit" where
  "verify_beefy_mmr_leaf C mmr_leaf mmr_proof mmr_root =
     (let mmr_leaf_hash = bc_mmr_hash C (bc_leaf_encode C mmr_leaf)
      in if bc_verify_mmr_leaves_proof C mmr_root [mmr_leaf_hash] mmr_proof then Inr ()
         else Inl MmrProofVerificationFailed)"

section \<open>Owner and operating mode\<close>

definition beefy_owned :: "(('acc, 'number, 'hash, 'mhash) beefy_state, 'acc, basic_operating_mode) owned_storage" where
  "beefy_owned = \<lparr>
     om_owner = bst_owner, om_put_owner = (\<lambda>x s. s\<lparr>bst_owner := x\<rparr>),
     om_mode = bst_operating_mode, om_put_mode = (\<lambda>m s. s\<lparr>bst_operating_mode := m\<rparr>),
     om_mode_halted = basic_is_halted\<rparr>"

lemma beefy_owned_simps [simp]:
  "om_owner beefy_owned = bst_owner" "om_put_owner beefy_owned = (\<lambda>x s. s\<lparr>bst_owner := x\<rparr>)"
  "om_mode beefy_owned = bst_operating_mode" "om_put_mode beefy_owned = (\<lambda>m s. s\<lparr>bst_operating_mode := m\<rparr>)"
  "om_mode_halted beefy_owned = basic_is_halted"
  by (simp_all add: beefy_owned_def)

interpretation beefy_module: owned_bridge_module beefy_owned
  by unfold_locales simp_all

definition beefy_set_owner ::
  "('o, 'acc, 'z) origin_config_scheme \<Rightarrow> 'o \<Rightarrow> 'acc option \<Rightarrow> ('acc, 'number, 'hash, 'mhash) beefy_state \<Rightarrow>
     beefy_error dispatch_error + ('acc, 'number, 'hash, 'mhash) beefy_state" where
  "beefy_set_owner C origin new_owner s = set_owner C beefy_owned origin new_owner s"

definition beefy_set_operating_mode ::
  "('o, 'acc, 'z) origin_config_scheme \<Rightarrow> 'o \<Rightarrow> basic_operating_mode \<Rightarrow> ('acc, 'number, 'hash, 'mhash) beefy_state \<Rightarrow>
     beefy_error dispatch_error + ('acc, 'number, 'hash, 'mhash) beefy_state" where
  "beefy_set_operating_mode C origin operating_mode s = set_operating_mode C beefy_owned origin operating_mode s"

section \<open>Calls and hooks\<close>

definition beefy_on_initialize ::
  "('o, 'acc, 'number, 'hash, 'mhash, 'id, 'sig, 'payload, 'extra, 'proof, 'w) beefy_config \<Rightarrow>
     ('acc, 'number, 'hash, 'mhash) beefy_state \<Rightarrow> 'w \<times> ('acc, 'number, 'hash, 'mhash) beefy_state" where
  "beefy_on_initialize C s =
     (w_saturating_add (bc_weight_ops C)
        (w_saturating_add (bc_weight_ops C) (w_from_parts (bc_weight_ops C) 0 0) (db_reads (bc_db_weight C) 1))
        (db_writes (bc_db_weight C) 1),
      s\<lparr>bst_request_count := saturating_sub (bst_request_count s) 1\<rparr>)"

definition beefy_initialize_bridge ::
  "('number, 'mhash) beefy_initialization_data \<Rightarrow> ('acc, 'number, 'hash, 'mhash) beefy_state \<Rightarrow>
     beefy_error + ('acc, 'number, 'hash, 'mhash) beefy_state" where
  "beefy_initialize_bridge init_data s =
     (if bas_len (bid_authority_set init_data) = 0 then Inl InvalidInitialAuthoritySet
      else let s = s\<lparr>bst_current_authority_set_info := bid_authority_set init_data\<rparr>;
               s = s\<lparr>bst_operating_mode := bid_operating_mode init_data\<rparr>
           in Inr (s\<lparr>bst_imported_commitments_info :=
                Some \<lparr>ici_best_block_number = bid_best_block_number init_data, ici_next_block_number_index = 0\<rparr>\<rparr>))"

definition beefy_initialize ::
  "('o, 'acc, 'z) origin_config_scheme \<Rightarrow> 'o \<Rightarrow> ('number, 'mhash) beefy_initialization_data \<Rightarrow>
     ('acc, 'number, 'hash, 'mhash) beefy_state \<Rightarrow>
     beefy_error dispatch_error + ('acc, 'number, 'hash, 'mhash) beefy_state" where
  "beefy_initialize C origin init_data s =
     (case ensure_owner_or_root C beefy_owned origin s of
        Inl e \<Rightarrow> Inl e
      | Inr _ \<Rightarrow>
          let is_initialized = (bst_imported_commitments_info s \<noteq> None)
          in if is_initialized then Inl (ModuleError BeefyAlreadyInitialized)
             else map_sum ModuleError id (beefy_initialize_bridge init_data s))"

text \<open>The last part of \<open>submit_commitment\<close>; \<open>(index + 1) % CommitmentsToKeep\<close> panics when nothing is kept.\<close>

definition import_commitment ::
  "('o, 'acc, 'number, 'hash, 'mhash, 'id, 'sig, 'payload, 'extra, 'proof, 'w) beefy_config \<Rightarrow>
     'number imported_commitments_info_data \<Rightarrow> 'number \<Rightarrow> ('number, 'hash, 'mhash) imported_commitment \<Rightarrow>
     ('acc, 'number, 'hash, 'mhash) beefy_state \<Rightarrow> ('acc, 'number, 'hash, 'mhash) beefy_state option" where
  "import_commitment C commitments_info block_number imported s =
     (let block_number_index = ici_next_block_number_index commitments_info;
          to_prune = bst_imported_block_numbers s block_number_index;
          s = s\<lparr>bst_imported_commitments := (bst_imported_commitments s)(block_number \<mapsto> imported)\<rparr>;
          s = s\<lparr>bst_imported_block_numbers := (bst_imported_block_numbers s)(block_number_index \<mapsto> block_number)\<rparr>
      in do {
           next_index \<leftarrow> checked_rem (block_number_index + 1) (bc_commitments_to_keep C);
           let s = s\<lparr>bst_imported_commitments_info :=
             Some \<lparr>ici_best_block_number = block_number, ici_next_block_number_index = next_index\<rparr>\<rparr>;
           Some (case to_prune of
                   Some old_block_number \<Rightarrow>
                     s\<lparr>bst_imported_commitments := (bst_imported_commitments s)(old_block_number := None)\<rparr>
                 | None \<Rightarrow> s)
         })"

text \<open>A panic is \<open>None\<close>.\<close>

definition submit_commitment ::
  "('o, 'acc, 'number::linorder, 'hash, 'mhash, 'id, 'sig, 'payload, 'extra, 'proof, 'w) beefy_config \<Rightarrow> 'o \<Rightarrow>
     ('number, 'payload, 'sig) signed_commitment \<Rightarrow> 'id validator_set \<Rightarrow> ('number, 'hash, 'mhash, 'extra) beefy_mmr_leaf \<Rightarrow>
     'proof \<Rightarrow> ('acc, 'number, 'hash, 'mhash) beefy_state \<Rightarrow>
     (beefy_error dispatch_error + ('acc, 'number, 'hash, 'mhash) beefy_state) option" where
  "submit_commitment C origin commitment validator_set mmr_leaf mmr_proof s =
     (case ensure_not_halted beefy_owned s of
        Inl e \<Rightarrow> Some (Inl (ModuleError (BeefyBridgeModule e)))
      | Inr _ \<Rightarrow>
      if ensure_signed C origin = None then Some (Inl BadOrigin)
      else if \<not> bst_request_count s < bc_max_requests C then Some (Inl (ModuleError BeefyTooManyRequests))
      else case bst_imported_commitments_info s of
        None \<Rightarrow> Some (Inl (ModuleError BeefyNotInitialized))
      | Some commitments_info \<Rightarrow>
      if \<not> co_block_number (sco_commitment commitment) > ici_best_block_number commitments_info
      then Some (Inl (ModuleError OldCommitment))
      else let current_authority_set_info = bst_current_authority_set_info s
      in case verify_commitment C commitment current_authority_set_info validator_set of
        Inl e \<Rightarrow> Some (Inl (ModuleError e))
      | Inr mmr_root \<Rightarrow>
      (case verify_beefy_mmr_leaf C mmr_leaf mmr_proof mmr_root of
        Inl e \<Rightarrow> Some (Inl (ModuleError e))
      | Inr _ \<Rightarrow>
          let s = s\<lparr>bst_request_count := bst_request_count s + 1\<rparr>;
              s = (if bas_id (ml_beefy_next_authority_set mmr_leaf) > bas_id current_authority_set_info
                   then s\<lparr>bst_current_authority_set_info := ml_beefy_next_authority_set mmr_leaf\<rparr> else s)
          in map_option Inr (import_commitment C commitments_info (co_block_number (sco_commitment commitment))
               \<lparr>ic_parent_number_and_hash = ml_parent_number_and_hash mmr_leaf, ic_mmr_root = mmr_root\<rparr> s)))"

definition beefy_genesis_build ::
  "'acc option \<Rightarrow> ('number, 'mhash) beefy_initialization_data option \<Rightarrow> ('acc, 'number, 'hash, 'mhash) beefy_state \<Rightarrow>
     ('acc, 'number, 'hash, 'mhash) beefy_state option" where
  "beefy_genesis_build owner init_data s =
     (let s = (case owner of Some owner \<Rightarrow> s\<lparr>bst_owner := Some owner\<rparr> | None \<Rightarrow> s)
      in case init_data of
           Some init_data \<Rightarrow> (case beefy_initialize_bridge init_data s of Inr s \<Rightarrow> Some s | Inl _ \<Rightarrow> None)
         | None \<Rightarrow> Some (s\<lparr>bst_operating_mode := Halted\<rparr>))"

text \<open>The storage before the genesis; a value that is not stored reads as the default of its type.\<close>

definition empty_beefy_state :: "'mhash \<Rightarrow> ('acc, 'number, 'hash, 'mhash) beefy_state" where
  "empty_beefy_state default_hash = \<lparr>
     bst_request_count = 0, bst_imported_commitments_info = None, bst_imported_block_numbers = Map.empty,
     bst_imported_commitments = Map.empty,
     bst_current_authority_set_info = \<lparr>bas_id = 0, bas_len = 0, bas_root = default_hash\<rparr>,
     bst_owner = None, bst_operating_mode = Normal\<rparr>"

end
