(* ===== verification/Beefy_Properties.thy ===== *)
theory Beefy_Properties
  imports Beefy_Pallet
begin

text \<open>
  Properties of the BEEFY pallet: what an accepted commitment proves, the chain of trust from the
  initial authority set to every stored commitment, and the invariant of the pallet's storage.
\<close>

section \<open>Signatures\<close>

text \<open>The positions of a commitment with a valid signature of the authority at that position.\<close>

definition valid_signature ::
  "('id \<Rightarrow> 'sig \<Rightarrow> bytes \<Rightarrow> bool) \<Rightarrow> bytes \<Rightarrow> 'id \<times> 'sig option \<Rightarrow> bool" where
  "valid_signature verify msg p \<longleftrightarrow> (case snd p of Some sig \<Rightarrow> verify (fst p) sig msg | None \<Rightarrow> False)"

lemma count_signatures_eq:
  "count_signatures verify msg ps missing = missing - length (filter (valid_signature verify msg) ps)"
  by (induction verify msg ps missing rule: count_signatures.induct)
    (auto simp: valid_signature_def Let_def split: option.splits)

definition signers ::
  "('o, 'acc, 'number, 'hash, 'mhash, 'id, 'sig, 'payload, 'extra, 'proof, 'w) beefy_config \<Rightarrow>
     ('number, 'payload, 'sig) signed_commitment \<Rightarrow> 'id validator_set \<Rightarrow> nat set" where
  "signers C commitment validators =
     {i. i < length (vs_validators validators) \<and> i < length (sco_signatures commitment) \<and>
        (\<exists>sig. sco_signatures commitment ! i = Some sig \<and>
           bc_verify C (vs_validators validators ! i) sig (bc_commitment_encode C (sco_commitment commitment)))}"

lemma signers_finite [simp]: "finite (signers C commitment validators)"
  by (rule finite_subset [of _ "{..<length (vs_validators validators)}"]) (auto simp: signers_def)

lemma card_signers:
  "card (signers C commitment validators) =
     length (filter (valid_signature (bc_verify C) (bc_commitment_encode C (sco_commitment commitment)))
       (zip (vs_validators validators) (sco_signatures commitment)))"
  unfolding length_filter_conv_card
  by (rule arg_cong [of _ _ card]) (auto simp: signers_def valid_signature_def split: option.splits)

lemma signatures_required_exact:
  assumes "0 < n"
  shows "2 * n < 3 * k \<longleftrightarrow> signatures_required n \<le> k"
  using assms unfolding signatures_required_def by linarith

lemma verify_signatures_iff:
  "verify_signatures C commitment validators = Inr () \<longleftrightarrow>
     length (sco_signatures commitment) = length (vs_validators validators) \<and>
     signatures_required (length (vs_validators validators)) \<le> card (signers C commitment validators)"
  by (simp add: verify_signatures_def count_signatures_eq card_signers Let_def)

text \<open>What a commitment signed by an authority set is.\<close>

definition signed_by ::
  "('o, 'acc, 'number, 'hash, 'mhash, 'id, 'sig, 'payload, 'extra, 'proof, 'w) beefy_config \<Rightarrow>
     'mhash beefy_authority_set_info \<Rightarrow> 'id validator_set \<Rightarrow> ('number, 'payload, 'sig) signed_commitment \<Rightarrow> bool" where
  "signed_by C A validators commitment \<longleftrightarrow>
     co_validator_set_id (sco_commitment commitment) = bas_id A \<and> vs_id validators = bas_id A \<and>
     length (vs_validators validators) = unat (bas_len A) \<and> length (sco_signatures commitment) = unat (bas_len A) \<and>
     get_authorities_mmr_root C (vs_validators validators) = bas_root A \<and>
     (bas_len A \<noteq> 0 \<longrightarrow> 2 * unat (bas_len A) < 3 * card (signers C commitment validators))"

lemma verify_commitment_iff:
  "verify_commitment C commitment A validators = Inr mmr_root \<longleftrightarrow>
     signed_by C A validators commitment \<and> bc_get_decoded_mmr_root C (co_payload (sco_commitment commitment)) = Some mmr_root"
proof -
  have sigs: "verify_signatures C commitment validators = Inr () \<longleftrightarrow>
      (bas_len A \<noteq> 0 \<longrightarrow> 2 * unat (bas_len A) < 3 * card (signers C commitment validators))"
    if "length (vs_validators validators) = unat (bas_len A)" "length (sco_signatures commitment) = unat (bas_len A)"
    using that signatures_required_exact [of "unat (bas_len A)" "card (signers C commitment validators)"]
    by (cases "bas_len A = 0") (auto simp: verify_signatures_iff signatures_required_def unat_gt_0)
  show ?thesis
    by (cases "verify_signatures C commitment validators")
      (use sigs in \<open>auto simp: verify_commitment_def verify_authority_set_def signed_by_def extract_mmr_root_def Let_def
        split: option.splits\<close>)
qed

section \<open>Accepted commitments\<close>

definition leaf_proved ::
  "('o, 'acc, 'number, 'hash, 'mhash, 'id, 'sig, 'payload, 'extra, 'proof, 'w) beefy_config \<Rightarrow>
     'mhash \<Rightarrow> ('number, 'hash, 'mhash, 'extra) beefy_mmr_leaf \<Rightarrow> 'proof \<Rightarrow> bool" where
  "leaf_proved C mmr_root leaf mmr_proof \<longleftrightarrow>
     bc_verify_mmr_leaves_proof C mmr_root [bc_mmr_hash C (bc_leaf_encode C leaf)] mmr_proof"

lemma verify_beefy_mmr_leaf_iff: "verify_beefy_mmr_leaf C leaf pf mmr_root = Inr () \<longleftrightarrow> leaf_proved C mmr_root leaf pf"
  by (simp add: verify_beefy_mmr_leaf_def leaf_proved_def Let_def)

text \<open>The state after a commitment has been accepted.\<close>

definition next_beefy_authority_set ::
  "('number, 'hash, 'mhash, 'extra) beefy_mmr_leaf \<Rightarrow> 'mhash beefy_authority_set_info \<Rightarrow> 'mhash beefy_authority_set_info" where
  "next_beefy_authority_set leaf A =
     (if bas_id A < bas_id (ml_beefy_next_authority_set leaf) then ml_beefy_next_authority_set leaf else A)"

lemma import_commitment_eq:
  "import_commitment C info n ic s =
     (if bc_commitments_to_keep C = 0 then None
      else Some (s\<lparr>
        bst_imported_commitments_info := Some \<lparr>ici_best_block_number = n,
          ici_next_block_number_index = (ici_next_block_number_index info + 1) mod bc_commitments_to_keep C\<rparr>,
        bst_imported_block_numbers := (bst_imported_block_numbers s)(ici_next_block_number_index info \<mapsto> n),
        bst_imported_commitments :=
          (case bst_imported_block_numbers s (ici_next_block_number_index info) of
             None \<Rightarrow> (bst_imported_commitments s)(n \<mapsto> ic)
           | Some old \<Rightarrow> ((bst_imported_commitments s)(n \<mapsto> ic))(old := None))\<rparr>))"
  by (simp add: import_commitment_def checked_rem_def Let_def split: option.split)

definition beefy_pointer :: "('acc, 'number, 'hash, 'mhash) beefy_state \<Rightarrow> u32" where
  "beefy_pointer s = (case bst_imported_commitments_info s of Some info \<Rightarrow> ici_next_block_number_index info | None \<Rightarrow> 0)"

interpretation beefy_ring: ring_import bc_commitments_to_keep beefy_pointer bst_imported_block_numbers
  bst_imported_commitments "\<lambda>C. fst" "\<lambda>C. snd"
  "\<lambda>C a s. import_commitment C \<lparr>ici_best_block_number = fst a, ici_next_block_number_index = beefy_pointer s\<rparr> (fst a) (snd a) s"
  by unfold_locales (auto simp: import_commitment_eq beefy_pointer_def split: if_splits option.splits)

lemma submit_commitment_Inr:
  assumes "submit_commitment C origin commitment validators leaf pf s = Some (Inr s')"
  obtains info mmr_root where "bst_imported_commitments_info s = Some info"
    and "ici_best_block_number info < co_block_number (sco_commitment commitment)"
    and "bst_request_count s < bc_max_requests C"
    and "signed_by C (bst_current_authority_set_info s) validators commitment"
    and "bc_get_decoded_mmr_root C (co_payload (sco_commitment commitment)) = Some mmr_root"
    and "leaf_proved C mmr_root leaf pf"
    and "import_commitment C info (co_block_number (sco_commitment commitment))
      \<lparr>ic_parent_number_and_hash = ml_parent_number_and_hash leaf, ic_mmr_root = mmr_root\<rparr>
      (s\<lparr>bst_request_count := bst_request_count s + 1,
         bst_current_authority_set_info := next_beefy_authority_set leaf (bst_current_authority_set_info s)\<rparr>) = Some s'"
proof -
  obtain info where info: "bst_imported_commitments_info s = Some info"
    using assms by (cases "bst_imported_commitments_info s") (auto simp: submit_commitment_def split: sum.splits if_splits)
  obtain mmr_root where root: "verify_commitment C commitment (bst_current_authority_set_info s) validators = Inr mmr_root"
    using assms info by (cases "verify_commitment C commitment (bst_current_authority_set_info s) validators")
      (auto simp: submit_commitment_def Let_def split: sum.splits if_splits)
  have eq: "(if bas_id (ml_beefy_next_authority_set leaf) > bas_id (bst_current_authority_set_info s)
       then (s\<lparr>bst_request_count := bst_request_count s + 1\<rparr>)\<lparr>bst_current_authority_set_info := ml_beefy_next_authority_set leaf\<rparr>
       else s\<lparr>bst_request_count := bst_request_count s + 1\<rparr>) =
     s\<lparr>bst_request_count := bst_request_count s + 1,
         bst_current_authority_set_info := next_beefy_authority_set leaf (bst_current_authority_set_info s)\<rparr>"
    by (simp add: next_beefy_authority_set_def)
  note signed = root [unfolded verify_commitment_iff]
  show thesis
    by (rule that [OF info _ _ signed [THEN conjunct1] signed [THEN conjunct2]])
      (use assms info root in \<open>auto simp: submit_commitment_def eq Let_def
        verify_beefy_mmr_leaf_iff [symmetric] split: sum.splits if_splits\<close>)
qed

section \<open>Reachable states\<close>

inductive beefy_step ::
  "('o, 'acc, 'number::linorder, 'hash, 'mhash, 'id, 'sig, 'payload, 'extra, 'proof, 'w) beefy_config \<Rightarrow>
     ('acc, 'number, 'hash, 'mhash) beefy_state \<Rightarrow> ('acc, 'number, 'hash, 'mhash) beefy_state \<Rightarrow> bool" for C where
  beefy_submits: "submit_commitment C origin commitment validators leaf pf s = Some (Inr s') \<Longrightarrow> beefy_step C s s'"
| beefy_initializes: "beefy_initialize C origin init_data s = Inr s' \<Longrightarrow> beefy_step C s s'"
| beefy_sets_owner: "beefy_set_owner C origin new_owner s = Inr s' \<Longrightarrow> beefy_step C s s'"
| beefy_sets_mode: "beefy_set_operating_mode C origin mode s = Inr s' \<Longrightarrow> beefy_step C s s'"
| beefy_new_block: "beefy_on_initialize C s = (w, s') \<Longrightarrow> beefy_step C s s'"

inductive beefy_reachable ::
  "('o, 'acc, 'number::linorder, 'hash, 'mhash, 'id, 'sig, 'payload, 'extra, 'proof, 'w) beefy_config \<Rightarrow>
     ('acc, 'number, 'hash, 'mhash) beefy_state \<Rightarrow> bool" for C where
  beefy_genesis: "beefy_genesis_build owner init_data (empty_beefy_state default_hash) = Some s \<Longrightarrow> beefy_reachable C s"
| beefy_continues: "beefy_reachable C s \<Longrightarrow> beefy_step C s s' \<Longrightarrow> beefy_reachable C s'"

fun beefy_numbers_ok :: "'number::linorder imported_commitments_info_data option \<Rightarrow> (u32 \<rightharpoonup> 'number) \<Rightarrow> ('number \<rightharpoonup> 'v) \<Rightarrow> bool" where
  "beefy_numbers_ok None numbers commitments \<longleftrightarrow> numbers = Map.empty"
| "beefy_numbers_ok (Some info) numbers commitments \<longleftrightarrow> (\<forall>n \<in> dom commitments. n \<le> ici_best_block_number info)"

definition beefy_inv ::
  "('o, 'acc, 'number::linorder, 'hash, 'mhash, 'id, 'sig, 'payload, 'extra, 'proof, 'w) beefy_config \<Rightarrow>
     ('acc, 'number, 'hash, 'mhash) beefy_state \<Rightarrow> bool" where
  "beefy_inv C s \<longleftrightarrow>
     bst_request_count s \<le> bc_max_requests C \<and>
     ring_ok (bc_commitments_to_keep C) (beefy_pointer s) (bst_imported_block_numbers s) (bst_imported_commitments s) \<and>
     beefy_numbers_ok (bst_imported_commitments_info s) (bst_imported_block_numbers s) (bst_imported_commitments s)"

lemma beefy_inv_empty: "beefy_inv C (empty_beefy_state default_hash)"
  by (simp add: beefy_inv_def empty_beefy_state_def beefy_pointer_def ring_ok_empty)

lemma beefy_inv_initialize_bridge:
  assumes "beefy_inv C s" and "bst_imported_commitments_info s = None" and "beefy_initialize_bridge init_data s = Inr s'"
  shows "beefy_inv C s'"
  using assms by (auto simp: beefy_inv_def beefy_initialize_bridge_def beefy_pointer_def ring_ok_def Let_def split: if_splits)

lemma beefy_inv_import:
  assumes inv: "beefy_inv C s" and info: "bst_imported_commitments_info s = Some info"
    and new: "ici_best_block_number info < n" and imp: "import_commitment C info n ic s = Some s'"
  shows "beefy_inv C s'" and "bst_imported_commitments s' n = Some ic"
proof -
  have ring: "ring_ok (bc_commitments_to_keep C) (beefy_pointer s) (bst_imported_block_numbers s) (bst_imported_commitments s)"
    and bound: "\<forall>m \<in> dom (bst_imported_commitments s). m \<le> ici_best_block_number info"
    and count: "bst_request_count s \<le> bc_max_requests C"
    using inv info by (simp_all add: beefy_inv_def)
  have fresh: "n \<notin> dom (bst_imported_commitments s)"
    using bound new by (meson linorder_not_le)
  have imp': "import_commitment C \<lparr>ici_best_block_number = fst (n, ic), ici_next_block_number_index = beefy_pointer s\<rparr>
      (fst (n, ic)) (snd (n, ic)) s = Some s'"
    using imp info by (simp add: import_commitment_eq beefy_pointer_def split: if_splits)
  note ring' = beefy_ring.import_ring_ok [OF ring imp']
  show "bst_imported_commitments s' n = Some ic" using ring'(2) fresh by simp
  have "\<forall>m \<in> dom (bst_imported_commitments s'). m \<le> n"
  proof -
    have "\<forall>m \<in> dom (bst_imported_commitments s). m \<le> n"
      using bound new by (meson less_imp_le order_trans)
    then show ?thesis using imp by (auto simp: import_commitment_eq split: if_splits option.splits)
  qed
  moreover have "bst_imported_commitments_info s' = Some \<lparr>ici_best_block_number = n,
      ici_next_block_number_index = (ici_next_block_number_index info + 1) mod bc_commitments_to_keep C\<rparr>"
    and "bst_request_count s' = bst_request_count s"
    using imp by (auto simp: import_commitment_eq split: if_splits)
  ultimately show "beefy_inv C s'" using ring'(1) fresh count by (simp add: beefy_inv_def)
qed

lemma beefy_inv_submit:
  assumes inv: "beefy_inv C s" and sub: "submit_commitment C origin commitment validators leaf pf s = Some (Inr s')"
  shows "beefy_inv C s'"
  using sub
proof (cases rule: submit_commitment_Inr)
  case (1 info mmr_root)
  let ?s = "s\<lparr>bst_request_count := bst_request_count s + 1,
    bst_current_authority_set_info := next_beefy_authority_set leaf (bst_current_authority_set_info s)\<rparr>"
  have "beefy_inv C ?s"
    using inv 1(3) by (simp add: beefy_inv_def beefy_pointer_def inc_le)
  moreover have "bst_imported_commitments_info ?s = Some info" using 1(1) by simp
  ultimately show ?thesis using beefy_inv_import(1) 1(2,7) by blast
qed

lemma beefy_inv_step:
  assumes "beefy_inv C s" and "beefy_step C s s'"
  shows "beefy_inv C s'"
  using assms(2,1)
proof (cases rule: beefy_step.cases)
  case (beefy_submits origin commitment validators leaf pf)
  then show ?thesis by (rule beefy_inv_submit [OF assms(1)])
next
  case (beefy_initializes origin init_data)
  then have "bst_imported_commitments_info s = None" and "beefy_initialize_bridge init_data s = Inr s'"
    by (cases "beefy_initialize_bridge init_data s";
        auto simp: beefy_initialize_def Let_def split: sum.splits if_splits)+
  then show ?thesis by (rule beefy_inv_initialize_bridge [OF assms(1)])
next
  case (beefy_sets_owner origin new_owner)
  then show ?thesis using assms(1)
    by (auto simp: beefy_set_owner_def beefy_module.set_owner_eq beefy_inv_def beefy_pointer_def split: if_splits)
next
  case (beefy_sets_mode origin mode)
  then show ?thesis using assms(1)
    by (auto simp: beefy_set_operating_mode_def beefy_module.set_operating_mode_eq beefy_inv_def beefy_pointer_def split: if_splits)
next
  case (beefy_new_block w)
  then show ?thesis using assms(1) saturating_sub_le [of "bst_request_count s" 1]
    by (auto simp: beefy_on_initialize_def beefy_inv_def beefy_pointer_def simp del: saturating_sub_le intro: order_trans)
qed

lemma beefy_reachable_inv: "beefy_reachable C s \<Longrightarrow> beefy_inv C s"
proof (induction rule: beefy_reachable.induct)
  case (beefy_genesis owner init_data default_hash s)
  let ?s = "case owner of Some owner \<Rightarrow> (empty_beefy_state default_hash)\<lparr>bst_owner := Some owner\<rparr> | None \<Rightarrow> empty_beefy_state default_hash"
  have empty: "beefy_inv C ?s" "bst_imported_commitments_info ?s = None"
    using beefy_inv_empty [of C default_hash]
    by (simp_all add: beefy_inv_def beefy_pointer_def empty_beefy_state_def split: option.split)
  show ?case
  proof (cases init_data)
    case None
    then have "s = ?s\<lparr>bst_operating_mode := Halted\<rparr>"
      using beefy_genesis by (simp add: beefy_genesis_build_def Let_def)
    then show ?thesis using empty(1) by (simp add: beefy_inv_def beefy_pointer_def)
  next
    case (Some d)
    then have "beefy_initialize_bridge d ?s = Inr s"
      using beefy_genesis by (auto simp: beefy_genesis_build_def Let_def split: sum.splits)
    then show ?thesis by (rule beefy_inv_initialize_bridge [OF empty])
  qed
qed (rule beefy_inv_step)

section \<open>The chain of trust\<close>

text \<open>
  The authority sets that descend from an initial one: a trusted set signs a commitment, the
  commitment carries the root of the Merkle mountain range, and a leaf of that range names the next
  set, with a higher identifier.
\<close>

inductive trusted_authority_set ::
  "('o, 'acc, 'number, 'hash, 'mhash, 'id, 'sig, 'payload, 'extra, 'proof, 'w) beefy_config \<Rightarrow>
     'mhash beefy_authority_set_info \<Rightarrow> 'mhash beefy_authority_set_info \<Rightarrow> bool" for C A0 where
  trusted_initial: "trusted_authority_set C A0 A0"
| trusted_handover: "trusted_authority_set C A0 A \<Longrightarrow> signed_by C A validators commitment \<Longrightarrow>
     bc_get_decoded_mmr_root C (co_payload (sco_commitment commitment)) = Some mmr_root \<Longrightarrow>
     leaf_proved C mmr_root leaf pf \<Longrightarrow> bas_id A < bas_id (ml_beefy_next_authority_set leaf) \<Longrightarrow>
     trusted_authority_set C A0 (ml_beefy_next_authority_set leaf)"

definition trusted_commitment ::
  "('o, 'acc, 'number, 'hash, 'mhash, 'id, 'sig, 'payload, 'extra, 'proof, 'w) beefy_config \<Rightarrow>
     'mhash beefy_authority_set_info \<Rightarrow> 'number \<Rightarrow> ('number, 'hash, 'mhash) imported_commitment \<Rightarrow> bool" where
  "trusted_commitment C A0 n ic \<longleftrightarrow>
     (\<exists>A validators commitment leaf pf. trusted_authority_set C A0 A \<and> signed_by C A validators commitment \<and>
        co_block_number (sco_commitment commitment) = n \<and>
        bc_get_decoded_mmr_root C (co_payload (sco_commitment commitment)) = Some (ic_mmr_root ic) \<and>
        leaf_proved C (ic_mmr_root ic) leaf pf \<and> ic_parent_number_and_hash ic = ml_parent_number_and_hash leaf)"

definition beefy_trust ::
  "('o, 'acc, 'number, 'hash, 'mhash, 'id, 'sig, 'payload, 'extra, 'proof, 'w) beefy_config \<Rightarrow>
     'mhash beefy_authority_set_info \<Rightarrow> ('acc, 'number, 'hash, 'mhash) beefy_state \<Rightarrow> bool" where
  "beefy_trust C A0 s \<longleftrightarrow>
     bst_imported_commitments_info s \<noteq> None \<and> trusted_authority_set C A0 (bst_current_authority_set_info s) \<and>
     (\<forall>n ic. bst_imported_commitments s n = Some ic \<longrightarrow> trusted_commitment C A0 n ic)"

lemma beefy_trust_submit:
  assumes trust: "beefy_trust C A0 s" and sub: "submit_commitment C origin commitment validators leaf pf s = Some (Inr s')"
  shows "beefy_trust C A0 s'"
  using sub
proof (cases rule: submit_commitment_Inr)
  case (1 info mmr_root)
  have A: "trusted_authority_set C A0 (bst_current_authority_set_info s)"
    and old: "\<forall>n ic. bst_imported_commitments s n = Some ic \<longrightarrow> trusted_commitment C A0 n ic"
    using trust by (simp_all add: beefy_trust_def)
  have new: "trusted_commitment C A0 (co_block_number (sco_commitment commitment))
      \<lparr>ic_parent_number_and_hash = ml_parent_number_and_hash leaf, ic_mmr_root = mmr_root\<rparr>"
    unfolding trusted_commitment_def using A 1(4-6)
    by (intro exI [of _ "bst_current_authority_set_info s"] exI [of _ validators] exI [of _ commitment] exI [of _ leaf]
        exI [of _ pf]) simp
  have "trusted_authority_set C A0 (next_beefy_authority_set leaf (bst_current_authority_set_info s))"
    using A trusted_handover [OF A 1(4-6)] by (simp add: next_beefy_authority_set_def)
  then show ?thesis
    using 1(7) old new by (auto simp: import_commitment_eq beefy_trust_def split: if_splits option.splits)
qed

lemma beefy_trust_step:
  assumes "beefy_trust C A0 s" and "beefy_step C s s'"
  shows "beefy_trust C A0 s'"
  using assms(2,1)
proof (cases rule: beefy_step.cases)
  case (beefy_submits origin commitment validators leaf pf)
  then show ?thesis by (rule beefy_trust_submit [OF assms(1)])
qed (auto simp: beefy_trust_def beefy_initialize_def Let_def beefy_set_owner_def beefy_module.set_owner_eq
    beefy_set_operating_mode_def beefy_module.set_operating_mode_eq beefy_on_initialize_def split: sum.splits if_splits)

inductive beefy_run ::
  "('o, 'acc, 'number::linorder, 'hash, 'mhash, 'id, 'sig, 'payload, 'extra, 'proof, 'w) beefy_config \<Rightarrow>
     ('number, 'mhash) beefy_initialization_data \<Rightarrow> ('acc, 'number, 'hash, 'mhash) beefy_state \<Rightarrow> bool" for C d where
  beefy_run_start: "beefy_reachable C s \<Longrightarrow> beefy_initialize C origin d s = Inr s' \<Longrightarrow> beefy_run C d s'"
| beefy_run_genesis: "beefy_genesis_build owner (Some d) (empty_beefy_state default_hash) = Some s \<Longrightarrow> beefy_run C d s"
| beefy_run_step: "beefy_run C d s \<Longrightarrow> beefy_step C s s' \<Longrightarrow> beefy_run C d s'"

lemma beefy_trust_initialize_bridge:
  assumes "beefy_inv C s" and "bst_imported_commitments_info s = None" and "beefy_initialize_bridge d s = Inr s'"
  shows "beefy_trust C (bid_authority_set d) s'"
  using assms
  by (auto simp: beefy_initialize_bridge_def beefy_inv_def beefy_trust_def ring_ok_def Let_def split: if_splits
      intro: trusted_initial)

lemma beefy_run_trust: "beefy_run C d s \<Longrightarrow> beefy_trust C (bid_authority_set d) s"
proof (induction rule: beefy_run.induct)
  case (beefy_run_start s origin s')
  then have "bst_imported_commitments_info s = None" and "beefy_initialize_bridge d s = Inr s'"
    by (cases "beefy_initialize_bridge d s"; auto simp: beefy_initialize_def Let_def split: sum.splits if_splits)+
  then show ?case by (rule beefy_trust_initialize_bridge [OF beefy_reachable_inv [OF beefy_run_start(1)]])
next
  case (beefy_run_genesis owner default_hash s)
  let ?s = "case owner of Some owner \<Rightarrow> (empty_beefy_state default_hash)\<lparr>bst_owner := Some owner\<rparr> | None \<Rightarrow> empty_beefy_state default_hash"
  have "beefy_inv C ?s" "bst_imported_commitments_info ?s = None"
    using beefy_inv_empty [of C default_hash]
    by (simp_all add: beefy_inv_def beefy_pointer_def empty_beefy_state_def split: option.split)
  moreover have "beefy_initialize_bridge d ?s = Inr s"
    using beefy_run_genesis by (auto simp: beefy_genesis_build_def Let_def split: sum.splits)
  ultimately show ?case by (rule beefy_trust_initialize_bridge)
qed (rule beefy_trust_step)

section \<open>A sample chain\<close>

text \<open>
  Three authorities that sign by naming themselves and the message; hashes are the hashed data, a
  mountain range has one leaf, and its root is the hash of that leaf.
\<close>

definition sample_beefy_config ::
  "(unit, nat, nat, nat, u8 list list, u8, u8 \<times> u8 list, u8 list list option, unit, unit, u64 \<times> u64) beefy_config" where
  "sample_beefy_config = \<lparr>
     origin_into = (\<lambda>_. Some Root), ensure_signed = (\<lambda>_. Some 0),
     bc_weight_ops = pair_weight_ops,
     bc_db_weight = \<lparr>db_reads = (\<lambda>n. (n, 0)), db_writes = (\<lambda>n. (n, 0)), db_reads_writes = (\<lambda>r w. (r + w, 0))\<rparr>,
     bc_max_requests = 4, bc_commitments_to_keep = 2,
     bc_authority_id_to_merkle_leaf = (\<lambda>authority. [authority]), bc_merkle_root = (\<lambda>leafs. leafs),
     bc_verify = (\<lambda>authority sig msg. sig = (authority, msg)),
     bc_commitment_encode = (\<lambda>c. [of_nat (co_block_number c)]), bc_get_decoded_mmr_root = (\<lambda>payload. payload),
     bc_leaf_encode = (\<lambda>leaf. [of_nat (fst (ml_parent_number_and_hash leaf)), of_nat (snd (ml_parent_number_and_hash leaf))]),
     bc_mmr_hash = (\<lambda>data. [data]), bc_verify_mmr_leaves_proof = (\<lambda>root leaves _. leaves = [root])\<rparr>"

definition sample_beefy_authorities :: "u8 list list beefy_authority_set_info" where
  "sample_beefy_authorities = \<lparr>bas_id = 0, bas_len = 3, bas_root = [[1], [2], [3]]\<rparr>"

definition sample_beefy_init :: "(nat, u8 list list) beefy_initialization_data" where
  "sample_beefy_init = \<lparr>bid_operating_mode = Normal, bid_best_block_number = 0, bid_authority_set = sample_beefy_authorities\<rparr>"

definition sample_beefy_commitment :: "(nat, u8 list list option, u8 \<times> u8 list) signed_commitment" where
  "sample_beefy_commitment = \<lparr>
     sco_commitment = \<lparr>co_payload = Some [[4, 7]], co_block_number = 5, co_validator_set_id = 0\<rparr>,
     sco_signatures = [Some (1, [5]), Some (2, [5]), Some (3, [5])]\<rparr>"

definition sample_beefy_leaf :: "(nat, nat, u8 list list, unit) beefy_mmr_leaf" where
  "sample_beefy_leaf = \<lparr>ml_parent_number_and_hash = (4, 7),
     ml_beefy_next_authority_set = \<lparr>bas_id = 1, bas_len = 3, bas_root = [[1], [2], [4]]\<rparr>, ml_leaf_extra = ()\<rparr>"

definition sample_beefy_start :: "(nat, nat, nat, u8 list list) beefy_state" where
  "sample_beefy_start = (empty_beefy_state [])\<lparr>bst_current_authority_set_info := sample_beefy_authorities,
     bst_imported_commitments_info := Some \<lparr>ici_best_block_number = 0, ici_next_block_number_index = 0\<rparr>\<rparr>"

definition sample_beefy_imported :: "(nat, nat, nat, u8 list list) beefy_state" where
  "sample_beefy_imported = sample_beefy_start\<lparr>bst_request_count := 1,
     bst_current_authority_set_info := ml_beefy_next_authority_set sample_beefy_leaf,
     bst_imported_commitments_info := Some \<lparr>ici_best_block_number = 5, ici_next_block_number_index = 1\<rparr>,
     bst_imported_block_numbers := [0 \<mapsto> 5],
     bst_imported_commitments := [5 \<mapsto> \<lparr>ic_parent_number_and_hash = (4, 7), ic_mmr_root = [[4, 7]]\<rparr>]\<rparr>"

lemmas beefy_eval = sample_beefy_config_def sample_beefy_authorities_def sample_beefy_init_def sample_beefy_commitment_def
  sample_beefy_leaf_def sample_beefy_start_def sample_beefy_imported_def empty_beefy_state_def

lemma sample_beefy_genesis:
  "beefy_genesis_build None (Some sample_beefy_init) (empty_beefy_state []) = Some sample_beefy_start"
  by (simp add: beefy_genesis_build_def beefy_initialize_bridge_def beefy_eval)

definition sample_validators :: "u8 validator_set" where
  "sample_validators = \<lparr>vs_validators = [1, 2, 3], vs_id = 0\<rparr>"

lemma sample_beefy_submit:
  "submit_commitment sample_beefy_config () sample_beefy_commitment sample_validators sample_beefy_leaf ()
     sample_beefy_start = Some (Inr sample_beefy_imported)"
  by (simp add: submit_commitment_def ensure_not_halted_def is_halted_def basic_is_halted_def verify_commitment_def
      verify_authority_set_def get_authorities_mmr_root_def verify_signatures_def signatures_required_def extract_mmr_root_def
      verify_beefy_mmr_leaf_def import_commitment_eq sample_validators_def beefy_eval)

lemma sample_beefy_run: "beefy_run sample_beefy_config sample_beefy_init sample_beefy_imported"
  by (rule beefy_run_step [OF beefy_run_genesis [OF sample_beefy_genesis] beefy_submits [OF sample_beefy_submit]])

lemma sample_beefy_reachable: "beefy_reachable sample_beefy_config sample_beefy_imported"
  by (rule beefy_continues [OF beefy_genesis [OF sample_beefy_genesis] beefy_submits [OF sample_beefy_submit]])

section \<open>Properties\<close>



text \<open>
  C25: in every reachable state the BEEFY pallet stores at most \<open>CommitmentsToKeep\<close> commitments,
  exactly those of its ring buffer of block numbers, none of them for a block above the best one, and
  the request counter never exceeds \<open>MaxRequests\<close>. An accepted commitment is stored under its block
  number, which becomes the best one.
\<close>

theorem beefy_reachable_invariant:
  assumes "beefy_reachable C s"
  shows "beefy_inv C s \<and> card (dom (bst_imported_commitments s)) \<le> unat (bc_commitments_to_keep C) \<and>
    (\<forall>origin commitment validators leaf pf s'.
       submit_commitment C origin commitment validators leaf pf s = Some (Inr s') \<longrightarrow>
       map_option ici_best_block_number (bst_imported_commitments_info s') = Some (co_block_number (sco_commitment commitment)) \<and>
       map_option ic_parent_number_and_hash (bst_imported_commitments s' (co_block_number (sco_commitment commitment))) =
         Some (ml_parent_number_and_hash leaf))"
proof -
  have inv: "beefy_inv C s" by (rule beefy_reachable_inv [OF assms])
  then have "card (dom (bst_imported_commitments s)) \<le> unat (bc_commitments_to_keep C)"
    unfolding beefy_inv_def by (blast intro: ring_ok_bound(2))
  moreover have "map_option ici_best_block_number (bst_imported_commitments_info s') = Some (co_block_number (sco_commitment commitment)) \<and>
       map_option ic_parent_number_and_hash (bst_imported_commitments s' (co_block_number (sco_commitment commitment))) =
         Some (ml_parent_number_and_hash leaf)"
    if "submit_commitment C origin commitment validators leaf pf s = Some (Inr s')" for origin commitment validators leaf pf s'
    using that
  proof (cases rule: submit_commitment_Inr)
    case (1 info mmr_root)
    let ?s = "s\<lparr>bst_request_count := bst_request_count s + 1,
      bst_current_authority_set_info := next_beefy_authority_set leaf (bst_current_authority_set_info s)\<rparr>"
    have "beefy_inv C ?s" using inv 1(3) by (simp add: beefy_inv_def beefy_pointer_def inc_le)
    from beefy_inv_import(2) [OF this _ 1(2,7)] 1(1,7) show ?thesis
      by (auto simp: import_commitment_eq split: if_splits)
  qed
  ultimately show ?thesis using inv by blast
qed

theorem beefy_reachable_invariant_witness:
  "beefy_inv sample_beefy_config sample_beefy_imported \<and> card (dom (bst_imported_commitments sample_beefy_imported)) \<le> 2"
  using beefy_reachable_invariant [OF sample_beefy_reachable] by (simp add: sample_beefy_config_def)



end
