(* ===== verification/Session_Manager.thy ===== *)
theory Session_Manager
  imports Rust_Prelude
begin

text \<open>
  The session manager of the test chains (\<open>modules/shift-session-manager/src/lib.rs\<close>): it remembers
  the validators of the first sessions and selects two thirds of them for every later session, by a
  window that moves with the index of the session. The session pallet of Substrate is a parameter:
  the function reads its current validators.
\<close>

section \<open>Operations\<close>

text \<open>Indexing a slice by a range panics when the range is not inside the slice.\<close>

definition slice_index :: "'a list \<Rightarrow> nat \<Rightarrow> nat \<Rightarrow> 'a list option" where
  "slice_index xs a b = (if a \<le> b \<and> b \<le> length xs then Some (take (b - a) (drop a xs)) else None)"

record 'v session_manager =
  sm_initial_validators :: "'v list option"

text \<open>
  The remainder panics when there are no validators. \<open>overflowing_sub\<close> does not overflow and is not
  zero exactly when the end of the window is behind the last validator.
\<close>

definition select_validators :: "u32 \<Rightarrow> 'v list \<Rightarrow> 'v list option" where
  "select_validators session_index available_validators =
     (let available_validators_count = length available_validators;
          count = max 1 (2 * available_validators_count div 3)
      in if available_validators_count = 0 then None
      else
      let offset = unat session_index mod available_validators_count;
          end_index = offset + count
      in if end_index > available_validators_count
         then do {
           tail \<leftarrow> slice_index available_validators offset available_validators_count;
           wrapped \<leftarrow> slice_index available_validators 0 (end_index - available_validators_count);
           Some (tail @ wrapped)
         }
         else slice_index available_validators offset end_index)"

definition new_session ::
  "'v list \<Rightarrow> u32 \<Rightarrow> 'v session_manager \<Rightarrow> ('v list option \<times> 'v session_manager) option" where
  "new_session session_validators session_index s =
     (if session_index = 0 \<or> session_index = 1 then Some (None, s)
      else
      let (available_validators, s) =
            (case sm_initial_validators s of
               Some validators \<Rightarrow> (validators, s)
             | None \<Rightarrow> (session_validators, s\<lparr>sm_initial_validators := Some session_validators\<rparr>))
      in do {
           selected \<leftarrow> select_validators session_index available_validators;
           Some (Some selected, s)
         })"

section \<open>The window\<close>

definition window_size :: "nat \<Rightarrow> nat" where
  "window_size n = max 1 (2 * n div 3)"

lemma window_size_le: "0 < n \<Longrightarrow> window_size n \<le> n"
  by (auto simp: window_size_def)

lemma window_wraps:
  assumes "off \<le> length xs" and "length xs < off + k" and "k \<le> length xs"
  shows "drop off xs @ take (off + k - length xs) xs = map (\<lambda>i. xs ! ((off + i) mod length xs)) [0..<k]"
proof (rule nth_equalityI)
  show "length (drop off xs @ take (off + k - length xs) xs) = length (map (\<lambda>i. xs ! ((off + i) mod length xs)) [0..<k])"
    using assms by simp
  fix i assume "i < length (drop off xs @ take (off + k - length xs) xs)"
  then have i: "i < k" using assms by simp
  show "(drop off xs @ take (off + k - length xs) xs) ! i = map (\<lambda>i. xs ! ((off + i) mod length xs)) [0..<k] ! i"
  proof (cases "off + i < length xs")
    case True
    then show ?thesis using i by (simp add: nth_append less_diff_conv add.commute)
  next
    case False
    then have "(off + i) mod length xs = off + i - length xs" using i assms by (simp add: mod_if)
    moreover have "\<not> i < length xs - off" "i - (length xs - off) = off + i - length xs"
      using False assms(1) by linarith+
    ultimately show ?thesis using i assms by (simp add: nth_append)
  qed
qed

lemma window_inside:
  assumes "off + k \<le> length xs"
  shows "take k (drop off xs) = map (\<lambda>i. xs ! ((off + i) mod length xs)) [0..<k]"
  by (rule nth_equalityI) (use assms in auto)

text \<open>The selected validators are a cyclic window of the available ones.\<close>

lemma select_validators_window:
  assumes "xs \<noteq> []"
  shows "select_validators session_index xs =
    Some (map (\<lambda>i. xs ! ((unat session_index + i) mod length xs)) [0..<window_size (length xs)])"
proof -
  let ?n = "length xs" and ?o = "unat session_index mod length xs" and ?k = "window_size (length xs)"
  have n: "0 < ?n" and off: "?o < ?n" and k: "?k \<le> ?n" using assms by (simp_all add: window_size_le)
  have win: "map (\<lambda>i. xs ! ((?o + i) mod ?n)) [0..<?k] = map (\<lambda>i. xs ! ((unat session_index + i) mod ?n)) [0..<?k]"
    by (simp add: mod_add_left_eq)
  show ?thesis
  proof (cases "?n < ?o + ?k")
    case True
    have "?o + ?k - ?n \<le> ?n" using off k by linarith
    with True have "select_validators session_index xs = Some (drop ?o xs @ take (?o + ?k - ?n) xs)"
      unfolding select_validators_def window_size_def [symmetric] Let_def using n off k by (simp add: slice_index_def)
    then show ?thesis using window_wraps [of ?o xs ?k] True off k win by simp
  next
    case False
    then have "select_validators session_index xs = Some (take ?k (drop ?o xs))"
      unfolding select_validators_def window_size_def [symmetric] Let_def using n off k by (simp add: slice_index_def)
    then show ?thesis using window_inside [of ?o ?k xs] False win by simp
  qed
qed

lemma select_validators_empty: "select_validators session_index [] = None"
  by (simp add: select_validators_def)

section \<open>Every validator is selected equally often\<close>

lemma card_residues:
  fixes c :: int
  assumes "k \<le> n" and "0 < n"
  shows "card {m. m < n \<and> nat ((c - int m) mod int n) < k} = k"
proof -
  let ?f = "\<lambda>m. nat ((c - int m) mod int n)"
  have inj: "inj_on ?f {..<n}"
  proof (rule inj_onI)
    fix i j assume ij: "i \<in> {..<n}" "j \<in> {..<n}" and eq: "?f i = ?f j"
    have nonneg: "0 \<le> (c - int m) mod int n" for m using assms(2) by (intro pos_mod_sign) linarith
    have "(c - int i) mod int n = (c - int j) mod int n"
      using eq by (rule eq_nat_nat_iff [OF nonneg nonneg, THEN iffD1])
    then have dvd: "int n dvd int j - int i" by (simp only: mod_eq_dvd_iff diff_diff_eq2 diff_add_cancel) simp
    show "i = j"
    proof (rule ccontr)
      assume "i \<noteq> j"
      then have "int n \<le> \<bar>int j - int i\<bar>" using dvd_imp_le_int [OF _ dvd] by fastforce
      then show False using ij by simp
    qed
  qed
  have lt: "?f m < n" for m using assms(2) by (simp add: nat_less_iff)
  have img: "?f ` {..<n} = {..<n}"
  proof (rule card_subset_eq)
    show "?f ` {..<n} \<subseteq> {..<n}" using lt by (intro image_subsetI) (simp only: lessThan_iff)
    show "card (?f ` {..<n}) = card {..<n}" by (rule card_image [OF inj])
  qed simp
  have "?f ` {m. m < n \<and> ?f m < k} = {..<k}"
  proof (intro equalityI subsetI)
    fix x assume x: "x \<in> {..<k}"
    then have "x \<in> ?f ` {..<n}" unfolding img using assms(1) by simp
    then obtain m where m: "m < n" "x = ?f m" by (elim imageE) (simp only: lessThan_iff)
    show "x \<in> ?f ` {m. m < n \<and> ?f m < k}"
    proof (rule image_eqI [OF _ CollectI])
      show "x = ?f m" by (rule m(2))
      show "m < n \<and> ?f m < k" using x m by (simp only: lessThan_iff)
    qed
  qed (elim imageE, simp only: lessThan_iff mem_Collect_eq)
  moreover have "inj_on ?f {m. m < n \<and> ?f m < k}"
    by (rule inj_on_subset [OF inj]) (simp add: subset_iff)
  ultimately show ?thesis by (simp only: card_image [symmetric] card_lessThan)
qed

lemma window_member:
  assumes "distinct xs" and "j < length xs" and "k \<le> length xs"
  shows "xs ! j \<in> set (map (\<lambda>i. xs ! ((t + i) mod length xs)) [0..<k]) \<longleftrightarrow> nat ((int j - int t) mod int (length xs)) < k"
proof -
  let ?n = "length xs"
  have n: "0 < ?n" using assms(2) by linarith
  have eq: "(t + i) mod ?n = j \<longleftrightarrow> i = nat ((int j - int t) mod int ?n)" if "i < ?n" for i
  proof -
    have "(t + i) mod ?n = j \<longleftrightarrow> (int t + int i) mod int ?n = int j"
      by (metis of_nat_add of_nat_eq_iff of_nat_mod)
    also have "\<dots> \<longleftrightarrow> (int t + int i) mod int ?n = int j mod int ?n" using assms(2) by simp
    also have "\<dots> \<longleftrightarrow> int i mod int ?n = (int j - int t) mod int ?n"
      by (simp add: mod_eq_dvd_iff algebra_simps)
    also have "\<dots> \<longleftrightarrow> i = nat ((int j - int t) mod int ?n)" using that n by (simp add: nat_eq_iff2 eq_commute)
    finally show ?thesis .
  qed
  have "xs ! j \<in> set (map (\<lambda>i. xs ! ((t + i) mod ?n)) [0..<k]) \<longleftrightarrow> (\<exists>i < k. (t + i) mod ?n = j)"
    using assms n by (auto simp: nth_eq_iff_index_eq in_set_conv_nth)
  also have "\<dots> \<longleftrightarrow> nat ((int j - int t) mod int ?n) < k"
  proof
    assume "\<exists>i < k. (t + i) mod ?n = j"
    then obtain i where "i < k" "(t + i) mod ?n = j" by blast
    then show "nat ((int j - int t) mod int ?n) < k" using eq [of i] assms(3) by simp
  next
    assume "nat ((int j - int t) mod int ?n) < k"
    then show "\<exists>i < k. (t + i) mod ?n = j" using eq [of "nat ((int j - int t) mod int ?n)"] assms(3) by auto
  qed
  finally show ?thesis .
qed

lemma window_distinct:
  assumes "distinct xs" and "k \<le> length xs"
  shows "distinct (map (\<lambda>i. xs ! ((t + i) mod length xs)) [0..<k])"
proof -
  let ?n = "length xs"
  have ne: "(t + i) mod ?n \<noteq> (t + i') mod ?n" if "i < k" "i' < k" "i \<noteq> i'" for i i'
  proof
    assume "(t + i) mod ?n = (t + i') mod ?n"
    then have dvd: "int ?n dvd int i - int i'" by (simp add: mod_eq_iff_dvd_symdiff_nat)
    moreover have "int i - int i' \<noteq> 0" using that(3) by simp
    ultimately have "\<bar>int ?n\<bar> \<le> \<bar>int i - int i'\<bar>" by (intro dvd_imp_le_int)
    then show False using that assms(2) by linarith
  qed
  have "inj_on (\<lambda>i. xs ! ((t + i) mod ?n)) (set [0..<k])"
  proof (rule inj_onI)
    fix i i' assume i: "i \<in> set [0..<k]" "i' \<in> set [0..<k]" and eq: "xs ! ((t + i) mod ?n) = xs ! ((t + i') mod ?n)"
    have "i < k" using i(1) by simp
    then have "0 < ?n" using assms(2) by linarith
    then have "(t + i) mod ?n = (t + i') mod ?n"
      using eq by (simp only: nth_eq_iff_index_eq [OF assms(1)] mod_less_divisor)
    then show "i = i'" using ne i by auto
  qed
  then show ?thesis unfolding distinct_map by simp
qed

lemma new_session_window:
  assumes "xs \<noteq> []" and "unat t + length xs \<le> 2 ^ 32" and "2 \<le> t"
    and "sm_initial_validators s = Some xs" and "m < length xs"
  shows "new_session current (t + of_nat m) s =
    Some (Some (map (\<lambda>i. xs ! ((unat t + m + i) mod length xs)) [0..<window_size (length xs)]), s)"
proof -
  have "unat (of_nat m :: u32) = m" by (rule unat_of_nat_lt) (use assms(2,5) in simp)
  then have m: "unat (t + of_nat m) = unat t + m" by (subst unat_add_lt) (use assms(2,5) in simp_all)
  have "2 \<le> unat t" using assms(3) by (simp add: word_le_nat_alt)
  then have "unat (t + of_nat m) \<noteq> unat (0 :: u32)" "unat (t + of_nat m) \<noteq> unat (1 :: u32)" unfolding m by simp_all
  then have "t + of_nat m \<noteq> 0" "t + of_nat m \<noteq> 1" by metis+
  then show ?thesis
    by (simp add: new_session_def select_validators_window [OF assms(1)] assms(4) m)
qed



end
