(* ===== verification/Finality_Loop.thy ===== *)
theory Finality_Loop
  imports Bridge_Runtime Relay_Utils
begin

text \<open>
  The finality relay (\<open>relays/finality/src/finality_loop.rs\<close>): it reads the headers that the target
  does not have, and submits the best one with a known finality proof, or the first mandatory one.

  Answers of the two clients are parameters; within one iteration no question is asked twice, so
  that a client is the record of its answers. The stream of finality proofs is the list of proofs
  that are ready, with a flag that it has ended. The number of a header is a machine word. Logging,
  metrics and delays are left out.
\<close>

section \<open>The pipeline and the clients\<close>

record ('header, 'hash, 'number, 'fproof) finality_pipeline =
  fp_hash :: "'header \<Rightarrow> 'hash"
  fp_number :: "'header \<Rightarrow> 'number"
  fp_is_mandatory :: "'header \<Rightarrow> bool"
  fp_target_header_number :: "'fproof \<Rightarrow> 'number"

record ('e, 'header, 'number, 'fproof) finality_source =
  fs_best_finalized_block_number :: "'e + 'number"
  fs_header_and_finality_proof :: "'number \<Rightarrow> 'e + 'header \<times> 'fproof option"

record ('e, 'header, 'hash, 'number, 'fproof, 'tracker) finality_target =
  ft_best_finalized_source_block_id :: "'e + ('hash, 'number) header_id"
  ft_submit_finality_proof :: "'header \<Rightarrow> 'fproof \<Rightarrow> 'e + 'tracker"

record finality_sync_params =
  fsp_recent_finality_proofs_limit :: nat
  fsp_only_mandatory_headers :: bool

datatype ('se, 'te, 'number) finality_error =
    FinalitySourceError 'se
  | FinalityTargetError 'te
  | MissingMandatoryFinalityProof 'number

fun finality_fail_if_connection_error ::
  "('se \<Rightarrow> bool) \<Rightarrow> ('te \<Rightarrow> bool) \<Rightarrow> ('se, 'te, 'number) finality_error \<Rightarrow> failed_client + unit" where
  "finality_fail_if_connection_error conn_s conn_t (FinalitySourceError error) =
     (if conn_s error then Inl SourceFailed else Inr ())"
| "finality_fail_if_connection_error conn_s conn_t (FinalityTargetError error) =
     (if conn_t error then Inl TargetFailed else Inr ())"
| "finality_fail_if_connection_error conn_s conn_t (MissingMandatoryFinalityProof _) = Inr ()"

section \<open>Transactions\<close>

record ('tracker, 'number) finality_transaction =
  ftx_tracker :: 'tracker
  ftx_submitted_header_number :: 'number

definition finality_transaction_submit ::
  "('header, 'hash, 'number, 'fproof) finality_pipeline \<Rightarrow> ('e, 'header, 'hash, 'number, 'fproof, 'tracker) finality_target \<Rightarrow>
     'header \<Rightarrow> 'fproof \<Rightarrow> 'e + ('tracker, 'number) finality_transaction" where
  "finality_transaction_submit F target_client header justification =
     (let submitted_header_number = fp_number F header
      in result_bind (ft_submit_finality_proof target_client header justification)
           (\<lambda>tracker. Inr \<lparr>ftx_tracker = tracker, ftx_submitted_header_number = submitted_header_number\<rparr>))"

text \<open>The status of the transaction and the answer of the target when it is finalized.\<close>

datatype 'number track_error =
    TransactionFailed
  | FailedToReadBestBlock
  | BestBlockTooLow 'number 'number

fun finality_transaction_track ::
  "'block tracked_transaction_status \<Rightarrow> ('e + ('hash, 'number::linorder) header_id) \<Rightarrow>
     ('tracker, 'number) finality_transaction \<Rightarrow> 'number track_error + unit" where
  "finality_transaction_track (TransactionFinalized _) best_id_at_target tx =
     (case best_id_at_target of
        Inl e \<Rightarrow> Inl FailedToReadBestBlock
      | Inr best_id_at_target \<Rightarrow>
          if ftx_submitted_header_number tx > hid_number best_id_at_target
          then Inl (BestBlockTooLow (hid_number best_id_at_target) (ftx_submitted_header_number tx))
          else Inr ())"
| "finality_transaction_track TransactionLost best_id_at_target tx = Inl TransactionFailed"

section \<open>The stream of finality proofs\<close>

record 'fproof proofs_stream =
  pst_ready :: "'fproof list"
  pst_ended :: bool

record 'fproof restartable_stream =
  rps_needs_restart :: bool
  rps_stream :: "'fproof proofs_stream"

definition restartable_stream_from :: "'fproof proofs_stream \<Rightarrow> 'fproof restartable_stream" where
  "restartable_stream_from stream = \<lparr>rps_needs_restart = False, rps_stream = stream\<rparr>"

definition create_raw_stream :: "'e + 'fproof proofs_stream \<Rightarrow> failed_client + 'fproof proofs_stream" where
  "create_raw_stream finality_proofs = (case finality_proofs of Inl error \<Rightarrow> Inl SourceFailed | Inr stream \<Rightarrow> Inr stream)"

definition restart_if_scheduled ::
  "'e + 'fproof proofs_stream \<Rightarrow> 'fproof restartable_stream \<Rightarrow> failed_client + 'fproof restartable_stream" where
  "restart_if_scheduled finality_proofs s =
     (if rps_needs_restart s
      then let s = s\<lparr>rps_needs_restart := False\<rparr>
           in result_bind (create_raw_stream finality_proofs) (\<lambda>stream. Inr (s\<lparr>rps_stream := stream\<rparr>))
      else Inr s)"

definition restartable_stream_next :: "'fproof restartable_stream \<Rightarrow> 'fproof option \<times> 'fproof restartable_stream" where
  "restartable_stream_next s =
     (case pst_ready (rps_stream s) of
        finality_proof # rest \<Rightarrow> (Some finality_proof, s\<lparr>rps_stream := (rps_stream s)\<lparr>pst_ready := rest\<rparr>\<rparr>)
      | [] \<Rightarrow> if pst_ended (rps_stream s) then (None, s\<lparr>rps_needs_restart := True\<rparr>) else (None, s))"

function read_finality_proofs_from_stream ::
  "('header, 'hash, 'number, 'fproof) finality_pipeline \<Rightarrow> 'fproof restartable_stream \<Rightarrow> ('number \<times> 'fproof) list \<Rightarrow>
     'fproof restartable_stream \<times> ('number \<times> 'fproof) list" where
  "read_finality_proofs_from_stream F stream recent_finality_proofs =
     (case restartable_stream_next stream of
        (Some finality_proof, stream) \<Rightarrow>
          let target_header_number = fp_target_header_number F finality_proof
          in read_finality_proofs_from_stream F stream (recent_finality_proofs @ [(target_header_number, finality_proof)])
      | (None, stream) \<Rightarrow> (stream, recent_finality_proofs))"
  by pat_completeness auto
termination
  by (relation "measure (\<lambda>(_, stream, _). length (pst_ready (rps_stream stream)))")
    (auto simp: restartable_stream_next_def split: list.splits if_splits)

declare read_finality_proofs_from_stream.simps [simp del]

section \<open>Missing headers\<close>

datatype ('header, 'fproof) selected_finality_proof =
    SelectedMandatory 'header 'fproof
  | SelectedRegular "'header list" 'header 'fproof
  | SelectedNone "'header list"

text \<open>
  The loop of \<open>read_missing_headers\<close>. The next number wraps around after the largest one, so that
  the loop does not end when the best number of the source is the largest number.
\<close>

partial_function (option) read_missing_headers_loop ::
  "('header, 'hash, 'l::len word, 'fproof) finality_pipeline \<Rightarrow> ('se, 'header, 'l word, 'fproof) finality_source \<Rightarrow>
     'l word \<Rightarrow> 'l word \<Rightarrow> 'header list \<Rightarrow> ('header \<times> 'fproof) option \<Rightarrow>
     (('se, 'te, 'l word) finality_error + ('header, 'fproof) selected_finality_proof) option" where
  "read_missing_headers_loop F source_client best_number_at_source header_number unjustified_headers selected =
     (if header_number \<le> best_number_at_source
      then (case fs_header_and_finality_proof source_client header_number of
              Inl e \<Rightarrow> Some (Inl (FinalitySourceError e))
            | Inr (header, finality_proof) \<Rightarrow>
                (case finality_proof of
                   Some finality_proof \<Rightarrow>
                     if fp_is_mandatory F header then Some (Inr (SelectedMandatory header finality_proof))
                     else read_missing_headers_loop F source_client best_number_at_source (header_number + 1)
                            [] (Some (header, finality_proof))
                 | None \<Rightarrow>
                     if fp_is_mandatory F header then Some (Inl (MissingMandatoryFinalityProof (fp_number F header)))
                     else read_missing_headers_loop F source_client best_number_at_source (header_number + 1)
                            (unjustified_headers @ [header]) selected))
      else Some (Inr (case selected of
                        Some (header, finality_proof) \<Rightarrow> SelectedRegular unjustified_headers header finality_proof
                      | None \<Rightarrow> SelectedNone unjustified_headers)))"

definition read_missing_headers ::
  "('header, 'hash, 'l::len word, 'fproof) finality_pipeline \<Rightarrow> ('se, 'header, 'l word, 'fproof) finality_source \<Rightarrow>
     'l word \<Rightarrow> 'l word \<Rightarrow> (('se, 'te, 'l word) finality_error + ('header, 'fproof) selected_finality_proof) option" where
  "read_missing_headers F source_client best_number_at_source best_number_at_target =
     read_missing_headers_loop F source_client best_number_at_source (best_number_at_target + 1) [] None"

section \<open>Recent finality proofs\<close>

text \<open>\<open>binary_search_by_key\<close> of the standard library: the position of the key, or of where it belongs.\<close>

function binary_search_loop :: "('a \<Rightarrow> 'k::linorder) \<Rightarrow> 'a list \<Rightarrow> 'k \<Rightarrow> nat \<Rightarrow> nat \<Rightarrow> nat + nat" where
  "binary_search_loop key xs k left right =
     (if left < right
      then let mid = left + (right - left) div 2
           in if key (xs ! mid) < k then binary_search_loop key xs k (mid + 1) right
              else if key (xs ! mid) > k then binary_search_loop key xs k left mid
              else Inr mid
      else Inl left)"
  by pat_completeness auto
termination by (relation "measure (\<lambda>(_, _, _, left, right). right - left)") auto

declare binary_search_loop.simps [simp del]

definition binary_search_by_key :: "('a \<Rightarrow> 'k::linorder) \<Rightarrow> 'a list \<Rightarrow> 'k \<Rightarrow> nat + nat" where
  "binary_search_by_key key xs k = binary_search_loop key xs k 0 (length xs)"

text \<open>
  \<open>select_better_recent_finality_proof\<close>. The last \<open>expect\<close> is a panic (\<open>None\<close>) when the header is not
  found; the other two hold because the lists are not empty.
\<close>

definition select_better_recent_finality_proof ::
  "('header, 'hash, 'number::linorder, 'fproof) finality_pipeline \<Rightarrow> ('number \<times> 'fproof) list \<Rightarrow> 'header list \<Rightarrow>
     ('header \<times> 'fproof) option \<Rightarrow> ('header \<times> 'fproof) option option" where
  "select_better_recent_finality_proof F recent_finality_proofs unjustified_headers selected_finality_proof =
     (if unjustified_headers = [] \<or> recent_finality_proofs = [] then Some selected_finality_proof
      else
      let unjustified_range_begin = fp_number F (hd unjustified_headers);
          unjustified_range_end = fp_number F (last unjustified_headers);
          buffered_range_begin = fst (hd recent_finality_proofs);
          buffered_range_end = fst (last recent_finality_proofs);
          intersection_begin = max unjustified_range_begin buffered_range_begin;
          intersection_end = min unjustified_range_end buffered_range_end;
          selected_finality_proof_index =
            (case binary_search_by_key fst recent_finality_proofs intersection_end of
               Inr index \<Rightarrow> index | Inl index \<Rightarrow> index - 1);
          (selected_header_number, finality_proof) = recent_finality_proofs ! selected_finality_proof_index;
          has_selected_finality_proof =
            (intersection_begin \<le> selected_header_number \<and> selected_header_number \<le> intersection_end)
      in if \<not> has_selected_finality_proof then Some selected_finality_proof
      else case binary_search_by_key (fp_number F) unjustified_headers selected_header_number of
             Inr selected_header_position \<Rightarrow>
               Some (Some (unjustified_headers ! selected_header_position, finality_proof))
           | Inl _ \<Rightarrow> None)"

definition prune_recent_finality_proofs ::
  "'number::linorder \<Rightarrow> ('number \<times> 'fproof) list \<Rightarrow> nat \<Rightarrow> ('number \<times> 'fproof) list" where
  "prune_recent_finality_proofs justified_header_number recent_finality_proofs recent_finality_proofs_limit =
     (let justified_header_idx =
            (case binary_search_by_key fst recent_finality_proofs justified_header_number of
               Inr idx \<Rightarrow> idx + 1 | Inl idx \<Rightarrow> idx);
          proofs_limit_idx = length recent_finality_proofs - recent_finality_proofs_limit
      in drop (max justified_header_idx proofs_limit_idx) recent_finality_proofs)"

section \<open>The loop\<close>

text \<open>The result, with the stream and the recent proofs after the selection. A panic, or a loop that does not end, is \<open>None\<close>.\<close>

definition select_header_to_submit ::
  "('header, 'hash, 'l::len word, 'fproof) finality_pipeline \<Rightarrow> ('se, 'header, 'l word, 'fproof) finality_source \<Rightarrow>
     'fproof restartable_stream \<Rightarrow> ('l word \<times> 'fproof) list \<Rightarrow> 'l word \<Rightarrow> 'l word \<Rightarrow> finality_sync_params \<Rightarrow>
     ((('se, 'te, 'l word) finality_error + ('header \<times> 'fproof) option) \<times> 'fproof restartable_stream \<times> ('l word \<times> 'fproof) list) option" where
  "select_header_to_submit F source_client stream recent best_number_at_source best_number_at_target sync_params =
     do {
       selected_finality_proof \<leftarrow> read_missing_headers F source_client best_number_at_source best_number_at_target;
       case selected_finality_proof of
         Inl e \<Rightarrow> Some (Inl e, stream, recent)
       | Inr (SelectedMandatory header finality_proof) \<Rightarrow> Some (Inr (Some (header, finality_proof)), stream, recent)
       | Inr selected \<Rightarrow>
           if fsp_only_mandatory_headers sync_params then Some (Inr None, stream, recent)
           else
           let (unjustified_headers, selected_finality_proof) =
                 (case selected of
                    SelectedRegular unjustified_headers header finality_proof \<Rightarrow>
                      (unjustified_headers, Some (header, finality_proof))
                  | SelectedNone unjustified_headers \<Rightarrow> (unjustified_headers, None)
                  | SelectedMandatory header finality_proof \<Rightarrow> ([], Some (header, finality_proof)));
               (stream, recent) = read_finality_proofs_from_stream F stream recent
           in do {
             selected_finality_proof \<leftarrow>
               select_better_recent_finality_proof F recent unjustified_headers selected_finality_proof;
             let oldest_finality_proof_to_keep =
                   (case selected_finality_proof of
                      Some (header, _) \<Rightarrow> fp_number F header | None \<Rightarrow> best_number_at_target);
             let recent = prune_recent_finality_proofs oldest_finality_proof_to_keep recent
                   (fsp_recent_finality_proofs_limit sync_params);
             Some (Inr selected_finality_proof, stream, recent)
           }
     }"

definition ensure_same_fork ::
  "('header, 'hash, 'number, 'fproof) finality_pipeline \<Rightarrow> ('hash, 'number) header_id \<Rightarrow>
     ('e, 'header, 'number, 'fproof) finality_source \<Rightarrow> 'e + 'hash option" where
  "ensure_same_fork F best_id_at_target source_client =
     result_bind (fs_header_and_finality_proof source_client (hid_number best_id_at_target)) (\<lambda>(header_at_source, _).
       let header_hash_at_source = fp_hash F header_at_source
       in Inr (if hid_hash best_id_at_target = header_hash_at_source then None else Some header_hash_at_source))"

record ('number, 'fproof) finality_loop_state =
  fls_finality_proofs_stream :: "'fproof restartable_stream"
  fls_recent_finality_proofs :: "('number \<times> 'fproof) list"
  fls_submitted_header_number :: "'number option"

definition run_loop_iteration ::
  "('header, 'hash, 'l::len word, 'fproof) finality_pipeline \<Rightarrow> ('se, 'header, 'l word, 'fproof) finality_source \<Rightarrow>
     ('te, 'header, 'hash, 'l word, 'fproof, 'tracker) finality_target \<Rightarrow> finality_sync_params \<Rightarrow>
     ('l word, 'fproof) finality_loop_state \<Rightarrow>
     ((('se, 'te, 'l word) finality_error + ('tracker, 'l word) finality_transaction option) \<times>
       ('l word, 'fproof) finality_loop_state) option" where
  "run_loop_iteration F source_client target_client sync_params state =
     (case fs_best_finalized_block_number source_client of
        Inl e \<Rightarrow> Some (Inl (FinalitySourceError e), state)
      | Inr best_number_at_source \<Rightarrow>
      (case ft_best_finalized_source_block_id target_client of
        Inl e \<Rightarrow> Some (Inl (FinalityTargetError e), state)
      | Inr best_id_at_target \<Rightarrow>
      let best_number_at_target = hid_number best_id_at_target
      in case ensure_same_fork F best_id_at_target source_client of
        Inl e \<Rightarrow> Some (Inl (FinalitySourceError e), state)
      | Inr _ \<Rightarrow>
      if (case fls_submitted_header_number state of
            Some submitted_header_number \<Rightarrow> \<not> best_number_at_target \<ge> submitted_header_number
          | None \<Rightarrow> False) then Some (Inr None, state)
      else do {
        (selected, stream, recent) \<leftarrow>
          select_header_to_submit F source_client (fls_finality_proofs_stream state) (fls_recent_finality_proofs state)
            best_number_at_source best_number_at_target sync_params;
        let state = state\<lparr>fls_finality_proofs_stream := stream, fls_recent_finality_proofs := recent\<rparr>;
        case selected of
          Inl e \<Rightarrow> Some (Inl e, state)
        | Inr None \<Rightarrow> Some (Inr None, state)
        | Inr (Some (header, justification)) \<Rightarrow>
            (case finality_transaction_submit F target_client header justification of
               Inl e \<Rightarrow> Some (Inl (FinalityTargetError e), state)
             | Inr transaction \<Rightarrow> Some (Inr (Some transaction), state))
      }))"

text \<open>
  The variables of \<open>run_until_connection_lost\<close> and one turn of its loop: an iteration, the reaction to
  its result and the restart of the stream. Afterwards the loop waits for one of the events.
\<close>

record ('number, 'fproof, 'tracker) finality_loop =
  fl_state :: "('number, 'fproof) finality_loop_state"
  fl_last_transaction :: "('tracker, 'number) finality_transaction option"

definition finality_loop_start ::
  "'e + 'fproof proofs_stream \<Rightarrow> failed_client + ('number, 'fproof, 'tracker) finality_loop" where
  "finality_loop_start finality_proofs =
     result_bind (create_raw_stream finality_proofs) (\<lambda>stream. Inr \<lparr>
       fl_state = \<lparr>fls_finality_proofs_stream = restartable_stream_from stream, fls_recent_finality_proofs = [],
         fls_submitted_header_number = None\<rparr>,
       fl_last_transaction = None\<rparr>)"

definition finality_loop_turn ::
  "('header, 'hash, 'l::len word, 'fproof) finality_pipeline \<Rightarrow> ('se \<Rightarrow> bool) \<Rightarrow> ('te \<Rightarrow> bool) \<Rightarrow>
     ('se, 'header, 'l word, 'fproof) finality_source \<Rightarrow> ('te, 'header, 'hash, 'l word, 'fproof, 'tracker) finality_target \<Rightarrow>
     'se + 'fproof proofs_stream \<Rightarrow> finality_sync_params \<Rightarrow> ('l word, 'fproof, 'tracker) finality_loop \<Rightarrow>
     (failed_client + ('l word, 'fproof, 'tracker) finality_loop) option" where
  "finality_loop_turn F conn_s conn_t source_client target_client finality_proofs sync_params v =
     do {
       (iteration_result, state) \<leftarrow> run_loop_iteration F source_client target_client sync_params (fl_state v);
       let v = v\<lparr>fl_state := state\<rparr>;
       Some (result_bind
         (case iteration_result of
            Inr (Some updated_transaction) \<Rightarrow>
              Inr (v\<lparr>fl_state := state\<lparr>fls_submitted_header_number := Some (ftx_submitted_header_number updated_transaction)\<rparr>,
                fl_last_transaction := Some updated_transaction\<rparr>)
          | Inr None \<Rightarrow> Inr v
          | Inl error \<Rightarrow> result_bind (finality_fail_if_connection_error conn_s conn_t error) (\<lambda>_. Inr v))
         (\<lambda>v. result_bind (restart_if_scheduled finality_proofs (fls_finality_proofs_stream (fl_state v)))
            (\<lambda>stream. Inr (v\<lparr>fl_state := (fl_state v)\<lparr>fls_finality_proofs_stream := stream\<rparr>\<rparr>))))
     }"

datatype ('block, 'e, 'hash, 'number) finality_event =
    FinalityTransactionTracked "'block tracked_transaction_status" "'e + ('hash, 'number) header_id"
  | FinalityTick
  | FinalityExit

fun finality_event_enabled :: "('block, 'e, 'hash, 'number) finality_event \<Rightarrow> ('number, 'fproof, 'tracker) finality_loop \<Rightarrow> bool" where
  "finality_event_enabled (FinalityTransactionTracked _ _) v = (fl_last_transaction v \<noteq> None)"
| "finality_event_enabled _ v = True"

text \<open>The loop has ended (\<open>Inl\<close>), with an error or on the exit signal, or the next turn begins.\<close>

fun finality_loop_wait ::
  "('block, 'e, 'hash, 'number::linorder) finality_event \<Rightarrow> ('number, 'fproof, 'tracker) finality_loop \<Rightarrow>
     (failed_client + unit) + ('number, 'fproof, 'tracker) finality_loop" where
  "finality_loop_wait (FinalityTransactionTracked status best_id_at_target) v =
     (case fl_last_transaction v of
        Some transaction \<Rightarrow>
          (case finality_transaction_track status best_id_at_target transaction of
             Inl _ \<Rightarrow> Inl (Inl BothFailed)
           | Inr _ \<Rightarrow> Inr (v\<lparr>fl_last_transaction := None\<rparr>))
      | None \<Rightarrow> Inr v)"
| "finality_loop_wait FinalityTick v = Inr v"
| "finality_loop_wait FinalityExit v = Inl (Inr ())"

end
