(* ===== verification/Finality_Selection.thy ===== *)
theory Finality_Selection
  imports Finality_Loop
begin

text \<open>
  What the finality relay selects: the first mandatory header that the target is missing or, when
  there is none, the best header for which a persistent or a recent finality proof is known.
\<close>

section \<open>Binary search\<close>

lemma binary_search_loop_spec:
  assumes "sorted (map key xs)" and "right \<le> length xs"
    and "\<forall>j < left. key (xs ! j) < k" and "\<forall>j < length xs. right \<le> j \<longrightarrow> k < key (xs ! j)" and "left \<le> right"
  shows "case binary_search_loop key xs k left right of
      Inr i \<Rightarrow> i < length xs \<and> key (xs ! i) = k
    | Inl i \<Rightarrow> i \<le> length xs \<and> (\<forall>j < i. key (xs ! j) < k) \<and> (\<forall>j < length xs. i \<le> j \<longrightarrow> k < key (xs ! j))"
  using assms
proof (induction key xs k left right rule: binary_search_loop.induct)
  case (1 key xs k left right)
  show ?case
  proof (cases "left < right")
    case False
    then have "binary_search_loop key xs k left right = Inl left" by (subst binary_search_loop.simps) simp
    then show ?thesis using False "1.prems" by simp
  next
    case True
    define mid where "mid = left + (right - left) div 2"
    have mid: "left \<le> mid" "mid < right" "mid < length xs" using True "1.prems"(2) by (auto simp: mid_def)
    have mono: "key (xs ! i) \<le> key (xs ! j)" if "i \<le> j" "j < length xs" for i j
      using "1.prems"(1) that sorted_nth_mono [of "map key xs" i j] by simp
    consider "key (xs ! mid) < k" | "key (xs ! mid) > k" | "key (xs ! mid) = k" by (meson linorder_cases)
    then show ?thesis
    proof cases
      case 1
      have "\<forall>j < mid + 1. key (xs ! j) < k"
        using 1 mid mono by (auto simp: less_Suc_eq_le intro: order_le_less_trans)
      with 1 show ?thesis
        using "1.IH"(1) [OF True mid_def _ "1.prems"(1,2)] "1.prems"(4) mid True
        by (simp add: binary_search_loop.simps [of key xs k left right] mid_def [symmetric])
    next
      case 2
      have "\<forall>j < length xs. mid \<le> j \<longrightarrow> k < key (xs ! j)"
        using 2 mono by (auto intro: order_less_le_trans)
      moreover have "\<not> key (xs ! mid) < k" using 2 by auto
      ultimately show ?thesis
        using "1.IH"(2) [OF True mid_def _ _ "1.prems"(1)] "1.prems"(2,3) mid True 2
        by (simp add: binary_search_loop.simps [of key xs k left right] mid_def [symmetric])
    next
      case 3
      then show ?thesis
        using True mid by (simp add: binary_search_loop.simps [of key xs k left right] mid_def [symmetric])
    qed
  qed
qed

lemma binary_search_spec:
  assumes "sorted (map key xs)"
  shows "case binary_search_by_key key xs k of
      Inr i \<Rightarrow> i < length xs \<and> key (xs ! i) = k
    | Inl i \<Rightarrow> i \<le> length xs \<and> (\<forall>j < i. key (xs ! j) < k) \<and> (\<forall>j < length xs. i \<le> j \<longrightarrow> k < key (xs ! j))"
  unfolding binary_search_by_key_def by (rule binary_search_loop_spec) (use assms in auto)

lemma binary_search_found:
  assumes "sorted (map key xs)" and "x \<in> set xs" and "key x = k"
  obtains i where "binary_search_by_key key xs k = Inr i" and "i < length xs" and "key (xs ! i) = k"
proof (cases "binary_search_by_key key xs k")
  case (Inl i)
  obtain j where "j < length xs" "key (xs ! j) = k" using assms(2,3) by (auto simp: in_set_conv_nth)
  then show ?thesis using binary_search_spec [OF assms(1), of k] Inl by (cases "j < i") auto
next
  case (Inr i)
  then show ?thesis using binary_search_spec [OF assms(1), of k] that by auto
qed

section \<open>Reading the stream\<close>

lemma read_finality_proofs_from_stream_eq:
  "read_finality_proofs_from_stream F stream recent =
     (stream\<lparr>rps_needs_restart := rps_needs_restart stream \<or> pst_ended (rps_stream stream),
        rps_stream := (rps_stream stream)\<lparr>pst_ready := []\<rparr>\<rparr>,
      recent @ map (\<lambda>p. (fp_target_header_number F p, p)) (pst_ready (rps_stream stream)))"
proof (induction F stream recent rule: read_finality_proofs_from_stream.induct)
  case (1 F stream recent)
  show ?case
  proof (cases "pst_ready (rps_stream stream)")
    case Nil
    then show ?thesis
      by (subst read_finality_proofs_from_stream.simps) (auto simp: restartable_stream_next_def)
  next
    case (Cons p rest)
    then have "restartable_stream_next stream = (Some p, stream\<lparr>rps_stream := (rps_stream stream)\<lparr>pst_ready := rest\<rparr>\<rparr>)"
      by (simp add: restartable_stream_next_def)
    with 1 [OF this [symmetric] refl refl] Cons show ?thesis
      by (subst read_finality_proofs_from_stream.simps) simp
  qed
qed

section \<open>Missing headers\<close>

text \<open>The numbers from \<open>a\<close> to \<open>b\<close>, and the loop over them as a recursion on the list.\<close>

definition number_range :: "'l::len word \<Rightarrow> 'l word \<Rightarrow> 'l word list" where
  "number_range a b = map of_nat [unat a..<Suc (unat b)]"

lemma set_number_range: "set (number_range a b) = {n. a \<le> n \<and> n \<le> b}"
proof (intro equalityI subsetI)
  fix n assume "n \<in> set (number_range a b)"
  then obtain i where "n = of_nat i" "unat a \<le> i" "i \<le> unat b" by (auto simp: number_range_def)
  moreover have "i < 2 ^ LENGTH('a)" using \<open>i \<le> unat b\<close> unsigned_less [of b, where ?'a = nat] by linarith
  ultimately show "n \<in> {n. a \<le> n \<and> n \<le> b}" by (simp add: word_le_nat_alt unat_of_nat_lt)
next
  fix n assume "n \<in> {n. a \<le> n \<and> n \<le> b}"
  then have "unat n \<in> set [unat a..<Suc (unat b)]" by (simp add: word_le_nat_alt less_Suc_eq_le del: upt_Suc)
  then show "n \<in> set (number_range a b)"
    unfolding number_range_def set_map by (rule image_eqI [rotated]) simp
qed

lemma number_range_sorted: "sorted_wrt (<) (number_range a b)"
  unfolding number_range_def sorted_wrt_map
proof (rule sorted_wrt_mono_rel [OF _ sorted_wrt_upt])
  fix i j assume ij: "i \<in> set [unat a..<Suc (unat b)]" "j \<in> set [unat a..<Suc (unat b)]" and "i < j"
  moreover have "i < 2 ^ LENGTH('a)" "j < 2 ^ LENGTH('a)"
    using ij unsigned_less [of b, where ?'a = nat]
    by (auto simp: less_Suc_eq_le simp del: upt_Suc intro: order_le_less_trans)
  ultimately show "(of_nat i :: 'a word) < of_nat j" by (simp add: word_less_nat_alt unat_of_nat_lt)
qed

lemma number_range_empty: "b < a \<Longrightarrow> number_range a b = []"
  by (simp add: number_range_def word_less_nat_alt)

lemma number_range_Cons: "a \<le> b \<Longrightarrow> b < - 1 \<Longrightarrow> number_range a b = a # number_range (a + 1) b"
proof -
  assume ab: "a \<le> b" and b: "b < - 1"
  then have "unat (a + 1) = Suc (unat a)" by (intro unat_succ) (rule order_le_less_trans)
  moreover have "unat a < Suc (unat b)" using ab by (simp add: word_le_nat_alt)
  ultimately show "number_range a b = a # number_range (a + 1) b"
    unfolding number_range_def by (subst upt_conv_Cons) simp_all
qed

fun read_headers ::
  "('header, 'hash, 'l::len word, 'fproof) finality_pipeline \<Rightarrow> ('se, 'header, 'l word, 'fproof) finality_source \<Rightarrow>
     'l word list \<Rightarrow> 'header list \<Rightarrow> ('header \<times> 'fproof) option \<Rightarrow>
     ('se, 'te, 'l word) finality_error + ('header, 'fproof) selected_finality_proof" where
  "read_headers F S [] unjustified selected =
     Inr (case selected of Some (header, p) \<Rightarrow> SelectedRegular unjustified header p | None \<Rightarrow> SelectedNone unjustified)"
| "read_headers F S (n # ns) unjustified selected =
     (case fs_header_and_finality_proof S n of
        Inl e \<Rightarrow> Inl (FinalitySourceError e)
      | Inr (header, Some p) \<Rightarrow>
          if fp_is_mandatory F header then Inr (SelectedMandatory header p)
          else read_headers F S ns [] (Some (header, p))
      | Inr (header, None) \<Rightarrow>
          if fp_is_mandatory F header then Inl (MissingMandatoryFinalityProof (fp_number F header))
          else read_headers F S ns (unjustified @ [header]) selected)"

lemma read_missing_headers_loop_eq:
  assumes "best < - 1" and "n \<le> best + 1"
  shows "read_missing_headers_loop F S best n unjustified selected =
    Some (read_headers F S (number_range n best) unjustified selected)"
  using assms(2)
proof (induction "Suc (unat best) - unat n" arbitrary: n unjustified selected)
  case 0
  then have "\<not> n \<le> best" and "best < n" by (simp_all add: word_le_nat_alt word_less_nat_alt)
  then show ?case
    by (subst read_missing_headers_loop.simps) (simp add: number_range_empty)
next
  case (Suc d)
  then have n: "n \<le> best" by (simp add: word_le_nat_alt)
  then have "n < - 1" using assms(1) by (rule order_le_less_trans)
  then have succ: "unat (n + 1) = Suc (unat n)" by (rule unat_succ)
  have "n + 1 \<le> best + 1" using n succ unat_succ [OF assms(1)] by (simp add: word_le_nat_alt)
  note IH = Suc.hyps(1) [OF _ this]
  show ?case
    using n Suc.hyps(2) succ IH
    by (subst read_missing_headers_loop.simps)
      (auto simp: number_range_Cons [OF n assms(1)] split: sum.splits option.splits)
qed

lemma read_missing_headers_loop_all:
  assumes "best < - 1"
  shows "read_missing_headers_loop F S best n unjustified selected =
    Some (read_headers F S (number_range n best) unjustified selected)"
proof (cases "n \<le> best")
  case True
  then have "n \<le> best + 1" using unat_succ [OF assms] by (simp add: word_le_nat_alt)
  then show ?thesis by (rule read_missing_headers_loop_eq [OF assms])
next
  case False
  then show ?thesis by (subst read_missing_headers_loop.simps) (simp add: number_range_empty)
qed

text \<open>The header at a number, and whether it is a regular one (not mandatory), as the source reports them.\<close>

definition header_at :: "('se, 'header, 'number, 'fproof) finality_source \<Rightarrow> 'number \<Rightarrow> 'header \<Rightarrow> bool" where
  "header_at S n h \<longleftrightarrow> (\<exists>fp. fs_header_and_finality_proof S n = Inr (h, fp))"

definition regular_at ::
  "('header, 'hash, 'number, 'fproof) finality_pipeline \<Rightarrow> ('se, 'header, 'number, 'fproof) finality_source \<Rightarrow> 'number \<Rightarrow> bool" where
  "regular_at F S n \<longleftrightarrow> (\<exists>h. header_at S n h \<and> \<not> fp_is_mandatory F h)"

definition persistent_at :: "('se, 'header, 'number, 'fproof) finality_source \<Rightarrow> 'number \<Rightarrow> bool" where
  "persistent_at S n \<longleftrightarrow> (\<exists>h p. fs_header_and_finality_proof S n = Inr (h, Some p))"

definition source_consistent ::
  "('header, 'hash, 'number, 'fproof) finality_pipeline \<Rightarrow> ('se, 'header, 'number, 'fproof) finality_source \<Rightarrow> bool" where
  "source_consistent F S \<longleftrightarrow>
     (\<forall>n h fp. fs_header_and_finality_proof S n = Inr (h, fp) \<longrightarrow>
        fp_number F h = n \<and> (\<forall>p. fp = Some p \<longrightarrow> fp_target_header_number F p = n))"

text \<open>What has been read so far: the headers after the last one with a persistent proof have none.\<close>

definition headers_read ::
  "('header, 'hash, 'number, 'fproof) finality_pipeline \<Rightarrow> ('se, 'header, 'number, 'fproof) finality_source \<Rightarrow>
     'number list \<Rightarrow> 'header list \<Rightarrow> ('header \<times> 'fproof) option \<Rightarrow> bool" where
  "headers_read F S ns unjustified selected \<longleftrightarrow>
     (\<forall>n \<in> set ns. regular_at F S n) \<and>
     (\<exists>pre post. ns = pre @ post \<and> list_all2 (\<lambda>n h. fs_header_and_finality_proof S n = Inr (h, None)) post unjustified \<and>
        (case selected of
           None \<Rightarrow> pre = []
         | Some (h, p) \<Rightarrow> \<exists>pre' n. pre = pre' @ [n] \<and> fs_header_and_finality_proof S n = Inr (h, Some p)))"

lemma regular_at_iff: "fs_header_and_finality_proof S n = Inr (h, fp) \<Longrightarrow> regular_at F S n \<longleftrightarrow> \<not> fp_is_mandatory F h"
  by (auto simp: regular_at_def header_at_def)

lemma headers_read_justified:
  assumes "headers_read F S ns unjustified selected" and "fs_header_and_finality_proof S n = Inr (h, Some p)"
    and "\<not> fp_is_mandatory F h"
  shows "headers_read F S (ns @ [n]) [] (Some (h, p))"
  using assms regular_at_iff [OF assms(2), of F] unfolding headers_read_def
  by (intro conjI exI [of _ "ns @ [n]"] exI [of _ "[]"]) auto

lemma headers_read_unjustified:
  assumes "headers_read F S ns unjustified selected" and "fs_header_and_finality_proof S n = Inr (h, None)"
    and "\<not> fp_is_mandatory F h"
  shows "headers_read F S (ns @ [n]) (unjustified @ [h]) selected"
proof -
  obtain pre post where "ns = pre @ post" and "list_all2 (\<lambda>n h. fs_header_and_finality_proof S n = Inr (h, None)) post unjustified"
    and "case selected of None \<Rightarrow> pre = []
         | Some (h, p) \<Rightarrow> \<exists>pre' n. pre = pre' @ [n] \<and> fs_header_and_finality_proof S n = Inr (h, Some p)"
    using assms(1) by (auto simp: headers_read_def)
  then show ?thesis
    using assms regular_at_iff [OF assms(2), of F] unfolding headers_read_def
    by (intro conjI exI [of _ pre] exI [of _ "post @ [n]"]) (auto simp: list_all2_appendI)
qed

fun selection_ok ::
  "('header, 'hash, 'number, 'fproof) finality_pipeline \<Rightarrow> ('se, 'header, 'number, 'fproof) finality_source \<Rightarrow>
     'number list \<Rightarrow> 'number list \<Rightarrow> ('header, 'fproof) selected_finality_proof \<Rightarrow> bool" where
  "selection_ok F S seen ns (SelectedMandatory h p) \<longleftrightarrow>
     (\<exists>pre n post. ns = pre @ n # post \<and> fs_header_and_finality_proof S n = Inr (h, Some p) \<and>
        fp_is_mandatory F h \<and> (\<forall>m \<in> set pre. regular_at F S m))"
| "selection_ok F S seen ns (SelectedRegular unjustified h p) \<longleftrightarrow> headers_read F S (seen @ ns) unjustified (Some (h, p))"
| "selection_ok F S seen ns (SelectedNone unjustified) \<longleftrightarrow> headers_read F S (seen @ ns) unjustified None"

lemma selection_ok_Cons:
  assumes "selection_ok F S (seen @ [n]) ns r" and "regular_at F S n"
  shows "selection_ok F S seen (n # ns) r"
proof (cases r)
  case (SelectedMandatory h p)
  then obtain pre m post where "ns = pre @ m # post" "fs_header_and_finality_proof S m = Inr (h, Some p)"
      "fp_is_mandatory F h" "\<forall>m \<in> set pre. regular_at F S m"
    using assms(1) by auto
  then show ?thesis unfolding SelectedMandatory selection_ok.simps
    using assms(2) by (intro exI [of _ "n # pre"] exI [of _ m] exI [of _ post]) simp
qed (use assms(1) in simp_all)

lemma read_headers_spec:
  assumes "headers_read F S seen unjustified selected" and "read_headers F S ns unjustified selected = Inr r"
  shows "selection_ok F S seen ns r"
  using assms
proof (induction ns arbitrary: seen unjustified selected)
  case Nil
  then show ?case by (auto split: option.splits)
next
  case (Cons n ns)
  obtain h fp where h: "fs_header_and_finality_proof S n = Inr (h, fp)"
    using Cons.prems(2) by (cases "fs_header_and_finality_proof S n") auto
  show ?case
  proof (cases "fp_is_mandatory F h")
    case True
    then obtain p where p: "fp = Some p" "r = SelectedMandatory h p" using Cons.prems(2) h by (cases fp) simp_all
    show ?thesis unfolding p(2) selection_ok.simps
      by (intro exI [of _ "[]"] exI [of _ n] exI [of _ ns]) (simp add: True h p(1))
  next
    case False
    then have nm: "regular_at F S n" using regular_at_iff [OF h, of F] by simp
    have "selection_ok F S (seen @ [n]) ns r"
    proof (cases fp)
      case None
      then show ?thesis
        using Cons.prems(2) h False by (intro Cons.IH [OF headers_read_unjustified [OF Cons.prems(1)]]) simp_all
    next
      case (Some p)
      then show ?thesis
        using Cons.prems(2) h False by (intro Cons.IH [OF headers_read_justified [OF Cons.prems(1)]]) simp_all
    qed
    then show ?thesis using nm by (rule selection_ok_Cons)
  qed
qed

section \<open>Recent proofs\<close>

definition recent_sorted ::
  "('header, 'hash, 'number::linorder, 'fproof) finality_pipeline \<Rightarrow> ('number \<times> 'fproof) list \<Rightarrow> bool" where
  "recent_sorted F recent \<longleftrightarrow> sorted_wrt (<) (map fst recent) \<and> (\<forall>(n, p) \<in> set recent. fp_target_header_number F p = n)"

text \<open>The position that the search for the last proof up to a number ends at.\<close>

lemma search_last_le:
  fixes key :: "'a \<Rightarrow> 'k::linorder" and k :: 'k
  assumes sorted: "sorted (map key xs)" and ne: "xs \<noteq> []"
  defines "i \<equiv> (case binary_search_by_key key xs k of Inr index \<Rightarrow> index | Inl index \<Rightarrow> index - 1)"
  shows "i < length xs" and "\<And>x. x \<in> set xs \<Longrightarrow> key x \<le> k \<Longrightarrow> key x \<le> key (xs ! i) \<and> key (xs ! i) \<le> k"
proof -
  note spec = binary_search_spec [OF sorted, of k]
  have len: "0 < length xs" using ne by simp
  show "i < length xs"
  proof (cases "binary_search_by_key key xs k")
    case (Inl m)
    then have "m \<le> length xs" "i = m - 1" using spec by (simp_all add: i_def)
    then show ?thesis using len by linarith
  qed (use spec in \<open>simp add: i_def\<close>)
  fix x assume x: "x \<in> set xs" "key x \<le> k"
  then obtain j where j: "j < length xs" "xs ! j = x" by (auto simp: in_set_conv_nth)
  show "key x \<le> key (xs ! i) \<and> key (xs ! i) \<le> k"
  proof (cases "binary_search_by_key key xs k")
    case (Inr m)
    then show ?thesis using spec x by (simp add: i_def)
  next
    case (Inl m)
    then have m: "j < m" "i = m - 1" "m \<le> length xs" using spec j x by (auto simp: i_def not_less [symmetric])
    then have "key (xs ! j) \<le> key (xs ! i)"
      using sorted_nth_mono [OF sorted, of j i] j by simp
    moreover have "key (xs ! i) < k" using spec m Inl by simp
    ultimately show ?thesis using j by simp
  qed
qed

lemma sorted_hd_last:
  assumes "sorted (map key xs)" and "x \<in> set xs"
  shows "key (hd xs) \<le> key x" and "key x \<le> key (last xs)"
proof -
  show "key (hd xs) \<le> key x" using assms by (cases xs) auto
  show "key x \<le> key (last xs)" using assms by (cases xs rule: rev_cases) (auto simp: sorted_append)
qed

text \<open>
  The improvement of the selection: the best recent proof of an unjustified header, if there is one.
\<close>

lemma select_better_spec:
  assumes sorted: "sorted_wrt (<) (map fst recent)" and range: "map (fp_number F) unjustified = number_range a b"
  defines "common \<equiv> fst ` set recent \<inter> {n. a \<le> n \<and> n \<le> b}"
  shows "(common = {} \<and> select_better_recent_finality_proof F recent unjustified sel = Some sel) \<or>
    (\<exists>h p. select_better_recent_finality_proof F recent unjustified sel = Some (Some (h, p)) \<and> h \<in> set unjustified \<and>
       (fp_number F h, p) \<in> set recent \<and> (\<forall>m \<in> common. m \<le> fp_number F h))"
proof (cases "unjustified = [] \<or> recent = []")
  case True
  then have "common = {}" using range set_number_range [of a b] by (auto simp: common_def)
  then show ?thesis using True by (simp add: select_better_recent_finality_proof_def)
next
  case False
  then have ne: "unjustified \<noteq> []" "recent \<noteq> []" by auto
  have sorted_r: "sorted (map fst recent)" using sorted strict_sorted_iff by blast
  have sorted_u: "sorted (map (fp_number F) unjustified)"
    unfolding range using number_range_sorted strict_sorted_iff by blast
  have set_u: "fp_number F ` set unjustified = {n. a \<le> n \<and> n \<le> b}"
    using arg_cong [OF range, of set] by (simp add: set_number_range)
  then have in_u: "n \<in> fp_number F ` set unjustified \<longleftrightarrow> a \<le> n \<and> n \<le> b" for n by simp
  have ab: "a \<le> b" using in_u imageI [OF hd_in_set [OF ne(1)], of "fp_number F"] by (meson order_trans)
  have hd_u: "fp_number F (hd unjustified) = a"
  proof (rule antisym)
    obtain x where "x \<in> set unjustified" "fp_number F x = a" using in_u [of a] ab by (auto simp: image_iff)
    then show "fp_number F (hd unjustified) \<le> a" using sorted_hd_last(1) [OF sorted_u] by blast
    show "a \<le> fp_number F (hd unjustified)" using in_u [THEN iffD1, OF imageI [OF hd_in_set [OF ne(1)]]] by (rule conjunct1)
  qed
  have last_u: "fp_number F (last unjustified) = b"
  proof (rule antisym)
    obtain x where "x \<in> set unjustified" "fp_number F x = b" using in_u [of b] ab by (auto simp: image_iff)
    then show "b \<le> fp_number F (last unjustified)" using sorted_hd_last(2) [OF sorted_u] by blast
    show "fp_number F (last unjustified) \<le> b" using in_u [THEN iffD1, OF imageI [OF last_in_set [OF ne(1)]]] by (rule conjunct2)
  qed
  define k where "k = min b (fst (last recent))"
  define i where "i = (case binary_search_by_key fst recent k of Inr index \<Rightarrow> index | Inl index \<Rightarrow> index - 1)"
  note search = search_last_le [OF sorted_r ne(2), where k = k, folded i_def]
  obtain n p where np: "recent ! i = (n, p)" by (cases "recent ! i")
  have mem: "(n, p) \<in> set recent" using search(1) np nth_mem by metis
  have le_k: "m \<le> k" if "m \<in> common" for m
    using that sorted_hd_last(2) [OF sorted_r] by (auto simp: common_def k_def)
  have best: "m \<le> n \<and> n \<le> k" if "m \<in> common" for m
    using that search(2) le_k [OF that] np by (auto simp: common_def)
  have eq: "select_better_recent_finality_proof F recent unjustified sel =
     (if \<not> (max a (fst (hd recent)) \<le> n \<and> n \<le> k) then Some sel
      else case binary_search_by_key (fp_number F) unjustified n of
             Inr position \<Rightarrow> Some (Some (unjustified ! position, p)) | Inl _ \<Rightarrow> None)"
    unfolding select_better_recent_finality_proof_def Let_def hd_u last_u k_def [symmetric] i_def [symmetric] np
    using ne by (simp del: max.bounded_iff)
  have hd_r: "fst (hd recent) \<le> n" using sorted_hd_last(1) [OF sorted_r mem] by simp
  show ?thesis
  proof (cases "a \<le> n \<and> n \<le> k")
    case True
    then have "n \<in> fp_number F ` set unjustified" unfolding in_u by (simp add: k_def)
    then obtain x where "x \<in> set unjustified" "fp_number F x = n" by blast
    then obtain j where "binary_search_by_key (fp_number F) unjustified n = Inr j" "j < length unjustified"
        "fp_number F (unjustified ! j) = n"
      by (rule binary_search_found [OF sorted_u])
    then have "select_better_recent_finality_proof F recent unjustified sel = Some (Some (unjustified ! j, p))"
      and "unjustified ! j \<in> set unjustified" and "(fp_number F (unjustified ! j), p) \<in> set recent"
      and "\<forall>m \<in> common. m \<le> fp_number F (unjustified ! j)"
      using True hd_r mem best by (auto simp: eq)
    then show ?thesis by blast
  next
    case False
    then have "common = {}" using best by (force simp: common_def)
    moreover have "\<not> (max a (fst (hd recent)) \<le> n \<and> n \<le> k)" using False by simp
    ultimately show ?thesis unfolding eq by simp
  qed
qed

lemma prune_spec:
  assumes "sorted_wrt (<) (map fst recent)"
  shows "\<exists>gone. recent = gone @ prune_recent_finality_proofs n recent limit" and
    "length (prune_recent_finality_proofs n recent limit) \<le> limit" and
    "\<And>m p. (m, p) \<in> set (prune_recent_finality_proofs n recent limit) \<Longrightarrow> n < m"
proof -
  have sorted: "sorted (map fst recent)" using assms strict_sorted_iff by blast
  define idx where "idx = (case binary_search_by_key fst recent n of Inr idx \<Rightarrow> idx + 1 | Inl idx \<Rightarrow> idx)"
  have eq: "prune_recent_finality_proofs n recent limit = drop (max idx (length recent - limit)) recent"
    by (simp add: prune_recent_finality_proofs_def Let_def idx_def)
  show "\<exists>gone. recent = gone @ prune_recent_finality_proofs n recent limit"
    unfolding eq by (metis append_take_drop_id)
  show "length (prune_recent_finality_proofs n recent limit) \<le> limit" unfolding eq by simp
  fix m p assume "(m, p) \<in> set (prune_recent_finality_proofs n recent limit)"
  then have "(m, p) \<in> set (drop idx recent)"
    unfolding eq by (metis max.cobounded1 set_drop_subset_set_drop subsetD)
  then obtain j where j: "idx + j < length recent" "recent ! (idx + j) = (m, p)"
    by (auto simp: in_set_conv_nth less_diff_conv add.commute)
  show "n < m"
  proof (cases "binary_search_by_key fst recent n")
    case (Inl i)
    then show ?thesis using binary_search_spec [OF sorted, of n] j by (fastforce simp: idx_def)
  next
    case (Inr i)
    then have "fst (recent ! i) = n" "i < idx + j" using binary_search_spec [OF sorted, of n] by (auto simp: idx_def)
    then show ?thesis
      using sorted_wrt_nth_less [OF assms, of i "idx + j"] j by simp
  qed
qed

section \<open>The selected header\<close>

definition provable_at ::
  "('se, 'header, 'number, 'fproof) finality_source \<Rightarrow> ('number \<times> 'fproof) list \<Rightarrow> 'number \<Rightarrow> bool" where
  "provable_at S recent n \<longleftrightarrow> persistent_at S n \<or> n \<in> fst ` set recent"

text \<open>A proof that the relay knows of the header at \<open>n\<close>: a persistent or a recent one.\<close>

definition proof_known ::
  "('se, 'header, 'number, 'fproof) finality_source \<Rightarrow> ('number \<times> 'fproof) list \<Rightarrow> 'number \<Rightarrow> 'header \<Rightarrow> 'fproof \<Rightarrow> bool" where
  "proof_known S recent n h p \<longleftrightarrow>
     fs_header_and_finality_proof S n = Inr (h, Some p) \<or> (header_at S n h \<and> (n, p) \<in> set recent)"

text \<open>
  The reference: the first mandatory header after \<open>t\<close>, or else the best one up to \<open>b\<close> that can be
  proved.
\<close>

fun best_selection ::
  "('header, 'hash, 'number::linorder, 'fproof) finality_pipeline \<Rightarrow> ('se, 'header, 'number, 'fproof) finality_source \<Rightarrow>
     ('number \<times> 'fproof) list \<Rightarrow> 'number \<Rightarrow> 'number \<Rightarrow> ('header \<times> 'fproof) option \<Rightarrow> bool" where
  "best_selection F S recent t b None \<longleftrightarrow>
     (\<forall>m. t < m \<and> m \<le> b \<longrightarrow> regular_at F S m \<and> \<not> provable_at S recent m)"
| "best_selection F S recent t b (Some (h, p)) \<longleftrightarrow>
     t < fp_number F h \<and> fp_number F h \<le> b \<and> proof_known S recent (fp_number F h) h p \<and> fp_target_header_number F p = fp_number F h \<and>
     (\<forall>m. t < m \<and> m < fp_number F h \<longrightarrow> regular_at F S m) \<and>
     (fp_is_mandatory F h \<or>
      (\<forall>m. t < m \<and> m \<le> b \<longrightarrow> regular_at F S m \<and> (provable_at S recent m \<longrightarrow> m \<le> fp_number F h)))"

lemma number_succ_le_iff: "lo < - 1 \<Longrightarrow> lo + 1 \<le> n \<longleftrightarrow> lo < n" for lo n :: "'l::len word"
  by (simp add: word_le_nat_alt word_less_nat_alt unat_succ [of lo] Suc_le_eq)

lemma number_range_unique:
  assumes "sorted_wrt (<) xs" and "set xs = {n. lo < n \<and> n \<le> b}" and "lo < - 1"
  shows "xs = number_range (lo + 1) b"
  by (rule strict_sorted_equal) (use assms number_range_sorted in \<open>auto simp: set_number_range number_succ_le_iff\<close>)

lemma source_consistentD:
  assumes "source_consistent F S" and "fs_header_and_finality_proof S n = Inr (h, fp)"
  shows "fp_number F h = n" and "fp = Some p \<Longrightarrow> fp_target_header_number F p = n"
  using assms by (auto simp: source_consistent_def)

text \<open>The headers that have been read without a mandatory one: where they start, and their numbers.\<close>

lemma headers_read_range:
  assumes S: "source_consistent F S" and read: "headers_read F S (number_range (t + 1) b) unjustified selected"
    and t: "t < - 1" "b < - 1"
  obtains lo where "t \<le> lo" and "map (fp_number F) unjustified = number_range (lo + 1) b" and "lo < - 1"
    and "\<And>n. lo < n \<Longrightarrow> n \<le> b \<Longrightarrow> \<not> persistent_at S n"
    and "\<And>h. h \<in> set unjustified \<Longrightarrow> header_at S (fp_number F h) h"
    and "case selected of None \<Rightarrow> lo = t
         | Some (h, p) \<Rightarrow> t < lo \<and> lo \<le> b \<and> fs_header_and_finality_proof S lo = Inr (h, Some p)"
proof -
  obtain pre post where ns: "number_range (t + 1) b = pre @ post"
    and post: "list_all2 (\<lambda>n h. fs_header_and_finality_proof S n = Inr (h, None)) post unjustified"
    and sel: "case selected of None \<Rightarrow> pre = []
         | Some (h, p) \<Rightarrow> \<exists>pre' n. pre = pre' @ [n] \<and> fs_header_and_finality_proof S n = Inr (h, Some p)"
    using read by (auto simp: headers_read_def)
  have sorted: "sorted_wrt (<) (pre @ post)" using number_range_sorted [of "t + 1" b] by (simp add: ns)
  have set_ns: "set (pre @ post) = {n. t < n \<and> n \<le> b}"
    using set_number_range [of "t + 1" b] by (simp add: ns number_succ_le_iff [OF t(1)])
  have numbers: "map (fp_number F) unjustified = post"
    using post by (induction rule: list_all2_induct) (auto dest: source_consistentD [OF S])
  define lo where "lo = (if pre = [] then t else last pre)"
  have lo: "t \<le> lo" "lo < - 1" and lo_b: "pre \<noteq> [] \<Longrightarrow> t < lo \<and> lo \<le> b"
    using set_ns last_in_set [of pre] t by (auto simp: lo_def intro: less_imp_le order_le_less_trans)
  have set_post: "set post = {n. lo < n \<and> n \<le> b}"
  proof (cases "pre = []")
    case True
    then show ?thesis using set_ns by (simp add: lo_def)
  next
    case False
    then obtain pre' where pre: "pre = pre' @ [lo]" by (metis append_butlast_last_id lo_def)
    have sorted': "sorted_wrt (<) (pre' @ [lo] @ post)" using sorted by (simp add: pre)
    have "\<forall>n \<in> set pre. n \<le> lo" using sorted' by (auto simp: pre sorted_wrt_append)
    moreover have "\<forall>n \<in> set post. lo < n" using sorted' by (auto simp: sorted_wrt_append)
    moreover have "n \<in> set pre \<or> n \<in> set post \<longleftrightarrow> t < n \<and> n \<le> b" for n using set_ns by (auto simp: set_eq_iff)
    ultimately show ?thesis using lo(1) by (intro set_eqI iffI CollectI) (metis, metis mem_Collect_eq leD order_le_less_trans)
  qed
  have range: "post = number_range (lo + 1) b"
    using sorted set_post lo(2) by (intro number_range_unique) (auto simp: sorted_wrt_append)
  have none: "\<exists>h. fs_header_and_finality_proof S n = Inr (h, None)" if "n \<in> set post" for n
    using post that by (auto simp: list_all2_conv_all_nth in_set_conv_nth)
  show thesis
  proof (rule that [OF lo(1) _ lo(2)])
    show "map (fp_number F) unjustified = number_range (lo + 1) b" by (simp add: numbers range)
    show "\<not> persistent_at S n" if "lo < n" "n \<le> b" for n
    proof -
      have "n \<in> set post" using that by (simp add: set_post)
      then show ?thesis using none by (fastforce simp: persistent_at_def)
    qed
    show "header_at S (fp_number F h) h" if "h \<in> set unjustified" for h
      using post that by (auto simp: list_all2_conv_all_nth in_set_conv_nth header_at_def) (metis source_consistentD(1) [OF S])
    show "case selected of None \<Rightarrow> lo = t
         | Some (h, p) \<Rightarrow> t < lo \<and> lo \<le> b \<and> fs_header_and_finality_proof S lo = Inr (h, Some p)"
      using sel lo_b by (auto simp: lo_def split: option.splits)
  qed
qed

lemma select_better_best:
  assumes S: "source_consistent F S" and read: "headers_read F S (number_range (t + 1) b) unjustified selected"
    and t: "t < - 1" "b < - 1" and recent: "recent_sorted F recent"
  obtains r where "select_better_recent_finality_proof F recent unjustified selected = Some r"
    and "best_selection F S recent t b r"
proof -
  have nm: "regular_at F S m" if "t < m" "m \<le> b" for m
    using read that by (simp add: headers_read_def set_number_range number_succ_le_iff [OF t(1)])
  have sorted: "sorted_wrt (<) (map fst recent)" and target: "\<And>n p. (n, p) \<in> set recent \<Longrightarrow> fp_target_header_number F p = n"
    using recent by (auto simp: recent_sorted_def)
  obtain lo where lo: "t \<le> lo" "map (fp_number F) unjustified = number_range (lo + 1) b" "lo < - 1"
      "\<And>n. lo < n \<Longrightarrow> n \<le> b \<Longrightarrow> \<not> persistent_at S n" "\<And>h. h \<in> set unjustified \<Longrightarrow> header_at S (fp_number F h) h"
    and sel: "case selected of None \<Rightarrow> lo = t
         | Some (h, p) \<Rightarrow> t < lo \<and> lo \<le> b \<and> fs_header_and_finality_proof S lo = Inr (h, Some p)"
    using headers_read_range [OF S read t] by metis
  define common where "common = fst ` set recent \<inter> {n. lo < n \<and> n \<le> b}"
  have common: "provable_at S recent m \<longleftrightarrow> m \<in> common" if "lo < m" "m \<le> b" for m
    using that lo(4) by (auto simp: provable_at_def common_def)
  note spec = select_better_spec [OF sorted lo(2), of selected, unfolded number_succ_le_iff [OF lo(3)], folded common_def]
  show thesis
    using spec
  proof (elim disjE conjE exE)
    assume "common = {}" and eq: "select_better_recent_finality_proof F recent unjustified selected = Some selected"
    then have none: "\<not> provable_at S recent m" if "lo < m" "m \<le> b" for m using common that by blast
    have "best_selection F S recent t b selected"
    proof (cases selected)
      case None
      then show ?thesis using sel nm none by simp
    next
      case (Some hp)
      obtain h p where "selected = Some (h, p)" using Some by (cases hp) simp
      moreover from this sel have "t < lo" "lo \<le> b" and h: "fs_header_and_finality_proof S lo = Inr (h, Some p)" by simp_all
      moreover have "m \<le> lo" if "t < m" "m \<le> b" "provable_at S recent m" for m
        using none that by (meson linorder_not_le)
      ultimately show ?thesis
        using nm source_consistentD [OF S h] by (auto simp: proof_known_def)
    qed
    with eq show thesis by (rule that)
  next
    fix h p
    assume eq: "select_better_recent_finality_proof F recent unjustified selected = Some (Some (h, p))"
      and h: "h \<in> set unjustified" and p: "(fp_number F h, p) \<in> set recent" and max: "\<forall>m \<in> common. m \<le> fp_number F h"
    have "fp_number F h \<in> set (number_range (lo + 1) b)" using h lo(2) by (metis image_eqI set_map)
    then have range: "lo < fp_number F h" "fp_number F h \<le> b" by (simp_all add: set_number_range number_succ_le_iff [OF lo(3)])
    have "m \<le> fp_number F h" if "t < m" "m \<le> b" "provable_at S recent m" for m
      using max common that range by (meson linorder_not_le order.strict_trans1 order_less_imp_le)
    then have "best_selection F S recent t b (Some (h, p))"
      using nm range lo(1) lo(5) [OF h] target [OF p] p by (auto simp: proof_known_def)
    with eq show thesis by (rule that)
  qed
qed

text \<open>When only mandatory headers are relayed: the first one after \<open>t\<close>, up to \<open>b\<close>.\<close>

fun mandatory_selection ::
  "('header, 'hash, 'number::linorder, 'fproof) finality_pipeline \<Rightarrow> ('se, 'header, 'number, 'fproof) finality_source \<Rightarrow>
     'number \<Rightarrow> 'number \<Rightarrow> ('header \<times> 'fproof) option \<Rightarrow> bool" where
  "mandatory_selection F S t b None \<longleftrightarrow> (\<forall>m. t < m \<and> m \<le> b \<longrightarrow> regular_at F S m)"
| "mandatory_selection F S t b (Some (h, p)) \<longleftrightarrow>
     t < fp_number F h \<and> fp_number F h \<le> b \<and> fs_header_and_finality_proof S (fp_number F h) = Inr (h, Some p) \<and>
     fp_target_header_number F p = fp_number F h \<and> fp_is_mandatory F h \<and>
     (\<forall>m. t < m \<and> m < fp_number F h \<longrightarrow> regular_at F S m)"

lemma mandatory_selection_best:
  "mandatory_selection F S t b (Some (h, p)) \<Longrightarrow> best_selection F S recent t b (Some (h, p))"
  by (simp add: proof_known_def)

text \<open>Why the selection fails: a header cannot be read, or a mandatory one has no proof.\<close>

fun selection_error ::
  "('header, 'hash, 'number, 'fproof) finality_pipeline \<Rightarrow> ('se, 'header, 'number, 'fproof) finality_source \<Rightarrow> 'number \<Rightarrow>
     ('se, 'te, 'number) finality_error \<Rightarrow> bool" where
  "selection_error F S n (FinalitySourceError e) \<longleftrightarrow> fs_header_and_finality_proof S n = Inl e"
| "selection_error F S n (MissingMandatoryFinalityProof m) \<longleftrightarrow>
     (\<exists>h. fs_header_and_finality_proof S n = Inr (h, None) \<and> fp_is_mandatory F h \<and> m = fp_number F h)"
| "selection_error F S n (FinalityTargetError e) \<longleftrightarrow> False"

lemma read_headers_error:
  "read_headers F S ns unjustified selected = Inl e \<Longrightarrow> \<exists>n \<in> set ns. selection_error F S n e"
proof (induction ns arbitrary: unjustified selected)
  case (Cons n ns)
  show ?case
  proof (rule ccontr)
    assume "\<not> ?thesis"
    then have no: "\<not> selection_error F S n e" "\<And>u s. read_headers F S ns u s \<noteq> Inl e" using Cons.IH by auto
    then show False using Cons.prems by (auto split: sum.splits option.splits if_splits)
  qed
qed (auto split: option.splits)

lemma selection_ok_mandatory:
  assumes S: "source_consistent F S" and "selection_ok F S [] (number_range (t + 1) b) (SelectedMandatory h p)" and t: "t < - 1"
  shows "mandatory_selection F S t b (Some (h, p))"
proof -
  obtain pre n post where ns: "number_range (t + 1) b = pre @ n # post"
    and n: "fs_header_and_finality_proof S n = Inr (h, Some p)" "fp_is_mandatory F h" "\<forall>m \<in> set pre. regular_at F S m"
    using assms(2) by auto
  have mem: "m \<in> set (pre @ n # post) \<longleftrightarrow> t < m \<and> m \<le> b" for m
    using set_number_range [of "t + 1" b] by (simp add: ns number_succ_le_iff [OF t])
  have "m \<in> set pre" if "t < m" "m < n" for m
  proof -
    have "m \<in> set (pre @ n # post)" using that mem [of n] mem [of m] by auto
    then show ?thesis using number_range_sorted [of "t + 1" b] that by (auto simp: ns sorted_wrt_append)
  qed
  then show ?thesis using n mem [of n] source_consistentD [OF S n(1)] by simp
qed

text \<open>The proofs that the relay knows when it selects a header: the recent ones and those of the stream.\<close>

definition known_proofs ::
  "('header, 'hash, 'number, 'fproof) finality_pipeline \<Rightarrow> 'fproof restartable_stream \<Rightarrow> ('number \<times> 'fproof) list \<Rightarrow>
     ('number \<times> 'fproof) list" where
  "known_proofs F stream recent = snd (read_finality_proofs_from_stream F stream recent)"

lemma select_better_pruned:
  assumes S: "source_consistent F S" and t: "t < - 1" "b < - 1" and recent: "recent_sorted F (known_proofs F stream recent)"
    and read: "headers_read F S (number_range (t + 1) b) unjustified selected"
  obtains r recent' gone where
    "select_better_recent_finality_proof F (known_proofs F stream recent) unjustified selected = Some r"
    "best_selection F S (known_proofs F stream recent) t b r"
    "prune_recent_finality_proofs (case r of Some (header, _) \<Rightarrow> fp_number F header | None \<Rightarrow> t)
       (known_proofs F stream recent) limit = recent'"
    "known_proofs F stream recent = gone @ recent'" "length recent' \<le> limit"
    "\<forall>(m, p) \<in> set recent'. (case r of Some (h, _) \<Rightarrow> fp_number F h | None \<Rightarrow> t) < m"
proof -
  obtain r where r: "select_better_recent_finality_proof F (known_proofs F stream recent) unjustified selected = Some r"
      "best_selection F S (known_proofs F stream recent) t b r"
    using select_better_best [OF S read t recent] .
  note prune = prune_spec [where recent = "known_proofs F stream recent" and limit = limit
      and n = "case r of Some (header, _) \<Rightarrow> fp_number F header | None \<Rightarrow> t"]
  have sorted: "sorted_wrt (<) (map fst (known_proofs F stream recent))" using recent by (simp add: recent_sorted_def)
  from prune(1) [OF sorted] obtain gone where gone: "known_proofs F stream recent = gone @
    prune_recent_finality_proofs (case r of Some (header, _) \<Rightarrow> fp_number F header | None \<Rightarrow> t) (known_proofs F stream recent) limit" ..
  show thesis
    by (rule that [OF r refl gone prune(2) [OF sorted]]) (use prune(3) [OF sorted] in auto)
qed

text \<open>The result of the selection and the recent proofs that are kept after it.\<close>

definition selection_result ::
  "('header, 'hash, 'number::linorder, 'fproof) finality_pipeline \<Rightarrow> ('se, 'header, 'number, 'fproof) finality_source \<Rightarrow>
     ('number \<times> 'fproof) list \<Rightarrow> 'number \<Rightarrow> 'number \<Rightarrow> bool \<Rightarrow> ('se, 'te, 'number) finality_error + ('header \<times> 'fproof) option \<Rightarrow> bool" where
  "selection_result F S recent t b only_mandatory r \<longleftrightarrow>
     (case r of
        Inl e \<Rightarrow> \<exists>n. t < n \<and> n \<le> b \<and> selection_error F S n e
      | Inr selected \<Rightarrow>
          if only_mandatory then mandatory_selection F S t b selected else best_selection F S recent t b selected)"

lemma select_header_to_submit_spec:
  fixes F :: "('header, 'hash, 'l::len word, 'fproof) finality_pipeline" and S :: "('se, 'header, 'l word, 'fproof) finality_source"
  assumes S: "source_consistent F S" and t: "t < - 1" "b < - 1" and recent: "recent_sorted F (known_proofs F stream recent)"
  obtains r :: "('se, 'te, 'l word) finality_error + ('header \<times> 'fproof) option" and stream' recent' gone where
    "select_header_to_submit F S stream recent b t sync_params = Some (r, stream', recent')"
    "selection_result F S (known_proofs F stream recent) t b (fsp_only_mandatory_headers sync_params) r"
    "stream' = stream \<and> recent' = recent \<or>
     known_proofs F stream recent = gone @ recent' \<and> length recent' \<le> fsp_recent_finality_proofs_limit sync_params \<and>
     stream' = fst (read_finality_proofs_from_stream F stream recent)"
proof -
  let ?ns = "number_range (t + 1) b"
  have read: "read_missing_headers F S b t = Some (read_headers F S ?ns [] None)"
    unfolding read_missing_headers_def by (rule read_missing_headers_loop_all [OF t(2)])
  have mem: "n \<in> set ?ns \<longleftrightarrow> t < n \<and> n \<le> b" for n by (simp add: set_number_range number_succ_le_iff [OF t(1)])
  have none: "headers_read F S [] [] None" by (simp add: headers_read_def)
  show thesis
  proof (cases "read_headers F S ?ns [] None :: ('se, 'te, 'l word) finality_error + _")
    case (Inl e)
    then show thesis using read_headers_error [OF Inl] mem
      by (intro that [of "Inl e" stream recent]) (auto simp: select_header_to_submit_def read selection_result_def)
  next
    case (Inr sel)
    then have ok: "selection_ok F S [] ?ns sel" by (rule read_headers_spec [OF none])
    show thesis
    proof (cases "\<exists>h p. sel = SelectedMandatory h p")
      case True
      then obtain h p where sel: "sel = SelectedMandatory h p" by blast
      have "mandatory_selection F S t b (Some (h, p))" by (rule selection_ok_mandatory [OF S ok [unfolded sel] t(1)])
      then have "selection_result F S (known_proofs F stream recent) t b (fsp_only_mandatory_headers sync_params) (Inr (Some (h, p)))"
        unfolding selection_result_def using mandatory_selection_best [of F S t b h p] by (simp del: mandatory_selection.simps best_selection.simps)
      then show thesis
        by (intro that [of "Inr (Some (h, p))" stream recent]) (simp_all add: select_header_to_submit_def read Inr sel)
    next
      case False
      then obtain unjustified selected where hr: "headers_read F S ?ns unjustified selected"
        and sel: "sel = (case selected of Some (h, p) \<Rightarrow> SelectedRegular unjustified h p | None \<Rightarrow> SelectedNone unjustified)"
        using ok by (cases sel) fastforce+
      have step: "select_header_to_submit F S stream recent b t sync_params =
        (if fsp_only_mandatory_headers sync_params then Some (Inr None :: ('se, 'te, 'l word) finality_error + _, stream, recent)
         else do {
           selected \<leftarrow> select_better_recent_finality_proof F (known_proofs F stream recent) unjustified selected;
           Some (Inr selected, fst (read_finality_proofs_from_stream F stream recent),
             prune_recent_finality_proofs (case selected of Some (header, _) \<Rightarrow> fp_number F header | None \<Rightarrow> t)
               (known_proofs F stream recent) (fsp_recent_finality_proofs_limit sync_params))
         })"
        by (cases selected) (auto simp: select_header_to_submit_def read Inr sel Let_def known_proofs_def split: prod.split)
      show thesis
      proof (cases "fsp_only_mandatory_headers sync_params")
        case True
        have "\<forall>m. t < m \<and> m \<le> b \<longrightarrow> regular_at F S m" using hr mem by (simp add: headers_read_def)
        then show thesis using True by (intro that [of "Inr None" stream recent]) (simp_all add: step selection_result_def)
      next
        case False
        obtain r recent' gone where
          "select_better_recent_finality_proof F (known_proofs F stream recent) unjustified selected = Some r"
          "best_selection F S (known_proofs F stream recent) t b r"
          "prune_recent_finality_proofs (case r of Some (header, _) \<Rightarrow> fp_number F header | None \<Rightarrow> t)
             (known_proofs F stream recent) (fsp_recent_finality_proofs_limit sync_params) = recent'"
          "known_proofs F stream recent = gone @ recent'" "length recent' \<le> fsp_recent_finality_proofs_limit sync_params"
          by (rule select_better_pruned [OF S t recent hr])
        then show thesis
          using False
          by (intro that [of "Inr r" "fst (read_finality_proofs_from_stream F stream recent)" recent' gone])
            (simp_all add: step selection_result_def)
      qed
    qed
  qed
qed

end
