(* ===== verification/Finality_Clients.thy ===== *)
theory Finality_Clients
  imports Finality_Loop Grandpa_Pallet
begin

text \<open>
  The Substrate clients of the finality relay for chains with GRANDPA finality
  (\<open>relays/lib-substrate-relay/src/finality/source.rs\<close>, \<open>target.rs\<close>, \<open>engine.rs\<close> and
  \<open>initialize.rs\<close>), and the headers that they relay (\<open>relays/client-substrate/src/sync_header.rs\<close>).
  RPC answers and the decoding of bytes are parameters.
\<close>

section \<open>The pipeline\<close>

definition sync_header_is_mandatory ::
  "('header, 'hash, 'number, 'item) header_ops \<Rightarrow> ('item \<Rightarrow> ('number, 'id) consensus_log option) \<Rightarrow> 'header \<Rightarrow> bool" where
  "sync_header_is_mandatory H grandpa_log header = schedules_authorities_change grandpa_log (h_digest H header)"

definition grandpa_pipeline ::
  "('o, 'acc, 'header, 'hash, 'number, 'item, 'id, 'sig, 'w) grandpa_config \<Rightarrow>
     ('header, 'hash, 'number, ('hash, 'number, 'id, 'sig, 'header) grandpa_justification) finality_pipeline" where
  "grandpa_pipeline C = \<lparr>
     fp_hash = h_hash (gc_header C), fp_number = h_number (gc_header C),
     fp_is_mandatory = sync_header_is_mandatory (gc_header C) (gc_grandpa_log C),
     fp_target_header_number = target_header_number\<rparr>"

section \<open>The source\<close>

datatype 'e finality_client_error =
    FinalityRpcError 'e
  | ResponseParseFailed
  | FinalityPalletIsHalted
  | FinalityPalletIsNotInitialized
  | FinalityProofNotFound
  | CurrentAuthoritySetMissing
  | FailedToOptimize justification_error

definition source_best_finalized_block_number :: "'e + 'number::linorder \<Rightarrow> 'number option \<Rightarrow> 'e + 'number" where
  "source_best_finalized_block_number on_chain_best_finalized_block_number maximal_header_number =
     result_bind on_chain_best_finalized_block_number (\<lambda>finalized_header_number.
       case maximal_header_number of
         Some maximal_header_number \<Rightarrow>
           if finalized_header_number > maximal_header_number then Inr maximal_header_number
           else Inr finalized_header_number
       | None \<Rightarrow> Inr finalized_header_number)"

text \<open>A signed block is its header and the encoded justification of the engine, if it has one.\<close>

definition source_header_and_finality_proof ::
  "('number \<Rightarrow> 'e + 'hash) \<Rightarrow> ('hash \<Rightarrow> 'e + 'header \<times> 'bytes option) \<Rightarrow> ('bytes \<Rightarrow> 'fproof option) \<Rightarrow> 'number \<Rightarrow>
     'e finality_client_error + 'header \<times> 'fproof option" where
  "source_header_and_finality_proof block_hash_by_number get_block decode number =
     result_bind (map_sum FinalityRpcError id (block_hash_by_number number)) (\<lambda>header_hash.
     result_bind (map_sum FinalityRpcError id (get_block header_hash)) (\<lambda>(header, raw_justification).
     case raw_justification of
       None \<Rightarrow> Inr (header, None)
     | Some raw_justification \<Rightarrow>
         (case decode raw_justification of
            None \<Rightarrow> Inl ResponseParseFailed
          | Some justification \<Rightarrow> Inr (header, Some justification))))"

text \<open>
  The next item of the stream of persistent proofs: the first header from the given number on with a
  proof, or the first error; the stream ends after the best finalized header.
\<close>

partial_function (option) persistent_proofs_next ::
  "('l::len word \<Rightarrow> 'e + 'header \<times> 'fproof option) \<Rightarrow> 'l word \<Rightarrow> 'l word \<Rightarrow> ('e + 'header \<times> 'fproof) option option" where
  "persistent_proofs_next header_and_finality_proof best_finalized_block_number current_block_number =
     (if current_block_number > best_finalized_block_number then Some None
      else (case header_and_finality_proof current_block_number of
              Inl e \<Rightarrow> Some (Some (Inl e))
            | Inr (header, maybe_proof) \<Rightarrow>
                (case maybe_proof of
                   Some finality_proof \<Rightarrow> Some (Some (Inr (header, finality_proof)))
                 | None \<Rightarrow> persistent_proofs_next header_and_finality_proof best_finalized_block_number
                             (current_block_number + 1))))"

text \<open>
  The proofs that the stream of \<open>finality_proofs\<close> yields, given the answers of the subscription:
  undecodable justifications are skipped, and the stream ends with an error or with the subscription.
\<close>

fun finality_proofs_stream :: "('bytes \<Rightarrow> 'fproof option) \<Rightarrow> ('e + 'bytes option) list \<Rightarrow> 'fproof list" where
  "finality_proofs_stream decode [] = []"
| "finality_proofs_stream decode (Inl e # answers) = []"
| "finality_proofs_stream decode (Inr None # answers) = []"
| "finality_proofs_stream decode (Inr (Some next_justification) # answers) =
     (case decode next_justification of
        Some justification \<Rightarrow> justification # finality_proofs_stream decode answers
      | None \<Rightarrow> finality_proofs_stream decode answers)"

text \<open>The next item of the stream of ephemeral proofs, given the proofs that the subscription delivers.\<close>

fun ephemeral_proofs_next ::
  "('fproof \<Rightarrow> 'number::linorder) \<Rightarrow> ('number \<Rightarrow> 'e + 'header) \<Rightarrow> 'number \<Rightarrow> 'fproof list \<Rightarrow>
     ('e + 'header \<times> 'fproof) option" where
  "ephemeral_proofs_next proof_target header_by_number block_number [] = None"
| "ephemeral_proofs_next proof_target header_by_number block_number (finality_proof # proofs) =
     (if proof_target finality_proof < block_number
      then ephemeral_proofs_next proof_target header_by_number block_number proofs
      else Some (result_bind (header_by_number (proof_target finality_proof)) (\<lambda>header. Inr (header, finality_proof))))"

text \<open>
  \<open>prove_block_finality\<close>: the proof of the requested header or, if it has none, the first item of the
  two streams; \<open>persistent_first\<close> tells which stream is ready first when both have an item.
\<close>

definition prove_block_finality ::
  "('l::len word \<Rightarrow> 'e finality_client_error + 'header \<times> 'fproof option) \<Rightarrow> 'e finality_client_error + 'l word \<Rightarrow>
     ('fproof \<Rightarrow> 'l word) \<Rightarrow> ('l word \<Rightarrow> 'e finality_client_error + 'header) \<Rightarrow> 'e finality_client_error + 'fproof list \<Rightarrow> bool \<Rightarrow>
     'l word \<Rightarrow> ('e finality_client_error + 'header \<times> 'fproof) option" where
  "prove_block_finality header_and_finality_proof best_finalized_header_number proof_target header_by_number
     finality_proofs persistent_first block_number =
     (case (best_finalized_header_number, finality_proofs) of
        (Inl e, _) \<Rightarrow> Some (Inl e)
      | (Inr best, Inl e) \<Rightarrow> Some (Inl e)
      | (Inr best, Inr proofs) \<Rightarrow>
          (case header_and_finality_proof block_number of
             Inl e \<Rightarrow> Some (Inl e)
           | Inr (header, Some finality_proof) \<Rightarrow> Some (Inr (header, finality_proof))
           | Inr (header, None) \<Rightarrow>
               do {
                 next_persistent_proof \<leftarrow> persistent_proofs_next header_and_finality_proof best (block_number + 1);
                 let next_ephemeral_proof =
                       ephemeral_proofs_next proof_target header_by_number block_number proofs;
                 Some (case (next_persistent_proof, next_ephemeral_proof) of
                         (Some item, None) \<Rightarrow> item
                       | (None, Some item) \<Rightarrow> item
                       | (Some item, Some item') \<Rightarrow> if persistent_first then item else item'
                       | (None, None) \<Rightarrow> Inl FinalityProofNotFound)
               }))"

section \<open>The target\<close>

definition engine_is_initialized :: "'e + 'bytes option \<Rightarrow> 'e + bool" where
  "engine_is_initialized raw_storage_value = result_bind raw_storage_value (\<lambda>v. Inr (v \<noteq> None))"

definition engine_is_halted :: "'e + basic_operating_mode option \<Rightarrow> 'e + bool" where
  "engine_is_halted operating_mode =
     result_bind operating_mode (\<lambda>operating_mode.
       Inr (case operating_mode of Some operating_mode \<Rightarrow> basic_is_halted operating_mode | None \<Rightarrow> False))"

definition ensure_finality_pallet_active ::
  "'e + basic_operating_mode option \<Rightarrow> 'e + 'bytes option \<Rightarrow> 'e finality_client_error + unit" where
  "ensure_finality_pallet_active operating_mode raw_storage_value =
     result_bind (map_sum FinalityRpcError id (engine_is_halted operating_mode)) (\<lambda>is_halted.
     if is_halted then Inl FinalityPalletIsHalted
     else result_bind (map_sum FinalityRpcError id (engine_is_initialized raw_storage_value)) (\<lambda>is_initialized.
     if \<not> is_initialized then Inl FinalityPalletIsNotInitialized else Inr ()))"

text \<open>The answer of the target: its best finalized header of the source, as \<open>read_client_state\<close> reads it.\<close>

definition target_best_finalized_source_block_id ::
  "'e + unit \<Rightarrow> 'e + basic_operating_mode option \<Rightarrow> 'e + 'bytes option \<Rightarrow> 'e + 'header_id option \<Rightarrow>
     'e finality_client_error + 'header_id" where
  "target_best_finalized_source_block_id ensure_synced operating_mode raw_storage_value best_finalized_peer_at_best_self =
     result_bind (map_sum FinalityRpcError id ensure_synced) (\<lambda>_.
     result_bind (ensure_finality_pallet_active operating_mode raw_storage_value) (\<lambda>_.
     result_bind (map_sum FinalityRpcError id best_finalized_peer_at_best_self) (\<lambda>best.
     case best of Some best \<Rightarrow> Inr best | None \<Rightarrow> Inl FinalityPalletIsNotInitialized)))"

text \<open>\<open>VoterSet::new(..).expect(..)\<close> panics when the stored authority set is not a voter set.\<close>

definition optimize_proof ::
  "('o, 'acc, 'header, 'hash, 'number::linorder, 'item, 'id, 'sig, 'w) grandpa_config \<Rightarrow> 'e + 'id authority_set option \<Rightarrow> 'header \<Rightarrow>
     ('hash, 'number, 'id, 'sig, 'header) grandpa_justification \<Rightarrow>
     ('e finality_client_error + ('hash, 'number, 'id, 'sig, 'header) grandpa_justification) option" where
  "optimize_proof C current_authority_set header finality_proof =
     (case current_authority_set of
        Inl e \<Rightarrow> Some (Inl (FinalityRpcError e))
      | Inr None \<Rightarrow> Some (Inl CurrentAuthoritySetMissing)
      | Inr (Some authority_set) \<Rightarrow>
          (case gc_voter_set_new C (as_authorities authority_set) of
             None \<Rightarrow> None
           | Some voter_set \<Rightarrow>
               map_option (map_sum FailedToOptimize id)
                 (verify_and_optimize_justification (grandpa_justification_config C)
                    (h_hash (gc_header C) header, h_number (gc_header C) header) (as_set_id authority_set) voter_set
                    finality_proof)))"

text \<open>
  The submission of the target client: the optimized proof in a call; \<open>submit\<close> signs and submits it.
\<close>

definition target_submit_finality_proof ::
  "('o, 'acc, 'header, 'hash, 'number::linorder, 'item, 'id, 'sig, 'w) grandpa_config \<Rightarrow> 'e + 'id authority_set option \<Rightarrow>
     ('header \<Rightarrow> ('hash, 'number, 'id, 'sig, 'header) grandpa_justification \<Rightarrow> 'e finality_client_error + 'tracker) \<Rightarrow> 'header \<Rightarrow>
     ('hash, 'number, 'id, 'sig, 'header) grandpa_justification \<Rightarrow> ('e finality_client_error + 'tracker) option" where
  "target_submit_finality_proof C current_authority_set submit header finality_proof =
     map_option (\<lambda>r. result_bind r (\<lambda>finality_proof. submit header finality_proof))
       (optimize_proof C current_authority_set header finality_proof)"

section \<open>Initialization of the pallet\<close>

datatype ('e, 'hash, 'number, 'id) engine_error =
    Subscribe 'e
  | ReadJustification 'e
  | ReadJustificationStreamEnded
  | DecodeJustification
  | ReadInvalidAuthorities "'id authority_list"
  | GuessInitialAuthorities 'number
  | RetrieveAuthorities 'hash 'e
  | DecodeAuthorities 'hash
  | RetrieveHeader 'hash 'e
  | IsInitializedRetrieve 'e
  | SubmitTransaction 'e

text \<open>The loop that guesses the set id; \<open>is_valid_set_id\<close> verifies the justification with an id.\<close>

partial_function (option) guess_authorities_set_id ::
  "(u64 \<Rightarrow> bool option) \<Rightarrow> 'l::len word \<Rightarrow> u64 \<Rightarrow> 'l word \<Rightarrow> u64 option option" where
  "guess_authorities_set_id is_valid_set_id initial_header_number initial_authorities_set_id min_possible_block_number =
     Option.bind (is_valid_set_id initial_authorities_set_id) (\<lambda>is_valid.
       if is_valid then Some (Some initial_authorities_set_id)
       else if min_possible_block_number + 1 > initial_header_number then Some None
       else guess_authorities_set_id is_valid_set_id initial_header_number (initial_authorities_set_id + 1)
              (min_possible_block_number + 1))"

text \<open>The answers of the source client that the preparation reads.\<close>

record ('e, 'header, 'hash, 'id, 'just) initialization_rpc =
  ir_next_justification :: "'e + 'e + 'just option option"
  ir_header_by_hash :: "'hash \<Rightarrow> 'e + 'header"
  ir_grandpa_authorities_set :: "'hash \<Rightarrow> 'e + 'id authority_list option"

text \<open>
  The first two sums of \<open>ir_next_justification\<close> are the failed subscription and the failed read; then
  the stream may have ended or the justification may not decode (the inner \<open>None\<close>).
\<close>

fun read_next_justification ::
  "'e + 'e + 'just option option \<Rightarrow> ('e, 'hash, 'number, 'id) engine_error + 'just" where
  "read_next_justification (Inl e) = Inl (Subscribe e)"
| "read_next_justification (Inr (Inl e)) = Inl (ReadJustification e)"
| "read_next_justification (Inr (Inr None)) = Inl ReadJustificationStreamEnded"
| "read_next_justification (Inr (Inr (Some None))) = Inl DecodeJustification"
| "read_next_justification (Inr (Inr (Some (Some justification)))) = Inr justification"

definition source_authorities_set ::
  "('hash \<Rightarrow> 'e + 'id authority_list option) \<Rightarrow> 'hash \<Rightarrow> ('e, 'hash, 'number, 'id) engine_error + 'id authority_list" where
  "source_authorities_set grandpa_authorities_set header_hash =
     result_bind (map_sum (RetrieveAuthorities header_hash) id (grandpa_authorities_set header_hash)) (\<lambda>authorities.
       case authorities of Some authorities \<Rightarrow> Inr authorities | None \<Rightarrow> Inl (DecodeAuthorities header_hash))"

definition source_header :: "('hash \<Rightarrow> 'e + 'header) \<Rightarrow> 'hash \<Rightarrow> ('e, 'hash, 'number, 'id) engine_error + 'header" where
  "source_header header_by_hash header_hash = map_sum (RetrieveHeader header_hash) id (header_by_hash header_hash)"

text \<open>The assertion that a change is not delayed, and the loop, can fail: \<open>None\<close>.\<close>

definition prepare_initialization_data ::
  "('o, 'acc, 'header, 'hash, 'l::len word, 'item, 'id, 'sig, 'w) grandpa_config \<Rightarrow>
     ('e, 'header, 'hash, 'id, ('hash, 'l word, 'id, 'sig, 'header) grandpa_justification) initialization_rpc \<Rightarrow>
     (('e, 'hash, 'l word, 'id) engine_error + ('header, 'id) initialization_data) option" where
  "prepare_initialization_data C R =
     (case read_next_justification (ir_next_justification R) of
        Inl e \<Rightarrow> Some (Inl e)
      | Inr justification \<Rightarrow>
      let initial_header_hash = cm_target_hash (gj_commit justification);
          initial_header_number = cm_target_number (gj_commit justification)
      in case source_header (ir_header_by_hash R) initial_header_hash of
        Inl e \<Rightarrow> Some (Inl e)
      | Inr initial_header \<Rightarrow>
      (case source_authorities_set (ir_grandpa_authorities_set R) initial_header_hash of
        Inl e \<Rightarrow> Some (Inl e)
      | Inr initial_authorities_set \<Rightarrow>
      let scheduled_change = find_authorities_change (gc_grandpa_log C) (h_digest (gc_header C) initial_header)
      in if (case scheduled_change of Some change \<Rightarrow> sc_delay change \<noteq> 0 | None \<Rightarrow> False) then None
      else
      let schedules_change = (scheduled_change \<noteq> None)
      in case (if schedules_change
               then source_authorities_set (ir_grandpa_authorities_set R) (h_parent_hash (gc_header C) initial_header)
               else Inr initial_authorities_set) of
        Inl e \<Rightarrow> Some (Inl e)
      | Inr authorities_for_verification \<Rightarrow>
      (case gc_voter_set_new C authorities_for_verification of
        None \<Rightarrow> Some (Inl (ReadInvalidAuthorities authorities_for_verification))
      | Some voter_set \<Rightarrow>
      do {
        guessed \<leftarrow> guess_authorities_set_id
          (\<lambda>set_id. map_option (\<lambda>r. case r of Inr _ \<Rightarrow> True | Inl _ \<Rightarrow> False)
             (verify_and_optimize_justification (grandpa_justification_config C)
                (initial_header_hash, initial_header_number) set_id voter_set justification))
          initial_header_number 0 0;
        Some (case guessed of
                None \<Rightarrow> Inl (GuessInitialAuthorities initial_header_number)
              | Some initial_authorities_set_id \<Rightarrow> Inr \<lparr>
                  id_header = initial_header, id_authority_list = initial_authorities_set,
                  id_set_id = (if schedules_change then initial_authorities_set_id + 1 else initial_authorities_set_id),
                  id_operating_mode = Normal\<rparr>)
      })))"

text \<open>
  \<open>do_initialize\<close>: \<open>submit\<close> signs and submits the transaction with the prepared data and waits for its
  status. In the dry-run mode nothing is submitted.
\<close>

definition do_initialize ::
  "'e + bool \<Rightarrow> (('e, 'hash, 'number, 'id) engine_error + 'data) option \<Rightarrow> ('data \<Rightarrow> 'e + 'status) \<Rightarrow> 'e \<Rightarrow> bool \<Rightarrow>
     (('e, 'hash, 'number, 'id) engine_error + 'status option) option" where
  "do_initialize is_initialized prepared submit dry_run_error dry_run =
     (case map_sum IsInitializedRetrieve id is_initialized of
        Inl e \<Rightarrow> Some (Inl e)
      | Inr is_initialized \<Rightarrow>
          if is_initialized \<and> \<not> dry_run then Some (Inr None)
          else map_option (\<lambda>r. result_bind r (\<lambda>initialization_data.
                 result_bind
                   (map_sum SubmitTransaction id (if dry_run then Inl dry_run_error else submit initialization_data))
                   (\<lambda>tx_status. Inr (Some tx_status)))) prepared)"

end
