(* ===== verification/Finality_Properties.thy ===== *)
theory Finality_Properties
  imports Finality_Selection Finality_Clients Grandpa_Properties
begin

text \<open>
  The finality relay and the GRANDPA pallet together: the relay selects the right header, the pallet
  accepts what the relay submits, and the pallet that the relay has initialized follows the chain.
\<close>

section \<open>The source chain\<close>

text \<open>
  A finalized chain and the authority set that has to sign the header of each number. Documented
  restrictions of the bridged chain: a header has at most one GRANDPA log, which is no forced change,
  and scheduled changes are enacted at once.
\<close>

definition bridged_chain ::
  "('o, 'acc, 'header, 'hash, 'l::len word, 'item, 'id, 'sig, 'w) grandpa_config \<Rightarrow> ('l word \<Rightarrow> 'header) \<Rightarrow>
     ('l word \<Rightarrow> 'id authority_set) \<Rightarrow> bool" where
  "bridged_chain C chain auth \<longleftrightarrow>
     (\<forall>n. h_number (gc_header C) (chain n) = n \<and>
        length (filter (\<lambda>item. gc_grandpa_log C item \<noteq> None) (h_digest (gc_header C) (chain n))) \<le> 1 \<and>
        find_forced_change C (chain n) = None \<and>
        (\<forall>change. find_scheduled_change C (chain n) = Some change \<longrightarrow>
           sc_delay change = 0 \<and> length (sc_next_authorities change) \<le> unat (gc_max_authorities_count C)) \<and>
        gc_voter_set_new C (as_authorities (auth n)) \<noteq> None \<and>
        (n < - 1 \<longrightarrow> auth (n + 1) = next_authority_set C (chain n) (auth n)))"

text \<open>A justification of the header of a number, by the authorities that have to sign it.\<close>

definition finality_proved ::
  "('o, 'acc, 'header, 'hash, 'l::len word, 'item, 'id, 'sig, 'w) grandpa_config \<Rightarrow> ('l word \<Rightarrow> 'header) \<Rightarrow>
     ('l word \<Rightarrow> 'id authority_set) \<Rightarrow> 'l word \<Rightarrow> ('hash, 'l word, 'id, 'sig, 'header) grandpa_justification \<Rightarrow> bool" where
  "finality_proved C chain auth n j \<longleftrightarrow>
     target_header_number j = n \<and>
     (\<forall>voters. gc_voter_set_new C (as_authorities (auth n)) = Some voters \<longrightarrow>
        (\<exists>j'. verify_and_optimize_justification (grandpa_justification_config C)
           (h_hash (gc_header C) (chain n), n) (as_set_id (auth n)) voters j = Some (Inr j')))"

definition source_follows ::
  "('o, 'acc, 'header, 'hash, 'l::len word, 'item, 'id, 'sig, 'w) grandpa_config \<Rightarrow> ('l word \<Rightarrow> 'header) \<Rightarrow>
     ('l word \<Rightarrow> 'id authority_set) \<Rightarrow>
     ('se, 'header, 'l word, ('hash, 'l word, 'id, 'sig, 'header) grandpa_justification) finality_source \<Rightarrow> bool" where
  "source_follows C chain auth S \<longleftrightarrow>
     (\<forall>n h fp. fs_header_and_finality_proof S n = Inr (h, fp) \<longrightarrow>
        h = chain n \<and> (\<forall>j. fp = Some j \<longrightarrow> finality_proved C chain auth n j))"

text \<open>The pallet knows a header of the chain as its best one, and the authorities of the next one.\<close>

definition in_sync ::
  "('o, 'acc, 'header, 'hash, 'l::len word, 'item, 'id, 'sig, 'w) grandpa_config \<Rightarrow> ('l word \<Rightarrow> 'header) \<Rightarrow>
     ('l word \<Rightarrow> 'id authority_set) \<Rightarrow> 'l word \<Rightarrow> ('acc, 'hash, 'l word, 'id) grandpa_state \<Rightarrow> bool" where
  "in_sync C chain auth t s \<longleftrightarrow>
     t < - 1 \<and> gs_best_finalized s = Some (HeaderId t (h_hash (gc_header C) (chain t))) \<and>
     gs_current_authority_set s = auth (t + 1)"

text \<open>
  The target client answers from the state of the pallet. What it tracks is the submitted call: the
  header with the optimized justification.
\<close>

definition target_follows ::
  "('o, 'acc, 'header, 'hash, 'l::len word, 'item, 'id, 'sig, 'w) grandpa_config \<Rightarrow> ('acc, 'hash, 'l word, 'id) grandpa_state \<Rightarrow>
     ('te finality_client_error, 'header, 'hash, 'l word, ('hash, 'l word, 'id, 'sig, 'header) grandpa_justification,
       'header \<times> ('hash, 'l word, 'id, 'sig, 'header) grandpa_justification) finality_target \<Rightarrow> bool" where
  "target_follows C s T \<longleftrightarrow>
     (\<forall>best. gs_best_finalized s = Some best \<longrightarrow> ft_best_finalized_source_block_id T = Inr best) \<and>
     (\<forall>h j r. target_submit_finality_proof C (Inr (Some (gs_current_authority_set s)) :: 'te + _) (\<lambda>h j. Inr (h, j)) h j = Some r \<longrightarrow>
        ft_submit_finality_proof T h j = r)"

section \<open>Authority sets\<close>

lemma bridged_chainD:
  assumes "bridged_chain C chain auth"
  shows "h_number (gc_header C) (chain n) = n" "find_forced_change C (chain n) = None"
    "find_scheduled_change C (chain n) = Some change \<Longrightarrow>
       sc_delay change = 0 \<and> length (sc_next_authorities change) \<le> unat (gc_max_authorities_count C)"
    "\<exists>voters. gc_voter_set_new C (as_authorities (auth n)) = Some voters"
    "n < - 1 \<Longrightarrow> auth (n + 1) = next_authority_set C (chain n) (auth n)"
    "find_authorities_change (gc_grandpa_log C) (h_digest (gc_header C) (chain n)) = find_scheduled_change C (chain n)"
  using assms unfolding bridged_chain_def find_authorities_change_def find_scheduled_change_def
  by (auto intro: convert_first_single)

lemma mandatory_iff:
  "bridged_chain C chain auth \<Longrightarrow>
     fp_is_mandatory (grandpa_pipeline C) (chain n) \<longleftrightarrow> find_scheduled_change C (chain n) \<noteq> None"
  by (simp add: grandpa_pipeline_def sync_header_is_mandatory_def schedules_authorities_change_def bridged_chainD(6))

text \<open>Without a mandatory header in between the authority set stays the same.\<close>

lemma of_nat_less_max: "Suc i < 2 ^ LENGTH('l) \<Longrightarrow> (of_nat i :: 'l::len word) < - 1"
proof -
  assume i: "Suc i < 2 ^ LENGTH('l)"
  then show "(of_nat i :: 'l word) < - 1" by (simp add: word_less_nat_alt unat_of_nat_lt)
qed

lemma authorities_kept:
  fixes n t :: "'l::len word"
  assumes B: "bridged_chain C chain auth" and t: "t < n"
    and regular: "\<And>m. t < m \<Longrightarrow> m < n \<Longrightarrow> \<not> fp_is_mandatory (grandpa_pipeline C) (chain m)"
  shows "auth n = auth (t + 1)"
proof -
  have "auth (of_nat i) = auth (t + 1)" if "unat t < i" "i \<le> unat n" for i
    using that
  proof (induction i)
    case (Suc i)
    have lt: "i < 2 ^ LENGTH('l)" using Suc.prems unsigned_less [of n, where ?'a = nat] by linarith
    have "Suc i < 2 ^ LENGTH('l)" using Suc.prems unsigned_less [of n, where ?'a = nat] by linarith
    then have max: "(of_nat i :: 'l word) < - 1" by (rule of_nat_less_max)
    have step: "auth (of_nat i + 1) = next_authority_set C (chain (of_nat i)) (auth (of_nat i))"
      by (rule bridged_chainD(5) [OF B max])
    show ?case
    proof (cases "i = unat t")
      case True
      then show ?thesis by (simp add: add.commute)
    next
      case False
      then have "unat t < i" using Suc.prems by simp
      then have "t < of_nat i" "of_nat i < n" using Suc.prems lt by (simp_all add: word_less_nat_alt unat_of_nat_lt)
      from regular [OF this] have "next_authority_set C (chain (of_nat i)) (auth (of_nat i)) = auth (of_nat i)"
        by (simp add: mandatory_iff [OF B] next_authority_set_def)
      then show ?thesis using step Suc.IH \<open>unat t < i\<close> Suc.prems by (simp add: add.commute)
    qed
  qed simp
  from this [of "unat n"] t show ?thesis by (simp add: word_less_nat_alt)
qed

section \<open>Submission\<close>

text \<open>A proved header that is next for the authorities of the pallet is optimized and accepted.\<close>

lemma optimize_proof_accepted:
  assumes laws: "voter_set_new_laws (gc_voter_set_new C)" "acyclic_headers (gc_header C)" and keep: "gc_headers_to_keep C \<noteq> 0"
    and B: "bridged_chain C chain auth" and sync: "in_sync C chain auth t s"
    and ready: "gs_operating_mode s = Normal" "gs_request_count s < gc_max_requests C"
    and n: "t < n" "n < - 1" "auth n = auth (t + 1)" and j: "finality_proved C chain auth n j"
  obtains j' info s' where
    "optimize_proof C (Inr (Some (gs_current_authority_set s))) (chain n) j = Some (Inr j')"
    "submit_finality_proof C origin (chain n) j' s = Some (Inr (info, s'))"
    "in_sync C chain auth n s'"
proof -
  obtain voters where voters: "gc_voter_set_new C (as_authorities (auth n)) = Some voters"
    using bridged_chainD(4) [OF B] by blast
  then obtain j' where opt: "verify_and_optimize_justification (grandpa_justification_config C)
       (h_hash (gc_header C) (chain n), n) (as_set_id (auth n)) voters j = Some (Inr j')"
    using j by (auto simp: finality_proved_def)
  then have ver: "verify_justification (grandpa_justification_config C)
       (h_hash (gc_header C) (chain n), n) (as_set_id (auth n)) voters j' = Some (Inr ())"
    using optimized_justification_is_strict by blast
  have cur: "gs_current_authority_set s = auth n" and best: "gs_best_finalized s = Some (HeaderId t (h_hash (gc_header C) (chain t)))"
    using sync n(3) by (simp_all add: in_sync_def)
  have "submit_rejection C (chain n) j' s = None"
    using ready n(1) bridged_chainD(1-3) [OF B, of n]
    by (auto simp: submit_rejection_def best cur voters ver split: option.split)
  moreover obtain s' where s': "insert_header C (chain n) (h_hash (gc_header C) (chain n))
      (s\<lparr>gs_current_authority_set := next_authority_set C (chain n) (gs_current_authority_set s),
         gs_request_count := gs_request_count s + 1\<rparr>) = Some s'"
    using keep by (simp add: insert_header_eq)
  ultimately have "submit_finality_proof C origin (chain n) j' s =
      Some (Inr (submit_post_info C (chain n) j' (gs_current_authority_set s), s'))"
    by (simp add: submit_finality_proof_eq [OF laws])
  moreover have "in_sync C chain auth n s'"
    using insert_header_frame(1,2) [OF s'] n(2) bridged_chainD(1,5) [OF B] by (simp add: in_sync_def cur)
  moreover have "optimize_proof C (Inr (Some (gs_current_authority_set s))) (chain n) j = Some (Inr j')"
    by (simp add: optimize_proof_def cur voters opt bridged_chainD(1) [OF B])
  ultimately show thesis using that by blast
qed

lemma source_follows_consistent:
  assumes "bridged_chain C chain auth" and "source_follows C chain auth S"
  shows "source_consistent (grandpa_pipeline C) S"
  using assms(2) bridged_chainD(1) [OF assms(1)]
  by (fastforce simp: source_consistent_def source_follows_def finality_proved_def grandpa_pipeline_def)

text \<open>What a selected header is on a chain that the source follows.\<close>

lemma selected_on_chain:
  assumes B: "bridged_chain C chain auth" and S: "source_follows C chain auth S"
    and recent: "\<forall>(n, p) \<in> set recent. finality_proved C chain auth n p"
    and sel: "best_selection (grandpa_pipeline C) S recent t b (Some (h, p))"
  obtains n where "h = chain n" "t < n" "n \<le> b" "auth n = auth (t + 1)" "finality_proved C chain auth n p"
    "fp_number (grandpa_pipeline C) h = n"
proof -
  let ?n = "fp_number (grandpa_pipeline C) h"
  have known: "proof_known S recent ?n h p" and n: "t < ?n" "?n \<le> b"
    and reg: "\<And>m. t < m \<Longrightarrow> m < ?n \<Longrightarrow> regular_at (grandpa_pipeline C) S m"
    using sel by simp_all
  have h: "h = chain ?n" using known S by (auto simp: proof_known_def header_at_def source_follows_def)
  have "finality_proved C chain auth ?n p" using known S recent by (auto simp: proof_known_def source_follows_def)
  moreover have "auth ?n = auth (t + 1)"
  proof (rule authorities_kept [OF B n(1)])
    fix m assume "t < m" "m < ?n"
    from reg [OF this] show "\<not> fp_is_mandatory (grandpa_pipeline C) (chain m)"
      using S by (auto simp: regular_at_def header_at_def source_follows_def)
  qed
  ultimately show thesis using that [OF h n] by blast
qed

section \<open>One iteration of the relay\<close>

text \<open>What an iteration may end with, given the state of the pallet at its beginning.\<close>

definition iteration_result ::
  "('o, 'acc, 'header, 'hash, 'l::len word, 'item, 'id, 'sig, 'w) grandpa_config \<Rightarrow> ('l word \<Rightarrow> 'header) \<Rightarrow>
     ('l word \<Rightarrow> 'id authority_set) \<Rightarrow>
     ('se, 'header, 'l word, ('hash, 'l word, 'id, 'sig, 'header) grandpa_justification) finality_source \<Rightarrow>
     ('l word \<times> ('hash, 'l word, 'id, 'sig, 'header) grandpa_justification) list \<Rightarrow> bool \<Rightarrow> 'l word option \<Rightarrow> 'l word \<Rightarrow> 'l word \<Rightarrow>
     ('acc, 'hash, 'l word, 'id) grandpa_state \<Rightarrow>
     ('se, 'te, 'l word) finality_error +
       ('header \<times> ('hash, 'l word, 'id, 'sig, 'header) grandpa_justification, 'l word) finality_transaction option \<Rightarrow> bool" where
  "iteration_result C chain auth S recent only_mandatory submitted t b s r \<longleftrightarrow>
     (case r of
        Inl e \<Rightarrow> \<exists>n. t \<le> n \<and> selection_error (grandpa_pipeline C) S n e
      | Inr None \<Rightarrow>
          (\<exists>m. submitted = Some m \<and> t < m) \<or>
          (if only_mandatory then mandatory_selection (grandpa_pipeline C) S t b None
           else best_selection (grandpa_pipeline C) S recent t b None)
      | Inr (Some tx) \<Rightarrow>
          t < ftx_submitted_header_number tx \<and> ftx_submitted_header_number tx \<le> b \<and>
          (\<forall>origin. \<exists>info s'. submit_finality_proof C origin (fst (ftx_tracker tx)) (snd (ftx_tracker tx)) s = Some (Inr (info, s')) \<and>
             in_sync C chain auth (ftx_submitted_header_number tx) s'))"

lemma selection_submitted:
  fixes C :: "('o, 'acc, 'header, 'hash, 'l::len word, 'item, 'id, 'sig, 'w) grandpa_config"
    and T :: "('te finality_client_error, 'header, 'hash, 'l word, ('hash, 'l word, 'id, 'sig, 'header) grandpa_justification,
       'header \<times> ('hash, 'l word, 'id, 'sig, 'header) grandpa_justification) finality_target"
    and S :: "('se, 'header, 'l word, ('hash, 'l word, 'id, 'sig, 'header) grandpa_justification) finality_source"
  assumes laws: "voter_set_new_laws (gc_voter_set_new C)" "acyclic_headers (gc_header C)" and keep: "gc_headers_to_keep C \<noteq> 0"
    and B: "bridged_chain C chain auth" and sync: "in_sync C chain auth t s"
    and ready: "gs_operating_mode s = Normal" "gs_request_count s < gc_max_requests C"
    and S: "source_follows C chain auth S" and T: "target_follows C s T" and b: "b < - 1"
    and recent: "\<forall>(n, p) \<in> set recent. finality_proved C chain auth n p"
    and sel: "best_selection (grandpa_pipeline C) S recent t b (Some (h, p))"
  obtains tx where "finality_transaction_submit (grandpa_pipeline C) T h p = Inr tx"
    "iteration_result C chain auth S' recent' only_mandatory submitted t b s (Inr (Some tx))"
proof -
  obtain n where n: "h = chain n" "t < n" "n \<le> b" "auth n = auth (t + 1)" "finality_proved C chain auth n p"
    "fp_number (grandpa_pipeline C) h = n"
    by (rule selected_on_chain [OF B S recent sel])
  have n_max: "n < - 1" using n(3) b by (rule order_le_less_trans)
  note accepted = optimize_proof_accepted [OF laws keep B sync ready n(2) n_max n(4,5)]
  obtain j' where opt: "optimize_proof C (Inr (Some (gs_current_authority_set s)) :: 'te + _) h p = Some (Inr j')"
    using accepted [where origin = undefined] n(1) by metis
  have sub: "\<exists>info s'. submit_finality_proof C origin h j' s = Some (Inr (info, s')) \<and> in_sync C chain auth n s'" for origin
    using accepted [where origin = origin] opt n(1) by (metis option.inject sum.inject(2))
  have "ft_submit_finality_proof T h p = Inr (h, j')"
    using T opt by (auto simp: target_follows_def target_submit_finality_proof_def)
  then have "finality_transaction_submit (grandpa_pipeline C) T h p =
      Inr \<lparr>ftx_tracker = (h, j'), ftx_submitted_header_number = n\<rparr>"
    by (simp add: finality_transaction_submit_def n(6))
  then show thesis by (rule that) (use sub n in \<open>simp add: iteration_result_def\<close>)
qed


section \<open>Initialization\<close>

lemma guess_authorities_set_id_finds:
  fixes n :: "'l::len word"
  assumes valid: "\<And>id. is_valid id = Some (id = k)" and k: "unat k \<le> unat n" and n: "n < - 1"
  shows "guess_authorities_set_id is_valid n 0 0 = Some (Some k)"
proof -
  have "guess_authorities_set_id is_valid n (of_nat i) (of_nat i) = Some (Some k)" if "i \<le> unat k" for i
    using that
  proof (induction "unat k - i" arbitrary: i)
    case 0
    then have "i = unat k" by simp
    then have "of_nat i = k" by simp
    then show ?case by (subst guess_authorities_set_id.simps) (simp add: valid)
  next
    case (Suc d)
    then have i: "i < unat k" by simp
    then have "i < 2 ^ 64" using unsigned_less [of k, where ?'a = nat] by simp
    then have "unat (of_nat i :: u64) = i" by (simp add: unat_of_nat_lt)
    then have ne: "(of_nat i :: u64) \<noteq> k" using i by auto
    have lt: "Suc i < 2 ^ LENGTH('l)" using i k unsigned_less [of n, where ?'a = nat] by linarith
    then have succ: "unat (of_nat i + 1 :: 'l word) = Suc i"
      using unat_of_nat_lt [OF lt] by (simp add: add.commute)
    then have le: "\<not> (of_nat i + 1 :: 'l word) > n" using i k by (simp add: word_less_nat_alt)
    have "guess_authorities_set_id is_valid n (of_nat (Suc i)) (of_nat (Suc i)) = Some (Some k)"
      using Suc i by (intro Suc.hyps) auto
    then show ?case using ne le by (subst guess_authorities_set_id.simps) (simp add: valid add.commute)
  qed
  from this [of 0] show ?thesis by simp
qed

text \<open>The answers of the source from which the pallet is initialized at the header of number \<open>n\<close>.\<close>

definition initialization_follows ::
  "('o, 'acc, 'header, 'hash, 'l::len word, 'item, 'id, 'sig, 'w) grandpa_config \<Rightarrow> ('l word \<Rightarrow> 'header) \<Rightarrow>
     ('l word \<Rightarrow> 'id authority_set) \<Rightarrow> 'l word \<Rightarrow> ('hash, 'l word, 'id, 'sig, 'header) grandpa_justification \<Rightarrow>
     ('e, 'header, 'hash, 'id, ('hash, 'l word, 'id, 'sig, 'header) grandpa_justification) initialization_rpc \<Rightarrow> bool" where
  "initialization_follows C chain auth n j R \<longleftrightarrow>
     ir_next_justification R = Inr (Inr (Some (Some j))) \<and>
     cm_target_hash (gj_commit j) = h_hash (gc_header C) (chain n) \<and>
     ir_header_by_hash R (h_hash (gc_header C) (chain n)) = Inr (chain n) \<and>
     ir_grandpa_authorities_set R (h_hash (gc_header C) (chain n)) = Inr (Some (as_authorities (auth (n + 1)))) \<and>
     ir_grandpa_authorities_set R (h_parent_hash (gc_header C) (chain n)) = Inr (Some (as_authorities (auth n)))"

text \<open>A justification is signed for one set id only; there are at most as many sets as headers.\<close>

definition signed_for_one_set ::
  "('o, 'acc, 'header, 'hash, 'l::len word, 'item, 'id, 'sig, 'w) grandpa_config \<Rightarrow> ('l word \<Rightarrow> 'header) \<Rightarrow>
     ('l word \<Rightarrow> 'id authority_set) \<Rightarrow> 'l word \<Rightarrow> ('hash, 'l word, 'id, 'sig, 'header) grandpa_justification \<Rightarrow> bool" where
  "signed_for_one_set C chain auth n j \<longleftrightarrow>
     (\<forall>voters set_id j'. gc_voter_set_new C (as_authorities (auth n)) = Some voters \<longrightarrow>
        verify_and_optimize_justification (grandpa_justification_config C)
          (h_hash (gc_header C) (chain n), n) set_id voters j = Some (Inr j') \<longrightarrow> set_id = as_set_id (auth n))"

lemma verify_and_optimize_total:
  assumes "voter_set_new_laws (gc_voter_set_new C)" and "acyclic_headers (gc_header C)" and "gc_voter_set_new C authorities = Some voters"
  shows "verify_and_optimize_justification (grandpa_justification_config C) target set_id voters j \<noteq> None"
proof -
  have "voter_set_laws voters" using assms(1,3) by (auto simp: voter_set_new_laws_def)
  from verify_with_callbacks_total [OF this acyclic_headers_justification [OF assms(2)],
      of target set_id j optimization_callbacks "[]"]
  obtain r where r: "verify_justification_with_callbacks (grandpa_justification_config C) target set_id voters j
      optimization_callbacks [] = Some r" by blast
  show ?thesis
    using r optimization_passes [of "grandpa_justification_config C" target set_id voters j]
    by (cases r) (fastforce simp: verify_and_optimize_justification_def)+
qed

text \<open>
  C17: the relay initializes the pallet in sync. From the next justification of the bridged chain,
  it prepares data with the right set of authorities for the header after the initial one, also when
  the initial header changes the set: the guessed set id is the one that the justification is
  signed for. The pallet that accepts this data is in sync and not halted.
\<close>

theorem relay_initializes_pallet_in_sync:
  assumes laws: "voter_set_new_laws (gc_voter_set_new C)" "acyclic_headers (gc_header C)"
    and B: "bridged_chain C chain auth" and n: "n < - 1" "unat (as_set_id (auth n)) \<le> unat n"
    and j: "finality_proved C chain auth n j" "signed_for_one_set C chain auth n j" and R: "initialization_follows C chain auth n j R"
  shows "\<exists>d. prepare_initialization_data C R = Some (Inr d) \<and> id_header d = chain n \<and>
    (\<forall>origin s s'. initialize C origin d s = Some (Inr s') \<longrightarrow>
       in_sync C chain auth n s' \<and> gs_operating_mode s' = Normal)"
proof -
  obtain voters where voters: "gc_voter_set_new C (as_authorities (auth n)) = Some voters"
    using bridged_chainD(4) [OF B] by blast
  let ?verify = "\<lambda>set_id. verify_and_optimize_justification (grandpa_justification_config C)
       (h_hash (gc_header C) (chain n), n) set_id voters j"
  let ?valid = "\<lambda>set_id. map_option (\<lambda>r. case r of Inr _ \<Rightarrow> True | Inl _ \<Rightarrow> False) (?verify set_id)"
  have valid: "?valid id = Some (id = as_set_id (auth n))" for id
  proof -
    obtain r where r: "?verify id = Some r" using verify_and_optimize_total [OF laws voters] by blast
    show ?thesis
    proof (cases r)
      case (Inl e)
      then have "id \<noteq> as_set_id (auth n)" using j(1) voters r by (auto simp: finality_proved_def)
      then show ?thesis using r Inl by simp
    qed (use j(2) voters r in \<open>auto simp: signed_for_one_set_def\<close>)
  qed
  note guess = guess_authorities_set_id_finds [of ?valid, OF valid n(2,1)]
  have target: "cm_target_number (gj_commit j) = n" using j(1) by (simp add: finality_proved_def target_header_number_def)
  note change = bridged_chainD(6) [OF B, of n]
  note nxt = bridged_chainD(5) [OF B n(1)]
  define d where "d = \<lparr>id_header = chain n, id_authority_list = as_authorities (auth (n + 1)),
     id_set_id = as_set_id (auth (n + 1)), id_operating_mode = Normal\<rparr>"
  have "prepare_initialization_data C R = Some (Inr d)"
  proof (cases "find_scheduled_change C (chain n)")
    case None
    then have "auth (n + 1) = auth n" using nxt by (simp add: next_authority_set_def)
    then show ?thesis
      using R guess voters
      by (simp add: prepare_initialization_data_def initialization_follows_def source_header_def source_authorities_set_def
          target change None Let_def d_def)
  next
    case (Some c)
    then have "as_set_id (auth (n + 1)) = as_set_id (auth n) + 1" and "sc_delay c = 0"
      using nxt bridged_chainD(3) [OF B Some] by (simp_all add: next_authority_set_def)
    then show ?thesis
      using R guess voters
      by (simp add: prepare_initialization_data_def initialization_follows_def source_header_def source_authorities_set_def
          target change Some Let_def d_def)
  qed
  moreover have "in_sync C chain auth n s' \<and> gs_operating_mode s' = Normal" if "initialize C origin d s = Some (Inr s')" for origin s s'
    using that
  proof (cases rule: initialize_Inr)
    case (1 s1)
    then show ?thesis
      using insert_header_frame(2) [OF 1(4)] n(1) bridged_chainD(1) [OF B] by (simp add: in_sync_def d_def)
  qed
  ultimately show ?thesis by (intro exI [of _ d]) (simp add: d_def)
qed

section \<open>Examples\<close>

text \<open>A chain whose tenth header changes the authority set, with its justification.\<close>

type_synonym sample_word_header = "nat \<times> u32 \<times> (u32, nat) consensus_log option list"

definition sample_word_grandpa ::
  "(nat option, nat, sample_word_header, nat, u32, (u32, nat) consensus_log option, nat, u64 \<times> u64, u64 \<times> u64) grandpa_config" where
  "sample_word_grandpa = sample_grandpa_for
     \<lparr>h_hash = (\<lambda>(p, n, d). Suc p), h_number = (\<lambda>(p, n, d). n), h_parent_hash = fst,
       h_state_root = fst, h_digest = (\<lambda>(p, n, d). d)\<rparr> id"

definition sample_chain :: "u32 \<Rightarrow> sample_word_header" where
  "sample_chain n = (unat n, n,
     if n = 10 then [None, Some (ScheduledChange \<lparr>sc_next_authorities = sample_authorities, sc_delay = 0\<rparr>)] else [None])"

definition sample_auth :: "u32 \<Rightarrow> nat authority_set" where
  "sample_auth n = \<lparr>as_authorities = sample_authorities, as_set_id = (if n \<le> 10 then 1 else 2)\<rparr>"

definition sample_word_justification :: "(nat, u32, nat, u64 \<times> u64, sample_word_header) grandpa_justification" where
  "sample_word_justification = \<lparr>gj_round = 7,
     gj_commit = \<lparr>cm_target_hash = 11, cm_target_number = 10,
       cm_precommits = map (\<lambda>voter. \<lparr>sp_precommit = \<lparr>pc_target_hash = 11, pc_target_number = 10\<rparr>,
         sp_signature = (7, 1), sp_id = voter\<rparr>) [1, 2, 3, 4]\<rparr>,
     gj_votes_ancestries = []\<rparr>"

definition sample_finality_source ::
  "(nat, sample_word_header, u32, (nat, u32, nat, u64 \<times> u64, sample_word_header) grandpa_justification) finality_source" where
  "sample_finality_source = \<lparr>fs_best_finalized_block_number = Inr 12,
     fs_header_and_finality_proof = (\<lambda>n. Inr (sample_chain n, if n = 10 then Some sample_word_justification else None))\<rparr>"

definition sample_word_state :: "(nat, nat, u32, nat) grandpa_state" where
  "sample_word_state = \<lparr>gs_request_count = 0, gs_initial_hash = 9, gs_best_finalized = Some (HeaderId 8 9),
     gs_imported_hashes = [0 \<mapsto> 9], gs_imported_hashes_pointer = 1,
     gs_imported_headers = [9 \<mapsto> \<lparr>shd_number = 8, shd_state_root = 8\<rparr>],
     gs_current_authority_set = sample_auth 9, gs_owner = None, gs_operating_mode = Normal\<rparr>"

definition sample_finality_target ::
  "(nat finality_client_error, sample_word_header, nat, u32, (nat, u32, nat, u64 \<times> u64, sample_word_header) grandpa_justification,
     sample_word_header \<times> (nat, u32, nat, u64 \<times> u64, sample_word_header) grandpa_justification) finality_target" where
  "sample_finality_target = \<lparr>ft_best_finalized_source_block_id = Inr (HeaderId 8 9),
     ft_submit_finality_proof = (\<lambda>h j.
       case target_submit_finality_proof sample_word_grandpa (Inr (Some (sample_auth 9)) :: nat + _) (\<lambda>h j. Inr (h, j)) h j of
         Some r \<Rightarrow> r | None \<Rightarrow> Inl CurrentAuthoritySetMissing)\<rparr>"

definition sample_loop_state ::
  "(u32, (nat, u32, nat, u64 \<times> u64, sample_word_header) grandpa_justification) finality_loop_state" where
  "sample_loop_state = \<lparr>fls_finality_proofs_stream = restartable_stream_from \<lparr>pst_ready = [], pst_ended = False\<rparr>,
     fls_recent_finality_proofs = [], fls_submitted_header_number = None\<rparr>"

definition sample_initialization ::
  "(nat, sample_word_header, nat, nat, (nat, u32, nat, u64 \<times> u64, sample_word_header) grandpa_justification) initialization_rpc" where
  "sample_initialization = \<lparr>ir_next_justification = Inr (Inr (Some (Some sample_word_justification))),
     ir_header_by_hash = (\<lambda>h. Inr (sample_chain (of_nat (h - 1)))),
     ir_grandpa_authorities_set = (\<lambda>_. Inr (Some sample_authorities))\<rparr>"

lemma sample_word_laws:
  "voter_set_new_laws (gc_voter_set_new sample_word_grandpa)" "acyclic_headers (gc_header sample_word_grandpa)"
proof -
  show "voter_set_new_laws (gc_voter_set_new sample_word_grandpa)"
    using sample_voters_laws by (simp add: voter_set_new_laws_def sample_word_grandpa_def sample_grandpa_for_def)
  let ?H = "gc_header sample_word_grandpa"
  have "acyclic {(h, p). map_of (rev (map (\<lambda>h. (h_hash ?H h, h_parent_hash ?H h)) hs)) h = Some p}" for hs
  proof (rule acyclic_subset)
    show "acyclic {(h, p :: nat). p < h}" by (rule acyclicI_order [where f = id]) auto
    show "{(h, p). map_of (rev (map (\<lambda>h. (h_hash ?H h, h_parent_hash ?H h)) hs)) h = Some p} \<subseteq> {(h, p). p < h}"
      by (auto dest!: map_of_SomeD simp: sample_word_grandpa_def sample_grandpa_for_def)
  qed
  then show "acyclic_headers ?H" by (simp add: acyclic_headers_def acyclic_parents_def)
qed

lemma sample_bridged_chain: "bridged_chain sample_word_grandpa sample_chain sample_auth"
proof -
  have "sample_auth (n + 1) = next_authority_set sample_word_grandpa (sample_chain n) (sample_auth n)" if n: "n < - 1" for n
  proof -
    have "n + 1 \<le> 10 \<longleftrightarrow> n \<le> 10 \<and> n \<noteq> 10" using unat_succ [OF n] by (auto simp: word_le_nat_alt word_unat_eq_iff)
    then show ?thesis
      by (auto simp: next_authority_set_def find_scheduled_change_def sample_word_grandpa_def sample_grandpa_for_def sample_chain_def sample_auth_def)
  qed
  then show ?thesis
    by (auto simp: bridged_chain_def find_forced_change_def find_scheduled_change_def sample_word_grandpa_def
        sample_grandpa_for_def sample_chain_def sample_auth_def sample_authorities_def)
qed

lemma sample_word_verified:
  "verify_and_optimize_justification (grandpa_justification_config sample_word_grandpa) (11, 10) 1 sample_voters sample_word_justification =
     Some (Inr (sample_word_justification\<lparr>gj_commit := (gj_commit sample_word_justification)\<lparr>
       cm_precommits := take 3 (cm_precommits (gj_commit sample_word_justification))\<rparr>\<rparr>))"
  by (simp add: justification_eval grandpa_justification_config_def sample_word_grandpa_def sample_grandpa_for_def sample_word_justification_def)

lemma sample_finality_proved: "finality_proved sample_word_grandpa sample_chain sample_auth 10 sample_word_justification"
  using sample_word_verified
  by (auto simp: finality_proved_def target_header_number_def sample_word_justification_def sample_auth_def sample_chain_def
      sample_word_grandpa_def sample_grandpa_for_def)

lemma sample_not_verified:
  "set_id \<noteq> 1 \<Longrightarrow> verify_and_optimize_justification (grandpa_justification_config sample_word_grandpa) (11, 10) set_id
     sample_voters sample_word_justification \<noteq> Some (Inr j')"
  by (auto simp: justification_eval grandpa_justification_config_def sample_word_grandpa_def sample_grandpa_for_def sample_word_justification_def)

lemma sample_signed_for_one_set: "signed_for_one_set sample_word_grandpa sample_chain sample_auth 10 sample_word_justification"
proof -
  have "h_hash (gc_header sample_word_grandpa) (sample_chain 10) = 11"
    by (simp add: sample_word_grandpa_def sample_grandpa_for_def sample_chain_def)
  moreover have "gc_voter_set_new sample_word_grandpa (as_authorities (sample_auth 10)) = Some sample_voters"
    by (simp add: sample_word_grandpa_def sample_grandpa_for_def sample_auth_def)
  moreover have "as_set_id (sample_auth 10) = 1" by (simp add: sample_auth_def)
  ultimately show ?thesis using sample_not_verified by (auto simp: signed_for_one_set_def)
qed


theorem relay_initializes_pallet_in_sync_witness:
  "\<exists>d. prepare_initialization_data sample_word_grandpa sample_initialization = Some (Inr d) \<and> id_header d = sample_chain 10"
proof -
  have "initialization_follows sample_word_grandpa sample_chain sample_auth 10 sample_word_justification sample_initialization"
    by (simp add: initialization_follows_def sample_initialization_def sample_word_justification_def sample_chain_def
        sample_auth_def sample_word_grandpa_def sample_grandpa_for_def)
  from relay_initializes_pallet_in_sync [OF sample_word_laws sample_bridged_chain _ _ sample_finality_proved
      sample_signed_for_one_set this]
  show ?thesis by (auto simp: sample_auth_def)
qed

end
