(* ===== verification/Parachains_Relay.thy ===== *)
theory Parachains_Relay
  imports Relay_Utils Parachains_Pallet
begin

text \<open>
  The parachains relay: the loop that keeps the head of a parachain at the target chain up to date
  (\<open>relays/parachains/src/parachains_loop.rs\<close>) and the Substrate clients that it uses
  (\<open>relays/lib-substrate-relay/src/parachains/source.rs\<close> and \<open>target.rs\<close>).

  Answers of RPC calls are parameters. Logging, metrics and delays are left out.
\<close>

section \<open>The order of header ids\<close>

text \<open>\<open>HeaderId\<close> derives its order from its fields: the number first, then the hash.\<close>

instantiation header_id :: (linorder, linorder) linorder
begin

definition less_eq_header_id :: "('a, 'b) header_id \<Rightarrow> ('a, 'b) header_id \<Rightarrow> bool" where
  "less_eq_header_id x y \<longleftrightarrow> hid_number x < hid_number y \<or> hid_number x = hid_number y \<and> hid_hash x \<le> hid_hash y"

definition less_header_id :: "('a, 'b) header_id \<Rightarrow> ('a, 'b) header_id \<Rightarrow> bool" where
  "less_header_id x y \<longleftrightarrow> hid_number x < hid_number y \<or> hid_number x = hid_number y \<and> hid_hash x < hid_hash y"

instance
  by standard (auto simp: less_eq_header_id_def less_header_id_def header_id.expand)

end

section \<open>The clients of the loop\<close>

datatype 'a available_header =
    HeaderUnavailable
  | HeaderMissing
  | HeaderAvailable 'a

fun as_available :: "'a available_header \<Rightarrow> 'a option" where
  "as_available (HeaderAvailable header) = Some header"
| "as_available _ = None"

definition available_header_from :: "'a option \<Rightarrow> 'a available_header" where
  "available_header_from maybe_header =
     (case maybe_header of Some header \<Rightarrow> HeaderAvailable header | None \<Rightarrow> HeaderMissing)"

record ('e, 'relay, 'para, 'hash, 'pr) parachains_source =
  psc_ensure_synced :: "'e + bool"
  psc_parachain_head :: "'relay \<Rightarrow> 'e + 'para available_header"
  psc_prove_parachain_head :: "'relay \<Rightarrow> 'e + 'pr \<times> 'hash"

record ('e, 'block, 'relay, 'para, 'hash, 'pr, 'tracker) parachains_target =
  ptc_best_block :: "'e + 'block"
  ptc_best_finalized_source_relay_chain_block :: "'block \<Rightarrow> 'e + 'relay"
  ptc_parachain_head :: "'block \<Rightarrow> 'e + 'para option"
  ptc_submit_parachain_head_proof :: "'relay \<Rightarrow> 'hash \<Rightarrow> 'pr \<Rightarrow> 'e + 'tracker"

section \<open>The loop\<close>

fun is_update_required ::
  "('hash, 'number::linorder) header_id available_header \<Rightarrow> ('hash, 'number) header_id option \<Rightarrow> bool" where
  "is_update_required HeaderUnavailable _ = False"
| "is_update_required (HeaderAvailable head_at_source) (Some head_at_target) =
     (hid_number head_at_source > hid_number head_at_target)"
| "is_update_required (HeaderAvailable _) None = True"
| "is_update_required HeaderMissing (Some _) = True"
| "is_update_required HeaderMissing None = False"

definition read_head_at_source ::
  "('e, 'relay, 'para, 'hash, 'pr) parachains_source \<Rightarrow> 'relay \<Rightarrow> failed_client + 'para available_header" where
  "read_head_at_source source_client at_relay_block =
     (case psc_parachain_head source_client at_relay_block of
        Inr (HeaderAvailable para_head) \<Rightarrow> Inr (HeaderAvailable para_head)
      | Inr r \<Rightarrow> Inr r
      | Inl _ \<Rightarrow> Inl SourceFailed)"

definition read_head_at_target ::
  "('e, 'block, 'relay, 'para, 'hash, 'pr, 'tracker) parachains_target \<Rightarrow> 'block \<Rightarrow> failed_client + 'para option" where
  "read_head_at_target target_client at_block =
     (case ptc_parachain_head target_client at_block of
        Inr (Some para_head_id) \<Rightarrow> Inr (Some para_head_id)
      | Inr None \<Rightarrow> Inr None
      | Inl _ \<Rightarrow> Inl TargetFailed)"

record ('para, 'tracker) submitted_heads_tracker =
  sht_submitted_head :: "'para available_header"
  sht_transaction_tracker :: 'tracker

datatype ('para, 'tracker, 'block) submitted_head_status =
    HeadWaiting "('para, 'tracker) submitted_heads_tracker"
  | HeadFinal "'block tracked_transaction_status"

text \<open>\<open>poll\<close> is the status of the transaction if its future is ready.\<close>

definition submitted_heads_tracker_update ::
  "('tracker \<Rightarrow> 'block tracked_transaction_status option) \<Rightarrow> (('hash, 'number::linorder) header_id, 'tracker) submitted_heads_tracker \<Rightarrow>
     'block \<Rightarrow> ('hash, 'number) header_id option \<Rightarrow> (('hash, 'number) header_id, 'tracker, 'block) submitted_head_status" where
  "submitted_heads_tracker_update poll tracker at_target_block head_at_target =
     (let is_head_updated =
            (case (sht_submitted_head tracker, head_at_target) of
               (HeaderAvailable submitted_head, Some head) \<Rightarrow> hid_number head \<ge> hid_number submitted_head
             | (HeaderMissing, None) \<Rightarrow> True
             | _ \<Rightarrow> False)
      in if is_head_updated then HeadFinal (TransactionFinalized at_target_block)
         else case poll (sht_transaction_tracker tracker) of
                Some TransactionLost \<Rightarrow> HeadFinal TransactionLost
              | Some (TransactionFinalized _) \<Rightarrow> HeadFinal TransactionLost
              | None \<Rightarrow> HeadWaiting tracker)"

text \<open>
  One turn of the loop of \<open>run_until_connection_lost\<close>, after the delay: the tracker of the submitted
  transaction for the next turn, or the client that has failed.
\<close>

definition parachains_loop_turn ::
  "('tracker \<Rightarrow> 'block tracked_transaction_status option) \<Rightarrow>
     ('se, 'relay, ('phash, 'number::linorder) header_id, 'hash, 'pr) parachains_source \<Rightarrow>
     ('te, 'block, 'relay, ('phash, 'number) header_id, 'hash, 'pr, 'tracker) parachains_target \<Rightarrow>
     (('phash, 'number) header_id, 'tracker) submitted_heads_tracker option \<Rightarrow>
     failed_client + (('phash, 'number) header_id, 'tracker) submitted_heads_tracker option" where
  "parachains_loop_turn poll source_client target_client submitted_heads_tracker =
     (case psc_ensure_synced source_client of
        Inl _ \<Rightarrow> Inl SourceFailed
      | Inr False \<Rightarrow> Inr submitted_heads_tracker
      | Inr True \<Rightarrow>
      result_bind (map_sum (\<lambda>_. TargetFailed) id (ptc_best_block target_client)) (\<lambda>best_target_block.
      result_bind (read_head_at_target target_client best_target_block) (\<lambda>head_at_target.
      case map_option (\<lambda>tracker. submitted_heads_tracker_update poll tracker best_target_block head_at_target)
             submitted_heads_tracker of
        Some (HeadWaiting tracker) \<Rightarrow> Inr (Some tracker)
      | Some (HeadFinal TransactionLost) \<Rightarrow> Inl BothFailed
      | _ \<Rightarrow>
      result_bind (map_sum (\<lambda>_. TargetFailed) id
          (ptc_best_finalized_source_relay_chain_block target_client best_target_block)) (\<lambda>best_finalized_relay_block.
      result_bind (read_head_at_source source_client best_finalized_relay_block) (\<lambda>head_at_source.
      if \<not> is_update_required head_at_source head_at_target then Inr None
      else
      result_bind (map_sum (\<lambda>_. SourceFailed) id
          (psc_prove_parachain_head source_client best_finalized_relay_block)) (\<lambda>(head_proof, head_hash).
      result_bind (map_sum (\<lambda>_. TargetFailed) id
          (ptc_submit_parachain_head_proof target_client best_finalized_relay_block head_hash head_proof)) (\<lambda>transaction_tracker.
      Inr (Some \<lparr>sht_submitted_head = head_at_source, sht_transaction_tracker = transaction_tracker\<rparr>))))))))"

section \<open>The Substrate source client\<close>

definition ANCIENT_BLOCK_THRESHOLD :: "'l::len word" where
  "ANCIENT_BLOCK_THRESHOLD = 128"

definition is_ancient_block :: "'l::len word \<Rightarrow> 'l word \<Rightarrow> bool" where
  "is_ancient_block block best \<longleftrightarrow> saturating_sub best block \<ge> ANCIENT_BLOCK_THRESHOLD"

datatype ('e, 'number) parachains_client_error =
    ParachainsRpcError 'e
  | ClientNotSynced
  | ParaResponseParseFailed
  | ExpectedParaHeadMissing
  | MissingRequiredParachainHead para_id 'number
  | RelayPalletIsNotInitialized

text \<open>
  The questions that the source client asks the relay chain node. \<open>rr_para_header_id\<close> decodes the
  header in a head and returns its id.
\<close>

record ('e, 'hash, 'phash, 'number) relay_chain_rpc =
  rr_ensure_synced :: "('e, u64) parachains_client_error + unit"
  rr_best_finalized_header :: "'e + ('hash, u32) header_id"
  rr_raw_storage_value :: "bytes \<Rightarrow> 'hash \<Rightarrow> 'e + bytes option"
  rr_prove_storage :: "bytes list \<Rightarrow> 'hash \<Rightarrow> 'e + bytes list"
  rr_para_header_id :: "bytes \<Rightarrow> ('phash, 'number) header_id option"

definition read_para_head ::
  "('o, 'acc, 'hash, 'w) parachains_config \<Rightarrow> ('e, 'hash, 'phash, 'number) relay_chain_rpc \<Rightarrow> para_id \<Rightarrow> ('hash, u32) header_id \<Rightarrow>
     ('e, u64) parachains_client_error + para_head option" where
  "read_para_head C R para at_block =
     (let storage_key = parachain_head_storage_key_at_source (pc_twox_128 C) (pc_twox_64_concat C)
            (pc_encode_para_id C) (pc_paras_pallet_name C) para
      in result_bind (map_sum ParachainsRpcError id (rr_raw_storage_value R storage_key (hid_hash at_block))) (\<lambda>para_head.
         case para_head of
           None \<Rightarrow> Inr None
         | Some h \<Rightarrow> (case pc_decode_para_head C h of None \<Rightarrow> Inl ParaResponseParseFailed | Some head \<Rightarrow> Inr (Some head))))"

definition on_chain_para_head_id ::
  "('o, 'acc, 'hash, 'w) parachains_config \<Rightarrow> ('e, 'hash, 'phash, 'number) relay_chain_rpc \<Rightarrow> para_id \<Rightarrow> ('hash, u32) header_id \<Rightarrow>
     ('e, u64) parachains_client_error + ('phash, 'number) header_id option" where
  "on_chain_para_head_id C R para at_block =
     result_bind (read_para_head C R para at_block) (\<lambda>para_head.
     case para_head of
       None \<Rightarrow> Inr None
     | Some (ParaHead data) \<Rightarrow>
         (case rr_para_header_id R data of None \<Rightarrow> Inl ParaResponseParseFailed | Some para_head_id \<Rightarrow> Inr (Some para_head_id)))"

definition source_ensure_synced :: "('e, u64) parachains_client_error + unit \<Rightarrow> ('e, u64) parachains_client_error + bool" where
  "source_ensure_synced ensure_synced =
     (case ensure_synced of
        Inr _ \<Rightarrow> Inr True
      | Inl ClientNotSynced \<Rightarrow> Inr False
      | Inl e \<Rightarrow> Inl e)"

definition source_parachain_head ::
  "('o, 'acc, 'hash, 'w) parachains_config \<Rightarrow> ('e, 'hash, 'phash::linorder, 'number::linorder) relay_chain_rpc \<Rightarrow> para_id \<Rightarrow>
     ('phash, 'number) header_id available_header \<Rightarrow> ('hash, u32) header_id \<Rightarrow>
     ('e, u64) parachains_client_error + ('phash, 'number) header_id available_header" where
  "source_parachain_head C R para max_head_id at_block =
     result_bind (map_sum ParachainsRpcError id (rr_best_finalized_header R)) (\<lambda>best_block.
     if is_ancient_block (hid_number at_block) (hid_number best_block) then Inr HeaderUnavailable
     else
     result_bind (on_chain_para_head_id C R para at_block) (\<lambda>maybe_on_chain.
     Inr (case maybe_on_chain of
            None \<Rightarrow> HeaderMissing
          | Some on_chain_head \<Rightarrow>
              (case max_head_id of
                 HeaderUnavailable \<Rightarrow> HeaderUnavailable
               | HeaderMissing \<Rightarrow> HeaderAvailable on_chain_head
               | HeaderAvailable max_head \<Rightarrow> HeaderAvailable (min on_chain_head max_head)))))"

definition source_prove_parachain_head ::
  "('o, 'acc, 'hash, 'w) parachains_config \<Rightarrow> ('e, 'hash, 'phash, 'number) relay_chain_rpc \<Rightarrow> para_id \<Rightarrow> ('hash, u32) header_id \<Rightarrow>
     ('e, u64) parachains_client_error + bytes list \<times> 'hash" where
  "source_prove_parachain_head C R para at_block =
     (let storage_key = parachain_head_storage_key_at_source (pc_twox_128 C) (pc_twox_64_concat C)
            (pc_encode_para_id C) (pc_paras_pallet_name C) para
      in result_bind (map_sum ParachainsRpcError id (rr_prove_storage R [storage_key] (hid_hash at_block))) (\<lambda>parachain_heads_proof.
         result_bind (read_para_head C R para at_block) (\<lambda>maybe_head.
         case maybe_head of
           None \<Rightarrow> Inl ExpectedParaHeadMissing
         | Some head \<Rightarrow> Inr (parachain_heads_proof, para_head_hash (pc_blake2_256 C) head))))"

definition substrate_parachains_source ::
  "('o, 'acc, 'hash, 'w) parachains_config \<Rightarrow> ('e, 'hash, 'phash::linorder, 'number::linorder) relay_chain_rpc \<Rightarrow> para_id \<Rightarrow>
     ('phash, 'number) header_id available_header \<Rightarrow>
     (('e, u64) parachains_client_error, ('hash, u32) header_id, ('phash, 'number) header_id, 'hash, bytes list) parachains_source" where
  "substrate_parachains_source C R para max_head_id = \<lparr>
     psc_ensure_synced = source_ensure_synced (rr_ensure_synced R),
     psc_parachain_head = source_parachain_head C R para max_head_id,
     psc_prove_parachain_head = source_prove_parachain_head C R para\<rparr>"

section \<open>The Substrate target client\<close>

text \<open>
  The runtime calls return the best finalized header of the relay chain and the best head of the
  parachain; \<open>submit\<close> signs and submits the call for one parachain.
\<close>

definition substrate_parachains_target ::
  "'e + 'block \<Rightarrow> ('block \<Rightarrow> 'e + ('hash, u32) header_id option) \<Rightarrow> ('block \<Rightarrow> 'e + ('phash, 'number) header_id option option) \<Rightarrow>
     (u32 \<times> 'hash \<Rightarrow> (para_id \<times> 'hash) list \<Rightarrow> bytes list \<Rightarrow> ('e, u64) parachains_client_error + 'tracker) \<Rightarrow> para_id \<Rightarrow>
     (('e, u64) parachains_client_error, 'block, ('hash, u32) header_id, ('phash, 'number) header_id, 'hash, bytes list, 'tracker) parachains_target" where
  "substrate_parachains_target best_header best_finalized_relay best_finalized_para submit para = \<lparr>
     ptc_best_block = map_sum ParachainsRpcError id best_header,
     ptc_best_finalized_source_relay_chain_block = (\<lambda>at_block.
       result_bind (map_sum ParachainsRpcError id (best_finalized_relay at_block)) (\<lambda>maybe_best.
       case maybe_best of Some best \<Rightarrow> Inr best | None \<Rightarrow> Inl RelayPalletIsNotInitialized)),
     ptc_parachain_head = (\<lambda>at_block.
       result_bind (map_sum ParachainsRpcError id (best_finalized_para at_block)) (\<lambda>encoded.
       case encoded of Some head \<Rightarrow> Inr head | None \<Rightarrow> Inl ParaResponseParseFailed)),
     ptc_submit_parachain_head_proof = (\<lambda>at_relay_block updated_head_hash pr.
       submit (hid_number at_relay_block, hid_hash at_relay_block) [(para, updated_head_hash)] pr)\<rparr>"

end
