(* ===== verification/On_Demand.thy ===== *)
theory On_Demand
  imports Finality_Clients Parachains_Relay
begin

text \<open>
  The on-demand relays: they relay headers of the source chain, or of a parachain, only when some
  other relay asks for them (\<open>relays/lib-substrate-relay/src/on_demand/headers.rs\<close> and
  \<open>parachains.rs\<close>), and the reconnection of failed clients (\<open>relays/utils/src/relay_loop.rs\<close>).

  A background task is a state with one function for a turn of its loop; the relay task that it
  starts and the answers of clients are parameters.
\<close>

section \<open>Reconnection\<close>

text \<open>The answers to the attempts to reconnect, and the ones left when the loop ends.\<close>

fun reconnect_failed_client :: "failed_client \<Rightarrow> bool list \<Rightarrow> bool list \<Rightarrow> (bool list \<times> bool list) option" where
  "reconnect_failed_client SourceFailed [] target_answers = None"
| "reconnect_failed_client SourceFailed (ok # source_answers) target_answers =
     (if ok then Some (source_answers, target_answers) else reconnect_failed_client SourceFailed source_answers target_answers)"
| "reconnect_failed_client TargetFailed source_answers [] = None"
| "reconnect_failed_client TargetFailed source_answers (ok # target_answers) =
     (if ok then Some (source_answers, target_answers) else reconnect_failed_client TargetFailed source_answers target_answers)"
| "reconnect_failed_client BothFailed [] target_answers = None"
| "reconnect_failed_client BothFailed (False # source_answers) target_answers =
     reconnect_failed_client BothFailed source_answers target_answers"
| "reconnect_failed_client BothFailed (True # source_answers) [] = None"
| "reconnect_failed_client BothFailed (True # source_answers) (ok # target_answers) =
     (if ok then Some (source_answers, target_answers) else reconnect_failed_client BothFailed source_answers target_answers)"

section \<open>On-demand headers\<close>

text \<open>The required number is shared with the finality source, which never reports a later header.\<close>

definition require_more_headers :: "'number::linorder \<Rightarrow> 'number \<Rightarrow> 'number" where
  "require_more_headers required_header required_header_number =
     (if required_header > required_header_number then required_header else required_header_number)"

definition mandatory_headers_scan_range ::
  "'l::len word option \<Rightarrow> 'l word option \<Rightarrow> 'l word \<Rightarrow> ('l word \<times> 'l word) option" where
  "mandatory_headers_scan_range best_at_source best_at_target required_header_number =
     (let best_finalized_source_header_at_target =
            (case best_at_target of Some n \<Rightarrow> n | None \<Rightarrow> required_header_number);
          best_finalized_source_header_at_source =
            (case best_at_source of Some n \<Rightarrow> n | None \<Rightarrow> best_finalized_source_header_at_target)
      in if required_header_number \<ge> best_finalized_source_header_at_source then None
         else Some (best_finalized_source_header_at_target + 1, best_finalized_source_header_at_source))"

partial_function (option) find_mandatory_header_in_range ::
  "('header \<Rightarrow> bool) \<Rightarrow> ('l::len word \<Rightarrow> 'e + 'header) \<Rightarrow> 'l word \<Rightarrow> 'l word \<Rightarrow> ('e + 'l word option) option" where
  "find_mandatory_header_in_range schedules_change header_by_number current range_end =
     (if current \<le> range_end
      then (case header_by_number current of
              Inl e \<Rightarrow> Some (Inl e)
            | Inr header \<Rightarrow>
                if schedules_change header then Some (Inr (Some current))
                else find_mandatory_header_in_range schedules_change header_by_number (current + 1) range_end)
      else Some (Inr None))"

text \<open>\<open>requests\<close> are the headers that others have required during the scan.\<close>

definition relay_mandatory_header_from_range ::
  "('header \<Rightarrow> bool) \<Rightarrow> ('l::len word \<Rightarrow> 'e + 'header) \<Rightarrow> 'l word list \<Rightarrow> 'l word \<times> 'l word \<Rightarrow> 'l word \<Rightarrow>
     (('e + bool) \<times> 'l word) option" where
  "relay_mandatory_header_from_range schedules_change header_by_number requests scan_range required_header_number =
     do {
       found \<leftarrow> find_mandatory_header_in_range schedules_change header_by_number (fst scan_range) (snd scan_range);
       let required_header_number = fold require_more_headers requests required_header_number;
       Some (case found of
               Inl e \<Rightarrow> (Inl e, required_header_number)
             | Inr None \<Rightarrow> (Inr False, required_header_number)
             | Inr (Some mandatory_source_header_number) \<Rightarrow>
                 if required_header_number \<ge> mandatory_source_header_number then (Inr False, required_header_number)
                 else (Inr True, mandatory_source_header_number))
     }"

record 'number on_demand_headers =
  odh_required_header_number :: 'number
  odh_latest_non_mandatory_at_source :: 'number
  odh_restart_relay :: bool

definition on_demand_headers_new :: "'number::zero on_demand_headers" where
  "on_demand_headers_new = \<lparr>odh_required_header_number = 0, odh_latest_non_mandatory_at_source = 0, odh_restart_relay = True\<rparr>"

text \<open>
  A turn of the background task: the client to reconnect, if the turn ends early, whether the
  finality relay has been (re)started, and the next state.
\<close>

definition on_demand_headers_turn ::
  "('header \<Rightarrow> bool) \<Rightarrow> ('e \<Rightarrow> bool) \<Rightarrow> ('l::len word \<Rightarrow> 'e + 'header) \<Rightarrow> 'e + 'l word \<Rightarrow> 'e + 'l word \<Rightarrow> 'l word list \<Rightarrow> bool \<Rightarrow>
     'l word on_demand_headers \<Rightarrow> (failed_client option \<times> bool \<times> 'l word on_demand_headers) option" where
  "on_demand_headers_turn schedules_change is_connection_error header_by_number best_at_source best_at_target
     requests relay_task_ended v =
     (let v = (if relay_task_ended then v\<lparr>odh_restart_relay := True\<rparr> else v)
      in if (case best_at_source of Inl e \<Rightarrow> is_connection_error e | Inr _ \<Rightarrow> False) then Some (Some SourceFailed, False, v)
      else if (case best_at_target of Inl e \<Rightarrow> is_connection_error e | Inr _ \<Rightarrow> False) then Some (Some TargetFailed, False, v)
      else
      let mandatory_scan_range = mandatory_headers_scan_range
            (case best_at_source of Inr n \<Rightarrow> Some n | Inl _ \<Rightarrow> None) (case best_at_target of Inr n \<Rightarrow> Some n | Inl _ \<Rightarrow> None)
            (odh_required_header_number v);
          start = (\<lambda>v. (None, odh_restart_relay v, v\<lparr>odh_restart_relay := False\<rparr>))
      in case mandatory_scan_range of
           None \<Rightarrow> Some (start v)
         | Some (range_begin, range_end) \<Rightarrow>
             do {
               (result, required) \<leftarrow> relay_mandatory_header_from_range schedules_change header_by_number requests
                 (max range_begin (odh_latest_non_mandatory_at_source v), range_end) (odh_required_header_number v);
               let v = v\<lparr>odh_required_header_number := required\<rparr>;
               Some (case result of
                       Inr True \<Rightarrow> start v
                     | Inr False \<Rightarrow> start (v\<lparr>odh_latest_non_mandatory_at_source := range_end\<rparr>)
                     | Inl e \<Rightarrow> if is_connection_error e then (Some SourceFailed, False, v) else start v)
             })"

definition on_demand_headers_reconnect :: "'e + unit \<Rightarrow> 'e + unit \<Rightarrow> 'e + unit" where
  "on_demand_headers_reconnect source_client_reconnect target_client_reconnect =
     result_bind source_client_reconnect (\<lambda>_. target_client_reconnect)"

text \<open>\<open>prove_header\<close> of the headers relay: the proved header and the call with its optimized proof.\<close>

definition on_demand_headers_prove_header ::
  "('o, 'acc, 'header, 'hash, 'l::len word, 'item, 'id, 'sig, 'w) grandpa_config \<Rightarrow> 'e + 'id authority_set option \<Rightarrow>
     ('e finality_client_error + 'header \<times> ('hash, 'l word, 'id, 'sig, 'header) grandpa_justification) option \<Rightarrow>
     ('e finality_client_error + ('hash, 'l word) header_id \<times>
       ('header \<times> ('hash, 'l word, 'id, 'sig, 'header) grandpa_justification) list) option" where
  "on_demand_headers_prove_header C current_authority_set proved_block_finality =
     do {
       proved \<leftarrow> proved_block_finality;
       case proved of
         Inl e \<Rightarrow> Some (Inl e)
       | Inr (header, finality_proof) \<Rightarrow>
           map_option (\<lambda>optimized. result_bind optimized (\<lambda>finality_proof.
               Inr (HeaderId (h_number (gc_header C) header) (h_hash (gc_header C) header), [(header, finality_proof)])))
             (optimize_proof C current_authority_set header finality_proof)
     }"

section \<open>On-demand parachain heads\<close>

datatype ('phash, 'pnumber, 'rnumber) relay_state =
    RelayIdle
  | RelayingRelayHeader 'rnumber
  | RelayingParaHeader "('phash, 'pnumber) header_id"

record ('phash, 'pnumber, 'rnumber) relay_data =
  rd_required_para_header :: 'pnumber
  rd_para_header_at_target :: "'pnumber option"
  rd_para_header_at_source :: "('phash, 'pnumber) header_id option"
  rd_para_header_at_relay_header_at_target :: "('phash, 'pnumber) header_id option"
  rd_relay_header_at_source :: 'rnumber
  rd_relay_header_at_target :: "'rnumber option"

text \<open>The regular process of \<open>select_headers_to_relay\<close>, after the two states have been processed.\<close>

definition select_headers_regular ::
  "('phash, 'pnumber::{linorder, zero}, 'rnumber::linorder) relay_data \<Rightarrow> 'rnumber \<Rightarrow> ('phash, 'pnumber, 'rnumber) relay_state" where
  "select_headers_regular data relay_header_at_target =
     (case rd_para_header_at_source data of
        None \<Rightarrow> RelayIdle
      | Some para_header_at_source \<Rightarrow>
          let (required_para_header, para_header_at_target) =
                (case rd_para_header_at_target data of
                   Some para_header_at_target \<Rightarrow> (rd_required_para_header data, para_header_at_target)
                 | None \<Rightarrow> (hid_number para_header_at_source, 0))
          in if required_para_header \<le> para_header_at_target then RelayIdle
             else if required_para_header > hid_number para_header_at_source then RelayIdle
             else if relay_header_at_target < rd_relay_header_at_source data
                  then RelayingRelayHeader (rd_relay_header_at_source data)
             else RelayingParaHeader para_header_at_source)"

definition select_headers_to_relay ::
  "('phash, 'pnumber::{linorder, zero}, 'rnumber::linorder) relay_data \<Rightarrow> ('phash, 'pnumber, 'rnumber) relay_state \<Rightarrow>
     ('phash, 'pnumber, 'rnumber) relay_state" where
  "select_headers_to_relay data state =
     (case rd_relay_header_at_target data of
        None \<Rightarrow> RelayIdle
      | Some relay_header_at_target \<Rightarrow>
          (case state of
             RelayIdle \<Rightarrow> select_headers_regular data relay_header_at_target
           | RelayingRelayHeader relay_header_number \<Rightarrow>
               if relay_header_at_target < relay_header_number then state
               else (case rd_para_header_at_relay_header_at_target data of
                       Some para_header \<Rightarrow> RelayingParaHeader para_header
                     | None \<Rightarrow> select_headers_regular data relay_header_at_target)
           | RelayingParaHeader para_header_id \<Rightarrow>
               let para_header_at_target_or_zero = (case rd_para_header_at_target data of Some n \<Rightarrow> n | None \<Rightarrow> 0)
               in if para_header_at_target_or_zero < hid_number para_header_id then state
                  else select_headers_regular data relay_header_at_target))"

text \<open>
  \<open>best_para_at\<close> and \<open>best_relay_at\<close> are the runtime calls for the best finalized header of the
  parachain and of the relay chain at a block of the target.
\<close>

definition read_relay_data ::
  "('o, 'acc, 'hash, 'w) parachains_config \<Rightarrow> ('e, 'hash, 'phash, 'pnumber) relay_chain_rpc \<Rightarrow> para_id \<Rightarrow> 'e + 'block \<Rightarrow>
     ('block \<Rightarrow> 'e + ('phash, 'pnumber) header_id option) \<Rightarrow> ('block \<Rightarrow> 'e + ('hash, u32) header_id option) \<Rightarrow> 'pnumber \<Rightarrow>
     failed_client + ('phash, 'pnumber, u32) relay_data" where
  "read_relay_data C R para best_target_block best_para_at best_relay_at required_header_number =
     result_bind (map_sum (\<lambda>_. TargetFailed) id best_target_block) (\<lambda>best_target_block.
     result_bind (map_sum (\<lambda>_. TargetFailed) id (best_para_at best_target_block)) (\<lambda>para_header_at_target.
     result_bind (map_sum (\<lambda>_. SourceFailed) id (rr_best_finalized_header R)) (\<lambda>best_finalized_relay_block_id.
     result_bind (map_sum (\<lambda>_. SourceFailed) id (on_chain_para_head_id C R para best_finalized_relay_block_id)) (\<lambda>para_header_at_source.
     result_bind (map_sum (\<lambda>_. TargetFailed) id (best_relay_at best_target_block)) (\<lambda>relay_header_at_target.
     let relay_header_at_source = hid_number best_finalized_relay_block_id;
         available_relay_header_at_target =
           (case relay_header_at_target of
              Some h \<Rightarrow> if \<not> is_ancient_block (hid_number h) relay_header_at_source then Some h else None
            | None \<Rightarrow> None)
     in result_bind
          (case available_relay_header_at_target of
             Some h \<Rightarrow> map_sum (\<lambda>_. SourceFailed) id (on_chain_para_head_id C R para h)
           | None \<Rightarrow> Inr None) (\<lambda>para_header_at_relay_header_at_target.
     Inr \<lparr>rd_required_para_header = required_header_number,
       rd_para_header_at_target = map_option hid_number para_header_at_target,
       rd_para_header_at_source = para_header_at_source,
       rd_para_header_at_relay_header_at_target = para_header_at_relay_header_at_target,
       rd_relay_header_at_source = relay_header_at_source,
       rd_relay_header_at_target = map_option hid_number relay_header_at_target\<rparr>))))))"

record ('phash, 'pnumber) on_demand_parachains =
  odp_relay_state :: "('phash, 'pnumber, u32) relay_state"
  odp_required_parachain_header_number :: 'pnumber
  odp_required_para_header_ref :: "('phash, 'pnumber) header_id available_header"
  odp_restart_relay :: bool

definition on_demand_parachains_new :: "('phash, 'pnumber::zero) on_demand_parachains" where
  "on_demand_parachains_new = \<lparr>odp_relay_state = RelayIdle, odp_required_parachain_header_number = 0,
     odp_required_para_header_ref = HeaderUnavailable, odp_restart_relay = True\<rparr>"

datatype 'pnumber on_demand_event =
    ParaHeaderRequired 'pnumber
  | RequestsClosed
  | OnDemandTick
  | RelayTaskEnded

fun on_demand_parachains_event ::
  "'pnumber::linorder on_demand_event \<Rightarrow> ('phash, 'pnumber) on_demand_parachains \<Rightarrow> ('phash, 'pnumber) on_demand_parachains" where
  "on_demand_parachains_event (ParaHeaderRequired new_required) v =
     (if new_required > odp_required_parachain_header_number v
      then v\<lparr>odp_required_parachain_header_number := new_required\<rparr> else v)"
| "on_demand_parachains_event RequestsClosed v = v"
| "on_demand_parachains_event OnDemandTick v = v"
| "on_demand_parachains_event RelayTaskEnded v = v\<lparr>odp_restart_relay := True\<rparr>"

text \<open>
  A turn of the background task after an event; the task ends (\<open>None\<close>) when nobody can send requests
  any more. The result is the client to reconnect, the relay header that is
  required from the headers relay, whether the parachains relay is (re)started, and the next state.
\<close>

definition on_demand_parachains_turn ::
  "('pnumber \<Rightarrow> failed_client + ('phash, 'pnumber::{linorder, zero}, u32) relay_data) \<Rightarrow> 'pnumber on_demand_event \<Rightarrow>
     ('phash, 'pnumber) on_demand_parachains \<Rightarrow>
     (failed_client option \<times> u32 option \<times> bool \<times> ('phash, 'pnumber) on_demand_parachains) option" where
  "on_demand_parachains_turn read_data event v =
     (if event = RequestsClosed then None
      else let v = on_demand_parachains_event event v
      in Some (case read_data (odp_required_parachain_header_number v) of
           Inl failed_client \<Rightarrow> (Some failed_client, None, False, v)
         | Inr relay_data \<Rightarrow>
             let v = v\<lparr>odp_relay_state := select_headers_to_relay relay_data (odp_relay_state v)\<rparr>;
                 (required, v) =
                   (case odp_relay_state v of
                      RelayIdle \<Rightarrow> (None, v)
                    | RelayingRelayHeader required_relay_header \<Rightarrow> (Some required_relay_header, v)
                    | RelayingParaHeader required_para_header \<Rightarrow>
                        (None, v\<lparr>odp_required_para_header_ref := HeaderAvailable required_para_header\<rparr>))
             in (None, required, odp_restart_relay v, v\<lparr>odp_restart_relay := False\<rparr>)))"

definition on_demand_parachains_reconnect :: "'e + unit \<Rightarrow> 'e + unit \<Rightarrow> 'e + unit \<Rightarrow> 'e + unit" where
  "on_demand_parachains_reconnect source_relay_client_reconnect target_client_reconnect headers_relay_reconnect =
     result_bind source_relay_client_reconnect (\<lambda>_. result_bind target_client_reconnect (\<lambda>_. headers_relay_reconnect))"

section \<open>Proofs on demand\<close>

definition select_headers_to_prove ::
  "('e, u64) parachains_client_error + ('hash, u32) header_id \<Rightarrow> ('e, u64) parachains_client_error + ('hash, u32) header_id \<Rightarrow>
     (('hash, u32) header_id \<Rightarrow> ('e, u64) parachains_client_error + ('phash, u32) header_id option) \<Rightarrow> para_id \<Rightarrow> u32 \<Rightarrow>
     ('e, u64) parachains_client_error + bool \<times> ('hash, u32) header_id \<times> ('phash, u32) header_id" where
  "select_headers_to_prove best_relay_at_source best_relay_at_target best_para_at para required_parachain_header =
     result_bind best_relay_at_source (\<lambda>best_finalized_relay_block_at_source.
     result_bind best_relay_at_target (\<lambda>best_finalized_relay_block_at_target.
     result_bind (best_para_at best_finalized_relay_block_at_source) (\<lambda>best_possible.
     case best_possible of
       Some best_possible_parachain_block \<Rightarrow>
         if hid_number best_possible_parachain_block \<ge> required_parachain_header
         then
           let may_use_state = \<not> is_ancient_block (hid_number best_finalized_relay_block_at_target)
                 (hid_number best_finalized_relay_block_at_source)
           in result_bind (if may_use_state then best_para_at best_finalized_relay_block_at_target else Inr None) (\<lambda>para_at_target.
              Inr (case para_at_target of
                     Some block \<Rightarrow>
                       if hid_number block \<ge> required_parachain_header then (False, best_finalized_relay_block_at_target, block)
                       else (True, best_finalized_relay_block_at_source, best_possible_parachain_block)
                   | None \<Rightarrow> (True, best_finalized_relay_block_at_source, best_possible_parachain_block)))
         else Inl (MissingRequiredParachainHead para (ucast required_parachain_header))
     | None \<Rightarrow> Inl (MissingRequiredParachainHead para (ucast required_parachain_header)))))"

datatype ('rcall, 'hash) prove_call =
    ProveRelayHeader 'rcall
  | ProveParaHead "('hash, u32) header_id" "(para_id \<times> 'hash) list" "bytes list"

definition on_demand_parachains_prove_header ::
  "('o, 'acc, 'hash, 'w) parachains_config \<Rightarrow> ('e, 'hash, 'phash, u32) relay_chain_rpc \<Rightarrow> para_id \<Rightarrow>
     ('e, u64) parachains_client_error + ('hash, u32) header_id \<Rightarrow>
     (u32 \<Rightarrow> ('e, u64) parachains_client_error + ('hash, u32) header_id \<times> 'rcall list) \<Rightarrow> u32 \<Rightarrow>
     ('e, u64) parachains_client_error + ('phash, u32) header_id \<times> ('rcall, 'hash) prove_call list" where
  "on_demand_parachains_prove_header C R para best_relay_at_target relay_prove_header required_parachain_header =
     result_bind (select_headers_to_prove (map_sum ParachainsRpcError id (rr_best_finalized_header R)) best_relay_at_target
         (on_chain_para_head_id C R para) para required_parachain_header)
       (\<lambda>(need_to_prove_relay_block, selected_relay_block, selected_parachain_block).
     result_bind (if need_to_prove_relay_block then relay_prove_header (hid_number selected_relay_block)
                  else Inr (selected_relay_block, [])) (\<lambda>(proved_relay_block, relay_calls).
     result_bind (if proved_relay_block \<noteq> selected_relay_block
                  then result_bind (on_chain_para_head_id C R para proved_relay_block) (\<lambda>head.
                         case head of
                           Some head \<Rightarrow> Inr head
                         | None \<Rightarrow> Inl (MissingRequiredParachainHead para (ucast (hid_number proved_relay_block))))
                  else Inr selected_parachain_block) (\<lambda>proved_parachain_block.
     result_bind (source_prove_parachain_head C R para proved_relay_block) (\<lambda>(para_proof, para_hash).
     Inr (proved_parachain_block,
       map ProveRelayHeader relay_calls @ [ProveParaHead proved_relay_block [(para, para_hash)] para_proof])))))"

end
