(* ===== verification/Parachains_Relay_Properties.thy ===== *)
theory Parachains_Relay_Properties
  imports Parachains_Relay Parachains_Properties
    "HOL-Library.List_Lexorder" "HOL-Library.Product_Lexorder"
begin

text \<open>
  The parachains relay and the parachains pallet together: the update that the relay submits is
  accepted, and the pallet has the new head afterwards.
\<close>

section \<open>An accepted head\<close>

lemma submit_one_head_accepted:
  assumes complete: "trie_complete root_of (pc_trie C) path" and keep: "pc_heads_to_keep C \<noteq> 0"
    and mode: "ps_operating_mode s = Normal"
    and relay: "gs_imported_headers relay h = Some data" "shd_number data = r" "root_of (shd_state_root data) storage"
    and head: "storage (head_key C p) = Some v" "pc_decode_para_head C v = Some head" "pc_try_build C p head = Some stored"
      "pc_stored_data_encoded_size C stored \<le> unat (pc_max_para_head_data_size C)"
    and nodes: "distinct nodes" "set nodes = path (shd_state_root data) (head_key C p)"
    and fresh: "\<not> para_is_obsolete \<lparr>sph_at_relay_block_number = r, sph_para_id = p,
        sph_para_head_hash = para_head_hash (pc_blake2_256 C) head\<rparr> s"
  obtains info s' where
    "submit_parachain_heads C relay origin (r, h) [(p, para_head_hash (pc_blake2_256 C) head)] nodes s = Some (Inr (info, s'))"
    "record_head p C (r, stored, para_head_hash (pc_blake2_256 C) head) s = Some s'"
proof -
  let ?hash = "para_head_hash (pc_blake2_256 C) head"
  let ?root = "shd_state_root data"
  let ?st = "\<lparr>spc_proof_nodes_count = length nodes, spc_root = ?root, spc_db = set nodes, spc_recorder = []\<rparr>"
  have "tr_contains (pc_trie C) (set nodes) ?root" using complete relay(3) nodes(2) by (metis trie_complete_def subset_refl)
  then have new: "storage_proof_checker_new (pc_trie C) ?root nodes = Inr ?st"
    using nodes(1) by (simp add: storage_proof_checker_new_def Let_def distinct_card)
  have db: "spc_root ?st = ?root" "path ?root (head_key C p) \<subseteq> spc_db ?st" using nodes(2) by simp_all
  obtain rec where rec: "read_value (pc_trie C) (head_key C p) ?st =
      (Inr (storage (head_key C p)), ?st\<lparr>spc_recorder := spc_recorder ?st @ rec\<rparr>)" "set rec = path ?root (head_key C p)"
    by (rule read_value_complete [OF complete relay(3) db])
  have rd: "read_parachain_head C ?st p = (Inr (Some head), ?st\<lparr>spc_recorder := rec\<rparr>)"
    using rec(1) head(1,2) by (simp add: read_parachain_head_def read_and_decode_value_def)
  obtain s' where s': "record_head p C (r, stored, ?hash) s = Some s'" using keep by (simp add: record_head_eq)
  then obtain w where one: "submit_parachain_head C r (p, ?hash) (?st, w0, s) = Some (?st\<lparr>spc_recorder := rec\<rparr>, w w0, s')" for w0
    using head(3,4) fresh
    by (fastforce simp: submit_parachain_head_def rd Let_def update_parachain_head_def try_from_inner_def record_head_def
        map_option_case split: option.splits prod.splits)
  have unused: "ensure_no_unused_nodes (?st\<lparr>spc_recorder := rec\<rparr>) = Inr ()"
    using nodes rec(2) by (simp add: ensure_no_unused_nodes_def distinct_card [symmetric])
  have root: "grandpa_finalized_header_state_root relay h = Some ?root"
    using relay(1) by (simp add: grandpa_finalized_header_state_root_def)
  have active: "ensure_not_halted parachains_owned s = Inr ()"
    using mode by (simp add: ensure_not_halted_def is_halted_def basic_is_halted_def)
  have "\<exists>info. submit_parachain_heads C relay origin (r, h) [(p, ?hash)] nodes s = Some (Inr (info, s'))"
    using relay(1,2) unused
    by (simp add: submit_parachain_heads_def active parse_finalized_storage_proof_def root new one Let_def)
  then show thesis using that s' by blast
qed

section \<open>The relay chain node and the target\<close>

text \<open>
  An honest node of the relay chain: it reads values from the states of its blocks and proves them;
  the GRANDPA pallet knows the state roots of the blocks that it has imported.
\<close>

definition relay_node_honest ::
  "('hash \<Rightarrow> (bytes \<rightharpoonup> bytes) \<Rightarrow> bool) \<Rightarrow> ('hash \<Rightarrow> bytes \<Rightarrow> bytes set) \<Rightarrow> ('racc, 'hash, u32, 'id) grandpa_state \<Rightarrow>
     ('hash \<Rightarrow> (bytes \<rightharpoonup> bytes)) \<Rightarrow> ('e, 'hash, 'hash, 'number) relay_chain_rpc \<Rightarrow> bool" where
  "relay_node_honest root_of path relay storage_at R \<longleftrightarrow>
     (\<forall>key h. rr_raw_storage_value R key h = Inr (storage_at h key)) \<and>
     (\<forall>h data. gs_imported_headers relay h = Some data \<longrightarrow>
        root_of (shd_state_root data) (storage_at h) \<and>
        (\<forall>key. \<exists>nodes. rr_prove_storage R [key] h = Inr nodes \<and> distinct nodes \<and> set nodes = path (shd_state_root data) key))"

text \<open>The head of a parachain in a state of the relay chain, with the id of its header.\<close>

definition head_on_chain ::
  "('o, 'acc, 'hash, 'w) parachains_config \<Rightarrow> ('e, 'hash, 'hash, 'number) relay_chain_rpc \<Rightarrow> para_id \<Rightarrow> (bytes \<rightharpoonup> bytes) \<Rightarrow>
     ('hash, 'number) header_id \<Rightarrow> bool" where
  "head_on_chain C R p storage hid \<longleftrightarrow>
     (\<exists>v data stored. storage (head_key C p) = Some v \<and> pc_decode_para_head C v = Some (ParaHead data) \<and>
        rr_para_header_id R data = Some hid \<and> hid_hash hid = para_head_hash (pc_blake2_256 C) (ParaHead data) \<and>
        pc_try_build C p (ParaHead data) = Some stored \<and>
        pc_stored_data_encoded_size C stored \<le> unat (pc_max_para_head_data_size C))"

text \<open>
  The ids of the heads by the number of the relay chain block: numbers never decrease and a hash
  has one number. The pallet has the head of the block that its information names.
\<close>

definition heads_ordered :: "(u32 \<Rightarrow> ('hash, 'number::linorder) header_id) \<Rightarrow> bool" where
  "heads_ordered heads_at \<longleftrightarrow>
     (\<forall>a b. a \<le> b \<longrightarrow> hid_number (heads_at a) \<le> hid_number (heads_at b)) \<and>
     (\<forall>a b. hid_hash (heads_at a) = hid_hash (heads_at b) \<longrightarrow> hid_number (heads_at a) = hid_number (heads_at b))"

definition pallet_head ::
  "('acc, 'hash) parachains_state \<Rightarrow> para_id \<Rightarrow> (u32 \<Rightarrow> ('hash, 'number) header_id) \<Rightarrow> ('hash, 'number) header_id option \<Rightarrow> bool" where
  "pallet_head s p heads_at head \<longleftrightarrow>
     head = map_option (\<lambda>info. heads_at (at_relay_block_number (best_head_hash info))) (ps_paras_info s p) \<and>
     (\<forall>info. ps_paras_info s p = Some info \<longrightarrow>
        head_hash (best_head_hash info) = hid_hash (heads_at (at_relay_block_number (best_head_hash info))))"

text \<open>The head that the source client reports, with the limit of the on-demand relay.\<close>

fun limited_head :: "('a::linorder) available_header \<Rightarrow> 'a \<Rightarrow> 'a available_header" where
  "limited_head HeaderUnavailable head = HeaderUnavailable"
| "limited_head HeaderMissing head = HeaderAvailable head"
| "limited_head (HeaderAvailable max_head) head = HeaderAvailable (min head max_head)"

lemma update_means_progress:
  assumes "is_update_required (limited_head max_head head) (Some old)"
  shows "hid_number old < hid_number head"
proof (cases max_head)
  case (HeaderAvailable m)
  with assms have "hid_number old < hid_number (min head m)" by simp
  also have "\<dots> \<le> hid_number head" by (auto simp: min_def less_eq_header_id_def not_le)
  finally show ?thesis .
qed (use assms in simp_all)

lemma update_not_obsolete:
  assumes "heads_ordered heads_at" and "pallet_head s p heads_at target_head"
    and "is_update_required (limited_head max_head (heads_at r)) target_head"
  shows "\<not> para_is_obsolete \<lparr>sph_at_relay_block_number = r, sph_para_id = p, sph_para_head_hash = hid_hash (heads_at r)\<rparr> s"
proof (cases "ps_paras_info s p")
  case (Some info)
  let ?a = "at_relay_block_number (best_head_hash info)"
  have "hid_number (heads_at ?a) < hid_number (heads_at r)"
    using assms(2,3) Some by (intro update_means_progress [of max_head]) (simp add: pallet_head_def)
  then have "\<not> r \<le> ?a" "hid_hash (heads_at ?a) \<noteq> hid_hash (heads_at r)"
    using assms(1) unfolding heads_ordered_def by (metis leD, metis less_irrefl)
  then show ?thesis using assms(2) Some by (simp add: para_is_obsolete_def pallet_head_def)
qed (simp add: para_is_obsolete_def)

lemma source_parachain_head_honest:
  assumes "relay_node_honest root_of path relay storage_at R" and "head_on_chain C R p (storage_at h) head"
    and "rr_best_finalized_header R = Inr best" and "\<not> is_ancient_block r (hid_number best)"
  shows "source_parachain_head C R p max_head (HeaderId r h) = Inr (limited_head max_head head)"
  using assms
  by (cases max_head)
    (auto simp: source_parachain_head_def on_chain_para_head_id_def read_para_head_def relay_node_honest_def head_on_chain_def Let_def)

section \<open>Properties\<close>


text \<open>
  The removal of a parachain is not propagated: when the relay chain has no head any more and the
  pallet has one, the loop requires an update, but the source client cannot prove the missing head
  and the turn fails.
\<close>

lemma offboarded_parachain_stalls:
  assumes "rr_ensure_synced R = Inr ()" and "rr_best_finalized_header R = Inr best" and "\<not> is_ancient_block r (hid_number best)"
    and "rr_raw_storage_value R (head_key C p) h = Inr None" and "rr_prove_storage R [head_key C p] h = Inr nodes"
  shows "is_update_required HeaderMissing (Some target_head) \<and>
    parachains_loop_turn poll (substrate_parachains_source C R p max_head)
      (substrate_parachains_target (Inr b) (\<lambda>_. Inr (Some (HeaderId r h))) (\<lambda>_. Inr (Some (Some target_head))) submit p) None =
    Inl SourceFailed"
  using assms
  by (simp add: parachains_loop_turn_def substrate_parachains_source_def substrate_parachains_target_def source_ensure_synced_def
      read_head_at_target_def read_head_at_source_def source_parachain_head_def on_chain_para_head_id_def read_para_head_def
      source_prove_parachain_head_def Let_def)

section \<open>An example\<close>

text \<open>Parachain 1 has head 42 in the fifth and head 43 in the sixth block of the relay chain.\<close>

definition sample_heads_at :: "u32 \<Rightarrow> (sample_hash, nat) header_id" where
  "sample_heads_at n = (if n \<le> 5 then HeaderId 42 [([42], [])] else HeaderId 43 [([43], [])])"

definition sample_storage_at :: "sample_hash \<Rightarrow> (bytes \<rightharpoonup> bytes)" where
  "sample_storage_at h = (case gs_imported_headers (sample_relay_state [42] [43]) h of
     Some data \<Rightarrow> map_of (shd_state_root data) | None \<Rightarrow> Map.empty)"

definition sample_relay_rpc :: "(nat, sample_hash, sample_hash, nat) relay_chain_rpc" where
  "sample_relay_rpc = \<lparr>rr_ensure_synced = Inr (), rr_best_finalized_header = Inr (HeaderId 6 [([6], [])]),
     rr_raw_storage_value = (\<lambda>key h. Inr (sample_storage_at h key)), rr_prove_storage = (\<lambda>keys h. Inr (remdups keys)),
     rr_para_header_id = (\<lambda>data. case data of [n] \<Rightarrow> Some (HeaderId (unat n) [(data, [])]) | _ \<Rightarrow> None)\<rparr>"

lemma sample_head_key: "head_key sample_parachains_config (ParaId 1) = [1]"
  by (simp add: parachain_head_storage_key_at_source_def storage_map_final_key_def sample_parachains_config_def)


end
