(* ===== verification/On_Demand_Properties.thy ===== *)
theory On_Demand_Properties
  imports On_Demand Finality_Selection Parachains_Relay_Properties
begin

text \<open>
  The on-demand relays: mandatory headers are required in their order, the parachains relay never
  waits for something that cannot come, and proofs on demand prove the required header.
\<close>

section \<open>Mandatory headers\<close>

text \<open>The search as a recursion on the list of numbers.\<close>

fun find_mandatory :: "('header \<Rightarrow> bool) \<Rightarrow> ('n \<Rightarrow> 'e + 'header) \<Rightarrow> 'n list \<Rightarrow> 'e + 'n option" where
  "find_mandatory mandatory header_by_number [] = Inr None"
| "find_mandatory mandatory header_by_number (n # ns) =
     (case header_by_number n of
        Inl e \<Rightarrow> Inl e
      | Inr header \<Rightarrow> if mandatory header then Inr (Some n) else find_mandatory mandatory header_by_number ns)"

lemma find_mandatory_header_in_range_eq:
  assumes "b < - 1"
  shows "find_mandatory_header_in_range mandatory header_by_number a b = Some (find_mandatory mandatory header_by_number (number_range a b))"
proof (induction "Suc (unat b) - unat a" arbitrary: a)
  case 0
  then have "\<not> a \<le> b" "b < a" by (simp_all add: word_le_nat_alt word_less_nat_alt)
  then show ?case by (subst find_mandatory_header_in_range.simps) (simp add: number_range_empty)
next
  case (Suc d)
  then have a: "a \<le> b" by (simp add: word_le_nat_alt)
  then have "unat (a + 1) = Suc (unat a)" using assms by (intro unat_succ) (rule order_le_less_trans)
  then have "find_mandatory_header_in_range mandatory header_by_number (a + 1) b =
      Some (find_mandatory mandatory header_by_number (number_range (a + 1) b))"
    using Suc.hyps(2) by (intro Suc.hyps(1)) simp
  then show ?case
    using a by (subst find_mandatory_header_in_range.simps) (simp add: number_range_Cons [OF a assms] split: sum.split)
qed

lemma find_mandatory_spec:
  fixes ns :: "'n::linorder list"
  assumes "sorted_wrt (<) ns" and "\<forall>n \<in> set ns. header_by_number n = Inr (chain n)"
  shows "case find_mandatory mandatory header_by_number ns of
      Inl e \<Rightarrow> False
    | Inr None \<Rightarrow> \<forall>n \<in> set ns. \<not> mandatory (chain n)
    | Inr (Some m) \<Rightarrow> m \<in> set ns \<and> mandatory (chain m) \<and> (\<forall>n \<in> set ns. n < m \<longrightarrow> \<not> mandatory (chain n))"
  using assms by (induction ns) (auto split: sum.splits option.splits)

lemma required_grows: "required \<le> fold require_more_headers requests (required :: 'n::linorder)"
proof (induction requests arbitrary: required)
  case (Cons r requests)
  have "required \<le> require_more_headers r required" by (simp add: require_more_headers_def less_imp_le)
  also have "\<dots> \<le> fold require_more_headers requests (require_more_headers r required)" by (rule Cons.IH)
  finally show ?case by simp
qed simp

text \<open>
  The on-demand headers relay does not miss the first mandatory header. A turn with answers of
  both clients ends; when the source has finalized more than what is required, every header up to the
  new required number or up to the first mandatory header of the scanned range is not mandatory, and
  the first mandatory one is required afterwards.
\<close>

lemma on_demand_requires_first_mandatory:
  fixes b t :: "'l::len word"
  assumes b: "b < - 1" and chain: "\<And>n. header_by_number n = Inr (chain n)"
    and required: "odh_required_header_number v < b"
  obtains started v' where
    "on_demand_headers_turn mandatory conn header_by_number (Inr b) (Inr t) requests ended v = Some (None, started, v')"
    "odh_required_header_number v \<le> odh_required_header_number v'"
    "\<And>m. max (t + 1) (odh_latest_non_mandatory_at_source v) \<le> m \<Longrightarrow> m \<le> b \<Longrightarrow> mandatory (chain m) \<Longrightarrow>
       \<exists>m' \<le> m. max (t + 1) (odh_latest_non_mandatory_at_source v) \<le> m' \<and> mandatory (chain m') \<and> m' \<le> odh_required_header_number v'"
proof -
  define lo where "lo = max (t + 1) (odh_latest_non_mandatory_at_source v)"
  let ?req = "fold require_more_headers requests (odh_required_header_number v)"
  have mem: "n \<in> set (number_range lo b) \<longleftrightarrow> lo \<le> n \<and> n \<le> b" for n by (simp add: set_number_range)
  have spec: "case find_mandatory mandatory header_by_number (number_range lo b) of
      Inl e \<Rightarrow> False
    | Inr None \<Rightarrow> \<forall>n \<in> set (number_range lo b). \<not> mandatory (chain n)
    | Inr (Some m) \<Rightarrow> m \<in> set (number_range lo b) \<and> mandatory (chain m) \<and>
        (\<forall>n \<in> set (number_range lo b). n < m \<longrightarrow> \<not> mandatory (chain n))"
    by (rule find_mandatory_spec [OF number_range_sorted]) (simp add: chain)
  have scan: "mandatory_headers_scan_range (Some b) (Some t) (odh_required_header_number v) = Some (t + 1, b)"
    using required by (simp add: mandatory_headers_scan_range_def)
  define w where "w = (if ended then v\<lparr>odh_restart_relay := True\<rparr> else v)"
  have w: "odh_required_header_number w = odh_required_header_number v"
    "odh_latest_non_mandatory_at_source w = odh_latest_non_mandatory_at_source v" by (simp_all add: w_def)
  define r where "r = (case find_mandatory mandatory header_by_number (number_range lo b) of Inr (Some m) \<Rightarrow> if m \<le> ?req then ?req else m | _ \<Rightarrow> ?req)"
  have "\<exists>res. relay_mandatory_header_from_range mandatory header_by_number requests (lo, b) (odh_required_header_number v) =
      Some (Inr res, r)"
    using spec by (auto simp: relay_mandatory_header_from_range_def find_mandatory_header_in_range_eq [OF b] r_def Let_def
        split: sum.splits option.splits)
  then obtain res where res: "relay_mandatory_header_from_range mandatory header_by_number requests (lo, b)
      (odh_required_header_number v) = Some (Inr res, r)" ..
  obtain started v' where turn:
    "on_demand_headers_turn mandatory conn header_by_number (Inr b) (Inr t) requests ended v = Some (None, started, v')"
    and v': "odh_required_header_number v' = r"
    by (cases res) (simp_all add: on_demand_headers_turn_def w_def [symmetric] w scan lo_def [symmetric] res Let_def)
  show thesis
  proof (rule that [OF turn, folded lo_def])
    show "odh_required_header_number v \<le> odh_required_header_number v'"
      using required_grows [of "odh_required_header_number v" requests]
      by (auto simp: v' r_def split: sum.split option.split)
    fix m assume m: "lo \<le> m" "m \<le> b" "mandatory (chain m)"
    then have "m \<in> set (number_range lo b)" by (simp only: mem)
    then obtain m' where "find_mandatory mandatory header_by_number (number_range lo b) = Inr (Some m')"
      using spec m(3) by (auto split: sum.splits option.splits)
    moreover from this spec m(3) \<open>m \<in> set (number_range lo b)\<close> have "m' \<le> m" "mandatory (chain m')" "lo \<le> m'"
      by (auto simp: mem not_less [symmetric])
    ultimately show "\<exists>m' \<le> m. lo \<le> m' \<and> mandatory (chain m') \<and> m' \<le> odh_required_header_number v'"
      by (auto simp: v' r_def)
  qed
qed

text \<open>
  It can miss a second one. The headers 5 and 8 are mandatory, 6 is required, the target has 4 and the
  source has finalized 10. The first mandatory header is already covered by the required one, and
  the whole range is remembered as free of mandatory headers: when the target has 6, the headers
  7 to 9 are not scanned any more and header 8 is not required.
\<close>

lemma on_demand_forgets_second_mandatory:
  fixes v :: "u32 on_demand_headers"
  assumes "v = \<lparr>odh_required_header_number = 6, odh_latest_non_mandatory_at_source = 0, odh_restart_relay = False\<rparr>"
  shows "on_demand_headers_turn (\<lambda>n. n = 5 \<or> n = 8) (\<lambda>_. True) Inr (Inr 10) (Inr 4) [] False v =
      Some (None, False, v\<lparr>odh_latest_non_mandatory_at_source := 10\<rparr>)"
    and "on_demand_headers_turn (\<lambda>n. n = 5 \<or> n = 8) (\<lambda>_. True) Inr (Inr 10) (Inr 6) [] False (v\<lparr>odh_latest_non_mandatory_at_source := 10\<rparr>) =
      Some (None, False, v\<lparr>odh_latest_non_mandatory_at_source := 10\<rparr>)"
  by (simp_all add: assms on_demand_headers_turn_def mandatory_headers_scan_range_def relay_mandatory_header_from_range_def
      find_mandatory_header_in_range.simps [of _ _ 5] find_mandatory_header_in_range.simps [of _ _ 10]
      find_mandatory_header_in_range.simps [of _ _ 11] Let_def word_le_nat_alt max_def)

section \<open>Heads on demand\<close>

text \<open>
  The source and the target as the relay sees them: the best relay chain headers at both sides and
  the number of the parachain head at the target.
\<close>

record 'pnumber on_demand_env =
  ode_relay_at_source :: u32
  ode_relay_at_target :: u32
  ode_para_at_target :: "'pnumber option"

definition env_data ::
  "(u32 \<Rightarrow> ('phash, 'pnumber) header_id) \<Rightarrow> 'pnumber on_demand_env \<Rightarrow> 'pnumber \<Rightarrow> ('phash, 'pnumber, u32) relay_data" where
  "env_data heads_at e required = \<lparr>rd_required_para_header = required, rd_para_header_at_target = ode_para_at_target e,
     rd_para_header_at_source = Some (heads_at (ode_relay_at_source e)),
     rd_para_header_at_relay_header_at_target =
       (if is_ancient_block (ode_relay_at_target e) (ode_relay_at_source e) then None else Some (heads_at (ode_relay_at_target e))),
     rd_relay_header_at_source = ode_relay_at_source e, rd_relay_header_at_target = Some (ode_relay_at_target e)\<rparr>"

text \<open>The chains make progress, and the relay takes turns; the target only knows headers of the source.\<close>

inductive on_demand_reachable ::
  "(u32 \<Rightarrow> ('phash, 'pnumber::{linorder, zero}) header_id) \<Rightarrow> 'pnumber on_demand_env \<Rightarrow> ('phash, 'pnumber, u32) relay_state \<Rightarrow> bool"
  for heads_at where
  on_demand_start: "ode_relay_at_target e \<le> ode_relay_at_source e \<Longrightarrow> on_demand_reachable heads_at e RelayIdle"
| on_demand_env: "on_demand_reachable heads_at e st \<Longrightarrow> ode_relay_at_source e \<le> ode_relay_at_source e' \<Longrightarrow>
    ode_relay_at_target e \<le> ode_relay_at_target e' \<Longrightarrow> ode_relay_at_target e' \<le> ode_relay_at_source e' \<Longrightarrow>
    on_demand_reachable heads_at e' st"
| on_demand_turn: "on_demand_reachable heads_at e st \<Longrightarrow>
    on_demand_reachable heads_at e (select_headers_to_relay (env_data heads_at e required) st)"

definition heads_grow :: "(u32 \<Rightarrow> ('phash, 'pnumber::linorder) header_id) \<Rightarrow> bool" where
  "heads_grow heads_at \<longleftrightarrow> (\<forall>a b. a \<le> b \<longrightarrow> hid_number (heads_at a) \<le> hid_number (heads_at b))"

text \<open>What the relay waits for can come: it is at the source and, for a head, in a known block.\<close>

fun attainable :: "(u32 \<Rightarrow> ('phash, 'pnumber::linorder) header_id) \<Rightarrow> 'pnumber on_demand_env \<Rightarrow> ('phash, 'pnumber, u32) relay_state \<Rightarrow> bool" where
  "attainable heads_at e RelayIdle \<longleftrightarrow> True"
| "attainable heads_at e (RelayingRelayHeader r) \<longleftrightarrow> r \<le> ode_relay_at_source e"
| "attainable heads_at e (RelayingParaHeader h) \<longleftrightarrow> hid_number h \<le> hid_number (heads_at (ode_relay_at_target e))"

lemma select_regular_attainable:
  assumes "ode_relay_at_target e \<le> ode_relay_at_source e"
  shows "attainable heads_at e (select_headers_regular (env_data heads_at e required) (ode_relay_at_target e))"
  using assms by (auto simp: select_headers_regular_def env_data_def Let_def antisym split: option.split)

lemma select_attainable:
  assumes "ode_relay_at_target e \<le> ode_relay_at_source e" and "attainable heads_at e st"
  shows "attainable heads_at e (select_headers_to_relay (env_data heads_at e required) st)"
proof -
  have data: "rd_relay_header_at_target (env_data heads_at e required) = Some (ode_relay_at_target e)"
    "rd_para_header_at_relay_header_at_target (env_data heads_at e required) =
       (if is_ancient_block (ode_relay_at_target e) (ode_relay_at_source e) then None else Some (heads_at (ode_relay_at_target e)))"
    by (simp_all add: env_data_def)
  show ?thesis
    using assms select_regular_attainable [OF assms(1), of heads_at required]
    by (cases st) (simp_all add: select_headers_to_relay_def data Let_def)
qed

lemma on_demand_reachable_attainable:
  assumes "heads_grow heads_at" and "on_demand_reachable heads_at e st"
  shows "ode_relay_at_target e \<le> ode_relay_at_source e \<and> attainable heads_at e st"
  using assms(2)
proof (induction rule: on_demand_reachable.induct)
  case (on_demand_env e st e')
  moreover have "hid_number (heads_at (ode_relay_at_target e)) \<le> hid_number (heads_at (ode_relay_at_target e'))"
    using assms(1) on_demand_env.hyps by (simp add: heads_grow_def)
  ultimately show ?case by (cases st) (auto intro: order_trans)
qed (simp_all add: select_attainable)



section \<open>Proofs on demand\<close>

text \<open>The headers relay proves the requested header or a descendant.\<close>

definition proves_descendants :: "(u32 \<Rightarrow> 'e + ('hash, u32) header_id \<times> 'c list) \<Rightarrow> bool" where
  "proves_descendants relay_prove_header \<longleftrightarrow>
     (\<forall>n block calls. relay_prove_header n = Inr (block, calls) \<longrightarrow> n \<le> hid_number block)"

text \<open>The relay chain node knows the head of the parachain at every block.\<close>

definition heads_known ::
  "('o, 'acc, 'hash, 'w) parachains_config \<Rightarrow> ('e, 'hash, 'phash, u32) relay_chain_rpc \<Rightarrow> para_id \<Rightarrow>
     (u32 \<Rightarrow> ('phash, u32) header_id) \<Rightarrow> bool" where
  "heads_known C R p heads_at \<longleftrightarrow> (\<forall>block. on_chain_para_head_id C R p block = Inr (Some (heads_at (hid_number block))))"

lemma select_headers_to_prove_spec:
  assumes "\<And>block. best_para_at block = Inr (Some (heads_at (hid_number block)))"
    and "select_headers_to_prove (Inr src) (Inr tgt) best_para_at p required = Inr (need, block, para)"
  shows "required \<le> hid_number para \<and> para = heads_at (hid_number block) \<and>
    (if need then block = src else block = tgt \<and> \<not> is_ancient_block (hid_number tgt) (hid_number src))"
  using assms by (auto simp: select_headers_to_prove_def Let_def split: if_splits)

text \<open>
  C31: proofs on demand prove the required head. When the on-demand parachains relay returns calls
  for a required head, the returned head is not older than the required one, it is the head of the
  relay chain block that the last call names, and the target either knows this block already, and
  its state is not ancient, or the preceding calls of the headers relay prove it.
\<close>

theorem on_demand_proof_covers_required:
  assumes "heads_grow heads_at" and "heads_known C R p heads_at" and "proves_descendants relay_prove_header"
    and "rr_best_finalized_header R = Inr src"
    and "on_demand_parachains_prove_header C R p (Inr tgt) relay_prove_header required = Inr (para, calls)"
  shows "required \<le> hid_number para \<and>
    (\<exists>block relay_calls hash nodes. para = heads_at (hid_number block) \<and>
       calls = map ProveRelayHeader relay_calls @ [ProveParaHead block [(p, hash)] nodes] \<and>
       source_prove_parachain_head C R p block = Inr (nodes, hash) \<and>
       (relay_prove_header (hid_number src) = Inr (block, relay_calls) \<or>
        block = tgt \<and> relay_calls = [] \<and> \<not> is_ancient_block (hid_number tgt) (hid_number src)))"
proof -
  obtain need sel sel_para where sel: "select_headers_to_prove (Inr src) (Inr tgt) (on_chain_para_head_id C R p) p required =
      Inr (need, sel, sel_para)"
    using assms(4,5) by (auto simp: on_demand_parachains_prove_header_def result_bind_Inr)
  have known: "on_chain_para_head_id C R p block = Inr (Some (heads_at (hid_number block)))" for block
    using assms(2) by (simp add: heads_known_def)
  note spec = select_headers_to_prove_spec [OF known sel]
  obtain block relay_calls where block: "(if need then relay_prove_header (hid_number sel) else Inr (sel, [])) = Inr (block, relay_calls)"
    and rest: "result_bind (if block \<noteq> sel then Inr (heads_at (hid_number block)) else Inr sel_para) (\<lambda>proved_parachain_block.
      result_bind (source_prove_parachain_head C R p block) (\<lambda>(para_proof, para_hash).
      Inr (proved_parachain_block, map ProveRelayHeader relay_calls @ [ProveParaHead block [(p, para_hash)] para_proof]))) = Inr (para, calls)"
    using assms(5)
    by (auto simp: on_demand_parachains_prove_header_def assms(4) sel known result_bind_Inr cong: if_cong)
  then obtain nodes hash where pr: "source_prove_parachain_head C R p block = Inr (nodes, hash)"
    and calls: "calls = map ProveRelayHeader relay_calls @ [ProveParaHead block [(p, hash)] nodes]"
    and para: "para = heads_at (hid_number block)"
    using spec by (auto simp: result_bind_Inr split: if_splits)
  have "hid_number sel \<le> hid_number block"
    using block assms(3) by (auto simp: proves_descendants_def split: if_splits)
  then have "hid_number (heads_at (hid_number sel)) \<le> hid_number para"
    using assms(1) by (simp add: heads_grow_def para)
  then have "required \<le> hid_number para" using spec by (metis order_trans)
  moreover have "relay_prove_header (hid_number src) = Inr (block, relay_calls) \<or>
      block = tgt \<and> relay_calls = [] \<and> \<not> is_ancient_block (hid_number tgt) (hid_number src)"
    using block spec by (auto split: if_splits)
  ultimately show ?thesis using pr calls para by blast
qed

definition sample_word_rpc :: "(nat, sample_hash, sample_hash, u32) relay_chain_rpc" where
  "sample_word_rpc = \<lparr>rr_ensure_synced = Inr (), rr_best_finalized_header = Inr (HeaderId 6 [([6], [])]),
     rr_raw_storage_value = (\<lambda>key h. Inr (Some [43])), rr_prove_storage = (\<lambda>keys h. Inr keys),
     rr_para_header_id = (\<lambda>data. Some (HeaderId 43 [(data, [])]))\<rparr>"

theorem on_demand_proof_covers_required_witness:
  "(40 :: u32) \<le> hid_number (HeaderId 43 [([43], [])] :: (sample_hash, u32) header_id) \<and>
   (\<exists>block relay_calls hash nodes.
     [ProveParaHead (HeaderId 5 [([5], [])]) [(ParaId 1, [([43], [])])] [[1]]] =
       map ProveRelayHeader (relay_calls :: nat list) @ [ProveParaHead block [(ParaId 1, hash)] nodes] \<and>
     source_prove_parachain_head sample_parachains_config sample_word_rpc (ParaId 1) block = Inr (nodes, hash))"
proof -
  have heads: "heads_grow (\<lambda>_. HeaderId 43 [([43], [])] :: (sample_hash, u32) header_id)" by (simp add: heads_grow_def)
  have known: "heads_known sample_parachains_config sample_word_rpc (ParaId 1) (\<lambda>_. HeaderId 43 [([43], [])])"
    by (simp add: heads_known_def on_chain_para_head_id_def read_para_head_def sample_word_rpc_def sample_parachains_config_def Let_def)
  have desc: "proves_descendants (\<lambda>n. Inr (HeaderId n [], [0 :: nat]) :: (nat, u64) parachains_client_error + (sample_hash, u32) header_id \<times> nat list)"
    by (simp add: proves_descendants_def)
  have run: "on_demand_parachains_prove_header sample_parachains_config sample_word_rpc (ParaId 1) (Inr (HeaderId 5 [([5], [])]))
      (\<lambda>n. Inr (HeaderId n [], [0 :: nat])) 40 =
      Inr (HeaderId 43 [([43], [])], [ProveParaHead (HeaderId 5 [([5], [])]) [(ParaId 1, [([43], [])])] [[1]]])"
    by (simp add: on_demand_parachains_prove_header_def select_headers_to_prove_def on_chain_para_head_id_def read_para_head_def
        source_prove_parachain_head_def sample_head_key sample_word_rpc_def sample_parachains_config_def para_head_hash_def
        is_ancient_block_def saturating_sub_def ANCIENT_BLOCK_THRESHOLD_def parachain_head_storage_key_at_source_def
        storage_map_final_key_def Let_def word_le_nat_alt)
  show ?thesis
    using on_demand_proof_covers_required [OF heads known desc _ run] by (simp add: sample_word_rpc_def)
qed

end
