(* ===== verification/Substrate_Client.thy ===== *)
theory Substrate_Client
  imports Bridge_Runtime Relay_Utils
begin

text \<open>
  The client of a Substrate node that all relays share (\<open>relays/client-substrate/src/\<close>): its errors
  (\<open>error.rs\<close>), the submission of signed transactions (\<open>client.rs\<close>), the tracker of a submitted
  transaction (\<open>transaction_tracker.rs\<close>) and the guards that abort the relay (\<open>guard.rs\<close>, and their
  start in \<open>lib-substrate-relay/src/finality/guards.rs\<close>). The node itself is a record of the answers
  to its RPC methods. Durations and instants are natural numbers of seconds.
\<close>

section \<open>Errors\<close>

text \<open>The errors of the JSON-RPC library that the client distinguishes.\<close>

datatype rpc_error = RpcTransport | RpcInternal | RpcRestartNeeded | RpcOther string

datatype client_error =
    Io string
  | ClientRpcError rpc_error
  | ResponseParseFailed
  | AccountDoesNotExist
  | MissingMandatoryStorageValue
  | MissingRequiredParachainHead u32 u64
  | FinalityProofNotFound u64
  | ClientNotSynced
  | FailedToReadBestFinalizedHeaderHash client_error
  | FailedToReadBestHeader client_error
  | FailedToReadHeaderByHash client_error
  | ErrorExecutingRuntimeCall string client_error
  | FailedToReadRuntimeStorageValue client_error
  | ClientBridgePalletIsHalted
  | BridgePalletIsNotInitialized
  | NoParachainHeadAtTarget u32 string
  | StorageProofError
  | TransactionInvalid
  | CustomError string

fun client_is_connection_error :: "client_error \<Rightarrow> bool" where
  "client_is_connection_error (ClientRpcError RpcTransport) = True"
| "client_is_connection_error (ClientRpcError RpcInternal) = True"
| "client_is_connection_error (ClientRpcError RpcRestartNeeded) = True"
| "client_is_connection_error ClientNotSynced = True"
| "client_is_connection_error (FailedToReadBestFinalizedHeaderHash e) = client_is_connection_error e"
| "client_is_connection_error (FailedToReadBestHeader e) = client_is_connection_error e"
| "client_is_connection_error (FailedToReadHeaderByHash e) = client_is_connection_error e"
| "client_is_connection_error (ErrorExecutingRuntimeCall _ e) = client_is_connection_error e"
| "client_is_connection_error (FailedToReadRuntimeStorageValue e) = client_is_connection_error e"
| "client_is_connection_error _ = False"

section \<open>Runtime version and health\<close>

record simple_runtime_version =
  srv_spec_version :: u32
  srv_transaction_version :: u32

datatype chain_runtime_version = AutoVersion | CustomVersion simple_runtime_version

record health =
  peers :: nat
  is_syncing :: bool
  should_have_peers :: bool

text \<open>
  The RPC methods of a node with headers \<open>'h\<close>, accounts \<open>'acc\<close>, transaction indices \<open>'i\<close> and
  subscriptions \<open>'sub\<close>. Accepting a transaction changes the state \<open>'s\<close> of the node.
\<close>

record ('s, 'h, 'acc, 'i, 'tx, 'hash, 'sub) node_rpc =
  nr_runtime_version :: "'s \<Rightarrow> client_error + simple_runtime_version"
  nr_health :: "'s \<Rightarrow> rpc_error + health"
  nr_account_next_index :: "'s \<Rightarrow> 'acc \<Rightarrow> rpc_error + 'i"
  nr_best_header :: "'s \<Rightarrow> rpc_error + 'h"
  nr_submit_extrinsic :: "'tx \<Rightarrow> 's \<Rightarrow> (rpc_error + 'hash) \<times> 's"
  nr_submit_and_watch_extrinsic :: "'tx \<Rightarrow> 's \<Rightarrow> (rpc_error + 'sub) \<times> 's"

definition simple_runtime_version_of ::
  "('s, 'h, 'acc, 'i, 'tx, 'hash, 'sub) node_rpc \<Rightarrow> chain_runtime_version \<Rightarrow> 's \<Rightarrow> client_error + simple_runtime_version" where
  "simple_runtime_version_of N chain_runtime_version s =
     (case chain_runtime_version of
        AutoVersion \<Rightarrow> nr_runtime_version N s
      | CustomVersion version \<Rightarrow> Inr version)"

definition ensure_synced :: "('s, 'h, 'acc, 'i, 'tx, 'hash, 'sub) node_rpc \<Rightarrow> 's \<Rightarrow> client_error + unit" where
  "ensure_synced N s =
     (case nr_health N s of
        Inl e \<Rightarrow> Inl (ClientRpcError e)
      | Inr health \<Rightarrow>
          if \<not> is_syncing health \<and> (\<not> should_have_peers health \<or> peers health > 0) then Inr ()
          else Inl ClientNotSynced)"

section \<open>Submitting transactions\<close>

text \<open>The largest \<open>Duration\<close>, in whole seconds; \<open>saturating_mul\<close> stops there.\<close>

definition MAX_DURATION :: nat where
  "MAX_DURATION = 2 ^ 64 - 1"

definition transaction_stall_timeout :: "u32 option \<Rightarrow> nat \<Rightarrow> nat \<Rightarrow> nat" where
  "transaction_stall_timeout mortality_period average_block_interval default_stall_timeout =
     (case mortality_period of
        Some mortality_period \<Rightarrow> min MAX_DURATION (average_block_interval * unat (mortality_period + 1 + 1))
      | None \<Rightarrow> default_stall_timeout)"

record ('key, 'hash) sign_param =
  sp_spec_version :: u32
  sp_transaction_version :: u32
  sp_genesis_hash :: 'hash
  sp_signer :: 'key

definition build_sign_params ::
  "('s, 'h, 'acc, 'i, 'tx, 'hash, 'sub) node_rpc \<Rightarrow> chain_runtime_version \<Rightarrow> 'hash \<Rightarrow> 'key \<Rightarrow> 's \<Rightarrow>
     client_error + ('key, 'hash) sign_param" where
  "build_sign_params N chain_runtime_version genesis_hash signer s =
     result_bind (simple_runtime_version_of N chain_runtime_version s) (\<lambda>runtime_version.
       Inr \<lparr>sp_spec_version = srv_spec_version runtime_version,
            sp_transaction_version = srv_transaction_version runtime_version,
            sp_genesis_hash = genesis_hash, sp_signer = signer\<rparr>)"

text \<open>
  A client: the node, the configured version, the genesis hash, how a header is identified, how a
  transaction is signed (and encoded), and the account of a key.
\<close>

record ('s, 'h, 'acc, 'i, 'tx, 'hash, 'sub, 'number, 'key, 'unsigned) client =
  cl_rpc :: "('s, 'h, 'acc, 'i, 'tx, 'hash, 'sub) node_rpc"
  cl_chain_runtime_version :: chain_runtime_version
  cl_genesis_hash :: 'hash
  cl_header_id :: "'h \<Rightarrow> ('hash, 'number) header_id"
  cl_header_parent_id :: "'h \<Rightarrow> ('hash, 'number) header_id option"
  cl_sign_transaction :: "('key, 'hash) sign_param \<Rightarrow> 'unsigned \<Rightarrow> client_error + 'tx"
  cl_account :: "'key \<Rightarrow> 'acc"

abbreviation rpc_answer :: "rpc_error + 'a \<Rightarrow> client_error + 'a" where
  "rpc_answer \<equiv> map_sum ClientRpcError id"

abbreviation best_header_answer :: "rpc_error + 'a \<Rightarrow> client_error + 'a" where
  "best_header_answer \<equiv> map_sum (\<lambda>e. FailedToReadBestHeader (ClientRpcError e)) id"

text \<open>
  The call runs under the lock \<open>submit_signed_extrinsic_lock\<close>, so the state of the node between the
  read of the index and the submission changes by this client only.
\<close>

definition submit_signed_extrinsic ::
  "('s, 'h, 'acc, 'i, 'tx, 'hash, 'sub, 'number, 'key, 'unsigned) client \<Rightarrow> 'key \<Rightarrow>
     (('hash, 'number) header_id \<Rightarrow> 'i \<Rightarrow> client_error + 'unsigned) \<Rightarrow> 's \<Rightarrow> (client_error + 'hash) \<times> 's" where
  "submit_signed_extrinsic C signer prepare_extrinsic s =
     (case
        result_bind (rpc_answer (nr_account_next_index (cl_rpc C) s (cl_account C signer))) (\<lambda>transaction_nonce.
        result_bind (best_header_answer (nr_best_header (cl_rpc C) s)) (\<lambda>best_header.
        result_bind (build_sign_params (cl_rpc C) (cl_chain_runtime_version C) (cl_genesis_hash C) signer s) (\<lambda>signing_data.
        let best_header_id =
              (case cl_header_parent_id C best_header of Some i \<Rightarrow> i | None \<Rightarrow> cl_header_id C best_header)
        in result_bind (prepare_extrinsic best_header_id transaction_nonce) (cl_sign_transaction C signing_data))))
      of Inl e \<Rightarrow> (Inl e, s)
       | Inr signed_extrinsic \<Rightarrow> map_prod rpc_answer id (nr_submit_extrinsic (cl_rpc C) signed_extrinsic s))"

text \<open>
  The watching variant returns the tracker with the subscription to the updates of the status. Its
  stall timeout follows from the era of the transaction.
\<close>

definition STALL_TIMEOUT :: nat where
  "STALL_TIMEOUT = 60 * 60"

record ('hash, 'sub) transaction_tracker =
  tt_transaction_hash :: 'hash
  tt_stall_timeout :: nat
  tt_subscription :: 'sub

definition submit_and_watch_signed_extrinsic ::
  "('s, 'h, 'acc, 'i, 'tx, 'hash, 'sub, 'number, 'key, 'unsigned) client \<Rightarrow> ('tx \<Rightarrow> 'hash) \<Rightarrow> ('unsigned \<Rightarrow> u32 option) \<Rightarrow>
     nat \<Rightarrow> 'key \<Rightarrow> (('hash, 'number) header_id \<Rightarrow> 'i \<Rightarrow> client_error + 'unsigned) \<Rightarrow> 's \<Rightarrow>
     (client_error + ('hash, 'sub) transaction_tracker) \<times> 's" where
  "submit_and_watch_signed_extrinsic C hasher mortality_period average_block_interval signer prepare_extrinsic s =
     (case
        result_bind (build_sign_params (cl_rpc C) (cl_chain_runtime_version C) (cl_genesis_hash C) signer s) (\<lambda>signing_data.
        result_bind (rpc_answer (nr_account_next_index (cl_rpc C) s (cl_account C signer))) (\<lambda>transaction_nonce.
        result_bind (best_header_answer (nr_best_header (cl_rpc C) s)) (\<lambda>best_header.
        let best_header_id = cl_header_id C best_header
        in result_bind (prepare_extrinsic best_header_id transaction_nonce) (\<lambda>extrinsic.
           let stall_timeout = transaction_stall_timeout (mortality_period extrinsic) average_block_interval STALL_TIMEOUT
           in result_bind (cl_sign_transaction C signing_data extrinsic) (\<lambda>signed_extrinsic.
              Inr (stall_timeout, signed_extrinsic))))))
      of Inl e \<Rightarrow> (Inl e, s)
       | Inr (stall_timeout, signed_extrinsic) \<Rightarrow>
           map_prod
             (map_sum ClientRpcError
                (\<lambda>subscription. \<lparr>tt_transaction_hash = hasher signed_extrinsic, tt_stall_timeout = stall_timeout,
                                 tt_subscription = subscription\<rparr>))
             id (nr_submit_and_watch_extrinsic (cl_rpc C) signed_extrinsic s))"

section \<open>Tracking a transaction\<close>

text \<open>The status of a transaction in the pool of a node.\<close>

datatype 'hash transaction_status =
    TxFuture
  | TxReady
  | TxBroadcast "string list"
  | TxInBlock 'hash
  | TxRetracted 'hash
  | TxFinalityTimeout 'hash
  | TxFinalized 'hash nat
  | TxUsurped 'hash
  | TxDropped
  | TxInvalid

text \<open>
  The worker forwards the items of the subscription (\<open>Inl\<close> is an item that failed to parse) and ends
  the channel with \<open>None\<close>; a list that stops earlier is a subscription that is still open.
\<close>

fun background_worker :: "('e + 'a) option list \<Rightarrow> 'a option list" where
  "background_worker [] = []"
| "background_worker (Some (Inr item) # subscription) = Some item # background_worker subscription"
| "background_worker (Some (Inl _) # _) = [None]"
| "background_worker (None # _) = [None]"

datatype 'block invalidation_status = StatusFinalized 'block | StatusInvalid | StatusLost

text \<open>\<open>None\<close> as the result: the loop is still waiting for an update.\<close>

fun watch_transaction_status ::
  "('hash \<Rightarrow> 'e + 'block) \<Rightarrow> 'hash transaction_status option list \<Rightarrow> 'block invalidation_status option" where
  "watch_transaction_status header_id_by_hash [] = None"
| "watch_transaction_status header_id_by_hash (update # subscription) =
     (case update of
        Some (TxFinalized block_hash _) \<Rightarrow>
          (case header_id_by_hash block_hash of
             Inr header_id \<Rightarrow> Some (StatusFinalized header_id)
           | Inl _ \<Rightarrow> Some StatusLost)
      | Some TxInvalid \<Rightarrow> Some StatusInvalid
      | Some TxFuture \<Rightarrow> watch_transaction_status header_id_by_hash subscription
      | Some TxReady \<Rightarrow> watch_transaction_status header_id_by_hash subscription
      | Some (TxBroadcast _) \<Rightarrow> watch_transaction_status header_id_by_hash subscription
      | Some (TxInBlock _) \<Rightarrow> watch_transaction_status header_id_by_hash subscription
      | Some (TxRetracted _) \<Rightarrow> watch_transaction_status header_id_by_hash subscription
      | Some (TxFinalityTimeout _) \<Rightarrow> Some StatusLost
      | Some (TxUsurped _) \<Rightarrow> Some StatusLost
      | Some TxDropped \<Rightarrow> Some StatusLost
      | None \<Rightarrow> Some StatusLost)"

text \<open>
  The tracker runs the watcher against the stall timer. The events come in the order in which the
  tracker sees them; once the timer has fired, the watcher is not polled any more.
\<close>

datatype 'hash tracker_event = StatusUpdate "'hash transaction_status option" | StallTimeout

fun updates_before_stall :: "'hash tracker_event list \<Rightarrow> 'hash transaction_status option list" where
  "updates_before_stall (StatusUpdate update # events) = update # updates_before_stall events"
| "updates_before_stall (StallTimeout # _) = []"
| "updates_before_stall [] = []"

definition tracker_do_wait ::
  "('hash \<Rightarrow> 'e + 'block) \<Rightarrow> 'hash tracker_event list \<Rightarrow>
     ('block tracked_transaction_status \<times> 'block invalidation_status option) option" where
  "tracker_do_wait header_id_by_hash events =
     (let wait_for_stall_timeout = (if StallTimeout \<in> set events then Some () else None)
      in case watch_transaction_status header_id_by_hash (updates_before_stall events) of
           None \<Rightarrow> map_option (\<lambda>_. (TransactionLost, None)) wait_for_stall_timeout
         | Some (StatusFinalized at_block) \<Rightarrow> Some (TransactionFinalized at_block, Some (StatusFinalized at_block))
         | Some StatusInvalid \<Rightarrow> Some (TransactionLost, Some StatusInvalid)
         | Some StatusLost \<Rightarrow> map_option (\<lambda>_. (TransactionLost, Some StatusLost)) wait_for_stall_timeout)"

definition tracker_wait ::
  "('hash \<Rightarrow> 'e + 'block) \<Rightarrow> 'hash tracker_event list \<Rightarrow> 'block tracked_transaction_status option" where
  "tracker_wait header_id_by_hash events = map_option fst (tracker_do_wait header_id_by_hash events)"

section \<open>Guards\<close>

text \<open>The answers to the reads of the runtime version, one per turn; the result is whether the process is aborted.\<close>

fun abort_on_spec_version_change :: "u32 \<Rightarrow> ('e + u32) list \<Rightarrow> bool" where
  "abort_on_spec_version_change expected_spec_version [] = False"
| "abort_on_spec_version_change expected_spec_version (actual_spec_version # answers) =
     (case actual_spec_version of
        Inr version \<Rightarrow>
          if version = expected_spec_version then abort_on_spec_version_change expected_spec_version answers else True
      | Inl _ \<Rightarrow> abort_on_spec_version_change expected_spec_version answers)"

definition DAY :: nat where
  "DAY = 60 * 60 * 24"

text \<open>One turn of the balance guard, at a time and with the answer to the read of the balance.\<close>

definition balance_guard_turn ::
  "'l::len word \<Rightarrow> nat \<Rightarrow> 'e + 'l word \<Rightarrow> (nat \<times> 'l word) list \<Rightarrow> bool \<times> (nat \<times> 'l word) list" where
  "balance_guard_turn maximal_decrease current_time current_balance balances =
     (let balances =
            (if DAY \<le> current_time then dropWhile (\<lambda>(time, _). time < current_time - DAY) balances else balances)
      in case current_balance of
           Inr current_balance \<Rightarrow>
             let balances = balances @ [(current_time, current_balance)];
                 (oldest_time, oldest_balance) = hd balances
             in (case checked_sub oldest_balance current_balance of
                   Some balances_difference \<Rightarrow> balances_difference > maximal_decrease
                 | None \<Rightarrow> False,
                 balances)
         | Inl _ \<Rightarrow> (False, balances))"

fun abort_when_account_balance_decreased ::
  "'l::len word \<Rightarrow> (nat \<times> ('e + 'l word)) list \<Rightarrow> (nat \<times> 'l word) list \<Rightarrow> bool" where
  "abort_when_account_balance_decreased maximal_decrease [] balances = False"
| "abort_when_account_balance_decreased maximal_decrease ((current_time, current_balance) # turns) balances =
     (let (aborted, balances) = balance_guard_turn maximal_decrease current_time current_balance balances
      in aborted \<or> abort_when_account_balance_decreased maximal_decrease turns balances)"

datatype ('acc, 'balance) guard = VersionGuard u32 | BalanceGuard 'acc 'balance

definition guards_start ::
  "('s, 'h, 'acc, 'i, 'tx, 'hash, 'sub) node_rpc \<Rightarrow> chain_runtime_version \<Rightarrow> 'acc \<Rightarrow> bool \<Rightarrow> 'balance \<Rightarrow> 's \<Rightarrow>
     client_error + ('acc, 'balance) guard list" where
  "guards_start N chain_runtime_version signer enable_version_guard maximal_balance_decrease_per_day s =
     result_bind
       (if enable_version_guard
        then result_bind (simple_runtime_version_of N chain_runtime_version s) (\<lambda>v. Inr [VersionGuard (srv_spec_version v)])
        else Inr [])
       (\<lambda>guards. Inr (guards @ [BalanceGuard signer maximal_balance_decrease_per_day]))"

section \<open>What the tracker reports\<close>

definition pending_update :: "'hash transaction_status option \<Rightarrow> bool" where
  "pending_update update \<longleftrightarrow>
     (case update of
        Some TxFuture \<Rightarrow> True | Some TxReady \<Rightarrow> True | Some (TxBroadcast _) \<Rightarrow> True
      | Some (TxInBlock _) \<Rightarrow> True | Some (TxRetracted _) \<Rightarrow> True | _ \<Rightarrow> False)"

lemma watch_transaction_status_pending:
  "pending_update u \<Longrightarrow> watch_transaction_status env (u # us) = watch_transaction_status env us"
  by (auto simp: pending_update_def split: option.splits transaction_status.splits)

lemma watch_transaction_status_dropWhile:
  "watch_transaction_status env us = watch_transaction_status env (dropWhile pending_update us)"
proof (induction us)
  case (Cons u us)
  then show ?case
    by (cases "pending_update u") (simp_all only: watch_transaction_status_pending dropWhile.simps if_True if_False)
qed simp

lemma watch_transaction_status_finalized:
  "watch_transaction_status env us = Some (StatusFinalized b) \<longleftrightarrow>
   (\<exists>block_hash index rest. dropWhile pending_update us = Some (TxFinalized block_hash index) # rest \<and> env block_hash = Inr b)"
proof (cases "dropWhile pending_update us")
  case (Cons u vs)
  then have "\<not> pending_update u" by (metis hd_dropWhile list.sel(1) list.distinct(1))
  then show ?thesis
    unfolding watch_transaction_status_dropWhile [of env us] Cons
    by (auto simp: pending_update_def split: option.splits transaction_status.splits sum.splits)
next
  case Nil
  show ?thesis unfolding watch_transaction_status_dropWhile [of env us] Nil by simp
qed

lemma watch_transaction_status_invalid:
  "watch_transaction_status env us = Some StatusInvalid \<Longrightarrow> Some TxInvalid \<in> set us"
  by (induction us) (auto split: option.splits transaction_status.splits sum.splits)

lemma updates_before_stall_subset: "u \<in> set (updates_before_stall es) \<Longrightarrow> StatusUpdate u \<in> set es"
  by (induction es rule: updates_before_stall.induct) auto

text \<open>
  The tracker says that a transaction is finalized exactly when the node has reported a finalized
  block before the stall timer fired, after updates that are all of a transaction still on its way,
  and the identifier of that block could be read.
\<close>

lemma tracker_wait_finalized:
  "tracker_wait env events = Some (TransactionFinalized b) \<longleftrightarrow>
   (\<exists>block_hash index rest.
      dropWhile pending_update (updates_before_stall events) = Some (TxFinalized block_hash index) # rest \<and>
      env block_hash = Inr b)"
  unfolding tracker_wait_def tracker_do_wait_def Let_def watch_transaction_status_finalized [symmetric]
  by (auto split: option.splits invalidation_status.splits)

text \<open>
  A transaction is given up only when the node has called it invalid or the stall timer has fired: in
  no other case does a relay submit the next transaction while the previous one may still be mined.
\<close>

lemma tracker_wait_lost:
  "tracker_wait env events = Some TransactionLost \<Longrightarrow>
   StallTimeout \<in> set events \<or> StatusUpdate (Some TxInvalid) \<in> set events"
  unfolding tracker_wait_def tracker_do_wait_def Let_def
  by (auto split: option.splits invalidation_status.splits if_splits
        dest!: watch_transaction_status_invalid updates_before_stall_subset)

text \<open>The tracker always answers once the stall timer has fired.\<close>

lemma tracker_wait_returns: "StallTimeout \<in> set events \<Longrightarrow> \<exists>status. tracker_wait env events = Some status"
  unfolding tracker_wait_def tracker_do_wait_def Let_def
  by (auto split: option.splits invalidation_status.splits)



text \<open>
  The timer of a mortal transaction outlives the transaction by two blocks, unless the period is one
  of the two largest ones, where the sum wraps around.
\<close>

lemma stall_timeout_outlives_transaction:
  assumes "unat mortality_period + 2 < 2 ^ 32" and "interval * (unat mortality_period + 2) \<le> MAX_DURATION"
  shows "transaction_stall_timeout (Some mortality_period) interval d = interval * unat mortality_period + 2 * interval"
proof -
  have "unat (mortality_period + 1 + 1) = unat mortality_period + 2"
    using assms(1) by (simp add: unat_word_ariths unsigned_1 mod_simps)
  then show ?thesis
    using assms(2) by (simp add: transaction_stall_timeout_def algebra_simps)
qed

section \<open>What the guards detect\<close>

lemma abort_on_spec_version_change_iff:
  "abort_on_spec_version_change v answers \<longleftrightarrow> (\<exists>v'. Inr v' \<in> set answers \<and> v' \<noteq> v)"
  by (induction answers) (auto split: sum.splits)

text \<open>The balances that were read by the given turns during the last day.\<close>

definition read_balances :: "(nat \<times> ('e + 'l::len word)) list \<Rightarrow> (nat \<times> 'l word) list" where
  "read_balances turns = concat (map (\<lambda>(t, answer). case answer of Inr b \<Rightarrow> [(t, b)] | Inl _ \<Rightarrow> []) turns)"

definition last_day :: "nat \<Rightarrow> (nat \<times> 'l::len word) list \<Rightarrow> (nat \<times> 'l word) list" where
  "last_day now bs = filter (\<lambda>(t, _). now \<le> t + DAY) bs"

text \<open>The specification of the guard: the oldest balance of the last day exceeds the current one by more than allowed.\<close>

fun decreased_at_last_turn :: "'l::len word \<Rightarrow> (nat \<times> ('e + 'l word)) list \<Rightarrow> bool" where
  "decreased_at_last_turn m [] = False"
| "decreased_at_last_turn m (turn # turns) =
     (case last (turn # turns) of
        (now, Inr balance) \<Rightarrow>
          unat m < unat (snd (hd (last_day now (read_balances (turn # turns))))) - unat balance
      | _ \<Rightarrow> False)"

lemma dropWhile_eq_last_day:
  assumes "sorted (map fst bs)"
  shows "(if DAY \<le> now then dropWhile (\<lambda>(t, _). t < now - DAY) bs else bs) = last_day now bs"
proof (cases "DAY \<le> now")
  case True
  have "dropWhile (\<lambda>(t, _). t < now - DAY) bs = last_day now bs" using assms
  proof (induction bs)
    case (Cons b bs)
    show ?case
    proof (cases "fst b < now - DAY")
      case True
      then show ?thesis using Cons by (auto simp: last_day_def)
    next
      case False
      then have "\<forall>x \<in> set (b # bs). now \<le> fst x + DAY" using Cons.prems by auto
      then have "last_day now (b # bs) = b # bs"
        unfolding last_day_def by (intro filter_True) (auto simp: case_prod_beta)
      then show ?thesis using False by (simp add: case_prod_beta)
    qed
  qed (simp add: last_day_def)
  then show ?thesis using True by simp
next
  case False
  then show ?thesis by (auto simp: last_day_def intro!: filter_True [symmetric])
qed

lemma last_day_last_day: "now \<le> now' \<Longrightarrow> last_day now' (last_day now bs) = last_day now' bs"
  by (induction bs) (auto simp: last_day_def)

lemma balance_guard_turn_spec:
  assumes s: "sorted (map fst (read_balances (hist @ [(now, answer)])))"
    and q: "last_day now balances = last_day now (read_balances hist)"
    and sb: "sorted (map fst balances)"
  shows "balance_guard_turn m now answer balances =
    (decreased_at_last_turn m (hist @ [(now, answer)]), last_day now (read_balances (hist @ [(now, answer)])))"
proof (cases answer)
  case (Inl e)
  then show ?thesis
    using q by (cases hist) (simp_all add: balance_guard_turn_def dropWhile_eq_last_day [OF sb] read_balances_def)
next
  case (Inr b)
  have r: "read_balances (hist @ [(now, answer)]) = read_balances hist @ [(now, b)]"
    using Inr by (simp add: read_balances_def)
  have d: "last_day now (read_balances hist @ [(now, b)]) = last_day now (read_balances hist) @ [(now, b)]"
    by (simp add: last_day_def)
  have c: "(case checked_sub x b of Some y \<Rightarrow> y > m | None \<Rightarrow> False) \<longleftrightarrow> unat m < unat x - unat b" for x
    by (auto simp: checked_sub_def word_less_nat_alt word_le_nat_alt unat_sub_if')
  have e: "decreased_at_last_turn m (hist @ [(now, answer)]) \<longleftrightarrow>
      unat m < unat (snd (hd (last_day now (read_balances (hist @ [(now, answer)]))))) - unat b"
    using Inr by (cases hist) simp_all
  show ?thesis
    unfolding e r d balance_guard_turn_def
    by (simp add: Inr dropWhile_eq_last_day [OF sb] q c case_prod_beta Let_def)
qed

lemma sorted_last_day: "sorted (map fst bs) \<Longrightarrow> sorted (map fst (last_day now bs))"
  unfolding last_day_def by (induction bs) auto

lemma sorted_read_balances:
  assumes "sorted (map fst turns)"
  shows "sorted (map fst (read_balances turns))"
proof -
  have sub: "set (map fst (read_balances ts)) \<subseteq> set (map fst ts)" for ts :: "(nat \<times> ('e + 'l::len word)) list"
    by (auto simp: read_balances_def image_iff split: sum.splits) force
  have step: "read_balances (turn # ts) =
      (case snd turn of Inr b \<Rightarrow> [(fst turn, b)] | Inl _ \<Rightarrow> []) @ read_balances ts"
    for turn and ts :: "(nat \<times> ('e + 'l::len word)) list"
    by (simp add: read_balances_def case_prod_beta)
  show ?thesis using assms
  proof (induction turns)
    case (Cons turn ts)
    have "\<forall>t \<in> set (map fst (read_balances ts)). fst turn \<le> t"
      using Cons.prems subsetD [OF sub [of ts]] by (fastforce simp: image_iff)
    then show ?case using Cons by (simp add: step split: sum.split)
  qed (simp add: read_balances_def)
qed

lemma abort_when_balance_decreased_from:
  assumes "sorted (map fst (hist @ turns))" and "sorted (map fst balances)"
    and "\<forall>now \<in> fst ` set turns. last_day now balances = last_day now (read_balances hist)"
  shows "abort_when_account_balance_decreased m turns balances \<longleftrightarrow>
    (\<exists>n < length turns. decreased_at_last_turn m (hist @ take (Suc n) turns))"
  using assms
proof (induction turns arbitrary: hist balances)
  case (Cons turn turns)
  obtain now answer where t: "turn = (now, answer)" by force
  let ?hist = "hist @ [(now, answer)]"
  have s: "sorted (map fst ?hist)" "sorted (map fst (?hist @ turns))"
    using Cons.prems(1) unfolding t by (auto simp: sorted_append)
  have g: "balance_guard_turn m now answer balances = (decreased_at_last_turn m ?hist, last_day now (read_balances ?hist))"
    using Cons.prems t by (intro balance_guard_turn_spec sorted_read_balances s) auto
  have later: "\<forall>now' \<in> fst ` set turns. last_day now' (last_day now (read_balances ?hist)) = last_day now' (read_balances ?hist)"
    using Cons.prems(1) unfolding t by (auto simp: sorted_append intro!: last_day_last_day)
  have IH: "abort_when_account_balance_decreased m turns (last_day now (read_balances ?hist)) \<longleftrightarrow>
      (\<exists>n < length turns. decreased_at_last_turn m (?hist @ take (Suc n) turns))"
    by (intro Cons.IH s(2) sorted_last_day sorted_read_balances s(1) later)
  show ?case
    by (simp add: t g IH Ex_less_Suc2 del: decreased_at_last_turn.simps)
qed simp

text \<open>
  The guard aborts the relay exactly at the turns where its specification says so: pruning the queue
  keeps the oldest balance of the last day at the front, as long as time does not go backwards.
\<close>

lemma balance_guard_exact:
  assumes "sorted (map fst turns)"
  shows "abort_when_account_balance_decreased m turns [] \<longleftrightarrow>
    (\<exists>n < length turns. decreased_at_last_turn m (take (Suc n) turns))"
  using abort_when_balance_decreased_from [of "[]" turns "[]" m] assms
  by (simp add: read_balances_def last_day_def del: decreased_at_last_turn.simps)

text \<open>
  The comment of the guard promises an abort when the balance decreases by at least the given value;
  a decrease by exactly this value passes, for whatever value.
\<close>

lemma balance_guard_allows_maximal_decrease:
  "\<not> abort_when_account_balance_decreased m [(t, Inr m), (t', Inr 0)] []"
  by (simp add: balance_guard_turn_def checked_sub_def Let_def DAY_def)

section \<open>Which block a transaction refers to\<close>

text \<open>
  A transaction that is not watched is prepared for the parent of the best block, so that it survives
  a reorganisation of the best block. The watching variant, described as doing exactly the same,
  prepares it for the best block itself: for a client whose \<open>prepare_extrinsic\<close> returns the block it
  got, the two submit different transactions whenever the best block has a parent.
\<close>

lemma submitted_transactions_refer_to_different_blocks:
  assumes "nr_account_next_index (cl_rpc C) s (cl_account C signer) = Inr i"
    and "nr_best_header (cl_rpc C) s = Inr best"
    and "build_sign_params (cl_rpc C) (cl_chain_runtime_version C) (cl_genesis_hash C) signer s = Inr signing"
    and "cl_header_parent_id C best = Some parent"
    and "cl_sign_transaction C = (\<lambda>_. Inr)"
  shows "submit_signed_extrinsic C signer (\<lambda>block _. Inr block) s =
      map_prod rpc_answer id (nr_submit_extrinsic (cl_rpc C) parent s)"
    and "submit_and_watch_signed_extrinsic C hasher period interval signer (\<lambda>block _. Inr block) s =
      map_prod (map_sum ClientRpcError (\<lambda>sub. \<lparr>tt_transaction_hash = hasher (cl_header_id C best),
          tt_stall_timeout = transaction_stall_timeout (period (cl_header_id C best)) interval STALL_TIMEOUT,
          tt_subscription = sub\<rparr>)) id
        (nr_submit_and_watch_extrinsic (cl_rpc C) (cl_header_id C best) s)"
  using assms by (simp_all add: submit_signed_extrinsic_def submit_and_watch_signed_extrinsic_def Let_def)

end
