(* ===== verification/Delivery_Limits.thy ===== *)
theory Delivery_Limits
  imports Messages_Weights Runtime_Messages Relay_Utils
begin

text \<open>
  How the messages relay chooses the limits of a delivery transaction before it starts its loop
  (\<open>relays/lib-substrate-relay/src/messages_lane.rs\<close>), and how these limits relate to the weights that
  the pallet declares. The estimate of the weight of a transaction is a call of the runtime of the
  target node, hence a parameter.
\<close>

section \<open>The limits\<close>

text \<open>
  \<open>estimate messages\<close> is the estimated weight of the dummy delivery transaction with the given number
  of messages. A failed assertion is the outer \<open>None\<close>.
\<close>

definition select_delivery_transaction_limits_rpc ::
  "'w weight_ops \<Rightarrow> (u32 \<Rightarrow> 'e + 'w) \<Rightarrow> 'w \<Rightarrow> message_nonce \<Rightarrow> ('e + message_nonce \<times> 'w) option" where
  "select_delivery_transaction_limits_rpc W estimate max_extrinsic_weight max_unconfirmed_messages_at_inbound_lane =
     (let weight_for_delivery_tx = w_div W max_extrinsic_weight 3;
          weight_for_messages_dispatch = w_sub W max_extrinsic_weight weight_for_delivery_tx
      in case estimate 0 of
           Inl e \<Rightarrow> Some (Inl e)
         | Inr delivery_tx_with_zero_messages_weight \<Rightarrow>
         (case estimate 1 of
            Inl e \<Rightarrow> Some (Inl e)
          | Inr delivery_tx_with_one_message_weight \<Rightarrow>
          (let delivery_tx_weight_rest = w_sub W weight_for_delivery_tx delivery_tx_with_zero_messages_weight;
               delivery_tx_message_overhead =
                 w_saturating_sub W delivery_tx_with_one_message_weight delivery_tx_with_zero_messages_weight;
               max_number_of_messages =
                 min (case min_components_checked_div W delivery_tx_weight_rest delivery_tx_message_overhead of
                        Some n \<Rightarrow> n | None \<Rightarrow> - 1)
                     max_unconfirmed_messages_at_inbound_lane
           in if \<not> max_number_of_messages > 0 then None
              else if \<not> w_ref_time W weight_for_messages_dispatch \<ge> w_ref_time W max_extrinsic_weight div 2 then None
              else Some (Inr (max_number_of_messages, weight_for_messages_dispatch)))))"

text \<open>
  The limits with which \<open>run\<close> starts the loop: the number of messages, the weight and the size of a
  batch. \<open>run\<close> passes the maximal number of unrewarded relayers as the maximal number of messages.
\<close>

definition messages_lane_limits ::
  "'w weight_ops \<Rightarrow> (u32 \<Rightarrow> 'e + 'w) \<Rightarrow> 'w \<Rightarrow> u32 \<Rightarrow> message_nonce \<Rightarrow> ('e + message_nonce \<times> 'w \<times> u32) option" where
  "messages_lane_limits W estimate max_extrinsic_weight max_extrinsic_size max_unrewarded_relayers_in_confirmation_tx =
     map_option
       (map_sum id (\<lambda>(max_messages_in_single_batch, max_messages_weight_in_single_batch).
          (max_messages_in_single_batch div 2, w_div W max_messages_weight_in_single_batch 2, max_extrinsic_size div 3)))
       (select_delivery_transaction_limits_rpc W estimate max_extrinsic_weight max_unrewarded_relayers_in_confirmation_tx)"

section \<open>The reserved weights\<close>

lemma two_thirds_unat: "unat (x - x div 3 :: u64) = unat x - unat x div 3"
  by (simp add: unat_sub_le word_le_nat_alt unat_div)

lemma two_thirds_ge_half: "(x :: u64) div 2 \<le> x - x div 3"
  by (simp add: word_le_nat_alt two_thirds_unat unat_div)

lemma weight_for_dispatch_ref_time:
  assumes "weight_laws W"
  shows "w_ref_time W (w_sub W m (w_div W m 3)) = w_ref_time W m - w_ref_time W m div 3"
  using assms by (simp add: weight_simps weight_div_parts)

text \<open>
  The second assertion of the code never fails, and the first one fails exactly when the transaction
  has no room for one message.
\<close>

lemma select_delivery_limits_result:
  fixes m :: 'w and limit :: message_nonce
  assumes W: "weight_laws W" and z: "estimate 0 = Inr z" and o: "estimate 1 = Inr u"
  defines "n \<equiv> min (case min_components_checked_div W (w_sub W (w_div W m 3) z) (w_saturating_sub W u z) of
                       Some n \<Rightarrow> n | None \<Rightarrow> - 1) limit"
  shows "select_delivery_transaction_limits_rpc W estimate m limit =
    (if n = 0 then None else Some (Inr (n, w_sub W m (w_div W m 3))))"
  using two_thirds_ge_half [of "w_ref_time W m"]
  by (simp add: select_delivery_transaction_limits_rpc_def Let_def z o n_def [symmetric]
      weight_for_dispatch_ref_time [OF W] word_neq_0_conv del: min_less_iff_conj)

lemma min_components_checked_div_le:
  assumes "min_components_checked_div W a b = Some n"
  shows "unat n * unat (w_ref_time W b) \<le> unat (w_ref_time W a)"
    and "unat n * unat (w_proof_size W b) \<le> unat (w_proof_size W a)"
proof -
  have "unat n \<le> unat (w_ref_time W a) div unat (w_ref_time W b)"
    and "unat n \<le> unat (w_proof_size W a) div unat (w_proof_size W b)"
    using assms
    by (auto simp: min_components_checked_div_def checked_div_def min_def word_le_nat_alt unat_div
        split: option.splits if_splits)
  then show "unat n * unat (w_ref_time W b) \<le> unat (w_ref_time W a)"
    and "unat n * unat (w_proof_size W b) \<le> unat (w_proof_size W a)"
    by (meson div_times_less_eq_dividend le_trans mult_le_mono1)+
qed

lemma scaled_fits_rest: "n \<le> k \<Longrightarrow> k * x \<le> r - z \<Longrightarrow> z \<le> r \<Longrightarrow> z + n * x \<le> (r :: nat)"
  using mult_le_mono1 [of n k x] by linarith

text \<open>
  When a message costs something in both components of the weight, the chosen number of messages fits
  into the third of the transaction that is reserved for their delivery.
\<close>

lemma select_delivery_limits_fit:
  assumes W: "weight_laws W" and z: "estimate 0 = Inr z" and o: "estimate 1 = Inr u"
    and room: "weight_le W z (w_div W m 3)"
    and both: "w_ref_time W z < w_ref_time W u" "w_proof_size W z < w_proof_size W u"
    and r: "select_delivery_transaction_limits_rpc W estimate m limit = Some (Inr (n, d))"
  shows "unat (w_ref_time W z) + unat n * (unat (w_ref_time W u) - unat (w_ref_time W z)) \<le> unat (w_ref_time W m) div 3"
    and "unat (w_proof_size W z) + unat n * (unat (w_proof_size W u) - unat (w_proof_size W z)) \<le> unat (w_proof_size W m) div 3"
    and "0 < n" and "n \<le> limit"
proof -
  let ?rest = "w_sub W (w_div W m 3) z" and ?overhead = "w_saturating_sub W u z"
  have pos: "w_ref_time W ?overhead \<noteq> 0" "w_proof_size W ?overhead \<noteq> 0"
    using both by (auto simp: weight_simps W saturating_sub_def)
  then obtain k where k: "min_components_checked_div W ?rest ?overhead = Some k"
    by (auto simp: min_components_checked_div_def checked_div_def)
  have n: "n = min k limit" "n \<noteq> 0"
    using r by (auto simp: select_delivery_limits_result [OF W z o] k split: if_splits)
  then show "0 < n" "n \<le> limit" by (auto simp: word_neq_0_conv)
  have nk: "unat n \<le> unat k" using n by (simp add: min_def word_le_nat_alt split: if_splits)
  show "unat (w_ref_time W z) + unat n * (unat (w_ref_time W u) - unat (w_ref_time W z)) \<le> unat (w_ref_time W m) div 3"
    using min_components_checked_div_le(1) [OF k] room
    by (intro scaled_fits_rest [OF nk]) (simp_all add: weight_simps W weight_div_parts weight_le_def unat_saturating_sub unat_sub_le word_le_nat_alt unat_div)
  show "unat (w_proof_size W z) + unat n * (unat (w_proof_size W u) - unat (w_proof_size W z)) \<le> unat (w_proof_size W m) div 3"
    using min_components_checked_div_le(2) [OF k] room
    by (intro scaled_fits_rest [OF nk]) (simp_all add: weight_simps W weight_div_parts weight_le_def unat_saturating_sub unat_sub_le word_le_nat_alt unat_div)
qed

section \<open>The limit on the number of messages\<close>

text \<open>
  For the weights that the pallet's own checks accept, the proof size of a delivery transaction does
  not depend on the number of messages. Then the division by the overhead of a message has no result,
  and the number of messages is limited by the given constant only, however heavy a message is.
\<close>

lemma delivery_limits_ignore_message_weight:
  assumes W: "weight_laws W" and ok: "ensure_weights_are_correct W I"
    and e: "\<And>n. estimate n = Inr (receive_messages_proof_weight W I proof_size n (w_zero W))"
    and "0 < limit"
  shows "select_delivery_transaction_limits_rpc W estimate m limit = Some (Inr (limit, w_sub W m (w_div W m 3)))"
proof -
  have "w_proof_size W (w_saturating_sub W (receive_messages_proof_weight W I proof_size 1 (w_zero W))
      (receive_messages_proof_weight W I proof_size 0 (w_zero W))) = 0"
    by (simp add: weight_op_parts(8) [OF W] weight_from_parts [OF W] receive_messages_proof_weight_proof_size [OF W ok]
        saturating_sub_def)
  then have "min_components_checked_div W a (w_saturating_sub W (receive_messages_proof_weight W I proof_size 1 (w_zero W))
      (receive_messages_proof_weight W I proof_size 0 (w_zero W))) = None" for a
    by (simp add: min_components_checked_div_def checked_div_def split: option.split)
  then show ?thesis
    using assms(4) by (simp add: select_delivery_limits_result [OF W e e])
qed

text \<open>
  The comment of the code says that the relay cannot reserve less than half of the maximal weight for
  dispatch, the weight of a message that runtimes accept, and the code asserts it; but \<open>run\<close> then
  halves the reserved weight, which leaves a third.
\<close>

lemma lane_limits_reserve_a_third:
  assumes W: "weight_laws W"
    and r: "messages_lane_limits W estimate m s limit = Some (Inr (n, d, sz))"
    and "6 \<le> unat (w_ref_time W m)"
  shows "unat (w_ref_time W d) < unat (w_ref_time W (maximal_incoming_message_dispatch_weight W m))"
proof -
  from r obtain k where "select_delivery_transaction_limits_rpc W estimate m limit = Some (Inr (k, w_sub W m (w_div W m 3)))"
    and d: "d = w_div W (w_sub W m (w_div W m 3)) 2"
    by (auto simp: messages_lane_limits_def select_delivery_transaction_limits_rpc_def Let_def
        split: sum.splits if_splits)
  have "w_ref_time W d = (w_ref_time W m - w_ref_time W m div 3) div 2"
    using W by (simp add: d weight_simps weight_div_parts)
  moreover have "w_ref_time W (maximal_incoming_message_dispatch_weight W m) = w_ref_time W m div 2"
    using W by (simp add: maximal_incoming_message_dispatch_weight_def weight_simps weight_div_parts)
  ultimately show ?thesis
    using assms(3) by (simp add: unat_div two_thirds_unat)
qed

text \<open>
  A limit of one message passes the assertion of the code, and the halving makes it zero.
\<close>

lemma lane_limits_can_be_zero:
  assumes W: "weight_laws W" and ok: "ensure_weights_are_correct W I"
    and e: "\<And>n. estimate n = Inr (receive_messages_proof_weight W I proof_size n (w_zero W))"
  shows "\<exists>d sz. messages_lane_limits W estimate m s 1 = Some (Inr (0, d, sz))"
  by (simp add: messages_lane_limits_def delivery_limits_ignore_message_weight [OF W ok e])

end
