(* ===== verification/Runtime_Api.thy ===== *)
theory Runtime_Api
  imports Messages_Invariants Relay_Clients
begin

text \<open>
  The glue between the messages pallet and the rest of a runtime (\<open>bin/runtime-common/src/\<close>): the
  runtime API through which a relay asks for the details of messages (\<open>messages_api.rs\<close>), the adapters
  that send XCM programs over the bridge and dispatch the received ones
  (\<open>messages_xcm_extension.rs\<close>), and the checks of the configuration of a bridge (\<open>integrity.rs\<close>).
\<close>

section \<open>The runtime API\<close>

definition outbound_message_details_api ::
  "'w weight_ops \<Rightarrow> ('acc, 'r, 'd, 'w) messages_state \<Rightarrow> lane_id \<Rightarrow> message_nonce \<Rightarrow> message_nonce \<Rightarrow>
     'w outbound_message_details list" where
  "outbound_message_details_api W ms lane nonces_begin nonces_end =
     List.map_filter
       (\<lambda>nonce. map_option
          (\<lambda>message_data. \<lparr>omd_nonce = nonce, omd_dispatch_weight = w_zero W, omd_size = of_nat (length message_data)\<rparr>)
          (outbound_message_data ms lane nonce))
       (nonce_range nonces_begin nonces_end)"

definition inbound_message_details_api ::
  "('o, 'acc, 'r, 'proof, 'dproof, 'op, 'p, 'd, 'w, 'x) messages_config \<Rightarrow> lane_id \<Rightarrow>
     (message_payload \<times> 'w outbound_message_details) list \<Rightarrow> 'w list" where
  "inbound_message_details_api C lane messages =
     map (\<lambda>(payload, details). inbound_message_data C lane payload (omd_nonce details)) messages"

section \<open>XCM programs over the bridge\<close>

text \<open>The errors of the XCM library's \<open>DispatchBlob\<close> and \<open>HaulBlob\<close>.\<close>

datatype dispatch_blob_error =
    Unbridgable
  | InvalidEncoding
  | UnsupportedLocationVersion
  | UnsupportedXcmVersion
  | RoutingError
  | NonUniversalDestination
  | WrongGlobal

datatype haul_blob_error = HaulTransport string

datatype xcm_blob_message_dispatch_result =
    InvalidPayload
  | XcmDispatched
  | NotDispatched string

definition xcm_blob_dispatch_weight :: "'w \<Rightarrow> 'm \<Rightarrow> 'w \<times> 'm" where
  "xcm_blob_dispatch_weight dispatch_blob_weigher message = (dispatch_blob_weigher, message)"

definition xcm_blob_dispatch ::
  "'w weight_ops \<Rightarrow> (bytes \<Rightarrow> 'x \<Rightarrow> (dispatch_blob_error + unit) \<times> 'x) \<Rightarrow> 'acc \<Rightarrow> ('e + bytes) dispatch_message \<Rightarrow> 'x \<Rightarrow>
     (xcm_blob_message_dispatch_result, 'w) message_dispatch_result \<times> 'x" where
  "xcm_blob_dispatch W dispatch_blob relayer_account message x =
     (case dmd_payload (dmsg_data message) of
        Inl _ \<Rightarrow> (\<lparr>unspent_weight = w_zero W, dispatch_level_result = InvalidPayload\<rparr>, x)
      | Inr payload \<Rightarrow>
          let (result, x) = dispatch_blob payload x;
              dispatch_level_result =
                (case result of
                   Inr _ \<Rightarrow> XcmDispatched
                 | Inl e \<Rightarrow> NotDispatched
                     (case e of
                        Unbridgable \<Rightarrow> ''DispatchBlobError::Unbridgable''
                      | InvalidEncoding \<Rightarrow> ''DispatchBlobError::InvalidEncoding''
                      | UnsupportedLocationVersion \<Rightarrow> ''DispatchBlobError::UnsupportedLocationVersion''
                      | UnsupportedXcmVersion \<Rightarrow> ''DispatchBlobError::UnsupportedXcmVersion''
                      | RoutingError \<Rightarrow> ''DispatchBlobError::RoutingError''
                      | NonUniversalDestination \<Rightarrow> ''DispatchBlobError::NonUniversalDestination''
                      | WrongGlobal \<Rightarrow> ''DispatchBlobError::WrongGlobal''))
          in (\<lparr>unspent_weight = w_zero W, dispatch_level_result = dispatch_level_result\<rparr>, x))"

definition haul_blob ::
  "('o, 'acc, 'r, 'proof, 'dproof, bytes, 'p, 'd, 'w, 'x) messages_config \<Rightarrow> 'o \<Rightarrow> lane_id \<Rightarrow> bytes \<Rightarrow> 'x \<Rightarrow>
     ('acc, 'r, 'd, 'w) messages_state \<Rightarrow> (haul_blob_error + ('acc, 'r, 'd, 'w) messages_state) option" where
  "haul_blob C message_sender_origin xcm_lane blob x ms =
     map_option (map_sum (\<lambda>_. HaulTransport ''MessageSenderError'') snd)
       (send_message C message_sender_origin xcm_lane blob x ms)"

section \<open>Checks of the configuration\<close>

text \<open>
  The size of the lane data is computed for \<open>InboundLaneData<()>\<close>, whose relayer identifier has the
  encoded length 0. A \<open>usize\<close> has 64 bits here.
\<close>

definition check_message_lane_weights ::
  "'w weight_ops \<Rightarrow> 'w messages_weight_info \<Rightarrow> u32 \<Rightarrow> 'w \<Rightarrow> u32 \<Rightarrow> message_nonce \<Rightarrow> message_nonce \<Rightarrow> bool" where
  "check_message_lane_weights W I max_extrinsic_size max_extrinsic_weight bridged_chain_extra_storage_proof_size
     this_chain_max_unrewarded_relayers this_chain_max_unconfirmed_messages \<longleftrightarrow>
     ensure_weights_are_correct W I \<and>
     (let max_incoming_message_proof_size =
            saturating_add bridged_chain_extra_storage_proof_size (maximal_incoming_message_size max_extrinsic_size)
      in ensure_able_to_receive_message W I max_extrinsic_size max_extrinsic_weight max_incoming_message_proof_size
           (maximal_incoming_message_dispatch_weight W max_extrinsic_weight)) \<and>
     (let max_incoming_inbound_lane_data_proof_size =
            encoded_size_hint_u32 (8 :: u64) 0 this_chain_max_unrewarded_relayers
      in ensure_able_to_receive_confirmation W I max_extrinsic_size max_extrinsic_weight
           max_incoming_inbound_lane_data_proof_size this_chain_max_unrewarded_relayers
           this_chain_max_unconfirmed_messages)"

section \<open>What the API promises a relay\<close>

lemma map_filter_key:
  "(\<And>n p. key (g n p) = n) \<Longrightarrow> map key (List.map_filter (\<lambda>n. map_option (g n) (f n)) ns) = filter (\<lambda>n. n \<in> dom f) ns"
  by (induction ns) (auto simp: List.map_filter_def)

lemma outbound_message_details_api_nonces:
  "map omd_nonce (outbound_message_details_api W ms lane a b) =
     filter (\<lambda>n. n \<in> dom (outbound_message_data ms lane)) (nonce_range a b)"
  unfolding outbound_message_details_api_def by (rule map_filter_key) simp

text \<open>
  In every state of the pallet, the details of messages whose delivery is not confirmed are complete:
  the API answers with all requested nonces, in order, and the relay accepts the answer.
\<close>

lemma outbound_details_complete:
  assumes "messages_inv C ms" and "latest_received_nonce (pallet_outbound_lane_data ms lane) < a"
    and "b \<le> latest_generated_nonce (pallet_outbound_lane_data ms lane)"
  shows "map omd_nonce (outbound_message_details_api W ms lane a b) = nonce_range a b"
    and "validate_out_msgs_details (outbound_message_details_api W ms lane a b) (a, b) = Inr ()"
proof -
  have stored: "{latest_received_nonce (pallet_outbound_lane_data ms lane)<..latest_generated_nonce (pallet_outbound_lane_data ms lane)}
      \<subseteq> dom (outbound_message_data ms lane)"
    using assms(1) by (simp add: messages_inv_def outbound_lane_ok_def outbound_store_ok_def)
  have "\<forall>n \<in> set (nonce_range a b). n \<in> dom (outbound_message_data ms lane)"
    using stored assms(2,3) nonce_range_bounds by (meson greaterThanAtMost_iff in_mono order.strict_trans2 order_trans)
  then show n: "map omd_nonce (outbound_message_details_api W ms lane a b) = nonce_range a b"
    by (simp add: outbound_message_details_api_nonces)
  show "validate_out_msgs_details (outbound_message_details_api W ms lane a b) (a, b) = Inr ()"
    unfolding validate_out_msgs_details_spec using n by auto
qed

section \<open>An XCM program from one chain to the other\<close>

text \<open>
  A hauled program is stored as the next message of the lane, or reported as not sent with the pallet
  unchanged. When the receiving chain decodes the payload of that message, it hands the same program to
  the dispatcher of XCM programs, exactly once.
\<close>

lemma hauled_blob_is_dispatched:
  assumes h: "haul_blob C origin lane blob x ms = Some (Inr ms')"
    and decode: "decode (mc_encode_outbound_payload C blob) = Inr blob"
  shows "\<exists>nonce payload. outbound_message_data ms' lane nonce = Some payload \<and>
    nonce = latest_generated_nonce (pallet_outbound_lane_data ms lane) + 1 \<and>
    snd (xcm_blob_dispatch W dispatch_blob relayer
      (dispatch_message_from decode \<lparr>msg_key = \<lparr>mk_lane_id = lane, mk_nonce = nonce\<rparr>, msg_payload = payload\<rparr>) y) =
    snd (dispatch_blob blob y)"
proof -
  obtain r where "send_message C origin lane blob x ms = Some r"
    and "map_sum (\<lambda>_. HaulTransport ''MessageSenderError'') snd r = Inr ms'"
    using h by (auto simp: haul_blob_def)
  then obtain a where s: "send_message C origin lane blob x ms = Some (Inr (a, ms'))"
    by (cases r) auto
  note e = send_message_effect [OF s]
  have "outbound_message_data ms' lane (sma_nonce a) = Some (mc_encode_outbound_payload C blob)"
    using e by simp
  then show ?thesis
    using e decode
    by (intro exI [of _ "sma_nonce a"] exI [of _ "mc_encode_outbound_payload C blob"])
       (simp add: xcm_blob_dispatch_def dispatch_message_from_def dispatch_message_data_from_def case_prod_beta)
qed

lemma haul_blob_total:
  "haul_blob C origin lane blob x ms = Some (Inl (HaulTransport ''MessageSenderError'')) \<and> send_rejection C origin lane blob x ms \<noteq> None \<or>
   (\<exists>ms'. haul_blob C origin lane blob x ms = Some (Inr ms') \<and> send_rejection C origin lane blob x ms = None)"
proof (cases "send_rejection C origin lane blob x ms")
  case None
  obtain a ms' where "send_message C origin lane blob x ms = Some (Inr (a, ms'))"
    by (rule send_message_accepted [OF None])
  then show ?thesis using None by (simp add: haul_blob_def)
next
  case (Some e)
  then show ?thesis using send_message_rejected [OF Some] by (simp add: haul_blob_def)
qed

section \<open>The size of a confirmation\<close>

text \<open>
  The check of the lane's weights leaves out the accounts of the relayers: for accounts of 32 bytes
  the data of a full lane is larger than the size that is checked, by the accounts of all entries.
\<close>

lemma checked_lane_data_size_without_accounts:
  assumes "n \<le> 1000"
  shows "encoded_size_hint (8 :: u64) 0 n = Some (n * 16 + 8)"
    and "encoded_size_hint (8 :: u64) 32 n = Some (n * 48 + 8)"
proof -
  have "unat n \<le> 1000" using assms by (simp add: word_le_nat_alt)
  then show "encoded_size_hint (8 :: u64) 0 n = Some (n * 16 + 8)"
    and "encoded_size_hint (8 :: u64) 32 n = Some (n * 48 + 8)"
    by (simp_all add: encoded_size_hint_def checked_add_def checked_mul_def unat_word_ariths unat_lt_64)
qed

end
