(* ===== verification/Spec2Isabelle.thy ===== *)
theory Spec2Isabelle
  imports Messages_Properties Grandpa_Properties Parachains_Properties Relayers_Properties Protocol_Properties
    Refund_Properties Lane_Loop Relay_Properties Beefy_Properties Session_Manager Finality_Properties
    On_Demand_Properties Substrate_Client Delivery_Limits Runtime_Api
begin

text \<open>
  A verification development for Parity Bridges Common: a trustless bridge between two Substrate
  chains. Its parts are pallets that run on the chains, the glue that builds a bridge from them in a
  runtime, and relays, off-chain programs that carry headers, messages and confirmations. Paths below
  are relative to \<open>src/\<close>.

  \<^bold>\<open>The program and how its parts interact.\<close> On every chain a light client of the other chain stores
  finalized headers: the GRANDPA pallet (\<open>modules/grandpa\<close>), the parachains pallet (\<open>modules/parachains\<close>),
  which reads heads of parachains from the state below a stored relay chain header, or the BEEFY pallet
  (\<open>modules/beefy\<close>). The messages pallet (\<open>modules/messages\<close>) keeps lanes: an outbound lane stores sent
  messages until their delivery is confirmed, an inbound lane dispatches messages in the order of their
  nonces and remembers who delivered them. The runtime glue (\<open>bin/runtime-common\<close>) verifies proofs of the
  lanes of the other chain against the state roots of its light client. The relayers pallet
  (\<open>modules/relayers\<close>) registers rewards for confirmed messages, and a transaction extension refunds the
  fees of useful transactions. The finality and parachains relays (\<open>relays/finality\<close>,
  \<open>relays/parachains\<close>) keep the light clients up to date, on demand
  (\<open>relays/lib-substrate-relay/src/on_demand\<close>) or always, and the messages relay (\<open>relays/messages\<close>) runs
  two races per lane, one for messages and one for confirmations. All relays use one client of a
  Substrate node (\<open>relays/client-substrate\<close>).

  \<^bold>\<open>Conventions.\<close> An integer \<open>uN\<close> is an \<open>N word\<close>; checked, saturating and wrapping arithmetic is that of
  \<open>Rust_Prelude\<close>. A struct is a record, an enum a datatype, a \<open>Result\<close> a sum with the error on the left, a
  storage map a partial function and a \<open>BTreeMap\<close> the ordered list of its entries. A call takes the state
  and returns the new one; a failed call has no effect, as in FRAME. A panic, or a loop that does not
  end, is the outer \<open>None\<close>. Loops of relays are functions on the variables of the loop that take the next
  completed future as an event; a client is a record of its answers.

  \<^bold>\<open>Foundations.\<close>
  \<^item> \<open>Rust_Prelude\<close>, \<open>Btree_Map\<close>, \<open>Frame_Weights\<close>: arithmetic, ordered maps (the interface \<open>ordered_map\<close>), and
    weights as a record of operations with their documented behaviour \<open>weight_laws\<close>.
  \<^item> \<open>Bridge_Runtime\<close>, \<open>Storage_Proof\<close>, \<open>Sample_Trie\<close> (\<open>primitives/runtime\<close>): header identifiers, operating
    modes, storage keys and storage proofs. The interface \<open>owned_bridge_module\<close> is interpreted by all four
    pallets that have an owner; its lemmas say who may change the owner and the mode. The trie of
    Substrate is a parameter with \<open>trie_laws\<close>; \<open>Sample_Trie\<close> has an instance for the examples.
  \<^item> \<open>Ring_Import\<close>: the ring buffers of imported headers, as an interface that the GRANDPA, parachains and
    BEEFY pallets interpret; it gives the invariant and which imports are still stored.

  \<^bold>\<open>Light clients.\<close>
  \<^item> \<open>Justification\<close>, \<open>Header_Chain\<close> (\<open>primitives/header-chain\<close>): verification and optimization of GRANDPA
    justifications. An accepted justification has votes of distinct authorities with more than two thirds
    of the weight for the block or its descendants; the verification is total.
  \<^item> \<open>Grandpa_Pallet\<close>, \<open>Grandpa_Properties\<close>: all calls, the transaction pool check and the queries. Every
    served state root comes from a header that a trusted authority set has finalized; the behaviour of
    the calls on every branch; the invariant of reachable states.
  \<^item> \<open>Parachains_Pallet\<close>, \<open>Parachains_Properties\<close>: stored heads are the heads of the relay chain state.
  \<^item> \<open>Beefy_Pallet\<close>, \<open>Beefy_Properties\<close>: the chain of trust from the initial authority set to every stored
    MMR root, when a commitment is accepted, the invariant. \<open>Session_Manager\<close>: the validators of the test
    chains (\<open>modules/shift-session-manager\<close>).

  \<^bold>\<open>Messages and rewards.\<close>
  \<^item> \<open>Messages_Primitives\<close>, \<open>Messages_Keys\<close>, \<open>Messages_Weights\<close>: lane data, storage keys, weight formulas.
  \<^item> \<open>Inbound_Lane\<close>, \<open>Outbound_Lane\<close>: the lanes over an abstract storage. The interfaces \<open>inbound_storage\<close>
    and \<open>outbound_storage\<close> state the laws of the storage, and are interpreted on the pallet's storage.
  \<^item> \<open>Messages_Pallet\<close>, \<open>Messages_Delivery\<close>, \<open>Messages_Invariants\<close>, \<open>Messages_Properties\<close>: all calls and the
    hook \<open>on_idle\<close>; the pallet as a transition relation and its invariant; order of delivery, exact
    confirmations, weights, pruning, and the refinement of an abstract queue by an inbound lane.
  \<^item> \<open>Runtime_Messages\<close>, \<open>Runtime_Messages_Properties\<close>: proofs of messages and of deliveries are authentic,
    and honest proofs are accepted.
  \<^item> \<open>Lane_Protocol\<close>, \<open>Protocol_Properties\<close>: two chains whose steps interleave in any way, each with the
    whole messages pallet. The first property of this theory, exactly-once delivery, is about them.
  \<^item> \<open>Relayers\<close>, \<open>Relayers_Properties\<close>, \<open>Call_Extensions\<close>, \<open>Refund_Properties\<close>: the ledger of rewards, the
    extension that rejects obsolete calls and the one that refunds relayers.
  \<^item> \<open>Runtime_Api\<close>: the runtime API for relays, XCM programs over a lane, and the check of a lane's weights.

  \<^bold>\<open>Relays.\<close>
  \<^item> \<open>Relay_Utils\<close>, \<open>Substrate_Client\<close>: results of futures; the client of a node, the tracker of a
    submitted transaction and the guards of a relay.
  \<^item> \<open>Race_Loop\<close>, \<open>Lane_Loop\<close>, \<open>Relay_Strategy\<close>, \<open>Relay_Delivery\<close>, \<open>Relay_Clients\<close>, \<open>Relay_Acceptance\<close>,
    \<open>Relay_Properties\<close>: the messages relay. The interface \<open>race_strategy_contract\<close> between the race loop
    and its strategies and the interface \<open>nonces_ranges\<close> between a strategy and its nonces are interpreted
    on both races. Shown is that a selected batch keeps to its limits and that the pallet of the target
    delivers it. \<open>Delivery_Limits\<close>: the choice of these limits.
  \<^item> \<open>Finality_Loop\<close>, \<open>Finality_Selection\<close>, \<open>Finality_Clients\<close>, \<open>Finality_Properties\<close>: the finality relay
    selects the first missing mandatory header or else the best provable one, the GRANDPA pallet accepts
    it, and stays in sync with the chain from its initialization on.
  \<^item> \<open>Parachains_Relay\<close>, \<open>Parachains_Relay_Properties\<close>, \<open>On_Demand\<close>, \<open>On_Demand_Properties\<close>: the parachains
    relay makes the pallet store the new head; the on-demand relays never wait for what cannot come, and
    their proofs cover the required header.

  \<^bold>\<open>Loops and bounds.\<close> There is no fuel. Loops over data are structural or have a termination proof.
  Loops that may not end in the code are partial functions, with a lemma that they return where it
  matters: the pruning of \<open>on_idle\<close> for every state that satisfies the invariant, the keys of a messages
  proof unless the last nonce is the largest one, the guess of the authority set when the set is correct,
  and the searches for mandatory headers. Hypotheses such as a nonce being less than the largest one
  appear where the code would wrap around.

  \<^bold>\<open>What is assumed.\<close> Substrate, FRAME, the GRANDPA and XCM libraries, hash functions and the SCALE codec
  are parameters. The laws that theorems assume of them are named (\<open>trie_laws\<close>, \<open>weight_laws\<close>,
  \<open>voter_set_laws\<close>, \<open>voter_set_new_laws\<close>, \<open>db_weight_laws\<close> and the hypotheses of \<open>uses_bridge\<close>), and the witnesses satisfy
  them with concrete functions.

  \<^bold>\<open>Not modelled.\<close> Nodes, test runtimes and chain declarations (construction from library pieces and
  constants), benchmarks, mocks and generated weights (numbers, which are parameters here), generated
  runtime types and the generator (\<open>tools/runtime-codegen\<close>), the command line of the relay
  (\<open>relays/bin-substrate\<close>: argument parsing and the start of the loops above), metrics and logging (no effect
  on the bridge), the RPC transport with its reconnection, and durations: timers are events, and a
  backoff delay only postpones them. The checks of \<open>integrity.rs\<close> other than the lane's weights compare
  constants of a concrete runtime.
\<close>

section \<open>Two chains and the lanes between them\<close>

text \<open>
  C1: messages are dispatched exactly once and in order. Take two chains whose messages pallets
  verify proofs against headers of the other chain, and any interleaving of their steps. On every
  lane the target has dispatched exactly the messages with the nonces \<open>1\<close> to the last delivered one,
  in this order and each of them once, each with the payload that the source has sent with that
  nonce, which is unique. The last confirmed nonce of the source is at most the last delivered one,
  and that is at most the last nonce that the source has generated.
\<close>

theorem messages_delivered_exactly_once:
  assumes "trie_laws RT (mb_trie BS)" and "uses_bridge CS BS" and "trie_laws RS (mb_trie BT)" and "uses_bridge CT BT"
    and "logs_dispatch CT dispatch_log content" and "dispatch_log xt = []"
    and "(two_chains_step RS RT CS BS CT BT dispatch_log)\<^sup>*\<^sup>* (two_chains_start xs xt) c"
  shows "list_all2 (\<lambda>i entry. fst entry = \<lparr>mk_lane_id = lane, mk_nonce = of_nat i\<rparr> \<and>
          (\<exists>!p. was_sent c lane (of_nat i) p) \<and>
          (\<exists>p. was_sent c lane (of_nat i) p \<and> snd entry = content (mc_decode_inbound_payload CT p)))
        [1..<Suc (unat (delivered (tc_target c) lane))]
        (filter (\<lambda>entry. mk_lane_id (fst entry) = lane) (dispatch_log (tc_target_world c))) \<and>
     confirmed (tc_source c) lane \<le> delivered (tc_target c) lane \<and>
     delivered (tc_target c) lane \<le> generated (tc_source c) lane"
proof -
  have inv: "two_chains_inv CT dispatch_log content c"
    by (rule two_chains_reachable_inv [OF assms(7,6,1-5)])
  then have s: "source_inv c" and t: "target_inv c"
    and log: "log_matches c (content \<circ> mc_decode_inbound_payload CT) lane (delivered (tc_target c) lane)
        (dispatch_log (tc_target_world c))" by (simp_all add: two_chains_inv_def)
  have unique: "\<exists>!p. was_sent c lane n p" if "was_sent c lane n p" for n p
    using s that unfolding source_inv_def by blast
  have "list_all2 (\<lambda>i entry. fst entry = \<lparr>mk_lane_id = lane, mk_nonce = of_nat i\<rparr> \<and>
          (\<exists>!p. was_sent c lane (of_nat i) p) \<and>
          (\<exists>p. was_sent c lane (of_nat i) p \<and> snd entry = content (mc_decode_inbound_payload CT p)))
        [1..<Suc (unat (delivered (tc_target c) lane))]
        (filter (\<lambda>entry. mk_lane_id (fst entry) = lane) (dispatch_log (tc_target_world c)))"
    using log unfolding log_matches_def by (rule list_all2_mono) (use unique in auto)
  then show ?thesis using target_invD(6,7) [OF t, of lane] by simp
qed

theorem messages_delivered_exactly_once_witness:
  "\<exists>c. sample_two_chains_step\<^sup>*\<^sup>* sample_start c \<and> delivered (tc_target c) (LaneId 0 0 0 1) = 1 \<and>
     length (filter (\<lambda>entry. mk_lane_id (fst entry) = LaneId 0 0 0 1) (snd (tc_target_world c))) = 1 \<and>
     (\<exists>!p. was_sent c (LaneId 0 0 0 1) 1 p)"
proof -
  obtain t x where reach: "sample_two_chains_step\<^sup>*\<^sup>* sample_start (sample_after t x)"
    and t: "ms_inbound_lanes t = [LaneId 0 0 0 1 \<mapsto> \<lparr>relayers = [\<lparr>ur_relayer = 5, ur_messages = \<lparr>dm_begin = 1, dm_end = 1\<rparr>\<rparr>],
       last_confirmed_nonce = 0\<rparr>]"
    by (rule sample_reaches_after)
  have d: "delivered (tc_target (sample_after t x)) (LaneId 0 0 0 1) = 1"
    by (simp add: sample_after_def pallet_inbound_lane_data_def inbound_lanes_get_def t last_delivered_nonce_def)
  note exact = messages_delivered_exactly_once [OF sample_bridges_trie(1) sample_uses_bridge(1) sample_bridges_trie(2)
      sample_uses_bridge(2) sample_logs _ reach [unfolded sample_start_def], of "LaneId 0 0 0 1", unfolded d]
  show ?thesis
    using exact reach d by (auto simp: list_all2_Cons1)
qed

text \<open>
  C10: every confirmed message is rewarded once. When the source, in any reachable state of the two
  chains, accepts a delivery confirmation and registers rewards with the adapter, the total reward
  of the relayers grows by the fee for exactly the newly confirmed messages.
\<close>

theorem confirmed_messages_rewarded_once:
  fixes CS :: "('so, 'sa::linorder, 'ta, 'th messages_proof, 'th messages_delivery_proof, 'sop, 'sp, 'sd, 'sw,
    ('sa, 'l::len word) relayers_state) messages_config"
  assumes "trie_laws RT (mb_trie BS)" and "uses_bridge CS BS" and "trie_laws RS (mb_trie BT)" and "uses_bridge CT BT"
    and "logs_dispatch CT dispatch_log content" and "dispatch_log xt = []"
    and "(two_chains_step RS RT CS BS CT BT dispatch_log)\<^sup>*\<^sup>* (two_chains_start xs xt) c"
    and "knows_headers RT BS x (tc_target_past c)"
    and "mc_pay_confirmation_reward CS = adapter_pay_reward chain fee" and "64 \<le> LENGTH('l)"
    and call: "receive_messages_delivery_proof CS origin proof st (tc_source c) x = Inr (ms', x')"
    and verified: "mc_verify_messages_delivery_proof CS proof x = Inr (lane, ld)"
    and relayers: "R = ur_relayer ` set (relayers ld)" and params: "p = rewards_account_params_new lane chain BridgedChain"
    and fits: "\<And>r. r \<in> R \<Longrightarrow> unat (relayer_reward x r p) +
      (unat (confirmed ms' lane) - unat (confirmed (tc_source c) lane)) * unat fee < 2 ^ LENGTH('l)"
  shows "(\<Sum>r \<in> R. unat (relayer_reward x' r p)) =
    (\<Sum>r \<in> R. unat (relayer_reward x r p)) +
      (unat (confirmed ms' lane) - unat (confirmed (tc_source c) lane)) * unat fee"
proof -
  have inv: "target_inv c"
    using two_chains_reachable_inv [OF assms(7,6,1-5)] by (simp add: two_chains_inv_def)
  define N where "N = {n. confirmed (tc_source c) lane < n \<and> n \<le> confirmed ms' lane}"
  let ?by = "delivered_by (relayers ld) N"
  have card: "card N = unat (confirmed ms' lane) - unat (confirmed (tc_source c) lane)"
    unfolding N_def by (rule card_newer)
  have le: "card (?by r) \<le> card N" for r by (intro card_mono) (auto simp: delivered_by_def)
  have "unat (relayer_reward x r p) + card (?by r) * unat fee < 2 ^ LENGTH('l)" if "r \<in> R" for r
    using fits [OF that] mult_le_mono1 [OF le [of r], of "unat fee"] unfolding card by linarith
  then have each: "unat (relayer_reward x' r p) = unat (relayer_reward x r p) + card (?by r) * unat fee" if "r \<in> R" for r
    using confirmation_rewards [OF assms(9,10) call verified N_def params] that by blast
  have "(\<Sum>r \<in> R. card (?by r)) = card N"
  proof (cases "N = {}")
    case False
    then obtain n where n: "confirmed (tc_source c) lane < n" "n \<le> confirmed ms' lane" by (auto simp: N_def)
    note q = newly_confirmed_in_queue [OF inv assms(1,2,8) call verified]
    show ?thesis
      unfolding relayers by (rule sum_delivered_by) (use q n in \<open>auto simp: N_def\<close>)
  qed (simp add: delivered_by_def)
  then show ?thesis by (simp add: each sum.distrib sum_distrib_right [symmetric] card)
qed

theorem confirmed_messages_rewarded_once_witness:
  "\<exists>ms' x'. receive_messages_delivery_proof sample_source_config (Some 1) sample_confirmation
       \<lparr>unrewarded_relayer_entries = 1, messages_in_oldest_entry = 1, total_messages_in_state = 1,
        last_delivered_nonce_in_state = 1\<rparr> sample_sent sample_rewards = Inr (ms', x') \<and>
     unat (relayer_reward x' 5 (rewards_account_params_new (LaneId 0 0 0 1) (1, 2, 3, 4) BridgedChain)) = 50"
proof -
  let ?st = "\<lparr>unrewarded_relayer_entries = 1, messages_in_oldest_entry = 1, total_messages_in_state = 1,
        last_delivered_nonce_in_state = 1\<rparr>"
  let ?p = "rewards_account_params_new (LaneId 0 0 0 1) (1, 2, 3, 4) BridgedChain"
  obtain t log where reach: "sample_two_chains_step\<^sup>*\<^sup>* sample_start (sample_after t log)"
    and t: "stores_messages_pallet sample_source_bridge (map_of sample_delivered_storage) t"
    by (rule sample_reaches_after) blast
  obtain ms' x' where run: "receive_messages_delivery_proof sample_source_config (Some 1) sample_confirmation ?st
      sample_sent sample_rewards = Inr (ms', x')" and new: "confirmed ms' (LaneId 0 0 0 1) = 1"
    using sample_confirm_step by blast
  have src: "tc_source (sample_after t log) = sample_sent" by (simp add: sample_after_def sample_before_def)
  have known: "knows_headers sample_root_of sample_source_bridge sample_rewards (tc_target_past (sample_after t log))"
    using t by (auto simp: sample_knows sample_after_def)
  have "(\<Sum>r \<in> {5}. unat (relayer_reward x' r ?p)) = (\<Sum>r \<in> {5}. unat (relayer_reward sample_rewards r ?p)) + (1 - 0) * unat (50 :: 128 word)"
    using confirmed_messages_rewarded_once [where R = "{5}" and fee = 50 and chain = "(1, 2, 3, 4)", OF sample_bridges_trie(1)
        sample_uses_bridge(1) sample_bridges_trie(2) sample_uses_bridge(2) sample_logs _ reach [unfolded sample_start_def] known _ _
        run [folded src] sample_confirmation_verified _ refl] new src
    by (simp add: sample_source_config_simps sample_rewards_def relayer_reward_def sample_sent_confirmed)
  then show ?thesis using run by (auto simp: sample_rewards_def relayer_reward_def)
qed

end
